(* ===== verification/Prelude.thy ===== *)
theory Prelude
  imports Main "HOL-Library.Char_ord" "HOL-Library.List_Lexorder"
begin

text \<open>
  What every component of the development shares: results of fallible operations, Python's
  string helpers and datetimes, and the database idioms the services use on every table
  (the row with the largest sequence number, the next sequence number of a per-key log).
  A relational table is a list of rows in insertion order; a query is a filter over it.
\<close>

named_theorems res_simps "rewriting of results of fallible operations"
named_theorems row_simps "frame rules of the table updates"

section \<open>Results\<close>

text \<open>A call that may raise returns \<open>Inl e\<close> for the exception and \<open>Inr x\<close> for a value.\<close>

fun bindR :: "'e + 'a \<Rightarrow> ('a \<Rightarrow> 'e + 'b) \<Rightarrow> 'e + 'b" where
  "bindR (Inl e) f = Inl e"
| "bindR (Inr x) f = f x"

lemma bindR_Inr [res_simps]: "bindR m f = Inr y \<longleftrightarrow> (\<exists>x. m = Inr x \<and> f x = Inr y)"
  by (cases m) auto

lemma bindR_Inl [res_simps]:
  "bindR m f = Inl e \<longleftrightarrow> m = Inl e \<or> (\<exists>x. m = Inr x \<and> f x = Inl e)"
  by (cases m) auto

definition isOk :: "'e + 'a \<Rightarrow> bool" where
  "isOk r = (case r of Inl _ \<Rightarrow> False | Inr _ \<Rightarrow> True)"

lemma isOk_simps [simp]: "isOk (Inr x)" "\<not> isOk (Inl e)"
  by (simp_all add: isOk_def)

lemma isOkE: "isOk r \<Longrightarrow> (\<And>x. r = Inr x \<Longrightarrow> P) \<Longrightarrow> P"
  by (cases r) auto

section \<open>Python strings\<close>

text \<open>
  A Python \<open>str\<close> is modelled by its UTF-8 bytes. \<open>str.strip\<close> removes the ASCII whitespace.
\<close>

definition is_space :: "char \<Rightarrow> bool" where
  "is_space c = (let n = (of_char c :: nat) in n = 32 \<or> (9 \<le> n \<and> n \<le> 13) \<or> (28 \<le> n \<and> n \<le> 31))"

definition py_strip :: "string \<Rightarrow> string" where
  "py_strip s = rev (dropWhile is_space (rev (dropWhile is_space s)))"

definition is_blank :: "string \<Rightarrow> bool" where
  "is_blank s \<longleftrightarrow> (\<forall>c\<in>set s. is_space c)"

definition lower_char :: "char \<Rightarrow> char" where
  "lower_char c = (let n = (of_char c :: nat) in if 65 \<le> n \<and> n \<le> 90 then char_of (n + 32) else c)"

definition py_lower :: "string \<Rightarrow> string" where
  "py_lower s = map lower_char s"

lemma py_strip_Nil_iff: "py_strip s = [] \<longleftrightarrow> is_blank s"
proof -
  have "py_strip s = [] \<longleftrightarrow> (\<forall>c\<in>set (dropWhile is_space s). is_space c)"
    by (simp add: py_strip_def)
  also have "\<dots> \<longleftrightarrow> (\<forall>c\<in>set s. is_space c)"
    by (induction s) auto
  finally show ?thesis by (simp add: is_blank_def)
qed

lemma dropWhile_dropWhile [simp]: "dropWhile P (dropWhile P xs) = dropWhile P xs"
  by (induction xs) auto

lemma dropWhile_hd: "xs \<noteq> [] \<Longrightarrow> \<not> P (hd xs) \<Longrightarrow> dropWhile P xs = xs"
  by (cases xs) auto

lemma dropWhile_rev_dropWhile:
  assumes "dropWhile P xs = xs"
  shows "dropWhile P (rev (dropWhile P (rev xs))) = rev (dropWhile P (rev xs))"
proof (cases "rev (dropWhile P (rev xs)) = []")
  case True
  then show ?thesis by (simp only: dropWhile.simps)
next
  case False
  obtain ys where ys: "xs = rev (dropWhile P (rev xs)) @ ys"
    by (metis rev_append rev_rev_ident takeWhile_dropWhile_id)
  then have xs: "xs \<noteq> []" "hd xs = hd (rev (dropWhile P (rev xs)))"
    using False by (metis Nil_is_append_conv, metis hd_append2)
  have "\<not> P (hd xs)"
    using assms xs(1) by (metis hd_dropWhile)
  then show ?thesis using False xs(2) by (simp add: dropWhile_hd)
qed

lemma py_strip_idem [simp]: "py_strip (py_strip s) = py_strip s"
  by (simp add: py_strip_def dropWhile_rev_dropWhile)

text \<open>\<open>value or ""\<close> followed by \<open>.strip()\<close>, and the truth value of a string option.\<close>

definition strip_or_empty :: "string option \<Rightarrow> string" where
  "strip_or_empty v = (case v of None \<Rightarrow> [] | Some s \<Rightarrow> py_strip s)"

definition truthy :: "string option \<Rightarrow> bool" where
  "truthy v = (case v of None \<Rightarrow> False | Some s \<Rightarrow> s \<noteq> [])"

section \<open>Python datetimes\<close>

text \<open>
  A datetime is a wall-clock reading in microseconds since 1970-01-01T00:00 and, when it is
  timezone-aware, its offset from UTC in microseconds. The services treat a naive value as UTC.
\<close>

datatype pydatetime = Naive int | Aware int int

fun utc_of :: "pydatetime \<Rightarrow> int" where
  "utc_of (Naive w) = w"
| "utc_of (Aware w off) = w - off"

definition day_us :: int where
  "day_us = 86400000000"

fun plus_days :: "pydatetime \<Rightarrow> int \<Rightarrow> pydatetime" where
  "plus_days (Naive w) d = Naive (w + d * day_us)"
| "plus_days (Aware w off) d = Aware (w + d * day_us) off"

lemma utc_of_plus_days [simp]: "utc_of (plus_days t d) = utc_of t + d * day_us"
  by (cases t) auto

text \<open>An optional argument that is given and satisfies a condition.\<close>

definition opt_any :: "'v option \<Rightarrow> ('v \<Rightarrow> bool) \<Rightarrow> bool" where
  "opt_any v P = (case v of None \<Rightarrow> False | Some x \<Rightarrow> P x)"

lemma opt_any_simps [simp]: "\<not> opt_any None P" "opt_any (Some x) P = P x"
  by (simp_all add: opt_any_def)

section \<open>Rows ordered by a key\<close>

text \<open>\<open>ORDER BY key DESC LIMIT 1\<close>: a row with the largest key (the earliest such row).\<close>

fun latest_by :: "('r \<Rightarrow> int) \<Rightarrow> 'r list \<Rightarrow> 'r option" where
  "latest_by f [] = None"
| "latest_by f (x # xs) =
     (case latest_by f xs of None \<Rightarrow> Some x | Some y \<Rightarrow> if f x \<ge> f y then Some x else Some y)"

lemma latest_by_None [simp]: "latest_by f xs = None \<longleftrightarrow> xs = []"
  by (cases xs) (auto split: option.splits)

lemma latest_by_Some:
  "latest_by f xs = Some r \<Longrightarrow> r \<in> set xs \<and> (\<forall>x\<in>set xs. f x \<le> f r)"
  by (induction xs arbitrary: r) (fastforce split: option.splits if_splits)+

lemma latest_by_in: "latest_by f xs = Some r \<Longrightarrow> r \<in> set xs"
  by (simp add: latest_by_Some)

lemma latest_by_ge: "latest_by f xs = Some r \<Longrightarrow> x \<in> set xs \<Longrightarrow> f x \<le> f r"
  by (simp add: latest_by_Some)

lemma latest_by_append_greater:
  "(\<And>x. x \<in> set xs \<Longrightarrow> f x < f r) \<Longrightarrow> latest_by f (xs @ [r]) = Some r"
  by (induction xs) (fastforce split: option.splits)+

lemma latest_by_eqI:
  assumes "r \<in> set xs" "\<And>x. x \<in> set xs \<Longrightarrow> x \<noteq> r \<Longrightarrow> f x < f r"
  shows "latest_by f xs = Some r"
proof -
  obtain m where m: "latest_by f xs = Some m"
    using assms(1) by (cases "latest_by f xs") auto
  then have "m \<in> set xs" "f r \<le> f m"
    using latest_by_Some[OF m] assms(1) by auto
  then have "m = r" using assms(2)[of m] by force
  then show ?thesis using m by simp
qed

text \<open>\<open>MAX(key)\<close> of the rows, as SQL gives it: no value for no row.\<close>

definition max_key :: "('r \<Rightarrow> int) \<Rightarrow> 'r list \<Rightarrow> int option" where
  "max_key f xs = map_option f (latest_by f xs)"

text \<open>\<open>scalar_one_or_none()\<close>: the row if there is exactly one.\<close>

definition one_or_none :: "'r list \<Rightarrow> 'r option" where
  "one_or_none xs = (case xs of [x] \<Rightarrow> Some x | _ \<Rightarrow> None)"

lemma one_or_none_Some: "one_or_none xs = Some r \<longleftrightarrow> xs = [r]"
  by (auto simp: one_or_none_def split: list.splits)

section \<open>Logs numbered per key\<close>

text \<open>
  The append-only tables of the platform (the audit chains, the breach actions, the
  entitlement requests) number their rows per key under a lock: the next number is one more
  than the largest of the key. The locale states what such a log relies on, and derives that
  a log grown only by appending is numbered 1, 2, 3, ... for every key.
\<close>

locale seq_log =
  fixes key :: "'r \<Rightarrow> 'k"
    and num :: "'r \<Rightarrow> int"
    and next_num :: "'k \<Rightarrow> 'r list \<Rightarrow> int"
  assumes next_num_eq:
    "next_num k rows = (case max_key num (filter (\<lambda>r. key r = k) rows) of
       None \<Rightarrow> 1 | Some m \<Rightarrow> m + 1)"
begin

definition of_key :: "'k \<Rightarrow> 'r list \<Rightarrow> 'r list" where
  "of_key k rows = filter (\<lambda>r. key r = k) rows"

definition numbered :: "'r list \<Rightarrow> bool" where
  "numbered rows \<longleftrightarrow> (\<forall>k. map num (of_key k rows) = map int [1..<Suc (length (of_key k rows))])"

lemma numbered_Nil: "numbered []"
  by (simp add: numbered_def of_key_def)

lemma nums_of_key:
  assumes "numbered rows"
  shows "num ` set (of_key k rows) = int ` {1..length (of_key k rows)}"
proof -
  have "map num (of_key k rows) = map int [1..<Suc (length (of_key k rows))]"
    using assms by (simp add: numbered_def)
  then have "set (map num (of_key k rows)) = set (map int [1..<Suc (length (of_key k rows))])"
    by (rule arg_cong)
  then show ?thesis by (auto simp: atLeastLessThanSuc_atLeastAtMost)
qed

lemma next_num_length:
  assumes "numbered rows"
  shows "next_num k rows = int (length (of_key k rows)) + 1"
proof (cases "latest_by num (of_key k rows)")
  case None
  then show ?thesis by (simp add: next_num_eq max_key_def of_key_def)
next
  case (Some r)
  let ?n = "length (of_key k rows)"
  have nums: "num ` set (of_key k rows) = int ` {1..?n}"
    using assms by (rule nums_of_key)
  have r: "r \<in> set (of_key k rows)" "\<forall>x\<in>set (of_key k rows). num x \<le> num r"
    using latest_by_Some[OF Some] by auto
  then have "?n \<ge> 1" by (cases "of_key k rows") auto
  then have "int ?n \<in> num ` set (of_key k rows)" using nums by auto
  then have "int ?n \<le> num r" using r(2) by auto
  moreover have "num r \<le> int ?n" using r(1) nums by force
  ultimately show ?thesis
    using Some by (simp add: next_num_eq max_key_def of_key_def)
qed

lemma numbered_append:
  assumes "numbered rows" "num r = next_num (key r) rows"
  shows "numbered (rows @ [r])"
  unfolding numbered_def
proof
  fix k
  have k: "map num (of_key k rows) = map int [1..<Suc (length (of_key k rows))]"
    using assms(1) by (simp add: numbered_def)
  show "map num (of_key k (rows @ [r])) = map int [1..<Suc (length (of_key k (rows @ [r])))]"
  proof (cases "key r = k")
    case True
    then have "num r = int (Suc (length (of_key k rows)))"
      using assms next_num_length[OF assms(1), of k] by simp
    then show ?thesis using True k by (simp add: of_key_def)
  next
    case False
    then show ?thesis using k by (simp add: of_key_def)
  qed
qed

lemma next_num_fresh:
  assumes "numbered rows" "r \<in> set rows"
  shows "num r < next_num (key r) rows"
proof -
  have "r \<in> set (of_key (key r) rows)" using assms(2) by (simp add: of_key_def)
  then have "num r \<in> int ` {1..length (of_key (key r) rows)}"
    using nums_of_key[OF assms(1)] by blast
  then show ?thesis using next_num_length[OF assms(1)] by auto
qed

lemma numbered_distinct:
  assumes "numbered rows"
  shows "distinct (map num (of_key k rows))"
proof -
  have "map num (of_key k rows) = map int [1..<Suc (length (of_key k rows))]"
    using assms by (simp add: numbered_def)
  then show ?thesis by (simp add: distinct_map)
qed

lemma numbered_inj:
  assumes "numbered rows" "r \<in> set rows" "r' \<in> set rows" "key r = key r'" "num r = num r'"
  shows "r = r'"
proof -
  have "inj_on num (set (of_key (key r) rows))"
    using numbered_distinct[OF assms(1), of "key r"] by (simp add: distinct_map)
  moreover have "r \<in> set (of_key (key r) rows)" "r' \<in> set (of_key (key r) rows)"
    using assms(2-4) by (auto simp: of_key_def)
  ultimately show ?thesis using assms(5) by (auto dest: inj_onD)
qed

lemma latest_of_append:
  assumes "numbered rows" "num r = next_num (key r) rows"
  shows "latest_by num (of_key (key r) (rows @ [r])) = Some r"
proof -
  have "latest_by num (of_key (key r) rows @ [r]) = Some r"
    by (rule latest_by_append_greater)
       (use assms next_num_fresh[OF assms(1)] in \<open>force simp: of_key_def\<close>)
  then show ?thesis by (simp add: of_key_def)
qed

end

end
