(* ===== verification/Calendar.thy ===== *)
theory Calendar
  imports Prelude
begin

text \<open>
  Python's proleptic Gregorian calendar as the platform uses it (\<open>datetime.date\<close>, its ordinal,
  \<open>weekday\<close> and \<open>calendar.monthrange\<close>) and the pure business-day arithmetic of \<open>calmath.py\<close>:
  the last weekday and the last business day of a month and the month-end predicate.
  A holiday set is an argument, as it is in the code. Years are not bounded by 9999 here.
\<close>

section \<open>Dates and their order\<close>

datatype date = Date (year: int) (month: int) (day: int)

instantiation date :: linorder
begin

definition less_eq_date :: "date \<Rightarrow> date \<Rightarrow> bool" where
  "less_eq_date d e = (year d < year e \<or> (year d = year e \<and>
     (month d < month e \<or> (month d = month e \<and> day d \<le> day e))))"

definition less_date :: "date \<Rightarrow> date \<Rightarrow> bool" where
  "less_date d e = (year d < year e \<or> (year d = year e \<and>
     (month d < month e \<or> (month d = month e \<and> day d < day e))))"

instance
proof
  fix x y z :: date
  show "(x < y) = (x \<le> y \<and> \<not> y \<le> x)" by (auto simp: less_eq_date_def less_date_def)
  show "x \<le> x" by (simp add: less_eq_date_def)
  show "x \<le> y \<Longrightarrow> y \<le> z \<Longrightarrow> x \<le> z" by (auto simp: less_eq_date_def)
  show "x \<le> y \<Longrightarrow> y \<le> x \<Longrightarrow> x = y" by (auto simp: less_eq_date_def intro: date.expand)
  show "x \<le> y \<or> y \<le> x" by (auto simp: less_eq_date_def)
qed

end

definition is_leap :: "int \<Rightarrow> bool" where
  "is_leap y \<longleftrightarrow> y mod 4 = 0 \<and> (y mod 100 \<noteq> 0 \<or> y mod 400 = 0)"

definition days_in_month :: "int \<Rightarrow> int \<Rightarrow> int" where
  "days_in_month y m =
     (if m = 2 then (if is_leap y then 29 else 28)
      else if m = 4 \<or> m = 6 \<or> m = 9 \<or> m = 11 then 30 else 31)"

definition valid_date :: "date \<Rightarrow> bool" where
  "valid_date d \<longleftrightarrow> 1 \<le> year d \<and> 1 \<le> month d \<and> month d \<le> 12 \<and>
     1 \<le> day d \<and> day d \<le> days_in_month (year d) (month d)"

definition days_before_year :: "int \<Rightarrow> int" where
  "days_before_year y = (let z = y - 1 in z * 365 + z div 4 - z div 100 + z div 400)"

definition days_before_month :: "int \<Rightarrow> int \<Rightarrow> int" where
  "days_before_month y m =
     (if m \<le> 1 then 0 else if m = 2 then 31
      else (if is_leap y then 1 else 0) +
        (if m = 3 then 59 else if m = 4 then 90 else if m = 5 then 120 else if m = 6 then 151
         else if m = 7 then 181 else if m = 8 then 212 else if m = 9 then 243
         else if m = 10 then 273 else if m = 11 then 304 else if m = 12 then 334 else 365))"

definition to_ord :: "date \<Rightarrow> int" where
  "to_ord d = days_before_year (year d) + days_before_month (year d) (month d) + day d"

definition weekday :: "int \<Rightarrow> int" where
  "weekday n = (n + 6) mod 7"

text \<open>\<open>date.fromordinal\<close>: the year of a day number, then the month by its cumulated days.\<close>

definition year_of_ord :: "int \<Rightarrow> int" where
  "year_of_ord n = (let e = (400 * (n - 1)) div 146097 + 1 in
     if n \<le> days_before_year e then e - 1
     else if days_before_year (e + 1) < n then e + 1 else e)"

definition month_of_yday :: "int \<Rightarrow> int \<Rightarrow> int" where
  "month_of_yday y r = (let b = days_before_month y in
     if r \<le> b 2 then 1 else if r \<le> b 3 then 2 else if r \<le> b 4 then 3 else if r \<le> b 5 then 4
     else if r \<le> b 6 then 5 else if r \<le> b 7 then 6 else if r \<le> b 8 then 7
     else if r \<le> b 9 then 8 else if r \<le> b 10 then 9 else if r \<le> b 11 then 10
     else if r \<le> b 12 then 11 else 12)"

definition from_ord :: "int \<Rightarrow> date" where
  "from_ord n = (let y = year_of_ord n; r = n - days_before_year y; m = month_of_yday y r
     in Date y m (r - days_before_month y m))"

definition year_days :: "int \<Rightarrow> int" where
  "year_days y = (if is_leap y then 366 else 365)"

lemma div_pred:
  assumes "0 < (c::int)"
  shows "y div c = (y - 1) div c + (if y mod c = 0 then 1 else 0)"
proof (cases "y mod c = 0")
  case True
  then have "y - 1 = c * (y div c - 1) + (c - 1)" using mult_div_mod_eq[of c y] by (simp add: algebra_simps)
  then have "(y - 1) div c = y div c - 1"
    by (rule int_div_pos_eq) (use assms in auto)
  then show ?thesis using True by simp
next
  case False
  have "0 \<le> y mod c" "y mod c < c" using assms by simp_all
  then have "0 \<le> y mod c - 1" "y mod c - 1 < c" using False by linarith+
  moreover have "y - 1 = c * (y div c) + (y mod c - 1)" by simp
  ultimately have "(y - 1) div c = y div c" by (intro int_div_pos_eq)
  then show ?thesis using False by simp
qed

lemma div_bounds: "0 < (c::int) \<Longrightarrow> c * (y div c) \<le> y \<and> y < c * (y div c) + c"
  by (metis add_less_cancel_left le_add_same_cancel1 mult_div_mod_eq pos_mod_bound pos_mod_sign)

lemma days_before_year_Suc: "days_before_year (y + 1) = days_before_year y + year_days y"
proof -
  have dvd: "y mod 400 = 0 \<Longrightarrow> y mod 100 = 0" "y mod 100 = 0 \<Longrightarrow> y mod 4 = 0"
    by (auto simp: mod_eq_0_iff_dvd intro: dvd_trans[of 100 400] dvd_trans[of 4 100])
  have q: "y div 4 = (y - 1) div 4 + (if y mod 4 = 0 then 1 else 0)"
    "y div 100 = (y - 1) div 100 + (if y mod 100 = 0 then 1 else 0)"
    "y div 400 = (y - 1) div 400 + (if y mod 400 = 0 then 1 else 0)"
    by (rule div_pred, simp)+
  show ?thesis
    unfolding days_before_year_def year_days_def is_leap_def Let_def add_diff_cancel_right' q
    using dvd by (cases "y mod 4 = 0"; cases "y mod 100 = 0"; cases "y mod 400 = 0") simp_all
qed

lemma days_before_year_mono: "y \<le> z \<Longrightarrow> days_before_year y \<le> days_before_year z"
proof (induction z rule: int_ge_induct)
  case (step z)
  then show ?case by (auto simp: days_before_year_Suc year_days_def)
qed simp

lemma days_before_year_bounds:
  "400 * days_before_year y \<le> 146097 * (y - 1) + 400"
  "146097 * (y - 1) \<le> 400 * days_before_year y + 800"
  using div_bounds[of 4 "y - 1"] div_bounds[of 100 "y - 1"] div_bounds[of 400 "y - 1"]
  by (simp_all add: days_before_year_def Let_def)

lemma year_of_ord_eq:
  assumes "days_before_year y < n" "n \<le> days_before_year (y + 1)"
  shows "year_of_ord n = y"
proof -
  define e where "e = (400 * (n - 1)) div 146097 + 1"
  have e: "146097 * (e - 1) \<le> 400 * (n - 1)" "400 * (n - 1) < 146097 * e"
    unfolding e_def by simp_all
  have "400 * days_before_year y \<le> 400 * (n - 1)" "400 * n \<le> 400 * days_before_year (y + 1)"
    using assms by simp_all
  then have "y \<le> e + 1" "e \<le> y + 1"
    using e days_before_year_bounds(2)[of y] days_before_year_bounds(1)[of "y + 1"] by simp_all
  then consider "y = e + 1" | "y = e" | "y = e - 1" by linarith
  then show ?thesis
  proof cases
    case 1
    then have "days_before_year e \<le> days_before_year y" by (intro days_before_year_mono) simp
    then show ?thesis
      unfolding year_of_ord_def e_def[symmetric] Let_def using assms 1 by simp
  next
    case 2
    then show ?thesis
      unfolding year_of_ord_def e_def[symmetric] Let_def using assms by simp
  next
    case 3
    then show ?thesis
      unfolding year_of_ord_def e_def[symmetric] Let_def using assms by simp
  qed
qed

lemma month_12_cases:
  assumes "1 \<le> m" "m \<le> (12::int)"
  obtains "m = 1" | "m = 2" | "m = 3" | "m = 4" | "m = 5" | "m = 6" | "m = 7" | "m = 8"
    | "m = 9" | "m = 10" | "m = 11" | "m = 12"
proof -
  have "m = 1 \<or> m = 2 \<or> m = 3 \<or> m = 4 \<or> m = 5 \<or> m = 6 \<or> m = 7 \<or> m = 8
    \<or> m = 9 \<or> m = 10 \<or> m = 11 \<or> m = 12"
    using assms by arith
  then show thesis using that by blast
qed

lemma days_before_month_Suc:
  "1 \<le> m \<Longrightarrow> m \<le> 12 \<Longrightarrow>
     days_before_month y (m + 1) = days_before_month y m + days_in_month y m"
  by (erule (1) month_12_cases) (simp_all add: days_before_month_def days_in_month_def)

lemma days_before_month_13: "days_before_month y 13 = year_days y"
  by (simp add: days_before_month_def year_days_def)

lemma month_of_yday_eq:
  assumes "1 \<le> m" "m \<le> 12" "days_before_month y m < r" "r \<le> days_before_month y (m + 1)"
  shows "month_of_yday y r = m"
  using assms(1,2)
  by (cases rule: month_12_cases; cases "is_leap y")
     (use assms(3,4) in \<open>simp_all add: month_of_yday_def days_before_month_def Let_def\<close>)

lemma days_before_month_bounds:
  assumes "1 \<le> m" "m \<le> 12"
  shows "0 \<le> days_before_month y m" "days_before_month y m + days_in_month y m \<le> year_days y"
  using assms
  by (cases rule: month_12_cases; simp add: days_before_month_def days_in_month_def year_days_def)+

theorem from_ord_to_ord: "valid_date d \<Longrightarrow> from_ord (to_ord d) = d"
proof -
  assume v: "valid_date d"
  obtain y m k where d: "d = Date y m k" by (cases d)
  have m: "1 \<le> m" "m \<le> 12" and k: "1 \<le> k" "k \<le> days_in_month y m"
    using v by (auto simp: d valid_date_def)
  have b: "0 \<le> days_before_month y m" "days_before_month y m + days_in_month y m \<le> year_days y"
    using days_before_month_bounds[OF m] by auto
  have y: "year_of_ord (to_ord d) = y"
    by (rule year_of_ord_eq) (use b k in \<open>simp_all add: d to_ord_def days_before_year_Suc\<close>)
  have "month_of_yday y (days_before_month y m + k) = m"
    using m k by (intro month_of_yday_eq) (auto simp: days_before_month_Suc)
  then show ?thesis
    using y by (simp add: from_ord_def d to_ord_def Let_def)
qed

lemma year_exists:
  assumes "1 \<le> n"
  shows "\<exists>y\<ge>1. days_before_year y < n \<and> n \<le> days_before_year (y + 1)"
  using assms
proof (induction n rule: int_ge_induct)
  case base
  have "days_before_year 1 < 1 \<and> 1 \<le> days_before_year (1 + 1)" by (simp add: days_before_year_def)
  then show ?case by blast
next
  case (step n)
  then obtain y where y: "1 \<le> y" "days_before_year y < n" "n \<le> days_before_year (y + 1)" by blast
  show ?case
  proof (cases "n + 1 \<le> days_before_year (y + 1)")
    case True
    then show ?thesis using y by (intro exI[of _ y]) auto
  next
    case False
    have "days_before_year (y + 1 + 1) = days_before_year (y + 1) + year_days (y + 1)"
      by (rule days_before_year_Suc)
    then show ?thesis using y False by (intro exI[of _ "y + 1"]) (simp add: year_days_def)
  qed
qed

lemma month_exists:
  assumes "1 \<le> r" "r \<le> year_days y"
  shows "\<exists>m. 1 \<le> m \<and> m \<le> 12 \<and> days_before_month y m < r \<and> r \<le> days_before_month y (m + 1)"
proof -
  have "\<exists>m. 1 \<le> m \<and> m \<le> k \<and> days_before_month y m < r \<and> r \<le> days_before_month y (m + 1)"
    if "1 \<le> k" "k \<le> 12" "r \<le> days_before_month y (k + 1)" for k
    using that
  proof (induction k rule: int_ge_induct)
    case base
    then show ?case using assms(1) by (intro exI[of _ 1]) (simp add: days_before_month_def)
  next
    case (step k)
    show ?case
    proof (cases "r \<le> days_before_month y (k + 1)")
      case True
      then obtain m where "1 \<le> m \<and> m \<le> k \<and> days_before_month y m < r \<and> r \<le> days_before_month y (m + 1)"
        using step by auto
      then show ?thesis by (intro exI[of _ m]) simp
    next
      case False
      then show ?thesis using step by (intro exI[of _ "k + 1"]) simp
    qed
  qed
  from this[of 12] show ?thesis using assms(2) days_before_month_13 by auto
qed

theorem to_ord_from_ord:
  assumes "1 \<le> n"
  shows "to_ord (from_ord n) = n \<and> valid_date (from_ord n)"
proof -
  obtain y where y: "1 \<le> y" "days_before_year y < n" "n \<le> days_before_year (y + 1)"
    using year_exists[OF assms] by blast
  define r where "r = n - days_before_year y"
  have "1 \<le> r" "r \<le> year_days y" using y by (simp_all add: r_def days_before_year_Suc)
  then obtain m where m: "1 \<le> m" "m \<le> 12" "days_before_month y m < r" "r \<le> days_before_month y (m + 1)"
    using month_exists by blast
  have "from_ord n = Date y m (r - days_before_month y m)"
    using year_of_ord_eq[OF y(2,3)] month_of_yday_eq[OF m]
    by (simp add: from_ord_def r_def[symmetric] Let_def)
  then show ?thesis
    using m y(1) days_before_month_Suc[OF m(1,2), of y]
    by (simp add: to_ord_def valid_date_def r_def)
qed

lemma to_ord_less:
  assumes "valid_date d" "valid_date e" "d < e"
  shows "to_ord d < to_ord e"
proof -
  obtain y m k y' m' k' where d: "d = Date y m k" and e: "e = Date y' m' k'" by (cases d, cases e)
  have v: "1 \<le> m" "m \<le> 12" "1 \<le> k" "k \<le> days_in_month y m" "1 \<le> m'" "m' \<le> 12" "1 \<le> k'"
    using assms(1,2) by (auto simp: d e valid_date_def)
  have b: "days_before_month y m + k \<le> year_days y" "0 \<le> days_before_month y' m'"
    using days_before_month_bounds[OF v(1,2), of y] days_before_month_bounds[OF v(5,6), of y'] v by auto
  consider "y < y'" | "y = y'" "m < m'" | "y = y'" "m = m'" "k < k'"
    using assms(3) by (auto simp: d e less_date_def)
  then show ?thesis
  proof cases
    case 1
    then have "days_before_year (y + 1) \<le> days_before_year y'" by (intro days_before_year_mono) simp
    then show ?thesis using b v by (simp add: d e to_ord_def days_before_year_Suc)
  next
    case 2
    have "days_before_month y (m + 1) \<le> days_before_month y m'"
      using v(1,2,5,6) 2(2)
      by (cases rule: month_12_cases[OF v(5,6)]; cases rule: month_12_cases[OF v(1,2)])
         (simp_all add: days_before_month_def)
    then show ?thesis using 2 v days_before_month_Suc[OF v(1,2), of y] by (simp add: d e to_ord_def)
  qed (simp add: d e to_ord_def)
qed

text \<open>The order of dates is the order of their day numbers.\<close>

lemma to_ord_le_iff:
  assumes "valid_date d" "valid_date e"
  shows "to_ord d \<le> to_ord e \<longleftrightarrow> d \<le> e"
  using to_ord_less[OF assms] to_ord_less[OF assms(2,1)] by (cases d e rule: linorder_cases) auto

end
