(* ===== verification/Calmath.thy ===== *)
theory Calmath
  imports Calendar
begin

text \<open>
  \<open>calmath.py\<close>: the last weekday and the last business day of a month and the month-end
  predicate, over a holiday set the caller passes in. The exhausted month is the raised
  \<open>ValueError\<close> of the code.
\<close>

datatype calmath_error = NoBusinessDay int int

text \<open>\<open>last_weekday_of_month\<close>: step back from the last day while it is a weekend day.\<close>

function roll_weekend :: "int \<Rightarrow> int" where
  "roll_weekend n = (if weekday n \<ge> 5 then roll_weekend (n - 1) else n)"
  by pat_completeness auto
termination
proof (relation "measure (\<lambda>n. nat (weekday n))")
  show "wf (measure (\<lambda>n. nat (weekday n)))" by simp
  fix n assume "5 \<le> weekday n"
  then have "weekday (n - 1) = weekday n - 1" unfolding weekday_def by presburger
  then show "(n - 1, n) \<in> measure (\<lambda>n. nat (weekday n))"
    using \<open>5 \<le> weekday n\<close> by simp
qed

declare roll_weekend.simps [simp del]

definition month_last :: "int \<Rightarrow> int \<Rightarrow> date" where
  "month_last y m = Date y m (days_in_month y m)"

definition last_weekday_of_month :: "int \<Rightarrow> int \<Rightarrow> date" where
  "last_weekday_of_month y m = from_ord (roll_weekend (to_ord (month_last y m)))"

text \<open>
  \<open>last_business_day_of_month\<close>: step back over weekend days and holidays; stepping out of the
  month is the refusal. The counter is the day of the month of the candidate.
\<close>

definition blocked :: "date set \<Rightarrow> date \<Rightarrow> bool" where
  "blocked holidays d \<longleftrightarrow> weekday (to_ord d) \<ge> 5 \<or> d \<in> holidays"

fun business_walk :: "date set \<Rightarrow> int \<Rightarrow> int \<Rightarrow> nat \<Rightarrow> calmath_error + date" where
  "business_walk holidays y m 0 = Inl (NoBusinessDay y m)"
| "business_walk holidays y m (Suc k) =
     (let candidate = Date y m (int (Suc k))
      in if blocked holidays candidate then business_walk holidays y m k else Inr candidate)"

definition last_business_day_of_month :: "int \<Rightarrow> int \<Rightarrow> date set \<Rightarrow> calmath_error + date" where
  "last_business_day_of_month y m holidays = business_walk holidays y m (nat (days_in_month y m))"

definition is_month_end :: "date \<Rightarrow> date set \<Rightarrow> calmath_error + bool" where
  "is_month_end d holidays =
     (if day d = days_in_month (year d) (month d) \<or> d = last_weekday_of_month (year d) (month d)
      then Inr True
      else if holidays = {} then Inr False
      else case last_business_day_of_month (year d) (month d) holidays of
             Inl e \<Rightarrow> Inl e
           | Inr b \<Rightarrow> Inr (d = b))"

lemma days_in_month_ge: "28 \<le> days_in_month y m"
  by (simp add: days_in_month_def)

lemma days_in_month_le: "days_in_month y m \<le> 31"
  by (simp add: days_in_month_def)

lemma to_ord_month: "to_ord (Date y m k) = to_ord (Date y m l) + (k - l)"
  by (simp add: to_ord_def)

section \<open>The walk back\<close>

lemma business_walk_Inr:
  "business_walk holidays y m k = Inr d \<longleftrightarrow>
     (\<exists>j. 1 \<le> j \<and> j \<le> k \<and> d = Date y m (int j) \<and> \<not> blocked holidays d \<and>
        (\<forall>i. j < i \<and> i \<le> k \<longrightarrow> blocked holidays (Date y m (int i))))"
proof (induction k)
  case (Suc k)
  show ?case
  proof (cases "blocked holidays (Date y m (int (Suc k)))")
    case True
    then have eq: "business_walk holidays y m (Suc k) = business_walk holidays y m k" by simp
    show ?thesis unfolding eq Suc.IH
    proof (intro iffI; elim exE conjE)
      fix j
      assume j: "1 \<le> j" "j \<le> k" "d = Date y m (int j)" "\<not> blocked holidays d"
        "\<forall>i. j < i \<and> i \<le> k \<longrightarrow> blocked holidays (Date y m (int i))"
      show "\<exists>j\<ge>1. j \<le> Suc k \<and> d = Date y m (int j) \<and> \<not> blocked holidays d \<and>
          (\<forall>i. j < i \<and> i \<le> Suc k \<longrightarrow> blocked holidays (Date y m (int i)))"
        using j True by (intro exI[of _ j]) (auto simp: le_Suc_eq)
    next
      fix j
      assume j: "1 \<le> j" "j \<le> Suc k" "d = Date y m (int j)" "\<not> blocked holidays d"
        "\<forall>i. j < i \<and> i \<le> Suc k \<longrightarrow> blocked holidays (Date y m (int i))"
      then have "j \<noteq> Suc k" using True by auto
      then show "\<exists>j\<ge>1. j \<le> k \<and> d = Date y m (int j) \<and> \<not> blocked holidays d \<and>
          (\<forall>i. j < i \<and> i \<le> k \<longrightarrow> blocked holidays (Date y m (int i)))"
        using j by (intro exI[of _ j]) auto
    qed
  next
    case False
    then have top: "j = Suc k" if "j \<le> Suc k"
      "\<forall>i. j < i \<and> i \<le> Suc k \<longrightarrow> blocked holidays (Date y m (int i))" for j
      using that by (metis le_neq_implies_less le_refl)
    show ?thesis (is "?L \<longleftrightarrow> ?R")
    proof
      assume ?L
      then show ?R using False by (intro exI[of _ "Suc k"]) (auto simp: Let_def)
    next
      assume ?R
      then obtain j where "j \<le> Suc k" "d = Date y m (int j)"
        "\<forall>i. j < i \<and> i \<le> Suc k \<longrightarrow> blocked holidays (Date y m (int i))" by blast
      then show ?L using top[of j] False by (simp add: Let_def)
    qed
  qed
qed auto

lemma business_walk_Inl:
  "(\<exists>e. business_walk holidays y m k = Inl e) \<longleftrightarrow>
     (\<forall>i. 1 \<le> i \<and> i \<le> k \<longrightarrow> blocked holidays (Date y m (int i)))"
  by (induction k) (auto simp: le_Suc_eq Let_def)

lemma last_business_day_in_month:
  assumes "last_business_day_of_month y m holidays = Inr d"
  shows "year d = y" "month d = m" "1 \<le> day d" "day d \<le> days_in_month y m"
    "weekday (to_ord d) < 5" "d \<notin> holidays"
  using assms days_in_month_ge[of y m]
  by (auto simp: last_business_day_of_month_def business_walk_Inr blocked_def)

lemma last_business_day_latest:
  assumes "last_business_day_of_month y m holidays = Inr d"
    and "day d < k" "k \<le> days_in_month y m"
  shows "blocked holidays (Date y m k)"
proof -
  obtain j where j: "d = Date y m (int j)"
    "\<forall>i. j < i \<and> i \<le> nat (days_in_month y m) \<longrightarrow> blocked holidays (Date y m (int i))"
    using assms(1) by (auto simp: last_business_day_of_month_def business_walk_Inr)
  have "j < nat k \<and> nat k \<le> nat (days_in_month y m)" using assms(2,3) j(1) by auto
  then have "blocked holidays (Date y m (int (nat k)))" using j(2) by blast
  then show ?thesis using assms(2) j(1) by auto
qed

lemma last_business_day_valid:
  assumes "1 \<le> y" "1 \<le> m" "m \<le> 12" "last_business_day_of_month y m holidays = Inr d"
  shows "valid_date d"
  using last_business_day_in_month[OF assms(4)] assms(1-3) by (simp add: valid_date_def)

section \<open>The empty holiday set\<close>

lemma weekday_range: "0 \<le> weekday n \<and> weekday n < 7"
  by (simp add: weekday_def)

lemma roll_weekend_eq:
  assumes "weekday (n - int j) < 5" "\<forall>i<j. weekday (n - int i) \<ge> 5"
  shows "roll_weekend n = n - int j"
  using assms
proof (induction j arbitrary: n)
  case 0
  then show ?case by (subst roll_weekend.simps) simp
next
  case (Suc j)
  have "weekday n \<ge> 5" using Suc.prems(2)[rule_format, of 0] by simp
  moreover have "roll_weekend (n - 1) = n - 1 - int j"
  proof (rule Suc.IH)
    show "weekday (n - 1 - int j) < 5" using Suc.prems(1) by (simp add: algebra_simps)
    show "\<forall>i<j. 5 \<le> weekday (n - 1 - int i)"
    proof (intro allI impI)
      fix i assume "i < j"
      then show "5 \<le> weekday (n - 1 - int i)"
        using Suc.prems(2)[rule_format, of "Suc i"] by (simp add: algebra_simps)
    qed
  qed
  ultimately show ?case by (subst roll_weekend.simps) simp
qed

lemma weekday_within_3: "weekday n < 5 \<or> weekday (n - 1) < 5 \<or> weekday (n - 2) < 5"
  unfolding weekday_def by presburger

text \<open>The month-end arithmetic of the returns engine and of the holiday-aware scheduler agree
  where they should: with no holidays, walking back to the last business day gives the month's
  last weekday, and it never fails.\<close>

lemma last_business_day_no_holidays:
  assumes "1 \<le> y" "1 \<le> m" "m \<le> 12"
  shows "last_business_day_of_month y m {} = Inr (last_weekday_of_month y m)"
proof -
  let ?D = "days_in_month y m"
  let ?n = "to_ord (month_last y m)"
  have n: "to_ord (Date y m (?D - k)) = ?n - k" for k
    by (simp add: month_last_def to_ord_def)
  obtain d where d: "last_business_day_of_month y m {} = Inr d"
  proof (cases "last_business_day_of_month y m {}")
    case (Inl e)
    then have all: "blocked {} (Date y m (int i))" if "1 \<le> i" "i \<le> nat ?D" for i
      using that unfolding last_business_day_of_month_def by (metis business_walk_Inl)
    have "blocked {} (Date y m (?D - int k))" if "k \<le> 2" for k
      using all[of "nat ?D - k"] that days_in_month_ge[of y m] by (auto simp: of_nat_diff)
    from this[of 0] this[of 1] this[of 2] have False
      using weekday_within_3[of ?n] n[of 0] n[of 1] n[of 2] by (simp add: blocked_def)
    then show thesis ..
  qed
  let ?j = "nat (?D - day d)"
  note in_m = last_business_day_in_month[OF d]
  have eq: "d = Date y m (?D - int ?j)" using in_m by (cases d) auto
  have j: "int ?j = ?D - day d" using in_m(4) by simp
  have "roll_weekend ?n = ?n - int ?j"
  proof (rule roll_weekend_eq)
    show "weekday (?n - int ?j) < 5" using in_m(5) n[of "int ?j"] eq by simp
    show "\<forall>i<?j. 5 \<le> weekday (?n - int i)"
    proof (intro allI impI)
      fix i assume "i < ?j"
      then have "blocked {} (Date y m (?D - int i))"
        using j by (intro last_business_day_latest[OF d]) auto
      then show "5 \<le> weekday (?n - int i)" using n[of "int i"] by (simp add: blocked_def)
    qed
  qed
  also have "\<dots> = to_ord d" using n[of "int ?j"] eq by simp
  finally have "last_weekday_of_month y m = d"
    using from_ord_to_ord[OF last_business_day_valid[OF assms d]]
    by (simp add: last_weekday_of_month_def)
  then show ?thesis using d by simp
qed

section \<open>The month-end predicate\<close>

lemma is_month_end_widens:
  assumes "is_month_end d {} = Inr True"
  shows "is_month_end d holidays = Inr True"
  using assms by (auto simp: is_month_end_def split: if_splits)

lemma is_month_end_iff:
  assumes "is_month_end d holidays = Inr b"
  shows "b \<longleftrightarrow> day d = days_in_month (year d) (month d) \<or>
           d = last_weekday_of_month (year d) (month d) \<or>
           (holidays \<noteq> {} \<and> last_business_day_of_month (year d) (month d) holidays = Inr d)"
  using assms by (auto simp: is_month_end_def split: if_splits sum.splits)

text \<open>\<open>last_business_day_of_month\<close> returns a date of the month that is neither a weekend nor a
  holiday, with every later day of the month blocked, and raises exactly when every day of the
  month is blocked.\<close>

lemma last_business_day_spec:
  "case last_business_day_of_month y m holidays of
     Inr d \<Rightarrow> year d = y \<and> month d = m \<and> \<not> blocked holidays d \<and>
       list_all (\<lambda>k. blocked holidays (Date y m k)) [day d + 1..days_in_month y m]
   | Inl _ \<Rightarrow> list_all (\<lambda>k. blocked holidays (Date y m k)) [1..days_in_month y m]"
proof (cases "last_business_day_of_month y m holidays")
  case (Inr d)
  then show ?thesis
    using last_business_day_in_month[OF Inr] last_business_day_latest[OF Inr]
    by (auto simp: list_all_iff blocked_def)
next
  case (Inl e)
  have all: "\<forall>i. 1 \<le> i \<and> i \<le> nat (days_in_month y m) \<longrightarrow> blocked holidays (Date y m (int i))"
    using Inl business_walk_Inl[of holidays y m "nat (days_in_month y m)"]
    by (auto simp: last_business_day_of_month_def)
  have "blocked holidays (Date y m k)" if "1 \<le> k" "k \<le> days_in_month y m" for k
  proof -
    have "1 \<le> nat k" "nat k \<le> nat (days_in_month y m)" using that by linarith+
    then show ?thesis using all that(1) by fastforce
  qed
  then show ?thesis using Inl by (simp add: list_all_iff)
qed

lemma last_business_day_no_holidays_witness:
  "last_business_day_of_month 2026 5 {} = Inr (last_weekday_of_month 2026 5)"
  using last_business_day_no_holidays[of 2026 5] by simp

end
