(* ===== verification/Json_Canon.thy ===== *)
theory Json_Canon
  imports Prelude
begin

text \<open>
  The canonical serialization of \<open>audit/hashing.py\<close>: \<open>json.dumps(payload, sort_keys=True,
  separators=(",", ":"), ensure_ascii=False)\<close> over the JSON values the audit payloads hold
  (no floats: the writers pass numbers as strings or integers). \<open>canonicalize\<close> sorts the keys
  of every object and serializes; the lemmas show that the serialization is injective, so the
  text that is hashed determines the payload.
\<close>

datatype json =
    JNull
  | JBool bool
  | JInt int
  | JStr string
  | JArr "json list"
  | JObj "(string \<times> json) list"

section \<open>Numbers\<close>

definition digit_char :: "nat \<Rightarrow> char" where
  "digit_char n = char_of (48 + n)"

definition is_digit :: "char \<Rightarrow> bool" where
  "is_digit c = (let n = (of_char c :: nat) in 48 \<le> n \<and> n \<le> 57)"

definition digit_val :: "char \<Rightarrow> nat" where
  "digit_val c = of_char c - 48"

fun nat_str :: "nat \<Rightarrow> string" where
  "nat_str n = (if n < 10 then [digit_char n] else nat_str (n div 10) @ [digit_char (n mod 10)])"

declare nat_str.simps [simp del]

definition int_str :: "int \<Rightarrow> string" where
  "int_str i = (if i < 0 then CHR ''-'' # nat_str (nat (- i)) else nat_str (nat i))"

definition digits_val :: "string \<Rightarrow> nat" where
  "digits_val = foldl (\<lambda>a c. 10 * a + digit_val c) 0"

lemma of_char_digit_char [simp]: "n < 10 \<Longrightarrow> (of_char (digit_char n) :: nat) = 48 + n"
  by (simp add: digit_char_def)

lemma is_digit_digit_char [simp]: "n < 10 \<Longrightarrow> is_digit (digit_char n)"
  by (simp add: is_digit_def)

lemma digit_val_digit_char [simp]: "n < 10 \<Longrightarrow> digit_val (digit_char n) = n"
  by (simp add: digit_val_def)

lemma nat_str_digits: "\<forall>c\<in>set (nat_str n). is_digit c"
proof (induction n rule: nat_str.induct)
  case (1 n)
  then show ?case by (subst nat_str.simps) auto
qed

lemma nat_str_nonempty [simp]: "nat_str n \<noteq> []"
  by (subst nat_str.simps) simp

lemma digits_val_nat_str [simp]: "digits_val (nat_str n) = n"
proof (induction n rule: nat_str.induct)
  case (1 n)
  show ?case
  proof (cases "n < 10")
    case True
    then show ?thesis by (subst nat_str.simps) (simp add: digits_val_def)
  next
    case False
    with 1 have "digits_val (nat_str (n div 10)) = n div 10" by simp
    then show ?thesis using False
      by (subst nat_str.simps) (simp add: digits_val_def)
  qed
qed

definition stops :: "string \<Rightarrow> bool" where
  "stops r = (case r of [] \<Rightarrow> True | c # _ \<Rightarrow> \<not> is_digit c)"

lemma stops_simps [simp]: "stops []" "stops (c # r) \<longleftrightarrow> \<not> is_digit c"
  by (simp_all add: stops_def)

lemma takeWhile_stops:
  "\<forall>c\<in>set ds. is_digit c \<Longrightarrow> stops r \<Longrightarrow> takeWhile is_digit (ds @ r) = ds"
  by (cases r) (simp_all add: takeWhile_append)

lemma digits_unique:
  assumes "ds @ r = es @ s" "stops r" "stops s" "\<forall>c\<in>set ds. is_digit c" "\<forall>c\<in>set es. is_digit c"
  shows "ds = es \<and> r = s"
proof -
  have "ds = takeWhile is_digit (ds @ r)"
    by (rule takeWhile_stops [symmetric]) (use assms in auto)
  also have "\<dots> = takeWhile is_digit (es @ s)" by (simp only: assms(1))
  also have "\<dots> = es"
    by (rule takeWhile_stops) (use assms in auto)
  finally show ?thesis using assms(1) by simp
qed

lemma nat_str_unique:
  assumes "nat_str m @ r = nat_str n @ s" "stops r" "stops s"
  shows "m = n \<and> r = s"
proof -
  have "nat_str m = nat_str n \<and> r = s"
    using assms by (intro digits_unique) (auto simp: nat_str_digits)
  then show ?thesis by (metis digits_val_nat_str)
qed

lemma nat_str_hd: "\<exists>c cs. nat_str n = c # cs \<and> is_digit c"
  using nat_str_digits[of n] by (cases "nat_str n") auto

lemma int_str_unique:
  assumes "int_str i @ r = int_str j @ s" "stops r" "stops s"
  shows "i = j \<and> r = s"
proof -
  have minus: "\<not> is_digit (CHR ''-'')" by (simp add: is_digit_def)
  obtain c cs where c: "nat_str (nat i) = c # cs" "is_digit c" using nat_str_hd by blast
  obtain d ds where d: "nat_str (nat j) = d # ds" "is_digit d" using nat_str_hd by blast
  show ?thesis
  proof (cases "i < 0")
    case True
    then have j: "j < 0" using assms(1) d minus by (auto simp: int_str_def split: if_splits)
    then have "nat (- i) = nat (- j) \<and> r = s"
      using assms True by (intro nat_str_unique) (auto simp: int_str_def)
    then show ?thesis using True j by auto
  next
    case False
    then have j: "\<not> j < 0" using assms(1) c minus by (auto simp: int_str_def split: if_splits)
    then have "nat i = nat j \<and> r = s"
      using assms False by (intro nat_str_unique) (auto simp: int_str_def)
    then show ?thesis using False j by auto
  qed
qed

section \<open>Strings\<close>

definition hex_char :: "nat \<Rightarrow> char" where
  "hex_char n = char_of (if n < 10 then 48 + n else 87 + n)"

definition hex_val :: "char \<Rightarrow> nat" where
  "hex_val c = (let n = (of_char c :: nat) in if n \<le> 57 then n - 48 else n - 87)"

lemma hex_val_hex_char [simp]: "n < 16 \<Longrightarrow> hex_val (hex_char n) = n"
  by (simp add: hex_val_def hex_char_def Let_def)

text \<open>The escapes of \<open>json.encoder\<close> without \<open>ensure_ascii\<close>: quote, backslash, control characters.\<close>

definition esc :: "char \<Rightarrow> string" where
  "esc c = (let n = (of_char c :: nat) in
     if n = 34 then [CHR 0x5C, CHR 0x22]
     else if n = 92 then [CHR 0x5C, CHR 0x5C]
     else if n = 8 then [CHR 0x5C, CHR ''b'']
     else if n = 9 then [CHR 0x5C, CHR ''t'']
     else if n = 10 then [CHR 0x5C, CHR ''n'']
     else if n = 12 then [CHR 0x5C, CHR ''f'']
     else if n = 13 then [CHR 0x5C, CHR ''r'']
     else if n < 32 then [CHR 0x5C, CHR ''u'', CHR ''0'', CHR ''0'', hex_char (n div 16), hex_char (n mod 16)]
     else [c])"

fun unesc :: "string \<Rightarrow> (char \<times> string) option" where
  "unesc [] = None"
| "unesc (c # r) =
    (if c \<noteq> CHR 0x5C then Some (c, r)
     else (case r of [] \<Rightarrow> None
       | d # r' \<Rightarrow>
         if d = CHR 0x22 \<or> d = CHR 0x5C then Some (d, r')
         else if d = CHR ''b'' then Some (char_of (8::nat), r')
         else if d = CHR ''t'' then Some (char_of (9::nat), r')
         else if d = CHR ''n'' then Some (char_of (10::nat), r')
         else if d = CHR ''f'' then Some (char_of (12::nat), r')
         else if d = CHR ''r'' then Some (char_of (13::nat), r')
         else (case r' of _ # _ # x # y # r'' \<Rightarrow> Some (char_of (16 * hex_val x + hex_val y), r'')
               | _ \<Rightarrow> None)))"

lemma char_neqI: "(of_char c :: nat) \<noteq> of_char d \<Longrightarrow> c \<noteq> d"
  by auto

lemma char_of_eqI: "(of_char c :: nat) = n \<Longrightarrow> c = char_of n"
  by (drule sym) simp

lemma unesc_plain: "c \<noteq> CHR 0x5C \<Longrightarrow> unesc (c # r) = Some (c, r)"
  by simp

lemma unesc_hex: "unesc (CHR 0x5C # CHR ''u'' # CHR ''0'' # CHR ''0'' # x # y # r) =
  Some (char_of (16 * hex_val x + hex_val y), r)"
  by simp

lemma unesc_esc: "unesc (esc c @ r) = Some (c, r)"
proof -
  let ?n = "of_char c :: nat"
  consider "?n = 34" | "?n = 92" | "?n = 8" | "?n = 9" | "?n = 10" | "?n = 12" | "?n = 13"
    | "?n < 32" "?n \<notin> {8, 9, 10, 12, 13}" | "\<not> ?n < 32" "?n \<noteq> 34" "?n \<noteq> 92"
    by blast
  then show ?thesis
  proof cases
    case 1
    then have "(of_char c :: nat) = of_char (CHR 0x22)" by simp
    then have "c = CHR 0x22" by (simp only: of_char_eq_iff)
    then show ?thesis by (simp add: esc_def)
  next
    case 2
    then have "(of_char c :: nat) = of_char (CHR 0x5C)" by simp
    then have "c = CHR 0x5C" by (simp only: of_char_eq_iff)
    then show ?thesis by (simp add: esc_def)
  next
    case 8
    then have sum: "16 * (?n div 16) + ?n mod 16 = ?n" "?n div 16 < 16" "?n mod 16 < 16" by auto
    have "esc c = [CHR 0x5C, CHR ''u'', CHR ''0'', CHR ''0'', hex_char (?n div 16), hex_char (?n mod 16)]"
      using 8 by (simp add: esc_def Let_def)
    then have "unesc (esc c @ r) =
        Some (char_of (16 * hex_val (hex_char (?n div 16)) + hex_val (hex_char (?n mod 16))), r)"
      by (simp only: append_Cons append_Nil unesc_hex)
    also have "\<dots> = Some (char_of ?n, r)"
      by (simp only: hex_val_hex_char sum)
    finally show ?thesis by simp
  next
    case 9
    have "esc c = [c]" using 9 by (simp add: esc_def Let_def)
    moreover have "c \<noteq> CHR 0x5C" by (rule char_neqI) (use 9 in simp)
    ultimately show ?thesis by (simp only: append_Cons append_Nil unesc_plain not_False_eq_True)
  qed (drule char_of_eqI, simp add: esc_def Let_def)+
qed

lemma esc_hd: "\<exists>d ds. esc c = d # ds \<and> d \<noteq> CHR 0x22"
proof (cases "(of_char c :: nat) < 32 \<or> (of_char c :: nat) = 34 \<or> (of_char c :: nat) = 92")
  case True
  have "\<exists>ds. esc c = CHR 0x5C # ds" using True
    by (elim disjE) (simp_all add: esc_def Let_def)
  then show ?thesis by auto
next
  case False
  then have "esc c = [c]" by (simp add: esc_def Let_def)
  moreover have "c \<noteq> CHR 0x22" by (rule char_neqI) (use False in simp)
  ultimately show ?thesis by simp
qed

definition ser_string :: "string \<Rightarrow> string" where
  "ser_string s = CHR 0x22 # concat (map esc s) @ [CHR 0x22]"

lemma esc_unique: "esc c @ x = esc d @ y \<Longrightarrow> c = d \<and> x = y"
  by (metis Pair_inject option.inject unesc_esc)

lemma ser_chars_unique:
  "concat (map esc s) @ CHR 0x22 # r = concat (map esc t) @ CHR 0x22 # r' \<Longrightarrow> s = t \<and> r = r'"
proof (induction s arbitrary: t)
  case Nil
  show ?case
  proof (cases t)
    case (Cons d t')
    with Nil.prems show ?thesis using esc_hd[of d] by force
  qed (use Nil.prems in simp)
next
  case (Cons c s)
  show ?case
  proof (cases t)
    case Nil
    with Cons.prems show ?thesis using esc_hd[of c] by force
  next
    case (Cons d t')
    with Cons.prems have "c = d \<and> concat (map esc s) @ CHR 0x22 # r = concat (map esc t') @ CHR 0x22 # r'"
      using esc_unique by simp
    with Cons.IH Cons show ?thesis by blast
  qed
qed

lemma ser_string_unique: "ser_string s @ r = ser_string t @ r' \<Longrightarrow> s = t \<and> r = r'"
  using ser_chars_unique[of s r t r'] by (simp add: ser_string_def)

section \<open>Values\<close>

fun join_commas :: "string list \<Rightarrow> string" where
  "join_commas [] = []"
| "join_commas [x] = x"
| "join_commas (x # xs) = x @ CHR '','' # join_commas xs"

fun ser :: "json \<Rightarrow> string" where
  "ser JNull = ''null''"
| "ser (JBool b) = (if b then ''true'' else ''false'')"
| "ser (JInt i) = int_str i"
| "ser (JStr s) = ser_string s"
| "ser (JArr xs) = CHR ''['' # join_commas (map ser xs) @ '']''"
| "ser (JObj kvs) =
    CHR ''{'' # join_commas (map (\<lambda>kv. ser_string (fst kv) @ CHR '':'' # ser (snd kv)) kvs) @ ''}''"

text \<open>\<open>sort_keys=True\<close>: the keys of every object are sorted.\<close>

fun sort_json :: "json \<Rightarrow> json" where
  "sort_json (JArr xs) = JArr (map sort_json xs)"
| "sort_json (JObj kvs) = JObj (sort_key fst (map (\<lambda>kv. (fst kv, sort_json (snd kv))) kvs))"
| "sort_json j = j"

definition canonicalize :: "json \<Rightarrow> string" where
  "canonicalize j = ser (sort_json j)"

definition sep :: "string \<Rightarrow> bool" where
  "sep r = (case r of [] \<Rightarrow> True | c # _ \<Rightarrow> c \<in> {CHR '','', CHR '']'', CHR ''}''})"

lemma sep_stops: "sep r \<Longrightarrow> stops r"
  by (cases r) (auto simp: sep_def is_digit_def)

definition starts_ok :: "string \<Rightarrow> bool" where
  "starts_ok s = (case s of [] \<Rightarrow> False | c # _ \<Rightarrow> c \<notin> {CHR '','', CHR '']'', CHR ''}''})"

lemma digit_first: "is_digit c \<Longrightarrow> c \<notin> {CHR '','', CHR '']'', CHR ''}'', CHR ''n'', CHR ''t'', CHR ''f'',
    CHR ''['', CHR ''{'', CHR 0x22, CHR ''-''}"
  by (auto simp: is_digit_def)

lemma int_str_hd: "\<exists>c cs. int_str i = c # cs \<and> (is_digit c \<or> c = CHR ''-'')"
proof (cases "i < 0")
  case True
  then show ?thesis by (simp add: int_str_def)
next
  case False
  then show ?thesis using nat_str_hd[of "nat i"] by (auto simp: int_str_def)
qed

lemma starts_ok_ser: "starts_ok (ser j)"
proof (cases j)
  case (JInt i)
  then show ?thesis using int_str_hd[of i] digit_first by (auto simp: starts_ok_def)
qed (auto simp: starts_ok_def ser_string_def)

lemma ser_unique_list:
  assumes "\<And>x b r s. x \<in> set xs \<Longrightarrow> sep r \<Longrightarrow> sep s \<Longrightarrow> f x @ r = f b @ s \<Longrightarrow> x = b \<and> r = s"
    and "\<And>x. starts_ok (f x)"
    and "join_commas (map f xs) @ c # r = join_commas (map f ys) @ c # s"
    and "c \<in> {CHR '']'', CHR ''}''}"
  shows "xs = ys \<and> r = s"
  using assms
proof (induction xs arbitrary: ys)
  case Nil
  show ?case
  proof (cases ys)
    case (Cons y ys')
    have "starts_ok (join_commas (map f ys) @ c # s)"
      using Nil.prems(2)[of y] Cons
      by (cases ys'; cases "f y") (auto simp: starts_ok_def)
    moreover have "join_commas (map f ys) @ c # s = c # r" using Nil.prems(3) by simp
    ultimately have "starts_ok (c # r)" by (simp only:)
    then show ?thesis using Nil.prems(4) by (auto simp: starts_ok_def)
  qed (use Nil.prems in simp)
next
  case (Cons x xs)
  obtain y ys' where ys: "ys = y # ys'"
  proof (cases ys)
    case Nil
    have "starts_ok (join_commas (map f (x # xs)) @ c # r)"
      using Cons.prems(2)[of x] by (cases xs; cases "f x") (auto simp: starts_ok_def)
    then show ?thesis using Cons.prems(3,4) Nil by (auto simp: starts_ok_def)
  qed
  let ?rest = "\<lambda>zs t. if zs = [] then c # t else CHR '','' # join_commas (map f zs) @ c # t"
  have split: "join_commas (map f (z # zs)) @ c # t = f z @ ?rest zs t" for z zs t
    by (cases zs) auto
  have "f x @ ?rest xs r = f y @ ?rest ys' s"
    using Cons.prems(3) unfolding ys split .
  moreover have "sep (?rest xs r)" "sep (?rest ys' s)"
    using Cons.prems(4) by (auto simp: sep_def)
  ultimately have xy: "x = y" and rest: "?rest xs r = ?rest ys' s"
    using Cons.prems(1)[of x] by auto
  show ?case
  proof (cases "xs = []")
    case True
    then show ?thesis using rest xy ys Cons.prems(4) by (auto split: if_splits)
  next
    case False
    then have "ys' \<noteq> []" using rest Cons.prems(4) by (auto split: if_splits)
    then have "join_commas (map f xs) @ c # r = join_commas (map f ys') @ c # s"
      using rest False by simp
    then have "xs = ys' \<and> r = s"
      using Cons.prems by (intro Cons.IH) auto
    then show ?thesis using xy ys by simp
  qed
qed

lemma starts_ok_append: "starts_ok s \<Longrightarrow> starts_ok (s @ r)"
  by (cases s) (auto simp: starts_ok_def)

text \<open>The first character tells the constructor of a serialized value.\<close>

definition first_char :: "json \<Rightarrow> char \<Rightarrow> bool" where
  "first_char j c = (case j of
     JNull \<Rightarrow> c = CHR ''n'' | JBool b \<Rightarrow> c = (if b then CHR ''t'' else CHR ''f'')
   | JInt i \<Rightarrow> is_digit c \<or> c = CHR ''-'' | JStr s \<Rightarrow> c = CHR 0x22
   | JArr xs \<Rightarrow> c = CHR ''['' | JObj kvs \<Rightarrow> c = CHR ''{'')"

lemma ser_first: "\<exists>c cs. ser j = c # cs \<and> first_char j c"
  using int_str_hd by (cases j) (auto simp: first_char_def ser_string_def)

lemma first_char_same:
  assumes "first_char a c" "first_char b c"
  shows "(a = JNull \<longleftrightarrow> b = JNull) \<and> (\<forall>x. a = JBool x \<longleftrightarrow> b = JBool x) \<and>
    ((\<exists>i. a = JInt i) \<longleftrightarrow> (\<exists>i. b = JInt i)) \<and> ((\<exists>i. a = JStr i) \<longleftrightarrow> (\<exists>i. b = JStr i)) \<and>
    ((\<exists>i. a = JArr i) \<longleftrightarrow> (\<exists>i. b = JArr i)) \<and> ((\<exists>i. a = JObj i) \<longleftrightarrow> (\<exists>i. b = JObj i))"
  using assms digit_first[of c]
  by (cases a; cases b) (auto simp: first_char_def split: if_splits)

lemma ser_same_shape:
  assumes "ser a @ r = ser b @ s"
  obtains c where "first_char a c" "first_char b c"
  using ser_first[of a] ser_first[of b] assms by auto

lemma ser_unique:
  "sep r \<Longrightarrow> sep s \<Longrightarrow> ser a @ r = ser b @ s \<Longrightarrow> a = b \<and> r = s"
proof (induction a arbitrary: b r s)
  case JNull
  then obtain c where "first_char JNull c" "first_char b c" using ser_same_shape by blast
  then have "b = JNull" using first_char_same by blast
  then show ?case using JNull by simp
next
  case (JBool x)
  then obtain c where "first_char (JBool x) c" "first_char b c" using ser_same_shape by blast
  then have "b = JBool x" using first_char_same by blast
  then show ?case using JBool by simp
next
  case (JInt i)
  then obtain c where "first_char (JInt i) c" "first_char b c" using ser_same_shape by blast
  then obtain j where "b = JInt j" using first_char_same by blast
  then show ?case using JInt int_str_unique[of i r j s] by (simp add: sep_stops)
next
  case (JStr t)
  then obtain c where "first_char (JStr t) c" "first_char b c" using ser_same_shape by blast
  then obtain u where "b = JStr u" using first_char_same by blast
  then show ?case using JStr ser_string_unique[of t r u s] by simp
next
  case (JArr xs)
  then obtain c where "first_char (JArr xs) c" "first_char b c" using ser_same_shape by blast
  then obtain ys where b: "b = JArr ys" using first_char_same by blast
  have "xs = ys \<and> r = s"
    by (rule ser_unique_list[where f = ser and c = "CHR '']''"])
       (use JArr b starts_ok_ser in auto)
  then show ?case using b by simp
next
  case (JObj kvs)
  then obtain c where "first_char (JObj kvs) c" "first_char b c" using ser_same_shape by blast
  then obtain lvs where b: "b = JObj lvs" using first_char_same by blast
  let ?f = "\<lambda>kv. ser_string (fst kv) @ CHR '':'' # ser (snd kv)"
  have pair: "x = y \<and> t = u"
    if "x \<in> set kvs" "sep t" "sep u" "?f x @ t = ?f y @ u" for x y t u
  proof -
    have "fst x = fst y \<and> CHR '':'' # ser (snd x) @ t = CHR '':'' # ser (snd y) @ u"
      using that(4) by (intro ser_string_unique) simp
    then show ?thesis
      using JObj.IH[of x "snd x" t u "snd y"] that(1-3) by (cases x; cases y) auto
  qed
  have start: "starts_ok (?f x)" for x by (simp add: starts_ok_def ser_string_def)
  have "kvs = lvs \<and> r = s"
    by (rule ser_unique_list[where f = ?f and c = "CHR ''}''"])
       (use JObj.prems b pair start in auto)
  then show ?case using b by simp
qed

lemma canonicalize_eq_iff:
  "canonicalize a = canonicalize b \<longleftrightarrow> sort_json a = sort_json b"
  using ser_unique[of "[]" "[]" "sort_json a" "sort_json b"]
  by (auto simp: canonicalize_def sep_def)

end
