(* ===== verification/Iso_Time.thy ===== *)
theory Iso_Time
  imports Calendar Json_Canon
begin

text \<open>
  The canonical UTC ISO-8601 text of an instant (\<open>_iso\<close> of \<open>audit/service.py\<close> and of
  \<open>audit/queries.py\<close>): a naive datetime counts as UTC, an aware one is converted, and
  \<open>isoformat()\<close> prints the microseconds only when they are not zero. The audit queries compare
  these texts, so the theory shows that their order is the order of the instants.
\<close>

section \<open>Zero-padded numbers\<close>

fun pad :: "nat \<Rightarrow> nat \<Rightarrow> string" where
  "pad 0 n = []"
| "pad (Suc w) n = digit_char (n div 10 ^ w mod 10) # pad w n"

lemma length_pad [simp]: "length (pad w n) = w"
  by (induction w) auto

lemma digit_char_less: "a < 10 \<Longrightarrow> b < 10 \<Longrightarrow> digit_char a < digit_char b \<longleftrightarrow> a < b"
  by (simp add: less_char_def)

lemma pad_mod: "pad w (n mod 10 ^ w) = pad w n"
proof -
  have "pad v (n mod 10 ^ w) = pad v n" if "v \<le> w" for v
    using that
  proof (induction v)
    case (Suc v)
    obtain k where w: "w = Suc v + k" using Suc.prems by (metis le_Suc_ex)
    define q r where "q = n div 10 ^ w" and "r = n mod 10 ^ w"
    have "n = 10 ^ v * (10 * 10 ^ k * q) + r"
    proof -
      have "(10::nat) ^ w = 10 ^ v * (10 * 10 ^ k)" by (simp add: w power_add)
      moreover have "n = 10 ^ w * q + r" by (simp add: q_def r_def)
      ultimately show ?thesis by (simp add: mult.assoc)
    qed
    then have "n div 10 ^ v = 10 * 10 ^ k * q + r div 10 ^ v" by simp
    then have "n div 10 ^ v mod 10 = r div 10 ^ v mod 10"
      by (simp add: mod_add_left_eq mult.assoc)
    then have "r div 10 ^ v mod 10 = n div 10 ^ v mod 10" by simp
    then show ?case using Suc by (simp add: r_def)
  qed simp
  then show ?thesis by simp
qed

lemma pad_less:
  assumes "m < n" "n < 10 ^ w"
  shows "pad w m < pad w n"
  using assms
proof (induction w arbitrary: m n)
  case (Suc w)
  let ?p = "10 ^ w :: nat"
  have lt: "m div ?p < 10" "n div ?p < 10"
    using Suc.prems by (simp_all add: less_mult_imp_div_less)
  consider "m div ?p < n div ?p" | "m div ?p = n div ?p"
    using Suc.prems(1) by (meson div_le_mono leD le_less_linear less_imp_le linorder_neqE_nat)
  then show ?case
  proof cases
    case 1
    then show ?thesis using lt by (simp add: digit_char_less)
  next
    case 2
    then have "m mod ?p < n mod ?p"
      using Suc.prems(1) by (metis add_less_cancel_left div_mult_mod_eq)
    then have "pad w (m mod ?p) < pad w (n mod ?p)" by (rule Suc.IH) simp
    then show ?thesis using 2 lt by (simp add: pad_mod)
  qed
qed simp

lemma lex_append:
  fixes xs ys a b :: "'a::linorder list"
  shows "length xs = length ys \<Longrightarrow> xs @ a < ys @ b \<longleftrightarrow> xs < ys \<or> (xs = ys \<and> a < b)"
  by (induction xs ys rule: list_induct2) auto

section \<open>Instants\<close>

definition epoch_ord :: int where
  "epoch_ord = 719163"

lemma epoch_ord_is_1970: "epoch_ord = to_ord (Date 1970 1 1)"
  by (simp add: epoch_ord_def to_ord_def days_before_year_def days_before_month_def)

definition date_of :: "int \<Rightarrow> date" where
  "date_of t = from_ord (t div day_us + epoch_ord)"

definition clock_text :: "int \<Rightarrow> string" where
  "clock_text u =
     pad 2 (nat (u div 3600000000)) @ '':'' @ pad 2 (nat (u div 60000000 mod 60)) @ '':'' @
     pad 2 (nat (u div 1000000 mod 60)) @
     (if u mod 1000000 = 0 then [] else ''.'' @ pad 6 (nat (u mod 1000000))) @ ''+00:00''"

definition date_text :: "date \<Rightarrow> string" where
  "date_text d = pad 4 (nat (year d)) @ ''-'' @ pad 2 (nat (month d)) @ ''-'' @ pad 2 (nat (day d))"

definition iso_text :: "pydatetime \<Rightarrow> string" where
  "iso_text dt = date_text (date_of (utc_of dt)) @ ''T'' @ clock_text (utc_of dt mod day_us)"

definition py_instant :: "int \<Rightarrow> bool" where
  "py_instant t \<longleftrightarrow> 1 \<le> t div day_us + epoch_ord \<and> year (date_of t) \<le> 9999"

lemma length_date_text [simp]: "length (date_text d) = 10"
  by (simp add: date_text_def)

lemma date_text_less:
  assumes "valid_date d" "valid_date e" "year d \<le> 9999" "year e \<le> 9999" "d < e"
  shows "date_text d < date_text e"
proof -
  have v: "0 \<le> year d" "1 \<le> month d" "month d \<le> 12" "1 \<le> day d" "month e \<le> 12" "day e \<le> 31"
    using assms(1,2) by (auto simp: valid_date_def days_in_month_def split: if_splits)
  consider "year d < year e" | "year d = year e" "month d < month e"
    | "year d = year e" "month d = month e" "day d < day e"
    using assms(5) by (auto simp: less_date_def)
  then show ?thesis
  proof cases
    case 1
    then have "pad 4 (nat (year d)) < pad 4 (nat (year e))"
      using v assms(4) by (intro pad_less) auto
    then show ?thesis by (simp add: date_text_def lex_append)
  next
    case 2
    then have "pad 2 (nat (month d)) < pad 2 (nat (month e))"
      using v by (intro pad_less) auto
    then show ?thesis using 2 by (simp add: date_text_def lex_append)
  next
    case 3
    then have "pad 2 (nat (day d)) < pad 2 (nat (day e))"
      using v by (intro pad_less) auto
    then show ?thesis using 3 by (simp add: date_text_def lex_append)
  qed
qed

lemma pad_less_int:
  assumes "0 \<le> a" "a < b" "b < 10 ^ w"
  shows "pad w (nat a) < pad w (nat b)"
  by (rule pad_less) (use assms in \<open>simp_all add: nat_less_iff\<close>)

lemma hms_less:
  fixes h m s h' m' s' :: int
  assumes "3600 * h + 60 * m + s < 3600 * h' + 60 * m' + s'"
    and "h \<le> h'" "0 \<le> m" "m < 60" "0 \<le> m'" "m' < 60" "0 \<le> s" "s < 60" "0 \<le> s'" "s' < 60"
  shows "h < h' \<or> (h = h' \<and> m < m') \<or> (h = h' \<and> m = m' \<and> s < s')"
proof (cases "h < h'")
  case False
  then have h: "h = h'" using assms(2) by simp
  then have "60 * m + s < 60 * m' + s'" using assms(1) by simp
  then have "m < m' \<or> (m = m' \<and> s < s')" using assms(7-10) by (cases "m < m'"; cases "m = m'") linarith+
  then show ?thesis using h by blast
qed simp

lemma hms_text_less:
  assumes "h < h' \<or> (h = h' \<and> m < m') \<or> (h = h' \<and> m = m' \<and> s < s')"
    and "0 \<le> h" "h' < 100" "0 \<le> m" "m' < 100" "0 \<le> s" "s' < 100"
  shows "pad 2 (nat h) @ '':'' @ pad 2 (nat m) @ '':'' @ pad 2 (nat s) @ f
       < pad 2 (nat h') @ '':'' @ pad 2 (nat m') @ '':'' @ pad 2 (nat s') @ f'"
  using assms pad_less_int[of h h' 2] pad_less_int[of m m' 2] pad_less_int[of s s' 2]
  by (auto simp: lex_append)

lemma clock_text_less:
  assumes "0 \<le> u" "u < v" "v < day_us"
  shows "clock_text u < clock_text v"
proof -
  define su sv where "su = u div 1000000" and "sv = v div 1000000"
  have clock: "clock_text t = pad 2 (nat (t div 1000000 div 3600)) @ '':'' @
      pad 2 (nat (t div 1000000 div 60 mod 60)) @ '':'' @ pad 2 (nat (t div 1000000 mod 60)) @
      (if t mod 1000000 = 0 then [] else ''.'' @ pad 6 (nat (t mod 1000000))) @ ''+00:00''" for t
    unfolding clock_text_def
    using zdiv_zmult2_eq[of 3600 t 1000000] zdiv_zmult2_eq[of 60 t 1000000] by simp
  have s: "0 \<le> su" "su \<le> sv" "sv < 86400"
    using assms unfolding su_def sv_def day_us_def by (auto intro: zdiv_mono1)
  have split: "x = 3600 * (x div 3600) + 60 * (x div 60 mod 60) + x mod 60" for x :: int
  proof -
    have "x div 60 = 60 * (x div 60 div 60) + x div 60 mod 60" by simp
    moreover have "x div 60 div 60 = x div 3600" using zdiv_zmult2_eq[of 60 x 60] by simp
    ultimately have "x div 60 = 60 * (x div 3600) + x div 60 mod 60" by simp
    then show ?thesis using mult_div_mod_eq[of 60 x] by linarith
  qed
  show ?thesis
  proof (cases "su = sv")
    case True
    then have less: "u mod 1000000 < v mod 1000000"
      using assms(2) mult_div_mod_eq[of 1000000 u] mult_div_mod_eq[of 1000000 v]
      unfolding su_def sv_def by linarith
    have u: "0 \<le> u mod 1000000" by simp
    have "v mod 1000000 < 10 ^ 6" by simp
    then have "pad 6 (nat (u mod 1000000)) < pad 6 (nat (v mod 1000000))"
      using less u by (intro pad_less_int)
    moreover have "v mod 1000000 \<noteq> 0" using less u by linarith
    ultimately have "(if u mod 1000000 = 0 then [] else ''.'' @ pad 6 (nat (u mod 1000000))) @ ''+00:00''
        < (if v mod 1000000 = 0 then [] else ''.'' @ pad 6 (nat (v mod 1000000))) @ ''+00:00''"
      by (auto simp: lex_append less_char_def)
    then show ?thesis using True
      unfolding clock su_def[symmetric] sv_def[symmetric] by (simp only: lex_append) simp
  next
    case False
    then have "su < sv" using s(2) by simp
    then have "3600 * (su div 3600) + 60 * (su div 60 mod 60) + su mod 60 <
        3600 * (sv div 3600) + 60 * (sv div 60 mod 60) + sv mod 60"
      by (simp only: split[symmetric])
    then have order: "su div 3600 < sv div 3600 \<or>
        (su div 3600 = sv div 3600 \<and> su div 60 mod 60 < sv div 60 mod 60) \<or>
        (su div 3600 = sv div 3600 \<and> su div 60 mod 60 = sv div 60 mod 60 \<and> su mod 60 < sv mod 60)"
      by (rule hms_less) (simp_all add: zdiv_mono1[OF s(2)])
    have "0 \<le> su div 3600" using s(1) by (simp add: pos_imp_zdiv_nonneg_iff)
    moreover have "sv div 3600 < 100" using s(3) by (simp add: div_less_iff_less_mult)
    moreover have "x mod 60 < 100" for x :: int by (rule order.strict_trans[of _ 60]) simp_all
    ultimately show ?thesis
      unfolding clock su_def[symmetric] sv_def[symmetric]
      by (intro hms_text_less[OF order]) simp_all
  qed
qed

lemma iso_less:
  assumes "py_instant (utc_of a)" "py_instant (utc_of b)" "utc_of a < utc_of b"
  shows "iso_text a < iso_text b"
proof -
  let ?s = "utc_of a" and ?t = "utc_of b"
  have v: "valid_date (date_of ?s)" "valid_date (date_of ?t)"
    "to_ord (date_of ?s) = ?s div day_us + epoch_ord" "to_ord (date_of ?t) = ?t div day_us + epoch_ord"
    using assms(1,2) to_ord_from_ord by (auto simp: py_instant_def date_of_def)
  have "?s div day_us \<le> ?t div day_us" using assms(3) by (intro zdiv_mono1) (auto simp: day_us_def)
  then consider "?s div day_us < ?t div day_us" | "?s div day_us = ?t div day_us" by linarith
  then show ?thesis
  proof cases
    case 1
    then have "date_of ?s < date_of ?t"
      using to_ord_le_iff[OF v(2,1)] v(3,4) by (simp add: not_le[symmetric])
    then have "date_text (date_of ?s) < date_text (date_of ?t)"
      using v assms(1,2) by (intro date_text_less) (auto simp: py_instant_def)
    then show ?thesis by (simp add: iso_text_def lex_append)
  next
    case 2
    then have same: "date_of ?s = date_of ?t" by (simp add: date_of_def)
    have "?s mod day_us < ?t mod day_us"
      using assms(3) 2 by (metis add_less_cancel_left mult_div_mod_eq)
    then have "clock_text (?s mod day_us) < clock_text (?t mod day_us)"
      by (intro clock_text_less) (auto simp: day_us_def)
    then show ?thesis using same by (simp add: iso_text_def lex_append)
  qed
qed

lemma iso_le_iff:
  assumes "py_instant (utc_of a)" "py_instant (utc_of b)"
  shows "iso_text a \<le> iso_text b \<longleftrightarrow> utc_of a \<le> utc_of b"
proof (cases "utc_of a" "utc_of b" rule: linorder_cases)
  case less
  then show ?thesis using iso_less[OF assms] by simp
next
  case equal
  then show ?thesis by (simp add: iso_text_def)
next
  case greater
  then show ?thesis using iso_less[OF assms(2,1)] by (simp add: not_le[symmetric])
qed

section \<open>\<open>datetime.isoformat()\<close>\<close>

text \<open>
  The text of any datetime: the wall clock, the microseconds unless they are zero, and for an
  aware value its offset as a sign, hours, minutes and, unless zero, seconds and microseconds.
\<close>

definition fraction_text :: "int \<Rightarrow> string" where
  "fraction_text u = (if u mod 1000000 = 0 then [] else ''.'' @ pad 6 (nat (u mod 1000000)))"

definition wall_text :: "int \<Rightarrow> string" where
  "wall_text w = (let u = w mod day_us in
     date_text (date_of w) @ ''T'' @ pad 2 (nat (u div 3600000000)) @ '':'' @
     pad 2 (nat (u div 60000000 mod 60)) @ '':'' @ pad 2 (nat (u div 1000000 mod 60)) @
     fraction_text u)"

definition offset_text :: "int \<Rightarrow> string" where
  "offset_text off = (let u = abs off in
     (if off < 0 then ''-'' else ''+'') @ pad 2 (nat (u div 3600000000)) @ '':'' @
     pad 2 (nat (u div 60000000 mod 60)) @
     (if u mod 60000000 = 0 then []
      else '':'' @ pad 2 (nat (u div 1000000 mod 60)) @ fraction_text u))"

fun isoformat :: "pydatetime \<Rightarrow> string" where
  "isoformat (Naive w) = wall_text w"
| "isoformat (Aware w off) = wall_text w @ offset_text off"

text \<open>\<open>_as_utc\<close>: a naive value is read as UTC, an aware one is converted.\<close>

definition as_utc :: "pydatetime \<Rightarrow> pydatetime" where
  "as_utc t = Aware (utc_of t) 0"

lemma utc_of_as_utc [simp]: "utc_of (as_utc t) = utc_of t"
  by (simp add: as_utc_def)

text \<open>On a value in UTC the writer's \<open>_iso\<close> is \<open>isoformat\<close>.\<close>

lemma pad_zero_offset: "offset_text 0 = ''+00:00''"
  by code_simp

lemma iso_text_isoformat: "iso_text t = isoformat (as_utc t)"
  by (simp add: iso_text_def as_utc_def wall_text_def clock_text_def fraction_text_def
      pad_zero_offset Let_def)

end
