(* ===== verification/Schedule_Grid.thy ===== *)
theory Schedule_Grid
  imports Calmath Iso_Time
begin

text \<open>
  The pure cadence functions of \<open>scheduling/service.py\<close>: the tick of a schedule is the last point
  of its grid at or before the clock. A tick is an aware datetime in UTC, represented by its
  microseconds since the epoch; \<open>now\<close> is the datetime the caller passes. The specification is the
  set of grid points of a cadence.
\<close>

text \<open>\<open>ScheduleError\<close>, and a \<open>ValueError\<close> that is not one.\<close>

datatype sched_error = ScheduleError string | RawValueError

section \<open>The grid\<close>

definition max_interval_days :: int where
  "max_interval_days = 36525"

text \<open>\<open>timedelta.max.days\<close>, beyond which its constructor raises \<open>OverflowError\<close>.\<close>

definition timedelta_max_days :: int where
  "timedelta_max_days = 999999999"

definition anchor_dt :: "date \<Rightarrow> int" where
  "anchor_dt d = (to_ord d - epoch_ord) * day_us"

definition end_of_day :: "date \<Rightarrow> int" where
  "end_of_day d = anchor_dt d + day_us - 1"

fun require_aware :: "pydatetime \<Rightarrow> sched_error + int" where
  "require_aware (Naive w) = Inl (ScheduleError ''now must be tz-aware'')"
| "require_aware (Aware w off) = Inr (w - off)"

text \<open>The end of the last business day of a month; \<open>date(0, ...)\<close> is a \<open>ValueError\<close>.\<close>

definition month_end_instant :: "int \<Rightarrow> int \<Rightarrow> date set \<Rightarrow> sched_error + int" where
  "month_end_instant y m holidays =
     (if y < 1 then Inl RawValueError
      else case last_business_day_of_month y m holidays of
             Inl _ \<Rightarrow> Inl RawValueError
           | Inr d \<Rightarrow> Inr (end_of_day d))"

definition month_before :: "int \<Rightarrow> int \<Rightarrow> int \<times> int" where
  "month_before y m = (if m = 1 then (y - 1, 12) else (y, m - 1))"

definition month_end_tick_at_or_before :: "int \<Rightarrow> date set \<Rightarrow> sched_error + int" where
  "month_end_tick_at_or_before now holidays =
     (let d = date_of now
      in bindR (month_end_instant (year d) (month d) holidays) (\<lambda>candidate.
         if candidate \<le> now then Inr candidate
         else let (y, m) = month_before (year d) (month d) in month_end_instant y m holidays))"

definition interval_tick :: "date \<Rightarrow> int option \<Rightarrow> int \<Rightarrow> sched_error + int" where
  "interval_tick anchor interval now =
     (case interval of
        None \<Rightarrow> Inl (ScheduleError ''interval_days is required'')
      | Some n \<Rightarrow>
          if n \<le> 0 then Inl (ScheduleError ''interval_days must be positive'')
          else if timedelta_max_days < n then Inl (ScheduleError ''interval_days overflows'')
          else let a = anchor_dt anchor; step = n * day_us; k = (now - a) div step;
                   k' = (if k < 0 then 0 else k)
               in Inr (a + k' * step))"

definition current_tick ::
  "date \<Rightarrow> int option \<Rightarrow> pydatetime \<Rightarrow> string \<Rightarrow> date set option \<Rightarrow> sched_error + int" where
  "current_tick anchor interval now cadence holidays =
     bindR (require_aware now) (\<lambda>t.
       if cadence = ''CALENDAR_MONTH_END'' then month_end_tick_at_or_before t {}
       else if cadence = ''BUSINESS_MONTH_END'' then
         (case holidays of
            None \<Rightarrow> Inl (ScheduleError ''a holiday set is required'')
          | Some hs \<Rightarrow> (case month_end_tick_at_or_before t hs of
               Inl _ \<Rightarrow> Inl (ScheduleError ''the holiday set is corrupt'')
             | Inr tick \<Rightarrow> Inr tick))
       else if cadence \<noteq> ''INTERVAL'' then Inl (ScheduleError ''unknown cadence_kind'')
       else interval_tick anchor interval t)"

definition outside_start_boundary :: "date \<Rightarrow> int \<Rightarrow> int \<Rightarrow> bool" where
  "outside_start_boundary anchor tick now \<longleftrightarrow> tick < anchor_dt anchor \<or> now < anchor_dt anchor"

definition period_key :: "int \<Rightarrow> string" where
  "period_key tick = (let d = date_of tick in pad 4 (nat (year d)) @ ''-'' @ pad 2 (nat (month d)))"

section \<open>The points of a grid\<close>

text \<open>What the tick of a schedule is one of: every point of its grid, past or future.\<close>

definition grid :: "date \<Rightarrow> int option \<Rightarrow> string \<Rightarrow> date set option \<Rightarrow> int set" where
  "grid anchor interval cadence holidays =
     (if cadence = ''INTERVAL'' then
        {g. \<exists>n k. interval = Some n \<and> 0 \<le> k \<and> g = anchor_dt anchor + k * (n * day_us)}
      else {g. \<exists>y m d. 1 \<le> y \<and> 1 \<le> m \<and> m \<le> 12 \<and> g = end_of_day d \<and>
        last_business_day_of_month y m
          (if cadence = ''BUSINESS_MONTH_END'' then the holidays else {}) = Inr d})"

section \<open>Months and instants\<close>

lemma day_us_pos [simp]: "0 < day_us"
  by (simp add: day_us_def)

lemma date_of_valid: "py_instant t \<Longrightarrow> valid_date (date_of t) \<and> to_ord (date_of t) = t div day_us + epoch_ord"
  using to_ord_from_ord by (simp add: py_instant_def date_of_def)

lemma date_of_end_of_day: "valid_date d \<Longrightarrow> date_of (end_of_day d) = d"
proof -
  assume v: "valid_date d"
  have "(day_us * (to_ord d - epoch_ord) + (day_us - 1)) div day_us = to_ord d - epoch_ord"
    by (rule int_div_pos_eq[of _ _ _ "day_us - 1"]) (auto simp: day_us_def)
  moreover have "end_of_day d = day_us * (to_ord d - epoch_ord) + (day_us - 1)"
    by (simp add: end_of_day_def anchor_dt_def mult.commute)
  ultimately have "end_of_day d div day_us = to_ord d - epoch_ord" by simp
  then show ?thesis using from_ord_to_ord[OF v] by (simp add: date_of_def)
qed

lemma end_of_day_less_iff: "end_of_day d < end_of_day e \<longleftrightarrow> to_ord d < to_ord e"
  by (simp add: end_of_day_def anchor_dt_def)

lemma end_of_day_le_iff: "end_of_day d \<le> end_of_day e \<longleftrightarrow> to_ord d \<le> to_ord e"
  using end_of_day_less_iff[of e d] by linarith

text \<open>A day lies before an instant's date exactly if its end lies before the instant.\<close>

lemma end_of_earlier_day:
  assumes "py_instant now" "to_ord d < to_ord (date_of now)"
  shows "end_of_day d < now"
proof -
  have "to_ord d - epoch_ord + 1 \<le> now div day_us"
    using assms date_of_valid[OF assms(1)] by linarith
  then have "(to_ord d - epoch_ord + 1) * day_us \<le> now div day_us * day_us"
    by (rule mult_right_mono) (simp add: day_us_def)
  also have "\<dots> \<le> now"
    using pos_mod_sign[OF day_us_pos, of now] div_mult_mod_eq[of now day_us] by linarith
  finally show ?thesis by (simp add: end_of_day_def anchor_dt_def algebra_simps)
qed

lemma later_day_not_ended:
  assumes "py_instant now" "to_ord (date_of now) < to_ord d"
  shows "now < end_of_day d"
proof -
  have "now div day_us + 1 \<le> to_ord d - epoch_ord"
    using assms date_of_valid[OF assms(1)] by linarith
  then have "(now div day_us + 1) * day_us \<le> (to_ord d - epoch_ord) * day_us"
    by (rule mult_right_mono) (simp add: day_us_def)
  moreover have "now < (now div day_us + 1) * day_us"
    using pos_mod_bound[OF day_us_pos, of now] div_mult_mod_eq[of now day_us]
    unfolding distrib_right by linarith
  ultimately show ?thesis by (simp add: end_of_day_def anchor_dt_def day_us_def)
qed

lemma month_end_instant_iff:
  "month_end_instant y m holidays = Inr t \<longleftrightarrow>
     1 \<le> y \<and> (\<exists>d. last_business_day_of_month y m holidays = Inr d \<and> t = end_of_day d)"
  by (auto simp: month_end_instant_def split: sum.splits)

lemma month_end_instant_Inr:
  assumes "month_end_instant y m holidays = Inr t"
  obtains d where "1 \<le> y" "last_business_day_of_month y m holidays = Inr d" "t = end_of_day d"
  using assms by (auto simp: month_end_instant_iff)

text \<open>The two cases of a month-end tick: this month's grid point, or the month before's.\<close>

lemma month_end_tick_cases:
  assumes "month_end_tick_at_or_before now hs = Inr t"
    and "month_before (year (date_of now)) (month (date_of now)) = (y', m')"
  obtains c where "1 \<le> year (date_of now)"
    "last_business_day_of_month (year (date_of now)) (month (date_of now)) hs = Inr c"
    "end_of_day c \<le> now \<and> t = end_of_day c \<or> now < end_of_day c \<and> month_end_instant y' m' hs = Inr t"
proof -
  from assms(1) obtain i where i: "month_end_instant (year (date_of now)) (month (date_of now)) hs = Inr i"
    and t: "(if i \<le> now then Inr i else month_end_instant y' m' hs) = Inr t"
    unfolding month_end_tick_at_or_before_def Let_def assms(2) prod.case res_simps by blast
  from month_end_instant_Inr[OF i] t that show thesis by (metis not_le sum.inject(2))
qed

lemma month_before_range:
  assumes "month_before y m = (y', m')" "1 \<le> m" "m \<le> 12"
  shows "1 \<le> m'" "m' \<le> 12" "y' \<le> y" "y' = y \<Longrightarrow> m' < m"
  using assms by (auto simp: month_before_def split: if_splits)

lemma months_between:
  assumes "month_before y m = (y', m')" "1 \<le> m" "m \<le> 12" "1 \<le> b" "b \<le> 12"
    and "a < y \<or> a = y \<and> b < m"
  shows "a < y' \<or> a = y' \<and> b \<le> m'"
  using assms by (auto simp: month_before_def split: if_splits)


section \<open>The tick is the latest grid point\<close>

lemma month_order:
  assumes "valid_date d" "valid_date e"
    and "year d < year e \<or> year d = year e \<and> month d < month e"
  shows "to_ord d < to_ord e"
  using assms by (intro to_ord_less) (auto simp: less_date_def)

lemma business_day_unique:
  assumes "last_business_day_of_month y m hs = Inr d" "last_business_day_of_month y m hs = Inr e"
  shows "d = e"
  using assms by simp

text \<open>A month-end grid point at or before the clock is of the clock's month or of an earlier one.\<close>

lemma month_end_tick_latest:
  assumes tick: "month_end_tick_at_or_before now hs = Inr t" and py: "py_instant now"
    and g: "1 \<le> y" "1 \<le> m" "m \<le> 12" "last_business_day_of_month y m hs = Inr e" "end_of_day e \<le> now"
  shows "end_of_day e \<le> t"
proof -
  let ?n = "date_of now"
  have n: "valid_date ?n" and m12: "1 \<le> month ?n" "month ?n \<le> 12"
    using date_of_valid[OF py] by (auto simp: valid_date_def)
  note e = last_business_day_in_month[OF g(4)] last_business_day_valid[OF g(1-4)]
  have not_later: "y < year ?n \<or> y = year ?n \<and> m \<le> month ?n"
  proof (rule ccontr)
    assume "\<not> ?thesis"
    then have "to_ord ?n < to_ord e" using e n by (intro month_order) auto
    then show False using later_day_not_ended[OF py, of e] g(5) by linarith
  qed
  obtain y' m' where b: "month_before (year ?n) (month ?n) = (y', m')" by fastforce
  note b' = month_before_range[OF b m12]
  from month_end_tick_cases[OF tick b] obtain c where c:
    "last_business_day_of_month (year ?n) (month ?n) hs = Inr c"
    "end_of_day c \<le> now \<and> t = end_of_day c \<or> now < end_of_day c \<and> month_end_instant y' m' hs = Inr t" .
  show ?thesis
  proof (cases "end_of_day c \<le> now")
    case True
    then have t: "t = end_of_day c" using c(2) by linarith
    show ?thesis
    proof (cases "y = year ?n \<and> m = month ?n")
      case True
      then show ?thesis using c(1) g(4) t by simp
    next
      case False
      then have "to_ord e < to_ord c"
        using not_later e last_business_day_in_month[OF c(1)] n m12
          last_business_day_valid[OF _ _ _ c(1)]
        by (intro month_order) (auto simp: valid_date_def)
      then show ?thesis using t by (simp add: end_of_day_le_iff)
    qed
  next
    case False
    then have "month_end_instant y' m' hs = Inr t" using c(2) by linarith
    then obtain d where d: "1 \<le> y'" "last_business_day_of_month y' m' hs = Inr d" "t = end_of_day d"
      by (rule month_end_instant_Inr)
    have "\<not> (y = year ?n \<and> m = month ?n)" using False g(4,5) c(1) by auto
    then have "y < y' \<or> y = y' \<and> m \<le> m'"
      using not_later months_between[OF b m12 g(2,3), of y] by auto
    then consider "y = y'" "m = m'" | "y < y' \<or> y = y' \<and> m < m'" by linarith
    then show ?thesis
    proof cases
      case 1
      then show ?thesis using d(2,3) g(4) by simp
    next
      case 2
      then have "to_ord e < to_ord d"
        using e last_business_day_in_month[OF d(2)] last_business_day_valid[OF d(1) b'(1,2) d(2)]
        by (intro month_order) auto
      then show ?thesis using d(3) by (simp add: end_of_day_le_iff)
    qed
  qed
qed

lemma month_end_tick_on_grid:
  assumes tick: "month_end_tick_at_or_before now hs = Inr t" and py: "py_instant now"
  shows "t \<le> now \<and> (\<exists>y m d. 1 \<le> y \<and> 1 \<le> m \<and> m \<le> 12 \<and> t = end_of_day d \<and>
    last_business_day_of_month y m hs = Inr d)"
proof -
  let ?n = "date_of now"
  have n: "valid_date ?n" and m12: "1 \<le> month ?n" "month ?n \<le> 12"
    using date_of_valid[OF py] by (auto simp: valid_date_def)
  obtain y' m' where b: "month_before (year ?n) (month ?n) = (y', m')" by fastforce
  note b' = month_before_range[OF b m12]
  from month_end_tick_cases[OF tick b] obtain c where c: "1 \<le> year ?n"
    "last_business_day_of_month (year ?n) (month ?n) hs = Inr c"
    "end_of_day c \<le> now \<and> t = end_of_day c \<or> now < end_of_day c \<and> month_end_instant y' m' hs = Inr t" .
  show ?thesis
  proof (cases "end_of_day c \<le> now")
    case True
    then have "t = end_of_day c" using c(3) by linarith
    then show ?thesis using True c m12 by blast
  next
    case False
    then have "month_end_instant y' m' hs = Inr t" using c(3) by linarith
    then obtain d where d: "1 \<le> y'" "last_business_day_of_month y' m' hs = Inr d" "t = end_of_day d"
      by (rule month_end_instant_Inr)
    have "y' < year ?n \<or> y' = year ?n \<and> m' < month ?n" using b'(3,4) by linarith
    then have "to_ord d < to_ord ?n"
      using last_business_day_in_month[OF d(2)] last_business_day_valid[OF d(1) b'(1,2) d(2)] n
      by (intro month_order) auto
    then show ?thesis using end_of_earlier_day[OF py] d b'(1,2) by (metis order_less_imp_le)
  qed
qed

lemma interval_tick_Inr:
  assumes "interval_tick anchor interval now = Inr t"
  obtains n where "interval = Some n" "0 < n"
    "t = anchor_dt anchor + max 0 ((now - anchor_dt anchor) div (n * day_us)) * (n * day_us)"
  using assms by (auto simp: interval_tick_def Let_def max_def split: option.splits if_splits)

lemma interval_tick_latest:
  assumes "interval_tick anchor interval now = Inr t" "anchor_dt anchor \<le> now"
  shows "t \<le> now \<and> (\<exists>n k. interval = Some n \<and> 0 \<le> k \<and> t = anchor_dt anchor + k * (n * day_us)) \<and>
    (\<forall>n k. interval = Some n \<and> 0 \<le> k \<and> anchor_dt anchor + k * (n * day_us) \<le> now \<longrightarrow>
       anchor_dt anchor + k * (n * day_us) \<le> t)"
proof -
  let ?a = "anchor_dt anchor"
  obtain n where n: "interval = Some n" "0 < n" and t: "t = ?a + max 0 ((now - ?a) div (n * day_us)) * (n * day_us)"
    using assms(1) by (rule interval_tick_Inr)
  let ?s = "n * day_us"
  have s: "0 < ?s" using n(2) by simp
  have q: "0 \<le> (now - ?a) div ?s" using assms(2) s by (simp add: pos_imp_zdiv_nonneg_iff)
  then have t': "t = ?a + (now - ?a) div ?s * ?s" using t by simp
  have "(now - ?a) div ?s * ?s \<le> now - ?a"
    using pos_mod_sign[OF s, of "now - ?a"] div_mult_mod_eq[of "now - ?a" ?s] by linarith
  moreover have "k * ?s \<le> (now - ?a) div ?s * ?s" if "?a + k * ?s \<le> now" for k
  proof (rule mult_right_mono)
    have "k * ?s div ?s \<le> (now - ?a) div ?s"
      by (rule zdiv_mono1) (use that s in linarith)+
    then show "k \<le> (now - ?a) div ?s"
      using s nonzero_mult_div_cancel_right[of ?s k] by (metis less_irrefl)
  qed (use s in simp)
  ultimately show ?thesis using n(1) q t' by auto
qed

text \<open>C19. When a schedule is inside its start boundary, its tick is the last point of its grid at or
  before the clock: no later grid point has been reached (the scheduler never backfills), and it is
  neither in the future nor before the anchor.\<close>

theorem tick_is_the_last_grid_point:
  assumes tick: "current_tick anchor interval now cadence holidays = Inr t"
    and py: "py_instant (utc_of now)"
    and start: "\<not> outside_start_boundary anchor t (utc_of now)"
  shows "anchor_dt anchor \<le> t \<and> t \<le> utc_of now \<and> t \<in> grid anchor interval cadence holidays \<and>
    (\<forall>g \<in> grid anchor interval cadence holidays. g \<le> utc_of now \<longrightarrow> g \<le> t)"
proof -
  have aware: "require_aware now = Inr (utc_of now)"
    using tick by (cases now) (simp_all add: current_tick_def)
  have a: "anchor_dt anchor \<le> t" "anchor_dt anchor \<le> utc_of now"
    using start by (auto simp: outside_start_boundary_def)
  show ?thesis
  proof (cases "cadence = ''INTERVAL''")
    case True
    then have "interval_tick anchor interval (utc_of now) = Inr t"
      using tick aware by (simp add: current_tick_def)
    from interval_tick_latest[OF this a(2)] show ?thesis using True a(1) by (auto simp: grid_def)
  next
    case False
    define hs where "hs = (if cadence = ''BUSINESS_MONTH_END'' then the holidays else {})"
    have "month_end_tick_at_or_before (utc_of now) hs = Inr t"
      using tick aware False
      by (auto simp: current_tick_def hs_def split: if_splits option.splits sum.splits)
    from month_end_tick_on_grid[OF this py] month_end_tick_latest[OF this py]
    show ?thesis using False a(1) unfolding grid_def hs_def[symmetric] by auto
  qed
qed

section \<open>Errors\<close>

lemma month_end_ok_no_holidays:
  assumes "1 \<le> y" "1 \<le> m" "m \<le> 12"
  shows "\<exists>t. month_end_instant y m {} = Inr t"
proof (cases "last_business_day_of_month y m {}")
  case (Inl e)
  then have "list_all (\<lambda>k. blocked {} (Date y m k)) [1..days_in_month y m]"
    using last_business_day_spec[where y = y and m = m and holidays = "{}"] by simp
  then have all: "weekday (to_ord (Date y m k)) \<ge> 5" if "1 \<le> k" "k \<le> days_in_month y m" for k
    using that by (auto simp: list_all_iff blocked_def)
  show ?thesis
    using all[of 1] all[of 2] all[of 3] days_in_month_ge[of y m] to_ord_month[of y m 2 3]
      to_ord_month[of y m 1 3] weekday_within_3[of "to_ord (Date y m 3)"]
    by simp
qed (use assms in \<open>simp add: month_end_instant_def\<close>)

lemma month_end_tick_ok:
  assumes "py_instant now" "2 \<le> year (date_of now)"
  shows "\<exists>t. month_end_tick_at_or_before now {} = Inr t"
proof -
  let ?n = "date_of now"
  have m12: "1 \<le> month ?n" "month ?n \<le> 12"
    using date_of_valid[OF assms(1)] by (auto simp: valid_date_def)
  obtain y' m' where b: "month_before (year ?n) (month ?n) = (y', m')" by fastforce
  have y': "1 \<le> y'" using b assms(2) by (auto simp: month_before_def split: if_splits)
  obtain i where i: "month_end_instant (year ?n) (month ?n) {} = Inr i"
    using month_end_ok_no_holidays[OF _ m12, of "year ?n"] assms(2) by auto
  obtain j where j: "month_end_instant y' m' {} = Inr j"
    using month_end_ok_no_holidays[OF y' month_before_range(1,2)[OF b m12]] by auto
  show ?thesis
    unfolding month_end_tick_at_or_before_def Let_def b prod.case i bindR.simps j by simp
qed

lemma current_tick_error:
  assumes "py_instant (utc_of now)" "2 \<le> year (date_of (utc_of now))"
  shows "current_tick anchor interval now cadence holidays \<noteq> Inl RawValueError"
proof
  assume r: "current_tick anchor interval now cadence holidays = Inl RawValueError"
  then obtain w off where w: "now = Aware w off" by (cases now) (auto simp: current_tick_def)
  have "\<not> cadence = ''CALENDAR_MONTH_END''"
    using r month_end_tick_ok[OF assms] by (auto simp: current_tick_def w)
  then show False
    using r by (auto simp: w current_tick_def interval_tick_def Let_def split: option.splits if_splits sum.splits)
qed

lemma period_key_inj:
  assumes "py_instant s" "py_instant t" "period_key s = period_key t"
  shows "year (date_of s) = year (date_of t) \<and> month (date_of s) = month (date_of t)"
proof -
  have less: "nat (year (date_of x)) < 10 ^ 4" "nat (month (date_of x)) < 10 ^ 2"
    and nonneg: "0 \<le> year (date_of x)" "0 \<le> month (date_of x)" if "py_instant x" for x
    using date_of_valid[OF that] that by (auto simp: valid_date_def py_instant_def)
  have inj: "i = j" if "pad w i = pad w j" "i < 10 ^ w" "j < 10 ^ w" for w i j
    using pad_less[of i j w] pad_less[of j i w] that by (metis less_irrefl linorder_neqE_nat)
  have "pad 4 (nat (year (date_of s))) = pad 4 (nat (year (date_of t)))"
    "pad 2 (nat (month (date_of s))) = pad 2 (nat (month (date_of t)))"
    using assms(3) by (auto simp: period_key_def Let_def simp del: pad.simps)
  then show ?thesis
    using inj[OF _ less(1)[OF assms(1)] less(1)[OF assms(2)]]
      inj[OF _ less(2)[OF assms(1)] less(2)[OF assms(2)]]
      nonneg[OF assms(1)] nonneg[OF assms(2)] by (metis nat_eq_iff2)
qed

section \<open>An example\<close>

text \<open>2026-08-06, on the grid of the last weekday of a month.\<close>

lemmas calendar_eval = date_of_def from_ord_def year_of_ord_def month_of_yday_def days_before_year_def
  days_before_month_def days_in_month_def is_leap_def to_ord_def month_last_def weekday_def
  epoch_ord_def day_us_def last_weekday_of_month_def

lemma aug_6: "date_of 1786000000000000 = Date 2026 8 6"
  by (simp add: calendar_eval)

lemma weekday_roll: "weekday n < 5 \<Longrightarrow> roll_weekend n = n"
  using roll_weekend_eq[of n 0] by simp

lemma month_last_2026: "to_ord (month_last 2026 8) = 739859" "to_ord (month_last 2026 7) = 739828"
  by (simp_all add: calendar_eval)

lemma rolled_2026: "roll_weekend 739859 = 739859" "roll_weekend 739828 = 739828"
  by (simp_all add: weekday_roll weekday_def)

lemma from_ord_2026: "from_ord 739859 = Date 2026 8 31" "from_ord 739828 = Date 2026 7 31"
  by (simp_all add: calendar_eval)

lemma last_days_2026:
  "last_business_day_of_month 2026 8 {} = Inr (Date 2026 8 31)"
  "last_business_day_of_month 2026 7 {} = Inr (Date 2026 7 31)"
  by (simp_all add: last_business_day_no_holidays last_weekday_of_month_def month_last_2026 rolled_2026 from_ord_2026)

lemma aug_6_instants:
  "end_of_day (Date 2026 8 31) = 1788220799999999" "end_of_day (Date 2026 7 31) = 1785542399999999"
  "anchor_dt (Date 2026 1 5) = 1767571200000000"
  by (simp_all add: end_of_day_def anchor_dt_def calendar_eval)

lemma aug_6_tick:
  "current_tick (Date 2026 1 5) None (Aware 1786000000000000 0) ''CALENDAR_MONTH_END'' None =
     Inr (end_of_day (Date 2026 7 31))"
  by (simp add: current_tick_def month_end_tick_at_or_before_def aug_6 month_end_instant_def last_days_2026
      month_before_def aug_6_instants)

theorem tick_is_the_last_grid_point_witness:
  "anchor_dt (Date 2026 1 5) \<le> end_of_day (Date 2026 7 31) \<and>
   end_of_day (Date 2026 7 31) \<le> 1786000000000000 \<and>
   end_of_day (Date 2026 7 31) \<in> grid (Date 2026 1 5) None ''CALENDAR_MONTH_END'' None"
proof -
  have py: "py_instant (utc_of (Aware 1786000000000000 0))"
    by (simp add: py_instant_def aug_6 day_us_def epoch_ord_def)
  have start: "\<not> outside_start_boundary (Date 2026 1 5) (end_of_day (Date 2026 7 31)) (utc_of (Aware 1786000000000000 0))"
    by (simp add: outside_start_boundary_def aug_6_instants)
  show ?thesis using tick_is_the_last_grid_point[OF aug_6_tick py start] by simp
qed

end
