(* ===== verification/Audit_Chain.thy ===== *)
theory Audit_Chain
  imports Prelude Json_Canon Iso_Time "HOL-Library.Product_Lexorder"
begin

text \<open>
  The append-only audit log of \<open>audit/service.py\<close> and \<open>audit/hashing.py\<close>, its verifier, its
  checkpoints and the read queries of \<open>audit/queries.py\<close>. SHA-256 is the field \<open>sha\<close> of the
  environment; row ids and the writer's clock are its functions \<open>uuid\<close> and \<open>stamp\<close> of the
  number of rows already in the table.
\<close>

record env =
  sha :: "string \<Rightarrow> string"
  uuid :: "string \<Rightarrow> nat \<Rightarrow> string"
  stamp :: "nat \<Rightarrow> pydatetime"

section \<open>Rows\<close>

text \<open>The columns a caller of \<open>record_event\<close> supplies.\<close>

record event_fields =
  event_type :: string
  tenant_id :: string
  actor_type :: string
  actor_id :: string
  on_behalf_of :: "string option"
  source_module :: string
  entity_type :: "string option"
  entity_id :: "string option"
  action :: string
  before_value :: "json option"
  after_value :: "json option"
  justification :: "string option"
  approval_ref :: "string option"
  correlation_id :: "string option"
  outcome :: string
  severity :: string
  data_classification :: string
  agent_model :: "string option"
  agent_model_version :: "string option"

text \<open>\<open>AuditEvent\<close>: those columns, and the ones the writer computes.\<close>

record audit_event = event_fields +
  ev_id :: string
  event_time :: string
  chain_id :: string
  sequence_no :: int
  previous_event_hash :: string
  event_payload_hash :: string
  event_hash :: string
  hash_algorithm :: string
  hash_version :: string

record audit_checkpoint =
  cp_id :: string
  cp_tenant_id :: string
  cp_chain_id :: string
  cp_sequence_no :: int
  cp_last_event_hash :: string

record audit_db =
  audit_events :: "audit_event list"
  audit_checkpoints :: "audit_checkpoint list"

text \<open>The keyword defaults of \<open>record_event\<close>.\<close>

definition event_call ::
  "string \<Rightarrow> string \<Rightarrow> string \<Rightarrow> string \<Rightarrow> string \<Rightarrow> string \<Rightarrow> event_fields" where
  "event_call ty tenant aty aid modl act = \<lparr>
     event_type = ty, tenant_id = tenant, actor_type = aty, actor_id = aid, on_behalf_of = None,
     source_module = modl, entity_type = None, entity_id = None, action = act,
     before_value = None, after_value = None, justification = None, approval_ref = None,
     correlation_id = None, outcome = ''success'', severity = ''info'',
     data_classification = ''DC-2'', agent_model = None, agent_model_version = None\<rparr>"

section \<open>Hashing\<close>

definition genesis_hash :: string where
  "genesis_hash = replicate 64 (CHR ''0'')"

definition payload_hash :: "env \<Rightarrow> json \<Rightarrow> string" where
  "payload_hash E payload = sha E (canonicalize payload)"

definition chain_hash :: "env \<Rightarrow> string \<Rightarrow> string \<Rightarrow> string" where
  "chain_hash E previous payload = sha E (previous @ payload)"

definition opt_str :: "string option \<Rightarrow> json" where
  "opt_str v = (case v of None \<Rightarrow> JNull | Some s \<Rightarrow> JStr s)"

definition opt_json :: "json option \<Rightarrow> json" where
  "opt_json v = (case v of None \<Rightarrow> JNull | Some j \<Rightarrow> j)"

text \<open>\<open>_build_payload\<close>: the fields covered by \<open>event_payload_hash\<close>, in the code's order.\<close>

definition build_payload ::
  "'a event_fields_scheme \<Rightarrow> string \<Rightarrow> string \<Rightarrow> int \<Rightarrow> json" where
  "build_payload f time chain seq = JObj [
     (''event_type'', JStr (event_type f)),
     (''event_time'', JStr time),
     (''tenant_id'', JStr (tenant_id f)),
     (''actor_type'', JStr (actor_type f)),
     (''actor_id'', JStr (actor_id f)),
     (''on_behalf_of'', opt_str (on_behalf_of f)),
     (''source_module'', JStr (source_module f)),
     (''entity_type'', opt_str (entity_type f)),
     (''entity_id'', opt_str (entity_id f)),
     (''action'', JStr (action f)),
     (''before_value'', opt_json (before_value f)),
     (''after_value'', opt_json (after_value f)),
     (''justification'', opt_str (justification f)),
     (''approval_ref'', opt_str (approval_ref f)),
     (''correlation_id'', opt_str (correlation_id f)),
     (''outcome'', JStr (outcome f)),
     (''severity'', JStr (severity f)),
     (''data_classification'', JStr (data_classification f)),
     (''agent_model'', opt_str (agent_model f)),
     (''agent_model_version'', opt_str (agent_model_version f)),
     (''chain_id'', JStr chain),
     (''sequence_no'', JInt seq)]"

section \<open>Writing\<close>

definition chain_rows :: "string \<Rightarrow> 'a audit_db_scheme \<Rightarrow> audit_event list" where
  "chain_rows chain db = filter (\<lambda>e. chain_id e = chain) (audit_events db)"

text \<open>The query for the last event of a chain, shared by the writer and the checkpoint.\<close>

definition last_event :: "string \<Rightarrow> 'a audit_db_scheme \<Rightarrow> audit_event option" where
  "last_event chain db = latest_by sequence_no (chain_rows chain db)"

definition next_seq :: "string \<Rightarrow> audit_event list \<Rightarrow> int" where
  "next_seq chain rows =
     (case latest_by sequence_no (filter (\<lambda>e. chain_id e = chain) rows) of
        None \<Rightarrow> 1 | Some l \<Rightarrow> sequence_no l + 1)"

text \<open>
  \<open>record_event\<close>: \<open>at\<close> is its \<open>event_time\<close> argument, absent for the clock's reading. The
  advisory lock makes the read of the last event and the insert one step.
\<close>

definition record_event ::
  "env \<Rightarrow> event_fields \<Rightarrow> pydatetime option \<Rightarrow> 'a audit_db_scheme
     \<Rightarrow> 'a audit_db_scheme \<times> audit_event" where
  "record_event E f at db =
     (let chain = tenant_id f;
          last = last_event chain db;
          seq = next_seq chain (audit_events db);
          previous = (case last of None \<Rightarrow> genesis_hash | Some l \<Rightarrow> event_hash l);
          time = iso_text (case at of Some t \<Rightarrow> t | None \<Rightarrow> stamp E (length (audit_events db)));
          ph = payload_hash E (build_payload f time chain seq);
          ev = \<lparr> event_type = event_type f, tenant_id = tenant_id f, actor_type = actor_type f,
                 actor_id = actor_id f, on_behalf_of = on_behalf_of f,
                 source_module = source_module f, entity_type = entity_type f,
                 entity_id = entity_id f, action = action f, before_value = before_value f,
                 after_value = after_value f, justification = justification f,
                 approval_ref = approval_ref f, correlation_id = correlation_id f,
                 outcome = outcome f, severity = severity f,
                 data_classification = data_classification f, agent_model = agent_model f,
                 agent_model_version = agent_model_version f,
                 ev_id = uuid E ''audit_event'' (length (audit_events db)),
                 event_time = time, chain_id = chain, sequence_no = seq,
                 previous_event_hash = previous, event_payload_hash = ph,
                 event_hash = chain_hash E previous ph,
                 hash_algorithm = ''SHA-256'', hash_version = ''1'' \<rparr>
      in (db\<lparr>audit_events := audit_events db @ [ev]\<rparr>, ev))"

text \<open>A call whose returned event is not used.\<close>

definition log_event ::
  "env \<Rightarrow> event_fields \<Rightarrow> pydatetime option \<Rightarrow> 'a audit_db_scheme \<Rightarrow> 'a audit_db_scheme" where
  "log_event E f at db = fst (record_event E f at db)"

section \<open>Verifying\<close>

record verification =
  ver_ok :: bool
  events_checked :: int
  broken_sequence_no :: "int option"
  ver_reason :: "string option"

text \<open>The checks of the loop body of \<open>verify_chain\<close> on one event, in their order.\<close>

definition check_event :: "env \<Rightarrow> string \<Rightarrow> int \<Rightarrow> audit_event \<Rightarrow> verification option" where
  "check_event E previous expected ev =
     (if sequence_no ev \<noteq> expected then
        Some \<lparr>ver_ok = False, events_checked = expected - 1,
              broken_sequence_no = Some (sequence_no ev), ver_reason = Some ''sequence_gap''\<rparr>
      else if payload_hash E (build_payload ev (event_time ev) (chain_id ev) (sequence_no ev))
          \<noteq> event_payload_hash ev then
        Some \<lparr>ver_ok = False, events_checked = sequence_no ev,
              broken_sequence_no = Some (sequence_no ev), ver_reason = Some ''payload_tampered''\<rparr>
      else if previous_event_hash ev \<noteq> previous then
        Some \<lparr>ver_ok = False, events_checked = sequence_no ev,
              broken_sequence_no = Some (sequence_no ev), ver_reason = Some ''chain_link_broken''\<rparr>
      else if chain_hash E previous (event_payload_hash ev) \<noteq> event_hash ev then
        Some \<lparr>ver_ok = False, events_checked = sequence_no ev,
              broken_sequence_no = Some (sequence_no ev), ver_reason = Some ''event_hash_mismatch''\<rparr>
      else None)"

fun verify_loop :: "env \<Rightarrow> string \<Rightarrow> int \<Rightarrow> audit_event list \<Rightarrow> verification option" where
  "verify_loop E previous expected [] = None"
| "verify_loop E previous expected (ev # evs) =
     (case check_event E previous expected ev of
        Some r \<Rightarrow> Some r
      | None \<Rightarrow> verify_loop E (event_hash ev) (expected + 1) evs)"

definition verify_chain :: "env \<Rightarrow> 'a audit_db_scheme \<Rightarrow> string \<Rightarrow> verification" where
  "verify_chain E db chain =
     (let events = sort_key sequence_no (chain_rows chain db)
      in case verify_loop E genesis_hash 1 events of
           Some r \<Rightarrow> r
         | None \<Rightarrow> \<lparr>ver_ok = True, events_checked = int (length events),
                    broken_sequence_no = None, ver_reason = None\<rparr>)"

definition create_checkpoint ::
  "env \<Rightarrow> string \<Rightarrow> 'a audit_db_scheme \<Rightarrow> 'a audit_db_scheme \<times> audit_checkpoint option" where
  "create_checkpoint E tenant db =
     (case last_event tenant db of
        None \<Rightarrow> (db, None)
      | Some l \<Rightarrow>
          let cp = \<lparr>cp_id = uuid E ''audit_checkpoint'' (length (audit_checkpoints db)),
                    cp_tenant_id = tenant, cp_chain_id = tenant,
                    cp_sequence_no = sequence_no l, cp_last_event_hash = event_hash l\<rparr>
          in (db\<lparr>audit_checkpoints := audit_checkpoints db @ [cp]\<rparr>, Some cp))"

record chain_report =
  report_chain :: string
  report_result :: verification
  report_checkpoint :: "int option"

fun verify_each ::
  "env \<Rightarrow> bool \<Rightarrow> string list \<Rightarrow> 'a audit_db_scheme \<Rightarrow> 'a audit_db_scheme \<times> chain_report list" where
  "verify_each E save [] db = (db, [])"
| "verify_each E save (c # cs) db =
     (let result = verify_chain E db c;
          (db1, cp) = (if save \<and> ver_ok result then create_checkpoint E c db else (db, None));
          (db2, reports) = verify_each E save cs db1
      in (db2, \<lparr>report_chain = c, report_result = result,
                report_checkpoint = map_option cp_sequence_no cp\<rparr> # reports))"

definition verify_all_chains ::
  "env \<Rightarrow> bool \<Rightarrow> 'a audit_db_scheme \<Rightarrow> 'a audit_db_scheme \<times> chain_report list" where
  "verify_all_chains E save db =
     verify_each E save (sort (remdups (map chain_id (audit_events db)))) db"

section \<open>Reading (\<open>audit/queries.py\<close>)\<close>

text \<open>A filter of an optional argument: absent, every row passes.\<close>

definition opt_filter :: "'v option \<Rightarrow> ('v \<Rightarrow> bool) \<Rightarrow> bool" where
  "opt_filter v P = (case v of None \<Rightarrow> True | Some x \<Rightarrow> P x)"

definition list_audit_events ::
  "'a audit_db_scheme \<Rightarrow> string \<Rightarrow> string option \<Rightarrow> string option \<Rightarrow> string option
     \<Rightarrow> pydatetime option \<Rightarrow> pydatetime option \<Rightarrow> nat \<Rightarrow> nat \<Rightarrow> audit_event list" where
  "list_audit_events db tenant etype eid evtype since till lim offs =
     take lim (drop offs (rev (sort_key (\<lambda>e. (event_time e, ev_id e))
       (filter (\<lambda>e. tenant_id e = tenant
           \<and> opt_filter etype (\<lambda>x. entity_type e = Some x)
           \<and> opt_filter eid (\<lambda>x. entity_id e = Some x)
           \<and> opt_filter evtype (\<lambda>x. event_type e = x)
           \<and> opt_filter since (\<lambda>t. iso_text t \<le> event_time e)
           \<and> opt_filter till (\<lambda>t. event_time e \<le> iso_text t))
         (audit_events db)))))"

definition list_events_since_sequence ::
  "'a audit_db_scheme \<Rightarrow> string \<Rightarrow> int \<Rightarrow> string list \<Rightarrow> nat option \<Rightarrow> audit_event list" where
  "list_events_since_sequence db tenant after types lim =
     (if types = [] then []
      else let rows = sort_key sequence_no
                 (filter (\<lambda>e. tenant_id e = tenant \<and> event_type e \<in> set types \<and> after < sequence_no e)
                   (audit_events db))
           in case lim of None \<Rightarrow> rows | Some n \<Rightarrow> take n rows)"

section \<open>What a write does to the table\<close>

lemma record_event_rows:
  "audit_events (fst (record_event E f at db)) = audit_events db @ [snd (record_event E f at db)]"
  by (simp add: record_event_def Let_def)

lemma record_event_frame [row_simps]:
  "audit_checkpoints (fst (record_event E f at db)) = audit_checkpoints db"
  "audit_db.more (fst (record_event E f at db)) = audit_db.more db"
  by (simp_all add: record_event_def Let_def)

lemma record_event_fields [row_simps]:
  "event_fields.truncate (snd (record_event E f at db)) = f"
  "chain_id (snd (record_event E f at db)) = tenant_id f"
  "tenant_id (snd (record_event E f at db)) = tenant_id f"
  "event_type (snd (record_event E f at db)) = event_type f"
  "entity_type (snd (record_event E f at db)) = entity_type f"
  "entity_id (snd (record_event E f at db)) = entity_id f"
  "action (snd (record_event E f at db)) = action f"
  "actor_id (snd (record_event E f at db)) = actor_id f"
  "after_value (snd (record_event E f at db)) = after_value f"
  by (simp_all add: record_event_def Let_def event_fields.truncate_def)

lemma log_event_frame [row_simps]:
  "audit_checkpoints (log_event E f at db) = audit_checkpoints db"
  "audit_db.more (log_event E f at db) = audit_db.more db"
  by (simp_all add: log_event_def row_simps)

lemma log_event_eq:
  "log_event E f at db = db\<lparr>audit_events := audit_events db @ [snd (record_event E f at db)]\<rparr>"
  by (simp add: log_event_def record_event_def Let_def)

section \<open>The chain is a numbered log\<close>

interpretation chains: seq_log chain_id sequence_no next_seq
  by unfold_locales (simp add: next_seq_def max_key_def option.case_eq_if option.map_sel)

lemma chains_of_key: "chains.of_key c (audit_events db) = chain_rows c db"
  by (simp add: chains.of_key_def chain_rows_def)

lemma record_event_seq:
  "sequence_no (snd (record_event E f at db)) = next_seq (tenant_id f) (audit_events db)"
  by (simp add: record_event_def Let_def)

lemma chain_rows_record:
  "chain_rows c (fst (record_event E f at db)) =
     (if c = tenant_id f then chain_rows c db @ [snd (record_event E f at db)] else chain_rows c db)"
  by (auto simp: chain_rows_def record_event_rows row_simps)

section \<open>Sorted chains\<close>

lemma insort_key_append_greater:
  "f x \<le> f e \<Longrightarrow> insort_key f x (ys @ [e]) = insort_key f x ys @ [e]"
  by (induction ys) auto

lemma sort_key_append_greater:
  "(\<And>x. x \<in> set xs \<Longrightarrow> f x \<le> f e) \<Longrightarrow> sort_key f (xs @ [e]) = sort_key f xs @ [e]"
  by (induction xs) (simp_all add: insort_key_append_greater)

section \<open>Verified chains\<close>

definition last_hash :: "string \<Rightarrow> audit_event list \<Rightarrow> string" where
  "last_hash previous evs = (if evs = [] then previous else event_hash (last evs))"

lemma verify_loop_append:
  "verify_loop E p k (xs @ ys) =
     (case verify_loop E p k xs of
        Some r \<Rightarrow> Some r
      | None \<Rightarrow> verify_loop E (last_hash p xs) (k + int (length xs)) ys)"
proof (induction xs arbitrary: p k)
  case Nil
  then show ?case by (simp add: last_hash_def)
next
  case (Cons x xs)
  have "last_hash p (x # xs) = last_hash (event_hash x) xs" by (simp add: last_hash_def)
  then show ?case using Cons.IH[of "event_hash x" "k + 1"]
    by (simp add: algebra_simps split: option.splits)
qed

lemma check_event_None:
  "check_event E p k ev = None \<longleftrightarrow>
     sequence_no ev = k \<and>
     event_payload_hash ev =
       payload_hash E (build_payload ev (event_time ev) (chain_id ev) (sequence_no ev)) \<and>
     previous_event_hash ev = p \<and>
     event_hash ev = chain_hash E p (event_payload_hash ev)"
  by (auto simp: check_event_def)

lemma verify_loop_seqs:
  "verify_loop E p k evs = None \<Longrightarrow>
     map sequence_no evs = map (\<lambda>i. k + int i) [0..<length evs]"
proof (induction evs rule: rev_induct)
  case (snoc e evs)
  then have "verify_loop E p k evs = None" "sequence_no e = k + int (length evs)"
    by (simp_all add: verify_loop_append check_event_None split: option.splits)
  then show ?case using snoc.IH by simp
qed simp

definition verified :: "env \<Rightarrow> 'a audit_db_scheme \<Rightarrow> string \<Rightarrow> bool" where
  "verified E db c \<longleftrightarrow> verify_loop E genesis_hash 1 (sort_key sequence_no (chain_rows c db)) = None"

lemma ver_ok_iff: "ver_ok (verify_chain E db c) \<longleftrightarrow> verified E db c"
proof -
  have "\<not> ver_ok r" if "verify_loop E p k evs = Some r" for p k evs r
    using that by (induction evs arbitrary: p k)
      (auto simp: check_event_def split: option.splits if_splits)
  then show ?thesis
    by (auto simp: verify_chain_def verified_def Let_def split: option.splits)
qed

lemma verified_result:
  "verified E db c \<Longrightarrow> verify_chain E db c =
     \<lparr>ver_ok = True, events_checked = int (length (chain_rows c db)),
      broken_sequence_no = None, ver_reason = None\<rparr>"
  by (simp add: verify_chain_def verified_def)

lemma verified_cong:
  "chain_rows c db' = chain_rows c db \<Longrightarrow> verified E db' c = verified E db c"
  by (simp add: verified_def)

lemma map_one_plus: "map (\<lambda>i. 1 + int i) [0..<n] = map int [1..<Suc n]"
  by (induction n) auto

lemma last_count: "0 < n \<Longrightarrow> last (map int [1..<Suc n]) = int n"
  by (cases n) auto

lemma verified_seqs:
  assumes "verified E db c"
  shows "map sequence_no (sort_key sequence_no (chain_rows c db))
       = map int [1..<Suc (length (chain_rows c db))]"
proof -
  let ?s = "sort_key sequence_no (chain_rows c db)"
  have "map sequence_no ?s = map (\<lambda>i. 1 + int i) [0..<length ?s]"
    using assms verify_loop_seqs[of E genesis_hash 1 ?s] by (simp add: verified_def)
  also have "\<dots> = map int [1..<Suc (length ?s)]" by (rule map_one_plus)
  finally show ?thesis by simp
qed

lemma verified_seq_bounds:
  assumes "verified E db c" "e \<in> set (chain_rows c db)"
  shows "1 \<le> sequence_no e" "sequence_no e \<le> int (length (chain_rows c db))"
proof -
  have "sequence_no e \<in> set (map sequence_no (sort_key sequence_no (chain_rows c db)))"
    using assms(2) by simp
  then show "1 \<le> sequence_no e" "sequence_no e \<le> int (length (chain_rows c db))"
    unfolding verified_seqs[OF assms(1)] by auto
qed

lemma verified_nth:
  assumes "verified E db c" "k < length (chain_rows c db)"
  shows "sequence_no (sort_key sequence_no (chain_rows c db) ! k) = int k + 1"
proof -
  let ?s = "sort_key sequence_no (chain_rows c db)"
  have "sequence_no (?s ! k) = map sequence_no ?s ! k" using assms(2) by simp
  then show ?thesis using assms(2) by (simp add: verified_seqs[OF assms(1)] del: upt_Suc)
qed

lemma verified_take:
  assumes "verified E db c" "e \<in> set (take k (sort_key sequence_no (chain_rows c db)))"
  shows "sequence_no e \<le> int k"
proof -
  obtain i where "i < k" "i < length (chain_rows c db)"
      "e = sort_key sequence_no (chain_rows c db) ! i"
    using assms(2) by (auto simp: in_set_conv_nth)
  then show ?thesis using verified_nth[OF assms(1), of i] by simp
qed

lemma verified_drop:
  assumes "verified E db c" "e \<in> set (drop k (sort_key sequence_no (chain_rows c db)))"
  shows "int k < sequence_no e"
proof -
  obtain i where "i < length (chain_rows c db) - k"
      "e = sort_key sequence_no (chain_rows c db) ! (k + i)"
    using assms(2) by (auto simp: in_set_conv_nth)
  then show ?thesis using verified_nth[OF assms(1), of "k + i"] by simp
qed

lemma verified_prefix:
  "verified E db c \<Longrightarrow>
     verify_loop E genesis_hash 1 (take k (sort_key sequence_no (chain_rows c db))) = None"
  using verify_loop_append[of E genesis_hash 1 "take k (sort_key sequence_no (chain_rows c db))"
      "drop k (sort_key sequence_no (chain_rows c db))"]
  by (simp add: verified_def split: option.splits)

text \<open>In a verified chain the writer's query for the last event finds the end of the chain.\<close>

lemma verified_last:
  assumes "verified E db c"
  shows "last_event c db =
     (let s = sort_key sequence_no (chain_rows c db) in if s = [] then None else Some (last s))"
proof (cases "chain_rows c db = []")
  case True
  then show ?thesis by (simp add: last_event_def)
next
  case False
  let ?s = "sort_key sequence_no (chain_rows c db)"
  obtain ys y where ys: "?s = ys @ [y]"
    using False by (metis length_0_conv length_sort rev_exhaust)
  have d: "distinct (map sequence_no (ys @ [y]))"
    using verified_seqs[OF assms] ys by (simp add: distinct_map)
  have m: "sorted (map sequence_no (ys @ [y]))" using ys by (metis sorted_sort_key)
  have set: "set (chain_rows c db) = set (ys @ [y])" using ys by (metis set_sort)
  have "latest_by sequence_no (chain_rows c db) = Some y"
  proof (rule latest_by_eqI)
    show "y \<in> set (chain_rows c db)" using set by simp
    fix x assume "x \<in> set (chain_rows c db)" "x \<noteq> y"
    then have "x \<in> set ys" using set by simp
    then have "sequence_no x \<le> sequence_no y" "sequence_no x \<noteq> sequence_no y"
      using d m by (auto simp: sorted_append image_iff)
    then show "sequence_no x < sequence_no y" by simp
  qed
  then show ?thesis by (simp add: last_event_def ys)
qed

lemma next_seq_last:
  "next_seq c (audit_events db) =
     (case last_event c db of None \<Rightarrow> 1 | Some l \<Rightarrow> sequence_no l + 1)"
  by (simp add: next_seq_def last_event_def chain_rows_def)

lemma verified_next_seq:
  assumes "verified E db c"
  shows "next_seq c (audit_events db) = int (length (chain_rows c db)) + 1"
proof (cases "sort_key sequence_no (chain_rows c db) = []")
  case True
  then have "chain_rows c db = []" by (metis length_0_conv length_sort)
  then show ?thesis by (simp add: next_seq_last last_event_def)
next
  case False
  let ?s = "sort_key sequence_no (chain_rows c db)"
  have n: "0 < length (chain_rows c db)" using False by (metis length_greater_0_conv length_sort)
  have "sequence_no (last ?s) = last (map sequence_no ?s)" using False by (simp add: last_map)
  also have "\<dots> = int (length (chain_rows c db))"
    unfolding verified_seqs[OF assms] by (rule last_count[OF n])
  finally show ?thesis using False by (simp add: next_seq_last verified_last[OF assms] Let_def)
qed

section \<open>Writing keeps the chain verified\<close>

lemma record_event_checks:
  "check_event E (case last_event (tenant_id f) db of None \<Rightarrow> genesis_hash | Some l \<Rightarrow> event_hash l)
     (next_seq (tenant_id f) (audit_events db)) (snd (record_event E f at db)) = None"
  by (simp add: check_event_None record_event_def Let_def build_payload_def)

lemma record_event_verified:
  assumes "verified E db c"
  shows "verified E (fst (record_event E f at db)) c"
proof (cases "c = tenant_id f")
  case False
  then have "chain_rows c (fst (record_event E f at db)) = chain_rows c db"
    by (simp add: chain_rows_record)
  then show ?thesis using assms by (simp add: verified_def)
next
  case True
  let ?s = "sort_key sequence_no (chain_rows c db)" and ?e = "snd (record_event E f at db)"
  have seq: "sequence_no ?e = int (length (chain_rows c db)) + 1"
    using verified_next_seq[OF assms] True by (simp add: record_event_seq)
  have "sort_key sequence_no (chain_rows c db @ [?e]) = ?s @ [?e]"
    by (rule sort_key_append_greater) (use verified_seq_bounds(2)[OF assms] seq in force)
  then have s: "sort_key sequence_no (chain_rows c (fst (record_event E f at db))) = ?s @ [?e]"
    using True by (simp add: chain_rows_record)
  have "check_event E (last_hash genesis_hash ?s) (1 + int (length ?s)) ?e = None"
  proof -
    have "(case last_event c db of None \<Rightarrow> genesis_hash | Some l \<Rightarrow> event_hash l)
        = last_hash genesis_hash ?s"
      by (simp add: verified_last[OF assms] last_hash_def Let_def)
    moreover have "next_seq c (audit_events db) = 1 + int (length ?s)"
      using verified_next_seq[OF assms] by simp
    ultimately show ?thesis using record_event_checks[of E f db at] unfolding True by metis
  qed
  then show ?thesis
    using assms by (simp add: verified_def s verify_loop_append)
qed

lemma log_event_verified [intro]: "verified E db c \<Longrightarrow> verified E (log_event E f at db) c"
  by (simp add: log_event_def record_event_verified)

lemma empty_log_verified: "audit_events db = [] \<Longrightarrow> verified E db c"
  by (simp add: verified_def chain_rows_def)

lemma create_checkpoint_events [row_simps]:
  "audit_events (fst (create_checkpoint E c db)) = audit_events db"
  "audit_db.more (fst (create_checkpoint E c db)) = audit_db.more db"
  by (auto simp: create_checkpoint_def Let_def split: option.splits)

lemma verified_same_events: "audit_events db' = audit_events db \<Longrightarrow> verified E db' c = verified E db c"
  by (intro verified_cong) (simp add: chain_rows_def)

lemma verify_same_events:
  "audit_events db' = audit_events db \<Longrightarrow> verify_chain E db' c = verify_chain E db c"
  by (simp add: verify_chain_def chain_rows_def)

section \<open>Tampering\<close>

definition event_payload :: "audit_event \<Rightarrow> json" where
  "event_payload e = build_payload e (event_time e) (chain_id e) (sequence_no e)"

text \<open>
  Two rows that agree on every column the payload hash covers (JSON values up to key order) and
  on the three hashes. The row id and the labels \<open>hash_algorithm\<close> and \<open>hash_version\<close> are columns
  of the row that no hash covers.
\<close>

definition same_content :: "audit_event \<Rightarrow> audit_event \<Rightarrow> bool" where
  "same_content e e' \<longleftrightarrow>
     event_type e = event_type e' \<and> event_time e = event_time e' \<and> tenant_id e = tenant_id e' \<and>
     actor_type e = actor_type e' \<and> actor_id e = actor_id e' \<and>
     on_behalf_of e = on_behalf_of e' \<and> source_module e = source_module e' \<and>
     entity_type e = entity_type e' \<and> entity_id e = entity_id e' \<and> action e = action e' \<and>
     sort_json (opt_json (before_value e)) = sort_json (opt_json (before_value e')) \<and>
     sort_json (opt_json (after_value e)) = sort_json (opt_json (after_value e')) \<and>
     justification e = justification e' \<and> approval_ref e = approval_ref e' \<and>
     correlation_id e = correlation_id e' \<and> outcome e = outcome e' \<and> severity e = severity e' \<and>
     data_classification e = data_classification e' \<and> agent_model e = agent_model e' \<and>
     agent_model_version e = agent_model_version e' \<and> chain_id e = chain_id e' \<and>
     sequence_no e = sequence_no e' \<and> previous_event_hash e = previous_event_hash e' \<and>
     event_payload_hash e = event_payload_hash e' \<and> event_hash e = event_hash e'"

text \<open>The texts whose digests the verifier compares on an event.\<close>

definition hashed_texts :: "audit_event list \<Rightarrow> string set" where
  "hashed_texts evs = (\<Union>e\<in>set evs. {canonicalize (event_payload e),
     previous_event_hash e @ event_payload_hash e})"

lemma opt_str_inj [simp]: "opt_str a = opt_str b \<longleftrightarrow> a = b"
  by (auto simp: opt_str_def split: option.splits)

lemma sort_json_opt_str [simp]: "sort_json (opt_str v) = opt_str v"
  by (simp add: opt_str_def split: option.splits)

lemma sort_obj_eq_set:
  assumes "sort_json (JObj xs) = sort_json (JObj ys)"
  shows "(\<lambda>kv. (fst kv, sort_json (snd kv))) ` set xs = (\<lambda>kv. (fst kv, sort_json (snd kv))) ` set ys"
proof -
  have "set (sort_key fst (map (\<lambda>kv. (fst kv, sort_json (snd kv))) xs))
      = set (sort_key fst (map (\<lambda>kv. (fst kv, sort_json (snd kv))) ys))"
    using assms by simp
  then show ?thesis by (simp add: image_image)
qed

lemma sort_obj_eq_value:
  assumes "sort_json (JObj xs) = sort_json (JObj ys)" "(k, v) \<in> set xs" "(k, w) \<in> set ys"
    and "distinct (map fst ys)"
  shows "sort_json v = sort_json w"
proof -
  have "(k, sort_json v) \<in> (\<lambda>kv. (fst kv, sort_json (snd kv))) ` set ys"
    using sort_obj_eq_set[OF assms(1)] assms(2) by force
  then obtain u where "(k, u) \<in> set ys" "sort_json u = sort_json v" by auto
  then show ?thesis using assms(3,4) eq_key_imp_eq_value by fastforce
qed

lemma sort_obj_zip:
  assumes "sort_json (JObj (zip ks vs)) = sort_json (JObj (zip ks ws))"
    and "distinct ks" "length vs = length ks" "length ws = length ks"
  shows "map sort_json vs = map sort_json ws"
proof (rule nth_equalityI)
  show "length (map sort_json vs) = length (map sort_json ws)" using assms(3,4) by simp
  fix i assume "i < length (map sort_json vs)"
  then have i: "i < length ks" using assms(3) by simp
  then have "(ks ! i, vs ! i) \<in> set (zip ks vs)" "(ks ! i, ws ! i) \<in> set (zip ks ws)"
    using assms(3,4) by (auto simp: set_zip)
  then have "sort_json (vs ! i) = sort_json (ws ! i)"
    using sort_obj_eq_value[OF assms(1)] assms(2,4) by simp
  then show "map sort_json vs ! i = map sort_json ws ! i" using i assms(3,4) by simp
qed

definition payload_keys :: "string list" where
  "payload_keys = [
     ''event_type'', ''event_time'', ''tenant_id'', ''actor_type'', ''actor_id'',
     ''on_behalf_of'', ''source_module'', ''entity_type'', ''entity_id'', ''action'',
     ''before_value'', ''after_value'', ''justification'', ''approval_ref'', ''correlation_id'',
     ''outcome'', ''severity'', ''data_classification'', ''agent_model'', ''agent_model_version'',
     ''chain_id'', ''sequence_no'']"

definition payload_values :: "audit_event \<Rightarrow> json list" where
  "payload_values e = [
     JStr (event_type e), JStr (event_time e), JStr (tenant_id e),
     JStr (actor_type e), JStr (actor_id e), opt_str (on_behalf_of e),
     JStr (source_module e), opt_str (entity_type e), opt_str (entity_id e),
     JStr (action e), opt_json (before_value e), opt_json (after_value e),
     opt_str (justification e), opt_str (approval_ref e), opt_str (correlation_id e),
     JStr (outcome e), JStr (severity e), JStr (data_classification e),
     opt_str (agent_model e), opt_str (agent_model_version e), JStr (chain_id e),
     JInt (sequence_no e)]"

lemma event_payload_zip: "event_payload e = JObj (zip payload_keys (payload_values e))"
  by (simp add: event_payload_def build_payload_def payload_keys_def payload_values_def)

lemma distinct_payload_keys: "distinct payload_keys"
  by (simp add: payload_keys_def)

lemma event_payload_same:
  assumes "canonicalize (event_payload e) = canonicalize (event_payload e')"
    and "previous_event_hash e = previous_event_hash e'"
    and "event_payload_hash e = event_payload_hash e'" "event_hash e = event_hash e'"
  shows "same_content e e'"
proof -
  have "sort_json (JObj (zip payload_keys (payload_values e)))
      = sort_json (JObj (zip payload_keys (payload_values e')))"
    using assms(1) by (simp only: canonicalize_eq_iff event_payload_zip)
  then have "map sort_json (payload_values e) = map sort_json (payload_values e')"
    by (rule sort_obj_zip[OF _ distinct_payload_keys])
       (simp_all add: payload_keys_def payload_values_def)
  then show ?thesis
    using assms(2-4) by (simp add: payload_values_def same_content_def)
qed

lemma verified_loop_same:
  assumes "length xs = length ys"
    and "verify_loop E p k xs = None" "verify_loop E p k ys = None"
    and "last_hash p xs = last_hash p ys"
    and "inj_on (sha E) (hashed_texts xs \<union> hashed_texts ys)"
    and "\<And>t. length (sha E t) = 64"
  shows "list_all2 same_content xs ys"
  using assms(1-5)
proof (induction xs arbitrary: ys rule: rev_induct)
  case Nil
  then show ?case by simp
next
  case (snoc x xs zs)
  then obtain ys y where zs: "zs = ys @ [y]" "length xs = length ys"
    by (cases zs rule: rev_cases) auto
  have x: "verify_loop E p k xs = None" "check_event E (last_hash p xs) (k + int (length xs)) x = None"
    using snoc.prems(2) by (auto simp: verify_loop_append split: option.splits)
  have y: "verify_loop E p k ys = None" "check_event E (last_hash p ys) (k + int (length ys)) y = None"
    using snoc.prems(3) zs(1) by (auto simp: verify_loop_append split: option.splits)
  note cx = x(2)[unfolded check_event_None] and cy = y(2)[unfolded check_event_None]
  have h: "event_hash x = event_hash y" using snoc.prems(4) zs by (simp add: last_hash_def)
  have inj: "inj_on (sha E) (hashed_texts (xs @ [x]) \<union> hashed_texts (ys @ [y]))"
    using snoc.prems(5) zs(1) by simp
  have "previous_event_hash x @ event_payload_hash x = previous_event_hash y @ event_payload_hash y"
    using h cx cy inj_onD[OF inj, of "previous_event_hash x @ event_payload_hash x"
        "previous_event_hash y @ event_payload_hash y"]
    by (simp add: hashed_texts_def chain_hash_def)
  moreover have "length (event_payload_hash x) = length (event_payload_hash y)"
    using cx cy assms(6) by (simp add: payload_hash_def)
  ultimately have eq: "previous_event_hash x = previous_event_hash y"
      "event_payload_hash x = event_payload_hash y" by simp_all
  then have "canonicalize (event_payload x) = canonicalize (event_payload y)"
    using cx cy inj_onD[OF inj, of "canonicalize (event_payload x)" "canonicalize (event_payload y)"]
    by (simp add: hashed_texts_def payload_hash_def event_payload_def)
  then have same: "same_content x y" by (rule event_payload_same) (fact eq h)+
  have "last_hash p xs = last_hash p ys" using eq cx cy by simp
  moreover have "inj_on (sha E) (hashed_texts xs \<union> hashed_texts ys)"
    by (rule inj_on_subset[OF inj]) (auto simp: hashed_texts_def)
  ultimately have "list_all2 same_content xs ys"
    using snoc.IH[OF zs(2) x(1) y(1)] by simp
  then show ?case using same by (simp add: zs(1) list_all2_appendI)
qed

section \<open>Properties\<close>

text \<open>A log written from empty by any sequence of calls of \<open>record_event\<close>.\<close>

definition empty_log :: audit_db where
  "empty_log = \<lparr>audit_events = [], audit_checkpoints = []\<rparr>"

fun write_all :: "env \<Rightarrow> (event_fields \<times> pydatetime option) list \<Rightarrow> audit_db \<Rightarrow> audit_db" where
  "write_all E [] db = db"
| "write_all E ((f, at) # calls) db = write_all E calls (log_event E f at db)"

lemma write_all_append: "write_all E (xs @ ys) db = write_all E ys (write_all E xs db)"
  by (induction xs arbitrary: db) auto

lemma write_all_verified: "verified E db c \<Longrightarrow> verified E (write_all E calls db) c"
  by (induction calls arbitrary: db) (auto simp: log_event_verified)

lemma write_all_count:
  "length (chain_rows c (write_all E calls db)) =
     length (chain_rows c db) + length (filter (\<lambda>call. tenant_id (fst call) = c) calls)"
  by (induction calls arbitrary: db) (auto simp: log_event_def chain_rows_record)

text \<open>C1. Whatever \<open>record_event\<close> writes, for whatever tenants in whatever interleaving,
  \<open>verify_chain\<close> accepts the chain of every tenant and counts exactly its events.\<close>

theorem written_log_verifies:
  "verify_chain E (write_all E calls empty_log) c =
     \<lparr>ver_ok = True, events_checked = int (length (filter (\<lambda>call. tenant_id (fst call) = c) calls)),
      broken_sequence_no = None, ver_reason = None\<rparr>"
proof -
  have "verified E (write_all E calls empty_log) c"
    by (intro write_all_verified empty_log_verified) (simp add: empty_log_def)
  then show ?thesis
    using write_all_count[of c E calls empty_log]
    by (simp add: verified_result empty_log_def chain_rows_def)
qed

text \<open>Rewriting the columns of a row that no hash covers.\<close>

definition relabel :: "(audit_event \<Rightarrow> string \<times> string \<times> string) \<Rightarrow> audit_event \<Rightarrow> audit_event" where
  "relabel f e = e\<lparr>ev_id := fst (f e), hash_algorithm := fst (snd (f e)), hash_version := snd (snd (f e))\<rparr>"

lemma relabel_sel [simp]:
  "sequence_no (relabel f e) = sequence_no e" "chain_id (relabel f e) = chain_id e"
  "event_hash (relabel f e) = event_hash e"
  by (simp_all add: relabel_def)

lemma check_event_relabel [simp]: "check_event E p k (relabel f e) = check_event E p k e"
  by (simp add: check_event_def build_payload_def relabel_def)

lemma verify_loop_relabel: "verify_loop E p k (map (relabel f) evs) = verify_loop E p k evs"
  by (induction evs arbitrary: p k) (simp_all split: option.splits)

lemma insort_key_map: "insort_key f (g x) (map g xs) = map g (insort_key (\<lambda>y. f (g y)) x xs)"
  by (induction xs) auto

lemma sort_key_map: "sort_key f (map g xs) = map g (sort_key (\<lambda>x. f (g x)) xs)"
  by (induction xs) (simp_all add: sort_key_def insort_key_map)

lemma verify_chain_relabel:
  "verify_chain E (db\<lparr>audit_events := map (relabel f) (audit_events db)\<rparr>) c = verify_chain E db c"
  by (simp add: verify_chain_def Let_def chain_rows_def filter_map comp_def sort_key_map
      verify_loop_relabel split: option.split)

text \<open>C2. A checkpoint pins the history it saw: if a later database still verifies and still has
  the checkpointed event hash at the checkpointed number, then every event up to it agrees with the
  event of the checkpointed database on every column the payload hash covers (the before and after
  values as JSON, up to the order of their keys) and on its number and three hashes, unless two of
  the hashed texts collide (the digests being 64 characters long). Nothing pins the rest of a row:
  whatever is written over the row id and the labels of the hash algorithm and version, of any
  events, the verifier's answer stays the same.\<close>

theorem checkpoint_pins_history:
  assumes "ver_ok (verify_chain E db c)" and "snd (create_checkpoint E c db) = Some cp"
    and "ver_ok (verify_chain E db' c)"
    and "e \<in> set (chain_rows c db')" "sequence_no e = cp_sequence_no cp"
      "event_hash e = cp_last_event_hash cp"
    and "inj_on (sha E) (hashed_texts (chain_rows c db @ chain_rows c db'))"
    and "\<forall>t. length (sha E t) = 64"
  shows "list_all2 same_content (sort_key sequence_no (chain_rows c db))
           (take (length (chain_rows c db)) (sort_key sequence_no (chain_rows c db'))) \<and>
    verify_chain E (db'\<lparr>audit_events := map (relabel f) (audit_events db')\<rparr>) c = verify_chain E db' c"
proof
  let ?s = "sort_key sequence_no (chain_rows c db)" and ?t = "sort_key sequence_no (chain_rows c db')"
  let ?n = "length (chain_rows c db)" and ?m = "length (chain_rows c db')"
  have v: "verified E db c" "verified E db' c" using assms(1,3) by (simp_all add: ver_ok_iff)
  obtain l where l: "last_event c db = Some l" "cp_sequence_no cp = sequence_no l"
      "cp_last_event_hash cp = event_hash l"
    using assms(2) by (auto simp: create_checkpoint_def Let_def split: option.splits)
  then have ne: "?s \<noteq> []" "l = last ?s" using verified_last[OF v(1)] by (auto simp: Let_def split: if_splits)
  then have n: "0 < ?n" by (metis length_greater_0_conv length_sort)
  have ln: "sequence_no l = int ?n"
    using verified_next_seq[OF v(1)] l(1) by (simp add: next_seq_last)
  then have "?n \<le> ?m" using verified_seq_bounds(2)[OF v(2) assms(4)] assms(5) l(2) by simp
  then have e: "?t ! (?n - 1) = e"
  proof -
    have "e \<in> set ?t" using assms(4) by simp
    then obtain i where i: "i < ?m" "?t ! i = e" by (metis in_set_conv_nth length_sort)
    then have "?n = Suc i" using verified_nth[OF v(2) i(1)] assms(5) l(2) ln by simp
    then show ?thesis using i(2) by simp
  qed
  have len: "length (take ?n ?t) = ?n" using \<open>?n \<le> ?m\<close> by simp
  then have "take ?n ?t \<noteq> []" using n by (metis length_greater_0_conv)
  moreover from this have "last (take ?n ?t) = e" using e n len by (simp add: last_conv_nth)
  ultimately have h: "last_hash genesis_hash ?s = last_hash genesis_hash (take ?n ?t)"
    using ne l(3) assms(6) by (simp add: last_hash_def)
  have vt: "verify_loop E genesis_hash 1 (take ?n ?t) = None" by (rule verified_prefix[OF v(2)])
  show "list_all2 same_content ?s (take ?n ?t)"
  proof (rule verified_loop_same[OF _ _ vt h])
    show "length ?s = length (take ?n ?t)" using \<open>?n \<le> ?m\<close> by simp
    show "verify_loop E genesis_hash 1 ?s = None" using v(1) by (simp add: verified_def)
    have "set (take ?n ?t) \<subseteq> set (chain_rows c db')" by (metis set_sort set_take_subset)
    then show "inj_on (sha E) (hashed_texts ?s \<union> hashed_texts (take ?n ?t))"
      by (intro inj_on_subset[OF assms(7)]) (auto simp: hashed_texts_def)
    show "length (sha E t) = 64" for t using assms(8) by simp
  qed
qed (rule verify_chain_relabel)

text \<open>C3. Deleting an event from the inside of a verified chain is reported as a gap at the event
  that follows it.\<close>

theorem interior_deletion_detected:
  assumes "ver_ok (verify_chain E db c)"
    and "1 \<le> j" "j < int (length (chain_rows c db))"
    and "chain_rows c db' = filter (\<lambda>e. sequence_no e \<noteq> j) (chain_rows c db)"
  shows "verify_chain E db' c =
     \<lparr>ver_ok = False, events_checked = j - 1, broken_sequence_no = Some (j + 1),
      ver_reason = Some ''sequence_gap''\<rparr>"
proof -
  let ?s = "sort_key sequence_no (chain_rows c db)" and ?n = "length (chain_rows c db)"
  let ?i = "nat j - 1"
  have v: "verified E db c" using assms(1) by (simp add: ver_ok_iff)
  have i: "Suc ?i < ?n" using assms(2,3) by linarith
  let ?xs = "take ?i ?s" and ?x = "?s ! ?i" and ?y = "?s ! Suc ?i" and ?ys = "drop (Suc (Suc ?i)) ?s"
  have split: "?s = ?xs @ ?x # ?y # ?ys"
    using i by (metis Cons_nth_drop_Suc Suc_lessD id_take_nth_drop length_sort)
  have xy: "sequence_no ?x = j" "sequence_no ?y = j + 1"
    using verified_nth[OF v, of ?i] verified_nth[OF v, of "Suc ?i"] i assms(2) by simp_all
  have keep: "filter (\<lambda>e. sequence_no e \<noteq> j) ?xs = ?xs"
    "filter (\<lambda>e. sequence_no e \<noteq> j) ?ys = ?ys"
    using verified_take[OF v, of _ ?i] verified_drop[OF v, of _ "Suc (Suc ?i)"] assms(2)
    by (force simp: filter_id_conv)+
  have "sort_key sequence_no (chain_rows c db') = filter (\<lambda>e. sequence_no e \<noteq> j) ?s"
    by (simp add: assms(4) filter_sort)
  also have "\<dots> = filter (\<lambda>e. sequence_no e \<noteq> j) (?xs @ ?x # ?y # ?ys)"
    by (rule arg_cong[OF split])
  also have "\<dots> = ?xs @ ?y # ?ys"
    using xy by (simp only: filter_append filter.simps keep) simp
  finally have s': "sort_key sequence_no (chain_rows c db') = ?xs @ ?y # ?ys" .
  have "1 + int (length ?xs) = j" using i assms(2) by simp
  then show ?thesis
    using xy(2) verified_prefix[OF v, of ?i]
    by (simp add: verify_chain_def s' verify_loop_append check_event_def Let_def)
qed

text \<open>Dropping the newest events of a verified chain leaves a chain that still verifies: the
  verifier alone cannot see a truncated tail.\<close>

lemma truncated_tail_verifies:
  assumes "ver_ok (verify_chain E db c)" "0 \<le> n" "n \<le> int (length (chain_rows c db))"
    and "chain_rows c db' = filter (\<lambda>e. sequence_no e \<le> n) (chain_rows c db)"
  shows "verify_chain E db' c = \<lparr>ver_ok = True, events_checked = n, broken_sequence_no = None,
           ver_reason = None\<rparr>"
proof -
  let ?s = "sort_key sequence_no (chain_rows c db)" and ?n = "length (chain_rows c db)"
  have v: "verified E db c" using assms(1) by (simp add: ver_ok_iff)
  have keep: "filter (\<lambda>e. sequence_no e \<le> n) (take (nat n) ?s) = take (nat n) ?s"
    "filter (\<lambda>e. sequence_no e \<le> n) (drop (nat n) ?s) = []"
    using verified_take[OF v, of _ "nat n"] verified_drop[OF v, of _ "nat n"] assms(2)
    by (force simp: filter_id_conv filter_empty_conv)+
  have "sort_key sequence_no (chain_rows c db') = filter (\<lambda>e. sequence_no e \<le> n) ?s"
    by (simp add: assms(4) filter_sort)
  also have "\<dots> = filter (\<lambda>e. sequence_no e \<le> n) (take (nat n) ?s @ drop (nat n) ?s)" by simp
  also have "\<dots> = take (nat n) ?s" by (simp only: filter_append keep) simp
  finally have s': "sort_key sequence_no (chain_rows c db') = take (nat n) ?s" .
  show ?thesis
    using assms(2,3) verified_prefix[OF v, of "nat n"] by (simp add: verify_chain_def s' Let_def)
qed

text \<open>The filter of a page request, and the whole result it pages through.\<close>

definition event_window ::
  "'a audit_db_scheme \<Rightarrow> string \<Rightarrow> string option \<Rightarrow> string option \<Rightarrow> string option
     \<Rightarrow> pydatetime option \<Rightarrow> pydatetime option \<Rightarrow> audit_event list" where
  "event_window db tenant etype eid evtype since till =
     list_audit_events db tenant etype eid evtype since till (length (audit_events db)) 0"

lemma event_window_all:
  "event_window db tenant etype eid evtype since till =
     rev (sort_key (\<lambda>e. (event_time e, ev_id e))
       (filter (\<lambda>e. tenant_id e = tenant
           \<and> opt_filter etype (\<lambda>x. entity_type e = Some x)
           \<and> opt_filter eid (\<lambda>x. entity_id e = Some x)
           \<and> opt_filter evtype (\<lambda>x. event_type e = x)
           \<and> opt_filter since (\<lambda>t. iso_text t \<le> event_time e)
           \<and> opt_filter till (\<lambda>t. event_time e \<le> iso_text t))
         (audit_events db)))"
  by (simp add: event_window_def list_audit_events_def le_trans[OF length_filter_le])

lemma take_drop_pages:
  "concat (map (\<lambda>i. take n (drop (i * n) xs)) [0..<k]) = take (k * n) xs"
proof (induction k)
  case (Suc k)
  have "take (Suc k * n) xs = take (k * n) xs @ take n (drop (k * n) xs)"
    by (simp only: mult_Suc add.commute[of n] take_add)
  then show ?case using Suc by simp
qed simp

lemma sorted_wrt_sort_key: "sorted_wrt (\<lambda>a b. f a \<le> f b) (sort_key f xs)"
  using sorted_sort_key[of f xs] by (simp only: sorted_map)

text \<open>The text comparison of the audit query selects exactly the events whose instant lies in
  the inclusive window, newest first, although the stored text is not of fixed width.\<close>

lemma audit_window_is_chronological:
  assumes "\<forall>e\<in>set (audit_events db). event_time e = iso_text (at e) \<and> py_instant (utc_of (at e))"
    and "py_instant (utc_of s)" "py_instant (utc_of u)"
  shows "set (event_window db tenant etype eid evtype (Some s) (Some u)) =
      {e \<in> set (event_window db tenant etype eid evtype None None).
         utc_of s \<le> utc_of (at e) \<and> utc_of (at e) \<le> utc_of u} \<and>
    sorted_wrt (\<lambda>a b. utc_of (at b) \<le> utc_of (at a))
      (event_window db tenant etype eid evtype (Some s) (Some u))"
proof
  show "set (event_window db tenant etype eid evtype (Some s) (Some u)) =
      {e \<in> set (event_window db tenant etype eid evtype None None).
         utc_of s \<le> utc_of (at e) \<and> utc_of (at e) \<le> utc_of u}"
    using assms by (auto simp: event_window_all opt_filter_def iso_le_iff)
  let ?w = "event_window db tenant etype eid evtype (Some s) (Some u)"
  have sub: "set ?w \<subseteq> set (audit_events db)" by (auto simp: event_window_all)
  have "sorted_wrt (\<lambda>a b. (event_time b, ev_id b) \<le> (event_time a, ev_id a)) ?w"
    unfolding event_window_all sorted_wrt_rev by (rule sorted_wrt_sort_key)
  then show "sorted_wrt (\<lambda>a b. utc_of (at b) \<le> utc_of (at a)) ?w"
  proof (rule sorted_wrt_mono_rel[rotated])
    fix a b assume "a \<in> set ?w" "b \<in> set ?w" "(event_time b, ev_id b) \<le> (event_time a, ev_id a)"
    then have "event_time b \<le> event_time a" "a \<in> set (audit_events db)" "b \<in> set (audit_events db)"
      using sub by auto
    then show "utc_of (at b) \<le> utc_of (at a)" using assms(1) iso_le_iff by metis
  qed
qed

text \<open>Paging with \<open>limit\<close> and \<open>offset\<close> partitions the result: consecutive pages read it from
  the start with no event lost or repeated.\<close>

lemma audit_pages_partition:
  "concat (map (\<lambda>i. list_audit_events db tenant etype eid evtype since till n (i * n)) [0..<k]) =
     take (k * n) (event_window db tenant etype eid evtype since till)"
  unfolding event_window_all list_audit_events_def by (rule take_drop_pages)

lemma distinct_map_sort_filter:
  assumes "distinct (map f (filter P xs))"
  shows "distinct (map f (sort_key f (filter (\<lambda>x. P x \<and> Q x) xs)))"
proof -
  have "distinct (map f (filter Q (filter P xs)))" using assms by (rule distinct_map_filter)
  then have "distinct (map f (filter (\<lambda>x. P x \<and> Q x) xs))" by (simp only: filter_filter)
  then show ?thesis by (simp add: distinct_map)
qed

text \<open>The cursor of the notification consumer loses and repeats nothing: after a batch of
  \<open>n\<close> events, reading on from the last one gives the rest of what was pending.\<close>

lemma cursor_resumes:
  assumes "distinct (map sequence_no (filter (\<lambda>e. tenant_id e = tenant) (audit_events db)))"
    and "list_events_since_sequence db tenant a types (Some n) = batch" "batch \<noteq> []"
  shows "batch @ list_events_since_sequence db tenant (sequence_no (last batch)) types None
       = list_events_since_sequence db tenant a types None"
proof -
  let ?rows = "\<lambda>a. filter (\<lambda>e. tenant_id e = tenant \<and> event_type e \<in> set types \<and> a < sequence_no e)
      (audit_events db)"
  let ?all = "sort_key sequence_no (?rows a)" and ?l = "last batch"
  have types: "types \<noteq> []" using assms(2,3) by (auto simp: list_events_since_sequence_def)
  then have b: "batch = take n ?all" using assms(2) by (simp add: list_events_since_sequence_def)
  have "distinct (map sequence_no ?all)"
    by (rule distinct_map_sort_filter[OF assms(1)])
  then have "sorted_wrt (<) (map sequence_no ?all)" by (simp add: strict_sorted_iff)
  then have st: "sorted_wrt (<) (map sequence_no (batch @ drop n ?all))" by (simp add: b)
  have l: "?l \<in> set batch" using assms(3) by simp
  have "set batch \<subseteq> set ?all" by (simp only: b set_take_subset)
  then have "?l \<in> set ?all" using l by (rule subsetD)
  then have al: "a < sequence_no ?l" by simp
  have lt: "\<forall>e\<in>set batch. sequence_no e \<le> sequence_no ?l"
  proof -
    obtain ys y where ys: "batch = ys @ [y]" using assms(3) by (metis rev_exhaust)
    then show ?thesis using st by (auto simp: sorted_wrt_append)
  qed
  have gt: "\<forall>e\<in>set (drop n ?all). sequence_no ?l < sequence_no e"
    using st l by (auto simp: sorted_wrt_append)
  have "sort_key sequence_no (?rows (sequence_no ?l)) = filter (\<lambda>e. sequence_no ?l < sequence_no e) ?all"
    unfolding filter_sort filter_filter using al
    by (intro arg_cong[where f = "sort_key sequence_no"] filter_cong) auto
  also have "\<dots> = filter (\<lambda>e. sequence_no ?l < sequence_no e) (batch @ drop n ?all)" by (simp add: b)
  also have "\<dots> = drop n ?all"
    using lt gt by (simp add: filter_id_conv filter_empty_conv not_less)
  finally show ?thesis using types b by (simp add: list_events_since_sequence_def)
qed

lemma map_map_pair:
  "map f xs = ks \<Longrightarrow> map g xs = map h ks \<Longrightarrow> map (\<lambda>x. (f x, g x)) xs = map (\<lambda>k. (k, h k)) ks"
  by (induction xs arbitrary: ks) auto

lemma verify_each_events:
  "audit_events (fst (verify_each E save cs db)) = audit_events db"
proof (induction cs arbitrary: db)
  case (Cons c cs)
  show ?case using Cons[of db] Cons[of "fst (create_checkpoint E c db)"] create_checkpoint_events(1)[of E c db]
    by (auto simp: Let_def split: prod.splits if_splits)
qed simp

lemma verify_each_reports:
  "map report_chain (snd (verify_each E save cs db)) = cs"
  "map report_result (snd (verify_each E save cs db)) = map (verify_chain E db) cs"
proof (induction cs arbitrary: db)
  case (Cons c cs)
  { case 1 show ?case using Cons(1)[of db] Cons(1)[of "fst (create_checkpoint E c db)"]
      by (auto simp: Let_def split: prod.splits if_splits) }
  { case 2
    have "verify_chain E (fst (create_checkpoint E c db)) = verify_chain E db"
      by (rule ext, rule verify_same_events, rule create_checkpoint_events)
    then show ?case using Cons(2)[of db] Cons(2)[of "fst (create_checkpoint E c db)"]
      by (auto simp: Let_def split: prod.splits if_splits) }
qed simp_all

text \<open>The operations job reports every tenant's chain once, in order of its id, each with the
  result the verifier gives on the unchanged log, whether or not it writes checkpoints.\<close>

lemma verify_all_reports_every_chain:
  "map (\<lambda>r. (report_chain r, report_result r)) (snd (verify_all_chains E save db)) =
     map (\<lambda>c. (c, verify_chain E db c)) (sort (remdups (map chain_id (audit_events db)))) \<and>
   audit_events (fst (verify_all_chains E save db)) = audit_events db"
proof
  show "map (\<lambda>r. (report_chain r, report_result r)) (snd (verify_all_chains E save db)) =
     map (\<lambda>c. (c, verify_chain E db c)) (sort (remdups (map chain_id (audit_events db))))"
    unfolding verify_all_chains_def by (rule map_map_pair[OF verify_each_reports])
qed (simp add: verify_all_chains_def verify_each_events)

section \<open>Witnesses\<close>

text \<open>
  An environment whose digest keeps the twelfth character of a payload and the last one of a
  chain link, and the logs of one tenant with the actions \<open>a\<close> and \<open>b\<close>.
\<close>

definition sample_sha :: "string \<Rightarrow> string" where
  "sample_sha s = (if take 1 s = ''{'' then replicate 63 (CHR ''0'') @ [s ! 11]
     else replicate 63 (CHR ''1'') @ [last s])"

definition sample_env :: env where
  "sample_env = \<lparr>sha = sample_sha, uuid = (\<lambda>t n. t @ nat_str n),
     stamp = (\<lambda>n. Aware (1700000000000000 + int n) 0)\<rparr>"

definition sample_call :: "string \<Rightarrow> event_fields" where
  "sample_call act = event_call ''T'' ''t'' ''user'' ''u'' ''m'' act"

definition log1 :: audit_db where
  "log1 = log_event sample_env (sample_call ''a'') None empty_log"

definition log2 :: audit_db where
  "log2 = log_event sample_env (sample_call ''b'') None log1"

definition ev1 :: audit_event where
  "ev1 = snd (record_event sample_env (sample_call ''a'') None empty_log)"

definition ev2 :: audit_event where
  "ev2 = snd (record_event sample_env (sample_call ''b'') None log1)"

lemma sample_rows: "audit_events log1 = [ev1]" "audit_events log2 = [ev1, ev2]"
  by (simp_all add: log2_def log1_def log_event_def record_event_rows ev1_def ev2_def empty_log_def)

lemma sample_call_fields [simp]:
  "tenant_id (sample_call a) = ''t''" "event_type (sample_call a) = ''T''" "action (sample_call a) = a"
  by (simp_all add: sample_call_def event_call_def)

lemma sample_events [simp]:
  "chain_id ev1 = ''t''" "chain_id ev2 = ''t''" "tenant_id ev1 = ''t''" "tenant_id ev2 = ''t''"
  "event_type ev1 = ''T''" "event_type ev2 = ''T''" "action ev1 = ''a''" "action ev2 = ''b''"
  by (simp_all add: ev1_def ev2_def row_simps)

lemma sample_chain: "chain_rows ''t'' log1 = [ev1]" "chain_rows ''t'' log2 = [ev1, ev2]"
  by (simp_all add: chain_rows_def sample_rows)

lemma sample_seqs [simp]: "sequence_no ev1 = 1" "sequence_no ev2 = 2"
  unfolding ev1_def ev2_def record_event_seq
  by (simp_all add: next_seq_def sample_rows)
     (simp_all add: empty_log_def ev1_def record_event_seq next_seq_def)

lemma sample_verified: "verified sample_env log1 c" "verified sample_env log2 c"
  unfolding log2_def log1_def
  by (intro log_event_verified empty_log_verified, simp add: empty_log_def)+

lemma sort_key_hd:
  assumes "(k, v) \<in> set xs" "distinct (map fst xs)" "\<And>x. x \<in> set xs \<Longrightarrow> k \<le> fst x"
  shows "\<exists>ys. sort_key fst xs = (k, v) # ys"
proof (cases "sort_key fst xs")
  case Nil
  then show ?thesis using assms(1) by (metis length_pos_if_in_set length_sort list.size(3) less_numeral_extra(3))
next
  case (Cons y ys)
  have s: "set xs = set (y # ys)" using Cons by (metis set_sort)
  have "sorted (map fst (y # ys))" using Cons by (metis sorted_sort_key)
  then have "fst y \<le> k" using assms(1) s by auto
  moreover have "k \<le> fst y" using assms(3)[of y] s by simp
  ultimately have "y = (k, v)"
    using assms(1,2) s eq_key_imp_eq_value[of xs k v "snd y"] by (cases y) auto
  then show ?thesis using Cons by simp
qed

lemma action_first: "list_all (\<lambda>k. ''action'' \<le> k) payload_keys"
  by code_simp

lemma payload_text:
  "\<exists>r. canonicalize (build_payload f t c n) =
     [CHR ''{'', CHR 0x22] @ ''action'' @ [CHR 0x22, CHR '':''] @ ser_string (action f) @ r"
proof -
  have "\<exists>kvs. build_payload f t c n = JObj kvs \<and> (''action'', JStr (action f)) \<in> set kvs \<and>
      map fst kvs = payload_keys"
    by (simp add: build_payload_def payload_keys_def)
  then obtain kvs where kvs: "build_payload f t c n = JObj kvs"
      "(''action'', JStr (action f)) \<in> set kvs" "map fst kvs = payload_keys" by blast
  let ?m = "map (\<lambda>kv. (fst kv, sort_json (snd kv))) kvs"
  have keys: "map fst ?m = payload_keys" using kvs(3) by (simp add: comp_def)
  have "\<exists>ys. sort_key fst ?m = (''action'', JStr (action f)) # ys"
  proof (rule sort_key_hd)
    show "(''action'', JStr (action f)) \<in> set ?m" using kvs(2) by force
    show "distinct (map fst ?m)" using keys distinct_payload_keys by simp
    fix x assume "x \<in> set ?m"
    then have "fst x \<in> set (map fst ?m)" unfolding set_map[of fst ?m] by (rule imageI)
    then have "fst x \<in> set payload_keys" unfolding keys .
    then show "''action'' \<le> fst x" using action_first by (simp add: list_all_iff)
  qed
  then obtain ys where "sort_json (JObj kvs) = JObj ((''action'', JStr (action f)) # ys)" by auto
  then show ?thesis
    by (cases ys) (auto simp: canonicalize_def kvs(1) ser_string_def esc_def)
qed

lemma sample_sha_payload:
  "sha sample_env (canonicalize (event_payload ev1)) = replicate 63 (CHR ''0'') @ ''a''"
  "sha sample_env (canonicalize (event_payload ev2)) = replicate 63 (CHR ''0'') @ ''b''"
  using payload_text[of ev1 "event_time ev1" "chain_id ev1" "sequence_no ev1"]
    payload_text[of ev2 "event_time ev2" "chain_id ev2" "sequence_no ev2"]
  by (auto simp: event_payload_def sample_env_def sample_sha_def ser_string_def esc_def)

lemma sample_hashes:
  "event_payload_hash ev1 = replicate 63 (CHR ''0'') @ ''a''"
  "event_payload_hash ev2 = replicate 63 (CHR ''0'') @ ''b''"
  "previous_event_hash ev1 = genesis_hash" "previous_event_hash ev2 = event_hash ev1"
  "event_hash ev1 = replicate 63 (CHR ''1'') @ ''a''"
proof -
  have c1: "check_event sample_env genesis_hash 1 ev1 = None"
    and c2: "check_event sample_env (event_hash ev1) 2 ev2 = None"
    using sample_verified[of "''t''"] by (simp_all add: verified_def sample_chain split: option.splits)
  show p1: "event_payload_hash ev1 = replicate 63 (CHR ''0'') @ ''a''"
    and "event_payload_hash ev2 = replicate 63 (CHR ''0'') @ ''b''"
    and "previous_event_hash ev1 = genesis_hash" and "previous_event_hash ev2 = event_hash ev1"
    using c1 c2 sample_sha_payload
    by (simp_all add: check_event_None payload_hash_def event_payload_def)
  show "event_hash ev1 = replicate 63 (CHR ''1'') @ ''a''"
    using c1 p1 by (simp add: check_event_None chain_hash_def sample_env_def sample_sha_def genesis_hash_def)
qed

lemma sample_injective: "inj_on (sha sample_env) (hashed_texts [ev1, ev2])"
proof -
  have "sha sample_env (genesis_hash @ event_payload_hash ev1) = replicate 63 (CHR ''1'') @ ''a''"
    "sha sample_env (event_hash ev1 @ event_payload_hash ev2) = replicate 63 (CHR ''1'') @ ''b''"
    by (simp_all add: sample_hashes sample_env_def sample_sha_def genesis_hash_def)
  then show ?thesis
    using sample_sha_payload
    by (simp add: hashed_texts_def sample_hashes(3,4) inj_on_def)
qed

lemma sample_sha_length: "length (sha sample_env t) = 64"
  by (simp add: sample_env_def sample_sha_def)

theorem checkpoint_pins_history_witness:
  "list_all2 same_content (sort_key sequence_no (chain_rows ''t'' log1))
     (take (length (chain_rows ''t'' log1)) (sort_key sequence_no (chain_rows ''t'' log2))) \<and>
   verify_chain sample_env (log2\<lparr>audit_events :=
     map (relabel (\<lambda>e. (''x'', ''MD5'', ''0''))) (audit_events log2)\<rparr>) ''t''
     = verify_chain sample_env log2 ''t''"
proof -
  have l: "last_event ''t'' log1 = Some ev1" by (simp add: last_event_def sample_chain)
  show ?thesis
    by (rule checkpoint_pins_history[where E = sample_env and e = ev1 and
          cp = "the (snd (create_checkpoint sample_env ''t'' log1))"])
       (simp_all add: ver_ok_iff sample_verified create_checkpoint_def l Let_def sample_chain
          sample_sha_length hashed_texts_def[of "[ev1, ev1, ev2]"]
          sample_injective[unfolded hashed_texts_def, simplified])
qed

theorem interior_deletion_detected_witness:
  "verify_chain sample_env (log2\<lparr>audit_events := [ev2]\<rparr>) ''t'' =
     \<lparr>ver_ok = False, events_checked = 0, broken_sequence_no = Some 2,
      ver_reason = Some ''sequence_gap''\<rparr>"
  using interior_deletion_detected[of sample_env log2 "''t''" 1 "log2\<lparr>audit_events := [ev2]\<rparr>"]
  by (simp add: ver_ok_iff sample_verified sample_chain) (simp add: chain_rows_def)

lemma truncated_tail_verifies_witness:
  "verify_chain sample_env (log2\<lparr>audit_events := [ev1]\<rparr>) ''t'' =
     \<lparr>ver_ok = True, events_checked = 1, broken_sequence_no = None, ver_reason = None\<rparr>"
  using truncated_tail_verifies[of sample_env log2 "''t''" 1 "log2\<lparr>audit_events := [ev1]\<rparr>"]
  by (simp add: ver_ok_iff sample_verified sample_chain) (simp add: chain_rows_def)

lemma cursor_resumes_witness:
  "[ev1] @ list_events_since_sequence log2 ''t'' 1 [''T''] None
     = list_events_since_sequence log2 ''t'' 0 [''T''] None"
  using cursor_resumes[of "''t''" log2 0 "[''T'']" 1 "[ev1]"]
  by (simp add: sample_rows list_events_since_sequence_def)

definition sample_at :: "audit_event \<Rightarrow> pydatetime" where
  "sample_at e = Aware (1699999999999999 + sequence_no e) 0"

lemma sample_times: "event_time ev1 = iso_text (sample_at ev1)" "event_time ev2 = iso_text (sample_at ev2)"
  by (simp_all add: sample_at_def)
     (simp_all add: ev1_def ev2_def record_event_def Let_def sample_env_def empty_log_def sample_rows)

lemma sample_instants: "py_instant 1700000000000000" "py_instant 1700000000000001"
  by code_simp+

lemma audit_window_is_chronological_witness:
  "set (event_window log2 ''t'' None None None (Some (sample_at ev2)) (Some (sample_at ev2))) =
     {e \<in> set (event_window log2 ''t'' None None None None None).
        utc_of (sample_at ev2) \<le> utc_of (sample_at e) \<and> utc_of (sample_at e) \<le> utc_of (sample_at ev2)}"
  using audit_window_is_chronological[of log2 sample_at "sample_at ev2" "sample_at ev2" "''t''" None None None]
  by (simp add: sample_rows sample_times sample_instants sample_at_def)

end
