(* ===== verification/Ident.thy ===== *)
theory Ident
  imports Prelude
begin

text \<open>
  Actor identities: \<open>str(uuid.UUID(s))\<close>, the canonical form that the limit, breach and
  entitlement services stamp and compare (\<open>_canonical_actor_id\<close> of \<open>limit/events.py\<close> and
  \<open>_canonical\<close> of \<open>entitlement/admin_service.py\<close>). The parser follows \<open>uuid.UUID\<close>: it drops
  \<open>urn:\<close>, \<open>uuid:\<close>, braces and hyphens, asks for 32 characters and reads them as Python's
  \<open>int(text, 16)\<close> does (sign, \<open>0x\<close> prefix and single underscores included). Text is ASCII.
\<close>

section \<open>Removing a substring\<close>

definition has_prefix :: "string \<Rightarrow> string \<Rightarrow> bool" where
  "has_prefix p s \<longleftrightarrow> take (length p) s = p"

function remove_sub :: "string \<Rightarrow> string \<Rightarrow> string" where
  "remove_sub p [] = []"
| "remove_sub p (c # s) =
     (if p \<noteq> [] \<and> has_prefix p (c # s) then remove_sub p (drop (length p) (c # s))
      else c # remove_sub p s)"
  by pat_completeness auto
termination
  by (relation "measure (\<lambda>(p, s). length s)") (auto simp: neq_Nil_conv)

lemma remove_sub_absent: "hd p \<notin> set s \<Longrightarrow> p \<noteq> [] \<Longrightarrow> remove_sub p s = s"
  by (induction s) (auto simp: has_prefix_def neq_Nil_conv)

definition strip_chars :: "char set \<Rightarrow> string \<Rightarrow> string" where
  "strip_chars cs s = rev (dropWhile (\<lambda>c. c \<in> cs) (rev (dropWhile (\<lambda>c. c \<in> cs) s)))"

lemma dropWhile_none: "(\<And>c. c \<in> set s \<Longrightarrow> \<not> P c) \<Longrightarrow> dropWhile P s = s"
  by (cases s) auto

lemma strip_chars_absent:
  assumes "\<And>c. c \<in> set s \<Longrightarrow> c \<notin> cs"
  shows "strip_chars cs s = s"
proof -
  have "dropWhile (\<lambda>c. c \<in> cs) s = s" using assms by (rule dropWhile_none)
  moreover have "dropWhile (\<lambda>c. c \<in> cs) (rev s) = rev s" by (rule dropWhile_none) (use assms in simp)
  ultimately show ?thesis by (simp add: strip_chars_def)
qed

section \<open>\<open>int(text, 16)\<close>\<close>

definition hex_digit :: "char \<Rightarrow> nat option" where
  "hex_digit c = (let n = (of_char c :: nat) in
     if 48 \<le> n \<and> n \<le> 57 then Some (n - 48)
     else if 97 \<le> n \<and> n \<le> 102 then Some (n - 87)
     else if 65 \<le> n \<and> n \<le> 70 then Some (n - 55)
     else None)"

text \<open>Digits after a digit: a single underscore may stand between two of them.\<close>

fun hex_tail :: "nat \<Rightarrow> string \<Rightarrow> nat option" where
  "hex_tail acc [] = Some acc"
| "hex_tail acc [c] = map_option (\<lambda>d. acc * 16 + d) (hex_digit c)"
| "hex_tail acc (c # e # s) =
     (if c = CHR ''_'' then
        (case hex_digit e of None \<Rightarrow> None | Some d \<Rightarrow> hex_tail (acc * 16 + d) s)
      else case hex_digit c of None \<Rightarrow> None | Some d \<Rightarrow> hex_tail (acc * 16 + d) (e # s))"

definition hex_number :: "string \<Rightarrow> nat option" where
  "hex_number s = (case s of
     [] \<Rightarrow> None
   | c # r \<Rightarrow> (case hex_digit c of None \<Rightarrow> None | Some d \<Rightarrow> hex_tail d r))"

definition py_int16 :: "string \<Rightarrow> nat option" where
  "py_int16 text =
     (let s = py_strip text;
          s = (if has_prefix ''+'' s then drop 1 s else s)
      in if has_prefix ''0x'' s \<or> has_prefix ''0X'' s
         then let r = drop 2 s in hex_number (if has_prefix ''_'' r then drop 1 r else r)
         else hex_number s)"

section \<open>UUIDs\<close>

definition uuid_hex :: "string \<Rightarrow> string" where
  "uuid_hex s = filter (\<lambda>c. c \<noteq> CHR ''-'')
     (strip_chars {CHR ''{'', CHR ''}''} (remove_sub ''uuid:'' (remove_sub ''urn:'' s)))"

text \<open>\<open>uuid.UUID(s)\<close>: the 128-bit number, or no value for the raised \<open>ValueError\<close>.\<close>

definition parse_uuid :: "string \<Rightarrow> nat option" where
  "parse_uuid s = (let h = uuid_hex s in if length h \<noteq> 32 then None else py_int16 h)"

definition lower_hex :: "nat \<Rightarrow> char" where
  "lower_hex n = char_of (if n < 10 then 48 + n else 87 + n)"

fun hex_pad :: "nat \<Rightarrow> nat \<Rightarrow> string" where
  "hex_pad 0 n = []"
| "hex_pad (Suc w) n = hex_pad w (n div 16) @ [lower_hex (n mod 16)]"

definition hyphenate :: "string \<Rightarrow> string" where
  "hyphenate h = take 8 h @ ''-'' @ take 4 (drop 8 h) @ ''-'' @ take 4 (drop 12 h) @ ''-'' @
     take 4 (drop 16 h) @ ''-'' @ drop 20 h"

definition format_uuid :: "nat \<Rightarrow> string" where
  "format_uuid n = hyphenate (hex_pad 32 n)"

definition canonical_actor_id :: "string \<Rightarrow> string" where
  "canonical_actor_id s = (case parse_uuid s of None \<Rightarrow> s | Some n \<Rightarrow> format_uuid n)"

section \<open>The canonical form parses back\<close>

definition is_lower_hex :: "char \<Rightarrow> bool" where
  "is_lower_hex c = (let n = (of_char c :: nat) in (48 \<le> n \<and> n \<le> 57) \<or> (97 \<le> n \<and> n \<le> 102))"

lemma hex_digit_lower_hex [simp]: "n < 16 \<Longrightarrow> hex_digit (lower_hex n) = Some n"
  by (simp add: hex_digit_def lower_hex_def Let_def)

lemma is_lower_hex_lower_hex [simp]: "n < 16 \<Longrightarrow> is_lower_hex (lower_hex n)"
  by (auto simp: is_lower_hex_def lower_hex_def Let_def)

lemma is_lower_hex_not [simp]:
  "\<not> is_lower_hex (CHR ''_'')" "\<not> is_lower_hex (CHR ''-'')" "\<not> is_lower_hex (CHR ''x'')"
  "\<not> is_lower_hex (CHR ''X'')" "\<not> is_lower_hex (CHR ''+'')" "\<not> is_lower_hex (CHR ''u'')"
  "\<not> is_lower_hex (CHR ''{'')" "\<not> is_lower_hex (CHR ''}'')"
  by (simp_all add: is_lower_hex_def)

lemma is_lower_hex_space: "is_lower_hex c \<Longrightarrow> \<not> is_space c"
  by (auto simp: is_lower_hex_def is_space_def Let_def)

lemma length_hex_pad [simp]: "length (hex_pad w n) = w"
  by (induction w arbitrary: n) auto

lemma hex_pad_lower: "c \<in> set (hex_pad w n) \<Longrightarrow> is_lower_hex c"
  by (induction w arbitrary: n) auto

lemma hex_digit_Some: "hex_digit c = Some d \<Longrightarrow> d < 16 \<and> c \<noteq> CHR ''_''"
  by (auto simp: hex_digit_def Let_def split: if_splits)

lemma hex_tail_digit: "hex_digit c = Some d \<Longrightarrow> hex_tail acc (c # s) = hex_tail (acc * 16 + d) s"
  using hex_digit_Some[of c d] by (cases s) auto

lemma hex_tail_append:
  "(\<And>c. c \<in> set s \<Longrightarrow> is_lower_hex c) \<Longrightarrow> hex_tail acc s = Some v \<Longrightarrow>
     hex_tail acc (s @ t) = hex_tail v t"
proof (induction s arbitrary: acc)
  case (Cons c s)
  then have "\<exists>d. hex_digit c = Some d"
    by (auto simp: is_lower_hex_def hex_digit_def Let_def)
  then obtain d where "hex_digit c = Some d" ..
  then show ?case using Cons by (simp add: hex_tail_digit)
qed simp

lemma hex_tail_pad: "hex_tail acc (hex_pad w n) = Some (acc * 16 ^ w + n mod 16 ^ w)"
proof (induction w arbitrary: n)
  case (Suc w)
  have "hex_tail acc (hex_pad (Suc w) n) =
      hex_tail (acc * 16 ^ w + (n div 16) mod 16 ^ w) [lower_hex (n mod 16)]"
    using hex_tail_append[OF hex_pad_lower Suc.IH] by simp
  also have "\<dots> = Some ((acc * 16 ^ w + (n div 16) mod 16 ^ w) * 16 + n mod 16)" by simp
  also have "(acc * 16 ^ w + (n div 16) mod 16 ^ w) * 16 + n mod 16
      = acc * 16 ^ Suc w + n mod 16 ^ Suc w"
    by (simp add: mod_mult2_eq algebra_simps)
  finally show ?case .
qed simp

lemma hex_number_pad: "hex_number (hex_pad (Suc w) n) = Some (n mod 16 ^ Suc w)"
proof -
  obtain c s where cs: "hex_pad (Suc w) n = c # s" by (cases "hex_pad (Suc w) n") auto
  then have "is_lower_hex c" using hex_pad_lower[of c "Suc w" n] by simp
  then obtain d where d: "hex_digit c = Some d"
    by (auto simp: is_lower_hex_def hex_digit_def Let_def)
  then have "hex_number (hex_pad (Suc w) n) = hex_tail 0 (hex_pad (Suc w) n)"
    by (simp add: hex_number_def cs hex_tail_digit del: hex_pad.simps)
  then show ?thesis using hex_tail_pad[of 0 "Suc w" n] by simp
qed

lemma py_strip_absent:
  assumes "\<And>c. c \<in> set s \<Longrightarrow> \<not> is_space c"
  shows "py_strip s = s"
proof -
  have "dropWhile is_space s = s" using assms by (rule dropWhile_none)
  moreover have "dropWhile is_space (rev s) = rev s" by (rule dropWhile_none) (use assms in simp)
  ultimately show ?thesis by (simp add: py_strip_def)
qed

lemma py_int16_pad: "py_int16 (hex_pad (Suc (Suc w)) n) = Some (n mod 16 ^ Suc (Suc w))"
proof -
  let ?s = "hex_pad (Suc (Suc w)) n"
  have hex: "is_lower_hex c" if "c \<in> set ?s" for c using hex_pad_lower that .
  have "py_strip ?s = ?s" 
    using is_lower_hex_space hex by (metis py_strip_absent)
  moreover have "\<not> has_prefix [c] ?s" if "\<not> is_lower_hex c" for c
    using that hex by (cases ?s) (auto simp: has_prefix_def simp del: hex_pad.simps)
  moreover have "\<not> has_prefix [b, c] ?s" if "\<not> is_lower_hex c" for b c
    using that hex by (cases ?s; cases "tl ?s") (auto simp: has_prefix_def simp del: hex_pad.simps)
  ultimately show ?thesis
    using hex_number_pad[of "Suc w" n] by (simp add: py_int16_def Let_def del: hex_pad.simps)
qed

lemma hyphenate_chars: "c \<in> set (hyphenate h) \<Longrightarrow> c \<in> set h \<or> c = CHR ''-''"
  by (auto simp: hyphenate_def dest: in_set_takeD in_set_dropD)

lemma hyphenate_filter:
  assumes "length h = 32" "CHR ''-'' \<notin> set h"
  shows "filter (\<lambda>c. c \<noteq> CHR ''-'') (hyphenate h) = h"
proof -
  have keep: "filter (\<lambda>c. c \<noteq> CHR ''-'') xs = xs" if "set xs \<subseteq> set h" for xs
    using that assms(2) by (auto simp: filter_id_conv)
  have sub: "set (take i (drop j h)) \<subseteq> set h" "set (take i h) \<subseteq> set h" "set (drop j h) \<subseteq> set h" for i j
    by (auto dest: in_set_takeD in_set_dropD)
  have "take 8 h @ take 4 (drop 8 h) @ take 4 (drop 12 h) @ take 4 (drop 16 h) @ drop 20 h = h"
  proof -
    have step: "take 4 (drop i h) @ drop (i + 4) h = drop i h" for i
      using append_take_drop_id[of 4 "drop i h"] by (simp add: add.commute)
    show ?thesis
      using step[of 8] step[of 12] step[of 16] append_take_drop_id[of 8 h] by simp
  qed
  then show ?thesis by (simp add: hyphenate_def keep sub)
qed

lemma parse_format_uuid: "parse_uuid (format_uuid n) = Some (n mod 16 ^ 32)"
proof -
  let ?h = "hex_pad 32 n"
  have chars: "is_lower_hex c \<or> c = CHR ''-''" if "c \<in> set (format_uuid n)" for c
    using that hyphenate_chars[of c ?h] hex_pad_lower by (auto simp: format_uuid_def)
  have u: "CHR ''u'' \<notin> set (format_uuid n)" using chars by fastforce
  have "remove_sub ''uuid:'' (remove_sub ''urn:'' (format_uuid n)) = format_uuid n"
    using u by (simp add: remove_sub_absent)
  moreover have "strip_chars {CHR ''{'', CHR ''}''} (format_uuid n) = format_uuid n"
    by (rule strip_chars_absent) (use chars in fastforce)
  moreover have "filter (\<lambda>c. c \<noteq> CHR ''-'') (format_uuid n) = ?h"
    unfolding format_uuid_def by (rule hyphenate_filter) (auto dest: hex_pad_lower)
  ultimately have "uuid_hex (format_uuid n) = ?h" by (simp add: uuid_hex_def)
  moreover have "py_int16 ?h = Some (n mod 16 ^ 32)"
  proof -
    have "Suc (Suc 30) = (32 :: nat)" by simp
    then show ?thesis using py_int16_pad[of 30 n] by (simp only:)
  qed
  ultimately show ?thesis by (simp add: parse_uuid_def)
qed

lemma hex_pad_mod: "hex_pad w (n mod 16 ^ w) = hex_pad w n"
proof (induction w arbitrary: n)
  case (Suc w)
  have "n mod 16 ^ Suc w div 16 = (n div 16) mod 16 ^ w" by (simp add: mod_mult2_eq)
  moreover have "n mod 16 ^ Suc w mod 16 = n mod 16" by (simp add: mod_mult2_eq)
  ultimately show ?case using Suc.IH[of "n div 16"] by simp
qed simp

lemma hex_tail_bound: "hex_tail acc s = Some v \<Longrightarrow> v < (acc + 1) * 16 ^ length s"
proof (induction acc s arbitrary: v rule: hex_tail.induct)
  case (2 acc c)
  then show ?case using hex_digit_Some[of c] by (auto split: option.splits)
next
  case (3 acc c e s)
  obtain d r where d: "d < 16" "hex_tail (acc * 16 + d) r = Some v"
      "v < (acc * 16 + d + 1) * 16 ^ length r" "length r \<le> Suc (length s)"
    using 3 hex_digit_Some[of c] hex_digit_Some[of e] by (auto split: if_splits option.splits)
  have "v < (acc * 16 + d + 1) * 16 ^ length r" by (rule d(3))
  also have "\<dots> \<le> ((acc + 1) * 16) * 16 ^ Suc (length s)"
    using d(1,4) by (intro mult_mono power_increasing) simp_all
  finally show ?case by (simp add: algebra_simps)
qed simp

lemma hex_number_bound: "hex_number s = Some v \<Longrightarrow> v < 16 ^ length s"
  using hex_digit_Some hex_tail_bound
  by (fastforce simp: hex_number_def split: list.splits option.splits
      intro: less_le_trans[OF hex_tail_bound])

lemma length_py_strip: "length (py_strip s) \<le> length s"
  unfolding py_strip_def by (metis length_dropWhile_le length_rev order_trans)

lemma py_int16_bound:
  assumes "py_int16 s = Some v"
  shows "v < 16 ^ length s"
proof -
  obtain r where r: "hex_number r = Some v" "length r \<le> length (py_strip s)"
    using assms by (fastforce simp: py_int16_def Let_def split: if_splits)
  have "(16 :: nat) ^ length r \<le> 16 ^ length s"
    using r(2) length_py_strip[of s] by (intro power_increasing) auto
  then show ?thesis using hex_number_bound[OF r(1)] by (rule order.strict_trans2[rotated])
qed

lemma parse_uuid_bound: "parse_uuid s = Some n \<Longrightarrow> n mod 16 ^ 32 = n"
  using py_int16_bound[of "uuid_hex s" n] by (auto simp: parse_uuid_def Let_def split: if_splits)

lemma parse_canonical: "parse_uuid s = Some n \<Longrightarrow> parse_uuid (canonical_actor_id s) = Some n"
  using parse_format_uuid[of n] parse_uuid_bound[of s n] by (simp only: canonical_actor_id_def option.case)

lemma canonical_idem [simp]: "canonical_actor_id (canonical_actor_id s) = canonical_actor_id s"
proof (cases "parse_uuid s")
  case None
  then show ?thesis by (simp add: canonical_actor_id_def)
next
  case (Some n)
  then show ?thesis using parse_canonical[OF Some] by (simp add: canonical_actor_id_def)
qed

text \<open>Two spellings of UUIDs have one canonical form exactly if they name one 128-bit number.\<close>

lemma canonical_eq_iff:
  assumes "parse_uuid a = Some m" "parse_uuid b = Some n"
  shows "canonical_actor_id a = canonical_actor_id b \<longleftrightarrow> m = n"
proof
  assume "canonical_actor_id a = canonical_actor_id b"
  then show "m = n"
    using parse_canonical[OF assms(1)] parse_canonical[OF assms(2)] by (metis option.inject)
next
  assume "m = n"
  then show "canonical_actor_id a = canonical_actor_id b"
    using assms by (simp only: canonical_actor_id_def option.case)
qed

end
