(* ===== verification/Users.thy ===== *)
theory Users
  imports Audit_Chain Ident
begin

text \<open>The \<open>app_user\<close> table of \<open>entitlement/models.py\<close>, which several services read.\<close>

record app_user =
  user_id :: string
  user_tenant :: string
  user_subject :: "string option"
  user_name :: string
  user_active :: bool

record users_db = audit_db +
  app_users :: "app_user list"

lemma log_event_users [row_simps]: "app_users (log_event E f tm db) = app_users db"
  by (simp add: log_event_eq)

end
