(* ===== verification/Decimal_Num.thy ===== *)
theory Decimal_Num
  imports Complex_Main Prelude Json_Canon
begin

text \<open>
  Python's \<open>decimal.Decimal\<close>: a finite value is a coefficient and a power of ten (the sign of a
  zero is not kept), everything else is a special value named by its text. The value of a finite
  one is a rational; \<open>str\<close> and the fixed-point format depend on the exponent as well.
\<close>

datatype decimal = Fin (coef: int) (expo: int) | Special string

fun is_finite :: "decimal \<Rightarrow> bool" where
  "is_finite (Fin c e) = True"
| "is_finite (Special s) = False"

definition pow10 :: "int \<Rightarrow> rat" where
  "pow10 e = (if 0 \<le> e then 10 ^ nat e else 1 / 10 ^ nat (- e))"

fun dec_val :: "decimal \<Rightarrow> rat" where
  "dec_val (Fin c e) = of_int c * pow10 e"
| "dec_val (Special s) = 0"

definition dec_eq :: "decimal \<Rightarrow> decimal \<Rightarrow> bool" where
  "dec_eq a b \<longleftrightarrow> is_finite a \<and> is_finite b \<and> dec_val a = dec_val b"

lemma pow10_pos [simp]: "0 < pow10 e"
  by (simp add: pow10_def)

lemma pow10_nonzero [simp]: "pow10 e \<noteq> 0"
  using pow10_pos[of e] by linarith

lemma pow10_add: "pow10 (a + b) = pow10 a * pow10 b"
proof -
  have "pow10 e = 10 powi e" for e
    by (simp add: pow10_def power_int_def power_one_over)
  then show ?thesis by (simp add: power_int_add)
qed

text \<open>Appending zeros to the coefficient keeps the value.\<close>

lemma dec_val_shift: "0 \<le> k \<Longrightarrow> dec_val (Fin (c * 10 ^ nat k) (e - k)) = dec_val (Fin c e)"
  using pow10_add[of k "e - k"] by (simp add: pow10_def[of k])

section \<open>Text\<close>

text \<open>\<open>f"{d:f}"\<close>: digits with the point \<open>-e\<close> places from the right.\<close>

definition point_text :: "string \<Rightarrow> nat \<Rightarrow> string" where
  "point_text ds k =
     (let ds = replicate (k + 1 - length ds) (CHR ''0'') @ ds;
          n = length ds - k
      in if k = 0 then ds else take n ds @ ''.'' @ drop n ds)"

fun dec_fixed :: "decimal \<Rightarrow> string" where
  "dec_fixed (Special s) = s"
| "dec_fixed (Fin c e) =
     (if c < 0 then ''-'' else []) @
     (if 0 \<le> e then (if c = 0 then ''0'' else nat_str (nat (abs c)) @ replicate (nat e) (CHR ''0''))
      else point_text (nat_str (nat (abs c))) (nat (- e)))"

text \<open>\<open>str(d)\<close>: fixed unless the exponent is positive or the adjusted exponent is below -6.\<close>

fun dec_str :: "decimal \<Rightarrow> string" where
  "dec_str (Special s) = s"
| "dec_str (Fin c e) =
     (let ds = nat_str (nat (abs c)); adj = e + int (length ds) - 1;
          sgn = (if c < 0 then ''-'' else [])
      in if e \<le> 0 \<and> -6 \<le> adj then sgn @ point_text ds (nat (- e))
         else sgn @ take 1 ds @ (if length ds = 1 then [] else ''.'' @ drop 1 ds) @ ''E'' @
              (if adj < 0 then ''-'' else ''+'') @ nat_str (nat (abs adj)))"

section \<open>Parsing\<close>

text \<open>
  \<open>Decimal(text)\<close>: surrounding white space and all underscores are dropped, then a sign, digits
  with at most one point and an exponent, or a special value in any case. No value stands for
  the raised \<open>InvalidOperation\<close>. (Exponents beyond the C library's limits are not refused.)
\<close>

definition split_sign :: "string \<Rightarrow> bool \<times> string" where
  "split_sign s = (case s of
     [] \<Rightarrow> (False, [])
   | c # r \<Rightarrow> if c = CHR ''-'' then (True, r) else if c = CHR ''+'' then (False, r) else (False, s))"

definition all_digits :: "string \<Rightarrow> bool" where
  "all_digits s \<longleftrightarrow> s \<noteq> [] \<and> list_all is_digit s"

definition parse_exponent :: "string \<Rightarrow> int option" where
  "parse_exponent s = (case s of
     [] \<Rightarrow> Some 0
   | c # r \<Rightarrow>
       if c = CHR ''e'' \<or> c = CHR ''E'' then
         (let (neg, ds) = split_sign r in
          if all_digits ds then Some (if neg then - int (digits_val ds) else int (digits_val ds)) else None)
       else None)"

definition parse_unsigned :: "string \<Rightarrow> (int \<times> int) option" where
  "parse_unsigned s =
     (let ip = takeWhile is_digit s; r = dropWhile is_digit s;
          (fp, r) = (case r of
             c # t \<Rightarrow> if c = CHR ''.'' then (takeWhile is_digit t, dropWhile is_digit t) else ([], r)
           | [] \<Rightarrow> ([], []))
      in if ip = [] \<and> fp = [] then None
         else map_option (\<lambda>e. (int (digits_val (ip @ fp)), e - int (length fp))) (parse_exponent r))"

definition parse_special :: "string \<Rightarrow> string option" where
  "parse_special s =
     (let t = py_lower s in
      if t = ''inf'' \<or> t = ''infinity'' then Some ''Infinity''
      else if take 3 t = ''nan'' \<and> list_all is_digit (drop 3 t) then Some ''NaN''
      else if take 4 t = ''snan'' \<and> list_all is_digit (drop 4 t) then Some ''sNaN''
      else None)"

definition parse_decimal :: "string \<Rightarrow> decimal option" where
  "parse_decimal text =
     (let s = filter (\<lambda>c. c \<noteq> CHR ''_'') (py_strip text);
          (neg, r) = split_sign s
      in case parse_unsigned r of
           Some (c, e) \<Rightarrow> Some (Fin (if neg then - c else c) e)
         | None \<Rightarrow> map_option (\<lambda>t. Special ((if neg then ''-'' else []) @ t)) (parse_special r))"

section \<open>Comparison and quantization\<close>

text \<open>\<open>d <= 0\<close>: an ordered comparison with a NaN raises, which is no value here.\<close>

fun le_zero :: "decimal \<Rightarrow> bool option" where
  "le_zero (Fin c e) = Some (c \<le> 0)"
| "le_zero (Special s) =
     (if s = ''Infinity'' then Some False else if s = ''-Infinity'' then Some True else None)"

text \<open>\<open>a < b\<close> likewise.\<close>

definition is_nan :: "decimal \<Rightarrow> bool" where
  "is_nan d = (case d of Fin c e \<Rightarrow> False | Special s \<Rightarrow> s \<noteq> ''Infinity'' \<and> s \<noteq> ''-Infinity'')"

definition dec_less :: "decimal \<Rightarrow> decimal \<Rightarrow> bool option" where
  "dec_less a b =
     (if is_nan a \<or> is_nan b then None
      else Some (if is_finite a \<and> is_finite b then dec_val a < dec_val b
                 else if a = b then False
                 else a = Special ''-Infinity'' \<or> b = Special ''Infinity''))"

lemma dec_less_finite: "is_finite a \<Longrightarrow> is_finite b \<Longrightarrow> dec_less a b = Some (dec_val a < dec_val b)"
  by (cases a; cases b) (simp_all add: dec_less_def is_nan_def)

text \<open>Division with ties away from zero (\<open>ROUND_HALF_UP\<close>), for a positive divisor.\<close>

definition half_up_div :: "int \<Rightarrow> int \<Rightarrow> int" where
  "half_up_div n d = (let a = abs n; q = a div d; m = (if d \<le> 2 * (a mod d) then q + 1 else q)
     in if n < 0 then - m else m)"

text \<open>
  \<open>PreciseDecimal(precision, scale)\<close> at bind: quantized half up to the scale in a context of
  \<open>precision + scale\<close> digits, and refused by \<open>NUMERIC(precision, scale)\<close> when more than
  \<open>precision\<close> digits are left.
\<close>

definition rescale_half_up :: "nat \<Rightarrow> int \<Rightarrow> int \<Rightarrow> int" where
  "rescale_half_up scale c e =
     (if 0 \<le> e + int scale then c * 10 ^ nat (e + int scale)
      else half_up_div c (10 ^ nat (- e - int scale)))"

fun bind_numeric :: "nat \<Rightarrow> nat \<Rightarrow> decimal \<Rightarrow> decimal option" where
  "bind_numeric prec scale (Special s) = None"
| "bind_numeric prec scale (Fin c e) =
     (let q = rescale_half_up scale c e
      in if 10 ^ prec \<le> abs q then None else Some (Fin q (- int scale)))"

lemma half_up_div_pos: "0 \<le> n \<Longrightarrow> 0 < d \<Longrightarrow> 0 \<le> half_up_div n d"
  by (auto simp: half_up_div_def Let_def pos_imp_zdiv_nonneg_iff)

lemma half_up_div_error:
  assumes "0 < d"
  shows "\<bar>2 * (half_up_div n d * d) - 2 * n\<bar> \<le> d"
proof -
  define q r where "q = abs n div d" and "r = abs n mod d"
  have a: "abs n = q * d + r" and r: "0 \<le> r" "r < d"
    using assms by (simp_all add: q_def r_def)
  define m where "m = (if d \<le> 2 * r then q + 1 else q)"
  have h: "half_up_div n d = (if n < 0 then - m else m)"
    by (simp add: half_up_div_def Let_def m_def q_def r_def)
  have "\<bar>2 * (m * d) - 2 * abs n\<bar> \<le> d"
    using r unfolding a m_def by (auto simp: algebra_simps)
  then show ?thesis unfolding h by (cases "n < 0") auto
qed

text \<open>Binding a number the column can hold exactly does not change it.\<close>

lemma half_up_div_exact: "0 < d \<Longrightarrow> half_up_div (q * d) d = q"
  using nonzero_mult_div_cancel_right[of d "- q"]
  by (cases "q < 0") (auto simp: half_up_div_def Let_def abs_mult mult_less_0_iff)

lemma rescale_exact:
  assumes "dec_val (Fin c e) = dec_val (Fin q (- int scale))"
  shows "rescale_half_up scale c e = q"
proof -
  have "of_int c * pow10 e * pow10 (int scale) = (of_int q :: rat)"
    using assms pow10_add[of "- int scale" "int scale"] by (simp add: pow10_def)
  then have *: "of_int c * pow10 (e + int scale) = (of_int q :: rat)" by (simp add: pow10_add mult.assoc)
  show ?thesis
  proof (cases "0 \<le> e + int scale")
    case True
    then have "of_int (c * 10 ^ nat (e + int scale)) = (of_int q :: rat)"
      using * by (simp add: pow10_def)
    then show ?thesis using True by (simp only: of_int_eq_iff rescale_half_up_def if_True)
  next
    case False
    let ?k = "nat (- e - int scale)"
    have "- (e + int scale) = - e - int scale" by simp
    then have "of_int c = (of_int q :: rat) * 10 ^ ?k"
      using * False by (simp add: pow10_def field_simps)
    then have "of_int c = (of_int (q * 10 ^ ?k) :: rat)" by simp
    then have "c = q * 10 ^ ?k" by (simp only: of_int_eq_iff)
    then show ?thesis using False by (simp add: rescale_half_up_def half_up_div_exact)
  qed
qed

lemma bind_numeric_exact:
  assumes "is_finite d" "dec_val d = dec_val (Fin q (- int scale))" "bind_numeric prec scale d = Some x"
  shows "x = Fin q (- int scale)"
proof (cases d)
  case (Fin c e)
  then show ?thesis using rescale_exact[of c e q scale] assms(2,3) by (auto simp: Let_def split: if_splits)
qed (use assms in simp)

lemma bind_numeric_form: "bind_numeric prec scale d = Some x \<Longrightarrow> \<exists>q. x = Fin q (- int scale)"
  by (cases d) (auto simp: Let_def split: if_splits)

lemma bind_numeric_finite: "bind_numeric prec scale d = Some x \<Longrightarrow> is_finite d \<and> is_finite x"
  by (cases d) (auto simp: Let_def split: if_splits)

text \<open>Rescaling moves a number by at most half a unit of the last place.\<close>

lemma rescale_error: "\<bar>of_int (rescale_half_up scale c e) - dec_val (Fin c e) * 10 ^ scale\<bar> \<le> (1 / 2 :: rat)"
proof -
  have v: "dec_val (Fin c e) * 10 ^ scale = of_int c * pow10 (e + int scale)"
    using pow10_add[of e "int scale"] by (simp add: pow10_def[of "int scale"])
  show ?thesis
  proof (cases "0 \<le> e + int scale")
    case True
    then show ?thesis unfolding v by (simp add: rescale_half_up_def pow10_def)
  next
    case False
    let ?d = "10 ^ nat (- e - int scale) :: int"
    have "- (e + int scale) = - e - int scale" by simp
    then have v': "dec_val (Fin c e) * 10 ^ scale = of_int c / of_int ?d" unfolding v using False by (simp add: pow10_def)
    have "\<bar>2 * (half_up_div c ?d * ?d) - 2 * c\<bar> \<le> ?d" by (rule half_up_div_error) simp
    then have "\<bar>of_int (2 * (half_up_div c ?d * ?d) - 2 * c)\<bar> \<le> (of_int ?d :: rat)"
      by (simp only: of_int_abs[symmetric] of_int_le_iff)
    then have "\<bar>2 * of_int ?d * (of_int (half_up_div c ?d) - of_int c / of_int ?d)\<bar> \<le> (of_int ?d :: rat)"
      by (simp add: algebra_simps)
    then have "2 * of_int ?d * \<bar>of_int (half_up_div c ?d) - of_int c / of_int ?d\<bar> \<le> (of_int ?d :: rat)"
      by (simp add: abs_mult)
    then have "\<bar>of_int (half_up_div c ?d) - of_int c / of_int ?d\<bar> \<le> (1 / 2 :: rat)"
      by (simp add: field_simps)
    then show ?thesis using False by (simp add: v' rescale_half_up_def del: dec_val.simps)
  qed
qed

text \<open>What is stored is within half a unit of the last place of what was given.\<close>

lemma bind_numeric_error:
  assumes "bind_numeric prec scale d = Some x"
  shows "\<bar>dec_val x - dec_val d\<bar> \<le> 1 / (2 * 10 ^ scale)"
proof (cases d)
  case (Fin c e)
  let ?q = "rescale_half_up scale c e" and ?s = "(10 ^ scale :: rat)"
  have x: "x = Fin ?q (- int scale)" using assms Fin by (auto simp: Let_def split: if_splits)
  have sc: "dec_val x = of_int ?q / ?s" by (simp add: x pow10_def)
  have "dec_val x - dec_val d = (of_int ?q - dec_val d * ?s) / ?s" by (simp add: sc field_simps)
  then have "\<bar>dec_val x - dec_val d\<bar> = \<bar>of_int ?q - dec_val d * ?s\<bar> / ?s" by (simp add: abs_divide)
  then show ?thesis using divide_right_mono[OF rescale_error[of scale c e], of ?s] by (simp add: Fin)
qed (use assms in simp)

end
