(* ===== verification/Limit_Model.thy ===== *)
theory Limit_Model
  imports Users Decimal_Num
begin

text \<open>
  The tables and the vocabulary of the limit package (\<open>limit/models.py\<close>, \<open>limit/events.py\<close>):
  limit definitions, detected breaches and the actions of the breach lifecycle. The states and
  the action types are datatypes with their texts; the columns whose values the services check
  themselves (units, directions, kinds, statuses) stay text.
\<close>

datatype breach_state = DETECTED | ASSIGNED | RESPONDED | REVIEWED | ESCALATED | CLOSED

datatype breach_action_type = ASSIGN | RESPONSE_1L | REVIEW_2L | ESCALATE | CLOSE

fun state_text :: "breach_state \<Rightarrow> string" where
  "state_text DETECTED = ''DETECTED''"
| "state_text ASSIGNED = ''ASSIGNED''"
| "state_text RESPONDED = ''RESPONDED''"
| "state_text REVIEWED = ''REVIEWED''"
| "state_text ESCALATED = ''ESCALATED''"
| "state_text CLOSED = ''CLOSED''"

definition breach_states :: "breach_state list" where
  "breach_states = [DETECTED, ASSIGNED, RESPONDED, REVIEWED, ESCALATED, CLOSED]"

definition parse_state :: "string \<Rightarrow> breach_state option" where
  "parse_state s = map_of (map (\<lambda>x. (state_text x, x)) breach_states) s"

fun action_text :: "breach_action_type \<Rightarrow> string" where
  "action_text ASSIGN = ''ASSIGN''"
| "action_text RESPONSE_1L = ''1L_RESPONSE''"
| "action_text REVIEW_2L = ''2L_REVIEW''"
| "action_text ESCALATE = ''ESCALATE''"
| "action_text CLOSE = ''CLOSE''"

text \<open>\<open>BREACH_ACTION_EVENTS\<close>: the audit event of each action.\<close>

definition action_event :: "breach_action_type \<Rightarrow> string" where
  "action_event a = ''BREACH.'' @ action_text a"

lemma parse_state_text [simp]: "parse_state (state_text s) = Some s"
  by (cases s) (simp_all add: parse_state_def breach_states_def)

text \<open>\<open>BREACH_SLA_DAYS\<close>.\<close>

definition sla_days :: "string \<Rightarrow> int option" where
  "sla_days kind = (if kind = ''HARD'' then Some 1 else if kind = ''SOFT'' then Some 5 else None)"

section \<open>Rows\<close>

record limit_definition =
  ld_id :: string
  ld_tenant :: string
  ld_code :: string
  ld_name :: string
  ld_target_run_type :: string
  ld_metric_type :: string
  ld_benchmark_id :: "string option"
  ld_scope_portfolio_id :: string
  ld_threshold :: decimal
  ld_unit :: string
  ld_direction :: string
  ld_kind :: string
  ld_status :: string
  ld_version :: int
  ld_dimension_kind :: "string option"
  ld_bucket_code :: "string option"
  ld_issuer_id :: "string option"
  ld_scheme_family :: "string option"
  ld_authored_scheme_id :: "string option"
  ld_denominator_basis :: "string option"
  ld_created_by :: "string option"
  ld_updated_by :: "string option"

record breach =
  br_id :: string
  br_tenant :: string
  br_limit_id :: string
  br_run_id :: string
  br_detected_at :: pydatetime
  br_target_run_type :: string
  br_metric_type :: string
  br_benchmark_id :: "string option"
  br_observed :: decimal
  br_threshold :: decimal
  br_unit :: string
  br_direction :: string
  br_kind :: string
  br_severity :: string
  br_status :: string
  br_dimension_kind :: "string option"
  br_bucket_code :: "string option"
  br_issuer_id :: "string option"
  br_scheme_family :: "string option"
  br_resolved_scheme_id :: "string option"
  br_denominator_basis :: "string option"
  br_scope_portfolio_id :: "string option"

record breach_action =
  ba_id :: string
  ba_tenant :: string
  ba_breach :: string
  ba_seq :: int
  ba_type :: breach_action_type
  ba_from :: breach_state
  ba_to :: breach_state
  ba_actor :: string
  ba_line :: string
  ba_assigned_to :: "string option"
  ba_response_due :: "pydatetime option"
  ba_epoch_seq :: "int option"
  ba_narrative :: "string option"
  ba_review_outcome :: "string option"
  ba_evidence_ref :: "string option"
  ba_occurred_at :: pydatetime

record limit_db = users_db +
  limit_definitions :: "limit_definition list"
  breaches :: "breach list"
  breach_actions :: "breach_action list"

text \<open>\<open>BreachActor\<close> and \<open>LimitActor\<close>: the constructor canonicalizes the id.\<close>

record actor =
  act_id :: string
  act_type :: string

definition breach_actor :: "string \<Rightarrow> string \<Rightarrow> actor" where
  "breach_actor i t = \<lparr>act_id = canonical_actor_id i, act_type = t\<rparr>"

lemma log_event_limit [row_simps]:
  "limit_definitions (log_event E f tm db) = limit_definitions db"
  "breaches (log_event E f tm db) = breaches db"
  "breach_actions (log_event E f tm db) = breach_actions db"
  by (simp_all add: log_event_eq)

end
