(* ===== verification/Calc_Reads.thy ===== *)
theory Calc_Reads
  imports Limit_Model
begin

text \<open>
  The governed-result reads (\<open>calc/reads.py\<close>): the rows of the COMPLETED runs of a family in run
  order, and the rows of the newest run. The runs and the result tables the limit evaluation
  reads (\<open>calc/models.py\<close>, the VaR, active-risk and concentration results).
\<close>

record calc_run =
  run_id :: string
  run_tenant :: string
  run_type :: string
  run_status :: string
  run_scope_portfolio_id :: "string option"
  run_system_from :: pydatetime

text \<open>A row of \<open>var_result\<close> or \<open>active_risk_result\<close>: one metric of one run.\<close>

record metric_row =
  mr_run :: string
  mr_tenant :: string
  mr_metric_type :: string
  mr_value :: decimal
  mr_benchmark_id :: "string option"

record concentration_row =
  cr_run :: string
  cr_tenant :: string
  cr_portfolio_id :: string
  cr_dimension_kind :: string
  cr_row_kind :: string
  cr_metric_type :: string
  cr_bucket_code :: string
  cr_share_invested_long :: "decimal option"
  cr_metric_value :: "decimal option"
  cr_denominator_basis :: string
  cr_scheme_id :: "string option"

text \<open>\<open>ORDER BY key DESC\<close>, stable.\<close>

definition sort_desc :: "('x \<Rightarrow> 'k::linorder) \<Rightarrow> 'x list \<Rightarrow> 'x list" where
  "sort_desc f xs = rev (sort_key f (rev xs))"

text \<open>
  \<open>list_governed_results\<close>: the join of a result table with its runs. The filters are a predicate
  on the joined pair, the grain is the ordering column, or the list of them.
\<close>

definition list_governed_results ::
  "calc_run list \<Rightarrow> ('r \<Rightarrow> string) \<Rightarrow> ('r \<Rightarrow> string) \<Rightarrow> ('r \<Rightarrow> 'g::linorder) \<Rightarrow> 'r list \<Rightarrow> string
     \<Rightarrow> (calc_run \<Rightarrow> 'r \<Rightarrow> bool) \<Rightarrow> string option \<Rightarrow> pydatetime option \<Rightarrow> 'r list" where
  "list_governed_results runs run_of tenant_of grain rows tenant filters rtype as_of =
     map snd (sort_desc (\<lambda>(c, r). utc_of (run_system_from c)) (sort_desc (\<lambda>(c, r). run_id c)
       (sort_key (\<lambda>(c, r). grain r)
         [(c, r). r \<leftarrow> rows, c \<leftarrow> runs,
            run_id c = run_of r \<and> tenant_of r = tenant \<and> run_status c = ''COMPLETED'' \<and>
            opt_filter rtype (\<lambda>t. run_type c = t) \<and> filters c r \<and>
            opt_filter as_of (\<lambda>t. utc_of (run_system_from c) \<le> utc_of t)])))"

definition latest_run_rows :: "('r \<Rightarrow> string) \<Rightarrow> 'r list \<Rightarrow> 'r list" where
  "latest_run_rows run_of rows =
     (case rows of [] \<Rightarrow> [] | r # _ \<Rightarrow> filter (\<lambda>x. run_of x = run_of r) rows)"

section \<open>The newest run\<close>

lemma set_sort_desc [simp]: "set (sort_desc f xs) = set xs"
  by (simp add: sort_desc_def)

lemma sort_desc_Nil_iff [simp]: "sort_desc f xs = [] \<longleftrightarrow> xs = []"
  by (metis set_empty2 set_sort_desc)

lemma sorted_sort_desc: "sorted_wrt (\<lambda>a b. f b \<le> f a) (sort_desc f xs)"
  unfolding sort_desc_def sorted_wrt_rev by (rule sorted_wrt_sort_key)

lemma sort_desc_hd: "sort_desc f xs = y # ys \<Longrightarrow> x \<in> set xs \<Longrightarrow> f x \<le> f y"
  using sorted_sort_desc[of f xs] set_sort_desc[of f xs] by (cases "x = y") auto

lemma governed_in:
  "r \<in> set (list_governed_results runs run_of tenant_of grain rows tenant filters rtype as_of) \<longleftrightarrow>
     r \<in> set rows \<and> tenant_of r = tenant \<and>
     (\<exists>c\<in>set runs. run_id c = run_of r \<and> run_status c = ''COMPLETED'' \<and>
        opt_filter rtype (\<lambda>t. run_type c = t) \<and> filters c r \<and>
        opt_filter as_of (\<lambda>t. utc_of (run_system_from c) \<le> utc_of t))"
  by (force simp: list_governed_results_def image_iff)

lemma governed_hd:
  assumes "list_governed_results runs run_of tenant_of grain rows tenant filters rtype as_of = r # rs"
  shows "\<exists>c\<in>set runs. run_id c = run_of r \<and> run_status c = ''COMPLETED'' \<and>
     opt_filter rtype (\<lambda>t. run_type c = t) \<and> filters c r \<and>
     (\<forall>c'\<in>set runs. \<forall>r'\<in>set rows. run_id c' = run_of r' \<and> tenant_of r' = tenant \<and>
        run_status c' = ''COMPLETED'' \<and> opt_filter rtype (\<lambda>t. run_type c' = t) \<and> filters c' r' \<and>
        opt_filter as_of (\<lambda>t. utc_of (run_system_from c') \<le> utc_of t)
        \<longrightarrow> utc_of (run_system_from c') \<le> utc_of (run_system_from c))"
proof -
  let ?J = "[(c, r). r \<leftarrow> rows, c \<leftarrow> runs,
            run_id c = run_of r \<and> tenant_of r = tenant \<and> run_status c = ''COMPLETED'' \<and>
            opt_filter rtype (\<lambda>t. run_type c = t) \<and> filters c r \<and>
            opt_filter as_of (\<lambda>t. utc_of (run_system_from c) \<le> utc_of t)]"
  let ?f = "\<lambda>(c, r). utc_of (run_system_from c)"
  let ?S = "sort_desc (\<lambda>(c, r). run_id c) (sort_key (\<lambda>(c, r). grain r) ?J)"
  obtain c ps where p: "sort_desc ?f ?S = (c, r) # ps"
    using assms by (auto simp: list_governed_results_def)
  have "(c, r) \<in> set (sort_desc ?f ?S)" unfolding p by simp
  then have c: "(c, r) \<in> set ?J" by (simp only: set_sort_desc set_sort)
  have "utc_of (run_system_from c') \<le> utc_of (run_system_from c)" if "(c', r') \<in> set ?J" for c' r'
  proof -
    have "(c', r') \<in> set ?S" using that by (simp only: set_sort_desc set_sort)
    from sort_desc_hd[OF p this] show ?thesis by simp
  qed
  then show ?thesis using c by (intro bexI[of _ c]) auto
qed

lemma latest_run_rows_same: "r \<in> set (latest_run_rows f rows) \<Longrightarrow> s \<in> set (latest_run_rows f rows) \<Longrightarrow> f r = f s"
  by (auto simp: latest_run_rows_def split: list.splits if_splits)

lemma latest_run_rows_sub: "set (latest_run_rows f rows) \<subseteq> set rows"
  by (auto simp: latest_run_rows_def split: list.splits)

text \<open>"Latest" means one run: the rows come from a single COMPLETED run of the family, and no
  COMPLETED run with rows under the same filters has a later system time.\<close>

lemma latest_rows_are_of_the_newest_run:
  assumes "r \<in> set (latest_run_rows run_of
       (list_governed_results runs run_of tenant_of grain rows tenant filters (Some rtype) None))"
  shows "\<exists>c\<in>set runs. run_id c = run_of r \<and> run_status c = ''COMPLETED'' \<and> run_type c = rtype \<and>
     list_all (\<lambda>c'. list_all (\<lambda>r'. \<not> (run_id c' = run_of r' \<and> tenant_of r' = tenant \<and>
        run_status c' = ''COMPLETED'' \<and> run_type c' = rtype \<and> filters c' r' \<and>
        utc_of (run_system_from c) < utc_of (run_system_from c'))) rows) runs"
proof -
  let ?L = "list_governed_results runs run_of tenant_of grain rows tenant filters (Some rtype) None"
  obtain h t where L: "?L = h # t" using assms by (cases ?L) (auto simp: latest_run_rows_def)
  have same: "run_of r = run_of h"
    using assms unfolding L by (auto simp: latest_run_rows_def split: if_splits)
  obtain c where c: "c \<in> set runs" "run_id c = run_of h" "run_status c = ''COMPLETED''" "run_type c = rtype"
     "\<forall>c'\<in>set runs. \<forall>r'\<in>set rows. run_id c' = run_of r' \<and> tenant_of r' = tenant \<and>
        run_status c' = ''COMPLETED'' \<and> run_type c' = rtype \<and> filters c' r'
        \<longrightarrow> utc_of (run_system_from c') \<le> utc_of (run_system_from c)"
    using governed_hd[OF L] by (auto simp: opt_filter_def)
  then show ?thesis
    using same by (intro bexI[of _ c]) (fastforce simp: list_all_iff)+
qed

section \<open>Witness\<close>

definition run_a :: calc_run where
  "run_a = \<lparr>run_id = ''a'', run_tenant = ''T'', run_type = ''VAR'', run_status = ''COMPLETED'',
     run_scope_portfolio_id = Some ''P'', run_system_from = Aware 1 0\<rparr>"

definition run_b :: calc_run where
  "run_b = run_a\<lparr>run_id := ''b'', run_system_from := Aware 2 0\<rparr>"

definition row_of_run :: "string \<Rightarrow> metric_row" where
  "row_of_run i = \<lparr>mr_run = i, mr_tenant = ''T'', mr_metric_type = ''VAR_PARAMETRIC'',
     mr_value = Fin 1 0, mr_benchmark_id = None\<rparr>"

theorem latest_rows_are_of_the_newest_run_witness:
  "\<exists>c\<in>set [run_a, run_b]. run_id c = ''b'' \<and> run_status c = ''COMPLETED''"
  using latest_rows_are_of_the_newest_run[of "row_of_run ''b''" mr_run "[run_a, run_b]" mr_tenant
      "\<lambda>r. [mr_metric_type r]" "[row_of_run ''a'', row_of_run ''b'']" "''T''" "\<lambda>c r. True" "''VAR''"]
  by (simp add: list_governed_results_def sort_desc_def latest_run_rows_def run_a_def run_b_def
      row_of_run_def opt_filter_def)

end
