(* ===== verification/Classification_Tree.thy ===== *)
theory Classification_Tree
  imports Users
begin

text \<open>
  The two classification reads the limit evaluation depends on (\<open>classification/service.py\<close>):
  resolving a code to a node, a tenant's own row before the SYSTEM row, and the bounded,
  cycle-safe walk to the root.
\<close>

record class_node =
  cn_id :: string
  cn_tenant :: string
  cn_scheme :: string
  cn_code :: string
  cn_level :: int
  cn_parent :: "string option"

datatype class_error = NodeNotVisible | DepthExceeded | CycleDetected | NotAUuid

definition system_tenant :: string where
  "system_tenant = ''00000000-0000-0000-0000-000000000001''"

definition max_hierarchy_depth :: nat where
  "max_hierarchy_depth = 16"

text \<open>\<open>str(uuid.UUID(str(tenant_id)))\<close>: a text that is no UUID raises.\<close>

definition canonical_tenant_id :: "string \<Rightarrow> class_error + string" where
  "canonical_tenant_id t =
     (case parse_uuid t of None \<Rightarrow> Inl NotAUuid | Some n \<Rightarrow> Inr (format_uuid n))"

definition resolve_node ::
  "class_node list \<Rightarrow> string \<Rightarrow> string \<Rightarrow> string \<Rightarrow> class_error + class_node" where
  "resolve_node nodes scheme code acting =
     bindR (canonical_tenant_id acting) (\<lambda>tenant.
     let rows = filter (\<lambda>n. cn_scheme n = scheme \<and> cn_code n = code \<and>
                  (cn_tenant n = tenant \<or> cn_tenant n = system_tenant)) nodes;
         own = filter (\<lambda>n. cn_tenant n = tenant) rows
     in case own of n # _ \<Rightarrow> Inr n
        | [] \<Rightarrow> (case rows of n # _ \<Rightarrow> Inr n | [] \<Rightarrow> Inl NodeNotVisible))"

text \<open>The loop; \<open>left\<close> is how many more ancestors the depth bound admits.\<close>

fun walk_up ::
  "class_node list \<Rightarrow> string \<Rightarrow> string set \<Rightarrow> nat \<Rightarrow> class_node \<Rightarrow> class_error + class_node list" where
  "walk_up nodes tenant seen left current =
     (case cn_parent current of
        None \<Rightarrow> Inr []
      | Some p \<Rightarrow>
        (case left of
           0 \<Rightarrow> Inl DepthExceeded
         | Suc left' \<Rightarrow>
           (case one_or_none (filter (\<lambda>n. cn_id n = p \<and>
                    (cn_tenant n = tenant \<or> cn_tenant n = system_tenant)) nodes) of
              None \<Rightarrow> Inl NodeNotVisible
            | Some parent \<Rightarrow>
              if cn_id parent \<in> seen then Inl CycleDetected
              else bindR (walk_up nodes tenant (insert (cn_id parent) seen) left' parent)
                     (\<lambda>rest. Inr (parent # rest)))))"

declare walk_up.simps [simp del]

definition resolve_ancestors ::
  "class_node list \<Rightarrow> class_node \<Rightarrow> string \<Rightarrow> class_error + class_node list" where
  "resolve_ancestors nodes node acting =
     bindR (canonical_tenant_id acting) (\<lambda>tenant.
     walk_up nodes tenant {cn_id node} max_hierarchy_depth node)"

section \<open>The walk is a chain of parents to a root\<close>

fun parent_chain :: "class_node \<Rightarrow> class_node list \<Rightarrow> bool" where
  "parent_chain n [] \<longleftrightarrow> cn_parent n = None"
| "parent_chain n (p # ps) \<longleftrightarrow> cn_parent n = Some (cn_id p) \<and> parent_chain p ps"

lemma walk_up_chain:
  "walk_up nodes tenant seen left n = Inr ps \<Longrightarrow>
     parent_chain n ps \<and> set ps \<subseteq> set nodes \<and> length ps \<le> left \<and>
     distinct (map cn_id ps) \<and> cn_id ` set ps \<inter> seen = {}"
proof (induction left arbitrary: n seen ps)
  case 0
  then show ?case by (subst (asm) walk_up.simps) (auto split: option.splits)
next
  case (Suc left)
  show ?case
  proof (cases "cn_parent n")
    case None
    then show ?thesis using Suc.prems by (subst (asm) walk_up.simps) auto
  next
    case (Some p)
    then obtain q rest where q:
        "filter (\<lambda>n. cn_id n = p \<and> (cn_tenant n = tenant \<or> cn_tenant n = system_tenant)) nodes = [q]"
        "cn_id q \<notin> seen" "walk_up nodes tenant (insert (cn_id q) seen) left q = Inr rest" "ps = q # rest"
      using Suc.prems
      by (subst (asm) walk_up.simps) (auto simp: res_simps one_or_none_Some split: option.splits if_splits)
    then have "q \<in> set (filter (\<lambda>n. cn_id n = p \<and> (cn_tenant n = tenant \<or> cn_tenant n = system_tenant)) nodes)"
      by simp
    then have "q \<in> set nodes" "cn_id q = p" by simp_all
    then show ?thesis using Suc.IH[OF q(3)] q(2,4) Some by auto
  qed
qed

text \<open>The ancestor walk either refuses or returns the complete chain of parents, nearest first,
  up to a root: never a truncated chain, never a repeated node, at most sixteen of them.\<close>

lemma ancestors_are_the_whole_chain:
  "case resolve_ancestors nodes node acting of
     Inl e \<Rightarrow> True
   | Inr ps \<Rightarrow> parent_chain node ps \<and> set ps \<subseteq> set nodes \<and> length ps \<le> 16 \<and>
       distinct (map cn_id (node # ps))"
  using walk_up_chain[of nodes _ "{cn_id node}" max_hierarchy_depth node]
  by (auto simp: resolve_ancestors_def max_hierarchy_depth_def res_simps split: sum.splits)

end
