(* ===== verification/Limit_Rules.thy ===== *)
theory Limit_Rules
  imports Calc_Reads Classification_Tree
begin

text \<open>
  The static part of \<open>limit/service.py\<close>: the metric map, the definition-time validation with the
  DB constraints it mirrors, the breach predicate, and the resolvers that find the observed value
  of a limit in the newest COMPLETED run of its family.
\<close>

datatype limit_error =
    LimitError string
  | LimitSodError
  | DuplicateLimitError
  | LimitStateError
  | RawInvalidOperation
  | NumericRefused
  | ClassificationFailed class_error
  | MissingValue

record gov_db = limit_db +
  calc_runs :: "calc_run list"
  var_results :: "metric_row list"
  active_risk_results :: "metric_row list"
  concentration_results :: "concentration_row list"
  class_nodes :: "class_node list"
  portfolio_ids :: "(string \<times> string) list"
  benchmark_ids :: "(string \<times> string) list"
  issuer_ids :: "(string \<times> string) list"

section \<open>The metric map\<close>

datatype result_column = Var_value | Te_value | Share_invested_long | Metric_value

record metric_spec =
  ms_column :: result_column
  ms_unit :: string
  ms_requires_benchmark :: bool

definition var_metrics :: "string list" where
  "var_metrics = [''VAR_PARAMETRIC'', ''VAR_HISTORICAL'', ''VAR_PARAMETRIC_TOTAL'',
     ''VAR_PARAMETRIC_UNIFIED'', ''ES_PARAMETRIC'', ''ES_HISTORICAL'']"

definition concentration_dimension_kinds :: "string list" where
  "concentration_dimension_kinds = [''ISSUER'', ''SECTOR_INDUSTRY'', ''COUNTRY_OF_RISK'']"

definition concentration_metric_types :: "string list" where
  "concentration_metric_types = [''SHARE'',
     ''MAX_SHARE_ISSUER'', ''MAX_SHARE_SECTOR_INDUSTRY'', ''MAX_SHARE_COUNTRY_OF_RISK'',
     ''HHI_ISSUER'', ''HHI_SECTOR_INDUSTRY'', ''HHI_COUNTRY_OF_RISK'',
     ''CR_5_ISSUER'', ''CR_5_SECTOR_INDUSTRY'', ''CR_5_COUNTRY_OF_RISK'']"

definition metric_map :: "string \<Rightarrow> string \<Rightarrow> metric_spec option" where
  "metric_map rt mt =
     (if rt = ''VAR'' \<and> mt \<in> set var_metrics then
        Some \<lparr>ms_column = Var_value, ms_unit = ''CURRENCY'', ms_requires_benchmark = False\<rparr>
      else if rt = ''ACTIVE_RISK'' \<and> mt = ''TRACKING_ERROR'' then
        Some \<lparr>ms_column = Te_value, ms_unit = ''FRACTION'', ms_requires_benchmark = True\<rparr>
      else if rt = ''CONCENTRATION'' \<and> mt \<in> set concentration_metric_types then
        Some \<lparr>ms_column = (if mt = ''SHARE'' then Share_invested_long else Metric_value),
              ms_unit = ''FRACTION'', ms_requires_benchmark = False\<rparr>
      else None)"

text \<open>\<open>LIMIT_FAMILY_REGISTRY\<close>: the families, and which of them need a dimension.\<close>

definition limitable_run_types :: "string list" where
  "limitable_run_types = [''VAR'', ''ACTIVE_RISK'', ''CONCENTRATION'']"

definition requires_dimension :: "string \<Rightarrow> bool" where
  "requires_dimension rt \<longleftrightarrow> rt = ''CONCENTRATION''"

section \<open>Definition-time validation\<close>

definition ends_with :: "string \<Rightarrow> string \<Rightarrow> bool" where
  "ends_with s suf \<longleftrightarrow> length suf \<le> length s \<and> drop (length s - length suf) s = suf"

definition blank_to_none :: "string option \<Rightarrow> string option" where
  "blank_to_none v = (case v of None \<Rightarrow> None
     | Some s \<Rightarrow> (let t = py_strip s in if t = [] then None else Some t))"

record limit_input =
  li_tenant :: string
  li_code :: string
  li_name :: string
  li_target_run_type :: string
  li_metric_type :: string
  li_scope_portfolio_id :: string
  li_threshold :: "decimal + string"
  li_unit :: string
  li_direction :: string
  li_kind :: string
  li_benchmark_id :: "string option"
  li_dimension_kind :: "string option"
  li_bucket_code :: "string option"
  li_issuer_id :: "string option"
  li_scheme_family :: "string option"
  li_authored_scheme_id :: "string option"
  li_denominator_basis :: "string option"

definition validate_dimensional_config :: "limit_input \<Rightarrow> limit_error + unit" where
  "validate_dimensional_config i =
     (if \<not> requires_dimension (li_target_run_type i) then
        (if list_ex (\<lambda>v. v \<noteq> None) [li_dimension_kind i, li_bucket_code i, li_issuer_id i,
              li_scheme_family i, li_authored_scheme_id i, li_denominator_basis i]
         then Inl (LimitError ''stray selector'') else Inr ())
      else if \<not> list_ex (\<lambda>d. li_dimension_kind i = Some d) concentration_dimension_kinds then
        Inl (LimitError ''dimension_kind'')
      else if li_denominator_basis i \<noteq> Some ''INVESTED_LONG'' then
        Inl (LimitError ''denominator_basis'')
      else let dim = the (li_dimension_kind i); is_issuer = (dim = ''ISSUER'');
               share = (li_metric_type i = ''SHARE'') in
      if is_issuer \<and> (li_scheme_family i \<noteq> None \<or> li_authored_scheme_id i \<noteq> None) then
        Inl (LimitError ''issuer carries no scheme'')
      else if \<not> is_issuer \<and> li_scheme_family i = None then Inl (LimitError ''scheme_family'')
      else if truthy (li_issuer_id i) \<and> \<not> is_issuer then Inl (LimitError ''issuer_id'')
      else if \<not> share \<and> \<not> ends_with (li_metric_type i) dim then
        Inl (LimitError ''metric of another dimension'')
      else if share \<and> li_bucket_code i = None then Inl (LimitError ''bucket_code required'')
      else if \<not> share \<and> li_bucket_code i \<noteq> None then Inl (LimitError ''bucket_code on a run-level metric'')
      else (case li_bucket_code i of
         None \<Rightarrow> Inr ()
       | Some b \<Rightarrow>
         if has_prefix ''__'' b \<and> ends_with b ''__'' then Inl (LimitError ''reserved sentinel'')
         else if is_issuer \<and> b \<noteq> [] \<and>
             (case li_issuer_id i of None \<Rightarrow> ''None'' | Some s \<Rightarrow> s) \<noteq> b
         then Inl (LimitError ''bucket_code must be the issuer id'')
         else Inr ()))"

text \<open>\<open>_threshold\<close>: a malformed text is a clean refusal.\<close>

definition threshold_of :: "decimal + string \<Rightarrow> limit_error + decimal" where
  "threshold_of v = (case v of
     Inl d \<Rightarrow> Inr d
   | Inr s \<Rightarrow> (case parse_decimal s of None \<Rightarrow> Inl (LimitError ''threshold_value'') | Some d \<Rightarrow> Inr d))"

text \<open>\<open>_threshold(value) <= 0\<close>: the comparison itself raises on a NaN.\<close>

definition check_positive :: "decimal + string \<Rightarrow> limit_error + unit" where
  "check_positive v = bindR (threshold_of v) (\<lambda>d.
     case le_zero d of
       None \<Rightarrow> Inl RawInvalidOperation
     | Some b \<Rightarrow> if b then Inl (LimitError ''threshold_value must be positive'') else Inr ())"

definition validate_config :: "limit_input \<Rightarrow> string \<Rightarrow> limit_error + unit" where
  "validate_config i status =
     (case metric_map (li_target_run_type i) (li_metric_type i) of
        None \<Rightarrow> Inl (LimitError ''metric selector'')
      | Some spec \<Rightarrow>
        bindR (validate_dimensional_config i) (\<lambda>_.
        if li_unit i \<noteq> ms_unit spec then Inl (LimitError ''threshold_unit'')
        else if ms_requires_benchmark spec \<and> \<not> truthy (li_benchmark_id i) then Inl (LimitError ''benchmark required'')
        else if \<not> ms_requires_benchmark spec \<and> truthy (li_benchmark_id i) then Inl (LimitError ''no benchmark'')
        else if li_direction i \<notin> {''ABOVE'', ''BELOW''} then Inl (LimitError ''breach_direction'')
        else if li_kind i \<notin> {''HARD'', ''SOFT''} then Inl (LimitError ''limit_kind'')
        else if status \<notin> {''DRAFT'', ''ACTIVE'', ''SUSPENDED''} then Inl (LimitError ''status'')
        else check_positive (li_threshold i)))"

text \<open>The table's CHECK constraints on a limit row (\<open>LimitDefinition.__table_args__\<close>).\<close>

definition limit_checks :: "limit_definition \<Rightarrow> bool" where
  "limit_checks l \<longleftrightarrow>
     ((ld_target_run_type l = ''CONCENTRATION'' \<and> ld_dimension_kind l \<noteq> None \<and> ld_denominator_basis l \<noteq> None)
      \<or> (ld_target_run_type l \<noteq> ''CONCENTRATION'' \<and> ld_dimension_kind l = None \<and> ld_bucket_code l = None \<and>
         ld_issuer_id l = None \<and> ld_scheme_family l = None \<and> ld_authored_scheme_id l = None \<and>
         ld_denominator_basis l = None)) \<and>
     (ld_issuer_id l = None \<or> ld_dimension_kind l = Some ''ISSUER'') \<and>
     (ld_dimension_kind l = None \<or>
        (ld_dimension_kind l \<in> {Some ''SECTOR_INDUSTRY'', Some ''COUNTRY_OF_RISK''}) = (ld_scheme_family l \<noteq> None)) \<and>
     (ld_denominator_basis l = None \<or> ld_denominator_basis l = Some ''INVESTED_LONG'') \<and>
     (ld_dimension_kind l = None \<or> list_ex (\<lambda>d. ld_dimension_kind l = Some d) concentration_dimension_kinds)"

section \<open>The breach predicate\<close>

definition breach_condition :: "decimal \<Rightarrow> decimal \<Rightarrow> string \<Rightarrow> limit_error + bool" where
  "breach_condition observed threshold direction =
     (if direction = ''ABOVE'' then
        (case dec_less threshold observed of None \<Rightarrow> Inl RawInvalidOperation | Some b \<Rightarrow> Inr b)
      else if direction = ''BELOW'' then
        (case dec_less observed threshold of None \<Rightarrow> Inl RawInvalidOperation | Some b \<Rightarrow> Inr b)
      else Inl (LimitError ''breach_direction''))"

section \<open>The resolvers\<close>

record resolution =
  rs_run_id :: "string option"
  rs_observed :: "decimal option"
  rs_scheme_id :: "string option"
  rs_refusal :: "string option"

definition nothing_found :: resolution where
  "nothing_found = \<lparr>rs_run_id = None, rs_observed = None, rs_scheme_id = None, rs_refusal = None\<rparr>"

definition is_resolved :: "resolution \<Rightarrow> bool" where
  "is_resolved r \<longleftrightarrow> rs_run_id r \<noteq> None \<and> rs_observed r \<noteq> None \<and> rs_refusal r = None"

definition latest_var_for_portfolio :: "'a gov_db_scheme \<Rightarrow> string \<Rightarrow> string \<Rightarrow> string \<Rightarrow> metric_row list" where
  "latest_var_for_portfolio db tenant pf mt =
     latest_run_rows mr_run (list_governed_results (calc_runs db) mr_run mr_tenant
       (\<lambda>r. [mr_metric_type r]) (var_results db) tenant
       (\<lambda>c r. run_scope_portfolio_id c = Some pf \<and> mr_metric_type r = mt) (Some ''VAR'') None)"

definition latest_active_risk_for_portfolio ::
  "'a gov_db_scheme \<Rightarrow> string \<Rightarrow> string \<Rightarrow> string option \<Rightarrow> metric_row list" where
  "latest_active_risk_for_portfolio db tenant pf bench =
     latest_run_rows mr_run (list_governed_results (calc_runs db) mr_run mr_tenant
       (\<lambda>r. [mr_metric_type r]) (active_risk_results db) tenant
       (\<lambda>c r. run_scope_portfolio_id c = Some pf \<and> opt_filter bench (\<lambda>b. mr_benchmark_id r = Some b))
       (Some ''ACTIVE_RISK'') None)"

definition latest_concentration :: "'a gov_db_scheme \<Rightarrow> string \<Rightarrow> string \<Rightarrow> bool \<Rightarrow> concentration_row list" where
  "latest_concentration db tenant pf issuer_detail =
     latest_run_rows cr_run (filter (\<lambda>r. issuer_detail \<or>
          \<not> (cr_dimension_kind r = ''ISSUER'' \<and> cr_row_kind r = ''DETAIL''))
       (list_governed_results (calc_runs db) cr_run cr_tenant
          (\<lambda>r. [cr_dimension_kind r, cr_row_kind r, cr_metric_type r, cr_bucket_code r])
          (concentration_results db) tenant (\<lambda>c r. cr_portfolio_id r = pf) (Some ''CONCENTRATION'') None))"

definition first_matching :: "metric_row list \<Rightarrow> limit_definition \<Rightarrow> resolution" where
  "first_matching rows l =
     (case filter (\<lambda>r. mr_metric_type r = ld_metric_type l) rows of
        [] \<Rightarrow> nothing_found
      | r # _ \<Rightarrow> nothing_found\<lparr>rs_run_id := Some (mr_run r), rs_observed := Some (mr_value r)\<rparr>)"

definition row_column :: "result_column \<Rightarrow> concentration_row \<Rightarrow> limit_error + decimal" where
  "row_column col r =
     (case (if col = Share_invested_long then cr_share_invested_long r else cr_metric_value r) of
        None \<Rightarrow> Inl MissingValue | Some d \<Rightarrow> Inr d)"

text \<open>The inner \<open>_refused_or\<close>: the evaluation-time half of the basis discipline.\<close>

definition refused_or :: "limit_definition \<Rightarrow> concentration_row \<Rightarrow> decimal \<Rightarrow> resolution" where
  "refused_or l row observed =
     (if Some (cr_denominator_basis row) \<noteq> ld_denominator_basis l then
        nothing_found\<lparr>rs_refusal := Some ''basis mismatch''\<rparr>
      else nothing_found\<lparr>rs_run_id := Some (cr_run row), rs_observed := Some observed,
             rs_scheme_id := (if truthy (cr_scheme_id row) then cr_scheme_id row else None)\<rparr>)"

definition resolve_concentration ::
  "'a gov_db_scheme \<Rightarrow> limit_definition \<Rightarrow> metric_spec \<Rightarrow> limit_error + resolution" where
  "resolve_concentration db l spec =
     (case filter (\<lambda>r. Some (cr_dimension_kind r) = ld_dimension_kind l)
             (latest_concentration db (ld_tenant l) (ld_scope_portfolio_id l) True) of
        [] \<Rightarrow> Inr nothing_found
      | first # others \<Rightarrow>
        let rows = first # others in
        (case ld_bucket_code l of
           None \<Rightarrow>
             (case filter (\<lambda>r. cr_metric_type r = ld_metric_type l) rows of
                [] \<Rightarrow> Inr nothing_found
              | s # _ \<Rightarrow> bindR (row_column (ms_column spec) s) (\<lambda>v. Inr (refused_or l s v)))
         | Some bucket \<Rightarrow>
             (case filter (\<lambda>r. cr_row_kind r = ''DETAIL'' \<and> cr_bucket_code r = bucket) rows of
                n # _ \<Rightarrow> bindR (row_column (ms_column spec) n) (\<lambda>v. Inr (refused_or l n v))
              | [] \<Rightarrow>
                if ld_dimension_kind l = Some ''ISSUER'' then Inr (refused_or l first (Fin 0 0))
                else
                (case filter (\<lambda>r. truthy (cr_scheme_id r)) rows of
                   [] \<Rightarrow> Inr (nothing_found\<lparr>rs_refusal := Some ''no scheme recorded''\<rparr>)
                 | sr # _ \<Rightarrow>
                   (case resolve_node (class_nodes db) (the (cr_scheme_id sr)) bucket (ld_tenant l) of
                      Inl NodeNotVisible \<Rightarrow> Inr (nothing_found\<lparr>rs_refusal := Some ''not a node of the scheme''\<rparr>)
                    | Inl e \<Rightarrow> Inl (ClassificationFailed e)
                    | Inr node \<Rightarrow>
                      if cn_level node \<noteq> 1 then
                        (case resolve_ancestors (class_nodes db) node (ld_tenant l) of
                           Inl e \<Rightarrow> Inl (ClassificationFailed e)
                         | Inr ps \<Rightarrow> Inr (nothing_found\<lparr>rs_refusal := Some ''not a level-1 node''\<rparr>))
                      else Inr (refused_or l first (Fin 0 0)))))))"

definition resolve_latest :: "'a gov_db_scheme \<Rightarrow> limit_definition \<Rightarrow> limit_error + resolution" where
  "resolve_latest db l =
     (case metric_map (ld_target_run_type l) (ld_metric_type l) of
        None \<Rightarrow> Inl (LimitError ''not a metric'')
      | Some spec \<Rightarrow>
        if ms_unit spec \<noteq> ld_unit l then Inl (LimitError ''unit drift'')
        else if ld_target_run_type l = ''VAR'' then
          Inr (first_matching (latest_var_for_portfolio db (ld_tenant l) (ld_scope_portfolio_id l) (ld_metric_type l)) l)
        else if ld_target_run_type l = ''ACTIVE_RISK'' then
          Inr (first_matching (latest_active_risk_for_portfolio db (ld_tenant l) (ld_scope_portfolio_id l)
                 (ld_benchmark_id l)) l)
        else if ld_target_run_type l = ''CONCENTRATION'' then resolve_concentration db l spec
        else Inl (LimitError ''no resolver''))"

end
