(* ===== verification/Breach_Lifecycle.thy ===== *)
theory Breach_Lifecycle
  imports Limit_Model
begin

text \<open>
  The breach remediation lifecycle of \<open>limit/lifecycle.py\<close>: the transition table, the
  operations of the two lines of defence, the automatic escalation, and the queue reads. Every
  operation runs under the row lock of its breach, so it is one step of the model.
\<close>

datatype breach_error =
    IllegalTransition breach_state breach_action_type
  | BreachNotFound
  | NotHuman
  | NoNarrative
  | NoEvidence
  | InvalidOutcome string
  | AssigneeOnAccept
  | NoCurrentResponse
  | NoSla string
  | StaleSeq int int
  | SodViolation string
  | BadAssignee
  | UnknownState string
  | DuplicateSeq
  | EscalationDedup

section \<open>The transition table\<close>

definition resolve_to_state ::
  "breach_state \<Rightarrow> breach_action_type \<Rightarrow> string option \<Rightarrow> breach_error + breach_state" where
  "resolve_to_state from act outc =
     (if act = ASSIGN \<and> from = DETECTED then Inr ASSIGNED
      else if act = RESPONSE_1L \<and> from \<in> {ASSIGNED, ESCALATED} then Inr RESPONDED
      else if act = ESCALATE \<and> from \<in> {ASSIGNED, RESPONDED} then Inr ESCALATED
      else if act = REVIEW_2L \<and> from \<in> {RESPONDED, ESCALATED} then
        Inr (if outc = Some ''ACCEPT'' then REVIEWED else ASSIGNED)
      else if act = CLOSE \<and> from = REVIEWED then Inr CLOSED
      else Inl (IllegalTransition from act))"

section \<open>Reads under the lock\<close>

definition action_rows :: "string \<Rightarrow> string \<Rightarrow> 'a limit_db_scheme \<Rightarrow> breach_action list" where
  "action_rows bid tenant db =
     filter (\<lambda>a. ba_breach a = bid \<and> ba_tenant a = tenant) (breach_actions db)"

definition lock_breach :: "'a limit_db_scheme \<Rightarrow> string \<Rightarrow> string \<Rightarrow> breach_error + breach" where
  "lock_breach db bid tenant =
     (case one_or_none (filter (\<lambda>b. br_id b = bid \<and> br_tenant b = tenant) (breaches db)) of
        None \<Rightarrow> Inl BreachNotFound | Some b \<Rightarrow> Inr b)"

definition current_breach_state :: "'a limit_db_scheme \<Rightarrow> string \<Rightarrow> string \<Rightarrow> breach_state" where
  "current_breach_state db bid tenant =
     (case latest_by ba_seq (action_rows bid tenant db) of None \<Rightarrow> DETECTED | Some a \<Rightarrow> ba_to a)"

definition governing_assign ::
  "'a limit_db_scheme \<Rightarrow> string \<Rightarrow> string \<Rightarrow> breach_action option" where
  "governing_assign db bid tenant =
     latest_by ba_seq (filter (\<lambda>a. ba_to a = ASSIGNED) (action_rows bid tenant db))"

definition prior_1l_responders :: "'a limit_db_scheme \<Rightarrow> string \<Rightarrow> string \<Rightarrow> string set" where
  "prior_1l_responders db bid tenant =
     set (map ba_actor (filter (\<lambda>a. ba_type a = RESPONSE_1L) (action_rows bid tenant db)))"

definition seq_after :: "(string \<times> string) \<Rightarrow> breach_action list \<Rightarrow> int" where
  "seq_after k rows =
     (case max_key ba_seq (filter (\<lambda>a. (ba_breach a, ba_tenant a) = k) rows) of
        None \<Rightarrow> 0 | Some m \<Rightarrow> m) + 1"

definition next_seq_of :: "'a limit_db_scheme \<Rightarrow> string \<Rightarrow> string \<Rightarrow> int" where
  "next_seq_of db bid tenant = seq_after (bid, tenant) (breach_actions db)"

definition check_expected_seq :: "'a limit_db_scheme \<Rightarrow> breach \<Rightarrow> int option \<Rightarrow> breach_error + unit" where
  "check_expected_seq db b expected =
     (case expected of
        None \<Rightarrow> Inr ()
      | Some n \<Rightarrow>
          let current = next_seq_of db (br_id b) (br_tenant b) - 1
          in if current \<noteq> n then Inl (StaleSeq n current) else Inr ())"

definition require_current_epoch_response ::
  "'a limit_db_scheme \<Rightarrow> breach \<Rightarrow> breach_error + unit" where
  "require_current_epoch_response db b =
     (let governing_seq = (case governing_assign db (br_id b) (br_tenant b) of
            None \<Rightarrow> 0 | Some g \<Rightarrow> ba_seq g);
          latest_response = max_key ba_seq
            (filter (\<lambda>a. ba_type a = RESPONSE_1L) (action_rows (br_id b) (br_tenant b) db))
      in case latest_response of
           None \<Rightarrow> Inl NoCurrentResponse
         | Some r \<Rightarrow> if r \<le> governing_seq then Inl NoCurrentResponse else Inr ())"

definition resolve_assignee ::
  "'a limit_db_scheme \<Rightarrow> string \<Rightarrow> string \<Rightarrow> breach_error + string" where
  "resolve_assignee db tenant name =
     (if name = [] \<or> py_strip name = [] then Inl BadAssignee
      else let canonical = canonical_actor_id (py_strip name)
           in if parse_uuid canonical = None then Inl BadAssignee
              else if \<not> list_ex (\<lambda>u. user_id u = canonical \<and> user_tenant u = tenant \<and> user_active u)
                        (app_users db)
                   then Inl BadAssignee
              else Inr canonical)"

section \<open>Appending\<close>

definition record_breach_action_event ::
  "env \<Rightarrow> breach \<Rightarrow> breach_action \<Rightarrow> 'a limit_db_scheme \<Rightarrow> 'a limit_db_scheme" where
  "record_breach_action_event E b a db =
     log_event E
       (event_call (action_event (ba_type a)) (br_tenant b)
          (if ba_line a = ''SYS'' then ''SYSTEM'' else ''user'') (ba_actor a) ''limit'' ''record''
        \<lparr>entity_type := Some ''breach_action'', entity_id := Some (ba_id a),
         severity := (if ba_type a = ESCALATE then ''warning'' else ''info''),
         after_value := Some (JObj [
           (''breach_id'', JStr (ba_breach a)),
           (''seq'', JInt (ba_seq a)),
           (''action_type'', JStr (action_text (ba_type a))),
           (''from_state'', JStr (state_text (ba_from a))),
           (''to_state'', JStr (state_text (ba_to a))),
           (''actor_line'', JStr (ba_line a)),
           (''assigned_to'', opt_str (ba_assigned_to a)),
           (''response_due'', opt_str (map_option isoformat (ba_response_due a))),
           (''epoch_seq'', case ba_epoch_seq a of None \<Rightarrow> JNull | Some n \<Rightarrow> JInt n),
           (''review_outcome'', opt_str (ba_review_outcome a)),
           (''evidence_ref'', opt_str (ba_evidence_ref a))])\<rparr>)
       None db"

text \<open>
  The unique constraints of the table: \<open>uq_breach_action_seq\<close> on the breach and the number, and
  \<open>uq_breach_escalation\<close> on the breach and the epoch of an escalation.
\<close>

definition action_conflict :: "breach_action list \<Rightarrow> breach_action \<Rightarrow> breach_error option" where
  "action_conflict rows a =
     (if list_ex (\<lambda>r. ba_breach r = ba_breach a \<and> ba_seq r = ba_seq a) rows then Some DuplicateSeq
      else if ba_type a = ESCALATE \<and> ba_epoch_seq a \<noteq> None \<and>
          list_ex (\<lambda>r. ba_breach r = ba_breach a \<and> ba_type r = ESCALATE \<and>
            ba_epoch_seq r = ba_epoch_seq a) rows then Some EscalationDedup
      else None)"

text \<open>
  \<open>_insert_action\<close>: the caller gives the row without the columns the table computes (id,
  tenant, breach, number), as the keyword arguments of the code do.
\<close>

definition insert_action ::
  "env \<Rightarrow> breach \<Rightarrow> breach_action \<Rightarrow> 'a limit_db_scheme
     \<Rightarrow> breach_error + ('a limit_db_scheme \<times> breach_action)" where
  "insert_action E b row db =
     (let a = row\<lparr>ba_id := uuid E ''breach_action'' (length (breach_actions db)),
                  ba_tenant := br_tenant b, ba_breach := br_id b,
                  ba_seq := next_seq_of db (br_id b) (br_tenant b)\<rparr>
      in case action_conflict (breach_actions db) a of
           Some e \<Rightarrow> Inl e
         | None \<Rightarrow> Inr (record_breach_action_event E b a
                     (db\<lparr>breach_actions := breach_actions db @ [a]\<rparr>), a))"

text \<open>The keyword defaults of \<open>_insert_action\<close>.\<close>

definition action_row ::
  "breach_action_type \<Rightarrow> breach_state \<Rightarrow> breach_state \<Rightarrow> string \<Rightarrow> string \<Rightarrow> pydatetime
     \<Rightarrow> breach_action" where
  "action_row ty from to who line now = \<lparr>
     ba_id = [], ba_tenant = [], ba_breach = [], ba_seq = 0, ba_type = ty, ba_from = from,
     ba_to = to, ba_actor = who, ba_line = line, ba_assigned_to = None, ba_response_due = None,
     ba_epoch_seq = None, ba_narrative = None, ba_review_outcome = None, ba_evidence_ref = None,
     ba_occurred_at = now\<rparr>"

definition require_human :: "actor \<Rightarrow> breach_error + unit" where
  "require_human who = (if act_type who \<noteq> ''user'' then Inl NotHuman else Inr ())"

definition sla_due :: "breach \<Rightarrow> pydatetime \<Rightarrow> breach_error + pydatetime" where
  "sla_due b now = (case sla_days (br_kind b) of
     None \<Rightarrow> Inl (NoSla (br_kind b)) | Some d \<Rightarrow> Inr (plus_days now d))"

section \<open>The operations\<close>

definition assign_breach ::
  "env \<Rightarrow> breach \<Rightarrow> string \<Rightarrow> actor \<Rightarrow> pydatetime \<Rightarrow> int option \<Rightarrow> 'a limit_db_scheme
     \<Rightarrow> breach_error + ('a limit_db_scheme \<times> breach_action)" where
  "assign_breach E b name who now expected db =
     bindR (require_human who) (\<lambda>_.
     bindR (lock_breach db (br_id b) (br_tenant b)) (\<lambda>locked.
     bindR (check_expected_seq db locked expected) (\<lambda>_.
     bindR (resolve_assignee db (br_tenant locked) name) (\<lambda>resolved.
     let st = current_breach_state db (br_id locked) (br_tenant locked) in
     bindR (resolve_to_state st ASSIGN None) (\<lambda>to.
     bindR (sla_due locked now) (\<lambda>due.
     insert_action E locked
       ((action_row ASSIGN st to (act_id who) ''2L'' now)
          \<lparr>ba_assigned_to := Some resolved, ba_response_due := Some due\<rparr>) db))))))"

definition respond_breach ::
  "env \<Rightarrow> breach \<Rightarrow> string \<Rightarrow> actor \<Rightarrow> pydatetime \<Rightarrow> int option \<Rightarrow> 'a limit_db_scheme
     \<Rightarrow> breach_error + ('a limit_db_scheme \<times> breach_action)" where
  "respond_breach E b narr who now expected db =
     bindR (require_human who) (\<lambda>_.
     if narr = [] \<or> py_strip narr = [] then Inl NoNarrative else
     bindR (lock_breach db (br_id b) (br_tenant b)) (\<lambda>locked.
     bindR (check_expected_seq db locked expected) (\<lambda>_.
     let st = current_breach_state db (br_id locked) (br_tenant locked) in
     bindR (resolve_to_state st RESPONSE_1L None) (\<lambda>to.
     insert_action E locked
       ((action_row RESPONSE_1L st to (act_id who) ''1L'' now)\<lparr>ba_narrative := Some narr\<rparr>) db))))"

text \<open>The owner a rejected review hands the breach to.\<close>

definition carried_assignee ::
  "'a limit_db_scheme \<Rightarrow> breach \<Rightarrow> breach_state \<Rightarrow> string option \<Rightarrow> breach_error + string option" where
  "carried_assignee db locked to name =
     (if to = ASSIGNED then
        (case name of
           Some s \<Rightarrow> bindR (resolve_assignee db (br_tenant locked) s) (\<lambda>r. Inr (Some r))
         | None \<Rightarrow> Inr (case governing_assign db (br_id locked) (br_tenant locked) of
                         None \<Rightarrow> None | Some g \<Rightarrow> ba_assigned_to g))
      else Inr None)"

definition review_breach ::
  "env \<Rightarrow> breach \<Rightarrow> string \<Rightarrow> actor \<Rightarrow> pydatetime \<Rightarrow> string option \<Rightarrow> string option \<Rightarrow> int option
     \<Rightarrow> 'a limit_db_scheme \<Rightarrow> breach_error + ('a limit_db_scheme \<times> breach_action)" where
  "review_breach E b outc who now narr name expected db =
     bindR (require_human who) (\<lambda>_.
     if outc \<notin> {''ACCEPT'', ''REJECT''} then Inl (InvalidOutcome outc) else
     if name \<noteq> None \<and> outc \<noteq> ''REJECT'' then Inl AssigneeOnAccept else
     bindR (lock_breach db (br_id b) (br_tenant b)) (\<lambda>locked.
     bindR (check_expected_seq db locked expected) (\<lambda>_.
     if act_id who \<in> prior_1l_responders db (br_id locked) (br_tenant locked)
     then Inl (SodViolation (act_id who)) else
     bindR (require_current_epoch_response db locked) (\<lambda>_.
     let st = current_breach_state db (br_id locked) (br_tenant locked) in
     bindR (resolve_to_state st REVIEW_2L (Some outc)) (\<lambda>to.
     bindR (if to = ASSIGNED then bindR (sla_due locked now) (\<lambda>d. Inr (Some d)) else Inr None) (\<lambda>due.
     bindR (carried_assignee db locked to name) (\<lambda>owner.
     insert_action E locked
       ((action_row REVIEW_2L st to (act_id who) ''2L'' now)
          \<lparr>ba_review_outcome := Some outc, ba_narrative := narr, ba_response_due := due,
           ba_assigned_to := owner\<rparr>) db)))))))"

definition close_breach ::
  "env \<Rightarrow> breach \<Rightarrow> string \<Rightarrow> actor \<Rightarrow> pydatetime \<Rightarrow> string option \<Rightarrow> int option
     \<Rightarrow> 'a limit_db_scheme \<Rightarrow> breach_error + ('a limit_db_scheme \<times> breach_action)" where
  "close_breach E b evid who now narr expected db =
     bindR (require_human who) (\<lambda>_.
     if evid = [] \<or> py_strip evid = [] then Inl NoEvidence else
     bindR (lock_breach db (br_id b) (br_tenant b)) (\<lambda>locked.
     bindR (check_expected_seq db locked expected) (\<lambda>_.
     if act_id who \<in> prior_1l_responders db (br_id locked) (br_tenant locked)
     then Inl (SodViolation (act_id who)) else
     let st = current_breach_state db (br_id locked) (br_tenant locked) in
     bindR (resolve_to_state st CLOSE None) (\<lambda>to.
     insert_action E locked
       ((action_row CLOSE st to (act_id who) ''2L'' now)
          \<lparr>ba_evidence_ref := Some evid, ba_narrative := narr\<rparr>) db))))"

definition escalate_overdue_breach ::
  "env \<Rightarrow> breach \<Rightarrow> pydatetime \<Rightarrow> 'a limit_db_scheme
     \<Rightarrow> breach_error + ('a limit_db_scheme \<times> breach_action option)" where
  "escalate_overdue_breach E b now db =
     bindR (lock_breach db (br_id b) (br_tenant b)) (\<lambda>locked.
     let now_utc = as_utc now;
         st = current_breach_state db (br_id locked) (br_tenant locked) in
     if st \<notin> {ASSIGNED, RESPONDED} then Inr (db, None) else
     case governing_assign db (br_id locked) (br_tenant locked) of
       None \<Rightarrow> Inr (db, None)
     | Some g \<Rightarrow>
       (case map_option as_utc (ba_response_due g) of
          None \<Rightarrow> Inr (db, None)
        | Some due \<Rightarrow>
          if utc_of now_utc \<le> utc_of due then Inr (db, None) else
          bindR (insert_action E locked
            ((action_row ESCALATE st ESCALATED (''breach-deadline:'' @ br_id locked) ''SYS'' now_utc)
               \<lparr>ba_response_due := Some due, ba_epoch_seq := Some (ba_seq g)\<rparr>) db)
            (\<lambda>r. Inr (fst r, Some (snd r)))))"

section \<open>Reads\<close>

definition get_breach ::
  "'a limit_db_scheme \<Rightarrow> string \<Rightarrow> string \<Rightarrow> bool \<Rightarrow> breach option" where
  "get_breach db tenant bid detail =
     one_or_none (filter (\<lambda>b. br_id b = bid \<and> br_tenant b = tenant \<and> (detail \<or> br_issuer_id b = None))
       (breaches db))"

definition breach_action_timeline :: "'a limit_db_scheme \<Rightarrow> string \<Rightarrow> string \<Rightarrow> breach_action list" where
  "breach_action_timeline db tenant bid = sort_key ba_seq (action_rows bid tenant db)"

definition effective_due :: "breach_state \<Rightarrow> pydatetime option \<Rightarrow> pydatetime option" where
  "effective_due st due = (if st \<in> {REVIEWED, CLOSED} then None else due)"

record breach_queue_item =
  qi_breach :: breach
  qi_state :: breach_state
  qi_assigned_to :: "string option"
  qi_response_due :: "pydatetime option"
  qi_scope_portfolio_id :: string
  qi_limit_code :: string
  qi_seq :: int

definition breach_detail ::
  "'a limit_db_scheme \<Rightarrow> string \<Rightarrow> string \<Rightarrow> bool \<Rightarrow> breach_queue_item option" where
  "breach_detail db tenant bid detail =
     (case get_breach db tenant bid detail of
        None \<Rightarrow> None
      | Some b \<Rightarrow>
        let st = current_breach_state db (br_id b) tenant;
            governing = governing_assign db (br_id b) tenant
        in case one_or_none (filter (\<lambda>l. ld_id l = br_limit_id b \<and> ld_tenant l = tenant)
                  (limit_definitions db)) of
             None \<Rightarrow> None
           | Some parent \<Rightarrow> Some \<lparr>
               qi_breach = b, qi_state = st,
               qi_assigned_to = (case governing of None \<Rightarrow> None | Some g \<Rightarrow> ba_assigned_to g),
               qi_response_due = effective_due st
                 (case governing of None \<Rightarrow> None | Some g \<Rightarrow> ba_response_due g),
               qi_scope_portfolio_id = ld_scope_portfolio_id parent,
               qi_limit_code = ld_code parent,
               qi_seq = next_seq_of db (br_id b) tenant - 1\<rparr>)"

text \<open>
  The joins of the queue query: \<open>max_seq\<close> is the grouped maximum over the tenant's actions of a
  breach, and the outer join on it finds the rows that carry it.
\<close>

definition max_seq :: "'a limit_db_scheme \<Rightarrow> string \<Rightarrow> (breach_action \<Rightarrow> bool) \<Rightarrow> string \<Rightarrow> int option" where
  "max_seq db tenant P bid =
     max_key ba_seq (filter (\<lambda>a. ba_tenant a = tenant \<and> P a \<and> ba_breach a = bid) (breach_actions db))"

definition outer_join ::
  "'a limit_db_scheme \<Rightarrow> string \<Rightarrow> string \<Rightarrow> int option \<Rightarrow> breach_action option list" where
  "outer_join db tenant bid m =
     (case filter (\<lambda>a. ba_breach a = bid \<and> Some (ba_seq a) = m \<and> ba_tenant a = tenant)
             (breach_actions db) of
        [] \<Rightarrow> [None] | rs \<Rightarrow> map Some rs)"

definition queue_rows ::
  "'a limit_db_scheme \<Rightarrow> string
     \<Rightarrow> (breach \<times> limit_definition \<times> breach_action option \<times> breach_action option \<times> int) list" where
  "queue_rows db tenant =
     [(b, l, la, ga, case max_seq db tenant (\<lambda>a. True) (br_id b) of None \<Rightarrow> 0 | Some n \<Rightarrow> n).
        b \<leftarrow> breaches db, br_tenant b = tenant,
        l \<leftarrow> limit_definitions db, ld_id l = br_limit_id b \<and> ld_tenant l = tenant,
        la \<leftarrow> outer_join db tenant (br_id b) (max_seq db tenant (\<lambda>a. True) (br_id b)),
        ga \<leftarrow> outer_join db tenant (br_id b) (max_seq db tenant (\<lambda>a. ba_to a = ASSIGNED) (br_id b))]"

definition derived_state :: "breach_action option \<Rightarrow> breach_state" where
  "derived_state la = (case la of None \<Rightarrow> DETECTED | Some a \<Rightarrow> ba_to a)"

text \<open>\<open>ORDER BY detected_at DESC, id\<close>: a stable sort by id, then one by descending instant.\<close>

definition queue_order :: "('x \<Rightarrow> breach) \<Rightarrow> 'x list \<Rightarrow> 'x list" where
  "queue_order f xs = sort_key (\<lambda>x. - utc_of (br_detected_at (f x))) (sort_key (\<lambda>x. br_id (f x)) xs)"

definition list_breaches ::
  "'a limit_db_scheme \<Rightarrow> string \<Rightarrow> string option \<Rightarrow> bool \<Rightarrow> string option \<Rightarrow> string option
     \<Rightarrow> nat \<Rightarrow> nat \<Rightarrow> bool \<Rightarrow> breach_error + breach_queue_item list" where
  "list_breaches db tenant st open_only pf owner cnt offs detail =
     (if st \<noteq> None \<and> parse_state (the st) = None then Inl (UnknownState (the st))
      else Inr (map (\<lambda>(b, l, la, ga, n). \<lparr>
            qi_breach = b, qi_state = derived_state la,
            qi_assigned_to = (case ga of None \<Rightarrow> None | Some g \<Rightarrow> ba_assigned_to g),
            qi_response_due = effective_due (derived_state la)
              (case ga of None \<Rightarrow> None | Some g \<Rightarrow> ba_response_due g),
            qi_scope_portfolio_id = ld_scope_portfolio_id l, qi_limit_code = ld_code l,
            qi_seq = n\<rparr>)
        (take cnt (drop offs (queue_order fst (filter (\<lambda>(b, l, la, ga, n).
            (detail \<or> br_issuer_id b = None)
            \<and> opt_filter st (\<lambda>s. state_text (derived_state la) = s)
            \<and> (open_only \<longrightarrow> derived_state la \<noteq> CLOSED)
            \<and> opt_filter pf (\<lambda>p. ld_scope_portfolio_id l = p)
            \<and> opt_filter owner (\<lambda>ow. (case ga of None \<Rightarrow> None | Some g \<Rightarrow> ba_assigned_to g)
                = Some (canonical_actor_id ow)))
          (queue_rows db tenant)))))))"

definition select_overdue_breaches ::
  "'a limit_db_scheme \<Rightarrow> pydatetime \<Rightarrow> string \<Rightarrow> breach list" where
  "select_overdue_breaches db now tenant =
     sort_key br_id
       [b. b \<leftarrow> breaches db, br_tenant b = tenant,
           la \<leftarrow> outer_join db tenant (br_id b) (max_seq db tenant (\<lambda>a. True) (br_id b)),
           ga \<leftarrow> outer_join db tenant (br_id b) (max_seq db tenant (\<lambda>a. ba_to a = ASSIGNED) (br_id b)),
           derived_state la \<in> {ASSIGNED, RESPONDED} \<and>
           (case ga of None \<Rightarrow> False
            | Some g \<Rightarrow> (case ba_response_due g of None \<Rightarrow> False | Some due \<Rightarrow> utc_of due < utc_of now))]"

section \<open>The deadline phase of the worker (\<open>irp_worker/deadlines.py\<close>)\<close>

text \<open>
  Each candidate escalates in a transaction of its own: a raised error rolls that one back and
  the loop goes on with the next.
\<close>

fun escalate_each ::
  "env \<Rightarrow> pydatetime \<Rightarrow> breach list \<Rightarrow> 'a limit_db_scheme \<Rightarrow> 'a limit_db_scheme \<times> string list" where
  "escalate_each E now [] db = (db, [])"
| "escalate_each E now (b # bs) db =
     (case escalate_overdue_breach E b now db of
        Inl e \<Rightarrow> escalate_each E now bs db
      | Inr (db1, act) \<Rightarrow>
          let (db2, escalated) = escalate_each E now bs db1
          in (db2, (if act = None then escalated else br_id b # escalated)))"

definition poll_tenant_breach_deadlines ::
  "env \<Rightarrow> pydatetime \<Rightarrow> string \<Rightarrow> 'a limit_db_scheme \<Rightarrow> 'a limit_db_scheme \<times> string list" where
  "poll_tenant_breach_deadlines E now tenant db =
     escalate_each E now (select_overdue_breaches db now tenant) db"

section \<open>The log of actions\<close>

lemma max_key_None [simp]: "max_key f xs = None \<longleftrightarrow> xs = []"
  by (simp add: max_key_def)

lemma max_key_Nil [simp]: "max_key f [] = None"
  by (simp add: max_key_def)

interpretation actions: seq_log "\<lambda>a. (ba_breach a, ba_tenant a)" ba_seq seq_after
  by unfold_locales (simp add: seq_after_def split: option.splits)

lemma actions_of_key: "actions.of_key (bid, t) (breach_actions db) = action_rows bid t db"
  by (simp add: actions.of_key_def action_rows_def)

definition cur :: "breach_action list \<Rightarrow> breach_state" where
  "cur acts = (case latest_by ba_seq acts of None \<Rightarrow> DETECTED | Some a \<Rightarrow> ba_to a)"

definition epoch_start :: "breach_action list \<Rightarrow> breach_action option" where
  "epoch_start acts = latest_by ba_seq (filter (\<lambda>a. ba_to a = ASSIGNED) acts)"

definition responders :: "breach_action list \<Rightarrow> string set" where
  "responders acts = ba_actor ` {a \<in> set acts. ba_type a = RESPONSE_1L}"

lemma reads_of_rows:
  "current_breach_state db bid t = cur (action_rows bid t db)"
  "governing_assign db bid t = epoch_start (action_rows bid t db)"
  "prior_1l_responders db bid t = responders (action_rows bid t db)"
  by (auto simp: current_breach_state_def cur_def governing_assign_def epoch_start_def
      prior_1l_responders_def responders_def)

text \<open>What a new action must satisfy, given the actions before it.\<close>

definition fresh_response :: "breach_action list \<Rightarrow> bool" where
  "fresh_response prior \<longleftrightarrow> (\<exists>r\<in>set prior. ba_type r = RESPONSE_1L \<and>
     (\<forall>g\<in>set prior. ba_to g = ASSIGNED \<longrightarrow> ba_seq g < ba_seq r))"

definition move_ok :: "breach_action list \<Rightarrow> breach_action \<Rightarrow> bool" where
  "move_ok prior a \<longleftrightarrow>
     ba_from a = cur prior \<and>
     resolve_to_state (ba_from a) (ba_type a) (ba_review_outcome a) = Inr (ba_to a) \<and>
     (ba_type a \<in> {REVIEW_2L, CLOSE} \<longrightarrow> ba_actor a \<notin> responders prior) \<and>
     (ba_type a = REVIEW_2L \<longrightarrow> fresh_response prior) \<and>
     (if ba_type a = ESCALATE then \<exists>g. epoch_start prior = Some g \<and> ba_epoch_seq a = Some (ba_seq g)
      else ba_epoch_seq a = None)"

definition step_ok :: "breach_action list \<Rightarrow> breach_action \<Rightarrow> bool" where
  "step_ok prior a \<longleftrightarrow> ba_seq a = int (length prior) + 1 \<and> move_ok prior a"

definition trace_ok :: "breach_action list \<Rightarrow> bool" where
  "trace_ok acts \<longleftrightarrow> (\<forall>i<length acts. step_ok (take i acts) (acts ! i))"

lemma trace_ok_Nil [simp]: "trace_ok []"
  by (simp add: trace_ok_def)

lemma trace_ok_snoc [simp]: "trace_ok (acts @ [a]) \<longleftrightarrow> trace_ok acts \<and> step_ok acts a"
  by (auto simp: trace_ok_def nth_append less_Suc_eq)

section \<open>The invariant of the tables\<close>

definition well_linked :: "'a limit_db_scheme \<Rightarrow> bool" where
  "well_linked db \<longleftrightarrow> distinct (map br_id (breaches db)) \<and>
     (\<forall>a\<in>set (breach_actions db). \<exists>b\<in>set (breaches db). br_id b = ba_breach a \<and> br_tenant b = ba_tenant a)"

definition lifecycle_inv :: "'a limit_db_scheme \<Rightarrow> bool" where
  "lifecycle_inv db \<longleftrightarrow> well_linked db \<and> actions.numbered (breach_actions db) \<and>
     (\<forall>bid t. trace_ok (action_rows bid t db))"

lemma lock_breach_Inr:
  "lock_breach db bid t = Inr l \<Longrightarrow> l \<in> set (breaches db) \<and> br_id l = bid \<and> br_tenant l = t"
proof -
  assume "lock_breach db bid t = Inr l"
  then have "filter (\<lambda>b. br_id b = bid \<and> br_tenant b = t) (breaches db) = [l]"
    by (simp add: lock_breach_def one_or_none_Some split: option.splits)
  then have "l \<in> set (filter (\<lambda>b. br_id b = bid \<and> br_tenant b = t) (breaches db))" by simp
  then show ?thesis by simp
qed

lemma action_rows_append:
  "action_rows bid t (db\<lparr>breach_actions := breach_actions db @ [a]\<rparr>) =
     (if ba_breach a = bid \<and> ba_tenant a = t then action_rows bid t db @ [a] else action_rows bid t db)"
  by (simp add: action_rows_def)

lemma numbered_rows:
  "actions.numbered (breach_actions db) \<Longrightarrow>
     map ba_seq (action_rows bid t db) = map int [1..<Suc (length (action_rows bid t db))]"
  unfolding actions_of_key[symmetric] by (simp add: actions.numbered_def)

lemma next_seq_rows:
  "actions.numbered (breach_actions db) \<Longrightarrow>
     next_seq_of db bid t = int (length (action_rows bid t db)) + 1"
  unfolding actions_of_key[symmetric] next_seq_of_def by (rule actions.next_num_length)

lemma record_action_frame [row_simps]:
  "breach_actions (record_breach_action_event E b a db) = breach_actions db"
  "breaches (record_breach_action_event E b a db) = breaches db"
  "limit_definitions (record_breach_action_event E b a db) = limit_definitions db"
  "app_users (record_breach_action_event E b a db) = app_users db"
  by (simp_all add: record_breach_action_event_def row_simps)

lemma linked_tenant:
  assumes "well_linked db" "l \<in> set (breaches db)" "r \<in> set (breach_actions db)" "ba_breach r = br_id l"
  shows "ba_tenant r = br_tenant l"
proof -
  obtain b where b: "b \<in> set (breaches db)" "br_id b = ba_breach r" "br_tenant b = ba_tenant r"
    using assms(1,3) by (auto simp: well_linked_def)
  moreover have "inj_on br_id (set (breaches db))"
    using assms(1) by (simp add: well_linked_def distinct_map)
  ultimately have "b = l" using assms(2,4) by (auto dest: inj_onD)
  then show ?thesis using b(3) by simp
qed

lemma rows_of_breach:
  assumes "well_linked db" "l \<in> set (breaches db)"
  shows "r \<in> set (breach_actions db) \<and> ba_breach r = br_id l \<longleftrightarrow>
           r \<in> set (action_rows (br_id l) (br_tenant l) db)"
  using linked_tenant[OF assms] by (auto simp: action_rows_def)

lemma seq_bound:
  assumes "actions.numbered (breach_actions db)" "r \<in> set (action_rows bid t db)"
  shows "1 \<le> ba_seq r" "ba_seq r \<le> int (length (action_rows bid t db))"
proof -
  have "ba_seq r \<in> set (map ba_seq (action_rows bid t db))" using assms(2) by simp
  then show "1 \<le> ba_seq r" "ba_seq r \<le> int (length (action_rows bid t db))"
    unfolding numbered_rows[OF assms(1)] by auto
qed

lemma no_duplicate_seq:
  assumes "lifecycle_inv db" "l \<in> set (breaches db)"
  shows "insert_action E l row db \<noteq> Inl DuplicateSeq"
proof -
  have wl: "well_linked db" and num: "actions.numbered (breach_actions db)"
    using assms(1) by (simp_all add: lifecycle_inv_def)
  have "ba_seq r \<noteq> next_seq_of db (br_id l) (br_tenant l)"
    if "r \<in> set (breach_actions db)" "ba_breach r = br_id l" for r
    using that rows_of_breach[OF wl assms(2), of r] seq_bound(2)[OF num, of r] next_seq_rows[OF num]
    by force
  then show ?thesis
    by (auto simp: insert_action_def action_conflict_def Let_def list_ex_iff split: option.splits if_splits)
qed

lemma insert_action_Inr:
  assumes "insert_action E l row db = Inr (db', a)"
  shows "a = row\<lparr>ba_id := uuid E ''breach_action'' (length (breach_actions db)),
                  ba_tenant := br_tenant l, ba_breach := br_id l,
                  ba_seq := next_seq_of db (br_id l) (br_tenant l)\<rparr>"
    and "breach_actions db' = breach_actions db @ [a]" and "breaches db' = breaches db"
    and "limit_definitions db' = limit_definitions db" and "app_users db' = app_users db"
    and "action_conflict (breach_actions db) a = None"
    and "db' = record_breach_action_event E l a (db\<lparr>breach_actions := breach_actions db @ [a]\<rparr>)"
  using assms by (auto simp: insert_action_def Let_def row_simps split: option.splits)

lemma insert_action_rows:
  assumes "insert_action E l row db = Inr (db', a)"
  shows "action_rows bid t db' =
     (if bid = br_id l \<and> t = br_tenant l then action_rows bid t db @ [a] else action_rows bid t db)"
  using insert_action_Inr[OF assms] by (auto simp: action_rows_def)

lemma move_ok_update [simp]:
  "move_ok prior (a\<lparr>ba_id := i, ba_tenant := t, ba_breach := b, ba_seq := n\<rparr>) = move_ok prior a"
  by (simp add: move_ok_def)

lemma insert_action_inv:
  assumes "lifecycle_inv db" "l \<in> set (breaches db)"
    and "insert_action E l row db = Inr (db', a)"
    and "move_ok (action_rows (br_id l) (br_tenant l) db) row"
  shows "lifecycle_inv db'"
proof -
  note ins = insert_action_Inr[OF assms(3)]
  have wl: "well_linked db" and num: "actions.numbered (breach_actions db)"
    and tr: "\<And>bid t. trace_ok (action_rows bid t db)"
    using assms(1) by (simp_all add: lifecycle_inv_def)
  have "step_ok (action_rows (br_id l) (br_tenant l) db) a"
    using assms(4) by (simp add: step_ok_def ins(1) next_seq_rows[OF num])
  then have "trace_ok (action_rows bid t db')" for bid t
    using tr by (simp add: insert_action_rows[OF assms(3)])
  moreover have "actions.numbered (breach_actions db')"
    unfolding ins(2) by (rule actions.numbered_append[OF num]) (simp add: ins(1) next_seq_of_def)
  moreover have "well_linked db'"
    using wl assms(2) by (auto simp: well_linked_def ins(2,3)) (auto simp: ins(1))
  ultimately show ?thesis by (simp add: lifecycle_inv_def)
qed

section \<open>Every operation makes a permitted move\<close>

text \<open>The common shape of a successful operation.\<close>

definition performs ::
  "env \<Rightarrow> breach \<Rightarrow> breach_action_type \<Rightarrow> 'a limit_db_scheme \<Rightarrow> 'a limit_db_scheme \<Rightarrow> breach_action \<Rightarrow> bool" where
  "performs E b ty db db' a \<longleftrightarrow> (\<exists>l row. lock_breach db (br_id b) (br_tenant b) = Inr l \<and>
     insert_action E l row db = Inr (db', a) \<and> ba_type row = ty \<and>
     move_ok (action_rows (br_id l) (br_tenant l) db) row)"

lemma performsI:
  "lock_breach db (br_id b) (br_tenant b) = Inr l \<Longrightarrow> insert_action E l row db = Inr (db', a) \<Longrightarrow>
     ba_type row = ty \<Longrightarrow> move_ok (action_rows (br_id l) (br_tenant l) db) row \<Longrightarrow>
     performs E b ty db db' a"
  by (auto simp: performs_def)

lemma action_row_sel [simp]:
  "ba_type (action_row ty f t w l n) = ty" "ba_from (action_row ty f t w l n) = f"
  "ba_to (action_row ty f t w l n) = t" "ba_actor (action_row ty f t w l n) = w"
  "ba_line (action_row ty f t w l n) = l" "ba_epoch_seq (action_row ty f t w l n) = None"
  "ba_review_outcome (action_row ty f t w l n) = None" "ba_assigned_to (action_row ty f t w l n) = None"
  "ba_response_due (action_row ty f t w l n) = None" "ba_evidence_ref (action_row ty f t w l n) = None"
  by (simp_all add: action_row_def)

lemma assign_performs:
  assumes "assign_breach E b name who now expected db = Inr (db', a)"
  shows "performs E b ASSIGN db db' a"
  using assms unfolding assign_breach_def
  by (auto simp: res_simps Let_def reads_of_rows move_ok_def intro!: performsI)

lemma respond_performs:
  assumes "respond_breach E b narr who now expected db = Inr (db', a)"
  shows "performs E b RESPONSE_1L db db' a"
  using assms unfolding respond_breach_def
  by (auto simp: res_simps Let_def reads_of_rows move_ok_def split: if_splits intro!: performsI)

lemma close_performs:
  assumes "close_breach E b evid who now narr expected db = Inr (db', a)"
  shows "performs E b CLOSE db db' a"
  using assms unfolding close_breach_def
  by (auto simp: res_simps Let_def reads_of_rows move_ok_def split: if_splits intro!: performsI)

lemma current_response_fresh:
  assumes "actions.numbered (breach_actions db)"
    and "require_current_epoch_response db l = Inr ()"
  shows "fresh_response (action_rows (br_id l) (br_tenant l) db)"
proof -
  let ?rows = "action_rows (br_id l) (br_tenant l) db"
  let ?gov = "case epoch_start ?rows of None \<Rightarrow> 0 | Some g \<Rightarrow> ba_seq g"
  obtain r where r: "latest_by ba_seq (filter (\<lambda>a. ba_type a = RESPONSE_1L) ?rows) = Some r"
      "?gov < ba_seq r"
    using assms(2)
    by (auto simp: require_current_epoch_response_def Let_def max_key_def reads_of_rows
        split: option.splits if_splits)
  have in_rows: "r \<in> set ?rows" "ba_type r = RESPONSE_1L" using latest_by_in[OF r(1)] by auto
  have "ba_seq g < ba_seq r" if g: "g \<in> set ?rows" "ba_to g = ASSIGNED" for g
  proof -
    obtain e where e: "epoch_start ?rows = Some e"
      using g by (cases "epoch_start ?rows") (auto simp: epoch_start_def filter_empty_conv)
    have "ba_seq g \<le> ba_seq e"
      using e g latest_by_ge[of ba_seq "filter (\<lambda>a. ba_to a = ASSIGNED) ?rows" e g]
      unfolding epoch_start_def by simp
    then show ?thesis using r(2) e by simp
  qed
  then show ?thesis using in_rows by (auto simp: fresh_response_def)
qed

lemma review_performs:
  assumes "actions.numbered (breach_actions db)"
    and "review_breach E b outc who now narr name expected db = Inr (db', a)"
  shows "performs E b REVIEW_2L db db' a"
  using assms(2) current_response_fresh[OF assms(1)] unfolding review_breach_def
  by (auto simp: res_simps Let_def reads_of_rows move_ok_def split: if_splits intro!: performsI)

lemma escalate_performs:
  assumes "escalate_overdue_breach E b now db = Inr (db', Some a)"
  shows "performs E b ESCALATE db db' a"
  using assms unfolding escalate_overdue_breach_def
  by (auto simp: res_simps Let_def reads_of_rows move_ok_def resolve_to_state_def
      split: if_splits option.splits intro!: performsI)

lemma escalate_none:
  "escalate_overdue_breach E b now db = Inr (db', None) \<Longrightarrow> db' = db"
  unfolding escalate_overdue_breach_def
  by (auto simp: res_simps Let_def split: if_splits option.splits)

lemma performs_lock: "performs E b ty db db' a \<Longrightarrow> \<exists>l. l \<in> set (breaches db) \<and> br_id l = br_id b \<and> br_tenant l = br_tenant b"
  by (auto simp: performs_def dest!: lock_breach_Inr)

lemma performs_inv: "lifecycle_inv db \<Longrightarrow> performs E b ty db db' a \<Longrightarrow> lifecycle_inv db'"
  by (auto simp: performs_def dest: lock_breach_Inr intro: insert_action_inv)

lemma performs_rows:
  assumes "performs E b ty db db' a"
  shows "action_rows bid t db' =
    (if bid = br_id b \<and> t = br_tenant b then action_rows bid t db @ [a] else action_rows bid t db)"
    and "ba_type a = ty" and "breaches db' = breaches db"
proof -
  obtain l row where l: "lock_breach db (br_id b) (br_tenant b) = Inr l"
      "insert_action E l row db = Inr (db', a)" "ba_type row = ty"
    using assms by (auto simp: performs_def)
  note lock = lock_breach_Inr[OF l(1)]
  show "action_rows bid t db' =
    (if bid = br_id b \<and> t = br_tenant b then action_rows bid t db @ [a] else action_rows bid t db)"
    using insert_action_rows[OF l(2)] lock by simp
  show "ba_type a = ty" using insert_action_Inr(1)[OF l(2)] l(3) by simp
  show "breaches db' = breaches db" by (rule insert_action_Inr(3)[OF l(2)])
qed

section \<open>Histories\<close>

text \<open>
  The calls of the API and of the worker. Actor ids are the raw strings a caller presents; the
  actor is constructed from them. A call that raises rolls back, so it is no step.
\<close>

datatype breach_cmd =
    Assign breach string string string pydatetime "int option"
  | Respond breach string string string pydatetime "int option"
  | Review breach string string string pydatetime "string option" "string option" "int option"
  | Close breach string string string pydatetime "string option" "int option"
  | Escalate breach pydatetime

fun exec_breach :: "env \<Rightarrow> breach_cmd \<Rightarrow> 'a limit_db_scheme \<Rightarrow> breach_error + 'a limit_db_scheme" where
  "exec_breach E (Assign b name i t now expected) db =
     map_sum id fst (assign_breach E b name (breach_actor i t) now expected db)"
| "exec_breach E (Respond b narr i t now expected) db =
     map_sum id fst (respond_breach E b narr (breach_actor i t) now expected db)"
| "exec_breach E (Review b outc i t now narr name expected) db =
     map_sum id fst (review_breach E b outc (breach_actor i t) now narr name expected db)"
| "exec_breach E (Close b evid i t now narr expected) db =
     map_sum id fst (close_breach E b evid (breach_actor i t) now narr expected db)"
| "exec_breach E (Escalate b now) db = map_sum id fst (escalate_overdue_breach E b now db)"

text \<open>
  Between the calls a new breach may be detected under a fresh id, and the other tables may
  change in any way; nothing else writes the actions (the ORM refuses updates and deletes).
\<close>

inductive lifecycle_reachable :: "env \<Rightarrow> 'a limit_db_scheme \<Rightarrow> bool" for E where
  start: "breach_actions db = [] \<Longrightarrow> distinct (map br_id (breaches db)) \<Longrightarrow> lifecycle_reachable E db"
| call: "lifecycle_reachable E db \<Longrightarrow> exec_breach E c db = Inr db' \<Longrightarrow> lifecycle_reachable E db'"
| detect: "lifecycle_reachable E db \<Longrightarrow> br_id b \<notin> br_id ` set (breaches db) \<Longrightarrow>
     lifecycle_reachable E (db\<lparr>breaches := breaches db @ [b]\<rparr>)"
| other: "lifecycle_reachable E db \<Longrightarrow> breaches db' = breaches db \<Longrightarrow>
     breach_actions db' = breach_actions db \<Longrightarrow> lifecycle_reachable E db'"

lemma map_sum_Inr: "map_sum id f r = Inr y \<longleftrightarrow> (\<exists>x. r = Inr x \<and> f x = y)"
  by (cases r) auto

lemma map_sum_Inl: "map_sum id f r = Inl e \<longleftrightarrow> r = Inl e"
  by (cases r) auto

lemma filter_one: "filter P xs = [x] \<Longrightarrow> x \<in> set xs"
  by (metis filter_is_subset list.set_intros(1) subsetD)

fun cmd_breach :: "breach_cmd \<Rightarrow> breach" where
  "cmd_breach (Assign b name i t now expected) = b"
| "cmd_breach (Respond b narr i t now expected) = b"
| "cmd_breach (Review b outc i t now narr name expected) = b"
| "cmd_breach (Close b evid i t now narr expected) = b"
| "cmd_breach (Escalate b now) = b"

lemma exec_performs:
  assumes "actions.numbered (breach_actions db)" "exec_breach E c db = Inr db'"
  shows "db' = db \<or> (\<exists>ty a. performs E (cmd_breach c) ty db db' a)"
proof (cases c)
  case (Escalate b now)
  then obtain r where r: "escalate_overdue_breach E b now db = Inr (db', r)"
    using assms(2) by (auto simp: map_sum_Inr)
  show ?thesis
  proof (cases r)
    case None
    then show ?thesis using escalate_none r by blast
  next
    case (Some a)
    then show ?thesis using escalate_performs[of E b now db db' a] r Escalate by auto
  qed
qed (use assms in \<open>auto simp: map_sum_Inr dest: assign_performs respond_performs close_performs
      review_performs\<close>)

lemma lifecycle_inv_other:
  "lifecycle_inv db \<Longrightarrow> breaches db' = breaches db \<Longrightarrow> breach_actions db' = breach_actions db \<Longrightarrow>
     lifecycle_inv db'"
  by (simp add: lifecycle_inv_def well_linked_def action_rows_def)

lemma lifecycle_inv_detect:
  "lifecycle_inv db \<Longrightarrow> br_id b \<notin> br_id ` set (breaches db) \<Longrightarrow>
     lifecycle_inv (db\<lparr>breaches := breaches db @ [b]\<rparr>)"
  by (auto simp: lifecycle_inv_def well_linked_def action_rows_def)

lemma reachable_inv: "lifecycle_reachable E db \<Longrightarrow> lifecycle_inv db"
proof (induction rule: lifecycle_reachable.induct)
  case (start db)
  then show ?case
    by (simp add: lifecycle_inv_def well_linked_def action_rows_def actions.numbered_Nil)
next
  case (call db c db')
  then show ?case
  proof -
    have "actions.numbered (breach_actions db)" using call.IH by (simp add: lifecycle_inv_def)
    from exec_performs[OF this call.hyps(2)] show ?thesis using call.IH performs_inv by blast
  qed
next
  case (detect db b)
  then show ?case by (simp add: lifecycle_inv_detect)
next
  case (other db db')
  then show ?case using lifecycle_inv_other by blast
qed

lemma sort_key_counted:
  assumes "map f xs = map int [1..<Suc (length xs)]"
  shows "sort_key f xs = xs"
proof -
  have "sorted (map f xs)" unfolding assms by (simp add: sorted_map sorted_wrt_upt del: upt_Suc)
  then show ?thesis by (rule sort_key_id_if_sorted)
qed

lemma timeline_rows:
  "lifecycle_inv db \<Longrightarrow> breach_action_timeline db t bid = action_rows bid t db"
  unfolding breach_action_timeline_def lifecycle_inv_def
  by (rule sort_key_counted) (simp add: numbered_rows)

text \<open>In a numbered list the row with the largest number is the last one.\<close>

lemma latest_counted:
  assumes "map ba_seq (xs @ [a]) = map int [1..<Suc (length (xs @ [a]))]"
  shows "latest_by ba_seq (xs @ [a]) = Some a"
proof (rule latest_by_append_greater)
  fix x assume "x \<in> set xs"
  then have "ba_seq x \<in> set (map ba_seq xs)" by simp
  moreover have "map ba_seq xs = map int [1..<Suc (length xs)]" "ba_seq a = int (length xs) + 1"
    using assms by auto
  ultimately show "ba_seq x < ba_seq a" by auto
qed

lemma counted_take:
  assumes "map f xs = map int [1..<Suc (length xs)]" "i \<le> length xs"
  shows "map f (take i xs) = map int [1..<Suc (length (take i xs))]"
proof -
  have "map f (take i xs) = take i (map int [1..<Suc (length xs)])" by (simp only: take_map assms(1)[symmetric])
  also have "\<dots> = map int [1..<Suc i]" using assms(2) by (simp add: take_map take_upt del: upt_Suc)
  finally show ?thesis using assms(2) by (simp add: min_absorb2 del: upt_Suc)
qed

lemma cur_counted:
  assumes "map ba_seq acts = map int [1..<Suc (length acts)]"
  shows "cur acts = (if acts = [] then DETECTED else ba_to (last acts))"
proof (cases acts rule: rev_cases)
  case (snoc xs a)
  then show ?thesis using latest_counted[of xs a] assms by (simp add: cur_def del: upt_Suc)
qed (simp add: cur_def)

section \<open>Reading a history\<close>

lemma history:
  assumes "lifecycle_reachable E db" "acts = breach_action_timeline db t bid"
  shows "map ba_seq acts = map int [1..<Suc (length acts)]" and "trace_ok acts"
  using reachable_inv[OF assms(1)] timeline_rows[of db t bid] numbered_rows[of db bid t] assms(2)
  by (auto simp: lifecycle_inv_def simp del: upt_Suc)

lemma history_move:
  assumes "lifecycle_reachable E db" "acts = breach_action_timeline db t bid" "j < length acts"
  shows "move_ok (take j acts) (acts ! j)"
  using history(2)[OF assms(1,2)] assms(3) by (auto simp: trace_ok_def step_ok_def)

lemma nth_in_take: "m < k \<Longrightarrow> k \<le> length xs \<Longrightarrow> xs ! m \<in> set (take k xs)"
  by (auto simp: in_set_conv_nth)

lemma history_seq:
  assumes "lifecycle_reachable E db" "acts = breach_action_timeline db t bid" "j < length acts"
  shows "ba_seq (acts ! j) = int j + 1"
proof -
  have "ba_seq (acts ! j) = map ba_seq acts ! j" using assms(3) by simp
  then show ?thesis using assms(3) by (simp add: history(1)[OF assms(1,2)] del: upt_Suc)
qed

lemma history_cur:
  assumes "lifecycle_reachable E db" "acts = breach_action_timeline db t bid" "j \<le> length acts"
  shows "cur (take j acts) = (if j = 0 then DETECTED else ba_to (acts ! (j - 1)))"
proof -
  have "cur (take j acts) = (if take j acts = [] then DETECTED else ba_to (last (take j acts)))"
    by (rule cur_counted) (rule counted_take[OF history(1)[OF assms(1,2)] assms(3)])
  then show ?thesis using assms(3) by (auto simp: last_conv_nth min_absorb2)
qed

lemma list_all_upt: "(\<And>j. j < n \<Longrightarrow> P j) \<Longrightarrow> list_all P [0..<n]"
  by (simp add: list_all_iff)

text \<open>C4. The recorded history of every breach is numbered 1, 2, 3, ... without gaps and is a path of
  the transition table that starts at DETECTED and ends in the breach's current state.\<close>

theorem history_is_lifecycle_path:
  assumes "lifecycle_reachable E db" and "acts = breach_action_timeline db t bid"
  shows "map ba_seq acts = map int [1..<Suc (length acts)] \<and>
    list_all (\<lambda>j. ba_from (acts ! j) = (if j = 0 then DETECTED else ba_to (acts ! (j - 1))) \<and>
       resolve_to_state (ba_from (acts ! j)) (ba_type (acts ! j)) (ba_review_outcome (acts ! j))
         = Inr (ba_to (acts ! j))) [0..<length acts] \<and>
    current_breach_state db bid t = (if acts = [] then DETECTED else ba_to (last acts))"
proof (intro conjI)
  show "map ba_seq acts = map int [1..<Suc (length acts)]" by (rule history(1)[OF assms])
  show "list_all (\<lambda>j. ba_from (acts ! j) = (if j = 0 then DETECTED else ba_to (acts ! (j - 1))) \<and>
       resolve_to_state (ba_from (acts ! j)) (ba_type (acts ! j)) (ba_review_outcome (acts ! j))
         = Inr (ba_to (acts ! j))) [0..<length acts]"
  proof -
    have "ba_from (acts ! j) = (if j = 0 then DETECTED else ba_to (acts ! (j - 1))) \<and>
       resolve_to_state (ba_from (acts ! j)) (ba_type (acts ! j)) (ba_review_outcome (acts ! j))
         = Inr (ba_to (acts ! j))" if j: "j < length acts" for j
    proof -
      note mv = history_move[OF assms j, unfolded move_ok_def]
      show ?thesis using conjunct1[OF mv] conjunct1[OF conjunct2[OF mv]] history_cur[OF assms, of j] j
        by (intro conjI) (simp only: less_imp_le, assumption)
    qed
    then show ?thesis by (rule list_all_upt)
  qed
  have "acts = action_rows bid t db" using timeline_rows[OF reachable_inv[OF assms(1)]] assms(2) by simp
  then show "current_breach_state db bid t = (if acts = [] then DETECTED else ba_to (last acts))"
    using cur_counted[OF history(1)[OF assms]] by (simp add: reads_of_rows)
qed

text \<open>
  The database some way along a history: calls that returned, new breaches, and changes of the
  other tables, as in \<open>lifecycle_reachable\<close>.
\<close>

inductive lifecycle_later :: "env \<Rightarrow> 'a limit_db_scheme \<Rightarrow> 'a limit_db_scheme \<Rightarrow> bool" for E db where
  now: "lifecycle_later E db db"
| later_call: "lifecycle_later E db db1 \<Longrightarrow> exec_breach E c db1 = Inr db2 \<Longrightarrow> lifecycle_later E db db2"
| later_detect: "lifecycle_later E db db1 \<Longrightarrow> br_id b \<notin> br_id ` set (breaches db1) \<Longrightarrow>
     lifecycle_later E db (db1\<lparr>breaches := breaches db1 @ [b]\<rparr>)"
| later_other: "lifecycle_later E db db1 \<Longrightarrow> breaches db2 = breaches db1 \<Longrightarrow>
     breach_actions db2 = breach_actions db1 \<Longrightarrow> lifecycle_later E db db2"

lemma later_reachable:
  "lifecycle_later E db db' \<Longrightarrow> lifecycle_reachable E db \<Longrightarrow> lifecycle_reachable E db'"
proof (induction rule: lifecycle_later.induct)
  case (later_other db1 db2)
  then show ?case by (blast intro: lifecycle_reachable.other)
qed (blast intro: lifecycle_reachable.intros)+

lemma later_keeps_actions:
  assumes "lifecycle_later E db db'" "lifecycle_reachable E db"
  shows "set (action_rows bid t db) \<subseteq> set (action_rows bid t db')"
  using assms(1)
proof induction
  case (later_call db1 c db2)
  have "actions.numbered (breach_actions db1)"
    using reachable_inv[OF later_reachable[OF later_call.hyps(1) assms(2)]] by (simp add: lifecycle_inv_def)
  from exec_performs[OF this later_call.hyps(2)] show ?case
  proof
    assume "\<exists>ty a. performs E (cmd_breach c) ty db1 db2 a"
    then obtain ty a where a: "performs E (cmd_breach c) ty db1 db2 a" by blast
    show ?thesis using later_call.IH by (auto simp: performs_rows(1)[OF a])
  qed (use later_call.IH in simp)
next
  case (later_other db1 db2)
  then show ?case by (simp add: action_rows_def)
qed (simp_all add: action_rows_def)

lemma respond_records:
  assumes "respond_breach E b narr who now expected db = Inr (db', a)"
  shows "act_id who \<in> prior_1l_responders db' (br_id b) (br_tenant b)"
proof -
  have p: "performs E b RESPONSE_1L db db' a" by (rule respond_performs[OF assms])
  have "ba_actor a = act_id who"
    using assms unfolding respond_breach_def
    by (auto simp: res_simps Let_def split: if_splits dest!: insert_action_Inr(1))
  then show ?thesis
    using performs_rows(2)[OF p] by (auto simp: prior_1l_responders_def performs_rows(1)[OF p])
qed

lemma later_responders:
  assumes "lifecycle_later E db db'" "lifecycle_reachable E db" "u \<in> prior_1l_responders db bid t"
  shows "u \<in> prior_1l_responders db' bid t"
  using later_keeps_actions[OF assms(1,2), of bid t] assms(3) by (auto simp: prior_1l_responders_def)

lemma review_refused:
  assumes "act_id who \<in> prior_1l_responders db (br_id b) (br_tenant b)"
  shows "\<exists>e. review_breach E b outc who now narr name expected db = Inl e"
proof (cases "review_breach E b outc who now narr name expected db")
  case (Inr r)
  then show ?thesis
    using assms unfolding review_breach_def
    by (auto simp: res_simps Let_def split: if_splits dest!: lock_breach_Inr)
qed simp

lemma close_refused:
  assumes "act_id who \<in> prior_1l_responders db (br_id b) (br_tenant b)"
  shows "\<exists>e. close_breach E b evid who now narr expected db = Inl e"
proof (cases "close_breach E b evid who now narr expected db")
  case (Inr r)
  then show ?thesis
    using assms unfolding close_breach_def
    by (auto simp: res_simps Let_def split: if_splits dest!: lock_breach_Inr)
qed simp

text \<open>Two presented ids that name one user: the same string, or two spellings of one UUID.\<close>

definition same_user_id :: "string \<Rightarrow> string \<Rightarrow> bool" where
  "same_user_id i j \<longleftrightarrow> i = j \<or> (parse_uuid i \<noteq> None \<and> parse_uuid i = parse_uuid j)"

lemma same_user_canonical: "same_user_id i j \<Longrightarrow> canonical_actor_id i = canonical_actor_id j"
  by (auto simp: same_user_id_def canonical_actor_id_def split: option.splits)

text \<open>C5. Separation of duties. Once a call presenting the id \<open>i\<close> has filed a first-line response on
  a breach, every later call that presents the same id, or any other spelling that \<open>uuid.UUID\<close> reads
  as the same UUID, to review or to close the breach is refused, whatever happened to the breach in
  between (rejections, reassignments, further responses). And in the recorded history no review
  and no closure carries the actor of an earlier response. (An id that \<open>uuid.UUID\<close> does not parse
  is compared as it is, so the two calls must spell it alike.)\<close>

theorem no_responder_reviews_or_closes:
  assumes "lifecycle_reachable E db"
    and "exec_breach E (Respond b narr i ty now expected) db = Inr db1"
    and "lifecycle_later E db1 db2"
    and "same_user_id i j" "br_id b' = br_id b" "br_tenant b' = br_tenant b"
  shows "(\<exists>e. exec_breach E (Review b' outc j ty' now' narr' name expected') db2 = Inl e) \<and>
    (\<exists>e. exec_breach E (Close b' evid j ty' now' narr' expected') db2 = Inl e) \<and>
    (let acts = breach_action_timeline db2 (br_tenant b) (br_id b) in
       list_all (\<lambda>n. ba_type (acts ! n) \<in> {REVIEW_2L, CLOSE} \<longrightarrow>
         ba_actor (acts ! n) \<notin> ba_actor ` {a \<in> set (take n acts). ba_type a = RESPONSE_1L})
       [0..<length acts])"
proof -
  have r1: "lifecycle_reachable E db1" by (rule lifecycle_reachable.call[OF assms(1,2)])
  obtain a where a: "respond_breach E b narr (breach_actor i ty) now expected db = Inr (db1, a)"
    using assms(2) by (auto simp: map_sum_Inr)
  have "act_id (breach_actor i ty) \<in> prior_1l_responders db2 (br_id b) (br_tenant b)"
    by (rule later_responders[OF assms(3) r1 respond_records[OF a]])
  then have sod: "act_id (breach_actor j ty') \<in> prior_1l_responders db2 (br_id b') (br_tenant b')"
    using same_user_canonical[OF assms(4)] assms(5,6) by (simp add: breach_actor_def)
  note r2 = later_reachable[OF assms(3) r1]
  have "ba_actor (acts ! n) \<notin> ba_actor ` {a \<in> set (take n acts). ba_type a = RESPONSE_1L}"
    if "acts = breach_action_timeline db2 (br_tenant b) (br_id b)" "n < length acts"
      "ba_type (acts ! n) \<in> {REVIEW_2L, CLOSE}" for n acts
    using history_move[OF r2 that(1,2)] that(3) unfolding move_ok_def responders_def by blast
  then show ?thesis
    using review_refused[OF sod] close_refused[OF sod] by (simp add: map_sum_Inl Let_def list_all_iff)
qed

text \<open>C6. A breach is CLOSED only after a second-line ACCEPT that followed a first-line response of
  the same epoch: between that response and the review no new assignment was opened.\<close>

theorem closed_means_accepted_response:
  assumes "lifecycle_reachable E db" and "acts = breach_action_timeline db t bid"
    and "current_breach_state db bid t = CLOSED"
  shows "\<exists>i k. i < k \<and> k < length acts \<and> ba_type (acts ! i) = RESPONSE_1L \<and>
     ba_type (acts ! k) = REVIEW_2L \<and> ba_review_outcome (acts ! k) = Some ''ACCEPT'' \<and>
     list_all (\<lambda>m. ba_to (acts ! m) \<noteq> ASSIGNED) [Suc i..<k]"
proof -
  have cur: "cur acts = CLOSED"
    using assms(2,3) timeline_rows[OF reachable_inv[OF assms(1)]] by (simp add: reads_of_rows)
  then have ne: "acts \<noteq> []" by (auto simp: cur_def)
  let ?c = "length acts - 1"
  have c: "?c < length acts" "ba_to (acts ! ?c) = CLOSED"
    using ne cur history_cur[OF assms(1,2), of "length acts"] by auto
  then have rv: "ba_from (acts ! ?c) = REVIEWED" "ba_from (acts ! ?c) = cur (take ?c acts)"
    using history_move[OF assms(1,2), of ?c] by (auto simp: move_ok_def resolve_to_state_def split: if_splits)
  then have "?c \<noteq> 0" "ba_to (acts ! (?c - 1)) = REVIEWED"
    using history_cur[OF assms(1,2), of ?c] by (auto split: if_splits)
  then obtain k where k: "k < length acts" "ba_to (acts ! k) = REVIEWED"
    using c(1) that[of "?c - 1"] by linarith
  then have mv: "ba_type (acts ! k) = REVIEW_2L" "ba_review_outcome (acts ! k) = Some ''ACCEPT''"
      "fresh_response (take k acts)"
    using history_move[OF assms(1,2), of k] by (auto simp: move_ok_def resolve_to_state_def split: if_splits)
  then obtain i where i: "i < k" "ba_type (acts ! i) = RESPONSE_1L"
      "\<forall>m<k. ba_to (acts ! m) = ASSIGNED \<longrightarrow> ba_seq (acts ! m) < ba_seq (acts ! i)"
    using k(1) nth_in_take[of _ k acts] by (fastforce simp: fresh_response_def in_set_conv_nth)
  have "list_all (\<lambda>m. ba_to (acts ! m) \<noteq> ASSIGNED) [Suc i..<k]"
    using i k(1) history_seq[OF assms(1,2)] by (fastforce simp: list_all_iff)
  then show ?thesis using i k mv by blast
qed

section \<open>The joins of the queue query\<close>

lemma filter_unique_key:
  "distinct (map f xs) \<Longrightarrow> g \<in> set xs \<Longrightarrow> filter (\<lambda>x. f x = f g) xs = [g]"
  by (induction xs) (auto simp: filter_empty_conv image_iff)

lemma numbered_distinct_rows:
  "actions.numbered (breach_actions db) \<Longrightarrow> distinct (map ba_seq (action_rows bid t db))"
  unfolding actions_of_key[symmetric] by (rule actions.numbered_distinct)

lemma max_seq_rows:
  "max_seq db t P bid = map_option ba_seq (latest_by ba_seq (filter P (action_rows bid t db)))"
proof -
  have "filter (\<lambda>a. ba_tenant a = t \<and> P a \<and> ba_breach a = bid) (breach_actions db)
      = filter P (action_rows bid t db)"
    by (auto simp: action_rows_def intro: filter_cong)
  then show ?thesis by (simp add: max_seq_def max_key_def)
qed

lemma outer_join_latest:
  assumes "actions.numbered (breach_actions db)"
  shows "outer_join db t bid (max_seq db t P bid) =
     [latest_by ba_seq (filter P (action_rows bid t db))]"
proof (cases "latest_by ba_seq (filter P (action_rows bid t db))")
  case None
  then show ?thesis by (simp add: outer_join_def max_seq_rows)
next
  case (Some g)
  then have g: "g \<in> set (action_rows bid t db)" using latest_by_in[OF Some] by simp
  have "filter (\<lambda>a. ba_breach a = bid \<and> ba_seq a = ba_seq g \<and> ba_tenant a = t) (breach_actions db)
      = filter (\<lambda>a. ba_seq a = ba_seq g) (action_rows bid t db)"
    by (auto simp: action_rows_def intro: filter_cong)
  also have "\<dots> = [g]" by (rule filter_unique_key[OF numbered_distinct_rows[OF assms] g])
  finally show ?thesis by (simp add: outer_join_def max_seq_rows Some)
qed

lemma derived_state_cur: "derived_state (latest_by ba_seq acts) = cur acts"
  by (simp add: derived_state_def cur_def)

text \<open>A breach whose response clock runs and has run out.\<close>

definition overdue :: "breach_action list \<Rightarrow> pydatetime \<Rightarrow> bool" where
  "overdue rows now \<longleftrightarrow> cur rows \<in> {ASSIGNED, RESPONDED} \<and>
     (\<exists>g due. epoch_start rows = Some g \<and> ba_response_due g = Some due \<and> utc_of due < utc_of now)"

definition escalated_epoch :: "breach_action list \<Rightarrow> bool" where
  "escalated_epoch rows \<longleftrightarrow> (\<exists>g. epoch_start rows = Some g \<and>
     (\<exists>r\<in>set rows. ba_type r = ESCALATE \<and> ba_epoch_seq r = Some (ba_seq g)))"

lemma selected_iff:
  assumes "actions.numbered (breach_actions db)"
  shows "b \<in> set (select_overdue_breaches db now t) \<longleftrightarrow>
     b \<in> set (breaches db) \<and> br_tenant b = t \<and> overdue (action_rows (br_id b) t db) now"
  by (auto simp: select_overdue_breaches_def outer_join_latest[OF assms] derived_state_cur
      overdue_def epoch_start_def split: option.splits if_splits)

lemma concat_filter:
  "(\<And>x. x \<in> set xs \<Longrightarrow> F x = (if P x then [x] else [])) \<Longrightarrow> concat (map F xs) = filter P xs"
  by (induction xs) auto

lemma select_overdue_filter:
  assumes "actions.numbered (breach_actions db)"
  shows "select_overdue_breaches db now t = sort_key br_id
     (filter (\<lambda>b. br_tenant b = t \<and> overdue (action_rows (br_id b) t db) now) (breaches db))"
  unfolding select_overdue_breaches_def outer_join_latest[OF assms]
  by (intro arg_cong[where f = "sort_key br_id"] concat_filter)
     (auto simp: overdue_def epoch_start_def derived_state_cur split: option.splits)

lemma distinct_selected:
  assumes "actions.numbered (breach_actions db)" "distinct (map br_id (breaches db))"
  shows "distinct (map br_id (select_overdue_breaches db now t))"
  using distinct_map_filter[OF assms(2)] by (simp add: select_overdue_filter[OF assms(1)] distinct_map)

lemma lock_breach_self:
  assumes "well_linked db" "b \<in> set (breaches db)"
  shows "lock_breach db (br_id b) (br_tenant b) = Inr b"
proof -
  have "filter (\<lambda>x. br_id x = br_id b) (breaches db) = [b]"
    using assms by (intro filter_unique_key) (simp_all add: well_linked_def)
  then have "filter (\<lambda>x. br_tenant x = br_tenant b) (filter (\<lambda>x. br_id x = br_id b) (breaches db)) = [b]"
    by simp
  then show ?thesis by (simp add: lock_breach_def one_or_none_def conj_commute)
qed

lemma not_overdue_none:
  assumes "lifecycle_inv db" "b \<in> set (breaches db)"
    and "\<not> overdue (action_rows (br_id b) (br_tenant b) db) now"
  shows "escalate_overdue_breach E b now db = Inr (db, None)"
proof -
  have "lock_breach db (br_id b) (br_tenant b) = Inr b"
    by (rule lock_breach_self) (use assms in \<open>simp_all add: lifecycle_inv_def\<close>)
  then show ?thesis
    using assms(3)
    by (auto simp: escalate_overdue_breach_def Let_def reads_of_rows overdue_def split: option.splits)
qed

lemma overdue_escalates:
  assumes "lifecycle_inv db" "b \<in> set (breaches db)"
    and "overdue (action_rows (br_id b) (br_tenant b) db) now"
  shows "if escalated_epoch (action_rows (br_id b) (br_tenant b) db)
     then escalate_overdue_breach E b now db = Inl EscalationDedup
     else \<exists>db' a. escalate_overdue_breach E b now db = Inr (db', Some a)"
proof -
  let ?rows = "action_rows (br_id b) (br_tenant b) db"
  have wl: "well_linked db" using assms(1) by (simp add: lifecycle_inv_def)
  obtain g due where g: "epoch_start ?rows = Some g" "ba_response_due g = Some due" "utc_of due < utc_of now"
      "cur ?rows \<in> {ASSIGNED, RESPONDED}"
    using assms(3) by (auto simp: overdue_def)
  define row where "row = (action_row ESCALATE (cur ?rows) ESCALATED (''breach-deadline:'' @ br_id b) ''SYS''
      (as_utc now))\<lparr>ba_response_due := Some (as_utc due), ba_epoch_seq := Some (ba_seq g)\<rparr>"
  have esc: "escalate_overdue_breach E b now db =
      bindR (insert_action E b row db) (\<lambda>r. Inr (fst r, Some (snd r)))"
    using g lock_breach_self[OF wl assms(2)]
    by (auto simp: escalate_overdue_breach_def Let_def reads_of_rows row_def)
  have "list_ex (\<lambda>r. ba_breach r = br_id b \<and> ba_type r = ESCALATE \<and> ba_epoch_seq r = Some (ba_seq g))
      (breach_actions db) \<longleftrightarrow> escalated_epoch ?rows"
    using rows_of_breach[OF wl assms(2)] g(1) by (auto simp: list_ex_iff escalated_epoch_def)
  moreover have "insert_action E b row db \<noteq> Inl DuplicateSeq" by (rule no_duplicate_seq[OF assms(1,2)])
  ultimately have "if escalated_epoch ?rows then insert_action E b row db = Inl EscalationDedup
      else \<exists>r. insert_action E b row db = Inr r"
    by (auto simp: insert_action_def action_conflict_def Let_def row_def split: if_splits option.splits)
  then show ?thesis unfolding esc by (auto split: if_splits)
qed

text \<open>C7. The deadline query selects exactly the breaches on which the escalation under the lock
  would act (or would find the epoch already escalated): the pre-filter in SQL and the re-check
  agree, at the boundary instant included.\<close>

theorem overdue_selection_exact:
  assumes "lifecycle_reachable E db" and "b \<in> set (breaches db)"
  shows "b \<in> set (select_overdue_breaches db now (br_tenant b)) \<longleftrightarrow>
     escalate_overdue_breach E b now db \<noteq> Inr (db, None)"
proof -
  have inv: "lifecycle_inv db" using assms(1) by (rule reachable_inv)
  then have num: "actions.numbered (breach_actions db)" by (simp add: lifecycle_inv_def)
  show ?thesis
  proof (cases "overdue (action_rows (br_id b) (br_tenant b) db) now")
    case True
    then have "escalate_overdue_breach E b now db \<noteq> Inr (db, None)"
      using overdue_escalates[OF inv assms(2) True, of E] by (auto split: if_splits)
    then show ?thesis using True assms(2) by (simp add: selected_iff[OF num])
  next
    case False
    then show ?thesis using not_overdue_none[OF inv assms(2) False] by (simp add: selected_iff[OF num])
  qed
qed

lemma performs_cur:
  assumes "lifecycle_inv db" "performs E b ty db db' a"
  shows "cur (action_rows (br_id b) (br_tenant b) db') = ba_to a"
proof -
  have "map ba_seq (action_rows (br_id b) (br_tenant b) db')
      = map int [1..<Suc (length (action_rows (br_id b) (br_tenant b) db'))]"
    using performs_inv[OF assms] by (intro numbered_rows) (simp add: lifecycle_inv_def)
  then show ?thesis using performs_rows(1)[OF assms(2)] by (simp add: cur_counted del: upt_Suc)
qed

lemma escalated_state:
  assumes "lifecycle_inv db" "performs E b ESCALATE db db' a"
  shows "ba_to a = ESCALATED"
proof -
  obtain l row where l: "insert_action E l row db = Inr (db', a)" "ba_type row = ESCALATE"
      "move_ok (action_rows (br_id l) (br_tenant l) db) row"
    using assms(2) by (auto simp: performs_def)
  then have "ba_to row = ESCALATED" by (auto simp: move_ok_def resolve_to_state_def split: if_splits)
  then show ?thesis using insert_action_Inr(1)[OF l(1)] by simp
qed

text \<open>What the loop of the deadline phase leaves behind.\<close>

definition settled :: "'a limit_db_scheme \<Rightarrow> pydatetime \<Rightarrow> breach \<Rightarrow> bool" where
  "settled db now b \<longleftrightarrow> (let rows = action_rows (br_id b) (br_tenant b) db in
     \<not> overdue rows now \<or> escalated_epoch rows)"

lemma escalate_each_settles:
  assumes "lifecycle_inv db" "set bs \<subseteq> set (breaches db)" "distinct (map br_id bs)"
  shows "lifecycle_inv (fst (escalate_each E now bs db)) \<and>
    breaches (fst (escalate_each E now bs db)) = breaches db \<and>
    (\<forall>bid t. bid \<notin> br_id ` set bs \<longrightarrow>
       action_rows bid t (fst (escalate_each E now bs db)) = action_rows bid t db) \<and>
    (\<forall>b\<in>set bs. settled (fst (escalate_each E now bs db)) now b)"
  using assms
proof (induction bs arbitrary: db)
  case (Cons b bs)
  have b: "b \<in> set (breaches db)" using Cons.prems(2) by simp
  obtain db1 where db1: "fst (escalate_each E now (b # bs) db) = fst (escalate_each E now bs db1)"
      "lifecycle_inv db1" "breaches db1 = breaches db"
      "\<forall>bid t. bid \<noteq> br_id b \<longrightarrow> action_rows bid t db1 = action_rows bid t db" "settled db1 now b"
  proof (cases "escalate_overdue_breach E b now db")
    case (Inl e)
    then have "settled db now b"
      using overdue_escalates[OF Cons.prems(1) b, of now E]
      by (auto simp: settled_def Let_def split: if_splits)
    then show thesis using that[of db] Inl Cons.prems(1) by simp
  next
    case (Inr r)
    obtain db1 act where r: "r = (db1, act)" by (cases r)
    have fst1: "fst (escalate_each E now (b # bs) db) = fst (escalate_each E now bs db1)"
      by (simp add: Inr r split: prod.splits)
    show thesis
    proof (cases act)
      case None
      then have "db1 = db" using Inr r escalate_none by blast
      moreover have "settled db now b"
        using overdue_escalates[OF Cons.prems(1) b, of now E] Inr r None
        by (auto simp: settled_def Let_def split: if_splits)
      ultimately show thesis using that[of db1] fst1 Cons.prems(1) by simp
    next
      case (Some a)
      then have p: "performs E b ESCALATE db db1 a" using Inr r escalate_performs by blast
      have "settled db1 now b"
        using performs_cur[OF Cons.prems(1) p] escalated_state[OF Cons.prems(1) p]
        by (simp add: settled_def overdue_def)
      then show thesis
        using that[of db1] fst1 performs_inv[OF Cons.prems(1) p] performs_rows[OF p] by simp
    qed
  qed
  have bs: "set bs \<subseteq> set (breaches db1)" "distinct (map br_id bs)" "br_id b \<notin> br_id ` set bs"
    using Cons.prems(2,3) db1(3) by auto
  note IH = Cons.IH[OF db1(2) bs(1,2)]
  have "settled (fst (escalate_each E now bs db1)) now b"
    using IH bs(3) db1(5) by (simp add: settled_def)
  then show ?case using IH db1(1,3,4) by simp
qed simp

text \<open>The deadline phase does nothing when the epoch of every overdue breach has been escalated.\<close>

lemma deadline_phase_quiet:
  assumes inv: "lifecycle_inv db'"
    and esc: "\<forall>b\<in>set (select_overdue_breaches db' now t). escalated_epoch (action_rows (br_id b) (br_tenant b) db')"
  shows "poll_tenant_breach_deadlines E now t db' = (db', [])"
proof -
  have num: "actions.numbered (breach_actions db')" using inv by (simp add: lifecycle_inv_def)
  have all: "escalate_each E now bs db' = (db', [])"
    if "\<And>b. b \<in> set bs \<Longrightarrow> escalate_overdue_breach E b now db' = Inl EscalationDedup" for bs
    using that by (induction bs) simp_all
  have "escalate_overdue_breach E b now db' = Inl EscalationDedup"
    if b: "b \<in> set (select_overdue_breaches db' now t)" for b
    using overdue_escalates[OF inv, of b now E] b esc by (auto simp: selected_iff[OF num])
  then show ?thesis by (simp add: poll_tenant_breach_deadlines_def all)
qed

text \<open>The deadline phase is idempotent, and keeps the invariant and the breaches.\<close>

lemma deadline_phase_settles:
  assumes inv: "lifecycle_inv db"
    and db'_eq: "fst (poll_tenant_breach_deadlines E now t db) = db'"
  shows "poll_tenant_breach_deadlines E now t db' = (db', []) \<and> lifecycle_inv db' \<and> breaches db' = breaches db \<and>
    (\<forall>b\<in>set (select_overdue_breaches db' now t). escalated_epoch (action_rows (br_id b) (br_tenant b) db'))"
proof -
  let ?bs = "select_overdue_breaches db now t"
  have num: "actions.numbered (breach_actions db)" using inv by (simp add: lifecycle_inv_def)
  have sub: "set ?bs \<subseteq> set (breaches db)" by (auto simp: selected_iff[OF num])
  have dist: "distinct (map br_id ?bs)"
    using inv num by (simp add: lifecycle_inv_def well_linked_def distinct_selected)
  have db': "db' = fst (escalate_each E now ?bs db)"
    using db'_eq by (simp add: poll_tenant_breach_deadlines_def)
  note post = escalate_each_settles[OF inv sub dist, of E now, folded db']
  then have inv': "lifecycle_inv db'" and num': "actions.numbered (breach_actions db')"
    by (simp_all add: lifecycle_inv_def)
  have "escalated_epoch (action_rows (br_id b) (br_tenant b) db')"
    if b: "b \<in> set (select_overdue_breaches db' now t)" for b
  proof -
    have b': "b \<in> set (breaches db')" "br_tenant b = t" "overdue (action_rows (br_id b) t db') now"
      using b by (simp_all add: selected_iff[OF num'])
    have "settled db' now b"
    proof (cases "br_id b \<in> br_id ` set ?bs")
      case True
      then obtain c where c: "c \<in> set ?bs" "br_id c = br_id b" by auto
      then have "c = b" using inv' b' sub post
        by (metis (no_types, lifting) distinct_map inj_onD lifecycle_inv_def subsetD well_linked_def)
      then show ?thesis using post c(1) by blast
    next
      case False
      then have "b \<in> set ?bs" using b' post by (simp add: selected_iff[OF num])
      then show ?thesis using False by auto
    qed
    then show ?thesis using b' by (simp add: settled_def)
  qed
  then show ?thesis using inv' post deadline_phase_quiet[OF inv'] by blast
qed

lemma resolve_closed: "resolve_to_state CLOSED ty r = Inl (IllegalTransition CLOSED ty)"
  by (simp add: resolve_to_state_def)

text \<open>CLOSED is final: no call on a closed breach, by any actor, appends anything to it.\<close>

lemma closed_is_final:
  assumes "lifecycle_reachable E db"
    and "current_breach_state db (br_id (cmd_breach c)) (br_tenant (cmd_breach c)) = CLOSED"
  shows "case exec_breach E c db of Inl e \<Rightarrow> True | Inr db' \<Rightarrow> db' = db"
proof (cases "exec_breach E c db")
  case (Inr db')
  have num: "actions.numbered (breach_actions db)"
    using reachable_inv[OF assms(1)] by (simp add: lifecycle_inv_def)
  have "\<not> performs E (cmd_breach c) ty db db' a" for ty a
    using assms(2)
    by (auto simp: performs_def move_ok_def reads_of_rows resolve_closed dest!: lock_breach_Inr)
  then show ?thesis using exec_performs[OF num Inr] Inr by auto
qed simp

definition escalations_unique :: "breach_action list \<Rightarrow> bool" where
  "escalations_unique rows \<longleftrightarrow>
     distinct (map (\<lambda>a. (ba_breach a, ba_epoch_seq a)) (filter (\<lambda>a. ba_type a = ESCALATE) rows))"

lemma performs_escalations_unique:
  assumes "performs E b ty db db' a" "escalations_unique (breach_actions db)"
  shows "escalations_unique (breach_actions db')"
proof -
  obtain l row where l: "insert_action E l row db = Inr (db', a)"
      "move_ok (action_rows (br_id l) (br_tenant l) db) row"
    using assms(1) by (auto simp: performs_def)
  note ins = insert_action_Inr[OF l(1)]
  have "ba_type a = ESCALATE \<Longrightarrow> ba_epoch_seq a \<noteq> None"
    using l(2) by (auto simp: ins(1) move_ok_def)
  then show ?thesis
    using assms(2) ins(6)
    by (auto simp: escalations_unique_def ins(2) action_conflict_def list_ex_iff split: if_splits)
qed

lemma reachable_escalations:
  "lifecycle_reachable E db \<Longrightarrow> escalations_unique (breach_actions db)"
proof (induction rule: lifecycle_reachable.induct)
  case (call db c db')
  have "actions.numbered (breach_actions db)"
    using reachable_inv[OF call.hyps(1)] by (simp add: lifecycle_inv_def)
  from exec_performs[OF this call.hyps(2)] show ?case
    using call.IH performs_escalations_unique by blast
qed (simp_all add: escalations_unique_def)

lemma exec_no_duplicate:
  assumes "lifecycle_inv db"
  shows "exec_breach E c db \<noteq> Inl DuplicateSeq"
proof
  assume "exec_breach E c db = Inl DuplicateSeq"
  then have "\<exists>l row. l \<in> set (breaches db) \<and> insert_action E l row db = Inl DuplicateSeq"
    by (cases c)
       (auto simp: map_sum_Inl assign_breach_def respond_breach_def review_breach_def close_breach_def
          escalate_overdue_breach_def res_simps Let_def require_human_def lock_breach_def
          check_expected_seq_def resolve_assignee_def resolve_to_state_def sla_due_def
          require_current_epoch_response_def carried_assignee_def one_or_none_Some
          split: if_splits option.splits dest: filter_one)
  then show False using no_duplicate_seq[OF assms] by blast
qed

text \<open>The assignment that governs an escalation.\<close>

lemma governing_row:
  assumes "lifecycle_reachable E db" "acts = breach_action_timeline db t bid"
    and "n < length acts" "ba_type (acts ! n) = ESCALATE"
  shows "\<exists>g<n. ba_to (acts ! g) = ASSIGNED \<and> list_all (\<lambda>m. ba_to (acts ! m) \<noteq> ASSIGNED) [Suc g..<n] \<and>
    ba_epoch_seq (acts ! n) = Some (ba_seq (acts ! g))"
proof -
  obtain r where r: "epoch_start (take n acts) = Some r" "ba_epoch_seq (acts ! n) = Some (ba_seq r)"
    using history_move[OF assms(1-3)] assms(4) by (auto simp: move_ok_def)
  have "r \<in> set (take n acts)" "ba_to r = ASSIGNED"
    using latest_by_in[OF r(1)[unfolded epoch_start_def]] by auto
  then obtain g where g: "g < n" "r = acts ! g" "ba_to (acts ! g) = ASSIGNED"
    using assms(3) by (auto simp: in_set_conv_nth)
  have "ba_to (acts ! m) \<noteq> ASSIGNED" if m: "g < m" "m < n" for m
  proof
    assume "ba_to (acts ! m) = ASSIGNED"
    then have "ba_seq (acts ! m) \<le> ba_seq r"
      using latest_by_ge[OF r(1)[unfolded epoch_start_def], of "acts ! m"] nth_in_take[OF m(2), of acts] assms(3)
      by simp
    then show False
      using history_seq[OF assms(1,2), of m] history_seq[OF assms(1,2), of g] m assms(3) g(1,2) by simp
  qed
  then have "list_all (\<lambda>m. ba_to (acts ! m) \<noteq> ASSIGNED) [Suc g..<n]" by (simp add: list_all_iff)
  then show ?thesis using g r(2) by blast
qed

lemma distinct_map_filter_nth:
  assumes "distinct (map f (filter P xs))" "m < n" "n < length xs" "P (xs ! m)" "P (xs ! n)"
  shows "f (xs ! m) \<noteq> f (xs ! n)"
proof -
  have "xs ! m \<in> set (filter P (take n xs))" using assms nth_in_take[of m n xs] by simp
  moreover have "xs = take n xs @ xs ! n # drop (Suc n) xs" using assms(3) by (rule id_take_nth_drop)
  then have "distinct (map f (filter P (take n xs @ xs ! n # drop (Suc n) xs)))" using assms(1) by simp
  then have "f (xs ! n) \<notin> f ` set (filter P (take n xs))" using assms(5) by auto
  ultimately show ?thesis by (metis image_eqI)
qed

lemma escalations_differ:
  assumes "lifecycle_reachable E db" "acts = breach_action_timeline db t bid"
    and "m < n" "n < length acts" "ba_type (acts ! m) = ESCALATE" "ba_type (acts ! n) = ESCALATE"
  shows "ba_epoch_seq (acts ! m) \<noteq> ba_epoch_seq (acts ! n)"
proof -
  let ?P = "\<lambda>a. ba_breach a = bid \<and> ba_tenant a = t"
  have acts: "acts = action_rows bid t db" using timeline_rows[OF reachable_inv[OF assms(1)]] assms(2) by simp
  have "distinct (map (\<lambda>a. (ba_breach a, ba_epoch_seq a))
      (filter ?P (filter (\<lambda>a. ba_type a = ESCALATE) (breach_actions db))))"
    using reachable_escalations[OF assms(1)] unfolding escalations_unique_def by (rule distinct_map_filter)
  moreover have "filter ?P (filter (\<lambda>a. ba_type a = ESCALATE) (breach_actions db))
      = filter (\<lambda>a. ba_type a = ESCALATE) acts"
    by (simp add: acts action_rows_def conj_commute)
  ultimately have "(ba_breach (acts ! m), ba_epoch_seq (acts ! m))
      \<noteq> (ba_breach (acts ! n), ba_epoch_seq (acts ! n))"
    using distinct_map_filter_nth[OF _ assms(3,4),
        of "\<lambda>a. (ba_breach a, ba_epoch_seq a)" "\<lambda>a. ba_type a = ESCALATE"] assms(5,6) by simp
  moreover have "ba_breach (acts ! k) = bid" if "k < length acts" for k
    using nth_mem[OF that] unfolding acts by (simp add: action_rows_def)
  ultimately show ?thesis using assms(3,4) by simp
qed

lemma escalations_separated:
  assumes "lifecycle_reachable E db" "acts = breach_action_timeline db t bid"
    and "m < n" "n < length acts" "ba_type (acts ! m) = ESCALATE" "ba_type (acts ! n) = ESCALATE"
  shows "\<exists>g. m < g \<and> g < n \<and> ba_to (acts ! g) = ASSIGNED"
proof (rule ccontr)
  assume none: "\<nexists>g. m < g \<and> g < n \<and> ba_to (acts ! g) = ASSIGNED"
  have m: "m < length acts" using assms(3,4) by simp
  obtain g where g: "g < n" "ba_to (acts ! g) = ASSIGNED" "ba_epoch_seq (acts ! n) = Some (ba_seq (acts ! g))"
      "list_all (\<lambda>m. ba_to (acts ! m) \<noteq> ASSIGNED) [Suc g..<n]"
    using governing_row[OF assms(1,2,4,6)] by blast
  obtain h where h: "h < m" "ba_to (acts ! h) = ASSIGNED" "ba_epoch_seq (acts ! m) = Some (ba_seq (acts ! h))"
      "list_all (\<lambda>k. ba_to (acts ! k) \<noteq> ASSIGNED) [Suc h..<m]"
    using governing_row[OF assms(1,2) m assms(5)] by blast
  have "ba_to (acts ! m) = ESCALATED"
    using history_move[OF assms(1,2) m] assms(5)
    by (auto simp: move_ok_def resolve_to_state_def split: if_splits)
  then have "g \<noteq> m" using g(2) by auto
  then have "g < m" using none g(1,2) by (meson linorder_neqE_nat)
  then have "\<not> h < g" "\<not> g < h"
    using g(2,4) h(1,2,4) assms(3) by (auto simp: list_all_iff)
  then have "ba_epoch_seq (acts ! m) = ba_epoch_seq (acts ! n)" using g(3) h(3) by simp
  then show False using escalations_differ[OF assms] by simp
qed

text \<open>C8. A breach is escalated at most once per epoch. Every escalation in its recorded history
  carries the number of the assignment that governs it, that is of the last action before it that
  left the breach ASSIGNED; so between two escalations of a breach there is always a new assignment.
  And the numbering of the actions never collides: of the two unique constraints only the one on
  escalations can ever refuse a call.\<close>

theorem one_escalation_per_epoch:
  assumes "lifecycle_reachable E db" and "acts = breach_action_timeline db t bid"
  shows "list_all (\<lambda>n. ba_type (acts ! n) = ESCALATE \<longrightarrow>
      (\<exists>g<n. ba_to (acts ! g) = ASSIGNED \<and> list_all (\<lambda>m. ba_to (acts ! m) \<noteq> ASSIGNED) [Suc g..<n] \<and>
         ba_epoch_seq (acts ! n) = Some (ba_seq (acts ! g)))) [0..<length acts] \<and>
    list_all (\<lambda>n. list_all (\<lambda>m. ba_type (acts ! m) = ESCALATE \<and> ba_type (acts ! n) = ESCALATE \<longrightarrow>
      (\<exists>g. m < g \<and> g < n \<and> ba_to (acts ! g) = ASSIGNED)) [0..<n]) [0..<length acts] \<and>
    exec_breach E c db \<noteq> Inl DuplicateSeq"
proof (intro conjI)
  note gov = governing_row[OF assms]
  show "list_all (\<lambda>n. ba_type (acts ! n) = ESCALATE \<longrightarrow>
      (\<exists>g<n. ba_to (acts ! g) = ASSIGNED \<and> list_all (\<lambda>m. ba_to (acts ! m) \<noteq> ASSIGNED) [Suc g..<n] \<and>
         ba_epoch_seq (acts ! n) = Some (ba_seq (acts ! g)))) [0..<length acts]"
    using gov by (auto simp: list_all_iff)
  have "\<exists>g. m < g \<and> g < n \<and> ba_to (acts ! g) = ASSIGNED"
    if "m < n" "n < length acts" "ba_type (acts ! m) = ESCALATE" "ba_type (acts ! n) = ESCALATE" for m n
    by (rule escalations_separated[OF assms that])
  then show "list_all (\<lambda>n. list_all (\<lambda>m. ba_type (acts ! m) = ESCALATE \<and> ba_type (acts ! n) = ESCALATE \<longrightarrow>
      (\<exists>g. m < g \<and> g < n \<and> ba_to (acts ! g) = ASSIGNED)) [0..<n]) [0..<length acts]"
    by (simp add: list_all_iff)
  show "exec_breach E c db \<noteq> Inl DuplicateSeq" by (rule exec_no_duplicate[OF reachable_inv[OF assms(1)]])
qed

section \<open>The queue and the single view\<close>

definition queue_item :: "'a limit_db_scheme \<Rightarrow> string \<Rightarrow> breach \<Rightarrow> limit_definition \<Rightarrow> breach_queue_item" where
  "queue_item db t b l = (let rows = action_rows (br_id b) t db; g = epoch_start rows in \<lparr>
     qi_breach = b, qi_state = cur rows,
     qi_assigned_to = (case g of None \<Rightarrow> None | Some a \<Rightarrow> ba_assigned_to a),
     qi_response_due = effective_due (cur rows) (case g of None \<Rightarrow> None | Some a \<Rightarrow> ba_response_due a),
     qi_scope_portfolio_id = ld_scope_portfolio_id l, qi_limit_code = ld_code l,
     qi_seq = int (length rows)\<rparr>)"

definition item_passes ::
  "string option \<Rightarrow> bool \<Rightarrow> string option \<Rightarrow> string option \<Rightarrow> breach_queue_item \<Rightarrow> bool" where
  "item_passes st open_only pf owner i \<longleftrightarrow>
     opt_filter st (\<lambda>s. state_text (qi_state i) = s) \<and> (open_only \<longrightarrow> qi_state i \<noteq> CLOSED) \<and>
     opt_filter pf (\<lambda>p. qi_scope_portfolio_id i = p) \<and>
     opt_filter owner (\<lambda>ow. qi_assigned_to i = Some (canonical_actor_id ow))"

lemma max_seq_length:
  assumes "actions.numbered (breach_actions db)"
  shows "(case max_seq db t (\<lambda>a. True) bid of None \<Rightarrow> 0 | Some n \<Rightarrow> n)
       = int (length (action_rows bid t db))"
  using next_seq_rows[OF assms, of bid t]
  by (simp add: next_seq_of_def seq_after_def max_seq_rows max_key_def action_rows_def
      split: option.splits)

lemma queue_rows_eq:
  assumes "actions.numbered (breach_actions db)"
  shows "set (queue_rows db t) = {(b, l, latest_by ba_seq (action_rows (br_id b) t db),
      epoch_start (action_rows (br_id b) t db), int (length (action_rows (br_id b) t db))) | b l.
      b \<in> set (breaches db) \<and> br_tenant b = t \<and> l \<in> set (limit_definitions db) \<and>
      ld_id l = br_limit_id b \<and> ld_tenant l = t}"
  by (auto simp: queue_rows_def outer_join_latest[OF assms] max_seq_length[OF assms] epoch_start_def
      split: if_splits)

lemma breach_detail_eq:
  assumes "lifecycle_inv db" "b \<in> set (breaches db)" "br_tenant b = t"
    and "distinct (map ld_id (limit_definitions db))"
    and "l \<in> set (limit_definitions db)" "ld_id l = br_limit_id b" "ld_tenant l = t"
  shows "breach_detail db t (br_id b) detail =
     (if detail \<or> br_issuer_id b = None then Some (queue_item db t b l) else None)"
proof -
  have "filter (\<lambda>x. br_id x = br_id b) (breaches db) = [b]"
    using assms(1,2) by (intro filter_unique_key) (simp_all add: lifecycle_inv_def well_linked_def)
  then have "filter (\<lambda>x. br_tenant x = t \<and> (detail \<or> br_issuer_id x = None))
      (filter (\<lambda>x. br_id x = br_id b) (breaches db)) = (if detail \<or> br_issuer_id b = None then [b] else [])"
    using assms(3) by simp
  then have gb: "get_breach db t (br_id b) detail = (if detail \<or> br_issuer_id b = None then Some b else None)"
    by (simp add: get_breach_def one_or_none_def)
  have "filter (\<lambda>x. ld_id x = ld_id l) (limit_definitions db) = [l]"
    by (rule filter_unique_key[OF assms(4,5)])
  then have "filter (\<lambda>x. ld_tenant x = t) (filter (\<lambda>x. ld_id x = ld_id l) (limit_definitions db)) = [l]"
    using assms(7) by simp
  then have "one_or_none (filter (\<lambda>x. ld_id x = br_limit_id b \<and> ld_tenant x = t) (limit_definitions db)) = Some l"
    using assms(6) by (simp add: one_or_none_def)
  then show ?thesis
    using assms(1) by (simp add: breach_detail_def gb queue_item_def Let_def reads_of_rows
        next_seq_rows lifecycle_inv_def)
qed

lemma breach_detail_only:
  assumes "breach_detail db t bid detail = Some i"
  shows "\<exists>b l. b \<in> set (breaches db) \<and> br_id b = bid \<and> br_tenant b = t \<and> (detail \<or> br_issuer_id b = None) \<and>
    l \<in> set (limit_definitions db) \<and> ld_id l = br_limit_id b \<and> ld_tenant l = t"
  using assms unfolding breach_detail_def get_breach_def
  by (auto simp: one_or_none_Some Let_def filter_eq_Cons_iff split: option.splits)

text \<open>The batched queue is the single view of every breach: without paging it lists exactly the
  items \<open>breach_detail\<close> gives for the tenant's breaches, filtered on the item's own fields, under the
  same issuer fence.\<close>

lemma queue_lists_the_details:
  assumes "lifecycle_reachable E db" and "distinct (map ld_id (limit_definitions db))"
    and "list_breaches db t st open_only pf owner (length (queue_rows db t)) 0 detail = Inr items"
  shows "set items =
    {i. (\<exists>bid. breach_detail db t bid detail = Some i) \<and> item_passes st open_only pf owner i}"
proof -
  have inv: "lifecycle_inv db" using assms(1) by (rule reachable_inv)
  then have num: "actions.numbered (breach_actions db)" by (simp add: lifecycle_inv_def)
  let ?item = "\<lambda>(b, l, la, ga, n). \<lparr>
            qi_breach = b, qi_state = derived_state la,
            qi_assigned_to = (case ga of None \<Rightarrow> None | Some g \<Rightarrow> ba_assigned_to g),
            qi_response_due = effective_due (derived_state la)
              (case ga of None \<Rightarrow> None | Some g \<Rightarrow> ba_response_due g),
            qi_scope_portfolio_id = ld_scope_portfolio_id l, qi_limit_code = ld_code l,
            qi_seq = n\<rparr>"
  let ?keep = "\<lambda>(b, l, la, ga, n). (detail \<or> br_issuer_id b = None)
            \<and> opt_filter st (\<lambda>s. state_text (derived_state la) = s)
            \<and> (open_only \<longrightarrow> derived_state la \<noteq> CLOSED)
            \<and> opt_filter pf (\<lambda>p. ld_scope_portfolio_id l = p)
            \<and> opt_filter owner (\<lambda>ow. (case ga of None \<Rightarrow> None | Some g \<Rightarrow> ba_assigned_to g)
                = Some (canonical_actor_id ow))"
  have "items = map ?item (take (length (queue_rows db t)) (queue_order fst (filter ?keep (queue_rows db t))))"
    using assms(3) by (simp add: list_breaches_def split: if_splits)
  then have "set items = ?item ` {r \<in> set (queue_rows db t). ?keep r}"
    by (simp add: queue_order_def)
  also have "\<dots> = {queue_item db t b l | b l. b \<in> set (breaches db) \<and> br_tenant b = t \<and>
      l \<in> set (limit_definitions db) \<and> ld_id l = br_limit_id b \<and> ld_tenant l = t \<and>
      (detail \<or> br_issuer_id b = None) \<and> item_passes st open_only pf owner (queue_item db t b l)}"
    unfolding queue_rows_eq[OF num]
    by (auto simp: queue_item_def item_passes_def derived_state_cur Let_def image_iff) blast+
  also have "\<dots> = {i. (\<exists>bid. breach_detail db t bid detail = Some i) \<and> item_passes st open_only pf owner i}"
    using breach_detail_eq[OF inv _ _ assms(2)] breach_detail_only[of db t _ detail] by (auto) (metis option.inject)+
  finally show ?thesis .
qed

section \<open>Witnesses\<close>

text \<open>One breach of a HARD limit, assigned and reviewed and closed by \<open>r\<close>, answered by \<open>x\<close>.\<close>

definition some_user :: string where
  "some_user = ''00000000-0000-0000-0000-000000000001''"

definition sample_br0 :: breach where
  "sample_br0 = \<lparr>br_id = ''B'', br_tenant = ''T'', br_limit_id = ''L'', br_run_id = ''R'',
     br_detected_at = Aware 0 0, br_target_run_type = ''VAR'', br_metric_type = ''VAR_AMOUNT'',
     br_benchmark_id = None, br_observed = Fin 2 0, br_threshold = Fin 1 0, br_unit = ''CURRENCY'',
     br_direction = ''ABOVE'', br_kind = ''HARD'', br_severity = ''HARD'', br_status = ''DETECTED'',
     br_dimension_kind = None, br_bucket_code = None, br_issuer_id = None, br_scheme_family = None,
     br_resolved_scheme_id = None, br_denominator_basis = None, br_scope_portfolio_id = None\<rparr>"

definition sample_ld0 :: limit_definition where
  "sample_ld0 = \<lparr>ld_id = ''L'', ld_tenant = ''T'', ld_code = ''C'', ld_name = ''N'',
     ld_target_run_type = ''VAR'', ld_metric_type = ''VAR_AMOUNT'', ld_benchmark_id = None,
     ld_scope_portfolio_id = ''P'', ld_threshold = Fin 1 0, ld_unit = ''CURRENCY'',
     ld_direction = ''ABOVE'', ld_kind = ''HARD'', ld_status = ''ACTIVE'', ld_version = 1,
     ld_dimension_kind = None, ld_bucket_code = None, ld_issuer_id = None, ld_scheme_family = None,
     ld_authored_scheme_id = None, ld_denominator_basis = None, ld_created_by = Some ''m'',
     ld_updated_by = None\<rparr>"

definition hist0 :: limit_db where
  "hist0 = \<lparr>audit_events = [], audit_checkpoints = [],
     app_users = [\<lparr>user_id = some_user, user_tenant = ''T'', user_subject = None, user_name = ''U'',
       user_active = True\<rparr>],
     limit_definitions = [sample_ld0], breaches = [sample_br0], breach_actions = []\<rparr>"

definition hact1 :: breach_action where
  "hact1 = (action_row ASSIGN DETECTED ASSIGNED ''r'' ''2L'' (Aware 0 0))
     \<lparr>ba_assigned_to := Some some_user, ba_response_due := Some (Aware 86400000000 0),
      ba_id := uuid sample_env ''breach_action'' 0, ba_tenant := ''T'', ba_breach := ''B'', ba_seq := 1\<rparr>"

definition hact2 :: breach_action where
  "hact2 = (action_row RESPONSE_1L ASSIGNED RESPONDED ''x'' ''1L'' (Aware 1 0))
     \<lparr>ba_narrative := Some ''done'',
      ba_id := uuid sample_env ''breach_action'' 1, ba_tenant := ''T'', ba_breach := ''B'', ba_seq := 2\<rparr>"

definition hact3 :: breach_action where
  "hact3 = (action_row REVIEW_2L RESPONDED REVIEWED ''r'' ''2L'' (Aware 2 0))
     \<lparr>ba_review_outcome := Some ''ACCEPT'', ba_narrative := None, ba_response_due := None,
      ba_assigned_to := None, ba_id := uuid sample_env ''breach_action'' (Suc (Suc 0)), ba_tenant := ''T'', ba_breach := ''B'', ba_seq := 3\<rparr>"

definition hact4 :: breach_action where
  "hact4 = (action_row CLOSE REVIEWED CLOSED ''r'' ''2L'' (Aware 3 0))
     \<lparr>ba_evidence_ref := Some ''doc'', ba_narrative := None,
      ba_id := uuid sample_env ''breach_action'' (Suc (Suc (Suc 0))), ba_tenant := ''T'', ba_breach := ''B'', ba_seq := 4\<rparr>"

definition append_act :: "breach_action \<Rightarrow> limit_db \<Rightarrow> limit_db" where
  "append_act a db = record_breach_action_event sample_env sample_br0 a
     (db\<lparr>breach_actions := breach_actions db @ [a]\<rparr>)"

definition hist1 :: limit_db where "hist1 = append_act hact1 hist0"
definition hist2 :: limit_db where "hist2 = append_act hact2 hist1"
definition hist3 :: limit_db where "hist3 = append_act hact3 hist2"
definition hist4 :: limit_db where "hist4 = append_act hact4 hist3"

lemma append_act_sel [simp]:
  "breach_actions (append_act a db) = breach_actions db @ [a]"
  "breaches (append_act a db) = breaches db" "app_users (append_act a db) = app_users db"
  "limit_definitions (append_act a db) = limit_definitions db"
  by (simp_all add: append_act_def row_simps)

lemma canonical_samples:
  "canonical_actor_id ''r'' = ''r''" "canonical_actor_id ''x'' = ''x''"
  "canonical_actor_id some_user = some_user" "parse_uuid some_user = Some 1"
  "py_strip some_user = some_user"
  by code_simp+

lemma sample_br0_sel [simp]: "br_id sample_br0 = ''B''" "br_tenant sample_br0 = ''T''" "br_kind sample_br0 = ''HARD''"
    "br_issuer_id sample_br0 = None" "br_limit_id sample_br0 = ''L''"
  by (simp_all add: sample_br0_def)

lemmas db_defs = hist1_def hist2_def hist3_def hist4_def

lemma db_tables [simp]:
  "breaches hist0 = [sample_br0]" "breaches hist1 = [sample_br0]" "breaches hist2 = [sample_br0]" "breaches hist3 = [sample_br0]" "breaches hist4 = [sample_br0]"
  "breach_actions hist0 = []" "breach_actions hist1 = [hact1]" "breach_actions hist2 = [hact1, hact2]"
  "breach_actions hist3 = [hact1, hact2, hact3]" "breach_actions hist4 = [hact1, hact2, hact3, hact4]"
  "limit_definitions hist4 = [sample_ld0]"
  by (simp_all add: db_defs) (simp_all add: hist0_def)

lemma acts_sel [simp]:
  "ba_breach hact1 = ''B''" "ba_tenant hact1 = ''T''" "ba_seq hact1 = 1" "ba_to hact1 = ASSIGNED" "ba_type hact1 = ASSIGN"
  "ba_breach hact2 = ''B''" "ba_tenant hact2 = ''T''" "ba_seq hact2 = 2" "ba_to hact2 = RESPONDED" "ba_type hact2 = RESPONSE_1L"
  "ba_breach hact3 = ''B''" "ba_tenant hact3 = ''T''" "ba_seq hact3 = 3" "ba_to hact3 = REVIEWED" "ba_type hact3 = REVIEW_2L"
  "ba_breach hact4 = ''B''" "ba_tenant hact4 = ''T''" "ba_seq hact4 = 4" "ba_to hact4 = CLOSED" "ba_type hact4 = CLOSE"
  "ba_actor hact2 = ''x''" "ba_response_due hact1 = Some (Aware 86400000000 0)"
  by (simp_all add: hact1_def hact2_def hact3_def hact4_def)

lemmas op_defs = lock_breach_def one_or_none_def check_expected_seq_def require_human_def
  breach_actor_def resolve_to_state_def current_breach_state_def governing_assign_def action_rows_def
  prior_1l_responders_def require_current_epoch_response_def max_key_def insert_action_def
  action_conflict_def next_seq_of_def seq_after_def append_act_def Let_def

lemma step1: "exec_breach sample_env (Assign sample_br0 some_user ''r'' ''user'' (Aware 0 0) None) hist0 = Inr hist1"
  by (simp add: assign_breach_def op_defs resolve_assignee_def canonical_samples sla_due_def sla_days_def
      hist1_def hact1_def day_us_def) (simp add: hist0_def some_user_def)

lemma step2: "exec_breach sample_env (Respond sample_br0 ''done'' ''x'' ''user'' (Aware 1 0) (Some 1)) hist1 = Inr hist2"
  by (simp add: respond_breach_def op_defs canonical_samples hist2_def hact2_def py_strip_def is_space_def)

lemma step3: "exec_breach sample_env (Review sample_br0 ''ACCEPT'' ''r'' ''user'' (Aware 2 0) None None None) hist2 = Inr hist3"
  by (auto simp: review_breach_def op_defs canonical_samples hist3_def hact3_def carried_assignee_def)

lemma step4: "exec_breach sample_env (Close sample_br0 ''doc'' ''r'' ''user'' (Aware 3 0) None None) hist3 = Inr hist4"
  by (auto simp: close_breach_def op_defs canonical_samples hist4_def hact4_def py_strip_def is_space_def)

lemma reach1: "lifecycle_reachable sample_env hist1"
  by (rule call[OF start step1]) simp_all

lemma reach4: "lifecycle_reachable sample_env hist4"
  by (rule call[OF call[OF call[OF reach1 step2] step3] step4])

text \<open>The other branch: the clock runs out after two days.\<close>

definition hact5 :: breach_action where
  "hact5 = (action_row ESCALATE ASSIGNED ESCALATED ''breach-deadline:B'' ''SYS'' (as_utc (Aware 172800000000 0)))
     \<lparr>ba_response_due := Some (as_utc (Aware 86400000000 0)), ba_epoch_seq := Some 1,
      ba_id := uuid sample_env ''breach_action'' 1, ba_tenant := ''T'', ba_breach := ''B'', ba_seq := 2\<rparr>"

definition hist5 :: limit_db where "hist5 = append_act hact5 hist1"

lemma hact5_sel [simp]: "ba_breach hact5 = ''B''" "ba_tenant hact5 = ''T''" "ba_seq hact5 = 2"
    "ba_type hact5 = ESCALATE" "ba_epoch_seq hact5 = Some 1"
  by (simp_all add: hact5_def)

lemma step5: "escalate_overdue_breach sample_env sample_br0 (Aware 172800000000 0) hist1 = Inr (hist5, Some hact5)"
  by (simp add: escalate_overdue_breach_def op_defs hist5_def hact5_def)

lemma reach5: "lifecycle_reachable sample_env hist5"
  by (rule call[OF reach1, of "Escalate sample_br0 (Aware 172800000000 0)"]) (simp add: step5)

lemma timeline5: "breach_action_timeline hist5 ''T'' ''B'' = [hact1, hact5]"
  by (simp add: breach_action_timeline_def action_rows_def hist5_def)

lemma timeline4: "breach_action_timeline hist4 ''T'' ''B'' = [hact1, hact2, hact3, hact4]"
  by (simp add: breach_action_timeline_def action_rows_def)

theorem history_is_lifecycle_path_witness:
  "map ba_seq [hact1, hact2, hact3, hact4] = [1, 2, 3, 4] \<and> current_breach_state hist4 ''B'' ''T'' = CLOSED"
  using history_is_lifecycle_path[OF reach4 timeline4[symmetric]] by simp

lemma later4: "lifecycle_later sample_env hist2 hist4"
  by (rule later_call[OF later_call[OF now step3] step4])

text \<open>A responder with a UUID, who comes back under its upper-case spelling.\<close>

definition hact2u :: breach_action where
  "hact2u = (action_row RESPONSE_1L ASSIGNED RESPONDED (''00000000-0000-0000-0000-00000000000a'') ''1L'' (Aware 1 0))
     \<lparr>ba_narrative := Some ''done'',
      ba_id := uuid sample_env ''breach_action'' 1, ba_tenant := ''T'', ba_breach := ''B'', ba_seq := 2\<rparr>"

lemma canonical_upper:
  "canonical_actor_id ''00000000-0000-0000-0000-00000000000a'' = ''00000000-0000-0000-0000-00000000000a''"
  "same_user_id ''00000000-0000-0000-0000-00000000000a'' ''{0000000000000000000000000000000A}''"
proof -
  have "parse_uuid ''{0000000000000000000000000000000A}'' = Some 10"
    "parse_uuid ''00000000-0000-0000-0000-00000000000a'' = Some 10" by code_simp+
  then show "same_user_id ''00000000-0000-0000-0000-00000000000a'' ''{0000000000000000000000000000000A}''"
    by (simp add: same_user_id_def)
qed code_simp

lemma step2u: "exec_breach sample_env (Respond sample_br0 ''done'' ''00000000-0000-0000-0000-00000000000a''
    ''user'' (Aware 1 0) (Some 1)) hist1 = Inr (append_act hact2u hist1)"
  by (simp add: respond_breach_def op_defs canonical_upper(1) hact2u_def py_strip_def is_space_def)

theorem no_responder_reviews_or_closes_witness:
  "\<exists>e. exec_breach sample_env (Review sample_br0 ''ACCEPT'' ''{0000000000000000000000000000000A}''
     ''user'' (Aware 2 0) None None None) (append_act hact2u hist1) = Inl e"
  using no_responder_reviews_or_closes[OF reach1 step2u now canonical_upper(2) refl refl] by blast

theorem closed_means_accepted_response_witness:
  "\<exists>i k. i < k \<and> k < 4 \<and> ba_type ([hact1, hact2, hact3, hact4] ! i) = RESPONSE_1L \<and>
     ba_type ([hact1, hact2, hact3, hact4] ! k) = REVIEW_2L"
  using closed_means_accepted_response[OF reach4 timeline4[symmetric]]
  by (auto simp: op_defs numeral_eq_Suc)

theorem overdue_selection_exact_witness:
  "sample_br0 \<in> set (select_overdue_breaches hist1 (Aware 172800000000 0) ''T'')"
  using overdue_selection_exact[OF reach1, of sample_br0 "Aware 172800000000 0"] by (simp add: step5)

theorem closed_is_final_witness:
  "case exec_breach sample_env (Respond sample_br0 ''again'' ''y'' ''user'' (Aware 9 0) None) hist4 of
     Inl e \<Rightarrow> True | Inr db' \<Rightarrow> db' = hist4"
  by (rule closed_is_final[OF reach4]) (simp add: op_defs)

theorem one_escalation_per_epoch_witness: "ba_epoch_seq ([hact1, hact5] ! 1) = Some (ba_seq ([hact1, hact5] ! 0))"
  using one_escalation_per_epoch[OF reach5 timeline5[symmetric]] by simp

lemma queue_lists_the_details_witness:
  "\<exists>items. list_breaches hist4 ''T'' None False None None (length (queue_rows hist4 ''T'')) 0 True = Inr items \<and>
     set items = {i. (\<exists>bid. breach_detail hist4 ''T'' bid True = Some i) \<and> item_passes None False None None i}"
proof -
  obtain items where i: "list_breaches hist4 ''T'' None False None None (length (queue_rows hist4 ''T'')) 0 True = Inr items"
    by (simp add: list_breaches_def)
  then show ?thesis using queue_lists_the_details[OF reach4 _ i] by simp
qed

end
