(* ===== verification/Limit_Service.thy ===== *)
theory Limit_Service
  imports Limit_Rules Breach_Lifecycle
begin

text \<open>
  The operations of \<open>limit/service.py\<close>: the maker-checker life of a limit (create, update with
  its demotion, approve, suspend, resume), the evaluation that records breaches, and the health
  read. An operation on a limit reads its row in the same transaction, under its lock.
\<close>

section \<open>Audit events\<close>

definition limit_metadata :: "limit_definition \<Rightarrow> decimal \<Rightarrow> json" where
  "limit_metadata l threshold = JObj [
     (''code'', JStr (ld_code l)),
     (''target_run_type'', JStr (ld_target_run_type l)),
     (''metric_type'', JStr (ld_metric_type l)),
     (''scope_portfolio_id'', JStr (ld_scope_portfolio_id l)),
     (''benchmark_id'', opt_str (ld_benchmark_id l)),
     (''threshold_value'', JStr (dec_str threshold)),
     (''threshold_unit'', JStr (ld_unit l)),
     (''breach_direction'', JStr (ld_direction l)),
     (''limit_kind'', JStr (ld_kind l)),
     (''status'', JStr (ld_status l)),
     (''record_version'', JInt (ld_version l)),
     (''dimension_kind'', opt_str (ld_dimension_kind l)),
     (''bucket_code'', opt_str (ld_bucket_code l)),
     (''issuer_id'', opt_str (ld_issuer_id l)),
     (''scheme_family'', opt_str (ld_scheme_family l)),
     (''authored_scheme_id'', opt_str (ld_authored_scheme_id l)),
     (''denominator_basis'', opt_str (ld_denominator_basis l))]"

definition record_limit_event ::
  "env \<Rightarrow> limit_definition \<Rightarrow> string \<Rightarrow> string \<Rightarrow> json option \<Rightarrow> json \<Rightarrow> actor \<Rightarrow> string option
     \<Rightarrow> 'a gov_db_scheme \<Rightarrow> 'a gov_db_scheme" where
  "record_limit_event E l ty act before after who ref db =
     log_event E
       (event_call ty (ld_tenant l) (act_type who) (act_id who) ''limit'' act
        \<lparr>entity_type := Some ''limit_definition'', entity_id := Some (ld_id l),
         before_value := before, after_value := Some after, approval_ref := ref\<rparr>)
       None db"

definition record_breach_event :: "env \<Rightarrow> breach \<Rightarrow> decimal \<Rightarrow> decimal \<Rightarrow> 'a gov_db_scheme \<Rightarrow> 'a gov_db_scheme" where
  "record_breach_event E b observed threshold db =
     log_event E
       (event_call ''BREACH.DETECT'' (br_tenant b) ''SYSTEM'' (''limit-eval:'' @ br_limit_id b) ''limit'' ''record''
        \<lparr>entity_type := Some ''breach'', entity_id := Some (br_id b),
         severity := (if br_kind b = ''HARD'' then ''warning'' else ''info''),
         after_value := Some (JObj [
           (''limit_definition_id'', JStr (br_limit_id b)),
           (''calculation_run_id'', JStr (br_run_id b)),
           (''target_run_type'', JStr (br_target_run_type b)),
           (''metric_type'', JStr (br_metric_type b)),
           (''observed_value'', JStr (dec_str observed)),
           (''threshold_value'', JStr (dec_str threshold)),
           (''breach_direction'', JStr (br_direction b)),
           (''severity'', JStr (br_severity b))])\<rparr>)
       None db"

section \<open>Creating\<close>

definition normalize_input :: "limit_input \<Rightarrow> limit_input" where
  "normalize_input i = i\<lparr>
     li_dimension_kind := blank_to_none (li_dimension_kind i),
     li_bucket_code := blank_to_none (li_bucket_code i),
     li_scheme_family := blank_to_none (li_scheme_family i),
     li_denominator_basis := blank_to_none (li_denominator_basis i)\<rparr>"

definition nonempty :: "string option \<Rightarrow> string option" where
  "nonempty v = (if truthy v then v else None)"

definition limit_row :: "limit_input \<Rightarrow> string \<Rightarrow> decimal \<Rightarrow> actor \<Rightarrow> limit_definition" where
  "limit_row i lid threshold who = \<lparr>
     ld_id = lid, ld_tenant = li_tenant i, ld_code = li_code i, ld_name = li_name i,
     ld_target_run_type = li_target_run_type i, ld_metric_type = li_metric_type i,
     ld_benchmark_id = nonempty (li_benchmark_id i), ld_scope_portfolio_id = li_scope_portfolio_id i,
     ld_threshold = threshold, ld_unit = li_unit i, ld_direction = li_direction i, ld_kind = li_kind i,
     ld_status = ''DRAFT'', ld_version = 1,
     ld_dimension_kind = li_dimension_kind i, ld_bucket_code = li_bucket_code i,
     ld_issuer_id = nonempty (li_issuer_id i), ld_scheme_family = li_scheme_family i,
     ld_authored_scheme_id = nonempty (li_authored_scheme_id i),
     ld_denominator_basis = li_denominator_basis i,
     ld_created_by = Some (act_id who), ld_updated_by = None\<rparr>"

definition create_limit ::
  "env \<Rightarrow> limit_input \<Rightarrow> actor \<Rightarrow> 'a gov_db_scheme \<Rightarrow> limit_error + ('a gov_db_scheme \<times> limit_definition)" where
  "create_limit E inp who db =
     (let i = normalize_input inp in
     bindR (validate_config i ''DRAFT'') (\<lambda>_.
     if (li_scope_portfolio_id i, li_tenant i) \<notin> set (portfolio_ids db)
     then Inl (LimitError ''portfolio not visible'')
     else if truthy (li_benchmark_id i) \<and> (the (li_benchmark_id i), li_tenant i) \<notin> set (benchmark_ids db)
     then Inl (LimitError ''benchmark not visible'')
     else if truthy (li_issuer_id i) \<and> (the (li_issuer_id i), li_tenant i) \<notin> set (issuer_ids db)
     then Inl (LimitError ''issuer not visible'')
     else if list_ex (\<lambda>l. ld_tenant l = li_tenant i \<and> ld_code l = li_code i) (limit_definitions db)
     then Inl DuplicateLimitError
     else bindR (threshold_of (li_threshold i)) (\<lambda>threshold.
     case bind_numeric 34 12 threshold of
       None \<Rightarrow> Inl NumericRefused
     | Some stored \<Rightarrow>
       let l = limit_row i (uuid E ''limit_definition'' (length (limit_definitions db))) stored who
       in Inr (record_limit_event E l ''LIMIT.DEFINE'' ''create'' None (limit_metadata l threshold) who None
                 (db\<lparr>limit_definitions := limit_definitions db @ [l]\<rparr>), l))))"

section \<open>Updating\<close>

text \<open>The keyword arguments of \<open>update_limit\<close>: the updatable attributes and any others.\<close>

record limit_changes =
  ch_name :: "string option"
  ch_threshold :: "(decimal + string) option"
  ch_kind :: "string option"
  ch_direction :: "string option"
  ch_status :: "string option"
  ch_unknown :: "string list"

definition no_changes :: limit_changes where
  "no_changes = \<lparr>ch_name = None, ch_threshold = None, ch_kind = None, ch_direction = None,
     ch_status = None, ch_unknown = []\<rparr>"

text \<open>A row found by id and tenant; the constraint violations of a missing row are refusals.\<close>

definition find_limit :: "'a gov_db_scheme \<Rightarrow> string \<Rightarrow> string \<Rightarrow> limit_error + limit_definition" where
  "find_limit db lid tenant =
     (case one_or_none (filter (\<lambda>l. ld_id l = lid \<and> ld_tenant l = tenant) (limit_definitions db)) of
        None \<Rightarrow> Inl (LimitError ''not found'') | Some l \<Rightarrow> Inr l)"

definition put_limit :: "limit_definition \<Rightarrow> 'a gov_db_scheme \<Rightarrow> 'a gov_db_scheme" where
  "put_limit l db = db\<lparr>limit_definitions := map (\<lambda>x. if ld_id x = ld_id l then l else x) (limit_definitions db)\<rparr>"

definition same_number :: "decimal \<Rightarrow> decimal \<Rightarrow> bool" where
  "same_number a b \<longleftrightarrow> is_finite a \<and> is_finite b \<and> dec_val a = dec_val b"

definition governing_value_changed :: "limit_definition \<Rightarrow> limit_changes \<Rightarrow> decimal option \<Rightarrow> bool" where
  "governing_value_changed l ch threshold \<longleftrightarrow>
     opt_any threshold (\<lambda>d. \<not> same_number d (ld_threshold l)) \<or>
     opt_any (ch_kind ch) (\<lambda>k. k \<noteq> ld_kind l) \<or>
     opt_any (ch_direction ch) (\<lambda>d. d \<noteq> ld_direction l)"

text \<open>The \<open>before\<close>/\<open>after\<close> dictionary of the change event: the changed keys.\<close>

definition change_values :: "limit_changes \<Rightarrow> bool \<Rightarrow> limit_definition \<Rightarrow> decimal \<Rightarrow> json" where
  "change_values ch demote l threshold = JObj (
     (if ch_name ch \<noteq> None then [(''name'', JStr (ld_name l))] else []) @
     (if ch_threshold ch \<noteq> None then [(''threshold_value'', JStr (dec_fixed threshold))] else []) @
     (if ch_kind ch \<noteq> None then [(''limit_kind'', JStr (ld_kind l))] else []) @
     (if ch_direction ch \<noteq> None then [(''breach_direction'', JStr (ld_direction l))] else []) @
     (if ch_status ch \<noteq> None \<or> demote then [(''status'', JStr (ld_status l))] else []))"

definition or_else :: "'v option \<Rightarrow> 'v \<Rightarrow> 'v" where
  "or_else v d = (case v of None \<Rightarrow> d | Some x \<Rightarrow> x)"

definition validate_changes :: "limit_changes \<Rightarrow> limit_error + unit" where
  "validate_changes ch =
     (if ch_unknown ch \<noteq> [] then Inl (LimitError ''non-updatable'')
      else if opt_any (ch_status ch) (\<lambda>s. s \<notin> {''DRAFT'', ''ACTIVE'', ''SUSPENDED''}) then Inl (LimitError ''status'')
      else if opt_any (ch_direction ch) (\<lambda>d. d \<notin> {''ABOVE'', ''BELOW''}) then Inl (LimitError ''breach_direction'')
      else if opt_any (ch_kind ch) (\<lambda>k. k \<notin> {''HARD'', ''SOFT''}) then Inl (LimitError ''limit_kind'')
      else (case ch_threshold ch of None \<Rightarrow> Inr () | Some v \<Rightarrow> check_positive v))"

text \<open>The attributes set by the loop and after it: the demotion, the editor, the version.\<close>

definition apply_changes ::
  "limit_definition \<Rightarrow> limit_changes \<Rightarrow> bool \<Rightarrow> decimal \<Rightarrow> actor \<Rightarrow> limit_definition" where
  "apply_changes l ch demote stored who =
     l\<lparr>ld_name := or_else (ch_name ch) (ld_name l),
       ld_threshold := stored,
       ld_kind := or_else (ch_kind ch) (ld_kind l),
       ld_direction := or_else (ch_direction ch) (ld_direction l),
       ld_status := (if demote then ''DRAFT'' else or_else (ch_status ch) (ld_status l)),
       ld_updated_by := Some (act_id who),
       ld_version := ld_version l + 1\<rparr>"

definition update_limit ::
  "env \<Rightarrow> string \<Rightarrow> string \<Rightarrow> actor \<Rightarrow> limit_changes \<Rightarrow> 'a gov_db_scheme
     \<Rightarrow> limit_error + ('a gov_db_scheme \<times> limit_definition)" where
  "update_limit E lid tenant who ch db =
     bindR (validate_changes ch) (\<lambda>_.
     bindR (find_limit db lid tenant) (\<lambda>l.
     bindR (case ch_threshold ch of None \<Rightarrow> Inr None
            | Some v \<Rightarrow> bindR (threshold_of v) (\<lambda>d. Inr (Some d))) (\<lambda>threshold.
     let governing = governing_value_changed l ch threshold in
     if ch_status ch \<noteq> None \<and> governing then Inl (LimitError ''status with governing change'')
     else if ch_status ch \<noteq> None \<and> (ch_status ch = Some ''DRAFT'' \<or> ld_status l = ''DRAFT'')
     then Inl LimitStateError
     else
     let demote = governing \<and> ld_status l \<noteq> ''DRAFT'' in
     case (case threshold of None \<Rightarrow> Some (ld_threshold l) | Some d \<Rightarrow> bind_numeric 34 12 d) of
       None \<Rightarrow> Inl NumericRefused
     | Some stored \<Rightarrow>
       let l' = apply_changes l ch demote stored who
       in Inr (record_limit_event E l' ''LIMIT.CHANGE'' ''update''
                 (Some (change_values ch demote l (ld_threshold l)))
                 (change_values ch demote l' (or_else threshold stored)) who None (put_limit l' db), l'))))"

definition suspend_limit ::
  "env \<Rightarrow> string \<Rightarrow> string \<Rightarrow> actor \<Rightarrow> 'a gov_db_scheme \<Rightarrow> limit_error + ('a gov_db_scheme \<times> limit_definition)" where
  "suspend_limit E lid tenant who db = update_limit E lid tenant who (no_changes\<lparr>ch_status := Some ''SUSPENDED''\<rparr>) db"

definition resume_limit ::
  "env \<Rightarrow> string \<Rightarrow> string \<Rightarrow> actor \<Rightarrow> 'a gov_db_scheme \<Rightarrow> limit_error + ('a gov_db_scheme \<times> limit_definition)" where
  "resume_limit E lid tenant who db = update_limit E lid tenant who (no_changes\<lparr>ch_status := Some ''ACTIVE''\<rparr>) db"

section \<open>Approving\<close>

definition makers_of :: "limit_definition \<Rightarrow> string list" where
  "makers_of l = remdups (sort ((case ld_created_by l of None \<Rightarrow> [] | Some m \<Rightarrow> [m]) @
     (case ld_updated_by l of None \<Rightarrow> [] | Some m \<Rightarrow> [m])))"

definition approve_limit ::
  "env \<Rightarrow> string \<Rightarrow> string \<Rightarrow> actor \<Rightarrow> string \<Rightarrow> 'a gov_db_scheme
     \<Rightarrow> limit_error + ('a gov_db_scheme \<times> limit_definition)" where
  "approve_limit E lid tenant who ref db =
     (if act_type who \<noteq> ''user'' then Inl (LimitError ''human actor'')
      else if py_strip ref = [] then Inl (LimitError ''approval_ref'')
      else bindR (find_limit db lid tenant) (\<lambda>l.
      if ld_status l \<noteq> ''DRAFT'' then Inl LimitStateError
      else if makers_of l = [] then Inl LimitSodError
      else if act_id who \<in> set (makers_of l) then Inl LimitSodError
      else
      let l' = l\<lparr>ld_status := ''ACTIVE'', ld_version := ld_version l + 1\<rparr>
      in Inr (record_limit_event E l' ''LIMIT.APPROVE'' ''status_change''
                (Some (JObj [(''status'', JStr (ld_status l))]))
                (JObj [(''status'', JStr (ld_status l')), (''approved_by'', JStr (act_id who)),
                       (''checked_makers'', JArr (map JStr (makers_of l)))])
                who (Some ref) (put_limit l' db), l')))"

section \<open>Evaluating\<close>

definition select_active_limits :: "'a gov_db_scheme \<Rightarrow> string \<Rightarrow> bool \<Rightarrow> limit_definition list" where
  "select_active_limits db tenant detail = sort_key ld_id
     (filter (\<lambda>l. ld_status l = ''ACTIVE'' \<and> ld_tenant l = tenant \<and> (detail \<or> ld_issuer_id l = None))
       (limit_definitions db))"

definition list_limits ::
  "'a gov_db_scheme \<Rightarrow> string \<Rightarrow> string option \<Rightarrow> bool \<Rightarrow> limit_error + limit_definition list" where
  "list_limits db tenant st detail =
     (if opt_any st (\<lambda>s. s \<notin> {''DRAFT'', ''ACTIVE'', ''SUSPENDED''}) then Inl (LimitError ''status'')
      else Inr (sort_key ld_code (filter (\<lambda>l. ld_tenant l = tenant \<and> opt_filter st (\<lambda>s. ld_status l = s) \<and>
          (detail \<or> ld_issuer_id l = None)) (limit_definitions db))))"

definition get_limit :: "'a gov_db_scheme \<Rightarrow> string \<Rightarrow> string \<Rightarrow> bool \<Rightarrow> limit_definition option" where
  "get_limit db tenant lid detail =
     one_or_none (filter (\<lambda>l. ld_id l = lid \<and> ld_tenant l = tenant \<and> (detail \<or> ld_issuer_id l = None))
       (limit_definitions db))"

definition breach_row ::
  "limit_definition \<Rightarrow> string \<Rightarrow> string \<Rightarrow> decimal \<Rightarrow> string option \<Rightarrow> pydatetime \<Rightarrow> breach" where
  "breach_row l bid rid observed scheme now = \<lparr>
     br_id = bid, br_tenant = ld_tenant l, br_limit_id = ld_id l, br_run_id = rid,
     br_detected_at = now, br_target_run_type = ld_target_run_type l, br_metric_type = ld_metric_type l,
     br_benchmark_id = ld_benchmark_id l, br_observed = observed, br_threshold = ld_threshold l,
     br_unit = ld_unit l, br_direction = ld_direction l, br_kind = ld_kind l, br_severity = ld_kind l,
     br_status = ''DETECTED'', br_dimension_kind = ld_dimension_kind l, br_bucket_code = ld_bucket_code l,
     br_issuer_id = ld_issuer_id l, br_scheme_family = ld_scheme_family l, br_resolved_scheme_id = scheme,
     br_denominator_basis = ld_denominator_basis l, br_scope_portfolio_id = Some (ld_scope_portfolio_id l)\<rparr>"

definition breach_of_run :: "'a gov_db_scheme \<Rightarrow> string \<Rightarrow> string \<Rightarrow> breach option" where
  "breach_of_run db lid rid =
     one_or_none (filter (\<lambda>b. br_limit_id b = lid \<and> br_run_id b = rid) (breaches db))"

definition evaluate_limit ::
  "env \<Rightarrow> limit_definition \<Rightarrow> pydatetime \<Rightarrow> 'a gov_db_scheme
     \<Rightarrow> limit_error + ('a gov_db_scheme \<times> breach option)" where
  "evaluate_limit E l now db =
     (if ld_status l \<noteq> ''ACTIVE'' then Inr (db, None)
      else bindR (resolve_latest db l) (\<lambda>res.
      if \<not> is_resolved res then Inr (db, None)
      else let rid = the (rs_run_id res); observed = the (rs_observed res) in
      bindR (breach_condition observed (ld_threshold l) (ld_direction l)) (\<lambda>breaching.
      if \<not> breaching then Inr (db, None)
      else (case breach_of_run db (ld_id l) rid of
              Some b \<Rightarrow> Inr (db, Some b)
            | None \<Rightarrow>
              (case bind_numeric 34 12 observed of
                 None \<Rightarrow> Inl NumericRefused
               | Some stored \<Rightarrow>
                 let b = breach_row l (uuid E ''breach'' (length (breaches db))) rid stored (rs_scheme_id res) now
                 in Inr (record_breach_event E b observed (ld_threshold l)
                           (db\<lparr>breaches := breaches db @ [b]\<rparr>), Some b))))))"

text \<open>
  \<open>poll_tenant_breaches\<close> of \<open>irp_worker/breaches.py\<close>: each limit in its own savepoint; only a
  breach detected at this very instant is reported as new.
\<close>

text \<open>\<open>==\<close> of two datetimes: a naive and an aware one are never equal.\<close>

fun dt_equal :: "pydatetime \<Rightarrow> pydatetime \<Rightarrow> bool" where
  "dt_equal (Naive a) (Naive b) = (a = b)"
| "dt_equal (Aware a u) (Aware b v) = (a - u = b - v)"
| "dt_equal _ _ = False"

fun evaluate_each ::
  "env \<Rightarrow> pydatetime \<Rightarrow> limit_definition list \<Rightarrow> 'a gov_db_scheme
     \<Rightarrow> 'a gov_db_scheme \<times> (string \<times> string option) list" where
  "evaluate_each E now [] db = (db, [])"
| "evaluate_each E now (l # ls) db =
     (case evaluate_limit E l now db of
        Inl e \<Rightarrow> (let (db2, rs) = evaluate_each E now ls db in (db2, (ld_id l, None) # rs))
      | Inr (db1, b) \<Rightarrow>
          let (db2, rs) = evaluate_each E now ls db1
          in (db2, (ld_id l, (case b of None \<Rightarrow> None
                              | Some x \<Rightarrow> if dt_equal (br_detected_at x) now then Some (br_id x) else None)) # rs))"

definition poll_tenant_breaches ::
  "env \<Rightarrow> pydatetime \<Rightarrow> string \<Rightarrow> 'a gov_db_scheme \<Rightarrow> 'a gov_db_scheme \<times> (string \<times> string option) list" where
  "poll_tenant_breaches E now tenant db = evaluate_each E now (select_active_limits db tenant True) db"

section \<open>Health\<close>

record limit_health_row =
  lh_limit_id :: string
  lh_code :: string
  lh_state :: string
  lh_latest_run_id :: "string option"
  lh_latest_breach_id :: "string option"
  lh_latest_run_failed :: bool
  lh_scheme_drift :: "(string \<times> string) option"
  lh_refusal_reason :: "string option"

definition superseded_by_a_failed_run :: "'a gov_db_scheme \<Rightarrow> limit_definition \<Rightarrow> string \<Rightarrow> bool" where
  "superseded_by_a_failed_run db l rid =
     (case one_or_none (filter (\<lambda>c. run_id c = rid) (calc_runs db)) of
        None \<Rightarrow> False
      | Some c \<Rightarrow> list_ex (\<lambda>f. run_tenant f = ld_tenant l \<and> run_type f = ld_target_run_type l \<and>
            run_scope_portfolio_id f = Some (ld_scope_portfolio_id l) \<and> run_status f = ''FAILED'' \<and>
            utc_of (run_system_from c) < utc_of (run_system_from f)) (calc_runs db))"

definition health_of :: "'a gov_db_scheme \<Rightarrow> limit_definition \<Rightarrow> limit_error + limit_health_row" where
  "health_of db l =
     bindR (resolve_latest db l) (\<lambda>res.
     let base = \<lparr>lh_limit_id = ld_id l, lh_code = ld_code l, lh_state = ''NEVER_EVALUABLE'',
                 lh_latest_run_id = None, lh_latest_breach_id = None, lh_latest_run_failed = False,
                 lh_scheme_drift = None, lh_refusal_reason = None\<rparr> in
     if rs_refusal res \<noteq> None then Inr (base\<lparr>lh_state := ''REFUSED'', lh_refusal_reason := rs_refusal res\<rparr>)
     else if \<not> is_resolved res then Inr base
     else let rid = the (rs_run_id res); observed = the (rs_observed res) in
     bindR (breach_condition observed (ld_threshold l) (ld_direction l)) (\<lambda>breaching.
     Inr (base\<lparr>
       lh_state := (if breaching then ''BREACHED'' else ''IN_APPETITE''),
       lh_latest_run_id := Some rid,
       lh_latest_breach_id := map_option br_id (breach_of_run db (ld_id l) rid),
       lh_latest_run_failed := superseded_by_a_failed_run db l rid,
       lh_scheme_drift := (case (nonempty (ld_authored_scheme_id l), nonempty (rs_scheme_id res)) of
          (Some a, Some r) \<Rightarrow> if a \<noteq> r then Some (a, r) else None | _ \<Rightarrow> None)\<rparr>)))"

fun health_each :: "'a gov_db_scheme \<Rightarrow> limit_definition list \<Rightarrow> limit_error + limit_health_row list" where
  "health_each db [] = Inr []"
| "health_each db (l # ls) =
     bindR (health_of db l) (\<lambda>h. bindR (health_each db ls) (\<lambda>hs. Inr (h # hs)))"

definition limit_health ::
  "'a gov_db_scheme \<Rightarrow> string \<Rightarrow> bool \<Rightarrow> limit_error + limit_health_row list" where
  "limit_health db tenant detail = health_each db (select_active_limits db tenant detail)"

section \<open>What the operations change\<close>

lemma log_event_gov [row_simps]:
  "calc_runs (log_event E f tm db) = calc_runs db" "var_results (log_event E f tm db) = var_results db"
  "active_risk_results (log_event E f tm db) = active_risk_results db"
  "concentration_results (log_event E f tm db) = concentration_results db"
  "class_nodes (log_event E f tm db) = class_nodes db"
  by (simp_all add: log_event_eq)

lemma record_limit_frame [row_simps]:
  "limit_definitions (record_limit_event E l ty act bf af who ref db) = limit_definitions db"
  "breaches (record_limit_event E l ty act bf af who ref db) = breaches db"
  "breach_actions (record_limit_event E l ty act bf af who ref db) = breach_actions db"
  by (simp_all add: record_limit_event_def row_simps)

lemma record_breach_frame [row_simps]:
  "limit_definitions (record_breach_event E b o1 t1 db) = limit_definitions db"
  "breaches (record_breach_event E b o1 t1 db) = breaches db"
  "breach_actions (record_breach_event E b o1 t1 db) = breach_actions db"
  "calc_runs (record_breach_event E b o1 t1 db) = calc_runs db"
  "var_results (record_breach_event E b o1 t1 db) = var_results db"
  "active_risk_results (record_breach_event E b o1 t1 db) = active_risk_results db"
  "concentration_results (record_breach_event E b o1 t1 db) = concentration_results db"
  "class_nodes (record_breach_event E b o1 t1 db) = class_nodes db"
  by (simp_all add: record_breach_event_def row_simps)

lemma apply_changes_threshold [simp]: "ld_threshold (apply_changes l ch d s who) = s"
  by (simp add: apply_changes_def)

lemma find_limit_Inr:
  "find_limit db lid t = Inr l \<Longrightarrow> l \<in> set (limit_definitions db) \<and> ld_id l = lid \<and> ld_tenant l = t"
proof -
  assume "find_limit db lid t = Inr l"
  then have "filter (\<lambda>l. ld_id l = lid \<and> ld_tenant l = t) (limit_definitions db) = [l]"
    by (simp add: find_limit_def one_or_none_Some split: option.splits)
  then have "l \<in> set (filter (\<lambda>l. ld_id l = lid \<and> ld_tenant l = t) (limit_definitions db))" by simp
  then show ?thesis by simp
qed

section \<open>The maker-checker gate\<close>

definition governing :: "limit_definition \<Rightarrow> rat \<times> string \<times> string" where
  "governing l = (dec_val (ld_threshold l), ld_kind l, ld_direction l)"

lemma create_limit_Inr:
  assumes "create_limit E inp who db = Inr (db', l)"
  shows "limit_definitions db' = limit_definitions db @ [l]" "ld_status l = ''DRAFT''"
    "ld_id l = uuid E ''limit_definition'' (length (limit_definitions db))"
    "\<exists>q. ld_threshold l = Fin q (- 12)" "ld_created_by l = Some (act_id who)"
    "validate_config (normalize_input inp) ''DRAFT'' = Inr ()"
    "\<exists>d. threshold_of (li_threshold inp) = Inr d \<and> bind_numeric 34 12 d = Some (ld_threshold l) \<and>
       l = limit_row (normalize_input inp) (ld_id l) (ld_threshold l) who"
  using assms bind_numeric_form[of 34 12]
  by (auto simp: create_limit_def Let_def res_simps row_simps limit_row_def normalize_input_def
      split: if_splits option.splits)

lemma update_limit_cases:
  assumes "update_limit E lid t who ch db = Inr (db', l')"
    and that: "\<And>l th. \<lbrakk>find_limit db lid t = Inr l;
      \<not> (ch_status ch \<noteq> None \<and> governing_value_changed l ch th);
      \<not> (ch_status ch \<noteq> None \<and> (ch_status ch = Some ''DRAFT'' \<or> ld_status l = ''DRAFT''));
      (case th of None \<Rightarrow> Some (ld_threshold l) | Some d \<Rightarrow> bind_numeric 34 12 d) = Some (ld_threshold l');
      l' = apply_changes l ch (governing_value_changed l ch th \<and> ld_status l \<noteq> ''DRAFT'') (ld_threshold l') who;
      limit_definitions db' = limit_definitions (put_limit l' db)\<rbrakk> \<Longrightarrow> P"
  shows P
proof -
  obtain l th where l: "find_limit db lid t = Inr l"
    and r: "(let governing = governing_value_changed l ch th in
     if ch_status ch \<noteq> None \<and> governing then Inl (LimitError ''status with governing change'')
     else if ch_status ch \<noteq> None \<and> (ch_status ch = Some ''DRAFT'' \<or> ld_status l = ''DRAFT'')
     then Inl LimitStateError
     else
     let demote = governing \<and> ld_status l \<noteq> ''DRAFT'' in
     case (case th of None \<Rightarrow> Some (ld_threshold l) | Some d \<Rightarrow> bind_numeric 34 12 d) of
       None \<Rightarrow> Inl NumericRefused
     | Some stored \<Rightarrow>
       let l' = apply_changes l ch demote stored who
       in Inr (record_limit_event E l' ''LIMIT.CHANGE'' ''update''
                 (Some (change_values ch demote l (ld_threshold l)))
                 (change_values ch demote l' (or_else th stored)) who None (put_limit l' db), l')) = Inr (db', l')"
    using assms(1) unfolding update_limit_def bindR_Inr by (elim exE conjE) (rule that)
  obtain stored where st: "(case th of None \<Rightarrow> Some (ld_threshold l) | Some d \<Rightarrow> bind_numeric 34 12 d) = Some stored"
    using r by (cases "case th of None \<Rightarrow> Some (ld_threshold l) | Some d \<Rightarrow> bind_numeric 34 12 d")
      (simp_all add: Let_def split: if_splits)
  have guards: "\<not> (ch_status ch \<noteq> None \<and> governing_value_changed l ch th)"
    "\<not> (ch_status ch \<noteq> None \<and> (ch_status ch = Some ''DRAFT'' \<or> ld_status l = ''DRAFT''))"
    using r by (auto simp only: Let_def sum.distinct if_True if_False split: if_splits)
  have eqs: "l' = apply_changes l ch (governing_value_changed l ch th \<and> ld_status l \<noteq> ''DRAFT'') stored who"
    "limit_definitions db' = limit_definitions (put_limit l' db)"
    using r unfolding Let_def if_not_P[OF guards(1)] if_not_P[OF guards(2)] st
    by (simp_all add: row_simps) (metis row_simps(1) record_limit_frame(1))
  then have "ld_threshold l' = stored" by simp
  then show ?thesis using that[OF l guards] st eqs by simp
qed

lemma update_limit_Inr:
  assumes "update_limit E lid t who ch db = Inr (db', l')"
  shows "\<exists>l. find_limit db lid t = Inr l \<and> limit_definitions db' = limit_definitions (put_limit l' db) \<and>
    ld_id l' = ld_id l \<and> ld_updated_by l' = Some (act_id who) \<and> ld_created_by l' = ld_created_by l \<and>
    ((\<exists>q. ld_threshold l = Fin q (- 12)) \<longrightarrow> (\<exists>q. ld_threshold l' = Fin q (- 12))) \<and>
    (ld_status l' \<noteq> ''DRAFT'' \<longrightarrow> ld_status l \<noteq> ''DRAFT'' \<and>
       ((\<exists>q. ld_threshold l = Fin q (- 12)) \<longrightarrow> governing l' = governing l))"
proof -
  obtain l th where l: "find_limit db lid t = Inr l"
    "\<not> (ch_status ch \<noteq> None \<and> governing_value_changed l ch th)"
    "\<not> (ch_status ch \<noteq> None \<and> (ch_status ch = Some ''DRAFT'' \<or> ld_status l = ''DRAFT''))"
    and stored: "(case th of None \<Rightarrow> Some (ld_threshold l) | Some d \<Rightarrow> bind_numeric 34 12 d) = Some (ld_threshold l')"
    and row: "l' = apply_changes l ch (governing_value_changed l ch th \<and> ld_status l \<noteq> ''DRAFT'') (ld_threshold l') who"
    and db': "limit_definitions db' = limit_definitions (put_limit l' db)"
    by (rule update_limit_cases[OF assms])
  have form: "\<exists>q. ld_threshold l' = Fin q (- 12)" if "\<exists>q. ld_threshold l = Fin q (- 12)"
  proof (cases th)
    case None
    then show ?thesis using stored that by simp
  next
    case (Some d)
    then show ?thesis using stored bind_numeric_form[of 34 12 d "ld_threshold l'"] by simp
  qed
  have gov: "governing l' = governing l"
    if "\<not> governing_value_changed l ch th" and form_l: "\<exists>q. ld_threshold l = Fin q (- 12)"
  proof -
    obtain q where q: "ld_threshold l = Fin q (- 12)" using form_l by blast
    have "ld_threshold l' = ld_threshold l"
    proof (cases th)
      case (Some d)
      then have "same_number d (ld_threshold l)" using that(1) by (simp add: governing_value_changed_def)
      then have "is_finite d" "dec_val d = dec_val (Fin q (- int 12))" by (simp_all add: same_number_def q)
      then show ?thesis using bind_numeric_exact[of d q 12 34 "ld_threshold l'"] stored Some q by simp
    qed (use stored in simp)
    moreover have "or_else (ch_kind ch) (ld_kind l) = ld_kind l"
      "or_else (ch_direction ch) (ld_direction l) = ld_direction l"
      using that(1) by (auto simp: governing_value_changed_def or_else_def split: option.splits)
    ultimately show ?thesis by (subst row) (simp add: governing_def apply_changes_def)
  qed
  have st_eq: "ld_status l' = (if governing_value_changed l ch th \<and> ld_status l \<noteq> ''DRAFT'' then ''DRAFT''
      else or_else (ch_status ch) (ld_status l))"
    by (subst row) (simp add: apply_changes_def)
  have st: "ld_status l \<noteq> ''DRAFT'' \<and> \<not> governing_value_changed l ch th" if "ld_status l' \<noteq> ''DRAFT''"
    using that l(2,3) st_eq by (cases "ch_status ch") (auto simp: or_else_def split: if_splits)
  have "ld_id l' = ld_id l" "ld_updated_by l' = Some (act_id who)" "ld_created_by l' = ld_created_by l"
    by (subst row, simp add: apply_changes_def)+
  then show ?thesis using l(1) db' form gov st by blast
qed

lemma approve_limit_Inr:
  assumes "approve_limit E lid t who ref db = Inr (db', l')"
  shows "\<exists>l. find_limit db lid t = Inr l \<and> act_type who = ''user'' \<and> ld_status l = ''DRAFT'' \<and>
    makers_of l \<noteq> [] \<and> act_id who \<notin> set (makers_of l) \<and>
    l' = l\<lparr>ld_status := ''ACTIVE'', ld_version := ld_version l + 1\<rparr> \<and>
    limit_definitions db' = limit_definitions (put_limit l' db)"
  using assms unfolding approve_limit_def Let_def
  by (auto simp: res_simps row_simps split: if_splits)

text \<open>
  The life of the limits of the database, with the calls that returned kept beside it, the newest
  first: each with the id its caller presented and, for an approval, the actor type and the
  governing values of the row that was approved. The constructor of \<open>LimitActor\<close> canonicalizes the
  presented id. Every other operation of the platform leaves the table of limits alone; a new row
  has a fresh id (the primary key).
\<close>

datatype limit_call =
    CallCreate string string
  | CallUpdate string string
  | CallApprove string "rat \<times> string \<times> string" string string

inductive limits_reachable :: "env \<Rightarrow> 'a gov_db_scheme \<Rightarrow> limit_call list \<Rightarrow> bool" for E where
  start: "limit_definitions db = [] \<Longrightarrow> limits_reachable E db []"
| create: "limits_reachable E db calls \<Longrightarrow> create_limit E inp (breach_actor i ty) db = Inr (db', l) \<Longrightarrow>
    ld_id l \<notin> ld_id ` set (limit_definitions db) \<Longrightarrow> limits_reachable E db' (CallCreate (ld_id l) i # calls)"
| update: "limits_reachable E db calls \<Longrightarrow> update_limit E lid t (breach_actor i ty) ch db = Inr (db', l) \<Longrightarrow>
    limits_reachable E db' (CallUpdate lid i # calls)"
| approve: "limits_reachable E db calls \<Longrightarrow> approve_limit E lid t (breach_actor i ty) ref db = Inr (db', l) \<Longrightarrow>
    limits_reachable E db' (CallApprove lid (governing l) i ty # calls)"
| other: "limits_reachable E db calls \<Longrightarrow> limit_definitions db' = limit_definitions db \<Longrightarrow> limits_reachable E db' calls"

text \<open>Who created a limit, who edited it last, and its last approval with the calls before that.\<close>

fun creator_of :: "string \<Rightarrow> limit_call list \<Rightarrow> string option" where
  "creator_of lid [] = None"
| "creator_of lid (CallCreate k i # calls) = (if k = lid then Some i else creator_of lid calls)"
| "creator_of lid (_ # calls) = creator_of lid calls"

fun last_editor :: "string \<Rightarrow> limit_call list \<Rightarrow> string option" where
  "last_editor lid [] = None"
| "last_editor lid (CallUpdate k i # calls) = (if k = lid then Some i else last_editor lid calls)"
| "last_editor lid (_ # calls) = last_editor lid calls"

fun last_approval ::
  "string \<Rightarrow> limit_call list \<Rightarrow> ((rat \<times> string \<times> string) \<times> string \<times> string \<times> limit_call list) option" where
  "last_approval lid [] = None"
| "last_approval lid (CallApprove k g i ty # calls) =
     (if k = lid then Some (g, i, ty, calls) else last_approval lid calls)"
| "last_approval lid (_ # calls) = last_approval lid calls"

definition approved :: "limit_call list \<Rightarrow> limit_definition \<Rightarrow> bool" where
  "approved calls l \<longleftrightarrow> (\<exists>i earlier c. last_approval (ld_id l) calls = Some (governing l, i, ''user'', earlier) \<and>
     creator_of (ld_id l) earlier = Some c \<and> \<not> same_user_id i c \<and>
     (\<forall>e. last_editor (ld_id l) earlier = Some e \<longrightarrow> \<not> same_user_id i e))"

definition limit_traced :: "limit_call list \<Rightarrow> limit_definition \<Rightarrow> bool" where
  "limit_traced calls l \<longleftrightarrow> (\<exists>q. ld_threshold l = Fin q (- 12)) \<and> creator_of (ld_id l) calls \<noteq> None \<and>
     ld_created_by l = map_option canonical_actor_id (creator_of (ld_id l) calls) \<and>
     ld_updated_by l = map_option canonical_actor_id (last_editor (ld_id l) calls) \<and>
     (ld_status l \<noteq> ''DRAFT'' \<longrightarrow> approved calls l)"

definition limits_ok :: "limit_call list \<Rightarrow> limit_definition list \<Rightarrow> bool" where
  "limits_ok calls ls \<longleftrightarrow> (\<forall>l\<in>set ls. limit_traced calls l) \<and>
     (\<forall>lid. lid \<notin> ld_id ` set ls \<longrightarrow> last_editor lid calls = None)"

lemma limit_row_updated: "ld_updated_by (limit_row inp lid s who) = None"
  by (simp add: limit_row_def)

lemma put_limit_rows:
  "x \<in> set (limit_definitions (put_limit l db)) \<Longrightarrow> x = l \<or> x \<in> set (limit_definitions db) \<and> ld_id x \<noteq> ld_id l"
  by (auto simp: put_limit_def split: if_splits)

lemma put_limit_id_set:
  "ld_id ` set (limit_definitions (put_limit l db)) = ld_id ` set (limit_definitions db)"
proof -
  have "map ld_id (limit_definitions (put_limit l db)) = map ld_id (limit_definitions db)"
    by (simp add: put_limit_def)
  then show ?thesis by (metis set_map)
qed

lemma limits_ok_put:
  assumes "limits_ok calls (limit_definitions db)" "limit_definitions db' = limit_definitions (put_limit l' db)"
    and "ld_id l' = lid" "lid \<in> ld_id ` set (limit_definitions db)" "limit_traced (c # calls) l'"
    and "\<And>x. ld_id x \<noteq> lid \<Longrightarrow> limit_traced (c # calls) x = limit_traced calls x"
    and "\<And>k. k \<noteq> lid \<Longrightarrow> last_editor k (c # calls) = last_editor k calls"
  shows "limits_ok (c # calls) (limit_definitions db')"
  unfolding limits_ok_def assms(2)
proof (intro conjI ballI allI impI)
  fix x assume "x \<in> set (limit_definitions (put_limit l' db))"
  from put_limit_rows[OF this] consider "x = l'" | "x \<in> set (limit_definitions db)" "ld_id x \<noteq> lid"
    unfolding assms(3) by blast
  then show "limit_traced (c # calls) x"
    by cases (use assms(1,5,6) in \<open>simp_all add: limits_ok_def\<close>)
next
  fix k assume "k \<notin> ld_id ` set (limit_definitions (put_limit l' db))"
  then have "k \<notin> ld_id ` set (limit_definitions db)" by (simp only: put_limit_id_set not_False_eq_True)
  then have "last_editor k calls = None" "k \<noteq> lid" using assms(1,4) unfolding limits_ok_def by blast+
  then show "last_editor k (c # calls) = None" using assms(7) by simp
qed

lemma not_maker:
  assumes "canonical_actor_id i \<notin> set (makers_of l)"
    and "ld_created_by l = map_option canonical_actor_id c" "ld_updated_by l = map_option canonical_actor_id e"
  shows "c = Some x \<Longrightarrow> \<not> same_user_id i x" "e = Some y \<Longrightarrow> \<not> same_user_id i y"
  using assms same_user_canonical[of i] by (auto simp: makers_of_def set_insort_key)

lemma limits_reachable_ok: "limits_reachable E db calls \<Longrightarrow> limits_ok calls (limit_definitions db)"
proof (induction rule: limits_reachable.induct)
  case (start db)
  then show ?case by (simp add: limits_ok_def)
next
  case (create db calls inp i ty db' l)
  note row = create_limit_Inr[OF create.hyps(2)]
  have up: "ld_updated_by l = None" using row(7) by (metis limit_row_updated)
  have new: "limit_traced (CallCreate (ld_id l) i # calls) l"
    using row(2,4,5) up create.IH create.hyps(3) by (simp add: limit_traced_def limits_ok_def breach_actor_def)
  have old: "limit_traced (CallCreate (ld_id l) i # calls) x" if "x \<in> set (limit_definitions db)" for x
  proof -
    have "ld_id x \<noteq> ld_id l" using imageI[OF that, of ld_id] create.hyps(3) by metis
    then show ?thesis using create.IH that by (simp add: limits_ok_def limit_traced_def approved_def)
  qed
  show ?case using create.IH new old by (simp add: limits_ok_def row(1))
next
  case (update db calls lid t i ty ch db' l')
  obtain l where l: "find_limit db lid t = Inr l" "limit_definitions db' = limit_definitions (put_limit l' db)"
    "ld_id l' = ld_id l" "ld_updated_by l' = Some (act_id (breach_actor i ty))" "ld_created_by l' = ld_created_by l"
    "(\<exists>q. ld_threshold l = Fin q (- 12)) \<longrightarrow> (\<exists>q. ld_threshold l' = Fin q (- 12))"
    "ld_status l' \<noteq> ''DRAFT'' \<longrightarrow> ld_status l \<noteq> ''DRAFT'' \<and>
       ((\<exists>q. ld_threshold l = Fin q (- 12)) \<longrightarrow> governing l' = governing l)"
    using update_limit_Inr[OF update.hyps(2)] by blast
  have mem: "l \<in> set (limit_definitions db)" "ld_id l = lid" using find_limit_Inr[OF l(1)] by blast+
  then have tr: "limit_traced calls l" using update.IH by (simp add: limits_ok_def)
  show ?case
  proof (rule limits_ok_put[OF update.IH l(2), where lid = lid])
    show "limit_traced (CallUpdate lid i # calls) l'"
      using tr l(3-7) mem(2) by (auto simp: limit_traced_def approved_def breach_actor_def)
  qed (use mem l(3) in \<open>auto simp: limit_traced_def approved_def\<close>)
next
  case (approve db calls lid t i ty ref db' l')
  obtain l where l: "find_limit db lid t = Inr l" "act_type (breach_actor i ty) = ''user''"
    "act_id (breach_actor i ty) \<notin> set (makers_of l)" "l' = l\<lparr>ld_status := ''ACTIVE'', ld_version := ld_version l + 1\<rparr>"
    "limit_definitions db' = limit_definitions (put_limit l' db)"
    using approve_limit_Inr[OF approve.hyps(2)] by blast
  have mem: "l \<in> set (limit_definitions db)" "ld_id l = lid" using find_limit_Inr[OF l(1)] by blast+
  then have tr: "limit_traced calls l" using approve.IH by (simp add: limits_ok_def)
  then obtain c where c: "creator_of lid calls = Some c" using mem(2) by (auto simp: limit_traced_def)
  have stamps: "ld_created_by l = map_option canonical_actor_id (creator_of lid calls)"
    "ld_updated_by l = map_option canonical_actor_id (last_editor lid calls)"
    using tr mem(2) by (simp_all add: limit_traced_def)
  have "canonical_actor_id i \<notin> set (makers_of l)" using l(3) by (simp add: breach_actor_def)
  note other = not_maker[OF this stamps]
  have "approved (CallApprove lid (governing l') i ty # calls) l'"
    unfolding approved_def using l(2,4) mem(2) c other by (auto simp: breach_actor_def)
  then have new: "limit_traced (CallApprove lid (governing l') i ty # calls) l'"
    using tr l(4) mem(2) by (simp add: limit_traced_def)
  show ?case
    by (rule limits_ok_put[OF approve.IH l(5), where lid = lid])
      (use mem l(4) new in \<open>auto simp: limit_traced_def approved_def\<close>)
next
  case (other db calls db')
  then show ?case by simp
qed

text \<open>
  C9. Maker-checker: whatever calls led to the database, a limit that is ACTIVE or SUSPENDED carries
  exactly the threshold, kind and direction of its last approval, and that approving call was made
  by a human who presented neither the id of the call that created the limit nor the id of the last
  call that had edited it before (suspending and resuming are edits), in any spelling of one UUID.
\<close>

theorem active_limit_was_approved_as_is:
  assumes "limits_reachable E db calls" "l \<in> set (limit_definitions db)" "ld_status l \<noteq> ''DRAFT''"
  shows "\<exists>i earlier c. last_approval (ld_id l) calls = Some (governing l, i, ''user'', earlier) \<and>
    creator_of (ld_id l) earlier = Some c \<and> \<not> same_user_id i c \<and>
    (case last_editor (ld_id l) earlier of None \<Rightarrow> True | Some e \<Rightarrow> \<not> same_user_id i e)"
proof -
  have "approved calls l" using limits_reachable_ok[OF assms(1)] assms(2,3) by (simp add: limits_ok_def limit_traced_def)
  then show ?thesis unfolding approved_def by (auto split: option.split)
qed

text \<open>The rows have distinct ids (the primary key), so a written row is the one read back.\<close>

definition ids_distinct :: "'a gov_db_scheme \<Rightarrow> bool" where
  "ids_distinct db \<longleftrightarrow> distinct (map ld_id (limit_definitions db))"

lemma filter_map_replace:
  assumes "distinct (map f xs)" "x \<in> set xs" "f y = f x" "P y" "\<And>z. P z \<Longrightarrow> f z = f x"
  shows "filter P (map (\<lambda>z. if f z = f y then y else z) xs) = [y]"
  using assms(1,2)
proof (induction xs)
  case (Cons z zs)
  show ?case
  proof (cases "f z = f x")
    case True
    have "f w \<noteq> f x" if "w \<in> set zs" for w
      using that Cons.prems(1) True by (metis distinct.simps(2) image_eqI list.set_map list.simps(9))
    then have "map (\<lambda>z. if f z = f y then y else z) zs = zs" "filter P zs = []"
      using assms(3,5) by (auto simp: filter_empty_conv intro!: map_idI)
    then show ?thesis using True assms(3,4) by simp
  next
    case False
    then show ?thesis using Cons assms(3,5) by auto
  qed
qed simp

lemma find_put:
  assumes "ids_distinct db" "find_limit db lid t = Inr l" "ld_id l' = ld_id l" "ld_tenant l' = ld_tenant l"
    "limit_definitions db' = limit_definitions (put_limit l' db)"
  shows "find_limit db' lid t = Inr l'"
proof -
  have l: "l \<in> set (limit_definitions db)" "ld_id l = lid" "ld_tenant l = t"
    using find_limit_Inr[OF assms(2)] by auto
  have "filter (\<lambda>l. ld_id l = lid \<and> ld_tenant l = t) (limit_definitions db') = [l']"
    unfolding assms(5) put_limit_def
    using filter_map_replace[of ld_id "limit_definitions db" l l' "\<lambda>l. ld_id l = lid \<and> ld_tenant l = t"]
      assms(1,3,4) l by (simp add: ids_distinct_def)
  then show ?thesis by (simp add: find_limit_def one_or_none_def)
qed

lemma put_limit_ids: "map ld_id (limit_definitions (put_limit l' db)) = map ld_id (limit_definitions db)"
  by (simp add: put_limit_def)

lemma ids_distinct_put:
  "ids_distinct db \<Longrightarrow> limit_definitions db' = limit_definitions (put_limit l' db) \<Longrightarrow> ids_distinct db'"
  using put_limit_ids[of l' db] by (simp add: ids_distinct_def del: map_eq_conv)

text \<open>How the three operations answer when their guards pass.\<close>

lemma approve_limit_ok:
  assumes "find_limit db lid t = Inr l" "ld_status l = ''DRAFT''" "act_type who = ''user''" "py_strip ref \<noteq> []"
    "makers_of l \<noteq> []" "act_id who \<notin> set (makers_of l)"
  shows "\<exists>db'. approve_limit E lid t who ref db = Inr (db', l\<lparr>ld_status := ''ACTIVE'', ld_version := ld_version l + 1\<rparr>)"
  using assms by (simp add: approve_limit_def Let_def)

lemma rename_draft_ok:
  assumes "find_limit db lid t = Inr l" "ld_status l = ''DRAFT''"
  shows "\<exists>db'. update_limit E lid t who (no_changes\<lparr>ch_name := Some n\<rparr>) db =
      Inr (db', l\<lparr>ld_name := n, ld_updated_by := Some (act_id who), ld_version := ld_version l + 1\<rparr>) \<and>
    limit_definitions db' = limit_definitions
      (put_limit (l\<lparr>ld_name := n, ld_updated_by := Some (act_id who), ld_version := ld_version l + 1\<rparr>) db)"
  using assms by (simp add: update_limit_def no_changes_def validate_changes_def governing_value_changed_def
      apply_changes_def or_else_def row_simps Let_def)

lemma same_status: "ld_status l = st \<Longrightarrow> l\<lparr>ld_threshold := x, ld_status := st, ld_updated_by := y, ld_version := z\<rparr>
    = l\<lparr>ld_threshold := x, ld_updated_by := y, ld_version := z\<rparr>"
  by (cases l) simp

lemma rethreshold_draft_ok:
  assumes "find_limit db lid t = Inr l" "ld_status l = ''DRAFT''" "0 < c" "bind_numeric 34 12 (Fin c e) = Some s"
  shows "\<exists>db'. update_limit E lid t who (no_changes\<lparr>ch_threshold := Some (Inl (Fin c e))\<rparr>) db =
      Inr (db', l\<lparr>ld_threshold := s, ld_updated_by := Some (act_id who), ld_version := ld_version l + 1\<rparr>) \<and>
    limit_definitions db' = limit_definitions
      (put_limit (l\<lparr>ld_threshold := s, ld_updated_by := Some (act_id who), ld_version := ld_version l + 1\<rparr>) db)"
  using assms by (simp add: update_limit_def no_changes_def validate_changes_def check_positive_def threshold_of_def
      apply_changes_def or_else_def row_simps Let_def same_status del: bind_numeric.simps)

text \<open>
  The makers the approval excludes are the creator and the LAST editor only: when A has drafted
  a limit, B gives it any other threshold and C then renames it, B may approve the threshold B set.
\<close>

lemma earlier_editor_may_approve:
  assumes "ids_distinct db" "find_limit db lid t = Inr l" "ld_status l = ''DRAFT''" "ld_created_by l = Some a"
    "act_id b \<noteq> a" "act_id b \<noteq> act_id c" "act_type b = ''user''" "py_strip ref \<noteq> []"
    "0 < k" "bind_numeric 34 12 (Fin k e) = Some s"
  shows "\<exists>db' l'. bindR (update_limit E lid t b (no_changes\<lparr>ch_threshold := Some (Inl (Fin k e))\<rparr>) db) (\<lambda>(db1, _).
      bindR (update_limit E lid t c (no_changes\<lparr>ch_name := Some n\<rparr>) db1) (\<lambda>(db2, _).
      approve_limit E lid t b ref db2)) = Inr (db', l') \<and> ld_status l' = ''ACTIVE'' \<and> ld_threshold l' = s"
proof -
  define l1 where "l1 = l\<lparr>ld_threshold := s, ld_updated_by := Some (act_id b), ld_version := ld_version l + 1\<rparr>"
  define l2 where "l2 = l1\<lparr>ld_name := n, ld_updated_by := Some (act_id c), ld_version := ld_version l1 + 1\<rparr>"
  obtain db1 where 1: "update_limit E lid t b (no_changes\<lparr>ch_threshold := Some (Inl (Fin k e))\<rparr>) db = Inr (db1, l1)"
    "limit_definitions db1 = limit_definitions (put_limit l1 db)"
    unfolding l1_def using rethreshold_draft_ok[OF assms(2,3,9,10)] by blast
  have f1: "find_limit db1 lid t = Inr l1" by (rule find_put[OF assms(1,2) _ _ 1(2)]) (simp_all add: l1_def)
  have "ld_status l1 = ''DRAFT''" using assms(3) by (simp add: l1_def)
  then obtain db2 where 2: "update_limit E lid t c (no_changes\<lparr>ch_name := Some n\<rparr>) db1 = Inr (db2, l2)"
    "limit_definitions db2 = limit_definitions (put_limit l2 db1)"
    unfolding l2_def using rename_draft_ok[OF f1] by blast
  have f2: "find_limit db2 lid t = Inr l2"
    by (rule find_put[OF ids_distinct_put[OF assms(1) 1(2)] f1 _ _ 2(2)]) (simp_all add: l2_def)
  have "makers_of l2 \<noteq> []" "act_id b \<notin> set (makers_of l2)" "ld_status l2 = ''DRAFT''"
    using assms(3-6) by (auto simp: makers_of_def l2_def l1_def)
  then obtain db3 where "approve_limit E lid t b ref db2 = Inr (db3, l2\<lparr>ld_status := ''ACTIVE'', ld_version := ld_version l2 + 1\<rparr>)"
    using approve_limit_ok[OF f2 _ assms(7,8)] by blast
  then show ?thesis using 1(1) 2(1) by (simp add: l2_def l1_def)
qed

section \<open>What a created limit is\<close>

lemma check_positive_Inr: "check_positive v = Inr () \<Longrightarrow> \<exists>d. threshold_of v = Inr d \<and> le_zero d = Some False"
  by (auto simp: check_positive_def res_simps split: option.splits if_splits)

lemma validate_config_Inr:
  assumes "validate_config i st = Inr ()"
  shows "\<exists>spec. metric_map (li_target_run_type i) (li_metric_type i) = Some spec \<and> ms_unit spec = li_unit i \<and>
    validate_dimensional_config i = Inr () \<and> li_direction i \<in> {''ABOVE'', ''BELOW''} \<and>
    check_positive (li_threshold i) = Inr ()"
  using assms by (auto simp: validate_config_def res_simps split: option.splits if_splits)

lemma nonempty_iff: "nonempty v \<noteq> None \<longleftrightarrow> truthy v"
  by (simp add: nonempty_def truthy_def split: option.splits)

lemma limit_row_sel:
  "ld_target_run_type (limit_row i lid s who) = li_target_run_type i"
  "ld_metric_type (limit_row i lid s who) = li_metric_type i"
  "ld_unit (limit_row i lid s who) = li_unit i" "ld_threshold (limit_row i lid s who) = s"
  "ld_direction (limit_row i lid s who) = li_direction i"
  "ld_dimension_kind (limit_row i lid s who) = li_dimension_kind i"
  "ld_bucket_code (limit_row i lid s who) = li_bucket_code i"
  "ld_issuer_id (limit_row i lid s who) = nonempty (li_issuer_id i)"
  "ld_scheme_family (limit_row i lid s who) = li_scheme_family i"
  "ld_authored_scheme_id (limit_row i lid s who) = nonempty (li_authored_scheme_id i)"
  "ld_denominator_basis (limit_row i lid s who) = li_denominator_basis i"
  by (simp_all add: limit_row_def)

lemma validated_row_checks:
  assumes "validate_dimensional_config i = Inr ()"
  shows "limit_checks (limit_row i lid s who)"
proof (cases "requires_dimension (li_target_run_type i)")
  case False
  then show ?thesis using assms
    by (simp add: validate_dimensional_config_def limit_checks_def limit_row_sel requires_dimension_def
        nonempty_def truthy_def split: if_splits)
next
  case True
  note run = True[unfolded requires_dimension_def]
  obtain dim where dim: "li_dimension_kind i = Some dim" "dim \<in> set concentration_dimension_kinds"
    using assms True by (auto simp: validate_dimensional_config_def list_ex_iff split: if_splits)
  have basis: "li_denominator_basis i = Some ''INVESTED_LONG''"
    using assms True by (auto simp: validate_dimensional_config_def split: if_splits)
  have issuer: "dim = ''ISSUER'' \<Longrightarrow> li_scheme_family i = None" "dim \<noteq> ''ISSUER'' \<Longrightarrow> li_scheme_family i \<noteq> None"
    "truthy (li_issuer_id i) \<Longrightarrow> dim = ''ISSUER''"
    using assms True by (auto simp: validate_dimensional_config_def dim(1) Let_def split: if_splits)
  have "dim = ''ISSUER'' \<or> dim = ''SECTOR_INDUSTRY'' \<or> dim = ''COUNTRY_OF_RISK''"
    using dim(2) by (auto simp: concentration_dimension_kinds_def)
  then show ?thesis
    using issuer nonempty_iff[of "li_issuer_id i"]
    by (elim disjE) (auto simp: limit_checks_def limit_row_sel dim(1) basis run concentration_dimension_kinds_def)
qed

lemma row_column_error: "row_column c r \<noteq> Inl (LimitError m)"
  by (simp add: row_column_def split: option.splits)

lemma resolve_concentration_error: "resolve_concentration db l spec \<noteq> Inl (LimitError m)"
proof -
  have "bindR (row_column c r) (\<lambda>v. Inr (f v)) \<noteq> Inl (LimitError m)" for c r and f :: "decimal \<Rightarrow> resolution"
    using row_column_error[of c r m] by (cases "row_column c r") auto
  then show ?thesis
    unfolding resolve_concentration_def Let_def
    by (auto split: list.splits option.splits sum.splits class_error.splits simp del: bindR.simps)
qed

lemma mapped_run_type: "metric_map rt mt = Some spec \<Longrightarrow> rt = ''VAR'' \<or> rt = ''ACTIVE_RISK'' \<or> rt = ''CONCENTRATION''"
  by (simp add: metric_map_def split: if_splits)

lemma resolve_latest_error:
  assumes "metric_map (ld_target_run_type l) (ld_metric_type l) = Some spec" "ms_unit spec = ld_unit l"
  shows "resolve_latest db l \<noteq> Inl (LimitError m)"
  using mapped_run_type[OF assms(1)] assms resolve_concentration_error[of db l spec m]
  by (auto simp: resolve_latest_def)

text \<open>
  C11. A limit \<open>create_limit\<close> accepts is born DRAFT with its maker recorded, passes the table's CHECK
  constraints, stores a threshold within half a unit of the twelfth decimal of the positive number
  given, and is one the evaluator knows how to resolve: no later database makes \<open>resolve_latest\<close>
  refuse its metric, its unit or its family.
\<close>

theorem created_limit_is_evaluable:
  assumes "create_limit E inp who db = Inr (db', l)"
  shows "ld_status l = ''DRAFT'' \<and> ld_created_by l = Some (act_id who) \<and> limit_checks l \<and>
    (\<exists>d. threshold_of (li_threshold inp) = Inr d \<and> 0 < dec_val d \<and>
       \<bar>dec_val (ld_threshold l) - dec_val d\<bar> \<le> 1 / (2 * 10 ^ 12)) \<and>
    resolve_latest (db'' :: 'a gov_db_scheme) l \<noteq> Inl (LimitError m)"
proof -
  note c = create_limit_Inr[OF assms]
  obtain d where d: "threshold_of (li_threshold inp) = Inr d" "bind_numeric 34 12 d = Some (ld_threshold l)"
    "l = limit_row (normalize_input inp) (ld_id l) (ld_threshold l) who"
    using c(7) by blast
  obtain spec where spec: "metric_map (li_target_run_type (normalize_input inp)) (li_metric_type (normalize_input inp)) = Some spec"
    "ms_unit spec = li_unit (normalize_input inp)" "validate_dimensional_config (normalize_input inp) = Inr ()"
    "check_positive (li_threshold (normalize_input inp)) = Inr ()"
    using validate_config_Inr[OF c(6)] by blast
  have "limit_checks l" by (subst d(3)) (rule validated_row_checks[OF spec(3)])
  moreover have "ld_target_run_type l = li_target_run_type (normalize_input inp)"
    "ld_metric_type l = li_metric_type (normalize_input inp)" "ld_unit l = li_unit (normalize_input inp)"
    by (subst d(3), simp only: limit_row_sel)+
  then have "resolve_latest db'' l \<noteq> Inl (LimitError m)"
    by (intro resolve_latest_error[of _ spec]) (simp_all add: spec(1,2))
  moreover have "li_threshold (normalize_input inp) = li_threshold inp" by (simp add: normalize_input_def)
  then have "le_zero d = Some False" using check_positive_Inr[OF spec(4)] d(1) by simp
  then have "0 < dec_val d" using bind_numeric_finite[OF d(2)] by (cases d) auto
  ultimately show ?thesis using c(2,5) d(1) bind_numeric_error[OF d(2)] by simp
qed

section \<open>Evaluation\<close>

text \<open>The tables a resolver reads; recording a breach changes none of them.\<close>

lemma record_breach_reads:
  "calc_runs (record_breach_event E b obs th (db\<lparr>breaches := bs\<rparr>)) = calc_runs db"
  "var_results (record_breach_event E b obs th (db\<lparr>breaches := bs\<rparr>)) = var_results db"
  "active_risk_results (record_breach_event E b obs th (db\<lparr>breaches := bs\<rparr>)) = active_risk_results db"
  "concentration_results (record_breach_event E b obs th (db\<lparr>breaches := bs\<rparr>)) = concentration_results db"
  "class_nodes (record_breach_event E b obs th (db\<lparr>breaches := bs\<rparr>)) = class_nodes db"
  by (simp_all add: row_simps)

lemma resolve_latest_record [simp]:
  "resolve_latest (record_breach_event E b obs th (db\<lparr>breaches := bs\<rparr>)) l = resolve_latest db l"
  unfolding resolve_latest_def resolve_concentration_def latest_var_for_portfolio_def
    latest_active_risk_for_portfolio_def latest_concentration_def record_breach_reads by (rule refl)

lemma record_breach_grows: "record_breach_event E x obs th (db\<lparr>breaches := breaches db @ [x]\<rparr>) \<noteq> db"
proof
  assume eq: "record_breach_event E x obs th (db\<lparr>breaches := breaches db @ [x]\<rparr>) = db"
  have "breaches (record_breach_event E x obs th (db\<lparr>breaches := breaches db @ [x]\<rparr>)) = breaches db @ [x]"
    by (simp add: row_simps)
  then show False unfolding eq by simp
qed

text \<open>The unique constraint of the table: one breach per limit and run.\<close>

definition one_breach_per_run :: "'a gov_db_scheme \<Rightarrow> bool" where
  "one_breach_per_run db \<longleftrightarrow> distinct (map (\<lambda>b. (br_limit_id b, br_run_id b)) (breaches db))"

lemma breach_of_run_append:
  assumes "one_breach_per_run db" "breach_of_run db lid rid = None" "br_limit_id b = lid" "br_run_id b = rid"
    "breaches db' = breaches db @ [b]"
  shows "breach_of_run db' lid rid = Some b" "one_breach_per_run db'"
proof -
  let ?key = "\<lambda>b. (br_limit_id b, br_run_id b)"
  have empty: "filter (\<lambda>b. br_limit_id b = lid \<and> br_run_id b = rid) (breaches db) = []"
  proof (rule ccontr)
    assume *: "\<not> ?thesis"
    have "\<forall>x\<in>set (filter (\<lambda>b. br_limit_id b = lid \<and> br_run_id b = rid) (breaches db)). ?key x = (lid, rid)" by auto
    moreover have "distinct (map ?key (filter (\<lambda>b. br_limit_id b = lid \<and> br_run_id b = rid) (breaches db)))"
      using assms(1) by (simp add: one_breach_per_run_def distinct_map_filter)
    ultimately have "length (filter (\<lambda>b. br_limit_id b = lid \<and> br_run_id b = rid) (breaches db)) = 1"
      using * by (cases "filter (\<lambda>b. br_limit_id b = lid \<and> br_run_id b = rid) (breaches db)" rule: remdups_adj.cases) auto
    then show False using assms(2) by (auto simp: breach_of_run_def one_or_none_def length_Suc_conv)
  qed
  show "breach_of_run db' lid rid = Some b"
    using empty by (simp add: breach_of_run_def assms(3-5) one_or_none_def)
  show "one_breach_per_run db'"
    using assms(1) empty by (auto simp: one_breach_per_run_def assms(3-5) filter_empty_conv)
qed

text \<open>Where an evaluation ends: nothing recorded, or one new breach of the run it resolved.\<close>

lemma evaluate_limit_Inr:
  assumes "evaluate_limit E l now db = Inr (db', b)"
  obtains (quiet) "db' = db" "\<And>t. evaluate_limit E l t db = Inr (db, b)"
  | (recorded) x obs where "b = Some x" "breaches db' = breaches db @ [x]" "br_limit_id x = ld_id l"
      "breach_of_run db (ld_id l) (br_run_id x) = None" "br_detected_at x = now"
      "db' = record_breach_event E x obs (ld_threshold l) (db\<lparr>breaches := breaches db @ [x]\<rparr>)"
      "\<exists>res. resolve_latest db l = Inr res \<and> is_resolved res \<and> rs_run_id res = Some (br_run_id x) \<and>
         breach_condition (the (rs_observed res)) (ld_threshold l) (ld_direction l) = Inr True \<and> ld_status l = ''ACTIVE''"
proof (cases "ld_status l = ''ACTIVE''")
  case False
  then show ?thesis using assms quiet by (simp add: evaluate_limit_def)
next
  case active: True
  obtain res where res: "resolve_latest db l = Inr res"
    using assms active by (auto simp: evaluate_limit_def res_simps)
  show ?thesis
  proof (cases "is_resolved res")
    case False
    then show ?thesis using assms quiet active res by (simp add: evaluate_limit_def)
  next
    case resolved: True
    obtain br where br: "breach_condition (the (rs_observed res)) (ld_threshold l) (ld_direction l) = Inr br"
      using assms active res resolved by (auto simp: evaluate_limit_def res_simps Let_def)
    show ?thesis
    proof (cases "br \<and> breach_of_run db (ld_id l) (the (rs_run_id res)) = None")
      case False
      then have "evaluate_limit E l t db = Inr (db, if br then breach_of_run db (ld_id l) (the (rs_run_id res)) else None)" for t
        using active res resolved br
        by (cases "br"; cases "breach_of_run db (ld_id l) (the (rs_run_id res))") (simp_all add: evaluate_limit_def Let_def)
      then show ?thesis using assms quiet by simp
    next
      case True
      then obtain s where s: "bind_numeric 34 12 (the (rs_observed res)) = Some s"
        using assms active res resolved br by (auto simp: evaluate_limit_def Let_def split: option.splits)
      define x where "x = breach_row l (uuid E ''breach'' (length (breaches db))) (the (rs_run_id res)) s (rs_scheme_id res) now"
      have e: "db' = record_breach_event E x (the (rs_observed res)) (ld_threshold l) (db\<lparr>breaches := breaches db @ [x]\<rparr>)"
        "b = Some x" using assms active res resolved br True s by (simp_all add: evaluate_limit_def Let_def x_def)
      show ?thesis
      proof (rule recorded[OF e(2) _ _ _ _ e(1)])
        show "breach_of_run db (ld_id l) (br_run_id x) = None" using True by (simp add: x_def breach_row_def)
        show "\<exists>res. resolve_latest db l = Inr res \<and> is_resolved res \<and> rs_run_id res = Some (br_run_id x) \<and>
         breach_condition (the (rs_observed res)) (ld_threshold l) (ld_direction l) = Inr True \<and> ld_status l = ''ACTIVE''"
          using res resolved br True active by (auto simp: x_def breach_row_def is_resolved_def)
      qed (simp_all add: e(1) row_simps, simp_all add: x_def breach_row_def)
    qed
  qed
qed

lemma evaluate_again:
  assumes "evaluate_limit E l now db = Inr (db', b)" "one_breach_per_run db"
  shows "evaluate_limit E l t db' = Inr (db', b) \<and> one_breach_per_run db' \<and>
    limit_definitions db' = limit_definitions db"
proof (rule evaluate_limit_Inr[OF assms(1)], goal_cases)
  case 1
  then show ?thesis using assms(2) by simp
next
  case (2 x obs)
  obtain res where "resolve_latest db l = Inr res" "is_resolved res" "rs_run_id res = Some (br_run_id x)"
    "breach_condition (the (rs_observed res)) (ld_threshold l) (ld_direction l) = Inr True" "ld_status l = ''ACTIVE''"
    using 2(7) by blast
  moreover have "resolve_latest db' l = resolve_latest db l" using 2(6) by simp
  moreover have "breach_of_run db' (ld_id l) (br_run_id x) = Some x" "one_breach_per_run db'"
    using breach_of_run_append[OF assms(2) 2(4) 2(3) _ 2(2)] by simp_all
  moreover have "limit_definitions db' = limit_definitions db" by (simp add: 2(6) row_simps)
  ultimately show ?case using 2(1) by (simp add: evaluate_limit_def)
qed

text \<open>One limit of the health read.\<close>

lemma health_of_agrees:
  assumes "evaluate_limit E l now db = Inr (db', b)" "one_breach_per_run db" "ld_status l = ''ACTIVE''"
  shows "\<exists>h. health_of db' l = Inr h \<and> (lh_state h = ''BREACHED'' \<longleftrightarrow> b \<noteq> None) \<and>
    (b \<noteq> None \<longrightarrow> lh_latest_breach_id h = map_option br_id b)"
proof -
  have ev: "evaluate_limit E l now db' = Inr (db', b)" using evaluate_again[OF assms(1,2)] by blast
  obtain res where res: "resolve_latest db' l = Inr res"
    using ev assms(3) by (auto simp: evaluate_limit_def res_simps)
  show ?thesis
  proof (cases "is_resolved res")
    case False
    then show ?thesis using ev assms(3) res by (simp add: evaluate_limit_def health_of_def Let_def)
  next
    case True
    obtain br where br: "breach_condition (the (rs_observed res)) (ld_threshold l) (ld_direction l) = Inr br"
      using ev assms(3) res True by (auto simp: evaluate_limit_def res_simps Let_def)
    have refusal: "rs_refusal res = None" using True by (simp add: is_resolved_def)
    have bb: "b = (if br then breach_of_run db' (ld_id l) (the (rs_run_id res)) else None) \<and> (b = None \<longrightarrow> \<not> br)"
    proof (cases "br \<and> breach_of_run db' (ld_id l) (the (rs_run_id res)) = None")
      case False
      then show ?thesis using ev assms(3) res True br
        by (cases br; cases "breach_of_run db' (ld_id l) (the (rs_run_id res))") (simp_all add: evaluate_limit_def Let_def)
    next
      case none: True
      obtain s where "bind_numeric 34 12 (the (rs_observed res)) = Some s"
      proof (cases "bind_numeric 34 12 (the (rs_observed res))")
        case None
        then have "evaluate_limit E l now db' = Inl NumericRefused"
          using assms(3) res True br none by (simp add: evaluate_limit_def)
        then show ?thesis using ev by simp
      qed
      then obtain x where "evaluate_limit E l now db' = Inr
          (record_breach_event E x (the (rs_observed res)) (ld_threshold l) (db'\<lparr>breaches := breaches db' @ [x]\<rparr>), Some x)"
        using assms(3) res True br none by (simp add: evaluate_limit_def Let_def)
      then have "db' = record_breach_event E x (the (rs_observed res)) (ld_threshold l) (db'\<lparr>breaches := breaches db' @ [x]\<rparr>)"
        using ev by simp
      then show ?thesis using record_breach_grows by metis
    qed
    obtain h where "health_of db' l = Inr h" "lh_state h = (if br then ''BREACHED'' else ''IN_APPETITE'')"
      "lh_latest_breach_id h = map_option br_id (breach_of_run db' (ld_id l) (the (rs_run_id res)))"
      using res True br refusal by (simp add: health_of_def Let_def del: split_paired_Ex)
    then show ?thesis using bb by (intro exI[of _ h]) (cases br; auto)
  qed
qed

lemma health_each_Inr:
  "health_each db ls = Inr rows \<Longrightarrow> list_all2 (\<lambda>l h. health_of db l = Inr h) ls rows"
  by (induction ls arbitrary: rows) (auto simp: res_simps)

lemma health_each_Inl:
  "health_each db ls = Inl e \<Longrightarrow> \<exists>l\<in>set ls. health_of db l = Inl e"
proof (induction ls)
  case (Cons l ls)
  then show ?case by (cases "health_of db l"; cases "health_each db ls") auto
qed simp

lemma health_of_limit_id: "health_of db l = Inr h \<Longrightarrow> lh_limit_id h = ld_id l"
  by (auto simp: health_of_def Let_def res_simps split: if_splits)

lemma health_of_Inl:
  assumes "health_of db l = Inl e" "ld_status l = ''ACTIVE''"
  shows "evaluate_limit E l now db = Inl e"
  using assms by (auto simp: health_of_def evaluate_limit_def Let_def res_simps is_resolved_def
      split: if_splits sum.splits)

lemma list_all2_member: "list_all2 P xs ys \<Longrightarrow> x \<in> set xs \<Longrightarrow> \<exists>y\<in>set ys. P x y"
  by (induction rule: list_all2_induct) auto

lemma list_all2_map_eq: "list_all2 (\<lambda>x y. g y = f x) xs ys \<Longrightarrow> map g ys = map f xs"
  by (induction rule: list_all2_induct) auto

text \<open>
  C10. Evaluation and health agree. Once \<open>evaluate_limit\<close> has returned for an ACTIVE limit, take the
  health read of its tenant on the resulting database. If it answers, it has one row for every
  visible ACTIVE limit, in their order, and the row of this limit says BREACHED exactly when the
  evaluation returned a breach, naming that breach. If it raises, it does so because of another
  visible ACTIVE limit, whose evaluation raises the same error. (The table of breaches has one row
  per limit and run, as its unique constraint says.)
\<close>

theorem health_agrees_with_evaluation:
  assumes "evaluate_limit E l now db = Inr (db', b)" "one_breach_per_run db"
    and "l \<in> set (select_active_limits db' tenant detail)"
  shows "case limit_health db' tenant detail of
      Inr rows \<Rightarrow> map lh_limit_id rows = map ld_id (select_active_limits db' tenant detail) \<and>
        (\<exists>h. h \<in> set rows \<and> lh_limit_id h = ld_id l \<and> (lh_state h = ''BREACHED'' \<longleftrightarrow> b \<noteq> None) \<and>
           (case b of None \<Rightarrow> True | Some x \<Rightarrow> lh_latest_breach_id h = Some (br_id x)))
    | Inl e \<Rightarrow> (\<exists>l'. l' \<in> set (select_active_limits db' tenant detail) \<and> l' \<noteq> l \<and>
        evaluate_limit E l' now db' = Inl e)"
proof -
  let ?ls = "select_active_limits db' tenant detail"
  have active: "ld_status x = ''ACTIVE''" if "x \<in> set ?ls" for x using that by (simp add: select_active_limits_def)
  obtain h where h: "health_of db' l = Inr h" "(lh_state h = ''BREACHED'' \<longleftrightarrow> b \<noteq> None)"
      "b \<noteq> None \<longrightarrow> lh_latest_breach_id h = map_option br_id b"
    using health_of_agrees[OF assms(1,2) active[OF assms(3)]] by blast
  show ?thesis
  proof (cases "limit_health db' tenant detail")
    case (Inl e)
    then obtain l' where l': "l' \<in> set ?ls" "health_of db' l' = Inl e"
      using health_each_Inl unfolding limit_health_def by blast
    then have "l' \<noteq> l" using h(1) by auto
    then show ?thesis using l' health_of_Inl[OF l'(2) active[OF l'(1)]] Inl by auto
  next
    case (Inr rows)
    then have all: "list_all2 (\<lambda>l h. health_of db' l = Inr h) ?ls rows"
      unfolding limit_health_def by (rule health_each_Inr)
    then have ids: "map lh_limit_id rows = map ld_id ?ls"
      by (intro list_all2_map_eq) (auto elim!: list_all2_mono dest: health_of_limit_id)
    have "h \<in> set rows" using list_all2_member[OF all assms(3)] h(1) by auto
    then show ?thesis using Inr ids h health_of_limit_id[OF h(1)] by (auto split: option.split)
  qed
qed

text \<open>A limit is settled when evaluating it, at any time, changes nothing.\<close>

definition settled_limit :: "env \<Rightarrow> 'a gov_db_scheme \<Rightarrow> limit_definition \<Rightarrow> bool" where
  "settled_limit E db l \<longleftrightarrow> (\<forall>t. case evaluate_limit E l t db of Inl e \<Rightarrow> True | Inr r \<Rightarrow> fst r = db)"

lemma evaluate_settles:
  assumes "one_breach_per_run db"
  shows "settled_limit E (case evaluate_limit E l now db of Inl e \<Rightarrow> db | Inr r \<Rightarrow> fst r) l"
proof (cases "evaluate_limit E l now db")
  case (Inl e)
  have "case evaluate_limit E l t db of Inl e \<Rightarrow> True | Inr r \<Rightarrow> fst r = db" for t
  proof (cases "evaluate_limit E l t db")
    case (Inr r)
    obtain d b where r: "r = (d, b)" by force
    show ?thesis
    proof (rule evaluate_limit_Inr[OF Inr[unfolded r]], goal_cases)
      case 1
      then show ?thesis by (simp add: Inr r)
    next
      case (2 x obs)
      then obtain res where res: "resolve_latest db l = Inr res" "is_resolved res" "rs_run_id res = Some (br_run_id x)"
        "breach_condition (the (rs_observed res)) (ld_threshold l) (ld_direction l) = Inr True" "ld_status l = ''ACTIVE''"
        by blast
      then have "bind_numeric 34 12 (the (rs_observed res)) = None"
        using Inl 2(4) by (cases "bind_numeric 34 12 (the (rs_observed res))") (simp_all add: evaluate_limit_def Let_def)
      then have "evaluate_limit E l t db = Inl NumericRefused"
        using res 2(4) by (simp add: evaluate_limit_def)
      then show ?thesis by simp
    qed
  qed simp
  then show ?thesis using Inl by (simp add: settled_limit_def)
next
  case (Inr r)
  obtain d b where "r = (d, b)" by force
  then show ?thesis using Inr evaluate_again[of E l now db d b] assms by (simp add: settled_limit_def)
qed

text \<open>Evaluating one limit leaves another settled limit settled: their breaches are apart.\<close>

lemma settled_transfer:
  assumes "settled_limit E db l" "resolve_latest db' l = resolve_latest db l"
    and own: "\<And>rid. breach_of_run db' (ld_id l) rid = breach_of_run db (ld_id l) rid"
  shows "settled_limit E db' l"
proof -
  have "case evaluate_limit E l t db' of Inl e \<Rightarrow> True | Inr r \<Rightarrow> fst r = db'" for t
  proof (cases "evaluate_limit E l t db'")
    case (Inr r)
    obtain d c where r: "r = (d, c)" by force
    show ?thesis
    proof (rule evaluate_limit_Inr[OF Inr[unfolded r]], goal_cases)
      case 1
      then show ?thesis by (simp add: Inr r)
    next
      case (2 y obs)
      then obtain res where res: "resolve_latest db l = Inr res" "is_resolved res" "rs_run_id res = Some (br_run_id y)"
        "breach_condition (the (rs_observed res)) (ld_threshold l) (ld_direction l) = Inr True" "ld_status l = ''ACTIVE''"
        using assms(2) by auto
      have none: "breach_of_run db (ld_id l) (br_run_id y) = None" using 2(4) own by simp
      have "evaluate_limit E l t db' = Inl NumericRefused"
      proof (cases "bind_numeric 34 12 (the (rs_observed res))")
        case None
        then show ?thesis using res none own assms(2) by (simp add: evaluate_limit_def)
      next
        case (Some s)
        let ?x = "breach_row l (uuid E ''breach'' (length (breaches db))) (br_run_id y) s (rs_scheme_id res) t"
        have "evaluate_limit E l t db = Inr (record_breach_event E ?x (the (rs_observed res)) (ld_threshold l)
            (db\<lparr>breaches := breaches db @ [?x]\<rparr>), Some ?x)"
          using res none Some by (simp add: evaluate_limit_def Let_def)
        moreover have "case evaluate_limit E l t db of Inl e \<Rightarrow> True | Inr r \<Rightarrow> fst r = db"
          using assms(1) by (simp add: settled_limit_def)
        ultimately show ?thesis using record_breach_grows[of E ?x _ _ db] by (simp del: One_nat_def)
      qed
      then show ?thesis by simp
    qed
  qed simp
  then show ?thesis by (simp add: settled_limit_def)
qed

lemma settled_other:
  assumes "settled_limit E db l" "evaluate_limit E m now db = Inr (db', b)" "ld_id m \<noteq> ld_id l"
  shows "settled_limit E db' l"
proof (rule evaluate_limit_Inr[OF assms(2)], goal_cases)
  case 1
  then show ?thesis using assms(1) by simp
next
  case (2 x obs)
  have "br_limit_id x \<noteq> ld_id l" using 2(3) assms(3) by simp
  then have "breach_of_run db' (ld_id l) rid = breach_of_run db (ld_id l) rid" for rid
    using 2(2) by (simp add: breach_of_run_def)
  moreover have "resolve_latest db' l = resolve_latest db l" using 2(6) by simp
  ultimately show ?thesis by (intro settled_transfer[OF assms(1)])
qed

lemma evaluate_each_settled:
  assumes "\<forall>l\<in>set ls. settled_limit E db l"
  shows "fst (evaluate_each E now ls db) = db"
  using assms
proof (induction ls)
  case (Cons l ls)
  have l: "case evaluate_limit E l now db of Inl e \<Rightarrow> True | Inr r \<Rightarrow> fst r = db"
    using Cons.prems by (simp add: settled_limit_def)
  show ?case
    using Cons l by (cases "evaluate_limit E l now db") (auto split: prod.splits)
qed simp

lemma evaluate_each_settles:
  assumes "one_breach_per_run db" "distinct (map ld_id (done @ ls))" "\<forall>l\<in>set done. settled_limit E db l"
  shows "(\<forall>l\<in>set (done @ ls). settled_limit E (fst (evaluate_each E now ls db)) l) \<and>
    limit_definitions (fst (evaluate_each E now ls db)) = limit_definitions db"
  using assms
proof (induction ls arbitrary: db "done")
  case (Cons l ls)
  define db1 where "db1 = (case evaluate_limit E l now db of Inl e \<Rightarrow> db | Inr r \<Rightarrow> fst r)"
  have fst: "fst (evaluate_each E now (l # ls) db) = fst (evaluate_each E now ls db1)"
    by (cases "evaluate_limit E l now db") (auto simp: db1_def split: prod.splits)
  have keep: "one_breach_per_run db1 \<and> limit_definitions db1 = limit_definitions db"
  proof (cases "evaluate_limit E l now db")
    case (Inr r)
    then show ?thesis using evaluate_again[of E l now db "fst r" "snd r"] Cons.prems(1) by (simp add: db1_def)
  qed (use Cons.prems(1) in \<open>simp add: db1_def\<close>)
  have "settled_limit E db1 k" if "k \<in> set done" for k
  proof (cases "evaluate_limit E l now db")
    case (Inr r)
    have "ld_id l \<noteq> ld_id k" using Cons.prems(2) that by force
    then show ?thesis using settled_other[of E db k l now "fst r" "snd r"] Cons.prems(3) that Inr by (simp add: db1_def)
  qed (use Cons.prems(3) that in \<open>simp add: db1_def\<close>)
  then have "\<forall>k\<in>set (done @ [l]). settled_limit E db1 k"
    using evaluate_settles[OF Cons.prems(1), of E l now] by (auto simp: db1_def)
  then show ?case using Cons.IH[of db1 "done @ [l]"] keep Cons.prems(2) fst by simp
qed simp

text \<open>
  The breach phase of the worker leaves every limit it visited settled, whichever limits failed to
  evaluate: running it again, at any later moment, with no new run in between, changes nothing.
\<close>

lemma breach_phase_settles:
  assumes "one_breach_per_run db" "ids_distinct db"
  shows "\<forall>l\<in>set (select_active_limits db t True). settled_limit E (fst (poll_tenant_breaches E now t db)) l"
    and "limit_definitions (fst (poll_tenant_breaches E now t db)) = limit_definitions db"
proof -
  let ?ls = "select_active_limits db t True"
  have "distinct (map ld_id ?ls)"
    using distinct_map_sort_filter[of ld_id "\<lambda>_. True" "limit_definitions db"
        "\<lambda>l. ld_status l = ''ACTIVE'' \<and> ld_tenant l = t"] assms(2)
    by (simp add: select_active_limits_def ids_distinct_def)
  then show "\<forall>l\<in>set ?ls. settled_limit E (fst (poll_tenant_breaches E now t db)) l"
    "limit_definitions (fst (poll_tenant_breaches E now t db)) = limit_definitions db"
    using evaluate_each_settles[OF assms(1), of "[]" ?ls E now] by (simp_all add: poll_tenant_breaches_def)
qed

section \<open>A sample history\<close>

definition maker_a :: actor where "maker_a = \<lparr>act_id = ''a'', act_type = ''user''\<rparr>"
definition maker_b :: actor where "maker_b = \<lparr>act_id = ''b'', act_type = ''user''\<rparr>"
definition maker_c :: actor where "maker_c = \<lparr>act_id = ''c'', act_type = ''user''\<rparr>"

definition sample_run :: calc_run where
  "sample_run = \<lparr>run_id = ''R'', run_tenant = ''T'', run_type = ''VAR'', run_status = ''COMPLETED'',
     run_scope_portfolio_id = Some ''P'', run_system_from = Aware 1 0\<rparr>"

definition sample_metric :: metric_row where
  "sample_metric = \<lparr>mr_run = ''R'', mr_tenant = ''T'', mr_metric_type = ''VAR_PARAMETRIC'',
     mr_value = Fin 7 0, mr_benchmark_id = None\<rparr>"

definition gov0 :: gov_db where
  "gov0 = \<lparr>audit_events = [], audit_checkpoints = [], app_users = [], limit_definitions = [], breaches = [],
     breach_actions = [], calc_runs = [sample_run], var_results = [sample_metric], active_risk_results = [],
     concentration_results = [], class_nodes = [], portfolio_ids = [(''P'', ''T'')], benchmark_ids = [],
     issuer_ids = []\<rparr>"

definition sample_input :: limit_input where
  "sample_input = \<lparr>li_tenant = ''T'', li_code = ''C'', li_name = ''N'', li_target_run_type = ''VAR'',
     li_metric_type = ''VAR_PARAMETRIC'', li_scope_portfolio_id = ''P'', li_threshold = Inl (Fin 5 0),
     li_unit = ''CURRENCY'', li_direction = ''ABOVE'', li_kind = ''HARD'', li_benchmark_id = None,
     li_dimension_kind = None, li_bucket_code = None, li_issuer_id = None, li_scheme_family = None,
     li_authored_scheme_id = None, li_denominator_basis = None\<rparr>"

definition draft_l :: limit_definition where
  "draft_l = limit_row sample_input (uuid sample_env ''limit_definition'' 0) (Fin 5000000000000 (- 12)) maker_a"

definition active_l :: limit_definition where
  "active_l = draft_l\<lparr>ld_status := ''ACTIVE'', ld_version := 2\<rparr>"

definition gov1 :: gov_db where
  "gov1 = record_limit_event sample_env draft_l ''LIMIT.DEFINE'' ''create'' None (limit_metadata draft_l (Fin 5 0))
     maker_a None (gov0\<lparr>limit_definitions := [draft_l]\<rparr>)"

lemma draft_l_sel: "ld_status draft_l = ''DRAFT''" "ld_tenant draft_l = ''T''" "ld_created_by draft_l = Some ''a''"
    "ld_updated_by draft_l = None" "ld_version draft_l = 1" "ld_target_run_type draft_l = ''VAR''"
    "ld_metric_type draft_l = ''VAR_PARAMETRIC''" "ld_unit draft_l = ''CURRENCY''" "ld_direction draft_l = ''ABOVE''"
    "ld_threshold draft_l = Fin 5000000000000 (- 12)" "ld_scope_portfolio_id draft_l = ''P''" "ld_id draft_l = uuid sample_env ''limit_definition'' 0"
  by (simp_all add: draft_l_def limit_row_def sample_input_def maker_a_def)

lemma normal_sample: "normalize_input sample_input = sample_input"
  by (simp add: normalize_input_def sample_input_def blank_to_none_def)

lemma validate_sample: "validate_config sample_input ''DRAFT'' = Inr ()"
  by (simp add: validate_config_def sample_input_def metric_map_def var_metrics_def validate_dimensional_config_def
      requires_dimension_def truthy_def check_positive_def threshold_of_def)

lemma create_sample: "create_limit sample_env sample_input maker_a gov0 = Inr (gov1, draft_l)"
proof -
  have "(''P'', ''T'') \<in> set (portfolio_ids gov0)" "limit_definitions gov0 = []" by (simp_all add: gov0_def)
  moreover have "li_scope_portfolio_id sample_input = ''P''" "li_tenant sample_input = ''T''"
    "li_threshold sample_input = Inl (Fin 5 0)" "li_benchmark_id sample_input = None" "li_issuer_id sample_input = None"
    by (simp_all add: sample_input_def)
  moreover have "bind_numeric 34 12 (Fin 5 0) = Some (Fin 5000000000000 (- 12))"
    by (simp add: rescale_half_up_def)
  ultimately show ?thesis
    by (simp add: create_limit_def normal_sample validate_sample truthy_def threshold_of_def draft_l_def[symmetric]
        gov1_def Let_def del: bind_numeric.simps)
qed

lemma gov1_rows: "limit_definitions gov1 = [draft_l]" "breaches gov1 = []" "calc_runs gov1 = [sample_run]"
    "var_results gov1 = [sample_metric]"
  by (simp_all add: gov1_def row_simps record_limit_event_def) (simp_all add: gov0_def)

lemma find_draft: "find_limit gov1 (ld_id draft_l) ''T'' = Inr draft_l"
  by (simp add: find_limit_def gov1_rows one_or_none_def draft_l_sel(2))

definition gov2 :: gov_db where
  "gov2 = fst (projr (approve_limit sample_env (ld_id draft_l) ''T'' maker_b ''x'' gov1))"

lemma draft_makers: "makers_of draft_l = [''a'']"
  by (simp add: makers_of_def draft_l_sel)

lemma strip_x: "py_strip ''x'' \<noteq> []"
  by (simp add: py_strip_def is_space_def)

lemma approve_sample: "approve_limit sample_env (ld_id draft_l) ''T'' maker_b ''x'' gov1 = Inr (gov2, active_l)"
proof -
  have "\<exists>db'. approve_limit sample_env (ld_id draft_l) ''T'' maker_b ''x'' gov1 =
      Inr (db', draft_l\<lparr>ld_status := ''ACTIVE'', ld_version := ld_version draft_l + 1\<rparr>)"
    by (rule approve_limit_ok[OF find_draft]) (simp_all add: draft_l_sel draft_makers strip_x maker_b_def)
  then show ?thesis by (auto simp: gov2_def active_l_def draft_l_sel)
qed

lemma gov2_rows: "limit_definitions gov2 = [active_l]"
  using approve_limit_Inr[OF approve_sample] find_draft by (auto simp: put_limit_def gov1_rows active_l_def)

lemma active_l_sel: "ld_status active_l = ''ACTIVE''" "ld_id active_l = ld_id draft_l"
    "governing active_l = governing draft_l"
  by (simp_all add: active_l_def governing_def)

lemma maker_actors: "breach_actor ''a'' ''user'' = maker_a" "breach_actor ''b'' ''user'' = maker_b"
proof -
  have "canonical_actor_id ''a'' = ''a''" "canonical_actor_id ''b'' = ''b''" by code_simp+
  then show "breach_actor ''a'' ''user'' = maker_a" "breach_actor ''b'' ''user'' = maker_b"
    by (simp_all add: breach_actor_def maker_a_def maker_b_def)
qed

definition sample_log :: "limit_call list" where
  "sample_log = [CallApprove (ld_id draft_l) (governing active_l) ''b'' ''user'', CallCreate (ld_id draft_l) ''a'']"

lemma reachable_sample: "limits_reachable sample_env gov2 sample_log"
proof -
  have "limits_reachable sample_env gov0 []" by (rule limits_reachable.start) (simp add: gov0_def)
  from limits_reachable.create[OF this create_sample[folded maker_actors(1)]]
  have "limits_reachable sample_env gov1 [CallCreate (ld_id draft_l) ''a'']" by (simp add: gov0_def)
  from limits_reachable.approve[OF this approve_sample[folded maker_actors(2)]]
  show ?thesis by (simp add: sample_log_def)
qed

theorem active_limit_was_approved_as_is_witness:
  "\<exists>i earlier c. last_approval (ld_id active_l) sample_log = Some (governing active_l, i, ''user'', earlier) \<and>
     creator_of (ld_id active_l) earlier = Some c \<and> \<not> same_user_id i c"
  using active_limit_was_approved_as_is[OF reachable_sample, of active_l]
  by (auto simp: gov2_rows active_l_sel(1))

lemma earlier_editor_may_approve_witness:
  "\<exists>db' l'. bindR (update_limit sample_env (ld_id draft_l) ''T'' maker_b (no_changes\<lparr>ch_threshold := Some (Inl (Fin 900 0))\<rparr>) gov1) (\<lambda>(db1, _).
      bindR (update_limit sample_env (ld_id draft_l) ''T'' maker_c (no_changes\<lparr>ch_name := Some ''M''\<rparr>) db1) (\<lambda>(db2, _).
      approve_limit sample_env (ld_id draft_l) ''T'' maker_b ''x'' db2)) = Inr (db', l') \<and>
      ld_status l' = ''ACTIVE'' \<and> ld_threshold l' = Fin 900000000000000 (- 12)"
  by (rule earlier_editor_may_approve[OF _ find_draft, where a = "''a''"])
     (simp_all add: ids_distinct_def gov1_rows draft_l_sel strip_x maker_b_def maker_c_def rescale_half_up_def)

theorem created_limit_is_evaluable_witness:
  "limit_checks draft_l \<and> resolve_latest gov0 draft_l \<noteq> Inl (LimitError ''unit drift'')"
  using created_limit_is_evaluable[OF create_sample, of gov0 "''unit drift''"] by simp

definition gov3 :: gov_db where "gov3 = gov1\<lparr>limit_definitions := [active_l]\<rparr>"

lemma gov3_rows: "limit_definitions gov3 = [active_l]" "breaches gov3 = []" "calc_runs gov3 = [sample_run]"
    "var_results gov3 = [sample_metric]"
  by (simp_all add: gov3_def gov1_rows)

theorem health_agrees_with_evaluation_witness:
  "\<exists>db' b h. evaluate_limit sample_env active_l (Aware 9 0) gov3 = Inr (db', Some b) \<and>
     (case limit_health db' ''T'' True of Inr rows \<Rightarrow> h \<in> set rows | Inl e \<Rightarrow> False) \<and> lh_state h = ''BREACHED'' \<and> lh_latest_breach_id h = Some (br_id b)"
proof -
  have a: "ld_status active_l = ''ACTIVE''" by (simp add: active_l_def)
  have res: "resolve_latest gov3 active_l = Inr (nothing_found\<lparr>rs_run_id := Some ''R'', rs_observed := Some (Fin 7 0)\<rparr>)"
    by (simp add: resolve_latest_def active_l_def draft_l_sel metric_map_def var_metrics_def first_matching_def
        latest_var_for_portfolio_def latest_run_rows_def list_governed_results_def gov3_rows sample_run_def
        sample_metric_def sort_desc_def opt_filter_def)
  have "\<exists>db' b. evaluate_limit sample_env active_l (Aware 9 0) gov3 = Inr (db', Some b)"
    using res a by (simp add: evaluate_limit_def is_resolved_def nothing_found_def breach_condition_def breach_of_run_def
        gov3_rows one_or_none_def rescale_half_up_def Let_def active_l_def draft_l_sel dec_less_finite pow10_def)
  then obtain db' b where ev: "evaluate_limit sample_env active_l (Aware 9 0) gov3 = Inr (db', Some b)" by blast
  have "one_breach_per_run gov3" by (simp add: one_breach_per_run_def gov3_rows)
  note one = this
  have "limit_definitions db' = [active_l]" using evaluate_again[OF ev one] gov3_rows(1) by simp
  then have sel: "select_active_limits db' ''T'' True = [active_l]"
    using a by (simp add: select_active_limits_def active_l_def draft_l_sel)
  show ?thesis
    using health_agrees_with_evaluation[OF ev one, of "''T''" True] ev
    by (cases "limit_health db' ''T'' True") (auto simp: sel)
qed

end
