(* ===== verification/Scheduling.thy ===== *)
theory Scheduling
  imports Schedule_Grid Limit_Service "HOL-Library.Sublist"
begin

text \<open>
  The scheduling service (\<open>scheduling/service.py\<close>, \<open>models.py\<close>, \<open>queries.py\<close>): the schedule heads, the
  ledger of fired ticks with its two unique constraints, the selection of what is due, the family
  registry, the dispatch of one tick and the audited edits. The binders of the governed families
  (\<open>run_var\<close>, \<open>run_exposure\<close>, \<open>run_reproduction_sweep\<close>) are arguments.
\<close>

section \<open>Rows\<close>

record schedule_row =
  sd_id :: string
  sd_tenant :: string
  sd_code :: string
  sd_name :: string
  sd_target :: string
  sd_scope :: "string option"
  sd_model_version :: "string option"
  sd_environment :: string
  sd_cadence :: string
  sd_interval :: "int option"
  sd_calendar :: "string option"
  sd_anchor :: date
  sd_status :: string
  sd_version :: int

record scheduled_run =
  sr_id :: string
  sr_tenant :: string
  sr_schedule :: string
  sr_period :: "string option"
  sr_for :: int
  sr_fired :: pydatetime
  sr_run :: "string option"
  sr_exposure :: "string option"
  sr_covariance :: "string option"
  sr_outcome :: string
  sr_reason :: "string option"

record calendar_row =
  cal_id :: string
  cal_tenant :: string
  cal_code :: string
  cal_complete :: "date option"

record calendar_holiday =
  ch_calendar :: string
  ch_tenant :: string
  ch_date :: date

record factor_exposure_row =
  fe_run :: string
  fe_tenant :: string
  fe_portfolio :: string
  fe_factor :: string

record covariance_row =
  cv_run :: string
  cv_tenant :: string
  cv_factor_1 :: string
  cv_factor_2 :: string

record sched_db = gov_db +
  schedules :: "schedule_row list"
  scheduled_runs :: "scheduled_run list"
  calendars :: "calendar_row list"
  calendar_holidays :: "calendar_holiday list"
  factor_exposures :: "factor_exposure_row list"
  covariances :: "covariance_row list"
  model_version_ids :: "(string \<times> string) list"

lemma log_event_sched [row_simps]:
  "schedules (log_event E f tm db) = schedules db"
  "scheduled_runs (log_event E f tm db) = scheduled_runs db"
  "calendars (log_event E f tm db) = calendars db"
  "calendar_holidays (log_event E f tm db) = calendar_holidays db"
  by (simp_all add: log_event_eq)

text \<open>What a call raises: a refusal, a constraint violation (with the name the driver reports), or
  another exception of the named type.\<close>

datatype sched_fail = Refused sched_error | Integrity "string option" string | Raised string string

section \<open>What is due\<close>

text \<open>\<open>_schedule_tick\<close>, \<open>_resolve_business_calendar\<close> and \<open>is_due\<close>.\<close>

definition schedule_tick :: "schedule_row \<Rightarrow> pydatetime \<Rightarrow> date set option \<Rightarrow> sched_error + int" where
  "schedule_tick s now holidays =
     current_tick (sd_anchor s) (sd_interval s) now (sd_cadence s) holidays"

definition own_or_system :: "string \<Rightarrow> string \<Rightarrow> bool" where
  "own_or_system owner tenant \<longleftrightarrow> owner = tenant \<or> owner = system_tenant"

definition resolve_business_calendar ::
  "'a sched_db_scheme \<Rightarrow> schedule_row \<Rightarrow> sched_error + (calendar_row \<times> date set)" where
  "resolve_business_calendar db s =
     (if \<not> truthy (sd_calendar s) then Inl (ScheduleError ''a bound calendar is required'')
      else case one_or_none (filter (\<lambda>c. sd_calendar s = Some (cal_id c) \<and> own_or_system (cal_tenant c) (sd_tenant s))
                  (calendars db)) of
             None \<Rightarrow> Inl (ScheduleError ''the calendar is not visible'')
           | Some c \<Rightarrow>
               (case cal_complete c of
                  None \<Rightarrow> Inl (ScheduleError ''the calendar declares no coverage'')
                | Some _ \<Rightarrow> Inr (c, set (map ch_date (filter (\<lambda>h. ch_calendar h = cal_id c \<and>
                    own_or_system (ch_tenant h) (sd_tenant s)) (calendar_holidays db))))))"

text \<open>The body of the \<open>try\<close> of \<open>select_active_due\<close>: the holiday set, the tick, its coverage.\<close>

definition due_tick ::
  "'a sched_db_scheme \<Rightarrow> pydatetime \<Rightarrow> schedule_row \<Rightarrow> sched_error + (int \<times> date set option)" where
  "due_tick db now s =
     (if sd_cadence s = ''BUSINESS_MONTH_END'' then
        bindR (resolve_business_calendar db s) (\<lambda>(c, hs).
        bindR (schedule_tick s now (Some hs)) (\<lambda>tick.
          if (case cal_complete c of None \<Rightarrow> False | Some cover \<Rightarrow> cover < date_of tick)
          then Inl (ScheduleError ''the tick exceeds the declared coverage'')
          else Inr (tick, Some hs)))
      else bindR (schedule_tick s now None) (\<lambda>tick. Inr (tick, None)))"

definition fired :: "'a sched_db_scheme \<Rightarrow> string \<Rightarrow> int \<Rightarrow> bool" where
  "fired db sid tick \<longleftrightarrow> list_ex (\<lambda>r. sr_schedule r = sid \<and> sr_for r = tick) (scheduled_runs db)"

definition served :: "'a sched_db_scheme \<Rightarrow> string \<Rightarrow> string \<Rightarrow> bool" where
  "served db sid period \<longleftrightarrow>
     list_ex (\<lambda>r. sr_schedule r = sid \<and> sr_period r = Some period) (scheduled_runs db)"

definition is_business :: "schedule_row \<Rightarrow> bool" where
  "is_business s \<longleftrightarrow> sd_cadence s = ''BUSINESS_MONTH_END''"

definition row_period :: "schedule_row \<Rightarrow> int \<Rightarrow> string option" where
  "row_period s tick = (if is_business s then Some (period_key tick) else None)"

text \<open>The loop of \<open>select_active_due\<close>: an unresolvable cadence is logged and skipped.\<close>

fun select_each ::
  "'a sched_db_scheme \<Rightarrow> pydatetime \<Rightarrow> schedule_row list
     \<Rightarrow> sched_error + (schedule_row \<times> int \<times> date set option) list" where
  "select_each db now [] = Inr []"
| "select_each db now (s # ss) =
     (case due_tick db now s of
        Inl (ScheduleError _) \<Rightarrow> select_each db now ss
      | Inl RawValueError \<Rightarrow> Inl RawValueError
      | Inr (tick, hs) \<Rightarrow>
          if outside_start_boundary (sd_anchor s) tick (utc_of now) \<or> fired db (sd_id s) tick \<or>
             (is_business s \<and> served db (sd_id s) (period_key tick))
          then select_each db now ss
          else bindR (select_each db now ss) (\<lambda>ds. Inr ((s, tick, hs) # ds)))"

definition active_schedules :: "'a sched_db_scheme \<Rightarrow> string \<Rightarrow> schedule_row list" where
  "active_schedules db tenant =
     sort_key sd_id (filter (\<lambda>s. sd_status s = ''ACTIVE'' \<and> sd_tenant s = tenant) (schedules db))"

definition select_active_due ::
  "'a sched_db_scheme \<Rightarrow> pydatetime \<Rightarrow> string
     \<Rightarrow> sched_error + (schedule_row \<times> int \<times> date set option) list" where
  "select_active_due db now tenant =
     bindR (require_aware now) (\<lambda>_. select_each db now (active_schedules db tenant))"

definition is_due :: "schedule_row \<Rightarrow> pydatetime \<Rightarrow> int set \<Rightarrow> date set option \<Rightarrow> sched_error + bool" where
  "is_due s now fired_ticks holidays =
     bindR (require_aware now) (\<lambda>t.
       if sd_status s \<noteq> ''ACTIVE'' then Inr False
       else bindR (schedule_tick s now holidays) (\<lambda>tick.
         Inr (\<not> outside_start_boundary (sd_anchor s) tick t \<and> tick \<notin> fired_ticks)))"

definition assert_current_tick ::
  "schedule_row \<Rightarrow> int \<Rightarrow> pydatetime \<Rightarrow> date set option \<Rightarrow> sched_error + unit" where
  "assert_current_tick s tick now holidays =
     bindR (require_aware now) (\<lambda>t.
     bindR (schedule_tick s now holidays) (\<lambda>expected.
       if tick \<noteq> expected then Inl (ScheduleError ''not the current grid tick'')
       else if outside_start_boundary (sd_anchor s) tick t then Inl (ScheduleError ''outside the start boundary'')
       else Inr ()))"

section \<open>The families\<close>

text \<open>The keyword arguments of a binder, its result, and the three binders.\<close>

record run_call =
  rc_tenant :: string
  rc_actor :: string
  rc_code_version :: string
  rc_environment :: string
  rc_model_version :: "string option"
  rc_portfolio :: "string option"
  rc_exposure_run :: "string option"
  rc_covariance_run :: "string option"
  rc_as_of :: "int option"

record run_result =
  rr_run :: string
  rr_status :: string
  rr_reason :: "string option"

record 'd binders =
  bd_var :: "run_call \<Rightarrow> 'd \<Rightarrow> sched_fail + ('d \<times> run_result)"
  bd_exposure :: "run_call \<Rightarrow> 'd \<Rightarrow> sched_fail + ('d \<times> run_result)"
  bd_reproduction :: "run_call \<Rightarrow> 'd \<Rightarrow> sched_fail + ('d \<times> run_result)"

record dispatch_outcome =
  do_run :: string
  do_status :: string
  do_reason :: "string option"
  do_exposure :: "string option"
  do_covariance :: "string option"

definition latest_factor_exposure :: "'a sched_db_scheme \<Rightarrow> string \<Rightarrow> string \<Rightarrow> factor_exposure_row list" where
  "latest_factor_exposure db tenant portfolio =
     latest_run_rows fe_run (list_governed_results (calc_runs db) fe_run fe_tenant (\<lambda>r. [fe_factor r])
       (factor_exposures db) tenant (\<lambda>c r. fe_portfolio r = portfolio) None None)"

definition latest_covariances :: "'a sched_db_scheme \<Rightarrow> string \<Rightarrow> covariance_row list" where
  "latest_covariances db tenant =
     latest_run_rows cv_run (list_governed_results (calc_runs db) cv_run cv_tenant
       (\<lambda>r. [cv_factor_1 r, cv_factor_2 r]) (covariances db) tenant (\<lambda>c r. True) (Some ''COVARIANCE'') None)"

definition scheduler_call :: "schedule_row \<Rightarrow> string \<Rightarrow> run_call" where
  "scheduler_call s code_version = \<lparr>rc_tenant = sd_tenant s, rc_actor = ''scheduler:'' @ sd_id s,
     rc_code_version = code_version, rc_environment = sd_environment s, rc_model_version = None,
     rc_portfolio = None, rc_exposure_run = None, rc_covariance_run = None, rc_as_of = None\<rparr>"

definition outcome_of :: "run_result \<Rightarrow> dispatch_outcome" where
  "outcome_of r = \<lparr>do_run = rr_run r, do_status = rr_status r, do_reason = rr_reason r,
     do_exposure = None, do_covariance = None\<rparr>"

definition dispatch_var ::
  "'a sched_db_scheme binders \<Rightarrow> schedule_row \<Rightarrow> int \<Rightarrow> string \<Rightarrow> 'a sched_db_scheme
     \<Rightarrow> sched_fail + ('a sched_db_scheme \<times> dispatch_outcome)" where
  "dispatch_var B s tick code_version db =
     (case sd_model_version s of
        None \<Rightarrow> Inl (Refused (ScheduleError ''no model_version_id''))
      | Some mv \<Rightarrow> (case sd_scope s of
          None \<Rightarrow> Inl (Refused (ScheduleError ''no scope_portfolio_id''))
        | Some pf \<Rightarrow> (case latest_factor_exposure db (sd_tenant s) pf of
            [] \<Rightarrow> Inl (Refused (ScheduleError ''no COMPLETED factor-exposure run''))
          | x # _ \<Rightarrow> (case latest_covariances db (sd_tenant s) of
              [] \<Rightarrow> Inl (Refused (ScheduleError ''no COMPLETED covariance run''))
            | c # _ \<Rightarrow>
                bindR (bd_var B ((scheduler_call s code_version)\<lparr>rc_model_version := Some mv,
                    rc_exposure_run := Some (fe_run x), rc_covariance_run := Some (cv_run c)\<rparr>) db)
                  (\<lambda>(db', r). Inr (db', (outcome_of r)\<lparr>do_exposure := Some (fe_run x), do_covariance := Some (cv_run c)\<rparr>))))))"

definition dispatch_exposure ::
  "'a sched_db_scheme binders \<Rightarrow> schedule_row \<Rightarrow> int \<Rightarrow> string \<Rightarrow> 'a sched_db_scheme
     \<Rightarrow> sched_fail + ('a sched_db_scheme \<times> dispatch_outcome)" where
  "dispatch_exposure B s tick code_version db =
     bindR (bd_exposure B ((scheduler_call s code_version)\<lparr>rc_portfolio := sd_scope s, rc_as_of := Some tick\<rparr>) db)
       (\<lambda>(db', r). Inr (db', outcome_of r))"

definition dispatch_reproduction ::
  "'a sched_db_scheme binders \<Rightarrow> schedule_row \<Rightarrow> int \<Rightarrow> string \<Rightarrow> 'a sched_db_scheme
     \<Rightarrow> sched_fail + ('a sched_db_scheme \<times> dispatch_outcome)" where
  "dispatch_reproduction B s tick code_version db =
     bindR (bd_reproduction B ((scheduler_call s code_version)\<lparr>rc_portfolio := sd_scope s\<rparr>) db)
       (\<lambda>(db', r). Inr (db', outcome_of r))"

record scheduled_family =
  sf_target :: string
  sf_requires_model_version :: bool
  sf_requires_portfolio_scope :: bool

definition family_registry :: "string \<Rightarrow> scheduled_family option" where
  "family_registry target =
     (if target = ''VAR'' then
        Some \<lparr>sf_target = ''VAR'', sf_requires_model_version = True, sf_requires_portfolio_scope = True\<rparr>
      else if target = ''EXPOSURE_AGGREGATE'' then
        Some \<lparr>sf_target = ''EXPOSURE_AGGREGATE'', sf_requires_model_version = False,
              sf_requires_portfolio_scope = True\<rparr>
      else if target = ''REPRODUCTION'' then
        Some \<lparr>sf_target = ''REPRODUCTION'', sf_requires_model_version = False,
              sf_requires_portfolio_scope = False\<rparr>
      else None)"

definition family_dispatch ::
  "'a sched_db_scheme binders \<Rightarrow> scheduled_family \<Rightarrow> schedule_row \<Rightarrow> int \<Rightarrow> string \<Rightarrow> 'a sched_db_scheme
     \<Rightarrow> sched_fail + ('a sched_db_scheme \<times> dispatch_outcome)" where
  "family_dispatch B f =
     (if sf_target f = ''VAR'' then dispatch_var B
      else if sf_target f = ''EXPOSURE_AGGREGATE'' then dispatch_exposure B
      else dispatch_reproduction B)"

section \<open>Dispatch\<close>

text \<open>The insert into the ledger, with its two unique constraints.\<close>

definition insert_run :: "scheduled_run \<Rightarrow> 'a sched_db_scheme \<Rightarrow> sched_fail + 'a sched_db_scheme" where
  "insert_run row db =
     (if fired db (sr_schedule row) (sr_for row) then
        Inl (Integrity (Some ''uq_scheduled_run_schedule_tick'') ''duplicate key'')
      else if (case sr_period row of None \<Rightarrow> False | Some p \<Rightarrow> served db (sr_schedule row) p) then
        Inl (Integrity (Some ''uq_scheduled_run_schedule_period'') ''duplicate key'')
      else Inr (db\<lparr>scheduled_runs := scheduled_runs db @ [row]\<rparr>))"

definition ledger_row ::
  "env \<Rightarrow> schedule_row \<Rightarrow> int \<Rightarrow> pydatetime \<Rightarrow> nat \<Rightarrow> scheduled_run" where
  "ledger_row E s tick now n = \<lparr>sr_id = uuid E ''scheduled_run'' n, sr_tenant = sd_tenant s, sr_schedule = sd_id s,
     sr_period = row_period s tick, sr_for = tick, sr_fired = now, sr_run = None, sr_exposure = None,
     sr_covariance = None, sr_outcome = ''FAILED'', sr_reason = None\<rparr>"

definition dispatched_row ::
  "env \<Rightarrow> schedule_row \<Rightarrow> int \<Rightarrow> pydatetime \<Rightarrow> nat \<Rightarrow> dispatch_outcome \<Rightarrow> scheduled_run" where
  "dispatched_row E s tick now n res = (ledger_row E s tick now n)
     \<lparr>sr_run := Some (do_run res), sr_exposure := do_exposure res, sr_covariance := do_covariance res,
      sr_outcome := (if do_status res = ''COMPLETED'' then ''DISPATCHED'' else ''FAILED''),
      sr_reason := do_reason res\<rparr>"

definition lift_error :: "sched_error + 'v \<Rightarrow> sched_fail + 'v" where
  "lift_error r = (case r of Inl e \<Rightarrow> Inl (Refused e) | Inr x \<Rightarrow> Inr x)"

definition dispatch_one ::
  "'a sched_db_scheme binders \<Rightarrow> env \<Rightarrow> schedule_row \<Rightarrow> int \<Rightarrow> pydatetime \<Rightarrow> string \<Rightarrow> date set option
     \<Rightarrow> 'a sched_db_scheme \<Rightarrow> sched_fail + ('a sched_db_scheme \<times> scheduled_run)" where
  "dispatch_one B E s tick now code_version holidays db =
     bindR (lift_error (assert_current_tick s tick now holidays)) (\<lambda>_.
     case find (\<lambda>r. sr_schedule r = sd_id s \<and> sr_for r = tick) (scheduled_runs db) of
       Some r \<Rightarrow> Inr (db, r)
     | None \<Rightarrow>
         (case family_registry (sd_target s) of
            None \<Rightarrow> Inl (Refused (ScheduleError ''target_run_type is not schedulable''))
          | Some f \<Rightarrow>
              if sf_requires_model_version f \<and> sd_model_version s = None
              then Inl (Refused (ScheduleError ''no model_version_id''))
              else bindR (family_dispatch B f s tick code_version db) (\<lambda>(db1, res).
                let row = dispatched_row E s tick now (length (scheduled_runs db1)) res
                in bindR (insert_run row db1) (\<lambda>db2. Inr (db2, row)))))"

text \<open>
  \<open>redact_failure_reason\<close>: cut at each marker in turn, strip, keep 2000 characters (a character is
  a byte that does not continue a UTF-8 sequence, with the bytes that continue it).
\<close>

fun before_sub :: "string \<Rightarrow> string \<Rightarrow> string" where
  "before_sub p [] = []"
| "before_sub p (c # s) = (if take (length p) (c # s) = p then [] else c # before_sub p s)"

definition newline :: string where
  "newline = [char_of (10::nat)]"

definition reason_cuts :: "string list" where
  "reason_cuts = [newline @ ''[SQL:'', newline @ ''[parameters:'', newline @ ''DETAIL:'',
     newline @ ''CONTEXT:'', newline @ ''LINE '']"

definition continues :: "char \<Rightarrow> bool" where
  "continues c = (let n = (of_char c :: nat) in 128 \<le> n \<and> n < 192)"

fun take_chars :: "nat \<Rightarrow> string \<Rightarrow> string" where
  "take_chars n [] = []"
| "take_chars n (c # s) =
     (if continues c then c # take_chars n s
      else case n of 0 \<Rightarrow> [] | Suc k \<Rightarrow> c # take_chars k s)"

definition redact_failure_reason :: "string \<Rightarrow> string" where
  "redact_failure_reason reason = take_chars 2000 (py_strip (foldl (\<lambda>head cut. before_sub cut head) reason reason_cuts))"

definition record_failed_dispatch ::
  "env \<Rightarrow> schedule_row \<Rightarrow> int \<Rightarrow> pydatetime \<Rightarrow> string \<Rightarrow> date set option \<Rightarrow> 'a sched_db_scheme
     \<Rightarrow> sched_fail + ('a sched_db_scheme \<times> scheduled_run)" where
  "record_failed_dispatch E s tick now reason holidays db =
     bindR (lift_error (assert_current_tick s tick now holidays)) (\<lambda>_.
       let row = (ledger_row E s tick now (length (scheduled_runs db)))\<lparr>sr_reason := Some (redact_failure_reason reason)\<rparr>
       in bindR (insert_run row db) (\<lambda>db1. Inr (db1, row)))"

section \<open>Edits\<close>

record schedule_input =
  si_tenant :: string
  si_code :: string
  si_name :: string
  si_target :: string
  si_scope :: "string option"
  si_environment :: string
  si_anchor :: date
  si_model_version :: "string option"
  si_interval :: "int option"
  si_cadence :: string
  si_status :: string
  si_calendar :: "string option"

definition cadence_kinds :: "string list" where
  "cadence_kinds = [''INTERVAL'', ''CALENDAR_MONTH_END'', ''BUSINESS_MONTH_END'']"

definition schedule_statuses :: "string list" where
  "schedule_statuses = [''ACTIVE'', ''PAUSED'']"

text \<open>The two directions of a column a declaration requires or forbids.\<close>

definition required_xor_forbidden :: "bool \<Rightarrow> string option \<Rightarrow> string \<Rightarrow> sched_error + unit" where
  "required_xor_forbidden required v what =
     (if required \<and> \<not> truthy v then Inl (ScheduleError (what @ '' is required''))
      else if \<not> required \<and> v \<noteq> None then Inl (ScheduleError (what @ '' must be omitted''))
      else Inr ())"

definition check_interval :: "string \<Rightarrow> int option \<Rightarrow> sched_error + unit" where
  "check_interval cadence interval =
     (if cadence = ''INTERVAL'' then
        (case interval of
           None \<Rightarrow> Inl (ScheduleError ''interval_days must be positive'')
         | Some n \<Rightarrow> if n \<le> 0 then Inl (ScheduleError ''interval_days must be positive'')
             else if max_interval_days < n then Inl (ScheduleError ''interval_days exceeds the ceiling'')
             else Inr ())
      else if interval \<noteq> None then Inl (ScheduleError ''interval_days must be omitted'') else Inr ())"

definition validate_schedule_config :: "schedule_input \<Rightarrow> sched_error + unit" where
  "validate_schedule_config inp =
     (case family_registry (si_target inp) of
        None \<Rightarrow> Inl (ScheduleError ''target_run_type is not schedulable'')
      | Some f \<Rightarrow>
          if si_cadence inp \<notin> set cadence_kinds then Inl (ScheduleError ''cadence_kind is not supported'')
          else if si_status inp \<notin> set schedule_statuses then Inl (ScheduleError ''status is not valid'')
          else bindR (required_xor_forbidden (si_cadence inp = ''BUSINESS_MONTH_END'') (si_calendar inp) ''calendar_id'') (\<lambda>_.
               bindR (required_xor_forbidden (sf_requires_model_version f) (si_model_version inp) ''model_version_id'') (\<lambda>_.
               bindR (required_xor_forbidden (sf_requires_portfolio_scope f) (si_scope inp) ''scope_portfolio_id'') (\<lambda>_.
               bindR (check_interval (si_cadence inp) (si_interval inp)) (\<lambda>_.
               if si_environment inp = [] then Inl (ScheduleError ''environment_id is required'') else Inr ())))))"

text \<open>The guards that re-resolve a foreign key under the acting tenant.\<close>

definition assert_in_tenant ::
  "(string \<times> string) list \<Rightarrow> string option \<Rightarrow> string \<Rightarrow> string \<Rightarrow> sched_error + unit" where
  "assert_in_tenant ids v tenant what =
     (case v of None \<Rightarrow> Inr ()
      | Some i \<Rightarrow> if (i, tenant) \<in> set ids then Inr () else Inl (ScheduleError (what @ '' is not visible'')))"

definition assert_calendar_visible :: "calendar_row list \<Rightarrow> string option \<Rightarrow> string \<Rightarrow> sched_error + unit" where
  "assert_calendar_visible cals v tenant =
     (case v of None \<Rightarrow> Inr ()
      | Some i \<Rightarrow> if list_ex (\<lambda>c. cal_id c = i \<and> own_or_system (cal_tenant c) tenant) cals then Inr ()
          else Inl (ScheduleError ''the calendar is not visible''))"

text \<open>Each guard runs when the family or the cadence declares the column.\<close>

definition declares :: "(scheduled_family \<Rightarrow> bool) \<Rightarrow> string \<Rightarrow> bool" where
  "declares requires target = (case family_registry target of None \<Rightarrow> False | Some f \<Rightarrow> requires f)"

definition when_declared :: "bool \<Rightarrow> sched_error + unit \<Rightarrow> sched_error + unit" where
  "when_declared c guard = (if c then guard else Inr ())"

definition schedule_fk_guards :: "schedule_input \<Rightarrow> 'a sched_db_scheme \<Rightarrow> sched_error + unit" where
  "schedule_fk_guards inp db =
     bindR (when_declared (declares sf_requires_portfolio_scope (si_target inp))
              (assert_in_tenant (portfolio_ids db) (si_scope inp) (si_tenant inp) ''the portfolio'')) (\<lambda>_.
     bindR (when_declared (declares sf_requires_model_version (si_target inp))
              (assert_in_tenant (model_version_ids db) (si_model_version inp) (si_tenant inp) ''the model version'')) (\<lambda>_.
     when_declared (si_cadence inp = ''BUSINESS_MONTH_END'')
       (assert_calendar_visible (calendars db) (si_calendar inp) (si_tenant inp))))"

definition schedule_metadata :: "schedule_row \<Rightarrow> json" where
  "schedule_metadata s = JObj [(''code'', JStr (sd_code s)), (''target_run_type'', JStr (sd_target s)),
     (''scope_portfolio_id'', opt_str (sd_scope s)), (''cadence_kind'', JStr (sd_cadence s)),
     (''interval_days'', (case sd_interval s of None \<Rightarrow> JNull | Some n \<Rightarrow> JInt n)),
     (''status'', JStr (sd_status s)), (''record_version'', JInt (sd_version s))]"

definition record_schedule_event ::
  "env \<Rightarrow> schedule_row \<Rightarrow> string \<Rightarrow> string \<Rightarrow> json option \<Rightarrow> json \<Rightarrow> actor \<Rightarrow> 'a sched_db_scheme
     \<Rightarrow> 'a sched_db_scheme" where
  "record_schedule_event E s ty act before after who db = log_event E
     ((event_call ty (sd_tenant s) (act_type who) (act_id who) ''scheduling'' act)
        \<lparr>entity_type := Some ''schedule'', entity_id := Some (sd_id s), before_value := before,
         after_value := Some after\<rparr>) None db"

definition new_schedule :: "string \<Rightarrow> schedule_input \<Rightarrow> schedule_row" where
  "new_schedule sid inp = \<lparr>sd_id = sid, sd_tenant = si_tenant inp, sd_code = si_code inp, sd_name = si_name inp,
     sd_target = si_target inp, sd_scope = si_scope inp, sd_model_version = si_model_version inp,
     sd_environment = si_environment inp, sd_cadence = si_cadence inp, sd_interval = si_interval inp,
     sd_calendar = si_calendar inp, sd_anchor = si_anchor inp, sd_status = si_status inp, sd_version = 1\<rparr>"

definition create_schedule ::
  "env \<Rightarrow> schedule_input \<Rightarrow> actor \<Rightarrow> 'a sched_db_scheme \<Rightarrow> sched_fail + ('a sched_db_scheme \<times> schedule_row)" where
  "create_schedule E inp who db =
     bindR (lift_error (validate_schedule_config inp)) (\<lambda>_.
     bindR (lift_error (schedule_fk_guards inp db)) (\<lambda>_.
     let s = new_schedule (uuid E ''schedule'' (length (schedules db))) inp
     in if list_ex (\<lambda>x. sd_tenant x = sd_tenant s \<and> sd_code x = sd_code s) (schedules db)
        then Inl (Integrity (Some ''uq_schedule_tenant_code'') ''duplicate key'')
        else Inr (record_schedule_event E s ''SCHEDULE.CREATE'' ''create'' None (schedule_metadata s) who
                    (db\<lparr>schedules := schedules db @ [s]\<rparr>), s)))"

record schedule_changes =
  sg_name :: "string option"
  sg_status :: "string option"
  sg_unknown :: "string list"

definition apply_schedule_changes :: "schedule_changes \<Rightarrow> schedule_row \<Rightarrow> schedule_row" where
  "apply_schedule_changes ch s = s\<lparr>sd_name := (case sg_name ch of None \<Rightarrow> sd_name s | Some v \<Rightarrow> v),
     sd_status := (case sg_status ch of None \<Rightarrow> sd_status s | Some v \<Rightarrow> v), sd_version := sd_version s + 1\<rparr>"

definition changed_values :: "schedule_changes \<Rightarrow> schedule_row \<Rightarrow> json" where
  "changed_values ch s = JObj ((if sg_name ch = None then [] else [(''name'', JStr (sd_name s))]) @
     (if sg_status ch = None then [] else [(''status'', JStr (sd_status s))]))"

definition update_schedule ::
  "env \<Rightarrow> schedule_row \<Rightarrow> actor \<Rightarrow> schedule_changes \<Rightarrow> 'a sched_db_scheme
     \<Rightarrow> sched_fail + ('a sched_db_scheme \<times> schedule_row)" where
  "update_schedule E s who ch db =
     (if sg_unknown ch \<noteq> [] then Inl (Refused (ScheduleError ''non-updatable schedule attributes''))
      else if opt_any (sg_status ch) (\<lambda>v. v \<notin> set schedule_statuses)
      then Inl (Refused (ScheduleError ''status is not valid''))
      else let s' = apply_schedule_changes ch s
           in Inr (record_schedule_event E s' ''SCHEDULE.UPDATE'' ''update'' (Some (changed_values ch s))
                     (changed_values ch s') who
                     (db\<lparr>schedules := map (\<lambda>x. if sd_id x = sd_id s then s' else x) (schedules db)\<rparr>), s'))"

definition pause_schedule ::
  "env \<Rightarrow> schedule_row \<Rightarrow> actor \<Rightarrow> 'a sched_db_scheme \<Rightarrow> sched_fail + ('a sched_db_scheme \<times> schedule_row)" where
  "pause_schedule E s who db = update_schedule E s who \<lparr>sg_name = None, sg_status = Some ''PAUSED'', sg_unknown = []\<rparr> db"

definition resume_schedule ::
  "env \<Rightarrow> schedule_row \<Rightarrow> actor \<Rightarrow> 'a sched_db_scheme \<Rightarrow> sched_fail + ('a sched_db_scheme \<times> schedule_row)" where
  "resume_schedule E s who db = update_schedule E s who \<lparr>sg_name = None, sg_status = Some ''ACTIVE'', sg_unknown = []\<rparr> db"

section \<open>Queries\<close>

record schedule_with_last_fire =
  sw_schedule :: schedule_row
  sw_scheduled_for :: "int option"
  sw_fired_at :: "pydatetime option"
  sw_outcome :: "string option"
  sw_reason :: "string option"

text \<open>The outer joins: the tenant's ledger rows at the schedule's largest tick, or no row.\<close>

definition last_fires :: "'a sched_db_scheme \<Rightarrow> string \<Rightarrow> string \<Rightarrow> scheduled_run option list" where
  "last_fires db tenant sid =
     (case max_key sr_for (filter (\<lambda>r. sr_tenant r = tenant \<and> sr_schedule r = sid) (scheduled_runs db)) of
        None \<Rightarrow> [None]
      | Some tick \<Rightarrow>
          (case filter (\<lambda>r. sr_tenant r = tenant \<and> sr_schedule r = sid \<and> sr_for r = tick) (scheduled_runs db) of
             [] \<Rightarrow> [None] | rs \<Rightarrow> map Some rs))"

definition list_schedules ::
  "'a sched_db_scheme \<Rightarrow> string \<Rightarrow> string option \<Rightarrow> schedule_with_last_fire list" where
  "list_schedules db tenant st =
     [\<lparr>sw_schedule = s, sw_scheduled_for = map_option sr_for l, sw_fired_at = map_option sr_fired l,
        sw_outcome = map_option sr_outcome l, sw_reason = Option.bind l sr_reason\<rparr>.
      s \<leftarrow> sort_key sd_code (filter (\<lambda>s. sd_tenant s = tenant \<and> opt_filter st (\<lambda>v. sd_status s = v)) (schedules db)),
      l \<leftarrow> last_fires db tenant (sd_id s)]"

definition list_scheduled_runs ::
  "'a sched_db_scheme \<Rightarrow> string \<Rightarrow> string option \<Rightarrow> string option \<Rightarrow> int option \<Rightarrow> int option \<Rightarrow> nat \<Rightarrow> nat
     \<Rightarrow> scheduled_run list" where
  "list_scheduled_runs db tenant sid oc since until n skip =
     take n (drop skip (sort_desc (\<lambda>r. sr_for r) (sort_desc sr_id (filter (\<lambda>r. sr_tenant r = tenant \<and>
       opt_filter sid (\<lambda>v. sr_schedule r = v) \<and> opt_filter oc (\<lambda>v. sr_outcome r = v) \<and>
       opt_filter since (\<lambda>v. v \<le> sr_for r) \<and> opt_filter until (\<lambda>v. sr_for r \<le> v)) (scheduled_runs db)))))"

section \<open>The database's own checks\<close>

text \<open>
  The constraints of the \<open>schedule\<close> table after migration 0065: each enumerates the families or the
  cadences and refuses what it does not list.
\<close>

definition ck_model_version_by_family :: "schedule_row \<Rightarrow> bool" where
  "ck_model_version_by_family s \<longleftrightarrow>
     sd_target s = ''VAR'' \<and> sd_model_version s \<noteq> None \<or>
     sd_target s = ''EXPOSURE_AGGREGATE'' \<and> sd_model_version s = None \<or>
     sd_target s = ''REPRODUCTION'' \<and> sd_model_version s = None"

definition ck_portfolio_scope_by_family :: "schedule_row \<Rightarrow> bool" where
  "ck_portfolio_scope_by_family s \<longleftrightarrow>
     sd_target s \<in> set [''VAR'', ''EXPOSURE_AGGREGATE''] \<and> sd_scope s \<noteq> None \<or>
     sd_target s = ''REPRODUCTION'' \<and> sd_scope s = None"

definition ck_interval_days_by_cadence :: "schedule_row \<Rightarrow> bool" where
  "ck_interval_days_by_cadence s \<longleftrightarrow>
     sd_cadence s = ''INTERVAL'' \<and> (case sd_interval s of None \<Rightarrow> False | Some n \<Rightarrow> 0 < n \<and> n \<le> max_interval_days) \<or>
     sd_cadence s \<in> set [''CALENDAR_MONTH_END'', ''BUSINESS_MONTH_END''] \<and> sd_interval s = None"

definition ck_cadence_kind_vocab :: "schedule_row \<Rightarrow> bool" where
  "ck_cadence_kind_vocab s \<longleftrightarrow>
     sd_cadence s \<in> set [''INTERVAL'', ''CALENDAR_MONTH_END'', ''BUSINESS_MONTH_END'']"

definition ck_calendar_id_by_cadence :: "schedule_row \<Rightarrow> bool" where
  "ck_calendar_id_by_cadence s \<longleftrightarrow>
     sd_cadence s = ''BUSINESS_MONTH_END'' \<and> sd_calendar s \<noteq> None \<or>
     sd_cadence s \<in> set [''INTERVAL'', ''CALENDAR_MONTH_END''] \<and> sd_calendar s = None"

definition schedule_checks :: "schedule_row \<Rightarrow> bool" where
  "schedule_checks s \<longleftrightarrow> ck_model_version_by_family s \<and> ck_portfolio_scope_by_family s \<and>
     ck_interval_days_by_cadence s \<and> ck_cadence_kind_vocab s \<and> ck_calendar_id_by_cadence s"

lemma lift_error_simps [simp]:
  "lift_error (Inr x) = Inr x" "lift_error (Inl e) = Inl (Refused e)"
  by (simp_all add: lift_error_def)

lemma lift_error_Inr [res_simps]: "lift_error r = Inr x \<longleftrightarrow> r = Inr x"
  by (cases r) simp_all

lemma required_xor_forbidden_iff [res_simps]:
  "required_xor_forbidden required v what = Inr u \<longleftrightarrow> (if required then truthy v else v = None)"
  by (auto simp: required_xor_forbidden_def)

lemma check_interval_iff [res_simps]:
  "check_interval cadence interval = Inr u \<longleftrightarrow>
     (if cadence = ''INTERVAL'' then (case interval of None \<Rightarrow> False | Some n \<Rightarrow> 0 < n \<and> n \<le> max_interval_days)
      else interval = None)"
  by (auto simp: check_interval_def split: option.splits)

lemma truthy_iff: "truthy v \<longleftrightarrow> v \<noteq> None \<and> v \<noteq> Some []"
  by (cases v) (auto simp: truthy_def)

text \<open>C20. The service's validation accepts exactly the configurations the five database constraints
  accept, apart from what only the service asks: a known status, an environment, and no empty
  string in an identifier.\<close>

theorem validation_mirrors_the_constraints:
  "isOk (validate_schedule_config inp) =
     (schedule_checks (new_schedule sid inp) \<and> si_status inp \<in> set schedule_statuses \<and>
      si_environment inp \<noteq> [] \<and>
      list_all (\<lambda>v. v \<noteq> Some []) [si_calendar inp, si_model_version inp, si_scope inp])"
proof -
  have ok: "isOk r = (r = Inr ())" for r :: "sched_error + unit"
    by (cases r) simp_all
  consider "si_target inp = ''VAR''" | "si_target inp = ''EXPOSURE_AGGREGATE''" |
    "si_target inp = ''REPRODUCTION''" | "family_registry (si_target inp) = None"
    "si_target inp \<notin> {''VAR'', ''EXPOSURE_AGGREGATE'', ''REPRODUCTION''}"
    by (auto simp: family_registry_def)
  then show ?thesis
  proof cases
    case 4
    then show ?thesis
      by (simp add: ok validate_schedule_config_def schedule_checks_def ck_model_version_by_family_def new_schedule_def)
  qed (auto simp: ok validate_schedule_config_def family_registry_def schedule_checks_def new_schedule_def
      ck_model_version_by_family_def ck_portfolio_scope_by_family_def ck_interval_days_by_cadence_def
      ck_cadence_kind_vocab_def ck_calendar_id_by_cadence_def cadence_kinds_def truthy_iff res_simps)
qed

section \<open>Redaction\<close>

lemma before_sub_prefix: "prefix (before_sub p s) s"
  by (induction s) auto

lemma prefix_take: "prefix p s \<longleftrightarrow> take (length p) s = p"
  by (metis append_eq_conv_conj append_take_drop_id prefix_def)

lemma before_sub_absent:
  assumes "p \<noteq> []"
  shows "\<not> sublist p (before_sub p s)"
proof (induction s)
  case (Cons c s)
  show ?case
  proof (cases "take (length p) (c # s) = p")
    case False
    then have "\<not> prefix p (c # s)" by (simp add: prefix_take)
    then have "\<not> prefix p (c # before_sub p s)"
      using before_sub_prefix[of p s] by (metis Cons_prefix_Cons prefix_order.trans)
    then show ?thesis using Cons False by (simp add: sublist_Cons_right)
  qed (use assms in simp)
qed (use assms in simp)

lemma cuts_prefix: "prefix (foldl (\<lambda>head cut. before_sub cut head) s cuts) s"
proof (induction cuts arbitrary: s)
  case (Cons c cuts)
  then show ?case using before_sub_prefix[of c s] by (metis foldl_Cons prefix_order.trans)
qed simp

lemma cuts_absent:
  assumes "[] \<notin> set cuts" "p \<in> set cuts"
  shows "\<not> sublist p (foldl (\<lambda>head cut. before_sub cut head) s cuts)"
  using assms
proof (induction cuts arbitrary: s)
  case (Cons c cuts)
  show ?case
  proof (cases "p = c")
    case True
    then have "\<not> sublist p (before_sub c s)" using before_sub_absent Cons.prems(1) by auto
    then show ?thesis using cuts_prefix[of "before_sub c s" cuts]
      by (metis foldl_Cons prefix_imp_sublist sublist_order.order_trans)
  qed (use Cons in auto)
qed simp

lemma py_strip_sublist: "sublist (py_strip s) s"
proof -
  have s: "suffix (dropWhile P xs) xs" for P :: "char \<Rightarrow> bool" and xs
    by (rule suffix_dropWhile)
  then have "prefix (py_strip s) (dropWhile is_space s)"
    unfolding py_strip_def by (metis rev_rev_ident suffix_to_prefix)
  then show ?thesis using s[of is_space s]
    by (metis prefix_imp_sublist sublist_order.order_trans suffix_imp_sublist)
qed

lemma take_chars_prefix: "prefix (take_chars n s) s"
  by (induction n s rule: take_chars.induct) (auto split: nat.splits)

lemma take_chars_count: "length (filter (\<lambda>c. \<not> continues c) (take_chars n s)) \<le> n"
  by (induction n s rule: take_chars.induct) (auto split: nat.splits)

text \<open>A recorded failure reason holds none of the markers after which a database error quotes its
  statement, its parameters or a row; it is a contiguous part of the original text, of at most 2000
  characters.\<close>

lemma redaction_drops_quoted_data:
  "list_all (\<lambda>cut. \<not> sublist cut (redact_failure_reason reason)) reason_cuts \<and>
   sublist (redact_failure_reason reason) reason \<and>
   length (filter (\<lambda>c. \<not> continues c) (redact_failure_reason reason)) \<le> 2000"
proof -
  let ?h = "foldl (\<lambda>head cut. before_sub cut head) reason reason_cuts"
  have sub: "sublist (redact_failure_reason reason) ?h"
    unfolding redact_failure_reason_def
    using take_chars_prefix[of 2000 "py_strip ?h"] py_strip_sublist[of ?h]
    by (metis prefix_imp_sublist sublist_order.order_trans)
  have "[] \<notin> set reason_cuts" by (simp add: reason_cuts_def newline_def)
  then have "\<not> sublist cut (redact_failure_reason reason)" if "cut \<in> set reason_cuts" for cut
    using cuts_absent[of reason_cuts cut reason] that sub by (metis sublist_order.order_trans)
  moreover have "sublist (redact_failure_reason reason) reason"
    using sub cuts_prefix[of reason reason_cuts] by (metis prefix_imp_sublist sublist_order.order_trans)
  ultimately show ?thesis
    using take_chars_count by (simp add: list_all_iff redact_failure_reason_def)
qed

end
