(* ===== verification/Worker_Tick.thy ===== *)
theory Worker_Tick
  imports Scheduling
begin

text \<open>
  The worker's per-tenant operational tick (\<open>irp_worker/scheduler.py\<close>): the poll that fires every due
  schedule, each in a savepoint of its own, and the phases run after it. A savepoint that is rolled
  back is the database as it was before the attempt.
\<close>

section \<open>The poll\<close>

fun is_tick_dedup :: "sched_fail \<Rightarrow> bool" where
  "is_tick_dedup (Integrity name text) \<longleftrightarrow>
     name = Some ''uq_scheduled_run_schedule_tick'' \<or> name = Some ''uq_scheduled_run_schedule_period'' \<or>
     sublist ''uq_scheduled_run_schedule_tick'' text \<or> sublist ''uq_scheduled_run_schedule_period'' text"
| "is_tick_dedup (Refused e) \<longleftrightarrow> False"
| "is_tick_dedup (Raised name text) \<longleftrightarrow> False"

fun failure_text :: "sched_fail \<Rightarrow> string" where
  "failure_text (Integrity name text) = ''IntegrityError: '' @ text"
| "failure_text (Refused (ScheduleError m)) = ''ScheduleError: '' @ m"
| "failure_text (Refused RawValueError) = ''ValueError: ''"
| "failure_text (Raised name text) = name @ '': '' @ text"

definition record_failed ::
  "env \<Rightarrow> schedule_row \<Rightarrow> int \<Rightarrow> pydatetime \<Rightarrow> string \<Rightarrow> date set option \<Rightarrow> 'a sched_db_scheme
     \<Rightarrow> 'a sched_db_scheme \<times> string" where
  "record_failed E s tick now reason holidays db =
     (case record_failed_dispatch E s tick now reason holidays db of
        Inr (db1, _) \<Rightarrow> (db1, ''FAILED'')
      | Inl (Integrity _ _) \<Rightarrow> (db, ''SKIPPED_DUPLICATE'')
      | Inl _ \<Rightarrow> (db, ''UNRECORDED''))"

definition fire_one ::
  "'a sched_db_scheme binders \<Rightarrow> env \<Rightarrow> pydatetime \<Rightarrow> string \<Rightarrow> schedule_row \<times> int \<times> date set option
     \<Rightarrow> 'a sched_db_scheme \<Rightarrow> 'a sched_db_scheme \<times> string" where
  "fire_one B E now code_version d db =
     (case d of (s, tick, holidays) \<Rightarrow>
        (case dispatch_one B E s tick now code_version holidays db of
           Inr (db1, row) \<Rightarrow> (db1, sr_outcome row)
         | Inl e \<Rightarrow> if is_tick_dedup e then (db, ''SKIPPED_DUPLICATE'')
             else record_failed E s tick now (failure_text e) holidays db))"

fun poll_each ::
  "'a sched_db_scheme binders \<Rightarrow> env \<Rightarrow> pydatetime \<Rightarrow> string \<Rightarrow> (schedule_row \<times> int \<times> date set option) list
     \<Rightarrow> 'a sched_db_scheme \<Rightarrow> 'a sched_db_scheme \<times> (string \<times> string) list" where
  "poll_each B E now code_version [] db = (db, [])"
| "poll_each B E now code_version (d # ds) db =
     (let (db1, out) = fire_one B E now code_version d db;
          (db2, results) = poll_each B E now code_version ds db1
      in (db2, (sd_id (fst d), out) # results))"

definition poll_tenant_schedules ::
  "'a sched_db_scheme binders \<Rightarrow> env \<Rightarrow> pydatetime \<Rightarrow> string \<Rightarrow> string \<Rightarrow> 'a sched_db_scheme
     \<Rightarrow> sched_error + ('a sched_db_scheme \<times> (string \<times> string) list)" where
  "poll_tenant_schedules B E now code_version tenant db =
     bindR (select_active_due db now tenant) (\<lambda>ds. Inr (poll_each B E now code_version ds db))"

section \<open>What the binders keep\<close>

text \<open>
  A governed binder writes runs, snapshots, results and audit events. It does not touch the
  scheduling tables, the calendars, the limits or the breaches, so it cannot violate the ledger's
  constraints.
\<close>

definition binder_keeps :: "(run_call \<Rightarrow> 'a sched_db_scheme \<Rightarrow> sched_fail + ('a sched_db_scheme \<times> run_result)) \<Rightarrow> bool" where
  "binder_keeps b \<longleftrightarrow> (\<forall>c db. case b c db of
     Inr (db', r) \<Rightarrow> schedules db' = schedules db \<and> scheduled_runs db' = scheduled_runs db \<and>
       calendars db' = calendars db \<and> calendar_holidays db' = calendar_holidays db \<and>
       limit_definitions db' = limit_definitions db \<and> breaches db' = breaches db \<and>
       breach_actions db' = breach_actions db
   | Inl e \<Rightarrow> \<not> is_tick_dedup e)"

definition binders_keep :: "'a sched_db_scheme binders \<Rightarrow> bool" where
  "binders_keep B \<longleftrightarrow> binder_keeps (bd_var B) \<and> binder_keeps (bd_exposure B) \<and> binder_keeps (bd_reproduction B)"

text \<open>The tables a poll leaves alone: all it reads apart from the ledger.\<close>

definition same_config :: "'a sched_db_scheme \<Rightarrow> 'a sched_db_scheme \<Rightarrow> bool" where
  "same_config db db' \<longleftrightarrow> schedules db' = schedules db \<and> calendars db' = calendars db \<and>
     calendar_holidays db' = calendar_holidays db \<and> limit_definitions db' = limit_definitions db \<and>
     breaches db' = breaches db \<and> breach_actions db' = breach_actions db"

lemma same_config_trans: "same_config a b \<Longrightarrow> same_config b c \<Longrightarrow> same_config a c"
  by (simp add: same_config_def)

lemma binder_keepsD:
  assumes "binder_keeps b"
  shows "b c db = Inr (db', r) \<Longrightarrow> same_config db db' \<and> scheduled_runs db' = scheduled_runs db"
    and "b c db = Inl e \<Longrightarrow> \<not> is_tick_dedup e"
  using spec[OF spec[OF assms[unfolded binder_keeps_def], of c], of db] by (auto simp: same_config_def)

lemma family_dispatch_keeps:
  assumes "binders_keep B"
  shows "family_dispatch B f s tick cv db = Inr (db', r) \<Longrightarrow>
      same_config db db' \<and> scheduled_runs db' = scheduled_runs db"
    and "family_dispatch B f s tick cv db = Inl e \<Longrightarrow> \<not> is_tick_dedup e"
proof -
  note keeps = assms[unfolded binders_keep_def]
  show "family_dispatch B f s tick cv db = Inr (db', r) \<Longrightarrow>
      same_config db db' \<and> scheduled_runs db' = scheduled_runs db"
    using keeps binder_keepsD(1)
    by (fastforce simp: family_dispatch_def dispatch_var_def dispatch_exposure_def dispatch_reproduction_def
        res_simps split: if_splits option.splits list.splits)
  show "family_dispatch B f s tick cv db = Inl e \<Longrightarrow> \<not> is_tick_dedup e"
    using keeps binder_keepsD(2)
    by (fastforce simp: family_dispatch_def dispatch_var_def dispatch_exposure_def dispatch_reproduction_def
        res_simps split: if_splits option.splits list.splits)
qed

section \<open>One schedule\<close>

lemma due_tick_asserts:
  assumes "due_tick db now s = Inr (tick, hs)" "\<not> outside_start_boundary (sd_anchor s) tick (utc_of now)"
  shows "assert_current_tick s tick now hs = Inr ()"
proof -
  have t: "schedule_tick s now hs = Inr tick"
    using assms(1) by (auto simp: due_tick_def res_simps split: if_splits)
  then obtain w off where "now = Aware w off"
    by (cases now) (auto simp: schedule_tick_def current_tick_def)
  then show ?thesis using t assms(2) by (simp add: assert_current_tick_def)
qed

lemma assert_current_tick_Inr:
  assumes "assert_current_tick s tick now hs = Inr u"
  shows "current_tick (sd_anchor s) (sd_interval s) now (sd_cadence s) hs = Inr tick \<and>
    \<not> outside_start_boundary (sd_anchor s) tick (utc_of now)"
  using assms by (cases now) (auto simp: assert_current_tick_def schedule_tick_def res_simps split: if_splits)

lemma insert_run_Inr:
  "insert_run row db = Inr db' \<longleftrightarrow> \<not> fired db (sr_schedule row) (sr_for row) \<and>
     (case sr_period row of None \<Rightarrow> True | Some p \<Rightarrow> \<not> served db (sr_schedule row) p) \<and>
     db' = db\<lparr>scheduled_runs := scheduled_runs db @ [row]\<rparr>"
  by (auto simp: insert_run_def split: option.splits)

lemma ledger_row_sel [simp]:
  "sr_schedule (ledger_row E s tick now n) = sd_id s" "sr_for (ledger_row E s tick now n) = tick"
  "sr_period (ledger_row E s tick now n) = row_period s tick" "sr_fired (ledger_row E s tick now n) = now"
  "sr_outcome (ledger_row E s tick now n) = ''FAILED''"
  by (simp_all add: ledger_row_def)

text \<open>What a fired row is, whatever the outcome.\<close>

definition fires :: "pydatetime \<Rightarrow> schedule_row \<times> int \<times> date set option \<Rightarrow> scheduled_run \<Rightarrow> bool" where
  "fires now d row \<longleftrightarrow> sr_schedule row = sd_id (fst d) \<and> sr_for row = fst (snd d) \<and>
     sr_period row = row_period (fst d) (fst (snd d)) \<and> sr_fired row = now \<and>
     sr_outcome row \<in> {''DISPATCHED'', ''FAILED''}"

definition unserved :: "'a sched_db_scheme \<Rightarrow> schedule_row \<Rightarrow> int \<Rightarrow> bool" where
  "unserved db s tick \<longleftrightarrow> \<not> fired db (sd_id s) tick \<and> \<not> (is_business s \<and> served db (sd_id s) (period_key tick))"

lemma unserved_insert:
  assumes "unserved db s tick" "scheduled_runs db' = scheduled_runs db"
    "sr_schedule row = sd_id s" "sr_for row = tick" "sr_period row = row_period s tick"
  shows "insert_run row db' = Inr (db'\<lparr>scheduled_runs := scheduled_runs db @ [row]\<rparr>)"
  using assms by (auto simp: insert_run_Inr unserved_def fired_def served_def row_period_def)

lemma unserved_find: "unserved db s tick \<Longrightarrow> find (\<lambda>r. sr_schedule r = sd_id s \<and> sr_for r = tick) (scheduled_runs db) = None"
  by (auto simp: find_None_iff unserved_def fired_def list_ex_iff)

lemma dispatch_one_cases:
  assumes now: "assert_current_tick s tick now hs = Inr ()" and un: "unserved db s tick"
  obtains (refused) m where "dispatch_one B E s tick now cv hs db = Inl (Refused m)"
  | (ran) f where "dispatch_one B E s tick now cv hs db =
      bindR (family_dispatch B f s tick cv db) (\<lambda>(db1, res).
        let row = dispatched_row E s tick now (length (scheduled_runs db1)) res
        in bindR (insert_run row db1) (\<lambda>db2. Inr (db2, row)))"
proof -
  have eq: "dispatch_one B E s tick now cv hs db =
      (case family_registry (sd_target s) of
         None \<Rightarrow> Inl (Refused (ScheduleError ''target_run_type is not schedulable''))
       | Some f \<Rightarrow>
           if sf_requires_model_version f \<and> sd_model_version s = None
           then Inl (Refused (ScheduleError ''no model_version_id''))
           else bindR (family_dispatch B f s tick cv db) (\<lambda>(db1, res).
             let row = dispatched_row E s tick now (length (scheduled_runs db1)) res
             in bindR (insert_run row db1) (\<lambda>db2. Inr (db2, row))))"
    unfolding dispatch_one_def now lift_error_simps bindR.simps unserved_find[OF un] option.case ..
  show thesis
  proof (cases "family_registry (sd_target s)")
    case None
    show thesis by (rule refused) (simp add: eq None)
  next
    case (Some f)
    show thesis
    proof (cases "sf_requires_model_version f \<and> sd_model_version s = None")
      case True
      show thesis by (rule refused) (simp add: eq Some True)
    next
      case False
      show thesis by (rule ran[of f]) (simp only: eq Some option.case False if_False)
    qed
  qed
qed

lemma dispatch_one_fires:
  assumes B: "binders_keep B" and now: "assert_current_tick s tick now hs = Inr ()" and un: "unserved db s tick"
  shows "case dispatch_one B E s tick now cv hs db of
      Inr (db1, row) \<Rightarrow> same_config db db1 \<and> scheduled_runs db1 = scheduled_runs db @ [row] \<and>
        fires now (s, tick, hs) row
    | Inl e \<Rightarrow> \<not> is_tick_dedup e"
  using now un
proof (cases rule: dispatch_one_cases[where B = B and E = E and cv = cv])
  case (refused m)
  then show ?thesis by simp
next
  case (ran f)
  show ?thesis
  proof (cases "family_dispatch B f s tick cv db")
    case (Inl e)
    then show ?thesis using ran family_dispatch_keeps(2)[OF B] by simp
  next
    case (Inr p)
    obtain db2 res where p: "p = (db2, res)" by (cases p)
    define row where "row = dispatched_row E s tick now (length (scheduled_runs db2)) res"
    have keeps: "same_config db db2" "scheduled_runs db2 = scheduled_runs db"
      using family_dispatch_keeps(1)[OF B] Inr p by blast+
    have ins: "insert_run row db2 = Inr (db2\<lparr>scheduled_runs := scheduled_runs db @ [row]\<rparr>)"
      by (rule unserved_insert[OF un keeps(2)]) (simp_all add: row_def dispatched_row_def)
    have "fires now (s, tick, hs) row" by (simp add: fires_def row_def dispatched_row_def)
    moreover have "dispatch_one B E s tick now cv hs db =
        Inr (db2\<lparr>scheduled_runs := scheduled_runs db @ [row]\<rparr>, row)"
      unfolding ran Inr p by (simp only: bindR.simps prod.case Let_def row_def[symmetric] ins)
    ultimately show ?thesis using keeps by (simp add: same_config_def)
  qed
qed

lemma record_failed_fires:
  assumes now: "assert_current_tick s tick now hs = Inr ()" and un: "unserved db s tick"
  shows "\<exists>db1 row. record_failed E s tick now reason hs db = (db1, ''FAILED'') \<and> same_config db db1 \<and>
    scheduled_runs db1 = scheduled_runs db @ [row] \<and> fires now (s, tick, hs) row \<and> sr_outcome row = ''FAILED''"
proof -
  let ?row = "(ledger_row E s tick now (length (scheduled_runs db)))\<lparr>sr_reason := Some (redact_failure_reason reason)\<rparr>"
  have "insert_run ?row db = Inr (db\<lparr>scheduled_runs := scheduled_runs db @ [?row]\<rparr>)"
    by (rule unserved_insert[OF un]) simp_all
  then show ?thesis
    by (simp add: record_failed_def record_failed_dispatch_def now Let_def same_config_def fires_def)
qed

lemma fire_one_fires:
  assumes B: "binders_keep B" and now: "assert_current_tick s tick now hs = Inr ()" and un: "unserved db s tick"
  shows "\<exists>db1 row. fire_one B E now cv (s, tick, hs) db = (db1, sr_outcome row) \<and> same_config db db1 \<and>
    scheduled_runs db1 = scheduled_runs db @ [row] \<and> fires now (s, tick, hs) row"
proof (cases "dispatch_one B E s tick now cv hs db")
  case (Inl e)
  then have "\<not> is_tick_dedup e" using dispatch_one_fires[OF assms, of E cv] by simp
  moreover obtain db1 row where "record_failed E s tick now (failure_text e) hs db = (db1, ''FAILED'')"
    "same_config db db1" "scheduled_runs db1 = scheduled_runs db @ [row]" "fires now (s, tick, hs) row"
    "sr_outcome row = ''FAILED''"
    using record_failed_fires[OF now un] by blast
  ultimately show ?thesis using Inl by (simp add: fire_one_def)
next
  case (Inr p)
  then show ?thesis using dispatch_one_fires[OF assms, of E cv] by (cases p) (simp add: fire_one_def)
qed

section \<open>The whole poll\<close>

definition due_in :: "'a sched_db_scheme \<Rightarrow> pydatetime \<Rightarrow> schedule_row \<times> int \<times> date set option \<Rightarrow> bool" where
  "due_in db now d \<longleftrightarrow> (case d of (s, tick, hs) \<Rightarrow> due_tick db now s = Inr (tick, hs) \<and>
     \<not> outside_start_boundary (sd_anchor s) tick (utc_of now) \<and> unserved db s tick)"

lemma unserved_other:
  assumes "unserved db s tick" "scheduled_runs db' = scheduled_runs db @ rows"
    "\<And>r. r \<in> set rows \<Longrightarrow> sr_schedule r \<noteq> sd_id s"
  shows "unserved db' s tick"
  using assms by (auto simp: unserved_def fired_def served_def list_ex_iff)

lemma due_tick_same:
  assumes "same_config db db'"
  shows "due_tick db' now s = due_tick db now s"
proof -
  have same: "calendars db' = calendars db" "calendar_holidays db' = calendar_holidays db"
    using assms by (simp_all add: same_config_def)
  show ?thesis unfolding due_tick_def resolve_business_calendar_def same ..
qed

lemma poll_each_fires:
  assumes B: "binders_keep B"
    and due: "\<And>d. d \<in> set ds \<Longrightarrow> due_in db now d" and dist: "distinct (map (\<lambda>d. sd_id (fst d)) ds)"
  shows "\<exists>db' rows. poll_each B E now cv ds db = (db', map (\<lambda>r. (sr_schedule r, sr_outcome r)) rows) \<and>
    same_config db db' \<and> scheduled_runs db' = scheduled_runs db @ rows \<and> list_all2 (fires now) ds rows"
  using due dist
proof (induction ds arbitrary: db)
  case Nil
  show ?case by (simp add: same_config_def)
next
  case (Cons d ds)
  obtain s tick hs where d: "d = (s, tick, hs)" by (cases d)
  have d_due: "due_tick db now s = Inr (tick, hs)" "\<not> outside_start_boundary (sd_anchor s) tick (utc_of now)"
    "unserved db s tick"
    using Cons.prems(1)[of d] by (simp_all add: due_in_def d)
  obtain db1 row where one: "fire_one B E now cv d db = (db1, sr_outcome row)" "same_config db db1"
    "scheduled_runs db1 = scheduled_runs db @ [row]" "fires now d row"
    using fire_one_fires[OF B due_tick_asserts[OF d_due(1,2)] d_due(3)] unfolding d by blast
  have row: "sr_schedule row = sd_id s" using one(4) by (simp add: fires_def d)
  have "due_in db1 now e" if e: "e \<in> set ds" for e
  proof -
    obtain s' tick' hs' where e': "e = (s', tick', hs')" by (cases e)
    have other: "sr_schedule row \<noteq> sd_id s'"
      using Cons.prems(2) e row by (force simp: d e')
    have "due_in db now e" using Cons.prems(1) e by simp
    then show ?thesis
      using unserved_other[OF _ one(3)] other due_tick_same[OF one(2)]
      by (simp add: due_in_def e')
  qed
  then obtain db' rows where rest: "poll_each B E now cv ds db1 = (db', map (\<lambda>r. (sr_schedule r, sr_outcome r)) rows)"
    "same_config db1 db'" "scheduled_runs db' = scheduled_runs db1 @ rows" "list_all2 (fires now) ds rows"
    using Cons.IH[of db1] Cons.prems(2) by auto
  show ?case
  proof (intro exI conjI)
    show "poll_each B E now cv (d # ds) db = (db', map (\<lambda>r. (sr_schedule r, sr_outcome r)) (row # rows))"
      using one(1) rest(1) row by (simp add: d)
    show "same_config db db'" using one(2) rest(2) by (rule same_config_trans)
    show "scheduled_runs db' = scheduled_runs db @ row # rows" using one(3) rest(3) by simp
    show "list_all2 (fires now) (d # ds) (row # rows)" using one(4) rest(4) by simp
  qed
qed

lemma select_each_due:
  "select_each db now ss = Inr ds \<Longrightarrow>
     (\<forall>d\<in>set ds. fst d \<in> set ss \<and> due_in db now d) \<and>
     (distinct (map sd_id ss) \<longrightarrow> distinct (map (\<lambda>d. sd_id (fst d)) ds)) \<and>
     (\<forall>s\<in>set ss. \<forall>tick hs. due_in db now (s, tick, hs) \<longrightarrow> (s, tick, hs) \<in> set ds)"
proof (induction ss arbitrary: ds)
  case (Cons s ss)
  have skip: ?case if "select_each db now ss = Inr ds" "\<And>tick hs. \<not> due_in db now (s, tick, hs)"
    using Cons.IH[OF that(1)] that(2) by auto
  consider (refused) m where "due_tick db now s = Inl (ScheduleError m)" | (raw) "due_tick db now s = Inl RawValueError"
    | (tick) tick hs where "due_tick db now s = Inr (tick, hs)"
    by (metis sched_error.exhaust sum.exhaust surj_pair)
  then show ?case
  proof cases
    case refused
    then show ?thesis using Cons.prems by (intro skip) (simp_all add: due_in_def)
  next
    case raw
    then show ?thesis using Cons.prems by simp
  next
    case tick
    let ?out = "outside_start_boundary (sd_anchor s) tick (utc_of now) \<or> fired db (sd_id s) tick \<or>
      (is_business s \<and> served db (sd_id s) (period_key tick))"
    have iff: "due_in db now (s, tick', hs') \<longleftrightarrow> tick' = tick \<and> hs' = hs \<and> \<not> ?out" for tick' hs'
      using tick by (auto simp: due_in_def unserved_def)
    show ?thesis
    proof (cases ?out)
      case True
      then have "select_each db now ss = Inr ds" using Cons.prems tick by (simp split: if_splits)
      then show ?thesis using True iff by (intro skip) auto
    next
      case False
      then obtain ds' where ds': "select_each db now ss = Inr ds'" "ds = (s, tick, hs) # ds'"
        using Cons.prems tick by (auto simp: res_simps)
      from Cons.IH[OF ds'(1)] show ?thesis using iff False unfolding ds'(2) by auto
    qed
  qed
qed auto

lemma select_each_none:
  assumes "\<And>s tick hs. s \<in> set ss \<Longrightarrow> \<not> due_in db now (s, tick, hs)"
    and "\<And>s. s \<in> set ss \<Longrightarrow> due_tick db now s \<noteq> Inl RawValueError"
  shows "select_each db now ss = Inr []"
  using assms
proof (induction ss)
  case (Cons s ss)
  then have rest: "select_each db now ss = Inr []" by simp
  consider m where "due_tick db now s = Inl (ScheduleError m)" | tick hs where "due_tick db now s = Inr (tick, hs)"
    using Cons.prems(2)[of s] by (metis list.set_intros(1) sched_error.exhaust sum.exhaust surj_pair)
  then show ?case
  proof cases
    case 2
    then show ?thesis using Cons.prems(1)[of s tick hs] rest by (auto simp: due_in_def unserved_def)
  qed (simp add: rest)
qed simp

lemma select_each_no_raw:
  "select_each db now ss = Inr ds \<Longrightarrow> s \<in> set ss \<Longrightarrow> due_tick db now s \<noteq> Inl RawValueError"
proof (induction ss arbitrary: ds)
  case (Cons x ss)
  show ?case
  proof (cases "due_tick db now x")
    case (Inl e)
    then show ?thesis using Cons by (cases e) auto
  next
    case (Inr p)
    then show ?thesis using Cons by (cases p) (auto simp: res_simps split: if_splits)
  qed
qed simp

lemma set_active_schedules:
  "set (active_schedules db tenant) = {s \<in> set (schedules db). sd_status s = ''ACTIVE'' \<and> sd_tenant s = tenant}"
  by (auto simp: active_schedules_def)

lemma distinct_active_schedules:
  assumes "distinct (map sd_id (schedules db))"
  shows "distinct (map sd_id (active_schedules db tenant))"
proof -
  have "distinct (map sd_id (filter P (schedules db)))" for P
    using assms by (rule distinct_map_filter)
  moreover have "distinct (map f (sort_key f xs)) = distinct (map f xs)" for f :: "schedule_row \<Rightarrow> string" and xs
    by (metis distinct_map distinct_sort set_sort)
  ultimately show ?thesis by (simp add: active_schedules_def)
qed

lemma select_active_due_iff:
  "select_active_due db now tenant = Inr ds \<longleftrightarrow>
     (\<exists>w off. now = Aware w off) \<and> select_each db now (active_schedules db tenant) = Inr ds"
  by (cases now) (auto simp: select_active_due_def)

lemma poll_rows:
  assumes B: "binders_keep B" and dist: "distinct (map sd_id (schedules db))"
    and sel: "select_active_due db now tenant = Inr ds"
  shows "\<exists>db' rows. poll_tenant_schedules B E now cv tenant db =
      Inr (db', map (\<lambda>r. (sr_schedule r, sr_outcome r)) rows) \<and>
    same_config db db' \<and> scheduled_runs db' = scheduled_runs db @ rows \<and> list_all2 (fires now) ds rows"
proof -
  have each: "select_each db now (active_schedules db tenant) = Inr ds"
    using sel by (simp add: select_active_due_iff)
  have "\<And>d. d \<in> set ds \<Longrightarrow> due_in db now d" and "distinct (map (\<lambda>d. sd_id (fst d)) ds)"
    using select_each_due[OF each] distinct_active_schedules[OF dist] by blast+
  from poll_each_fires[OF B this] show ?thesis
    unfolding poll_tenant_schedules_def sel bindR.simps by (metis (no_types, lifting))
qed

lemma list_all2_set1: "list_all2 P xs ys \<Longrightarrow> x \<in> set xs \<Longrightarrow> \<exists>y\<in>set ys. P x y"
  by (induction rule: list_all2_induct) auto

lemma list_all2_set2: "list_all2 P xs ys \<Longrightarrow> y \<in> set ys \<Longrightarrow> \<exists>x\<in>set xs. P x y"
  by (induction rule: list_all2_induct) auto

lemma due_tick_not_raw:
  assumes "py_instant (utc_of now)" "2 \<le> year (date_of (utc_of now))"
  shows "due_tick db now s \<noteq> Inl RawValueError"
proof -
  have "schedule_tick s now hs \<noteq> Inl RawValueError" for hs
    unfolding schedule_tick_def by (rule current_tick_error[OF assms])
  then show ?thesis
    by (auto simp: due_tick_def res_simps resolve_business_calendar_def split: if_splits option.splits)
qed

lemma select_each_total:
  assumes "\<And>s. s \<in> set ss \<Longrightarrow> due_tick db now s \<noteq> Inl RawValueError"
  shows "\<exists>ds. select_each db now ss = Inr ds"
  using assms
proof (induction ss)
  case (Cons s ss)
  then obtain ds where "select_each db now ss = Inr ds" by auto
  moreover have "due_tick db now s \<noteq> Inl RawValueError" using Cons.prems by simp
  ultimately show ?case
    by (auto split: sum.splits sched_error.splits prod.splits)
qed simp

lemma no_more_due:
  assumes ds: "select_active_due db now tenant = Inr ds" and same: "same_config db db'"
    and rows: "scheduled_runs db' = scheduled_runs db @ rows" "list_all2 (fires now) ds rows"
  shows "select_active_due db' now tenant = Inr []"
proof -
  have each: "select_each db now (active_schedules db tenant) = Inr ds" and now: "\<exists>w off. now = Aware w off"
    using ds by (simp_all add: select_active_due_iff)
  have none: "\<not> due_in db' now (s, tick, hs)" if s: "s \<in> set (active_schedules db tenant)" for s tick hs
  proof
    assume due': "due_in db' now (s, tick, hs)"
    then have "due_in db now (s, tick, hs)"
      using due_tick_same[OF same] rows(1) by (auto simp: due_in_def unserved_def fired_def served_def)
    then have "(s, tick, hs) \<in> set ds" using select_each_due[OF each] s by blast
    then obtain row where "row \<in> set rows" "fires now (s, tick, hs) row"
      using list_all2_set1[OF rows(2)] by blast
    then have "fired db' (sd_id s) tick" using rows(1) by (auto simp: fires_def fired_def list_ex_iff)
    then show False using due' by (simp add: due_in_def unserved_def)
  qed
  have "due_tick db' now s \<noteq> Inl RawValueError" if "s \<in> set (active_schedules db tenant)" for s
    using select_each_no_raw[OF each that] due_tick_same[OF same] by simp
  moreover have "active_schedules db' tenant = active_schedules db tenant"
    using same by (simp add: active_schedules_def same_config_def)
  ultimately show ?thesis
    using select_each_none[OF none] now by (simp add: select_active_due_iff)
qed

text \<open>C17. The poll never aborts and starves no schedule: at an aware clock after year 1 it returns,
  every schedule the selection \<open>select_active_due\<close> reports due gets exactly one ledger row at its tick,
  DISPATCHED or FAILED whatever its dispatch raised, nothing else is added to the ledger, and a second poll
  at that instant fires nothing. (That the selection is complete is not part of this claim.)\<close>

theorem poll_fires_every_due_schedule_once:
  assumes B: "binders_keep B" and dist: "distinct (map sd_id (schedules db))"
    and now: "now = Aware w off" "py_instant (utc_of now)" "2 \<le> year (date_of (utc_of now))"
  shows "\<exists>ds db' rows. select_active_due db now tenant = Inr ds \<and>
    poll_tenant_schedules B E now cv tenant db = Inr (db', map (\<lambda>r. (sr_schedule r, sr_outcome r)) rows) \<and>
    scheduled_runs db' = scheduled_runs db @ rows \<and> list_all2 (fires now) ds rows \<and>
    poll_tenant_schedules B E now cv tenant db' = Inr (db', [])"
proof -
  note raw = due_tick_not_raw[OF now(2,3)]
  obtain ds where ds: "select_active_due db now tenant = Inr ds"
    using select_each_total[of "active_schedules db tenant", OF raw] now(1)
    by (auto simp: select_active_due_iff)
  from poll_rows[OF B dist ds] obtain db' rows where p:
    "poll_tenant_schedules B E now cv tenant db = Inr (db', map (\<lambda>r. (sr_schedule r, sr_outcome r)) rows)"
    "same_config db db'" "scheduled_runs db' = scheduled_runs db @ rows" "list_all2 (fires now) ds rows"
    by blast
  have "select_active_due db' now tenant = Inr []" using no_more_due[OF ds p(2-4)] .
  then have "poll_tenant_schedules B E now cv tenant db' = Inr (db', [])"
    by (simp add: poll_tenant_schedules_def)
  then show ?thesis using ds p by blast
qed

section \<open>The ledger over time\<close>

text \<open>
  Every history of the scheduling tables: schedules are created (with a fresh primary key) and edited,
  polls run for any tenant at any instant, and the rest of the platform does what it likes to the
  other tables, refreshing calendars included.
\<close>

inductive ledger_reachable :: "'a sched_db_scheme binders \<Rightarrow> env \<Rightarrow> 'a sched_db_scheme \<Rightarrow> bool" for B E where
  start: "schedules db = [] \<Longrightarrow> scheduled_runs db = [] \<Longrightarrow> ledger_reachable B E db"
| create: "ledger_reachable B E db \<Longrightarrow> create_schedule E inp who db = Inr (db', s) \<Longrightarrow>
    sd_id s \<notin> sd_id ` set (schedules db) \<Longrightarrow> ledger_reachable B E db'"
| update: "ledger_reachable B E db \<Longrightarrow> s \<in> set (schedules db) \<Longrightarrow>
    update_schedule E s who ch db = Inr (db', s') \<Longrightarrow> ledger_reachable B E db'"
| poll: "ledger_reachable B E db \<Longrightarrow> poll_tenant_schedules B E now cv tenant db = Inr (db', results) \<Longrightarrow>
    ledger_reachable B E db'"
| other: "ledger_reachable B E db \<Longrightarrow> schedules db' = schedules db \<Longrightarrow> scheduled_runs db' = scheduled_runs db \<Longrightarrow>
    ledger_reachable B E db'"

definition row_of_schedule :: "schedule_row list \<Rightarrow> scheduled_run \<Rightarrow> bool" where
  "row_of_schedule ss r \<longleftrightarrow> (\<exists>s\<in>set ss. sd_id s = sr_schedule r \<and> sr_period r = row_period s (sr_for r) \<and>
     (\<exists>hs. current_tick (sd_anchor s) (sd_interval s) (sr_fired r) (sd_cadence s) hs = Inr (sr_for r)) \<and>
     \<not> outside_start_boundary (sd_anchor s) (sr_for r) (utc_of (sr_fired r)))"

definition clash :: "scheduled_run \<Rightarrow> scheduled_run \<Rightarrow> bool" where
  "clash r r' \<longleftrightarrow> sr_schedule r = sr_schedule r' \<and>
     (sr_for r = sr_for r' \<or> sr_period r \<noteq> None \<and> sr_period r = sr_period r')"

definition ledger_ok :: "'a sched_db_scheme \<Rightarrow> bool" where
  "ledger_ok db \<longleftrightarrow> distinct (map sd_id (schedules db)) \<and>
     (\<forall>r\<in>set (scheduled_runs db). row_of_schedule (schedules db) r) \<and>
     (\<forall>r\<in>set (scheduled_runs db). \<forall>r'\<in>set (scheduled_runs db). clash r r' \<longrightarrow> r = r')"

lemma create_schedule_tables:
  assumes "create_schedule E inp who db = Inr (db', s)"
  shows "schedules db' = schedules db @ [s]" "scheduled_runs db' = scheduled_runs db"
  using assms by (auto simp: create_schedule_def record_schedule_event_def row_simps res_simps Let_def split: if_splits)

lemma update_schedule_tables:
  assumes "update_schedule E s who ch db = Inr (db', s')"
  shows "s' = apply_schedule_changes ch s" "scheduled_runs db' = scheduled_runs db"
    "schedules db' = map (\<lambda>x. if sd_id x = sd_id s then s' else x) (schedules db)"
  using assms by (auto simp: update_schedule_def record_schedule_event_def row_simps Let_def split: if_splits)

lemma row_of_schedule_mono: "row_of_schedule ss r \<Longrightarrow> set ss \<subseteq> set ss' \<Longrightarrow> row_of_schedule ss' r"
  by (auto simp: row_of_schedule_def)

lemma row_of_schedule_update:
  assumes "row_of_schedule ss r" "distinct (map sd_id ss)" "s \<in> set ss"
  shows "row_of_schedule (map (\<lambda>x. if sd_id x = sd_id s then apply_schedule_changes ch s else x) ss) r"
proof -
  obtain x where x: "x \<in> set ss" "sd_id x = sr_schedule r" "sr_period r = row_period x (sr_for r)"
    "\<exists>hs. current_tick (sd_anchor x) (sd_interval x) (sr_fired r) (sd_cadence x) hs = Inr (sr_for r)"
    "\<not> outside_start_boundary (sd_anchor x) (sr_for r) (utc_of (sr_fired r))"
    using assms(1) by (auto simp: row_of_schedule_def)
  let ?x = "if sd_id x = sd_id s then apply_schedule_changes ch s else x"
  have "x = s" if "sd_id x = sd_id s" using that x(1) assms(2,3) by (auto simp: distinct_map dest: inj_onD)
  then have "sd_id ?x = sd_id x" "sd_anchor ?x = sd_anchor x" "sd_interval ?x = sd_interval x" "sd_cadence ?x = sd_cadence x"
    by (auto simp: apply_schedule_changes_def)
  moreover from this have "row_period ?x (sr_for r) = row_period x (sr_for r)"
    by (simp add: row_period_def is_business_def)
  ultimately have "sd_id ?x = sr_schedule r \<and> sr_period r = row_period ?x (sr_for r) \<and>
     (\<exists>hs. current_tick (sd_anchor ?x) (sd_interval ?x) (sr_fired r) (sd_cadence ?x) hs = Inr (sr_for r)) \<and>
     \<not> outside_start_boundary (sd_anchor ?x) (sr_for r) (utc_of (sr_fired r))"
    using x by metis
  moreover have "?x \<in> set (map (\<lambda>x. if sd_id x = sd_id s then apply_schedule_changes ch s else x) ss)"
    using x(1) by auto
  ultimately show ?thesis unfolding row_of_schedule_def by blast
qed

lemma distinct_list_all2_fires:
  assumes "list_all2 (fires now) ds rows" "distinct (map (\<lambda>d. sd_id (fst d)) ds)"
  shows "distinct (map sr_schedule rows)"
proof -
  have "map sr_schedule rows = map (\<lambda>d. sd_id (fst d)) ds"
    using assms(1) by (induction rule: list_all2_induct) (simp_all add: fires_def)
  then show ?thesis using assms(2) by simp
qed

lemma poll_ledger_ok:
  assumes B: "binders_keep B" and ok: "ledger_ok db"
    and poll: "poll_tenant_schedules B E now cv tenant db = Inr (db', results)"
  shows "ledger_ok db'"
proof -
  have dist: "distinct (map sd_id (schedules db))" using ok by (simp add: ledger_ok_def)
  obtain ds where ds: "select_active_due db now tenant = Inr ds"
    using poll by (auto simp: poll_tenant_schedules_def res_simps)
  from poll_rows[OF B dist ds] poll obtain rows where p: "same_config db db'"
    "scheduled_runs db' = scheduled_runs db @ rows" "list_all2 (fires now) ds rows"
    by (metis (no_types, lifting) prod.inject sum.inject(2))
  have each: "select_each db now (active_schedules db tenant) = Inr ds"
    using ds by (simp add: select_active_due_iff)
  note sel = select_each_due[OF each]
  have new: "row_of_schedule (schedules db) r \<and> (\<forall>r'\<in>set (scheduled_runs db). \<not> clash r r' \<and> \<not> clash r' r)"
    if r: "r \<in> set rows" for r
  proof -
    obtain s tick hs where d: "(s, tick, hs) \<in> set ds" "fires now (s, tick, hs) r"
      using list_all2_set2[OF p(3) r] by (metis prod_cases3)
    then have s: "s \<in> set (schedules db)" "due_in db now (s, tick, hs)"
      using sel set_active_schedules[of db tenant] by auto
    then have "current_tick (sd_anchor s) (sd_interval s) now (sd_cadence s) hs = Inr tick \<and>
        \<not> outside_start_boundary (sd_anchor s) tick (utc_of now)"
      using due_tick_asserts assert_current_tick_Inr unfolding due_in_def by blast
    then have "row_of_schedule (schedules db) r"
      using s(1) d(2) unfolding row_of_schedule_def fires_def by auto
    moreover have "\<not> clash r r'" "\<not> clash r' r" if "r' \<in> set (scheduled_runs db)" for r'
      using s(2) d(2) that
      by (auto simp: due_in_def unserved_def fired_def served_def clash_def fires_def row_period_def list_ex_iff
          split: if_splits)
    ultimately show ?thesis by blast
  qed
  have "distinct (map sr_schedule rows)"
    using distinct_list_all2_fires[OF p(3)] sel distinct_active_schedules[OF dist] by blast
  then have within: "r = r'" if "r \<in> set rows" "r' \<in> set rows" "clash r r'" for r r'
    using that by (auto simp: clash_def distinct_map dest: inj_onD)
  have "schedules db' = schedules db" using p(1) by (simp add: same_config_def)
  then show ?thesis
    using ok new within unfolding ledger_ok_def p(2) by (metis UnE set_append)
qed

lemma ledger_reachable_ok:
  assumes "ledger_reachable B E db" "binders_keep B"
  shows "ledger_ok db"
  using assms
proof (induction rule: ledger_reachable.induct)
  case (start db)
  then show ?case by (simp add: ledger_ok_def)
next
  case (create db inp who db' s)
  note t = create_schedule_tables[OF create.hyps(2)]
  have "row_of_schedule (schedules db) r \<Longrightarrow> row_of_schedule (schedules db') r" for r
    by (rule row_of_schedule_mono) (auto simp: t)
  then show ?case using create by (auto simp: ledger_ok_def t)
next
  case (update db s who ch db' s')
  note t = update_schedule_tables[OF update.hyps(3)]
  have ids: "map sd_id (schedules db') = map sd_id (schedules db)"
    by (simp add: t(1,3) apply_schedule_changes_def)
  have ok: "ledger_ok db" using update by simp
  then have "\<forall>r\<in>set (scheduled_runs db). row_of_schedule (schedules db') r"
    using row_of_schedule_update update.hyps(2) unfolding t(1,3) ledger_ok_def by blast
  then show ?case using ok ids unfolding ledger_ok_def t(2) by simp
next
  case (poll db now cv tenant db' results)
  then show ?case using poll_ledger_ok by blast
next
  case (other db db')
  then show ?case unfolding ledger_ok_def by simp
qed

text \<open>C16. Over every history, a schedule fires each grid tick at most once, and a holiday-aware schedule
  fires each calendar month at most once even when a calendar refresh moved the month's tick; and every
  ledger row is the tick of its schedule at the instant it fired, inside the schedule's start boundary,
  however the schedule was edited since.\<close>

theorem ticks_and_months_fire_at_most_once:
  assumes "ledger_reachable B E db" "binders_keep B" "r \<in> set (scheduled_runs db)" "r' \<in> set (scheduled_runs db)"
  shows "row_of_schedule (schedules db) r \<and> (clash r r' \<longleftrightarrow> r = r')"
proof -
  have ok: "ledger_ok db" using ledger_reachable_ok[OF assms(1,2)] .
  then have "row_of_schedule (schedules db) r" "clash r r' \<Longrightarrow> r = r'"
    using assms(3,4) unfolding ledger_ok_def by blast+
  moreover have "clash r r" by (simp add: clash_def)
  ultimately show ?thesis by auto
qed

section \<open>An example\<close>

text \<open>One month-end exposure schedule, polled on 2026-08-06; its binder records a COMPLETED run.\<close>

definition sample_binder :: "run_call \<Rightarrow> sched_db \<Rightarrow> sched_fail + (sched_db \<times> run_result)" where
  "sample_binder c db = Inr (db\<lparr>calc_runs := calc_runs db @ [\<lparr>run_id = ''R'', run_tenant = rc_tenant c,
     run_type = ''EXPOSURE_AGGREGATE'', run_status = ''COMPLETED'', run_scope_portfolio_id = rc_portfolio c,
     run_system_from = Aware 0 0\<rparr>]\<rparr>, \<lparr>rr_run = ''R'', rr_status = ''COMPLETED'', rr_reason = None\<rparr>)"

definition sample_binders :: "sched_db binders" where
  "sample_binders = \<lparr>bd_var = (\<lambda>c db. Inl (Raised ''RuntimeError'' ''no model'')), bd_exposure = sample_binder,
     bd_reproduction = (\<lambda>c db. Inl (Raised ''RuntimeError'' ''no run''))\<rparr>"

definition sched_input :: schedule_input where
  "sched_input = \<lparr>si_tenant = ''T'', si_code = ''EOM'', si_name = ''Month end'', si_target = ''EXPOSURE_AGGREGATE'',
     si_scope = Some ''P'', si_environment = ''prod'', si_anchor = Date 2026 1 5, si_model_version = None,
     si_interval = None, si_cadence = ''CALENDAR_MONTH_END'', si_status = ''ACTIVE'', si_calendar = None\<rparr>"

definition sched0 :: sched_db where
  "sched0 = \<lparr>audit_events = [], audit_checkpoints = [], app_users = [], limit_definitions = [], breaches = [],
     breach_actions = [], calc_runs = [], var_results = [], active_risk_results = [], concentration_results = [],
     class_nodes = [], portfolio_ids = [(''P'', ''T'')], benchmark_ids = [], issuer_ids = [], schedules = [],
     scheduled_runs = [], calendars = [], calendar_holidays = [], factor_exposures = [], covariances = [],
     model_version_ids = []\<rparr>"

lemma sample_binders_keep: "binders_keep sample_binders"
  by (simp add: binders_keep_def binder_keeps_def sample_binders_def sample_binder_def)

lemma sample_create:
  "\<exists>db. create_schedule E sched_input who sched0 = Inr (db, new_schedule (uuid E ''schedule'' 0) sched_input)"
  by (simp add: create_schedule_def sched_input_def sched0_def validate_schedule_config_def family_registry_def
      cadence_kinds_def schedule_statuses_def required_xor_forbidden_def truthy_def check_interval_def
      schedule_fk_guards_def when_declared_def declares_def assert_in_tenant_def Let_def)

definition sample_schedule :: "env \<Rightarrow> schedule_row" where
  "sample_schedule E = new_schedule (uuid E ''schedule'' 0) sched_input"

lemma sample_due:
  assumes "schedules db = [sample_schedule E]" "scheduled_runs db = []"
  shows "select_active_due db (Aware 1786000000000000 0) ''T'' =
    Inr [(sample_schedule E, end_of_day (Date 2026 7 31), None)]"
proof -
  have tick: "due_tick db (Aware 1786000000000000 0) (sample_schedule E) = Inr (end_of_day (Date 2026 7 31), None)"
    by (simp add: due_tick_def schedule_tick_def sample_schedule_def new_schedule_def sched_input_def aug_6_tick)
  have "active_schedules db ''T'' = [sample_schedule E]"
    by (simp add: active_schedules_def assms sample_schedule_def new_schedule_def sched_input_def)
  moreover have "sd_anchor (sample_schedule E) = Date 2026 1 5" "\<not> is_business (sample_schedule E)"
    by (simp_all add: sample_schedule_def new_schedule_def sched_input_def is_business_def)
  ultimately show ?thesis
    by (simp add: select_active_due_def tick outside_start_boundary_def aug_6_instants fired_def assms)
qed

lemma sample_instant:
  "py_instant (utc_of (Aware 1786000000000000 0))" "2 \<le> year (date_of (utc_of (Aware 1786000000000000 0)))"
  by (simp_all add: py_instant_def aug_6 day_us_def epoch_ord_def)

theorem poll_fires_every_due_schedule_once_witness:
  "\<exists>db' (rows :: scheduled_run list). poll_tenant_schedules sample_binders sample_env (Aware 1786000000000000 0) ''v1'' ''T''
       (sched0\<lparr>schedules := [sample_schedule sample_env]\<rparr>) = Inr (db', map (\<lambda>r. (sr_schedule r, sr_outcome r)) rows) \<and>
     length rows = 1 \<and> poll_tenant_schedules sample_binders sample_env (Aware 1786000000000000 0) ''v1'' ''T'' db' = Inr (db', [])"
proof -
  let ?db = "sched0\<lparr>schedules := [sample_schedule sample_env]\<rparr>"
  have dist: "distinct (map sd_id (schedules ?db))" by simp
  have due: "select_active_due ?db (Aware 1786000000000000 0) ''T'' =
      Inr [(sample_schedule sample_env, end_of_day (Date 2026 7 31), None)]"
    by (rule sample_due) (simp_all add: sched0_def)
  obtain db' rows where p: "poll_tenant_schedules sample_binders sample_env (Aware 1786000000000000 0) ''v1'' ''T'' ?db =
      Inr (db', map (\<lambda>r. (sr_schedule r, sr_outcome r)) rows)"
    "list_all2 (fires (Aware 1786000000000000 0)) [(sample_schedule sample_env, end_of_day (Date 2026 7 31), None)] rows"
    "poll_tenant_schedules sample_binders sample_env (Aware 1786000000000000 0) ''v1'' ''T'' db' = Inr (db', [])"
    using poll_fires_every_due_schedule_once[OF sample_binders_keep dist refl sample_instant,
        where tenant = "''T''" and cv = "''v1''" and E = sample_env]
    unfolding due by auto
  have "length rows = 1" using p(2) by (auto dest: list_all2_lengthD)
  then show ?thesis using p(1,3) by (intro exI[of _ db'] exI[of _ rows] conjI)
qed

theorem ticks_and_months_fire_at_most_once_witness:
  "\<exists>db r. ledger_reachable sample_binders sample_env db \<and> r \<in> set (scheduled_runs db) \<and>
     row_of_schedule (schedules db) r \<and> (clash r r \<longleftrightarrow> r = r)"
proof -
  have r0: "ledger_reachable sample_binders sample_env sched0"
    by (rule ledger_reachable.start) (simp_all add: sched0_def)
  obtain db1 where c: "create_schedule sample_env sched_input \<lparr>act_id = ''A'', act_type = ''user''\<rparr> sched0 =
      Inr (db1, sample_schedule sample_env)"
    using sample_create unfolding sample_schedule_def by blast
  have r1: "ledger_reachable sample_binders sample_env db1"
    by (rule ledger_reachable.create[OF r0 c]) (simp add: sched0_def)
  have t: "schedules db1 = [sample_schedule sample_env]" "scheduled_runs db1 = []"
    using create_schedule_tables[OF c] by (simp_all add: sched0_def)
  from poll_rows[OF sample_binders_keep _ sample_due[OF t], of sample_env "''v1''"] obtain db2 rows where
    p: "poll_tenant_schedules sample_binders sample_env (Aware 1786000000000000 0) ''v1'' ''T'' db1 =
      Inr (db2, map (\<lambda>r. (sr_schedule r, sr_outcome r)) rows)" "scheduled_runs db2 = rows"
    "list_all2 (fires (Aware 1786000000000000 0)) [(sample_schedule sample_env, end_of_day (Date 2026 7 31), None)] rows"
    using t by auto
  have r2: "ledger_reachable sample_binders sample_env db2" by (rule ledger_reachable.poll[OF r1 p(1)])
  obtain r where r: "r \<in> set (scheduled_runs db2)" using p(2,3) by (auto simp: list_all2_Cons1)
  from ticks_and_months_fire_at_most_once[OF r2 sample_binders_keep r r] r r2 show ?thesis by blast
qed

end
