(* ===== verification/Entitlement_Catalog.thy ===== *)
theory Entitlement_Catalog
  imports Main
begin

text \<open>
  The seeded entitlement catalog (\<open>entitlement/bootstrap.py\<close>): the permission codes with their
  descriptions, the role templates with the codes each holds, and the templates a customer tenant
  receives.
\<close>

definition permission_catalog :: "(string \<times> string) list" where
  "permission_catalog = [
     (''ops.audit.verify'', ''Run audit chain verification''),
     (''data.upload'', ''Upload/ingest data via the anti-corruption layer''),
     (''lineage.view'', ''View data lineage''),
     (''lineage.source.manage'', ''Register and manage data sources (lineage provenance roots)''),
     (''model.inventory.view'', ''View the model inventory''),
     (''model.inventory.register'', ''Register a model or model version''),
     (''model.validate'', ''Record a model validation (2L independent, SR 11-7)''),
     (''dq.rule.manage'', ''Manage data quality rules''),
     (''dq.result.view'', ''View data quality results''),
     (''reference.instrument.view'', ''View instruments''),
     (''reference.instrument.edit'', ''Edit instruments''),
     (''reference.issuer.view'', ''View issuers''),
     (''reference.issuer.edit'', ''Edit issuers''),
     (''reference.counterparty.view'', ''View counterparties''),
     (''reference.counterparty.edit'', ''Edit counterparties''),
     (''reference.identifier.resolve'', ''Resolve instrument identifiers''),
     (''reference.corporate_action.edit'', ''Edit corporate actions''),
     (''reference.calendar.edit'', ''Edit calendars''),
     (''reference.currency.view'', ''View currencies''),
     (''reference.currency.edit'', ''Edit currencies''),
     (''reference.rating_scale.view'', ''View rating scales''),
     (''reference.rating_scale.edit'', ''Edit rating scales''),
     (''reference.calendar.view'', ''View calendars''),
     (''reference.legal_entity.view'', ''View legal entities''),
     (''reference.legal_entity.edit'', ''Edit legal entities''),
     (''reference.identifier.view'', ''View instrument identifiers''),
     (''reference.identifier.edit'', ''Edit instrument identifiers''),
     (''reference.corporate_action.view'', ''View corporate actions''),
     (''reference.classification.view'', ''View classification schemes and nodes''),
     (''reference.classification_assignment.view'', ''View classification assignments''),
     (''reference.classification.edit'', ''Edit classification schemes, nodes and assignments''),
     (''portfolio.view'', ''View portfolios''),
     (''portfolio.edit'', ''Edit portfolios''),
     (''position.view'', ''View positions''),
     (''position.edit'', ''Edit positions''),
     (''exposure.aggregate.run'', ''Run exposure aggregation''),
     (''exposure.view'', ''View exposure aggregates''),
     (''risk.run'', ''Run governed risk analytics (analytic sensitivities)''),
     (''risk.view'', ''View risk results (sensitivities)''),
     (''perf.run'', ''Run governed performance analytics (portfolio returns)''),
     (''perf.view'', ''View performance results (portfolio returns)''),
     (''transaction.view'', ''View transactions''),
     (''transaction.record'', ''Record transactions''),
     (''valuation.view'', ''View valuations''),
     (''valuation.edit'', ''Edit valuations''),
     (''snapshot.view'', ''View dataset snapshots''),
     (''snapshot.create'', ''Create dataset snapshots (reproducible input snapshots)''),
     (''marketdata.view'', ''View market data (FX rates, prices, curves)''),
     (''marketdata.ingest'', ''Capture/correct governed market data (FX rates, prices, curves)''),
     (''commitment.view'', ''View commitments, capital calls and distributions''),
     (''commitment.edit'', ''Capture/supersede/correct commitments (FR maker)''),
     (''commitment.record'', ''Record capital calls and distributions (IA maker, incl. reversals)''),
     (''pacing.run'', ''Run governed commitment-pacing projections''),
     (''pacing.view'', ''View commitment-pacing projection results''),
     (''concentration.run'', ''Run governed dimensional-concentration calculations''),
     (''concentration.view'', ''View concentration results (no issuer identity)''),
     (''concentration.issuer.view'', ''View ISSUER-dimension concentration detail (issuer identity)''),
     (''liquidity.run'', ''Run governed liquidity-tier calculations''),
     (''liquidity.view'', ''View liquidity tier distribution results''),
     (''schedule.manage'', ''Create, edit and pause governed run schedules''),
     (''schedule.view'', ''View run schedules and the scheduled-run ledger''),
     (''limit.manage'', ''Define, edit and suspend governed risk limits (2L)''),
     (''limit.approve'', ''Approve a DRAFT limit into ACTIVE '' @ [CHR 0xE2, CHR 0x80, CHR 0x94] @ '' maker-checker sign-off (2L)''),
     (''limit.view'', ''View risk limit definitions''),
     (''breach.view'', ''View limit breach records''),
     (''breach.respond'', ''File a 1L remediation response on a breach (1L)''),
     (''breach.review'', ''Assign, review, escalate and close a breach (2L)''),
     (''ingest.mapping.propose'', ''Propose a source mapping version for ratification (maker)''),
     (''ingest.mapping.ratify'', ''Ratify or supersede a source mapping version (checker)''),
     (''ingest.mapping.view'', ''Read source mapping versions and their ratification history''),
     (''report.generate'', ''Generate a governed report (mints a run + snapshot + ENT-072 row)''),
     (''user.manage'', ''Create and deactivate users within a tenant''),
     (''role.assign'', ''Grant and revoke roles within a tenant''),
     (''user.view'', ''View users and their role assignments''),
     (''role.approve'', ''Approve another admin's entitlement change '' @ [CHR 0xE2, CHR 0x80, CHR 0x94] @ '' four-eyes (SOD-04)''),
     (''report.view'', ''View governed reports: metadata, listings and the rendered artifact'')]"

definition all_codes :: "string list" where
  "all_codes = map fst permission_catalog"

definition ops_codes :: "string list" where
  "ops_codes = [
     ''ops.audit.verify'']"

definition data_steward_codes :: "string list" where
  "data_steward_codes = [
     ''data.upload'', ''lineage.view'', ''lineage.source.manage'', ''dq.rule.manage'',
     ''dq.result.view'', ''reference.instrument.view'', ''reference.instrument.edit'',
     ''reference.issuer.view'', ''reference.issuer.edit'', ''reference.counterparty.view'',
     ''reference.counterparty.edit'', ''reference.identifier.resolve'',
     ''reference.corporate_action.edit'', ''reference.calendar.edit'', ''reference.currency.view'',
     ''reference.currency.edit'', ''reference.classification.edit'',
     ''reference.rating_scale.view'', ''reference.rating_scale.edit'', ''reference.calendar.view'',
     ''reference.legal_entity.view'', ''reference.legal_entity.edit'',
     ''reference.identifier.view'', ''reference.identifier.edit'',
     ''reference.corporate_action.view'', ''reference.classification.view'',
     ''reference.classification_assignment.view'', ''portfolio.view'', ''portfolio.edit'',
     ''transaction.view'', ''transaction.record'', ''position.view'', ''position.edit'',
     ''valuation.view'', ''valuation.edit'', ''snapshot.view'', ''snapshot.create'',
     ''ingest.mapping.propose'', ''ingest.mapping.view'', ''marketdata.view'',
     ''marketdata.ingest'', ''exposure.aggregate.run'', ''exposure.view'', ''risk.run'',
     ''risk.view'', ''perf.run'', ''perf.view'', ''commitment.view'', ''commitment.edit'',
     ''commitment.record'', ''pacing.run'', ''pacing.view'', ''concentration.run'',
     ''concentration.view'', ''concentration.issuer.view'', ''liquidity.run'', ''liquidity.view'',
     ''report.generate'', ''report.view'', ''schedule.manage'', ''schedule.view'', ''limit.view'',
     ''breach.view'']"

definition risk_analyst_1l_codes :: "string list" where
  "risk_analyst_1l_codes = [
     ''reference.instrument.view'', ''reference.issuer.view'', ''reference.counterparty.view'',
     ''reference.identifier.resolve'', ''reference.currency.view'',
     ''reference.rating_scale.view'', ''reference.calendar.view'', ''reference.legal_entity.view'',
     ''reference.identifier.view'', ''reference.corporate_action.view'',
     ''reference.classification.view'', ''reference.classification_assignment.view'',
     ''portfolio.view'', ''position.view'', ''transaction.view'', ''valuation.view'',
     ''snapshot.view'', ''marketdata.view'', ''exposure.aggregate.run'', ''exposure.view'',
     ''risk.run'', ''risk.view'', ''perf.run'', ''perf.view'', ''commitment.view'', ''pacing.run'',
     ''pacing.view'', ''concentration.run'', ''concentration.view'', ''liquidity.run'',
     ''liquidity.view'', ''report.generate'', ''report.view'', ''concentration.issuer.view'',
     ''schedule.manage'', ''schedule.view'', ''limit.view'', ''breach.view'', ''breach.respond'',
     ''model.inventory.view'', ''model.inventory.register'', ''dq.result.view'', ''lineage.view'']"

definition risk_manager_2l_codes :: "string list" where
  "risk_manager_2l_codes = [
     ''reference.instrument.view'', ''reference.issuer.view'', ''reference.counterparty.view'',
     ''reference.currency.view'', ''reference.rating_scale.view'', ''reference.calendar.view'',
     ''reference.legal_entity.view'', ''reference.identifier.view'',
     ''reference.corporate_action.view'', ''reference.classification.view'',
     ''reference.classification_assignment.view'', ''portfolio.view'', ''position.view'',
     ''transaction.view'', ''valuation.view'', ''snapshot.view'', ''marketdata.view'',
     ''exposure.view'', ''risk.view'', ''perf.view'', ''commitment.view'', ''pacing.view'',
     ''concentration.view'', ''liquidity.view'', ''report.view'', ''concentration.issuer.view'',
     ''schedule.view'', ''limit.manage'', ''limit.approve'', ''limit.view'', ''breach.view'',
     ''breach.review'', ''ingest.mapping.ratify'', ''ingest.mapping.view'',
     ''model.inventory.view'', ''model.validate'', ''dq.result.view'', ''lineage.view'']"

definition tenant_admin_codes :: "string list" where
  "tenant_admin_codes = [
     ''user.manage'', ''role.assign'', ''user.view'', ''role.approve'']"

definition auditor_3l_codes :: "string list" where
  "auditor_3l_codes = [
     ''ingest.mapping.view'', ''lineage.view'', ''model.inventory.view'', ''dq.result.view'',
     ''reference.currency.view'', ''reference.rating_scale.view'', ''reference.calendar.view'',
     ''reference.classification.view'', ''exposure.view'', ''risk.view'', ''perf.view'',
     ''pacing.view'', ''concentration.view'', ''liquidity.view'', ''report.view'',
     ''schedule.view'', ''limit.view'', ''breach.view'']"

definition role_templates :: "(string \<times> string list) list" where
  "role_templates = [
     (''platform_admin'', all_codes),
     (''ops'', ops_codes),
     (''data_steward'', data_steward_codes),
     (''risk_analyst_1l'', risk_analyst_1l_codes),
     (''risk_manager_2l'', risk_manager_2l_codes),
     (''tenant_admin'', tenant_admin_codes),
     (''auditor_3l'', auditor_3l_codes)]"

definition cloned_templates :: "string list" where
  "cloned_templates = [''data_steward'', ''risk_analyst_1l'', ''risk_manager_2l'', ''auditor_3l'', ''tenant_admin'']"

end
