(* ===== verification/Entitlement.thy ===== *)
theory Entitlement
  imports Users Entitlement_Catalog
begin

text \<open>
  The entitlement tables and their core operations: the deny-by-default permission check and its
  reverse, the direct role grant (\<open>entitlement/service.py\<close>), and the catalog sync with its
  revocation ledger (\<open>entitlement/sync.py\<close>). Ids are canonical texts. Row-level security, which
  hides the rows of other tenants on PostgreSQL, is not modelled: the checks hold without it.
\<close>

section \<open>Tables\<close>

record role_row =
  rl_id :: string
  rl_tenant :: string
  rl_code :: string
  rl_name :: string

record permission_row =
  pm_id :: string
  pm_code :: string
  pm_description :: string

record role_permission =
  rp_id :: string
  rp_role :: string
  rp_permission :: string

record role_revocation =
  rv_role :: string
  rv_permission :: string

record user_role =
  ur_id :: string
  ur_tenant :: string
  ur_user :: string
  ur_role :: string
  ur_from :: pydatetime
  ur_to :: "pydatetime option"

text \<open>The revocation ledger is absent from a database below its migration.\<close>

record ent_db = users_db +
  roles :: "role_row list"
  permissions :: "permission_row list"
  role_permissions :: "role_permission list"
  revocations :: "role_revocation list option"
  user_roles :: "user_role list"

lemma log_event_ent [row_simps]:
  "roles (log_event E f tm db) = roles db" "permissions (log_event E f tm db) = permissions db"
  "role_permissions (log_event E f tm db) = role_permissions db"
  "revocations (log_event E f tm db) = revocations db" "user_roles (log_event E f tm db) = user_roles db"
  by (simp_all add: log_event_eq)

record principal =
  pr_user :: string
  pr_tenant :: string

section \<open>The permission check\<close>

definition in_force :: "pydatetime \<Rightarrow> user_role \<Rightarrow> bool" where
  "in_force t u \<longleftrightarrow> utc_of (ur_from u) \<le> utc_of t \<and>
     (case ur_to u of None \<Rightarrow> True | Some e \<Rightarrow> utc_of t < utc_of e)"

definition has_permission ::
  "'a ent_db_scheme \<Rightarrow> principal \<Rightarrow> string \<Rightarrow> string \<Rightarrow> pydatetime \<Rightarrow> bool" where
  "has_permission db pr code resource t =
     (if pr_tenant pr \<noteq> resource then False
      else [pm_code p. p \<leftarrow> permissions db, rp \<leftarrow> role_permissions db, rp_permission rp = pm_id p,
              r \<leftarrow> roles db, rl_id r = rp_role rp, u \<leftarrow> user_roles db, ur_role u = rl_id r,
              ur_user u = pr_user pr \<and> ur_tenant u = pr_tenant pr \<and> in_force t u \<and> pm_code p = code] \<noteq> [])"

definition holders_of_permission :: "'a ent_db_scheme \<Rightarrow> string \<Rightarrow> string \<Rightarrow> pydatetime \<Rightarrow> string list" where
  "holders_of_permission db code tenant t = sort (remdups
     [user_id a. a \<leftarrow> app_users db, u \<leftarrow> user_roles db, ur_user u = user_id a,
        r \<leftarrow> roles db, rl_id r = ur_role u, rp \<leftarrow> role_permissions db, rp_role rp = rl_id r,
        p \<leftarrow> permissions db, pm_id p = rp_permission rp,
        user_tenant a = tenant \<and> user_active a \<and> ur_tenant u = tenant \<and> in_force t u \<and> pm_code p = code])"

datatype ent_error =
    PermissionDenied string string
  | EntitlementError string
  | TenantWouldBeOrphaned
  | EntMultipleRows
  | EntIntegrityError

definition require_permission ::
  "'a ent_db_scheme \<Rightarrow> principal \<Rightarrow> string \<Rightarrow> string \<Rightarrow> pydatetime \<Rightarrow> ent_error + unit" where
  "require_permission db pr code resource now =
     (if has_permission db pr code resource now then Inr () else Inl (PermissionDenied code resource))"

definition grant_role ::
  "env \<Rightarrow> principal \<Rightarrow> string \<Rightarrow> string \<Rightarrow> string \<Rightarrow> pydatetime \<Rightarrow> 'a ent_db_scheme
     \<Rightarrow> ent_error + ('a ent_db_scheme \<times> user_role)" where
  "grant_role E who uid rid tenant now db =
     (if pr_tenant who \<noteq> tenant then Inl (PermissionDenied ''entitlement.grant'' tenant)
      else let u = \<lparr>ur_id = uuid E ''user_role'' (length (user_roles db)), ur_tenant = tenant, ur_user = uid,
                    ur_role = rid, ur_from = now, ur_to = None\<rparr>
      in Inr (log_event E
                (event_call ''ENTITLEMENT.GRANT'' tenant ''user'' (pr_user who) ''entitlement'' ''grant''
                 \<lparr>entity_type := Some ''user_role'', entity_id := Some (ur_id u),
                  after_value := Some (JObj [(''user_id'', JStr uid), (''role_id'', JStr rid)]),
                  severity := ''notice''\<rparr>)
                None (db\<lparr>user_roles := user_roles db @ [u]\<rparr>), u))"

lemma in_set_if: "x \<in> set (if P then xs else []) \<longleftrightarrow> P \<and> x \<in> set xs"
  by simp

lemma nonempty_in: "xs \<noteq> [] \<longleftrightarrow> (\<exists>x. x \<in> set xs)"
  by (cases xs) auto

lemma in_set_concat_map: "x \<in> set (concat (map f xs)) \<longleftrightarrow> (\<exists>y\<in>set xs. x \<in> set (f y))"
  by simp

lemma has_permission_iff:
  "has_permission db pr code resource t \<longleftrightarrow> pr_tenant pr = resource \<and>
     (\<exists>p\<in>set (permissions db). \<exists>rp\<in>set (role_permissions db). \<exists>r\<in>set (roles db). \<exists>u\<in>set (user_roles db).
        rp_permission rp = pm_id p \<and> rl_id r = rp_role rp \<and> ur_role u = rl_id r \<and> ur_user u = pr_user pr \<and>
        ur_tenant u = pr_tenant pr \<and> in_force t u \<and> pm_code p = code)"
  unfolding has_permission_def nonempty_in in_set_concat_map in_set_if
  by (cases "pr_tenant pr = resource"; simp; blast)

text \<open>
  The recipient query is the exact reverse of the permission check: a user id is listed once,
  in id order, exactly when it is an active user of the tenant for whom the check answers yes at
  that moment; expired and not-yet-valid grants and deactivated users are out of both.
\<close>

lemma holders_are_the_permitted_active_users:
  "sorted (holders_of_permission db code tenant t) \<and> distinct (holders_of_permission db code tenant t) \<and>
   set (holders_of_permission db code tenant t) =
     {user_id a | a. a \<in> set (app_users db) \<and> user_tenant a = tenant \<and> user_active a \<and>
        has_permission db \<lparr>pr_user = user_id a, pr_tenant = tenant\<rparr> code tenant t}"
proof -
  have "u \<in> set (holders_of_permission db code tenant t) \<longleftrightarrow>
     (\<exists>a. u = user_id a \<and> a \<in> set (app_users db) \<and> user_tenant a = tenant \<and> user_active a \<and>
        has_permission db \<lparr>pr_user = user_id a, pr_tenant = tenant\<rparr> code tenant t)" for u
    unfolding holders_of_permission_def has_permission_iff set_sort set_remdups in_set_concat_map in_set_if
      principal.select_convs list.set insert_iff empty_iff
  proof (rule iffI, goal_cases)
    case 1
    then obtain a ur r rp p where "a \<in> set (app_users db)" "ur \<in> set (user_roles db)" "ur_user ur = user_id a"
      "r \<in> set (roles db)" "rl_id r = ur_role ur" "rp \<in> set (role_permissions db)" "rp_role rp = rl_id r"
      "p \<in> set (permissions db)" "pm_id p = rp_permission rp" "user_tenant a = tenant" "user_active a"
      "ur_tenant ur = tenant" "in_force t ur" "pm_code p = code" "u = user_id a" by blast
    then show ?case
      by (intro exI[of _ a] conjI bexI[of _ p] bexI[of _ rp] bexI[of _ r] bexI[of _ ur]) auto
  next
    case 2
    then obtain a ur r rp p where "a \<in> set (app_users db)" "ur \<in> set (user_roles db)" "ur_user ur = user_id a"
      "r \<in> set (roles db)" "ur_role ur = rl_id r" "rp \<in> set (role_permissions db)" "rl_id r = rp_role rp"
      "p \<in> set (permissions db)" "rp_permission rp = pm_id p" "user_tenant a = tenant" "user_active a"
      "ur_tenant ur = tenant" "in_force t ur" "pm_code p = code" "u = user_id a" by blast
    then show ?case
      by (intro bexI[of _ a] bexI[of _ ur] bexI[of _ r] bexI[of _ rp] bexI[of _ p] conjI) auto
  qed
  then have "set (holders_of_permission db code tenant t) =
     {user_id a | a. a \<in> set (app_users db) \<and> user_tenant a = tenant \<and> user_active a \<and>
        has_permission db \<lparr>pr_user = user_id a, pr_tenant = tenant\<rparr> code tenant t}" by blast
  then show ?thesis by (simp add: holders_of_permission_def)
qed

end
