(* ===== verification/Entitlement_Admin.thy ===== *)
theory Entitlement_Admin
  imports Entitlement
begin

text \<open>
  Tenant-local entitlement administration (\<open>entitlement/admin_service.py\<close>,
  \<open>entitlement/request_models.py\<close>): the four-eyes request and approval of role grants,
  revocations and deactivations, and the orphan check. The tenant lock makes each operation one
  step; an operation that raises leaves the database as it was.
\<close>

section \<open>Requests\<close>

record ent_request =
  eq_id :: string
  eq_tenant :: string
  eq_seq :: int
  eq_action :: string
  eq_status :: string
  eq_requested_by :: string
  eq_requested_at :: pydatetime
  eq_target_user :: string
  eq_target_role :: "string option"
  eq_resolved_by :: "string option"
  eq_resolved_at :: "pydatetime option"
  eq_resolves :: "string option"
  eq_reason :: "string option"

record admin_db = ent_db +
  ent_requests :: "ent_request list"

lemma log_event_requests [row_simps]: "ent_requests (log_event E f tm db) = ent_requests db"
  by (simp add: log_event_eq)

text \<open>\<open>_canonical\<close>, which \<open>AdminActor\<close> applies at construction: a UUID in its standard form, any
  other text stripped and in lower case.\<close>

definition admin_actor :: "string \<Rightarrow> string" where
  "admin_actor i = (case parse_uuid i of None \<Rightarrow> py_lower (py_strip i) | Some n \<Rightarrow> format_uuid n)"

text \<open>It is not idempotent: a braced UUID between blanks is first only stripped, then normalized.\<close>

lemma admin_actor_not_idempotent:
  "admin_actor (admin_actor '' {00000000000000000000000000000001}'') \<noteq> admin_actor '' {00000000000000000000000000000001}''"
  by code_simp

section \<open>Who administers\<close>

definition admin_role_id :: "'a ent_db_scheme \<Rightarrow> string \<Rightarrow> string option" where
  "admin_role_id db tenant =
     one_or_none [rl_id r. r \<leftarrow> roles db, rl_tenant r = tenant \<and> rl_code r = ''tenant_admin'']"

definition valid_admin_user_ids :: "'a ent_db_scheme \<Rightarrow> string \<Rightarrow> pydatetime \<Rightarrow> string set" where
  "valid_admin_user_ids db tenant t =
     (case admin_role_id db tenant of
        None \<Rightarrow> {}
      | Some role \<Rightarrow> set [ur_user u. u \<leftarrow> user_roles db, a \<leftarrow> app_users db,
          user_id a = ur_user u \<and> ur_tenant u = tenant \<and> ur_role u = role \<and> user_active a \<and> in_force t u])"

definition assert_not_orphaning :: "'a ent_db_scheme \<Rightarrow> string \<Rightarrow> string \<Rightarrow> pydatetime \<Rightarrow> ent_error + unit" where
  "assert_not_orphaning db tenant losing now =
     (if valid_admin_user_ids db tenant now - {losing} = {} then Inl TenantWouldBeOrphaned else Inr ())"

definition next_request_seq :: "string \<Rightarrow> ent_request list \<Rightarrow> int" where
  "next_request_seq tenant rows =
     (case max_key eq_seq (filter (\<lambda>r. eq_tenant r = tenant) rows) of None \<Rightarrow> 1 | Some m \<Rightarrow> m + 1)"

interpretation requests: seq_log eq_tenant eq_seq next_request_seq
  by unfold_locales (simp add: next_request_seq_def)

definition four_eyes_required :: "'a ent_db_scheme \<Rightarrow> string \<Rightarrow> string \<Rightarrow> pydatetime \<Rightarrow> bool" where
  "four_eyes_required db tenant requester now \<longleftrightarrow> valid_admin_user_ids db tenant now - {requester} \<noteq> {}"

section \<open>Taking effect\<close>

definition still_open :: "pydatetime \<Rightarrow> user_role \<Rightarrow> bool" where
  "still_open now u \<longleftrightarrow> (case ur_to u of None \<Rightarrow> True | Some e \<Rightarrow> utc_of now < utc_of e)"

definition grants_of :: "'a ent_db_scheme \<Rightarrow> string \<Rightarrow> ent_request \<Rightarrow> pydatetime \<Rightarrow> user_role list" where
  "grants_of db tenant req now = filter (\<lambda>u. ur_tenant u = tenant \<and> ur_user u = eq_target_user req \<and>
     Some (ur_role u) = eq_target_role req \<and> still_open now u) (user_roles db)"

definition granted_row :: "env \<Rightarrow> ent_request \<Rightarrow> string \<Rightarrow> pydatetime \<Rightarrow> nat \<Rightarrow> user_role" where
  "granted_row E req tenant now n = \<lparr>ur_id = uuid E ''user_role'' n, ur_tenant = tenant, ur_user = eq_target_user req,
     ur_role = the (eq_target_role req), ur_from = now, ur_to = None\<rparr>"

definition apply_grant :: "env \<Rightarrow> ent_request \<Rightarrow> string \<Rightarrow> pydatetime \<Rightarrow> 'a admin_db_scheme \<Rightarrow> ent_error + 'a admin_db_scheme" where
  "apply_grant E req tenant now db =
     (case grants_of db tenant req now of
        [] \<Rightarrow> Inr (db\<lparr>user_roles := user_roles db @
                [granted_row E req tenant now (length (user_roles db))]\<rparr>)
      | [u] \<Rightarrow> Inr db
      | _ \<Rightarrow> Inl EntMultipleRows)"

definition apply_revoke :: "ent_request \<Rightarrow> string \<Rightarrow> pydatetime \<Rightarrow> 'a admin_db_scheme \<Rightarrow> ent_error + 'a admin_db_scheme" where
  "apply_revoke req tenant now db =
     bindR (if eq_target_role req = admin_role_id db tenant
            then assert_not_orphaning db tenant (eq_target_user req) now else Inr ()) (\<lambda>_.
     Inr (db\<lparr>user_roles := map (\<lambda>u. if u \<in> set (grants_of db tenant req now) then u\<lparr>ur_to := Some now\<rparr> else u)
            (user_roles db)\<rparr>))"

definition apply_deactivate :: "ent_request \<Rightarrow> string \<Rightarrow> pydatetime \<Rightarrow> 'a admin_db_scheme \<Rightarrow> ent_error + 'a admin_db_scheme" where
  "apply_deactivate req tenant now db =
     bindR (if eq_target_user req \<in> valid_admin_user_ids db tenant now
            then assert_not_orphaning db tenant (eq_target_user req) now else Inr ()) (\<lambda>_.
     Inr (db\<lparr>app_users := map (\<lambda>a. if user_id a = eq_target_user req then a\<lparr>user_active := False\<rparr> else a)
            (app_users db)\<rparr>))"

definition apply_change :: "env \<Rightarrow> ent_request \<Rightarrow> string \<Rightarrow> pydatetime \<Rightarrow> 'a admin_db_scheme \<Rightarrow> ent_error + 'a admin_db_scheme" where
  "apply_change E req tenant now db =
     (if eq_action req = ''GRANT_ROLE'' then apply_grant E req tenant now db
      else if eq_action req = ''REVOKE_ROLE'' then apply_revoke req tenant now db
      else if eq_action req = ''DEACTIVATE_USER'' then apply_deactivate req tenant now db
      else Inr db)"

section \<open>Requesting\<close>

definition request_actions :: "string list" where
  "request_actions = [''GRANT_ROLE'', ''REVOKE_ROLE'', ''DEACTIVATE_USER'']"

definition validate_target ::
  "'a admin_db_scheme \<Rightarrow> string \<Rightarrow> string \<Rightarrow> string \<Rightarrow> string option \<Rightarrow> ent_error + unit" where
  "validate_target db tenant act target role =
     (if act \<notin> set request_actions then Inl (EntitlementError ''unknown action'')
      else if act \<in> {''GRANT_ROLE'', ''REVOKE_ROLE''} \<and> \<not> truthy role then Inl (EntitlementError ''requires a target role'')
      else if one_or_none (filter (\<lambda>a. user_id a = target \<and> user_tenant a = tenant) (app_users db)) = None
      then Inl (EntitlementError ''target user not found'')
      else (case role of None \<Rightarrow> Inr ()
            | Some r \<Rightarrow> if one_or_none (filter (\<lambda>x. rl_id x = r \<and> rl_tenant x = tenant) (roles db)) = None
                then Inl (EntitlementError ''target role not found'') else Inr ()))"

definition born_pending :: "'a admin_db_scheme \<Rightarrow> string \<Rightarrow> string \<Rightarrow> string \<Rightarrow> string \<Rightarrow> pydatetime \<Rightarrow> bool" where
  "born_pending db tenant who act target now =
     (if act = ''DEACTIVATE_USER'' \<and> target \<notin> valid_admin_user_ids db tenant now then False
      else four_eyes_required db tenant who now)"

definition request_row ::
  "env \<Rightarrow> 'a admin_db_scheme \<Rightarrow> string \<Rightarrow> string \<Rightarrow> string \<Rightarrow> string \<Rightarrow> string option \<Rightarrow> string option \<Rightarrow> pydatetime
     \<Rightarrow> ent_request" where
  "request_row E db tenant who act target role reason now =
     (let pending = born_pending db tenant who act target now in
      \<lparr>eq_id = uuid E ''entitlement_request'' (length (ent_requests db)), eq_tenant = tenant,
       eq_seq = next_request_seq tenant (ent_requests db), eq_action = act,
       eq_status = (if pending then ''PENDING'' else ''DIRECT''), eq_requested_by = who, eq_requested_at = now,
       eq_target_user = target, eq_target_role = role,
       eq_resolved_by = (if pending then None else Some who), eq_resolved_at = (if pending then None else Some now),
       eq_resolves = None, eq_reason = reason\<rparr>)"

definition request_event :: "ent_request \<Rightarrow> event_fields" where
  "request_event req = event_call ''ROLE.GRANT_REQUEST'' (eq_tenant req) ''HUMAN'' (eq_requested_by req) ''entitlement'' ''create''
     \<lparr>entity_type := Some ''entitlement_request'', entity_id := Some (eq_id req),
      after_value := Some (JObj [(''action'', JStr (eq_action req)), (''status'', JStr (eq_status req)),
        (''target_user_id'', JStr (eq_target_user req)), (''target_role_id'', opt_str (eq_target_role req)),
        (''direct_grant'', JBool (eq_status req = ''DIRECT''))])\<rparr>"

definition request_entitlement_change ::
  "env \<Rightarrow> string \<Rightarrow> string \<Rightarrow> string \<Rightarrow> string \<Rightarrow> string option \<Rightarrow> string option \<Rightarrow> pydatetime \<Rightarrow> 'a admin_db_scheme
     \<Rightarrow> ent_error + ('a admin_db_scheme \<times> ent_request)" where
  "request_entitlement_change E tenant who act target role reason now db =
     bindR (validate_target db tenant act target role) (\<lambda>_.
     let req = request_row E db tenant who act target role reason now;
         db1 = db\<lparr>ent_requests := ent_requests db @ [req]\<rparr>
     in bindR (if eq_status req = ''PENDING'' then Inr db1 else apply_change E req tenant now db1) (\<lambda>db2.
        Inr (log_event E (request_event req) None db2, req)))"

section \<open>Approving\<close>

definition resolution_row :: "env \<Rightarrow> 'a admin_db_scheme \<Rightarrow> ent_request \<Rightarrow> string \<Rightarrow> pydatetime \<Rightarrow> ent_request" where
  "resolution_row E db req who now = req\<lparr>
     eq_id := uuid E ''entitlement_request'' (length (ent_requests db)),
     eq_seq := next_request_seq (eq_tenant req) (ent_requests db),
     eq_status := ''APPROVED'', eq_resolved_by := Some who, eq_resolved_at := Some now,
     eq_resolves := Some (eq_id req)\<rparr>"

definition approve_event :: "ent_request \<Rightarrow> ent_request \<Rightarrow> string \<Rightarrow> event_fields" where
  "approve_event req res who = event_call ''ROLE.GRANT_APPROVE'' (eq_tenant req) ''HUMAN'' who ''entitlement'' ''status_change''
     \<lparr>entity_type := Some ''entitlement_request'', entity_id := Some (eq_id res),
      after_value := Some (JObj [(''action'', JStr (eq_action req)), (''resolves_request_id'', JStr (eq_id req)),
        (''requested_by'', JStr (eq_requested_by req)), (''target_user_id'', JStr (eq_target_user req))])\<rparr>"

definition find_request :: "'a admin_db_scheme \<Rightarrow> string \<Rightarrow> string \<Rightarrow> ent_error + ent_request" where
  "find_request db tenant rid =
     (case filter (\<lambda>r. eq_id r = rid \<and> eq_tenant r = tenant) (ent_requests db) of
        [] \<Rightarrow> Inl (EntitlementError ''request not found'') | [r] \<Rightarrow> Inr r | _ \<Rightarrow> Inl EntMultipleRows)"

definition approve_entitlement_change ::
  "env \<Rightarrow> string \<Rightarrow> string \<Rightarrow> string \<Rightarrow> pydatetime \<Rightarrow> 'a admin_db_scheme
     \<Rightarrow> ent_error + ('a admin_db_scheme \<times> ent_request)" where
  "approve_entitlement_change E tenant who rid now db =
     bindR (find_request db tenant rid) (\<lambda>req.
     if eq_status req \<noteq> ''PENDING'' then Inl (EntitlementError ''already resolved'')
     else case filter (\<lambda>r. eq_resolves r = Some (eq_id req)) (ent_requests db) of
       [r] \<Rightarrow> Inl (EntitlementError ''already resolved by a row'')
     | _ # _ # _ \<Rightarrow> Inl EntMultipleRows
     | [] \<Rightarrow>
       if admin_actor (eq_requested_by req) = who then Inl (EntitlementError ''own request'')
       else bindR (apply_change E req tenant now db) (\<lambda>db1.
         let res = resolution_row E db1 req who now
         in Inr (log_event E (approve_event req res who) None (db1\<lparr>ent_requests := ent_requests db1 @ [res]\<rparr>), res)))"

section \<open>Creating a user\<close>

definition create_user ::
  "env \<Rightarrow> string \<Rightarrow> string \<Rightarrow> string \<Rightarrow> string \<Rightarrow> 'a admin_db_scheme \<Rightarrow> ent_error + ('a admin_db_scheme \<times> app_user)" where
  "create_user E tenant who subject dname db =
     (let sub = py_strip subject; nm = py_strip dname in
      if sub = [] then Inl (EntitlementError ''external_subject'')
      else if nm = [] then Inl (EntitlementError ''display_name'')
      else if list_ex (\<lambda>a. user_tenant a = tenant \<and> user_subject a = Some sub) (app_users db)
      then Inl (EntitlementError ''subject exists'')
      else let a = \<lparr>user_id = uuid E ''app_user'' (length (app_users db)), user_tenant = tenant, user_subject = Some sub,
                    user_name = nm, user_active = True\<rparr>
      in Inr (log_event E
                (event_call ''USER.PROVISION'' tenant ''HUMAN'' who ''entitlement'' ''create''
                 \<lparr>entity_type := Some ''app_user'', entity_id := Some (user_id a),
                  after_value := Some (JObj [(''display_name'', JStr nm), (''seeded_by'', JStr ''tenant_admin'')])\<rparr>)
                None (db\<lparr>app_users := app_users db @ [a]\<rparr>), a))"

section \<open>The orphan check holds the line\<close>

text \<open>
  The users of a tenant, and what the tables of the whole platform keep about them: the ids are a
  primary key, and a request names a target of its own tenant.
\<close>

definition user_keys :: "'a ent_db_scheme \<Rightarrow> (string \<times> string) list" where
  "user_keys db = map (\<lambda>a. (user_id a, user_tenant a)) (app_users db)"

definition home :: "'a ent_db_scheme \<Rightarrow> string \<Rightarrow> string \<Rightarrow> bool" where
  "home db tenant i \<longleftrightarrow> (i, tenant) \<in> set (user_keys db)"

definition book_ok :: "'a admin_db_scheme \<Rightarrow> bool" where
  "book_ok db \<longleftrightarrow> distinct (map fst (user_keys db)) \<and>
     list_all (\<lambda>r. home db (eq_tenant r) (eq_target_user r)) (ent_requests db)"

text \<open>
  A tenant is manned at a moment when some active user of it holds an open-ended grant of its
  administrator role that has begun, and every grant of that role in the tenant is held by a user
  of the tenant and does not end later than that moment: the services only ever end a grant at the
  moment they act.
\<close>

definition manned :: "'a ent_db_scheme \<Rightarrow> string \<Rightarrow> pydatetime \<Rightarrow> bool" where
  "manned db tenant now \<longleftrightarrow> (\<exists>role. admin_role_id db tenant = Some role \<and>
     list_all (\<lambda>u. ur_tenant u = tenant \<and> ur_role u = role \<longrightarrow> home db tenant (ur_user u) \<and>
       (case ur_to u of None \<Rightarrow> True | Some e \<Rightarrow> utc_of e \<le> utc_of now)) (user_roles db) \<and>
     (\<exists>u a. u \<in> set (user_roles db) \<and> a \<in> set (app_users db) \<and>
        user_id a = ur_user u \<and> user_tenant a = tenant \<and> user_active a \<and> ur_tenant u = tenant \<and>
        ur_role u = role \<and> utc_of (ur_from u) \<le> utc_of now \<and> ur_to u = None))"

lemma valid_admin_iff:
  "i \<in> valid_admin_user_ids db tenant t \<longleftrightarrow>
     (\<exists>role u a. admin_role_id db tenant = Some role \<and> u \<in> set (user_roles db) \<and> a \<in> set (app_users db) \<and>
        i = ur_user u \<and> user_id a = ur_user u \<and> user_active a \<and> ur_tenant u = tenant \<and> ur_role u = role \<and> in_force t u)"
  unfolding valid_admin_user_ids_def
  by (cases "admin_role_id db tenant") (auto simp: in_set_concat_map in_set_if simp del: set_concat)

lemma mannedI:
  assumes "\<And>u. u \<in> set (user_roles db) \<Longrightarrow> ur_tenant u = tenant \<Longrightarrow> ur_role u = role \<Longrightarrow> home db tenant (ur_user u)"
    and "\<And>u e. u \<in> set (user_roles db) \<Longrightarrow> ur_tenant u = tenant \<Longrightarrow> ur_role u = role \<Longrightarrow> ur_to u = Some e \<Longrightarrow>
      utc_of e \<le> utc_of now"
    "admin_role_id db tenant = Some role" "u \<in> set (user_roles db)" "a \<in> set (app_users db)"
    "user_id a = ur_user u" "user_tenant a = tenant" "user_active a" "ur_tenant u = tenant" "ur_role u = role"
    "utc_of (ur_from u) \<le> utc_of now" "ur_to u = None"
  shows "manned db tenant now"
  unfolding manned_def list_all_iff
  by (rule exI[of _ role], intro conjI ballI exI[of _ u] exI[of _ a])
    (use assms in \<open>auto split: option.splits\<close>)

lemma mannedE:
  assumes "manned db tenant now"
  obtains role u a where "admin_role_id db tenant = Some role" "u \<in> set (user_roles db)" "a \<in> set (app_users db)"
    "user_id a = ur_user u" "user_tenant a = tenant" "user_active a" "ur_tenant u = tenant" "ur_role u = role"
    "utc_of (ur_from u) \<le> utc_of now" "ur_to u = None"
  using assms unfolding manned_def by blast

lemma manned_grants:
  assumes "manned db tenant now" "admin_role_id db tenant = Some role"
    "u \<in> set (user_roles db)" "ur_tenant u = tenant" "ur_role u = role"
  shows "home db tenant (ur_user u)" "ur_to u = Some e \<Longrightarrow> utc_of e \<le> utc_of now"
  using assms by (auto simp: manned_def list_all_iff split: option.splits)

lemma manned_valid_admin:
  assumes "manned db tenant now"
  shows "valid_admin_user_ids db tenant now \<noteq> {}"
proof -
  from assms obtain role u a where "admin_role_id db tenant = Some role" "u \<in> set (user_roles db)" "a \<in> set (app_users db)"
    "user_id a = ur_user u" "user_tenant a = tenant" "user_active a" "ur_tenant u = tenant" "ur_role u = role"
    "utc_of (ur_from u) \<le> utc_of now" "ur_to u = None" by (rule mannedE)
  moreover from this have "in_force now u" by (simp add: in_force_def)
  ultimately have "ur_user u \<in> valid_admin_user_ids db tenant now" unfolding valid_admin_iff by metis
  then show ?thesis by blast
qed

lemma manned_later:
  assumes "manned db tenant now" "utc_of now \<le> utc_of t"
  shows "manned db tenant t"
proof -
  from assms(1) obtain role u a where a: "admin_role_id db tenant = Some role" "u \<in> set (user_roles db)" "a \<in> set (app_users db)"
    "user_id a = ur_user u" "user_tenant a = tenant" "user_active a" "ur_tenant u = tenant" "ur_role u = role"
    "utc_of (ur_from u) \<le> utc_of now" "ur_to u = None" by (rule mannedE)
  show ?thesis
  proof (rule mannedI[OF _ _ a(1-8) _ a(10)])
    show "utc_of (ur_from u) \<le> utc_of t" using a(9) assms(2) by simp
  next
    fix v e assume "v \<in> set (user_roles db)" "ur_tenant v = tenant" "ur_role v = role" "ur_to v = Some e"
    then show "utc_of e \<le> utc_of t" using manned_grants(2)[OF assms(1) a(1)] assms(2) by (metis order_trans)
  qed (use manned_grants(1)[OF assms(1) a(1)] in blast)
qed

lemma book_user:
  assumes "distinct (map fst (user_keys db))" "a \<in> set (app_users db)" "home db tenant (user_id a)"
  shows "user_tenant a = tenant"
proof -
  have "(user_id a, user_tenant a) \<in> set (user_keys db)" using assms(2) by (auto simp: user_keys_def)
  then show ?thesis using assms(1,3) by (metis home_def eq_key_imp_eq_value)
qed

text \<open>The surviving administrator: an open grant of another active user.\<close>

lemma other_admin:
  assumes "manned db tenant now" "distinct (map fst (user_keys db))"
    "valid_admin_user_ids db tenant now - {i} \<noteq> {}" "admin_role_id db tenant = Some role"
  obtains u a where "u \<in> set (user_roles db)" "a \<in> set (app_users db)"
    "user_id a = ur_user u" "user_tenant a = tenant" "user_active a" "ur_tenant u = tenant" "ur_role u = role"
    "utc_of (ur_from u) \<le> utc_of now" "ur_to u = None" "ur_user u \<noteq> i"
proof -
  obtain j where j: "j \<in> valid_admin_user_ids db tenant now" "j \<noteq> i" using assms(3) by blast
  then obtain u a where u: "u \<in> set (user_roles db)" "a \<in> set (app_users db)"
    "j = ur_user u" "user_id a = ur_user u" "user_active a" "ur_tenant u = tenant" "ur_role u = role" "in_force now u"
    unfolding valid_admin_iff assms(4) by auto
  note g = manned_grants[OF assms(1,4) u(1,6,7)]
  have "user_tenant a = tenant" using book_user[OF assms(2) u(2)] g(1) u(4) by simp
  moreover have "ur_to u = None" using g(2) u(8) by (fastforce simp: in_force_def split: option.splits)
  moreover have "utc_of (ur_from u) \<le> utc_of now" using u(8) by (simp add: in_force_def)
  ultimately show thesis using that[of u a] u j(2) by blast
qed

lemma apply_change_frame:
  assumes "apply_change E req tenant now db = Inr db'"
  shows "roles db' = roles db" "ent_requests db' = ent_requests db" "user_keys db' = user_keys db"
  using assms
  by (auto simp: apply_change_def apply_grant_def apply_revoke_def apply_deactivate_def res_simps user_keys_def
      split: if_splits list.splits)

text \<open>The three effects of a change on the grants and the users.\<close>

lemma apply_change_cases:
  assumes "apply_change E req tenant now db = Inr db'"
  obtains (same) "db' = db"
  | (grant) "db' = db\<lparr>user_roles := user_roles db @ [granted_row E req tenant now (length (user_roles db))]\<rparr>"
  | (revoke) "db' = db\<lparr>user_roles := map (\<lambda>v. if v \<in> set (grants_of db tenant req now)
        then v\<lparr>ur_to := Some now\<rparr> else v) (user_roles db)\<rparr>"
      "eq_target_role req = admin_role_id db tenant \<Longrightarrow> valid_admin_user_ids db tenant now - {eq_target_user req} \<noteq> {}"
  | (deact) "db' = db\<lparr>app_users := map (\<lambda>a. if user_id a = eq_target_user req
        then a\<lparr>user_active := False\<rparr> else a) (app_users db)\<rparr>"
      "eq_target_user req \<in> valid_admin_user_ids db tenant now \<Longrightarrow>
        valid_admin_user_ids db tenant now - {eq_target_user req} \<noteq> {}"
proof -
  consider (g) "apply_grant E req tenant now db = Inr db'" | (r) "apply_revoke req tenant now db = Inr db'"
    | (d) "apply_deactivate req tenant now db = Inr db'" | (n) "db' = db"
    using assms unfolding apply_change_def by (metis sum.inject(2))
  then show thesis
  proof cases
    case g
    then have "db' = db \<or> db' = db\<lparr>user_roles := user_roles db @ [granted_row E req tenant now (length (user_roles db))]\<rparr>"
      by (auto simp: apply_grant_def split: list.splits)
    then show thesis using that(1,2) by blast
  next
    case r
    then have "db' = db\<lparr>user_roles := map (\<lambda>v. if v \<in> set (grants_of db tenant req now)
        then v\<lparr>ur_to := Some now\<rparr> else v) (user_roles db)\<rparr>"
      "eq_target_role req = admin_role_id db tenant \<Longrightarrow> valid_admin_user_ids db tenant now - {eq_target_user req} \<noteq> {}"
      by (auto simp: apply_revoke_def assert_not_orphaning_def res_simps split: if_splits)
    then show thesis by (rule that(3))
  next
    case d
    then have "db' = db\<lparr>app_users := map (\<lambda>a. if user_id a = eq_target_user req
        then a\<lparr>user_active := False\<rparr> else a) (app_users db)\<rparr>"
      "eq_target_user req \<in> valid_admin_user_ids db tenant now \<Longrightarrow>
        valid_admin_user_ids db tenant now - {eq_target_user req} \<noteq> {}"
      by (auto simp: apply_deactivate_def assert_not_orphaning_def res_simps split: if_splits)
    then show thesis by (rule that(4))
  qed (rule that(1))
qed

lemma home_keys: "user_keys db' = user_keys db \<Longrightarrow> home db' tenant i = home db tenant i"
  by (simp add: home_def)

lemma apply_change_manned:
  assumes m: "manned db tenant now" and uniq: "distinct (map fst (user_keys db))"
    and target: "home db tenant (eq_target_user req)" and a: "apply_change E req tenant now db = Inr db'"
  shows "manned db' tenant now"
proof -
  from m obtain role u x where adm: "admin_role_id db tenant = Some role" "u \<in> set (user_roles db)" "x \<in> set (app_users db)"
    "user_id x = ur_user u" "user_tenant x = tenant" "user_active x" "ur_tenant u = tenant" "ur_role u = role"
    "utc_of (ur_from u) \<le> utc_of now" "ur_to u = None" by (rule mannedE)
  note grants = manned_grants[OF m adm(1)]
  have role: "admin_role_id db' tenant = Some role"
    using adm(1) apply_change_frame(1)[OF a] by (simp add: admin_role_id_def)
  note homes = home_keys[OF apply_change_frame(3)[OF a]]
  from a show ?thesis
  proof (cases rule: apply_change_cases)
    case same
    then show ?thesis using m by simp
  next
    case grant
    define g where "g = granted_row E req tenant now (length (user_roles db))"
    have g: "ur_to g = None" "ur_user g = eq_target_user req" "db' = db\<lparr>user_roles := user_roles db @ [g]\<rparr>"
      by (simp_all add: g_def granted_row_def grant)
    show ?thesis
    proof (rule mannedI[OF _ _ role])
      fix v assume "v \<in> set (user_roles db')" "ur_tenant v = tenant" "ur_role v = role"
      then consider "v \<in> set (user_roles db)" "ur_tenant v = tenant" "ur_role v = role" | "v = g" using g(3) by auto
      then have "home db tenant (ur_user v)" by cases (use grants(1) target g(2) in simp_all)
      then show "home db' tenant (ur_user v)" by (simp only: homes)
    next
      fix v e assume "v \<in> set (user_roles db')" "ur_tenant v = tenant" "ur_role v = role" "ur_to v = Some e"
      then show "utc_of e \<le> utc_of now" using grants(2) g(1,3) by auto
    qed (use adm g(3) in simp_all)
  next
    case revoke
    let ?ended = "\<lambda>v. if v \<in> set (grants_of db tenant req now) then v\<lparr>ur_to := Some now\<rparr> else v"
    obtain v y where v: "v \<in> set (user_roles db)" "y \<in> set (app_users db)" "user_id y = ur_user v" "user_tenant y = tenant"
      "user_active y" "ur_tenant v = tenant" "ur_role v = role" "utc_of (ur_from v) \<le> utc_of now" "ur_to v = None"
      "v \<notin> set (grants_of db tenant req now)"
    proof (cases "eq_target_role req = Some role")
      case True
      then have "valid_admin_user_ids db tenant now - {eq_target_user req} \<noteq> {}" using revoke(2) adm(1) by simp
      then obtain v y where v: "v \<in> set (user_roles db)" "y \<in> set (app_users db)"
        "user_id y = ur_user v" "user_tenant y = tenant" "user_active y" "ur_tenant v = tenant" "ur_role v = role"
        "utc_of (ur_from v) \<le> utc_of now" "ur_to v = None" "ur_user v \<noteq> eq_target_user req"
        by (rule other_admin[OF m uniq _ adm(1)])
      have "v \<notin> set (grants_of db tenant req now)" using v(10) by (simp add: grants_of_def)
      then show ?thesis using that[of v y] v(1-9) by blast
    next
      case False
      then have "u \<notin> set (grants_of db tenant req now)" using adm(8) by (auto simp: grants_of_def)
      then show ?thesis using that[of u x] adm(2-10) by blast
    qed
    have came: "\<exists>w'. w' \<in> set (user_roles db) \<and> w = ?ended w'" if "w \<in> set (user_roles db')" for w
      using that unfolding revoke(1) by auto
    have "v \<in> ?ended ` set (user_roles db)" by (rule rev_image_eqI[OF v(1)]) (simp add: v(10))
    then have mem: "v \<in> set (user_roles db')" by (simp add: revoke(1))
    have mem2: "y \<in> set (app_users db')" using v(2) by (simp add: revoke(1))
    show ?thesis
    proof (rule mannedI[OF _ _ role mem mem2 v(3-9)])
      fix w assume w: "w \<in> set (user_roles db')" "ur_tenant w = tenant" "ur_role w = role"
      then obtain w' where w': "w' \<in> set (user_roles db)" "w = ?ended w'" using came by blast
      then have "ur_tenant w' = tenant" "ur_role w' = role" "ur_user w = ur_user w'" using w(2,3) by (auto split: if_splits)
      then show "home db' tenant (ur_user w)" using grants(1)[OF w'(1)] by (simp add: homes)
      fix e assume "ur_to w = Some e"
      then show "utc_of e \<le> utc_of now"
        using grants(2)[OF w'(1) \<open>ur_tenant w' = tenant\<close> \<open>ur_role w' = role\<close>, of e] w'(2) by (auto split: if_splits)
    qed
  next
    case deact
    let ?off = "\<lambda>a. if user_id a = eq_target_user req then a\<lparr>user_active := False\<rparr> else a"
    have "valid_admin_user_ids db tenant now - {eq_target_user req} \<noteq> {}"
      using deact(2) manned_valid_admin[OF m] by (cases "eq_target_user req \<in> valid_admin_user_ids db tenant now") auto
    then obtain v y where v: "v \<in> set (user_roles db)" "y \<in> set (app_users db)"
      "user_id y = ur_user v" "user_tenant y = tenant" "user_active y" "ur_tenant v = tenant" "ur_role v = role"
      "utc_of (ur_from v) \<le> utc_of now" "ur_to v = None" "ur_user v \<noteq> eq_target_user req"
      by (rule other_admin[OF m uniq _ adm(1)])
    have "y \<in> ?off ` set (app_users db)" by (rule rev_image_eqI[OF v(2)]) (use v(3,10) in simp)
    then have y: "y \<in> set (app_users db')" by (simp add: deact(1))
    have v1: "v \<in> set (user_roles db')" using v(1) by (simp add: deact(1))
    show ?thesis
      by (rule mannedI[OF _ _ role v1 y v(3-9)]) (use grants homes in \<open>simp_all add: deact(1)\<close>)
  qed
qed

section \<open>Histories of one tenant among the others\<close>

text \<open>
  One step of the platform, seen from one tenant: a returning call of an administration service for
  any tenant, at a time that does not run backwards (a call that raises changes nothing); the ids of
  new users are fresh, and the legacy \<open>grant_role\<close> names a user of its own tenant. Every other
  operation (other tenants' onboarding, say) leaves the roles, grants, users and requests of this
  tenant as they are.
\<close>

definition own_requests :: "string \<Rightarrow> 'a admin_db_scheme \<Rightarrow> ent_request list" where
  "own_requests tenant db = filter (\<lambda>r. eq_tenant r = tenant) (ent_requests db)"

definition same_rows :: "string \<Rightarrow> 'a ent_db_scheme \<Rightarrow> 'a ent_db_scheme \<Rightarrow> bool" where
  "same_rows tenant db db' \<longleftrightarrow>
     filter (\<lambda>r. rl_tenant r = tenant) (roles db') = filter (\<lambda>r. rl_tenant r = tenant) (roles db) \<and>
     filter (\<lambda>u. ur_tenant u = tenant) (user_roles db') = filter (\<lambda>u. ur_tenant u = tenant) (user_roles db) \<and>
     filter (\<lambda>a. user_tenant a = tenant) (app_users db') = filter (\<lambda>a. user_tenant a = tenant) (app_users db)"

inductive admin_step ::
  "env \<Rightarrow> string \<Rightarrow> 'a admin_db_scheme \<times> pydatetime \<Rightarrow> 'a admin_db_scheme \<times> pydatetime \<Rightarrow> bool" for E tenant where
  request: "utc_of now \<le> utc_of t \<Longrightarrow>
    request_entitlement_change E t' (admin_actor i) act target role reason t db = Inr (db', r) \<Longrightarrow>
    admin_step E tenant (db, now) (db', t)"
| approve: "utc_of now \<le> utc_of t \<Longrightarrow> approve_entitlement_change E t' (admin_actor i) rid t db = Inr (db', r) \<Longrightarrow>
    admin_step E tenant (db, now) (db', t)"
| add_user: "utc_of now \<le> utc_of t \<Longrightarrow> create_user E t' (admin_actor i) subject dname db = Inr (db', a) \<Longrightarrow>
    user_id a \<notin> user_id ` set (app_users db) \<Longrightarrow> admin_step E tenant (db, now) (db', t)"
| grant: "utc_of now \<le> utc_of t \<Longrightarrow> grant_role E who uid rid t' t db = Inr (db', u) \<Longrightarrow> home db t' uid \<Longrightarrow>
    admin_step E tenant (db, now) (db', t)"
| other: "utc_of now \<le> utc_of t \<Longrightarrow> same_rows tenant db db' \<Longrightarrow> own_requests tenant db' = own_requests tenant db \<Longrightarrow>
    book_ok db' \<Longrightarrow> admin_step E tenant (db, now) (db', t)"

lemma concat_if_map: "[f r. r \<leftarrow> xs, P r] = map f (filter P xs)"
  by (induction xs) auto

lemma admin_role_own:
  "filter (\<lambda>r. rl_tenant r = tenant) (roles db') = filter (\<lambda>r. rl_tenant r = tenant) (roles db) \<Longrightarrow>
     admin_role_id db' tenant = admin_role_id db tenant"
proof -
  assume own: "filter (\<lambda>r. rl_tenant r = tenant) (roles db') = filter (\<lambda>r. rl_tenant r = tenant) (roles db)"
  have f: "filter (\<lambda>r. rl_tenant r = tenant \<and> rl_code r = ''tenant_admin'') rs
      = filter (\<lambda>r. rl_code r = ''tenant_admin'') (filter (\<lambda>r. rl_tenant r = tenant) rs)" for rs by simp
  show ?thesis unfolding admin_role_id_def concat_if_map f own ..
qed

lemma filter_same_mem: "filter P ys = filter P xs \<Longrightarrow> P x \<Longrightarrow> x \<in> set ys \<longleftrightarrow> x \<in> set xs"
  by (metis (mono_tags, lifting) mem_Collect_eq set_filter)

lemma manned_same_rows:
  assumes "manned db tenant now" "same_rows tenant db db'"
  shows "manned db' tenant now"
proof -
  from assms(1) obtain role u a where adm: "admin_role_id db tenant = Some role" "u \<in> set (user_roles db)" "a \<in> set (app_users db)"
    "user_id a = ur_user u" "user_tenant a = tenant" "user_active a" "ur_tenant u = tenant" "ur_role u = role"
    "utc_of (ur_from u) \<le> utc_of now" "ur_to u = None" by (rule mannedE)
  have role: "admin_role_id db' tenant = Some role"
    using admin_role_own assms(2) adm(1) unfolding same_rows_def by metis
  have rows: "v \<in> set (user_roles db') \<longleftrightarrow> v \<in> set (user_roles db)" if "ur_tenant v = tenant" for v
    by (rule filter_same_mem[where P = "\<lambda>u. ur_tenant u = tenant"]) (use assms(2) that in \<open>simp_all add: same_rows_def\<close>)
  have users: "x \<in> set (app_users db') \<longleftrightarrow> x \<in> set (app_users db)" if "user_tenant x = tenant" for x
    by (rule filter_same_mem[where P = "\<lambda>a. user_tenant a = tenant"]) (use assms(2) that in \<open>simp_all add: same_rows_def\<close>)
  have homes: "home db' tenant i" if h: "home db tenant i" for i
  proof -
    obtain x where "x \<in> set (app_users db)" "user_id x = i" "user_tenant x = tenant"
      using h by (auto simp: home_def user_keys_def)
    then show ?thesis using users by (auto simp: home_def user_keys_def)
  qed
  note grants = manned_grants[OF assms(1) adm(1)]
  show ?thesis
    by (rule mannedI[OF _ _ role _ _ adm(4-10)]) (use grants rows users homes adm(2,3,5,7) in \<open>metis\<close>)+
qed

lemma manned_grow:
  assumes "manned db tenant now" "roles db' = roles db" "user_roles db' = user_roles db @ us" "app_users db' = app_users db @ as"
    "\<And>u. u \<in> set us \<Longrightarrow> ur_to u = None \<and> home db (ur_tenant u) (ur_user u)"
  shows "manned db' tenant now"
proof -
  from assms(1) obtain role u a where adm: "admin_role_id db tenant = Some role" "u \<in> set (user_roles db)" "a \<in> set (app_users db)"
    "user_id a = ur_user u" "user_tenant a = tenant" "user_active a" "ur_tenant u = tenant" "ur_role u = role"
    "utc_of (ur_from u) \<le> utc_of now" "ur_to u = None" by (rule mannedE)
  have role: "admin_role_id db' tenant = Some role" using adm(1) assms(2) by (simp add: admin_role_id_def)
  have homes: "home db' t i" if "home db t i" for t i using that by (auto simp: home_def user_keys_def assms(4))
  note grants = manned_grants[OF assms(1) adm(1)]
  have mem: "u \<in> set (user_roles db')" "a \<in> set (app_users db')" using adm(2,3) assms(3,4) by simp_all
  show ?thesis
  proof (rule mannedI[OF _ _ role mem adm(4-10)])
    fix v assume "v \<in> set (user_roles db')" "ur_tenant v = tenant" "ur_role v = role"
    then show "home db' tenant (ur_user v)" using grants(1) assms(3,5) homes by fastforce
  next
    fix v e assume "v \<in> set (user_roles db')" "ur_tenant v = tenant" "ur_role v = role" "ur_to v = Some e"
    then show "utc_of e \<le> utc_of now" using grants(2) assms(3,5) by fastforce
  qed
qed

lemma filter_map_keep:
  "(\<And>x. x \<in> set xs \<Longrightarrow> P (f x) = P x) \<Longrightarrow> (\<And>x. x \<in> set xs \<Longrightarrow> P x \<Longrightarrow> f x = x) \<Longrightarrow>
     filter P (map f xs) = filter P xs"
  by (induction xs) auto

text \<open>A change of one tenant leaves the rows of every other tenant alone.\<close>

lemma apply_change_foreign:
  assumes "apply_change E req t' now db = Inr db'" "t' \<noteq> tenant"
    and "distinct (map fst (user_keys db))" "home db t' (eq_target_user req)"
  shows "same_rows tenant db db'"
  using assms(1)
proof (cases rule: apply_change_cases)
  case same
  then show ?thesis by (simp add: same_rows_def)
next
  case grant
  then show ?thesis using assms(2) by (simp add: same_rows_def granted_row_def)
next
  case revoke
  have "filter (\<lambda>u. ur_tenant u = tenant) (map (\<lambda>v. if v \<in> set (grants_of db t' req now)
      then v\<lparr>ur_to := Some now\<rparr> else v) (user_roles db)) = filter (\<lambda>u. ur_tenant u = tenant) (user_roles db)"
    by (rule filter_map_keep) (use assms(2) in \<open>auto simp: grants_of_def\<close>)
  then show ?thesis by (simp add: same_rows_def revoke(1))
next
  case deact
  have foreign: "user_id a \<noteq> eq_target_user req" if "a \<in> set (app_users db)" "user_tenant a = tenant" for a
    using book_user[OF assms(3) that(1), of t'] assms(2,4) that(2) by auto
  have "filter (\<lambda>a. user_tenant a = tenant) (map (\<lambda>a. if user_id a = eq_target_user req
      then a\<lparr>user_active := False\<rparr> else a) (app_users db)) = filter (\<lambda>a. user_tenant a = tenant) (app_users db)"
    by (rule filter_map_keep) (use foreign in auto)
  then show ?thesis by (simp add: same_rows_def deact(1))
qed

lemma change_manned:
  assumes "manned db tenant now" "distinct (map fst (user_keys db))" "home db t' (eq_target_user req)"
    "apply_change E req t' now db = Inr db'"
  shows "manned db' tenant now"
proof (cases "t' = tenant")
  case True
  then show ?thesis using apply_change_manned[OF assms(1,2)] assms(3,4) by simp
next
  case False
  then show ?thesis using manned_same_rows[OF assms(1)] apply_change_foreign[OF assms(4) _ assms(2,3)] by blast
qed

lemma validate_home:
  assumes "validate_target db tenant act target role = Inr ()"
  shows "home db tenant target"
proof -
  have "one_or_none (filter (\<lambda>a. user_id a = target \<and> user_tenant a = tenant) (app_users db)) \<noteq> None"
    using assms by (auto simp: validate_target_def split: if_splits)
  then have "filter (\<lambda>a. user_id a = target \<and> user_tenant a = tenant) (app_users db) \<noteq> []"
    by (auto simp: one_or_none_def)
  then show ?thesis by (auto simp: home_def user_keys_def filter_empty_conv)
qed

lemma request_cases:
  assumes "request_entitlement_change E tenant who act target role reason now db = Inr (db', r)"
  obtains db2 where "r = request_row E db tenant who act target role reason now" "home db tenant target"
    "db' = log_event E (request_event r) None db2"
    "db2 = db\<lparr>ent_requests := ent_requests db @ [r]\<rparr> \<and> eq_status r = ''PENDING'' \<or>
     eq_status r = ''DIRECT'' \<and> apply_change E r tenant now (db\<lparr>ent_requests := ent_requests db @ [r]\<rparr>) = Inr db2"
proof -
  let ?r = "request_row E db tenant who act target role reason now"
  have st: "eq_status ?r = ''PENDING'' \<or> eq_status ?r = ''DIRECT''" by (simp add: request_row_def Let_def)
  have "validate_target db tenant act target role = Inr ()"
    using assms unfolding request_entitlement_change_def bindR_Inr by auto
  then have h: "home db tenant target" by (rule validate_home)
  obtain db2 where db2: "(if eq_status ?r = ''PENDING'' then Inr (db\<lparr>ent_requests := ent_requests db @ [?r]\<rparr>)
      else apply_change E ?r tenant now (db\<lparr>ent_requests := ent_requests db @ [?r]\<rparr>)) = Inr db2"
    "db' = log_event E (request_event ?r) None db2" "r = ?r"
    using assms unfolding request_entitlement_change_def Let_def bindR_Inr by blast
  show thesis by (rule that[of db2]) (use db2 st h in \<open>auto split: if_splits\<close>)
qed

lemma find_request_Inr: "find_request db tenant rid = Inr req \<Longrightarrow> req \<in> set (ent_requests db) \<and> eq_tenant req = tenant"
proof -
  assume "find_request db tenant rid = Inr req"
  then have "filter (\<lambda>r. eq_id r = rid \<and> eq_tenant r = tenant) (ent_requests db) = [req]"
    by (auto simp: find_request_def split: list.splits)
  then have "req \<in> set (filter (\<lambda>r. eq_id r = rid \<and> eq_tenant r = tenant) (ent_requests db))" by simp
  then show ?thesis by simp
qed

lemma approve_cases:
  assumes "approve_entitlement_change E tenant who rid now db = Inr (db', res)"
  obtains req db1 where "find_request db tenant rid = Inr req" "eq_status req = ''PENDING''"
    "filter (\<lambda>r. eq_resolves r = Some (eq_id req)) (ent_requests db) = []" "admin_actor (eq_requested_by req) \<noteq> who"
    "apply_change E req tenant now db = Inr db1" "res = resolution_row E db1 req who now"
    "db' = log_event E (approve_event req res who) None (db1\<lparr>ent_requests := ent_requests db1 @ [res]\<rparr>)"
proof -
  obtain req where req: "find_request db tenant rid = Inr req"
    using assms by (auto simp: approve_entitlement_change_def res_simps)
  have p: "eq_status req = ''PENDING''" using assms req by (auto simp: approve_entitlement_change_def split: if_splits)
  have f: "filter (\<lambda>r. eq_resolves r = Some (eq_id req)) (ent_requests db) = []"
    using assms req p by (auto simp: approve_entitlement_change_def split: list.splits)
  have o: "admin_actor (eq_requested_by req) \<noteq> who"
    using assms req p f by (auto simp: approve_entitlement_change_def split: if_splits)
  show thesis
    using assms req p f o that[OF req p f o] by (auto simp: approve_entitlement_change_def res_simps Let_def)
qed

text \<open>What every step keeps.\<close>

definition run_ok :: "string \<Rightarrow> 'a admin_db_scheme \<times> pydatetime \<Rightarrow> bool" where
  "run_ok tenant s \<longleftrightarrow> book_ok (fst s) \<and> manned (fst s) tenant (snd s)"

lemma keys_simps [simp]:
  "user_keys (log_event E f tm db) = user_keys db" "user_keys (db\<lparr>user_roles := urs\<rparr>) = user_keys db"
  by (simp_all add: user_keys_def row_simps)

lemma request_keys [simp]: "user_keys (db\<lparr>ent_requests := rs\<rparr>) = user_keys db"
  by (simp add: user_keys_def)

lemma book_request:
  assumes "book_ok db" "user_keys db' = user_keys db" "ent_requests db' = ent_requests db @ [r]"
    "home db (eq_tenant r) (eq_target_user r)"
  shows "book_ok db'"
  using assms by (simp add: book_ok_def home_def)

lemma step_run_ok:
  assumes "admin_step E tenant s s'" "run_ok tenant s"
  shows "run_ok tenant s'"
  using assms
proof (cases rule: admin_step.cases)
  case (request now t t' i act target role reason db db' r)
  have ok: "book_ok db" and m: "manned db tenant t" using assms(2) request manned_later by (auto simp: run_ok_def)
  then have uniq: "distinct (map fst (user_keys db))" by (simp add: book_ok_def)
  from request(4) show ?thesis
  proof (cases rule: request_cases)
    case (1 db2)
    let ?db1 = "db\<lparr>ent_requests := ent_requests db @ [r]\<rparr>"
    have r: "eq_tenant r = t'" "eq_target_user r = target" by (simp_all add: 1(1) request_row_def Let_def)
    have m1: "manned ?db1 tenant t" by (rule manned_same_rows[OF m]) (simp add: same_rows_def)
    have h1: "home ?db1 t' (eq_target_user r)" using 1(2) r(2) by (simp add: home_def)
    have "manned db2 tenant t" using 1(4) m1 change_manned[OF m1 _ h1] uniq by auto
    then have "manned db' tenant t" by (rule manned_same_rows) (simp add: same_rows_def 1(3) row_simps)
    moreover have "user_keys db' = user_keys db" "ent_requests db' = ent_requests db @ [r]"
      using 1(4) apply_change_frame[of E r t' t ?db1 db2] by (auto simp: 1(3) row_simps)
    then have "book_ok db'" by (rule book_request[OF ok]) (use 1(2) r in simp)
    ultimately show ?thesis using request(2) by (simp add: run_ok_def)
  qed
next
  case (approve now t t' i rid db db' res)
  have ok: "book_ok db" and m: "manned db tenant t" using assms(2) approve manned_later by (auto simp: run_ok_def)
  then have uniq: "distinct (map fst (user_keys db))" by (simp add: book_ok_def)
  from approve(4) show ?thesis
  proof (cases rule: approve_cases)
    case (1 req db1)
    have h: "home db t' (eq_target_user req)" "eq_tenant req = t'"
      using ok find_request_Inr[OF 1(1)] by (auto simp: book_ok_def list_all_iff)
    have "manned db1 tenant t" by (rule change_manned[OF m uniq h(1) 1(5)])
    then have "manned db' tenant t" by (rule manned_same_rows) (simp add: same_rows_def 1(7) row_simps)
    moreover have "user_keys db' = user_keys db" "ent_requests db' = ent_requests db @ [res]"
      using apply_change_frame[OF 1(5)] by (simp_all add: 1(7) row_simps)
    then have "book_ok db'" by (rule book_request[OF ok]) (use h in \<open>simp add: 1(6) resolution_row_def\<close>)
    ultimately show ?thesis using approve(2) by (simp add: run_ok_def)
  qed
next
  case (add_user now t t' i subject dname db db' a)
  have ok: "book_ok db" and m: "manned db tenant t" using assms(2) add_user manned_later by (auto simp: run_ok_def)
  have rows: "roles db' = roles db" "user_roles db' = user_roles db" "app_users db' = app_users db @ [a]"
    "ent_requests db' = ent_requests db"
    using add_user(4) by (auto simp: create_user_def Let_def row_simps split: if_splits)
  have "manned db' tenant t" by (rule manned_grow[OF m rows(1) _ rows(3), of "[]"]) (simp_all add: rows)
  moreover have "book_ok db'"
    using ok add_user(5) by (auto simp: book_ok_def user_keys_def rows home_def list_all_iff image_image)
  ultimately show ?thesis using add_user(2) by (simp add: run_ok_def)
next
  case (grant now t who uid rid t' db db' u)
  have ok: "book_ok db" and m: "manned db tenant t" using assms(2) grant manned_later by (auto simp: run_ok_def)
  have rows: "roles db' = roles db" "user_roles db' = user_roles db @ [u]" "app_users db' = app_users db"
    "ent_requests db' = ent_requests db" "ur_to u = None" "ur_tenant u = t'" "ur_user u = uid"
    using grant(4) by (auto simp: grant_role_def Let_def row_simps split: if_splits)
  have "manned db' tenant t" by (rule manned_grow[OF m rows(1,2), of "[]"]) (use rows grant(5) in simp_all)
  moreover have "book_ok db'" using ok by (simp add: book_ok_def home_def user_keys_def rows)
  ultimately show ?thesis using grant(2) by (simp add: run_ok_def)
next
  case (other now t db db')
  then have "manned db tenant t" using assms(2) manned_later by (auto simp: run_ok_def)
  then have "manned db' tenant t" using manned_same_rows other(4) by blast
  then show ?thesis using other by (simp add: run_ok_def)
qed

lemma steps_run_ok: "(admin_step E tenant)\<^sup>*\<^sup>* s s' \<Longrightarrow> run_ok tenant s \<Longrightarrow> run_ok tenant s'"
  by (induction rule: rtranclp_induct) (auto intro: step_run_ok)

lemma steps_keep_an_administrator:
  "(admin_step E tenant)\<^sup>*\<^sup>* (db0, now0) (db, now) \<Longrightarrow> book_ok db0 \<Longrightarrow> manned db0 tenant now0 \<Longrightarrow>
     valid_admin_user_ids db tenant now \<noteq> {}"
  using steps_run_ok[of E tenant "(db0, now0)" "(db, now)"] manned_valid_admin by (auto simp: run_ok_def)

text \<open>
  C12. A tenant that is manned never loses its last administrator. Take a moment at which an active
  user of the tenant holds a begun, open-ended grant of its administrator role, and every grant of
  that role in the tenant is held by one of its users and is not due to end later (an expiry that is
  already written down would end a grant without any check). Then after any sequence of requests,
  approvals, direct grants and new users, of this and of every other tenant in any interleaving, at
  times that do not run backwards, an active user still holds a currently valid grant of the
  administrator role. The platform's users have distinct ids, requests name users of their own
  tenant, and other operations leave the tenant's own rows alone.
\<close>

theorem tenant_keeps_an_administrator:
  assumes "book_ok db0" "manned db0 tenant now0" "(admin_step E tenant)\<^sup>*\<^sup>* (db0, now0) (db, now)"
  shows "valid_admin_user_ids db tenant now \<noteq> {}"
  using steps_keep_an_administrator[OF assms(3,1,2)] .

text \<open>
  Four eyes at the request: a change asked for while another administrator exists is only
  recorded, and no grant and no user changes; it takes effect at once only for the sole
  administrator, or to deactivate a user who is not an administrator.
\<close>

lemma request_waits_for_second_administrator:
  assumes "request_entitlement_change E tenant who act target role reason now db = Inr (db', r)"
  shows "eq_status r = ''PENDING'' \<and> user_roles db' = user_roles db \<and> app_users db' = app_users db \<and>
      valid_admin_user_ids db tenant now - {who} \<noteq> {} \<or>
    eq_status r = ''DIRECT'' \<and> (valid_admin_user_ids db tenant now \<subseteq> {who} \<or>
      act = ''DEACTIVATE_USER'' \<and> target \<notin> valid_admin_user_ids db tenant now)"
  using assms
proof (cases rule: request_cases)
  case (1 db2)
  have status: "eq_status r = (if born_pending db tenant who act target now then ''PENDING'' else ''DIRECT'')"
    by (simp add: 1(1) request_row_def Let_def)
  show ?thesis
  proof (cases "born_pending db tenant who act target now")
    case True
    then have "db2 = db\<lparr>ent_requests := ent_requests db @ [r]\<rparr>" using 1(4) status by auto
    then have "user_roles db' = user_roles db" "app_users db' = app_users db" by (simp_all add: 1(3) row_simps)
    then show ?thesis using True status by (auto simp: born_pending_def four_eyes_required_def split: if_splits)
  next
    case False
    then show ?thesis using status by (auto simp: born_pending_def four_eyes_required_def split: if_splits)
  qed
qed

section \<open>The request log\<close>

definition approved_by_another :: "ent_request list \<Rightarrow> ent_request \<Rightarrow> bool" where
  "approved_by_another rows r \<longleftrightarrow> (\<exists>p\<in>set rows. eq_resolves r = Some (eq_id p) \<and> eq_status p = ''PENDING'' \<and>
     eq_seq p < eq_seq r \<and> eq_action r = eq_action p \<and> eq_target_user r = eq_target_user p \<and>
     eq_target_role r = eq_target_role p \<and>
     (\<exists>w. eq_resolved_by r = Some w \<and> w \<noteq> admin_actor (eq_requested_by p)))"

definition request_ok :: "string \<Rightarrow> ent_request list \<Rightarrow> ent_request \<Rightarrow> bool" where
  "request_ok tenant rows r \<longleftrightarrow> eq_tenant r = tenant \<and>
     (eq_status r = ''PENDING'' \<and> eq_resolved_by r = None \<and> eq_resolves r = None \<or>
      eq_status r = ''DIRECT'' \<and> eq_resolved_by r = Some (eq_requested_by r) \<and> eq_resolves r = None \<or>
      eq_status r = ''APPROVED'' \<and> approved_by_another rows r)"

definition log_ok :: "string \<Rightarrow> ent_request list \<Rightarrow> bool" where
  "log_ok tenant rows \<longleftrightarrow> requests.numbered rows \<and> (\<forall>r\<in>set rows. request_ok tenant rows r) \<and>
     distinct (map eq_resolves (filter (\<lambda>r. eq_status r = ''APPROVED'') rows))"

lemma request_ok_mono: "request_ok tenant rows r \<Longrightarrow> request_ok tenant (rows @ xs) r"
  unfolding request_ok_def approved_by_another_def set_append by blast

lemma log_ok_append:
  assumes "log_ok tenant rows" "eq_seq r = next_request_seq (eq_tenant r) rows" "request_ok tenant (rows @ [r]) r"
    "eq_status r = ''APPROVED'' \<Longrightarrow> filter (\<lambda>x. eq_resolves x = eq_resolves r) rows = []"
  shows "log_ok tenant (rows @ [r])"
proof -
  have "requests.numbered (rows @ [r])"
    using assms(1,2) by (intro requests.numbered_append) (simp_all add: log_ok_def)
  moreover have "\<forall>x\<in>set (rows @ [r]). request_ok tenant (rows @ [r]) x"
    using assms(1,3) request_ok_mono by (auto simp: log_ok_def)
  moreover have "distinct (map eq_resolves (filter (\<lambda>r. eq_status r = ''APPROVED'') (rows @ [r])))"
    using assms(1,4) by (auto simp: log_ok_def filter_empty_conv)
  ultimately show ?thesis by (simp add: log_ok_def)
qed

lemma own_next_seq: "next_request_seq tenant (own_requests tenant db) = next_request_seq tenant (ent_requests db)"
  by (simp add: next_request_seq_def own_requests_def)

lemma own_append:
  "ent_requests db' = ent_requests db @ [r] \<Longrightarrow>
     own_requests tenant db' = own_requests tenant db @ (if eq_tenant r = tenant then [r] else [])"
  by (simp add: own_requests_def)

lemma step_log:
  assumes "admin_step E tenant s s'" "log_ok tenant (own_requests tenant (fst s))"
  shows "log_ok tenant (own_requests tenant (fst s')) \<and> set (own_requests tenant (fst s)) \<subseteq> set (own_requests tenant (fst s'))"
  using assms
proof (cases rule: admin_step.cases)
  case (request now t t' i act target role reason db db' r)
  from request(4) show ?thesis
  proof (cases rule: request_cases)
    case (1 db2)
    have rows: "ent_requests db' = ent_requests db @ [r]"
      using 1(3,4) apply_change_frame(2) by (fastforce simp: row_simps)
    have r: "eq_tenant r = t'" "eq_seq r = next_request_seq t' (ent_requests db)" "eq_status r \<noteq> ''APPROVED''"
      "eq_tenant r = tenant \<Longrightarrow> request_ok tenant xs r" for xs
      by (simp_all add: 1(1) request_row_def Let_def request_ok_def)
    have "log_ok tenant (own_requests tenant db @ [r])" if "t' = tenant"
      using log_ok_append[OF assms(2), of r] r that request(1) by (simp add: own_next_seq)
    then show ?thesis using assms(2) request(1,2) r(1) by (auto simp: own_append[OF rows])
  qed
next
  case (approve now t t' i rid db db' res)
  from approve(4) show ?thesis
  proof (cases rule: approve_cases)
    case (1 req db1)
    have same: "ent_requests db1 = ent_requests db" using apply_change_frame(2)[OF 1(5)] .
    have rows: "ent_requests db' = ent_requests db @ [res]" by (simp add: 1(7) row_simps same)
    have req: "req \<in> set (ent_requests db)" "eq_tenant req = t'" using find_request_Inr[OF 1(1)] by simp_all
    have fields: "eq_tenant res = t'" "eq_seq res = next_request_seq t' (ent_requests db)" "eq_status res = ''APPROVED''"
      "eq_resolves res = Some (eq_id req)" "eq_resolved_by res = Some (admin_actor i)" "eq_action res = eq_action req"
      "eq_target_user res = eq_target_user req" "eq_target_role res = eq_target_role req"
      by (simp_all add: 1(6) resolution_row_def same req(2))
    have "log_ok tenant (own_requests tenant db @ [res])" if own: "t' = tenant"
    proof -
      have ok: "log_ok tenant (own_requests tenant db)" using assms(2) approve(1) by simp
      then have num: "requests.numbered (own_requests tenant db)" by (simp add: log_ok_def)
      have mem: "req \<in> set (own_requests tenant db)" using req own by (simp add: own_requests_def)
      have "eq_seq req < eq_seq res"
        using requests.next_num_fresh[OF num mem] fields(2) req(2) own by (simp add: own_next_seq)
      then have "approved_by_another (own_requests tenant db @ [res]) res"
        using mem 1(2,4) fields unfolding approved_by_another_def by (intro bexI[of _ req]) auto
      then have "request_ok tenant (own_requests tenant db @ [res]) res" using fields(1,3) own by (simp add: request_ok_def)
      moreover have "filter (\<lambda>x. eq_resolves x = eq_resolves res) (own_requests tenant db) = []"
        using 1(3) by (auto simp: fields(4) own_requests_def filter_empty_conv)
      ultimately show ?thesis using log_ok_append[OF ok, of res] fields(1,2) own by (simp add: own_next_seq)
    qed
    then show ?thesis using assms(2) approve(1,2) fields(1) by (auto simp: own_append[OF rows])
  qed
next
  case (add_user now t t' i subject dname db db' a)
  then have "ent_requests db' = ent_requests db" by (auto simp: create_user_def Let_def row_simps split: if_splits)
  then show ?thesis using assms(2) add_user by (simp add: own_requests_def)
next
  case (grant now t who uid rid t' db db' u)
  then have "ent_requests db' = ent_requests db" by (auto simp: grant_role_def Let_def row_simps split: if_splits)
  then show ?thesis using assms(2) grant by (simp add: own_requests_def)
next
  case (other now t db db')
  then show ?thesis using assms(2) by simp
qed

lemma steps_log:
  assumes "(admin_step E tenant)\<^sup>*\<^sup>* s s'" "log_ok tenant (own_requests tenant (fst s))"
  shows "log_ok tenant (own_requests tenant (fst s')) \<and> set (own_requests tenant (fst s)) \<subseteq> set (own_requests tenant (fst s'))"
  using assms(1)
proof (induction rule: rtranclp_induct)
  case base
  then show ?case using assms(2) by simp
next
  case (step s1 s2)
  then show ?case using step_log[of E tenant s1 s2] by blast
qed

text \<open>A stamp that is a UUID in its standard form is left as it is when it is normalized again.\<close>

lemma admin_actor_uuid:
  assumes "parse_uuid i = Some n"
  shows "admin_actor i = format_uuid n" "admin_actor (admin_actor i) = admin_actor i"
proof -
  show i: "admin_actor i = format_uuid n" using assms by (simp add: admin_actor_def)
  have "parse_uuid (format_uuid n) = Some (n mod 16 ^ 32)" by (rule parse_format_uuid)
  then have "parse_uuid (admin_actor i) = Some n" using parse_uuid_bound[OF assms] i by (simp only:)
  then show "admin_actor (admin_actor i) = admin_actor i"
    unfolding admin_actor_def[of "admin_actor i"] using i by simp
qed

lemma own_approval_refused:
  assumes "r \<in> set (ent_requests db)" "eq_tenant r = tenant" "admin_actor (eq_requested_by r) = who"
  shows "\<exists>e. approve_entitlement_change E tenant who (eq_id r) t db = Inl e"
proof (cases "approve_entitlement_change E tenant who (eq_id r) t db")
  case (Inr x)
  obtain db' res where x: "approve_entitlement_change E tenant who (eq_id r) t db = Inr (db', res)"
    using Inr by (cases x) auto
  then show ?thesis
  proof (cases rule: approve_cases)
    case (1 req db1)
    have "r \<in> set (filter (\<lambda>x. eq_id x = eq_id r \<and> eq_tenant x = tenant) (ent_requests db))" using assms(1,2) by simp
    moreover have "filter (\<lambda>x. eq_id x = eq_id r \<and> eq_tenant x = tenant) (ent_requests db) = [req]"
      using 1(1) by (auto simp: find_request_def split: list.splits)
    ultimately have "r \<in> set [req]" by metis
    then have "req = r" by simp
    then show ?thesis using 1(4) assms(3) by simp
  qed
qed simp

lemma numbered_log:
  assumes "log_ok tenant (own_requests tenant db)"
  shows "map eq_seq (own_requests tenant db) = map int [1..<Suc (length (own_requests tenant db))]"
proof -
  have "requests.of_key tenant (own_requests tenant db) = own_requests tenant db"
    using assms by (auto simp: requests.of_key_def own_requests_def)
  moreover have "requests.numbered (own_requests tenant db)" using assms by (simp add: log_ok_def)
  ultimately show ?thesis unfolding requests.numbered_def by metis
qed

lemma no_own_approval:
  assumes ok: "log_ok tenant (own_requests tenant db)"
    and r: "request_entitlement_change E tenant (admin_actor i) act target role reason t1 db = Inr (db1, p)"
    and t: "utc_of now \<le> utc_of t1" and run: "(admin_step E tenant)\<^sup>*\<^sup>* (db1, t1) (db2, t2)"
    and u: "parse_uuid i = Some n" "parse_uuid j = Some n"
  shows "\<not> isOk (approve_entitlement_change E tenant (admin_actor j) (eq_id p) t3 db2)"
proof -
  have "admin_step E tenant (db, now) (db1, t1)" by (rule admin_step.request[OF t r])
  then have ok1: "log_ok tenant (own_requests tenant db1)" using step_log[of E tenant "(db, now)" "(db1, t1)"] ok by simp
  have later: "set (own_requests tenant db1) \<subseteq> set (own_requests tenant db2)" using steps_log[OF run] ok1 by simp
  have p: "p \<in> set (own_requests tenant db1) \<and> eq_requested_by p = admin_actor i \<and> eq_tenant p = tenant"
    using r
  proof (cases rule: request_cases)
    case (1 db2')
    have rows: "ent_requests db1 = ent_requests db @ [p]"
      using 1(3,4) apply_change_frame(2) by (fastforce simp: row_simps)
    have "eq_tenant p = tenant" "eq_requested_by p = admin_actor i" by (simp_all add: 1(1) request_row_def Let_def)
    then show ?thesis by (simp_all add: own_append[OF rows])
  qed
  have "p \<in> set (ent_requests db2)" using p later by (auto simp: own_requests_def)
  moreover have "admin_actor (eq_requested_by p) = admin_actor j"
    using admin_actor_uuid[OF u(1)] admin_actor_uuid(1)[OF u(2)] p by simp
  ultimately have "\<exists>e. approve_entitlement_change E tenant (admin_actor j) (eq_id p) t3 db2 = Inl e"
    using own_approval_refused p by blast
  then show ?thesis by auto
qed

text \<open>
  C13. The approval log tells the truth. In every history of a tenant that starts without requests its requests are
  numbered 1, 2, 3, ...; every APPROVED row answers an earlier PENDING row for the same act, its approver's stamp differs
  from the normalized stamp of the requester, and no request is ever approved twice. And nobody who is
  identified by a UUID approves his own request: once a request is filed by a call presenting the
  id \<open>i\<close>, every later approval of it that presents any spelling \<open>j\<close> of the same UUID is refused, whatever
  happens in between. (Both ids must be ones \<open>uuid.UUID\<close> parses. A braced UUID padded with a blank
  is not one: its stamp is normalized differently the second time, and the call presenting it can
  approve what it requested itself.)
\<close>

theorem approvals_are_single_and_by_another_person:
  assumes "own_requests tenant db0 = []" "(admin_step E tenant)\<^sup>*\<^sup>* (db0, t0) (db, now)"
  shows "map eq_seq (own_requests tenant db) = map int [1..<Suc (length (own_requests tenant db))] \<and>
    list_all (\<lambda>r. eq_status r \<in> {''PENDING'', ''DIRECT''} \<or> eq_status r = ''APPROVED'' \<and>
      (\<exists>p\<in>set (own_requests tenant db). eq_resolves r = Some (eq_id p) \<and> eq_status p = ''PENDING'' \<and> eq_seq p < eq_seq r \<and>
         eq_action r = eq_action p \<and> eq_target_user r = eq_target_user p \<and> eq_target_role r = eq_target_role p \<and>
         (\<exists>w. eq_resolved_by r = Some w \<and> w \<noteq> admin_actor (eq_requested_by p)))) (own_requests tenant db) \<and>
    distinct (map eq_resolves (filter (\<lambda>r. eq_status r = ''APPROVED'') (own_requests tenant db))) \<and>
    (\<forall>i j n act target role reason t1 db1 p t2 db2 t3.
      request_entitlement_change E tenant (admin_actor i) act target role reason t1 db = Inr (db1, p) \<longrightarrow>
      utc_of now \<le> utc_of t1 \<longrightarrow> (admin_step E tenant)\<^sup>*\<^sup>* (db1, t1) (db2, t2) \<longrightarrow>
      parse_uuid i = Some n \<longrightarrow> parse_uuid j = Some n \<longrightarrow>
      \<not> isOk (approve_entitlement_change E tenant (admin_actor j) (eq_id p) t3 db2))"
proof -
  have "log_ok tenant (own_requests tenant db0)" by (simp add: assms(1) log_ok_def requests.numbered_Nil)
  then have ok: "log_ok tenant (own_requests tenant db)" using steps_log[OF assms(2)] by simp
  note self = no_own_approval[OF ok, where now = now]
  show ?thesis
    using numbered_log[OF ok] ok unfolding log_ok_def request_ok_def approved_by_another_def list_all_iff
    by (intro conjI allI impI) (auto dest: self)
qed

section \<open>A sample history\<close>

definition sample_user :: "string \<Rightarrow> app_user" where
  "sample_user i = \<lparr>user_id = i, user_tenant = ''T'', user_subject = Some i, user_name = i, user_active = True\<rparr>"

definition sample_grant :: "string \<Rightarrow> user_role" where
  "sample_grant i = \<lparr>ur_id = i, ur_tenant = ''T'', ur_user = i, ur_role = ''R'', ur_from = Aware 0 0, ur_to = None\<rparr>"

definition adm0 :: admin_db where
  "adm0 = \<lparr>audit_events = [], audit_checkpoints = [], app_users = [sample_user ''1'', sample_user ''2'', sample_user ''3''],
     roles = [\<lparr>rl_id = ''R'', rl_tenant = ''T'', rl_code = ''tenant_admin'', rl_name = ''N''\<rparr>],
     permissions = [], role_permissions = [], revocations = None,
     user_roles = [sample_grant ''1'', sample_grant ''2''], ent_requests = []\<rparr>"

definition adm_req :: ent_request where
  "adm_req = request_row sample_env adm0 ''T'' ''1'' ''GRANT_ROLE'' ''3'' (Some ''R'') None (Aware 5 0)"

definition adm1 :: admin_db where
  "adm1 = log_event sample_env (request_event adm_req) None (adm0\<lparr>ent_requests := [adm_req]\<rparr>)"

definition adm_res :: ent_request where
  "adm_res = adm_req\<lparr>eq_id := uuid sample_env ''entitlement_request'' 1, eq_seq := 2, eq_status := ''APPROVED'',
     eq_resolved_by := Some ''2'', eq_resolved_at := Some (Aware 6 0), eq_resolves := Some (eq_id adm_req)\<rparr>"

lemma adm0_sel: "app_users adm0 = [sample_user ''1'', sample_user ''2'', sample_user ''3'']"
    "user_roles adm0 = [sample_grant ''1'', sample_grant ''2'']" "ent_requests adm0 = []"
    "roles adm0 = [\<lparr>rl_id = ''R'', rl_tenant = ''T'', rl_code = ''tenant_admin'', rl_name = ''N''\<rparr>]"
  by (simp_all add: adm0_def)

lemma adm0_admins: "valid_admin_user_ids adm0 ''T'' (Aware 5 0) = {''1'', ''2''}"
  by (simp add: valid_admin_user_ids_def admin_role_id_def adm0_sel sample_grant_def sample_user_def in_force_def
      one_or_none_def)

lemma adm_req_sel: "eq_status adm_req = ''PENDING''" "eq_tenant adm_req = ''T''" "eq_seq adm_req = 1"
    "eq_action adm_req = ''GRANT_ROLE''" "eq_target_user adm_req = ''3''" "eq_target_role adm_req = Some ''R''"
    "eq_requested_by adm_req = ''1''" "eq_resolves adm_req = None"
  by (simp_all add: adm_req_def request_row_def Let_def born_pending_def four_eyes_required_def adm0_admins
      next_request_seq_def max_key_def adm0_sel insert_Diff_if)

lemma actors: "admin_actor ''1'' = ''1''" "admin_actor ''2'' = ''2''"
  by code_simp+

lemma adm_request: "request_entitlement_change sample_env ''T'' (admin_actor ''1'') ''GRANT_ROLE'' ''3'' (Some ''R'') None (Aware 5 0) adm0
    = Inr (adm1, adm_req)"
proof -
  have "validate_target adm0 ''T'' ''GRANT_ROLE'' ''3'' (Some ''R'') = Inr ()"
    by (simp add: validate_target_def request_actions_def adm0_sel sample_user_def one_or_none_def truthy_def)
  then show ?thesis
    by (simp add: request_entitlement_change_def actors Let_def adm_req_def[symmetric] adm_req_sel adm1_def adm0_sel)
qed

lemma adm1_sel: "ent_requests adm1 = [adm_req]" "user_roles adm1 = [sample_grant ''1'', sample_grant ''2'']"
  by (simp_all add: adm1_def row_simps adm0_sel)

lemma adm_approve: "\<exists>db'. approve_entitlement_change sample_env ''T'' (admin_actor ''2'') (eq_id adm_req) (Aware 6 0) adm1 = Inr (db', adm_res) \<and>
    ent_requests db' = [adm_req, adm_res]"
proof -
  have f: "find_request adm1 ''T'' (eq_id adm_req) = Inr adm_req" by (simp add: find_request_def adm1_sel adm_req_sel)
  have a: "apply_change sample_env adm_req ''T'' (Aware 6 0) adm1 = Inr (adm1\<lparr>user_roles := user_roles adm1 @
      [granted_row sample_env adm_req ''T'' (Aware 6 0) 2]\<rparr>)"
    by (simp add: apply_change_def adm_req_sel apply_grant_def grants_of_def adm1_sel sample_grant_def numeral_2_eq_2)
  have r: "resolution_row sample_env (adm1\<lparr>user_roles := x\<rparr>) adm_req ''2'' (Aware 6 0) = adm_res" for x
    by (simp add: resolution_row_def adm_res_def adm1_sel adm_req_sel next_request_seq_def max_key_def)
  show ?thesis
    by (simp add: approve_entitlement_change_def f adm_req_sel adm1_sel actors a Let_def r row_simps)
qed

lemma adm_manned0: "manned adm0 ''T'' (Aware 1 0)"
  by (rule mannedI[of _ _ "''R''" _ "sample_grant ''1''" "sample_user ''1''"])
     (auto simp: adm0_sel sample_grant_def sample_user_def admin_role_id_def one_or_none_def home_def user_keys_def)

lemma adm_book0: "book_ok adm0"
  by (simp add: book_ok_def user_keys_def adm0_sel sample_user_def)

lemma adm_run1: "(admin_step sample_env ''T'')\<^sup>*\<^sup>* (adm0, Aware 1 0) (adm1, Aware 5 0)"
  by (rule r_into_rtranclp, rule admin_step.request[OF _ adm_request]) simp

theorem tenant_keeps_an_administrator_witness: "valid_admin_user_ids adm1 ''T'' (Aware 5 0) \<noteq> {}"
  by (rule tenant_keeps_an_administrator[OF adm_book0 adm_manned0 adm_run1])

lemma request_waits_for_second_administrator_witness: "user_roles adm1 = user_roles adm0"
  using request_waits_for_second_administrator[OF adm_request] by (simp add: adm_req_sel)

text \<open>The same request by a user with a UUID, who then tries to approve it under another spelling.\<close>

lemma adm_request_uuid:
  "\<exists>db1 r. request_entitlement_change sample_env ''T'' (admin_actor ''{0000000000000000000000000000000A}'') ''GRANT_ROLE''
     ''3'' (Some ''R'') None (Aware 5 0) adm0 = Inr (db1, r) \<and> eq_status r = ''PENDING''"
proof -
  have "validate_target adm0 ''T'' ''GRANT_ROLE'' ''3'' (Some ''R'') = Inr ()"
    by (simp add: validate_target_def request_actions_def adm0_sel sample_user_def one_or_none_def truthy_def)
  moreover have "four_eyes_required adm0 ''T'' who (Aware 5 0)" for who
    by (auto simp: four_eyes_required_def adm0_admins)
  ultimately show ?thesis
    by (simp add: request_entitlement_change_def Let_def request_row_def born_pending_def)
qed

theorem approvals_are_single_and_by_another_person_witness:
  "\<exists>db1 r e. request_entitlement_change sample_env ''T'' (admin_actor ''{0000000000000000000000000000000A}'') ''GRANT_ROLE''
     ''3'' (Some ''R'') None (Aware 5 0) adm0 = Inr (db1, r) \<and> eq_status r = ''PENDING'' \<and>
     approve_entitlement_change sample_env ''T'' (admin_actor ''00000000-0000-0000-0000-00000000000a'') (eq_id r)
       (Aware 6 0) db1 = Inl e"
proof -
  have u: "parse_uuid ''{0000000000000000000000000000000A}'' = Some 10"
    "parse_uuid ''00000000-0000-0000-0000-00000000000a'' = Some 10" by code_simp+
  obtain db1 r where r: "request_entitlement_change sample_env ''T'' (admin_actor ''{0000000000000000000000000000000A}'')
      ''GRANT_ROLE'' ''3'' (Some ''R'') None (Aware 5 0) adm0 = Inr (db1, r)" "eq_status r = ''PENDING''"
    using adm_request_uuid by blast
  have "own_requests ''T'' adm0 = []" by (simp add: own_requests_def adm0_sel)
  note facts = approvals_are_single_and_by_another_person[OF this rtranclp.rtrancl_refl, of sample_env "Aware 5 0"]
  have "\<not> isOk (approve_entitlement_change sample_env ''T'' (admin_actor ''00000000-0000-0000-0000-00000000000a'') (eq_id r)
       (Aware 6 0) db1)" using facts r(1) u rtranclp.rtrancl_refl order_refl by blast
  then obtain e where "approve_entitlement_change sample_env ''T'' (admin_actor ''00000000-0000-0000-0000-00000000000a'') (eq_id r)
       (Aware 6 0) db1 = Inl e" by (cases "approve_entitlement_change sample_env ''T'' (admin_actor ''00000000-0000-0000-0000-00000000000a'')
         (eq_id r) (Aware 6 0) db1") auto
  then show ?thesis using r by blast
qed

end
