(* ===== verification/Catalog_Sync.thy ===== *)
theory Catalog_Sync
  imports Entitlement Classification_Tree
begin

text \<open>
  The catalog sync (\<open>entitlement/sync.py\<close>): insert every catalog row that is absent, except the
  grants the revocation ledger records. Ids are \<open>uuid5\<close> of a name (\<open>entitlement/bootstrap.py\<close>);
  \<open>N\<close> is that function of the name alone.
\<close>

section \<open>Deterministic ids\<close>

definition permission_id :: "(string \<Rightarrow> string) \<Rightarrow> string \<Rightarrow> string" where
  "permission_id N code = N (''permission:'' @ code)"

definition role_id :: "(string \<Rightarrow> string) \<Rightarrow> string \<Rightarrow> string" where
  "role_id N name = N (''role:'' @ system_tenant @ '':'' @ name)"

definition role_permission_id :: "(string \<Rightarrow> string) \<Rightarrow> string \<Rightarrow> string \<Rightarrow> string" where
  "role_permission_id N role code = N (''role_permission:'' @ role @ '':'' @ code)"

section \<open>The sync\<close>

text \<open>A Python dict: a key keeps the place of its first insertion and its last value.\<close>

fun dict_put :: "'k \<Rightarrow> 'v \<Rightarrow> ('k \<times> 'v) list \<Rightarrow> ('k \<times> 'v) list" where
  "dict_put k v [] = [(k, v)]"
| "dict_put k v ((k', v') # d) = (if k = k' then (k, v) # d else (k', v') # dict_put k v d)"

definition dict_of :: "('k \<times> 'v) list \<Rightarrow> ('k \<times> 'v) list" where
  "dict_of kvs = foldl (\<lambda>d (k, v). dict_put k v d) [] kvs"

text \<open>\<open>str.title\<close>: a cased letter is upper-case after a character that is none.\<close>

definition is_letter :: "char \<Rightarrow> bool" where
  "is_letter c = (let n = (of_char c :: nat) in (65 \<le> n \<and> n \<le> 90) \<or> (97 \<le> n \<and> n \<le> 122))"

definition upper_char :: "char \<Rightarrow> char" where
  "upper_char c = (let n = (of_char c :: nat) in if 97 \<le> n \<and> n \<le> 122 then char_of (n - 32) else c)"

fun title_case :: "bool \<Rightarrow> string \<Rightarrow> string" where
  "title_case prev [] = []"
| "title_case prev (c # cs) = (if prev then lower_char c else upper_char c) # title_case (is_letter c) cs"

definition role_title :: "string \<Rightarrow> string" where
  "role_title name = title_case False (map (\<lambda>c. if c = CHR ''_'' then CHR '' '' else c) name)"

datatype sync_message = LedgerAbsent | NotRestoring string string

record sync_report =
  sr_permissions_inserted :: nat
  sr_roles_inserted :: nat
  sr_grants_inserted :: nat
  sr_grants_skipped_revoked :: "(string \<times> string) list"
  sr_ledger_present :: bool
  sr_messages :: "sync_message list"

definition template_pairs :: "(string \<times> string) list" where
  "template_pairs = concat (map (\<lambda>(name, codes). map (Pair name) codes) role_templates)"

definition revoked_grant_ids :: "(string \<Rightarrow> string) \<Rightarrow> 'a ent_db_scheme \<Rightarrow> string set \<times> bool" where
  "revoked_grant_ids N db =
     (case revocations db of
        None \<Rightarrow> ({}, False)
      | Some rows \<Rightarrow>
        (let pairs = set (map (\<lambda>v. (rv_role v, rv_permission v)) rows)
         in (set (map (\<lambda>(name, code). role_permission_id N name code)
               (filter (\<lambda>(name, code). (role_id N name, permission_id N code) \<in> pairs) template_pairs)), True)))"

definition existing_ids :: "('r \<Rightarrow> string) \<Rightarrow> 'r list \<Rightarrow> string list \<Rightarrow> string set" where
  "existing_ids id_of rows ids = set (filter (\<lambda>i. i \<in> set ids) (map id_of rows))"

text \<open>The unique constraints the three tables carry; an insert that breaks one is refused.\<close>

definition catalog_unique :: "'a ent_db_scheme \<Rightarrow> bool" where
  "catalog_unique db \<longleftrightarrow> distinct (map pm_id (permissions db)) \<and> distinct (map pm_code (permissions db)) \<and>
     distinct (map rl_id (roles db)) \<and> distinct (map (\<lambda>r. (rl_tenant r, rl_code r)) (roles db)) \<and>
     distinct (map rp_id (role_permissions db)) \<and>
     distinct (map (\<lambda>r. (rp_role r, rp_permission r)) (role_permissions db))"

definition missing_permissions :: "(string \<Rightarrow> string) \<Rightarrow> 'a ent_db_scheme \<Rightarrow> permission_row list" where
  "missing_permissions N db =
     (let want = dict_of (map (\<lambda>(code, desc). (permission_id N code, (code, desc))) permission_catalog);
          have = existing_ids pm_id (permissions db) (map fst want)
      in [\<lparr>pm_id = pid, pm_code = code, pm_description = desc\<rparr>. (pid, (code, desc)) \<leftarrow> want, pid \<notin> have])"

definition missing_roles :: "(string \<Rightarrow> string) \<Rightarrow> 'a ent_db_scheme \<Rightarrow> role_row list" where
  "missing_roles N db =
     (let want = dict_of (map (\<lambda>(name, _). (role_id N name, name)) role_templates);
          have = existing_ids rl_id (roles db) (map fst want)
      in [\<lparr>rl_id = rid, rl_tenant = system_tenant, rl_code = name, rl_name = role_title name\<rparr>.
            (rid, name) \<leftarrow> want, rid \<notin> have])"

definition want_grants :: "(string \<Rightarrow> string) \<Rightarrow> (string \<times> (string \<times> string)) list" where
  "want_grants N = dict_of (map (\<lambda>(name, code). (role_permission_id N name code, (name, code))) template_pairs)"

definition missing_grants :: "(string \<Rightarrow> string) \<Rightarrow> 'a ent_db_scheme \<Rightarrow> role_permission list" where
  "missing_grants N db =
     (let have = existing_ids rp_id (role_permissions db) (map fst (want_grants N))
      in [\<lparr>rp_id = gid, rp_role = role_id N name, rp_permission = permission_id N code\<rparr>.
            (gid, (name, code)) \<leftarrow> want_grants N, gid \<notin> have \<and> gid \<notin> fst (revoked_grant_ids N db)])"

definition skipped_grants :: "(string \<Rightarrow> string) \<Rightarrow> 'a ent_db_scheme \<Rightarrow> (string \<times> string) list" where
  "skipped_grants N db =
     (let have = existing_ids rp_id (role_permissions db) (map fst (want_grants N))
      in sort_key fst (sort_key snd
           [(name, code). (gid, (name, code)) \<leftarrow> want_grants N, gid \<notin> have \<and> gid \<in> fst (revoked_grant_ids N db)]))"

definition sync_catalog :: "(string \<Rightarrow> string) \<Rightarrow> 'a ent_db_scheme \<Rightarrow> ent_error + ('a ent_db_scheme \<times> sync_report)" where
  "sync_catalog N db =
     (let ps = missing_permissions N db; rs = missing_roles N db; gs = missing_grants N db;
          skipped = skipped_grants N db; ledger = snd (revoked_grant_ids N db);
          db' = db\<lparr>permissions := permissions db @ ps, roles := roles db @ rs,
                   role_permissions := role_permissions db @ gs\<rparr>
      in if \<not> catalog_unique db' then Inl EntIntegrityError
         else Inr (db', \<lparr>sr_permissions_inserted = length ps, sr_roles_inserted = length rs,
                sr_grants_inserted = length gs, sr_grants_skipped_revoked = skipped, sr_ledger_present = ledger,
                sr_messages = (if ledger then [] else [LedgerAbsent]) @
                              map (\<lambda>(name, code). NotRestoring name code) skipped\<rparr>))"

section \<open>What a sync leaves\<close>

lemma set_dict_put: "fst ` set (dict_put k v d) = insert k (fst ` set d)"
  by (induction d rule: dict_put.induct) auto

lemma fold_dict_ids: "fst ` set (foldl (\<lambda>d (k, v). dict_put k v d) d kvs) = fst ` set d \<union> fst ` set kvs"
proof (induction kvs arbitrary: d)
  case (Cons x kvs)
  show ?case by (cases x) (simp add: Cons.IH set_dict_put)
qed simp

lemma set_dict_of: "fst ` set (dict_of kvs) = fst ` set kvs"
  by (simp add: dict_of_def fold_dict_ids)

lemma dict_put_in: "x \<in> set (dict_put k v d) \<Longrightarrow> x = (k, v) \<or> x \<in> set d"
  by (induction d rule: dict_put.induct) (auto split: if_splits)

lemma fold_dict_in: "x \<in> set (foldl (\<lambda>d (k, v). dict_put k v d) d kvs) \<Longrightarrow> x \<in> set d \<or> x \<in> set kvs"
  by (induction kvs arbitrary: d) (auto dest: dict_put_in)

lemma dict_of_in: "x \<in> set (dict_of kvs) \<Longrightarrow> x \<in> set kvs"
  using fold_dict_in[of x "[]" kvs] by (simp add: dict_of_def)

lemma existing_ids_iff: "i \<in> existing_ids f rows ids \<longleftrightarrow> i \<in> set ids \<and> i \<in> f ` set rows"
  by (auto simp: existing_ids_def)

lemma want_grants_ids: "fst ` set (want_grants N) = (\<lambda>(n, c). role_permission_id N n c) ` set template_pairs"
  unfolding want_grants_def set_dict_of by force

lemma missing_grants_ids:
  "rp_id ` set (missing_grants N db) =
     {g \<in> fst ` set (want_grants N). g \<notin> rp_id ` set (role_permissions db) \<and> g \<notin> fst (revoked_grant_ids N db)}"
  unfolding missing_grants_def Let_def by (auto simp: existing_ids_iff split: if_splits) force+

lemma missing_permissions_ids:
  "pm_id ` set (missing_permissions N db) =
     {g \<in> (\<lambda>(c, d). permission_id N c) ` set permission_catalog. g \<notin> pm_id ` set (permissions db)}"
proof -
  let ?want = "dict_of (map (\<lambda>(code, desc). (permission_id N code, (code, desc))) permission_catalog)"
  have ids: "fst ` set ?want = (\<lambda>(c, d). permission_id N c) ` set permission_catalog"
    unfolding set_dict_of by force
  have "pm_id ` set (missing_permissions N db) = {g \<in> fst ` set ?want. g \<notin> pm_id ` set (permissions db)}"
    unfolding missing_permissions_def Let_def by (auto simp: existing_ids_iff split: if_splits) force+
  then show ?thesis by (simp only: ids)
qed

lemma missing_roles_ids:
  "rl_id ` set (missing_roles N db) =
     {g \<in> (\<lambda>(n, c). role_id N n) ` set role_templates. g \<notin> rl_id ` set (roles db)}"
proof -
  let ?want = "dict_of (map (\<lambda>(name, _). (role_id N name, name)) role_templates)"
  have ids: "fst ` set ?want = (\<lambda>(n, c). role_id N n) ` set role_templates"
    unfolding set_dict_of by force
  have "rl_id ` set (missing_roles N db) = {g \<in> fst ` set ?want. g \<notin> rl_id ` set (roles db)}"
    unfolding missing_roles_def Let_def by (auto simp: existing_ids_iff split: if_splits) force+
  then show ?thesis by (simp only: ids)
qed

lemma image_eq_NilI: "f ` set xs = {} \<Longrightarrow> xs = []"
  by simp

text \<open>The name of a grant id determines the pair: no role name has a colon.\<close>

lemma append_colon_eq:
  assumes "CHR '':'' \<notin> set a" "CHR '':'' \<notin> set b" "a @ CHR '':'' # x = b @ CHR '':'' # y"
  shows "a = b \<and> x = y"
proof -
  have "takeWhile (\<lambda>c. c \<noteq> CHR '':'') (a @ CHR '':'' # x) = a" "takeWhile (\<lambda>c. c \<noteq> CHR '':'') (b @ CHR '':'' # y) = b"
    using assms(1,2) by (subst takeWhile_append2; auto)+
  then show ?thesis using assms(3) by auto
qed

lemma role_names_no_colon: "list_all (\<lambda>n. CHR '':'' \<notin> set n) (map fst role_templates)"
  by (simp add: role_templates_def)

lemma template_pair_role: "(n, c) \<in> set template_pairs \<Longrightarrow> CHR '':'' \<notin> set n"
  using role_names_no_colon by (auto simp: template_pairs_def list_all_iff)

lemma grant_id_inj:
  assumes "inj N" "(n, c) \<in> set template_pairs" "(n', c') \<in> set template_pairs"
    "role_permission_id N n c = role_permission_id N n' c'"
  shows "n = n' \<and> c = c'"
  using assms template_pair_role[OF assms(2)] template_pair_role[OF assms(3)] append_colon_eq[of n n' c c']
  by (auto simp: role_permission_id_def dest: injD)

lemma revoked_grant_iff:
  assumes "inj N" "(n, c) \<in> set template_pairs" "revocations db = Some rows"
  shows "role_permission_id N n c \<in> fst (revoked_grant_ids N db) \<longleftrightarrow>
    (\<exists>v\<in>set rows. rv_role v = role_id N n \<and> rv_permission v = permission_id N c)"
proof
  assume "role_permission_id N n c \<in> fst (revoked_grant_ids N db)"
  then obtain n' c' v where "(n', c') \<in> set template_pairs" "role_permission_id N n c = role_permission_id N n' c'"
    "v \<in> set rows" "rv_role v = role_id N n'" "rv_permission v = permission_id N c'"
    by (auto simp: revoked_grant_ids_def Let_def assms(3))
  then show "\<exists>v\<in>set rows. rv_role v = role_id N n \<and> rv_permission v = permission_id N c"
    using grant_id_inj[OF assms(1,2)] by blast
next
  assume "\<exists>v\<in>set rows. rv_role v = role_id N n \<and> rv_permission v = permission_id N c"
  then have "(role_id N n, permission_id N c) \<in> (\<lambda>v. (rv_role v, rv_permission v)) ` set rows" by force
  then show "role_permission_id N n c \<in> fst (revoked_grant_ids N db)"
    using assms(2,3) by (auto simp: revoked_grant_ids_def Let_def intro!: image_eqI[of _ _ "(n, c)"])
qed

text \<open>
  C15. The sync delivers every template grant that was not revoked and resurrects none that was:
  after a sync a template grant is there exactly when it already was or the ledger has no
  revocation of it. No row is changed or removed, and a second sync inserts nothing.
\<close>

theorem sync_delivers_and_never_resurrects:
  assumes "sync_catalog N db = Inr (db', report)" "inj N" "revocations db = Some ledger"
    "(role, code) \<in> set template_pairs"
  shows "(role_permission_id N role code \<in> rp_id ` set (role_permissions db') \<longleftrightarrow>
      role_permission_id N role code \<in> rp_id ` set (role_permissions db) \<or>
      \<not> (\<exists>v\<in>set ledger. rv_role v = role_id N role \<and> rv_permission v = permission_id N code)) \<and>
    (\<exists>ps rs gs. permissions db' = permissions db @ ps \<and> roles db' = roles db @ rs \<and>
       role_permissions db' = role_permissions db @ gs \<and> user_roles db' = user_roles db) \<and>
    (\<exists>again. sync_catalog N db' = Inr (db', again) \<and> sr_permissions_inserted again = 0 \<and>
       sr_roles_inserted again = 0 \<and> sr_grants_inserted again = 0)"
proof -
  have db': "db' = db\<lparr>permissions := permissions db @ missing_permissions N db, roles := roles db @ missing_roles N db,
                   role_permissions := role_permissions db @ missing_grants N db\<rparr>"
    and uniq: "catalog_unique db'"
    using assms(1) by (auto simp: sync_catalog_def Let_def split: if_splits)
  have sel: "permissions db' = permissions db @ missing_permissions N db" "roles db' = roles db @ missing_roles N db"
    "role_permissions db' = role_permissions db @ missing_grants N db" "revocations db' = revocations db"
    "user_roles db' = user_roles db"
    by (simp_all add: db')
  have rev: "revoked_grant_ids N db' = revoked_grant_ids N db" by (simp add: revoked_grant_ids_def sel)
  have "role_permission_id N role code \<in> fst ` set (want_grants N)"
    unfolding want_grants_ids using assms(4) by force
  then have grant: "role_permission_id N role code \<in> rp_id ` set (role_permissions db') \<longleftrightarrow>
      role_permission_id N role code \<in> rp_id ` set (role_permissions db) \<or>
      \<not> (\<exists>v\<in>set ledger. rv_role v = role_id N role \<and> rv_permission v = permission_id N code)"
    using missing_grants_ids[of N db] revoked_grant_iff[OF assms(2,4,3)] by (auto simp: sel image_Un)
  have "missing_permissions N db' = []"
    by (rule image_eq_NilI[of pm_id]) (auto simp: missing_permissions_ids[of N db'] sel missing_permissions_ids image_Un)
  moreover have "missing_roles N db' = []"
    by (rule image_eq_NilI[of rl_id]) (auto simp: missing_roles_ids[of N db'] sel missing_roles_ids image_Un)
  moreover have "missing_grants N db' = []"
    by (rule image_eq_NilI[of rp_id]) (auto simp: missing_grants_ids[of N db'] sel missing_grants_ids rev image_Un)
  ultimately have "\<exists>again. sync_catalog N db' = Inr (db', again) \<and> sr_permissions_inserted again = 0 \<and>
       sr_roles_inserted again = 0 \<and> sr_grants_inserted again = 0"
    using uniq by (simp add: sync_catalog_def Let_def)
  then show ?thesis using grant sel by blast
qed

section \<open>Separation of duties in the catalog\<close>

text \<open>The maker and checker codes the catalog keeps in different hands.\<close>

definition sod_pairs :: "(string \<times> string) list" where
  "sod_pairs = [(''model.inventory.register'', ''model.validate''), (''breach.respond'', ''breach.review''),
     (''ingest.mapping.propose'', ''ingest.mapping.ratify''), (''risk.run'', ''limit.manage''),
     (''risk.run'', ''model.validate'')]"

text \<open>
  The templates keep the lines of defence apart: no template a customer tenant receives holds
  both codes of a maker-checker pair, and the one template with both sides, \<open>platform_admin\<close>, is not
  among the cloned ones.
\<close>

lemma cloned_templates_separate_duties:
  "list_all (\<lambda>name. name \<noteq> ''platform_admin'' \<and>
     (case map_of role_templates name of None \<Rightarrow> False
      | Some codes \<Rightarrow> list_all (\<lambda>(maker, checker). \<not> (maker \<in> set codes \<and> checker \<in> set codes)) sod_pairs))
   cloned_templates"
  by code_simp

section \<open>A sample sync\<close>

lemma distinct_dict_put: "distinct (map fst d) \<Longrightarrow> distinct (map fst (dict_put k v d))"
proof (induction d rule: dict_put.induct)
  case (2 k v k' v' d)
  then show ?case using set_dict_put[of k v d] by auto
qed simp

lemma distinct_dict_of: "distinct (map fst (dict_of kvs))"
proof -
  have "distinct (map fst d) \<Longrightarrow> distinct (map fst (foldl (\<lambda>d (k, v). dict_put k v d) d kvs))" for d
    by (induction kvs arbitrary: d) (auto simp: distinct_dict_put split: prod.splits)
  then show ?thesis by (simp add: dict_of_def)
qed

lemma distinct_by_key:
  assumes "distinct (map fst d)" "\<And>x y. x \<in> set d \<Longrightarrow> y \<in> set d \<Longrightarrow> h x = h y \<Longrightarrow> fst x = fst y"
  shows "distinct (map h (filter P d))"
proof -
  have "inj_on fst (set d)" "distinct d" using assms(1) by (simp_all add: distinct_map)
  have "inj_on h (set (filter P d))"
  proof (rule inj_onI)
    fix x y assume *: "x \<in> set (filter P d)" "y \<in> set (filter P d)" "h x = h y"
    then have "fst x = fst y" using assms(2)[of x y] by simp
    then show "x = y" using * inj_onD[OF \<open>inj_on fst (set d)\<close>, of x y] by simp
  qed
  then show ?thesis using \<open>distinct d\<close> by (simp add: distinct_map)
qed

lemma concat_filter_map: "concat (map (\<lambda>x. if P x then [f x] else []) xs) = map f (filter P xs)"
  by (induction xs) auto

lemma missing_grants_eq:
  "missing_grants N db = map (\<lambda>(gid, (name, code)). \<lparr>rp_id = gid, rp_role = role_id N name, rp_permission = permission_id N code\<rparr>)
     (filter (\<lambda>(gid, _). gid \<notin> existing_ids rp_id (role_permissions db) (map fst (want_grants N)) \<and>
        gid \<notin> fst (revoked_grant_ids N db)) (want_grants N))"
  unfolding missing_grants_def Let_def concat_filter_map[symmetric] by (intro arg_cong[of _ _ concat] map_cong refl) (simp split: prod.splits)

lemma missing_permissions_eq:
  "missing_permissions N db = map (\<lambda>(pid, (code, desc)). \<lparr>pm_id = pid, pm_code = code, pm_description = desc\<rparr>)
     (filter (\<lambda>(pid, _). pid \<notin> existing_ids pm_id (permissions db)
          (map fst (dict_of (map (\<lambda>(code, desc). (permission_id N code, (code, desc))) permission_catalog))))
        (dict_of (map (\<lambda>(code, desc). (permission_id N code, (code, desc))) permission_catalog)))"
  unfolding missing_permissions_def Let_def concat_filter_map[symmetric] by (intro arg_cong[of _ _ concat] map_cong refl) (simp split: prod.splits)

lemma missing_roles_eq:
  "missing_roles N db = map (\<lambda>(rid, name). \<lparr>rl_id = rid, rl_tenant = system_tenant, rl_code = name, rl_name = role_title name\<rparr>)
     (filter (\<lambda>(rid, _). rid \<notin> existing_ids rl_id (roles db)
          (map fst (dict_of (map (\<lambda>(name, _). (role_id N name, name)) role_templates))))
        (dict_of (map (\<lambda>(name, _). (role_id N name, name)) role_templates)))"
  unfolding missing_roles_def Let_def concat_filter_map[symmetric] by (intro arg_cong[of _ _ concat] map_cong refl) (simp split: prod.splits)

text \<open>On an empty database the sync always succeeds: the seeded rows break no constraint.\<close>

lemma sync_on_empty:
  assumes "inj N" "permissions db = []" "roles db = []" "role_permissions db = []"
  shows "isOk (sync_catalog N db)"
proof -
  let ?wp = "dict_of (map (\<lambda>(code, desc). (permission_id N code, (code, desc))) permission_catalog)"
  let ?wr = "dict_of (map (\<lambda>(name, _). (role_id N name, name)) role_templates)"
  have wp: "x \<in> set ?wp \<Longrightarrow> fst x = permission_id N (fst (snd x))" for x by (drule dict_of_in) auto
  have wr: "x \<in> set ?wr \<Longrightarrow> fst x = role_id N (snd x)" for x by (drule dict_of_in) auto
  have wg: "x \<in> set (want_grants N) \<Longrightarrow> fst x = role_permission_id N (fst (snd x)) (snd (snd x))" for x
    unfolding want_grants_def by (drule dict_of_in) auto
  have dg: "distinct (map fst (want_grants N))" unfolding want_grants_def by (rule distinct_dict_of)
  have rp: "(role_id N a = role_id N b) = (a = b)" "(permission_id N a = permission_id N b) = (a = b)" for a b
    using inj_eq[OF assms(1)] by (simp_all add: role_id_def permission_id_def)
  have "distinct (map pm_id (missing_permissions N db))" "distinct (map pm_code (missing_permissions N db))"
    unfolding missing_permissions_eq map_map
    by (rule distinct_by_key[OF distinct_dict_of]; simp add: wp split_beta)+
  moreover have "distinct (map rl_id (missing_roles N db))" "distinct (map (\<lambda>r. (rl_tenant r, rl_code r)) (missing_roles N db))"
    unfolding missing_roles_eq map_map
    by (rule distinct_by_key[OF distinct_dict_of]; simp add: wr split_beta)+
  moreover have "distinct (map rp_id (missing_grants N db))"
    "distinct (map (\<lambda>r. (rp_role r, rp_permission r)) (missing_grants N db))"
    unfolding missing_grants_eq map_map
    by (rule distinct_by_key[OF dg]; simp add: wg rp split_beta)+
  ultimately show ?thesis by (simp add: sync_catalog_def catalog_unique_def Let_def assms)
qed

definition fresh_ent :: ent_db where
  "fresh_ent = \<lparr>audit_events = [], audit_checkpoints = [], app_users = [], roles = [], permissions = [],
     role_permissions = [],
     revocations = Some [\<lparr>rv_role = role_id id ''auditor_3l'', rv_permission = permission_id id ''perf.view''\<rparr>],
     user_roles = []\<rparr>"

theorem sync_delivers_and_never_resurrects_witness:
  "\<exists>db' report. sync_catalog id fresh_ent = Inr (db', report) \<and>
     role_permission_id id ''ops'' ''ops.audit.verify'' \<in> rp_id ` set (role_permissions db')"
proof -
  have "isOk (sync_catalog id fresh_ent)" by (rule sync_on_empty) (simp_all add: fresh_ent_def)
  then obtain db' report where s: "sync_catalog id fresh_ent = Inr (db', report)" by (auto elim: isOkE)
  have "(''ops'', ''ops.audit.verify'') \<in> set template_pairs"
    by (simp add: template_pairs_def role_templates_def ops_codes_def)
  from sync_delivers_and_never_resurrects[OF s _ _ this] s show ?thesis
    by (auto simp: fresh_ent_def role_id_def permission_id_def)
qed

end
