(* ===== verification/Tenancy.thy ===== *)
theory Tenancy
  imports Entitlement_Admin Catalog_Sync
begin

text \<open>
  Tenant onboarding and the tenant boundary (\<open>tenancy/service.py\<close>, \<open>tenancy/boundary.py\<close>,
  \<open>tenancy/models.py\<close>): one transaction registers a tenant, clones the SYSTEM templates as they
  are granted now, and seeds the first administrator. \<open>N\<close> is \<open>uuid5\<close> of a name.
\<close>

record tenant_row =
  tn_id :: string
  tn_code :: string
  tn_display_name :: string
  tn_status :: string
  tn_provenance :: string

record tenancy_db = admin_db +
  tenants :: "tenant_row list"

lemma log_event_tenants [row_simps]: "tenants (log_event E f tm db) = tenants db"
  by (simp add: log_event_eq)

datatype tenancy_error =
    TenantOnboardingError string
  | BadTenantId
  | TenantNotAdmitted string
  | OnboardIntegrityError
  | NoExistingAdminRole

definition tenant_role_id :: "(string \<Rightarrow> string) \<Rightarrow> string \<Rightarrow> string \<Rightarrow> string" where
  "tenant_role_id N tenant name = N (''role:'' @ tenant @ '':'' @ name)"

definition tenant_role_permission_id :: "(string \<Rightarrow> string) \<Rightarrow> string \<Rightarrow> string \<Rightarrow> string \<Rightarrow> string" where
  "tenant_role_permission_id N tenant role code = N (''role_permission:'' @ tenant @ '':'' @ role @ '':'' @ code)"

record onboarding_result =
  or_tenant_id :: string
  or_code :: string
  or_admin_user_id :: string
  or_roles_cloned :: "string list"
  or_grants_cloned :: nat
  or_roles_skipped :: "string list"

section \<open>The templates\<close>

definition template_grants :: "'a ent_db_scheme \<Rightarrow> string \<Rightarrow> string list" where
  "template_grants db name = [rp_permission rp. r \<leftarrow> roles db, rp \<leftarrow> role_permissions db,
     rp_role rp = rl_id r \<and> rl_tenant r = system_tenant \<and> rl_code r = name]"

definition system_templates :: "'a ent_db_scheme \<Rightarrow> (string \<times> string list) list" where
  "system_templates db = [(name, template_grants db name). name \<leftarrow> cloned_templates,
     list_ex (\<lambda>r. rl_tenant r = system_tenant \<and> rl_code r = name) (roles db)]"

definition tenant_codes :: "'a ent_db_scheme \<Rightarrow> string \<Rightarrow> string list" where
  "tenant_codes db tenant = [rl_code r. r \<leftarrow> roles db, rl_tenant r = tenant]"

definition clone_role :: "(string \<Rightarrow> string) \<Rightarrow> string \<Rightarrow> string \<Rightarrow> role_row" where
  "clone_role N tenant name = \<lparr>rl_id = tenant_role_id N tenant name, rl_tenant = tenant, rl_code = name, rl_name = role_title name\<rparr>"

definition clone_grants :: "(string \<Rightarrow> string) \<Rightarrow> string \<Rightarrow> string \<Rightarrow> string list \<Rightarrow> role_permission list" where
  "clone_grants N tenant name perms = map (\<lambda>p. \<lparr>rp_id = tenant_role_permission_id N tenant name p,
     rp_role = tenant_role_id N tenant name, rp_permission = p\<rparr>) perms"

section \<open>Onboarding\<close>

definition resolve_tenant_id :: "env \<Rightarrow> string option \<Rightarrow> nat \<Rightarrow> tenancy_error + string" where
  "resolve_tenant_id E tid n =
     (if truthy tid then (case parse_uuid (the tid) of None \<Rightarrow> Inl BadTenantId | Some k \<Rightarrow> Inr (format_uuid k))
      else Inr (uuid E ''tenant'' n))"

definition admin_role_for ::
  "(string \<Rightarrow> string) \<Rightarrow> 'a ent_db_scheme \<Rightarrow> string \<Rightarrow> string list \<Rightarrow> string list \<Rightarrow> tenancy_error + string" where
  "admin_role_for N db tid cloned skipped =
     (if ''tenant_admin'' \<in> set cloned then Inr (tenant_role_id N tid ''tenant_admin'')
      else if ''tenant_admin'' \<in> set skipped then
        (case admin_role_id db tid of None \<Rightarrow> Inl NoExistingAdminRole | Some r \<Rightarrow> Inr r)
      else Inl (TenantOnboardingError ''template absent''))"

definition onboard_db ::
  "env \<Rightarrow> (string \<Rightarrow> string) \<Rightarrow> tenant_row \<Rightarrow> string \<Rightarrow> (string \<times> string list) list \<Rightarrow> app_user \<Rightarrow> user_role
     \<Rightarrow> 'a tenancy_db_scheme \<Rightarrow> 'a tenancy_db_scheme" where
  "onboard_db E N t who clones admin grant db =
     (let db1 = log_event E
            (event_call ''TENANT.CREATE'' system_tenant ''HUMAN'' who ''tenancy'' ''create''
             \<lparr>entity_type := Some ''tenant'', entity_id := Some (tn_id t),
              after_value := Some (JObj [(''code'', JStr (tn_code t)), (''display_name'', JStr (tn_display_name t)),
                (''status'', JStr (tn_status t))])\<rparr>)
            None (db\<lparr>tenants := tenants db @ [t]\<rparr>);
          db2 = db1\<lparr>roles := roles db1 @ map (\<lambda>(name, _). clone_role N (tn_id t) name) clones,
                    role_permissions := role_permissions db1 @
                       concat (map (\<lambda>(name, perms). clone_grants N (tn_id t) name perms) clones),
                    app_users := app_users db1 @ [admin], user_roles := user_roles db1 @ [grant]\<rparr>
      in log_event E
            (event_call ''USER.PROVISION'' (tn_id t) ''HUMAN'' who ''tenancy'' ''create''
             \<lparr>entity_type := Some ''app_user'', entity_id := Some (user_id admin),
              after_value := Some (JObj [(''display_name'', JStr (user_name admin)), (''role'', JStr ''tenant_admin''),
                (''seeded_by'', JStr ''onboarding'')])\<rparr>)
            None db2)"

definition new_tenant :: "string \<Rightarrow> string \<Rightarrow> string \<Rightarrow> tenant_row" where
  "new_tenant tid code dname = \<lparr>tn_id = tid, tn_code = code, tn_display_name = dname, tn_status = ''ACTIVE'',
     tn_provenance = ''ONBOARDED''\<rparr>"

definition first_admin :: "string \<Rightarrow> string \<Rightarrow> string \<Rightarrow> string \<Rightarrow> app_user" where
  "first_admin uid tid subject aname = \<lparr>user_id = uid, user_tenant = tid, user_subject = Some subject, user_name = aname,
     user_active = True\<rparr>"

definition seed_grant :: "string \<Rightarrow> string \<Rightarrow> string \<Rightarrow> string \<Rightarrow> pydatetime \<Rightarrow> user_role" where
  "seed_grant gid tid uid role now = \<lparr>ur_id = gid, ur_tenant = tid, ur_user = uid, ur_role = role, ur_from = now, ur_to = None\<rparr>"

definition onboard_tenant ::
  "env \<Rightarrow> (string \<Rightarrow> string) \<Rightarrow> string \<Rightarrow> string \<Rightarrow> string \<Rightarrow> string \<Rightarrow> string \<Rightarrow> string option \<Rightarrow> pydatetime
     \<Rightarrow> 'a tenancy_db_scheme \<Rightarrow> tenancy_error + ('a tenancy_db_scheme \<times> onboarding_result)" where
  "onboard_tenant E N code0 dname0 subject0 aname0 who tid0 now db =
     (let code = py_strip code0; dname = py_strip dname0; subject = py_strip subject0; aname = py_strip aname0 in
      if code = [] then Inl (TenantOnboardingError ''code'')
      else if dname = [] then Inl (TenantOnboardingError ''display_name'')
      else if subject = [] then Inl (TenantOnboardingError ''subject'')
      else if aname = [] then Inl (TenantOnboardingError ''admin display_name'')
      else if list_ex (\<lambda>t. tn_code t = code) (tenants db) then Inl (TenantOnboardingError ''code exists'')
      else bindR (resolve_tenant_id E tid0 (length (tenants db))) (\<lambda>tid.
      let templates = system_templates db;
          clones = filter (\<lambda>(name, _). name \<notin> set (tenant_codes db tid)) templates;
          skipped = map fst (filter (\<lambda>(name, _). name \<in> set (tenant_codes db tid)) templates);
          cloned = map fst clones
      in if list_ex (\<lambda>t. tn_id t = tid) (tenants db) \<or>
            list_ex (\<lambda>a. user_tenant a = tid \<and> user_subject a = Some subject) (app_users db) \<or>
            list_ex (\<lambda>r. rl_id r \<in> set (map (tenant_role_id N tid) cloned)) (roles db)
         then Inl OnboardIntegrityError
         else bindR (admin_role_for N db tid cloned skipped) (\<lambda>role.
         let t = new_tenant tid code dname;
             admin = first_admin (uuid E ''app_user'' (length (app_users db))) tid subject aname;
             grant = seed_grant (uuid E ''user_role'' (length (user_roles db))) tid (user_id admin) role now
         in Inr (onboard_db E N t who clones admin grant db,
                 \<lparr>or_tenant_id = tid, or_code = code, or_admin_user_id = user_id admin, or_roles_cloned = cloned,
                  or_grants_cloned = length (concat (map snd clones)), or_roles_skipped = skipped\<rparr>))))"

section \<open>The boundary\<close>

definition admitted_statuses :: "string list" where
  "admitted_statuses = [''SYSTEM'', ''ACTIVE'']"

text \<open>\<open>pg\<close>: whether the engine is PostgreSQL; elsewhere the check is a no-op.\<close>

definition assert_tenant_admitted :: "bool \<Rightarrow> 'a tenancy_db_scheme \<Rightarrow> string \<Rightarrow> tenancy_error + unit" where
  "assert_tenant_admitted pg db tid =
     (if \<not> pg then Inr ()
      else case one_or_none (filter (\<lambda>t. tn_id t = tid) (tenants db)) of
        None \<Rightarrow> Inl (TenantNotAdmitted ''not registered'')
      | Some t \<Rightarrow> if tn_status t \<notin> set admitted_statuses then Inl (TenantNotAdmitted ''status'') else Inr ())"

section \<open>What onboarding leaves\<close>

lemma onboard_db_rows:
  "tenants (onboard_db E N t who clones admin grant db) = tenants db @ [t]"
  "roles (onboard_db E N t who clones admin grant db) = roles db @ map (\<lambda>(name, _). clone_role N (tn_id t) name) clones"
  "role_permissions (onboard_db E N t who clones admin grant db) = role_permissions db @
     concat (map (\<lambda>(name, perms). clone_grants N (tn_id t) name perms) clones)"
  "app_users (onboard_db E N t who clones admin grant db) = app_users db @ [admin]"
  "user_roles (onboard_db E N t who clones admin grant db) = user_roles db @ [grant]"
  "ent_requests (onboard_db E N t who clones admin grant db) = ent_requests db"
  by (simp_all add: onboard_db_def Let_def row_simps)

definition open_templates :: "'a ent_db_scheme \<Rightarrow> string \<Rightarrow> (string \<times> string list) list" where
  "open_templates db tid = filter (\<lambda>(name, _). name \<notin> set (tenant_codes db tid)) (system_templates db)"

lemma onboard_Inr:
  assumes "onboard_tenant E N code dname subject aname who tid0 now db = Inr (db', res)"
  obtains t admin grant where "db' = onboard_db E N t who (open_templates db (tn_id t)) admin grant db"
    "or_tenant_id res = tn_id t" "tn_status t = ''ACTIVE''" "\<not> list_ex (\<lambda>x. tn_id x = tn_id t) (tenants db)"
    "user_id admin = or_admin_user_id res" "user_active admin"
    "ur_tenant grant = tn_id t" "ur_user grant = user_id admin" "ur_from grant = now" "ur_to grant = None"
    "or_roles_cloned res = map fst (open_templates db (tn_id t))"
    "\<not> list_ex (\<lambda>r. rl_id r \<in> set (map (tenant_role_id N (tn_id t)) (or_roles_cloned res))) (roles db)"
    "admin_role_for N db (tn_id t) (or_roles_cloned res) (or_roles_skipped res) = Inr (ur_role grant)"
    "or_roles_skipped res = map fst (filter (\<lambda>(name, _). name \<in> set (tenant_codes db (tn_id t))) (system_templates db))"
    "user_tenant admin = tn_id t"
proof -
  let ?skip = "\<lambda>tid. map fst (filter (\<lambda>(name, _). name \<in> set (tenant_codes db tid)) (system_templates db))"
  let ?clone = "\<lambda>tid. map fst (open_templates db tid)"
  let ?t = "\<lambda>tid. new_tenant tid (py_strip code) (py_strip dname)"
  let ?a = "\<lambda>tid. first_admin (uuid E ''app_user'' (length (app_users db))) tid (py_strip subject) (py_strip aname)"
  let ?g = "\<lambda>tid role. seed_grant (uuid E ''user_role'' (length (user_roles db))) tid (user_id (?a tid)) role now"
  obtain tid role where 1: "\<not> list_ex (\<lambda>t. tn_id t = tid) (tenants db)"
    "\<not> list_ex (\<lambda>r. rl_id r \<in> set (map (tenant_role_id N tid) (?clone tid))) (roles db)"
    "admin_role_for N db tid (?clone tid) (?skip tid) = Inr role"
    "db' = onboard_db E N (?t tid) who (open_templates db tid) (?a tid) (?g tid role) db"
    "res = \<lparr>or_tenant_id = tid, or_code = py_strip code, or_admin_user_id = user_id (?a tid), or_roles_cloned = ?clone tid,
        or_grants_cloned = length (concat (map snd (open_templates db tid))), or_roles_skipped = ?skip tid\<rparr>"
    using assms unfolding onboard_tenant_def Let_def open_templates_def[symmetric] bindR_Inr
    by (auto simp only: if_False res_simps sum.inject prod.inject split: if_splits)
  show thesis
    by (rule that[of "?t tid" "?a tid" "?g tid role"])
       (use 1 in \<open>simp_all add: new_tenant_def first_admin_def seed_grant_def\<close>)
qed

lemma template_names: "map fst (system_templates db) = filter (\<lambda>n. list_ex (\<lambda>r. rl_tenant r = system_tenant \<and> rl_code r = n) (roles db)) cloned_templates"
proof -
  have "map fst (concat (map (\<lambda>n. if P n then [(n, g n)] else []) xs)) = filter P xs" for P and g :: "string \<Rightarrow> string list" and xs
    by (induction xs) auto
  then show ?thesis by (simp add: system_templates_def)
qed

lemma distinct_template_names: "distinct (map fst (system_templates db))"
proof -
  have "distinct cloned_templates" by (simp add: cloned_templates_def)
  then show ?thesis by (simp add: template_names)
qed

lemma filter_one_name:
  "distinct (map fst cs) \<Longrightarrow> filter (\<lambda>c. fst c = n) cs = (if n \<in> fst ` set cs then [(n, the (map_of cs n))] else [])"
  by (induction cs) (auto simp: filter_empty_conv rev_image_eqI)

lemma cloned_admin_rows:
  "map rl_id (filter (\<lambda>r. rl_tenant r = tid \<and> rl_code r = n) (map (\<lambda>(name, _). clone_role N tid name) cs))
   = map (\<lambda>c. tenant_role_id N tid (fst c)) (filter (\<lambda>c. fst c = n) cs)"
  by (induction cs) (auto simp: clone_role_def)

lemma onboard_admin_role:
  assumes "admin_role_for N db tid (map fst (open_templates db tid)) skipped = Inr role"
    "skipped = map fst (filter (\<lambda>(name, _). name \<in> set (tenant_codes db tid)) (system_templates db))" "tn_id t = tid"
  shows "admin_role_id (onboard_db E N t who (open_templates db tid) admin grant db) tid = Some role"
proof -
  let ?adm = "''tenant_admin''" and ?cs = "open_templates db tid"
  have d: "distinct (map fst ?cs)"
    using distinct_template_names[of db] by (simp add: open_templates_def distinct_map_filter)
  have rows: "map rl_id (filter (\<lambda>r. rl_tenant r = tid \<and> rl_code r = ?adm)
      (roles (onboard_db E N t who ?cs admin grant db))) =
     map rl_id (filter (\<lambda>r. rl_tenant r = tid \<and> rl_code r = ?adm) (roles db)) @
     (if ?adm \<in> fst ` set ?cs then [tenant_role_id N tid ?adm] else [])"
    by (simp add: onboard_db_rows assms(3) cloned_admin_rows filter_one_name[OF d])
  have codes: "?adm \<in> set (tenant_codes db tid) \<longleftrightarrow> filter (\<lambda>r. rl_tenant r = tid \<and> rl_code r = ?adm) (roles db) \<noteq> []"
    by (auto simp: tenant_codes_def concat_if_map filter_empty_conv intro: rev_image_eqI)
  show ?thesis
  proof (cases "?adm \<in> set (map fst ?cs)")
    case True
    then have "?adm \<notin> set (tenant_codes db tid)" by (auto simp: open_templates_def)
    then have "filter (\<lambda>r. rl_tenant r = tid \<and> rl_code r = ?adm) (roles db) = []" using codes by blast
    then show ?thesis using True assms(1) rows
      by (simp add: admin_role_for_def admin_role_id_def concat_if_map one_or_none_def)
  next
    case False
    then have "?adm \<in> set skipped" "admin_role_id db tid = Some role"
      using assms(1) by (auto simp: admin_role_for_def split: if_splits option.splits)
    then show ?thesis using False rows by (simp add: admin_role_id_def concat_if_map)
  qed
qed

lemma cloned_grants_iff:
  assumes "inj N" "distinct (map fst cs)" "(name, perms) \<in> set cs"
  shows "(\<exists>rp\<in>set (concat (map (\<lambda>(n, ps). clone_grants N tid n ps) cs)).
      rp_role rp = tenant_role_id N tid name \<and> rp_permission rp = p) \<longleftrightarrow> p \<in> set perms"
proof -
  have inj: "tenant_role_id N tid n = tenant_role_id N tid name \<longleftrightarrow> n = name" for n
    using inj_eq[OF assms(1)] by (simp add: tenant_role_id_def)
  have same: "ps = perms" if "(name, ps) \<in> set cs" for ps
    using that assms(2,3) by (metis eq_key_imp_eq_value)
  show ?thesis using assms(3) by (force simp: clone_grants_def inj dest: same)
qed

text \<open>
  C14. Onboarding ignites a tenant that works. The boundary admits it, its first user is a currently
  valid administrator, and after any later sequence of administration calls of any tenants (as in
  the tenant histories of \<open>Entitlement_Admin\<close>) some active user still is; and every role it
  received holds exactly the permissions the SYSTEM template is granted now, so a grant revoked from
  a template is not brought back through a clone. Assumed: no grant carries the new tenant's id
  beforehand, the users of the resulting database have distinct ids and its requests name users of
  their own tenant, every role permission belongs to a role, and the tenant role ids are injective.
\<close>

theorem onboarding_seeds_a_working_tenant:
  assumes "onboard_tenant E N code dname subject aname who tid0 now db = Inr (db', res)" "inj N"
    "list_all (\<lambda>u. ur_tenant u \<noteq> or_tenant_id res) (user_roles db)" "book_ok db'"
    "list_all (\<lambda>rp. list_ex (\<lambda>r. rl_id r = rp_role rp) (roles db)) (role_permissions db)"
    "(admin_step E (or_tenant_id res))\<^sup>*\<^sup>* (db', now) (db2, later)"
  shows "assert_tenant_admitted pg db' (or_tenant_id res) = Inr () \<and>
    or_admin_user_id res \<in> valid_admin_user_ids db' (or_tenant_id res) now \<and>
    valid_admin_user_ids db2 (or_tenant_id res) later \<noteq> {} \<and>
    list_all (\<lambda>name. {rp_permission rp | rp. rp \<in> set (role_permissions db') \<and> rp_role rp = tenant_role_id N (or_tenant_id res) name}
       = set (template_grants db name)) (or_roles_cloned res)"
  using assms(1)
proof (cases rule: onboard_Inr)
  case (1 t admin grant)
  let ?tid = "tn_id t" and ?cs = "open_templates db (tn_id t)"
  have role: "admin_role_id db' ?tid = Some (ur_role grant)"
    unfolding 1(1) by (rule onboard_admin_role[OF 1(13)[unfolded 1(11)] 1(14) refl])
  have "filter (\<lambda>x. tn_id x = ?tid) (tenants db) = []" using 1(4) by (simp add: filter_empty_conv list_ex_iff)
  then have adm: "assert_tenant_admitted pg db' ?tid = Inr ()"
    by (simp add: assert_tenant_admitted_def 1(1) onboard_db_rows one_or_none_def 1(3) admitted_statuses_def)
  have mem: "grant \<in> set (user_roles db')" "admin \<in> set (app_users db')" by (simp_all add: 1(1) onboard_db_rows)
  have own: "u = grant" if "u \<in> set (user_roles db')" "ur_tenant u = ?tid" for u
    using that assms(3) 1(2) by (auto simp: 1(1) onboard_db_rows list_all_iff)
  have home: "home db' ?tid (user_id admin)" by (simp add: home_def user_keys_def 1(1) onboard_db_rows 1(15))
  have m: "manned db' ?tid now"
    by (rule mannedI[OF _ _ role mem]) (use own home 1(6-10,15) in auto)
  have kept: "valid_admin_user_ids db2 ?tid later \<noteq> {}"
    using steps_keep_an_administrator[OF _ assms(4) m] assms(6) 1(2) by simp
  have valid: "user_id admin \<in> valid_admin_user_ids db' ?tid now"
    unfolding valid_admin_iff
    by (intro exI[of _ "ur_role grant"] exI[of _ grant] exI[of _ admin]) (use role mem 1(6-10) in \<open>simp add: in_force_def\<close>)
  have grants: "{rp_permission rp | rp. rp \<in> set (role_permissions db') \<and> rp_role rp = tenant_role_id N ?tid name}
       = set (template_grants db name)" if name: "name \<in> set (or_roles_cloned res)" for name
  proof -
    have "\<exists>perms. (name, perms) \<in> set ?cs" using name by (auto simp: 1(11))
    then obtain perms where p: "(name, perms) \<in> set ?cs" by blast
    then have perms: "perms = template_grants db name"
      by (auto simp: open_templates_def system_templates_def split: if_splits)
    have fresh: "rp_role rp \<noteq> tenant_role_id N ?tid name" if rp: "rp \<in> set (role_permissions db)" for rp
    proof -
      obtain r where "r \<in> set (roles db)" "rl_id r = rp_role rp" using assms(5) rp by (auto simp: list_all_iff list_ex_iff)
      then show ?thesis using 1(12) name by (auto simp: list_ex_iff)
    qed
    have d: "distinct (map fst ?cs)"
      using distinct_template_names[of db] by (simp add: open_templates_def distinct_map_filter)
    let ?new = "set (concat (map (\<lambda>(n, ps). clone_grants N ?tid n ps) ?cs))"
    have rows: "set (role_permissions db') = set (role_permissions db) \<union> ?new"
      by (simp add: 1(1) onboard_db_rows)
    show ?thesis
    proof (rule set_eqI)
      fix q
      have "q \<in> {rp_permission rp | rp. rp \<in> set (role_permissions db') \<and> rp_role rp = tenant_role_id N ?tid name} \<longleftrightarrow>
          (\<exists>rp\<in>?new. rp_role rp = tenant_role_id N ?tid name \<and> rp_permission rp = q)"
        unfolding rows using fresh by blast
      also have "\<dots> \<longleftrightarrow> q \<in> set perms" by (rule cloned_grants_iff[OF assms(2) d p])
      finally show "q \<in> {rp_permission rp | rp. rp \<in> set (role_permissions db') \<and> rp_role rp = tenant_role_id N ?tid name}
          \<longleftrightarrow> q \<in> set (template_grants db name)" unfolding perms .
    qed
  qed
  show ?thesis using adm kept valid grants by (simp add: 1(2) 1(5)[symmetric] list_all_iff)
qed

section \<open>A sample onboarding\<close>

definition seed_db :: tenancy_db where
  "seed_db = \<lparr>audit_events = [], audit_checkpoints = [], app_users = [],
     roles = [\<lparr>rl_id = ''S'', rl_tenant = system_tenant, rl_code = ''tenant_admin'', rl_name = ''N''\<rparr>],
     permissions = [], role_permissions = [\<lparr>rp_id = ''G'', rp_role = ''S'', rp_permission = ''P''\<rparr>], revocations = None,
     user_roles = [], ent_requests = [], tenants = []\<rparr>"

theorem onboarding_seeds_a_working_tenant_witness:
  "\<exists>db' res. onboard_tenant sample_env id ''c'' ''d'' ''s'' ''a'' ''o'' None (Aware 5 0) seed_db = Inr (db', res) \<and>
     or_admin_user_id res \<in> valid_admin_user_ids db' (or_tenant_id res) (Aware 5 0)"
proof -
  have strip: "py_strip ''c'' = ''c''" "py_strip ''d'' = ''d''" "py_strip ''s'' = ''s''" "py_strip ''a'' = ''a''"
    by (simp_all add: py_strip_def is_space_def)
  have sys: "uuid sample_env ''tenant'' 0 \<noteq> system_tenant" by code_simp
  have t: "tenants seed_db = []" "app_users seed_db = []" "roles seed_db = [\<lparr>rl_id = ''S'', rl_tenant = system_tenant, rl_code = ''tenant_admin'', rl_name = ''N''\<rparr>]"
    "user_roles seed_db = []" "ent_requests seed_db = []" by (simp_all add: seed_db_def)
  have "isOk (onboard_tenant sample_env id ''c'' ''d'' ''s'' ''a'' ''o'' None (Aware 5 0) seed_db)"
    using sys by (simp add: onboard_tenant_def Let_def strip t resolve_tenant_id_def truthy_def system_templates_def
        cloned_templates_def tenant_codes_def tenant_role_id_def admin_role_for_def)
  then obtain db' res where o: "onboard_tenant sample_env id ''c'' ''d'' ''s'' ''a'' ''o'' None (Aware 5 0) seed_db = Inr (db', res)"
    by (auto elim: isOkE)
  have book: "book_ok db'"
    using o
  proof (cases rule: onboard_Inr)
    case (1 t admin grant)
    then show ?thesis by (simp add: book_ok_def user_keys_def onboard_db_rows t)
  qed
  have "list_all (\<lambda>u. ur_tenant u \<noteq> or_tenant_id res) (user_roles seed_db)"
    "list_all (\<lambda>rp. list_ex (\<lambda>r. rl_id r = rp_role rp) (roles seed_db)) (role_permissions seed_db)"
    by (simp_all add: seed_db_def)
  from onboarding_seeds_a_working_tenant[OF o inj_on_id this(1) book this(2) rtranclp.rtrancl_refl, where pg = True]
  show ?thesis using o by blast
qed

end
