(* ===== verification/Operational_Tick.thy ===== *)
theory Operational_Tick
  imports Worker_Tick Tenancy
begin

text \<open>
  The per-tenant operational tick (\<open>run_operational_tick_for_tenant\<close> of \<open>irp_worker/scheduler.py\<close>) over
  the three phases modelled elsewhere: due schedules, limit evaluation, breach deadlines. The two
  alarm phases are arguments. Then the worker around it: which tenants are ticked
  (\<open>irp_worker/discovery.py\<close>, \<open>irp_worker/tenants.py\<close>) and the supervisor loop (\<open>irp_worker/supervisor.py\<close>).
\<close>

section \<open>Tenant ids\<close>

datatype tick_error =
    TenantIdError
  | TickRefused sched_error
  | TenantDiscoveryError
  | UnknownTenants "string list"

definition worker_tenant_id :: "string \<Rightarrow> tick_error + string" where
  "worker_tenant_id raw = (case parse_uuid (py_strip raw) of None \<Rightarrow> Inl TenantIdError | Some k \<Rightarrow> Inr (format_uuid k))"

text \<open>\<open>str.split(",")\<close>, and the strict parse of the restriction.\<close>

fun split_commas :: "string \<Rightarrow> string list" where
  "split_commas [] = [[]]"
| "split_commas (c # s) =
     (if c = CHR '','' then [] # split_commas s
      else case split_commas s of [] \<Rightarrow> [[c]] | w # ws \<Rightarrow> (c # w) # ws)"

fun parse_entries :: "string list \<Rightarrow> string list \<Rightarrow> tick_error + string list" where
  "parse_entries out [] = Inr out"
| "parse_entries out (e # es) =
     (let entry = py_strip e in
      if entry = [] then parse_entries out es
      else bindR (worker_tenant_id entry) (\<lambda>t. parse_entries (if t \<in> set out then out else out @ [t]) es))"

definition parse_tenant_ids :: "string option \<Rightarrow> tick_error + string list" where
  "parse_tenant_ids raw = parse_entries [] (split_commas (case raw of None \<Rightarrow> [] | Some s \<Rightarrow> s))"

section \<open>Discovery\<close>

text \<open>The registry as a read returns it; \<open>None\<close> is a read that failed.\<close>

fun map_ids :: "tenant_row list \<Rightarrow> tick_error + string list" where
  "map_ids [] = Inr []"
| "map_ids (r # rs) = bindR (worker_tenant_id (tn_id r)) (\<lambda>t. bindR (map_ids rs) (\<lambda>ts. Inr (t # ts)))"

definition registry_ids :: "(tenant_row list \<Rightarrow> tenant_row list) \<Rightarrow> tenant_row list option \<Rightarrow> tick_error + string list" where
  "registry_ids query registry =
     (case registry of
        None \<Rightarrow> Inl TenantDiscoveryError
      | Some rows \<Rightarrow> (case map_ids (query rows) of Inl _ \<Rightarrow> Inl TenantDiscoveryError | Inr ts \<Rightarrow> Inr ts))"

definition active_tenant_ids :: "tenant_row list option \<Rightarrow> tick_error + string list" where
  "active_tenant_ids = registry_ids (\<lambda>rows. sort_key tn_id (filter (\<lambda>r. tn_status r = ''ACTIVE'') rows))"

definition resolve_tick_tenants :: "tenant_row list option \<Rightarrow> string list \<Rightarrow> tick_error + string list" where
  "resolve_tick_tenants registry restrict =
     bindR (active_tenant_ids registry) (\<lambda>discovered.
       if restrict = [] then Inr discovered
       else bindR (registry_ids (\<lambda>rows. rows) registry) (\<lambda>registered.
         let unknown = filter (\<lambda>t. t \<notin> set registered) restrict
         in if unknown \<noteq> [] then Inl (UnknownTenants (sort unknown))
            else Inr (filter (\<lambda>t. t \<in> set restrict) discovered)))"

section \<open>The tick\<close>

record tick_result =
  tk_scheduled :: "(string \<times> string) list"
  tk_breached :: "(string \<times> string option) list"
  tk_escalated :: "string list"
  tk_notified :: "string list"
  tk_repro_alarmed :: "string list"

text \<open>Phases 1 to 3: the first two commit together, each escalation commits alone.\<close>

definition tick_phases ::
  "'a sched_db_scheme binders \<Rightarrow> env \<Rightarrow> string \<Rightarrow> string \<Rightarrow> pydatetime \<Rightarrow> 'a sched_db_scheme
     \<Rightarrow> sched_error + ('a sched_db_scheme \<times> tick_result)" where
  "tick_phases B E cv tenant now db =
     bindR (poll_tenant_schedules B E now cv tenant db) (\<lambda>(db1, scheduled).
       let (db2, breached) = poll_tenant_breaches E now tenant db1;
           (db3, escalated) = poll_tenant_breach_deadlines E now tenant db2
       in Inr (db3, \<lparr>tk_scheduled = scheduled, tk_breached = breached, tk_escalated = escalated,
                     tk_notified = [], tk_repro_alarmed = []\<rparr>))"

type_synonym 'd alarm_phase = "pydatetime \<Rightarrow> string \<Rightarrow> 'd \<Rightarrow> 'd \<times> string list"

definition run_operational_tick ::
  "'a sched_db_scheme binders \<Rightarrow> 'a sched_db_scheme alarm_phase \<Rightarrow> 'a sched_db_scheme alarm_phase \<Rightarrow> env \<Rightarrow> string
     \<Rightarrow> string \<Rightarrow> pydatetime \<Rightarrow> 'a sched_db_scheme \<Rightarrow> tick_error + ('a sched_db_scheme \<times> tick_result)" where
  "run_operational_tick B notify alarm E cv raw now db =
     bindR (worker_tenant_id raw) (\<lambda>tenant.
     case tick_phases B E cv tenant now db of
       Inl e \<Rightarrow> Inl (TickRefused e)
     | Inr (db3, r) \<Rightarrow>
         let (db4, notified) = notify now tenant db3;
             (db5, alarmed) = alarm now tenant db4
         in Inr (db5, r\<lparr>tk_notified := notified, tk_repro_alarmed := alarmed\<rparr>))"

section \<open>The supervisor\<close>

text \<open>
  One cycle: every tenant in turn, the \<open>n\<close>-th tick at the \<open>n\<close>-th reading of the clock. A tick that
  raises is isolated; what it had not committed is rolled back.
\<close>

fun run_tick_cycle ::
  "(string \<Rightarrow> pydatetime \<Rightarrow> 'd \<Rightarrow> tick_error + ('d \<times> tick_result)) \<Rightarrow> (nat \<Rightarrow> pydatetime) \<Rightarrow> nat \<Rightarrow> string list
     \<Rightarrow> 'd \<Rightarrow> 'd \<times> (string \<times> tick_result option) list" where
  "run_tick_cycle tick clock n [] db = (db, [])"
| "run_tick_cycle tick clock n (t # ts) db =
     (case tick t (clock n) db of
        Inl e \<Rightarrow> (let (db', summary) = run_tick_cycle tick clock (Suc n) ts db in (db', (t, None) # summary))
      | Inr (db1, r) \<Rightarrow>
          let (db', summary) = run_tick_cycle tick clock (Suc n) ts db1 in (db', (t, Some r) # summary))"

definition failure_streak_alert :: nat where
  "failure_streak_alert = 3"

definition streak_of :: "(string \<times> nat) list \<Rightarrow> string \<Rightarrow> nat" where
  "streak_of streaks t = (case map_of streaks t of None \<Rightarrow> 0 | Some k \<Rightarrow> k)"

text \<open>\<open>_update_failure_streaks\<close>, with the tenants it warns of.\<close>

fun update_failure_streaks ::
  "(string \<times> nat) list \<Rightarrow> (string \<times> tick_result option) list \<Rightarrow> (string \<times> nat) list \<times> string list" where
  "update_failure_streaks streaks [] = (streaks, [])"
| "update_failure_streaks streaks ((t, r) # summary) =
     (case r of
        None \<Rightarrow>
          let k = streak_of streaks t + 1;
              (streaks', alerts) = update_failure_streaks (dict_put t k streaks) summary
          in (streaks', (if failure_streak_alert \<le> k then t # alerts else alerts))
      | Some _ \<Rightarrow> update_failure_streaks (dict_put t 0 streaks) summary)"

text \<open>
  \<open>run_supervisor_discovering\<close> for \<open>max_cycles = n\<close> cycles: the registry is read anew each cycle from
  the database the ticks share, \<open>readable i\<close> says whether the \<open>i\<close>-th read succeeds. An unreadable
  registry skips the cycle; a restriction naming an unknown tenant raises.
\<close>

record 'd supervisor =
  sv_db :: 'd
  sv_streaks :: "(string \<times> nat) list"
  sv_registry_failures :: nat
  sv_ticks :: nat

fun supervise ::
  "(string \<Rightarrow> pydatetime \<Rightarrow> 'd \<Rightarrow> tick_error + ('d \<times> tick_result)) \<Rightarrow> (nat \<Rightarrow> pydatetime)
     \<Rightarrow> (nat \<Rightarrow> 'd \<Rightarrow> tenant_row list option) \<Rightarrow> string list \<Rightarrow> nat \<Rightarrow> nat \<Rightarrow> 'd supervisor \<Rightarrow> tick_error + 'd supervisor" where
  "supervise tick clock read restrict i 0 sv = Inr sv"
| "supervise tick clock read restrict i (Suc n) sv =
     (case resolve_tick_tenants (read i (sv_db sv)) restrict of
        Inl TenantDiscoveryError \<Rightarrow>
          supervise tick clock read restrict (Suc i) n (sv\<lparr>sv_registry_failures := sv_registry_failures sv + 1\<rparr>)
      | Inl e \<Rightarrow> Inl e
      | Inr ts \<Rightarrow>
          let (db', summary) = run_tick_cycle tick clock (sv_ticks sv) ts (sv_db sv);
              (streaks', alerts) = update_failure_streaks (sv_streaks sv) summary
          in supervise tick clock read restrict (Suc i) n
               \<lparr>sv_db = db', sv_streaks = streaks', sv_registry_failures = 0, sv_ticks = sv_ticks sv + length ts\<rparr>)"

section \<open>What each phase leaves alone\<close>

text \<open>
  The tables beyond a phase's own are the tail of the database record, so that a phase leaves them
  alone is one equation.
\<close>

lemma log_event_tail [row_simps]:
  "gov_db.more (log_event E f tm gdb) = gov_db.more gdb" "limit_db.more (log_event E f tm ldb) = limit_db.more ldb"
  by (simp_all add: log_event_eq)

lemma record_breach_tail: "gov_db.more (record_breach_event E x obs th (db\<lparr>breaches := bs\<rparr>)) = gov_db.more db"
  by (simp add: record_breach_event_def row_simps)

lemma record_breach_actions: "breach_actions (record_breach_event E x obs th (db\<lparr>breaches := bs\<rparr>)) = breach_actions db"
  by (simp add: record_breach_event_def row_simps)

lemma escalate_tail:
  assumes "escalate_overdue_breach E b now db = Inr (db', act)"
  shows "limit_db.more db' = limit_db.more db \<and> limit_definitions db' = limit_definitions db"
proof -
  have "insert_action E l row db = Inr (db1, a) \<Longrightarrow>
      limit_db.more db1 = limit_db.more db \<and> limit_definitions db1 = limit_definitions db" for l row db1 a
    by (auto simp: insert_action_def record_breach_action_event_def row_simps Let_def split: option.splits)
  then show ?thesis
    using assms unfolding escalate_overdue_breach_def
    by (auto simp: res_simps Let_def split: if_splits option.splits)
qed

lemma escalate_each_tail:
  "limit_db.more (fst (escalate_each E now bs db)) = limit_db.more db \<and>
   limit_definitions (fst (escalate_each E now bs db)) = limit_definitions db"
proof (induction bs arbitrary: db)
  case (Cons b bs)
  show ?case
  proof (cases "escalate_overdue_breach E b now db")
    case (Inr r)
    obtain db1 act where r: "r = (db1, act)" by (cases r)
    then show ?thesis using Cons[of db1] escalate_tail[of E b now db db1 act] Inr
      by (cases "escalate_each E now bs db1") simp
  qed (use Cons[of db] in simp)
qed simp

lemma deadlines_tail:
  assumes "poll_tenant_breach_deadlines E now t db = (db', r)"
  shows "limit_db.more db' = limit_db.more db" "limit_definitions db' = limit_definitions db"
  using escalate_each_tail[of E now "select_overdue_breaches db now t" db] assms
  by (simp_all add: poll_tenant_breach_deadlines_def)

text \<open>Breach ids are the generator's, one per row, so a new one is fresh.\<close>

definition breach_ids_ok :: "env \<Rightarrow> 'a limit_db_scheme \<Rightarrow> bool" where
  "breach_ids_ok E db \<longleftrightarrow> inj (uuid E ''breach'') \<and>
     br_id ` set (breaches db) \<subseteq> uuid E ''breach'' ` {..<length (breaches db)}"

lemma breach_ids_fresh: "breach_ids_ok E db \<Longrightarrow> uuid E ''breach'' (length (breaches db)) \<notin> br_id ` set (breaches db)"
  by (auto simp: breach_ids_ok_def dest: injD)

lemma breach_ids_append:
  assumes "breach_ids_ok E db" "breaches db' = breaches db @ [x]" "br_id x = uuid E ''breach'' (length (breaches db))"
  shows "breach_ids_ok E db'"
  using assms by (auto simp: breach_ids_ok_def image_iff lessThan_Suc)

lemma evaluate_limit_id:
  assumes "evaluate_limit E l now db = Inr (db', Some x)" "breaches db' = breaches db @ [x]"
  shows "br_id x = uuid E ''breach'' (length (breaches db))"
proof -
  have "length (breaches db') \<noteq> length (breaches db)" using assms(2) by simp
  then have "db' \<noteq> db" by blast
  then show ?thesis
    using assms(1) unfolding evaluate_limit_def
    by (auto simp: res_simps Let_def breach_row_def split: if_splits option.splits)
qed

definition breach_state_ok :: "env \<Rightarrow> 'a gov_db_scheme \<Rightarrow> bool" where
  "breach_state_ok E db \<longleftrightarrow> one_breach_per_run db \<and> lifecycle_inv db \<and> breach_ids_ok E db"

lemma evaluate_limit_keeps:
  assumes "evaluate_limit E l now db = Inr (db', b)" "breach_state_ok E db"
  shows "breach_state_ok E db' \<and> gov_db.more db' = gov_db.more db"
proof (rule evaluate_limit_Inr[OF assms(1)], goal_cases)
  case 1
  then show ?thesis using assms(2) by simp
next
  case (2 x obs)
  note ok = assms(2)[unfolded breach_state_ok_def]
  have one: "one_breach_per_run db'" using evaluate_again[OF assms(1)] ok by blast
  have id: "br_id x = uuid E ''breach'' (length (breaches db))"
    using evaluate_limit_id assms(1) 2(1,2) by blast
  then have "br_id x \<notin> br_id ` set (breaches db)" using breach_ids_fresh ok by metis
  then have "lifecycle_inv (db\<lparr>breaches := breaches db @ [x]\<rparr>)" using lifecycle_inv_detect ok by blast
  then have "lifecycle_inv db'"
    by (rule lifecycle_inv_other) (simp add: 2(2), simp add: 2(6) record_breach_actions)
  moreover have "breach_ids_ok E db'" using breach_ids_append[OF _ 2(2) id] ok by blast
  ultimately show ?thesis using one by (simp add: breach_state_ok_def 2(6) record_breach_tail)
qed

lemma evaluate_each_keeps:
  assumes "breach_state_ok E db"
  shows "breach_state_ok E (fst (evaluate_each E now ls db)) \<and>
    gov_db.more (fst (evaluate_each E now ls db)) = gov_db.more db"
  using assms
proof (induction ls arbitrary: db)
  case (Cons l ls)
  show ?case
  proof (cases "evaluate_limit E l now db")
    case (Inr r)
    obtain db1 b where r: "r = (db1, b)" by (cases r)
    then show ?thesis
      using Cons.IH[of db1] evaluate_limit_keeps[of E l now db db1 b] Cons.prems Inr
      by (cases "evaluate_each E now ls db1") simp
  next
    case (Inl e)
    then show ?thesis using Cons.IH[OF Cons.prems] by (cases "evaluate_each E now ls db") simp
  qed
qed simp

lemma gov_tail:
  fixes db db' :: "'a gov_db_scheme"
  assumes "limit_db.more db' = limit_db.more db"
  shows "calc_runs db' = calc_runs db" "var_results db' = var_results db"
    "active_risk_results db' = active_risk_results db" "concentration_results db' = concentration_results db"
    "class_nodes db' = class_nodes db" "gov_db.more db' = gov_db.more db"
  using assms by (cases db rule: gov_db.cases_scheme; cases db' rule: gov_db.cases_scheme; simp)+

lemma sched_tail:
  fixes db db' :: "'a sched_db_scheme"
  assumes "gov_db.more db' = gov_db.more db"
  shows "schedules db' = schedules db" "scheduled_runs db' = scheduled_runs db" "calendars db' = calendars db"
    "calendar_holidays db' = calendar_holidays db"
  using assms by (cases db rule: sched_db.cases_scheme; cases db' rule: sched_db.cases_scheme; simp)+

lemma resolve_latest_cong:
  assumes "calc_runs db' = calc_runs db" "var_results db' = var_results db"
    "active_risk_results db' = active_risk_results db" "concentration_results db' = concentration_results db"
    "class_nodes db' = class_nodes db"
  shows "resolve_latest db' l = resolve_latest db l"
  unfolding resolve_latest_def resolve_concentration_def latest_var_for_portfolio_def
    latest_active_risk_for_portfolio_def latest_concentration_def assms by (rule refl)

lemma resolve_latest_tail:
  "limit_db.more db' = limit_db.more db \<Longrightarrow> resolve_latest db' l = resolve_latest db l"
  by (rule resolve_latest_cong) (rule gov_tail, assumption)+

text \<open>The due selection reads none of the tables of phases 2 and 3.\<close>

lemma select_each_tail:
  assumes "schedules db' = schedules db" "scheduled_runs db' = scheduled_runs db" "calendars db' = calendars db"
    "calendar_holidays db' = calendar_holidays db"
  shows "select_active_due db' now tenant = select_active_due db now tenant"
proof -
  have reads: "due_tick db' now s = due_tick db now s" "fired db' sid t = fired db sid t" "served db' sid p = served db sid p"
    for s sid t p
    unfolding due_tick_def resolve_business_calendar_def fired_def served_def assms by (rule refl)+
  have "select_each db' now ss = select_each db now ss" for ss
    by (induction ss) (simp_all only: select_each.simps reads)
  then show ?thesis by (simp add: select_active_due_def active_schedules_def assms)
qed

section \<open>The tick settles everything it looks at\<close>

text \<open>A second poll at the same instant finds nothing due.\<close>

lemma poll_then_nothing_due:
  assumes B: "binders_keep B" and dist: "distinct (map sd_id (schedules db))"
    and poll: "poll_tenant_schedules B E now cv tenant db = Inr (db', results)"
  shows "same_config db db' \<and> select_active_due db' now tenant = Inr []"
proof -
  obtain ds where ds: "select_active_due db now tenant = Inr ds"
    using poll by (auto simp: poll_tenant_schedules_def res_simps)
  from poll_rows[OF B dist ds] poll obtain rows where p: "same_config db db'"
    "scheduled_runs db' = scheduled_runs db @ rows" "list_all2 (fires now) ds rows"
    by (metis (no_types, lifting) prod.inject sum.inject(2))
  then show ?thesis using no_more_due[OF ds p] by blast
qed

text \<open>What the first three phases read, apart from the users: an alarm phase leaves it alone.\<close>

definition same_world :: "'a sched_db_scheme \<Rightarrow> 'a sched_db_scheme \<Rightarrow> bool" where
  "same_world db db' \<longleftrightarrow> same_config db db' \<and> scheduled_runs db' = scheduled_runs db \<and>
     calc_runs db' = calc_runs db \<and> var_results db' = var_results db \<and>
     active_risk_results db' = active_risk_results db \<and>
     concentration_results db' = concentration_results db \<and> class_nodes db' = class_nodes db"

definition alarm_keeps :: "'a sched_db_scheme alarm_phase \<Rightarrow> bool" where
  "alarm_keeps phase \<longleftrightarrow> (\<forall>now t db. same_world db (fst (phase now t db)))"

text \<open>A database in which the first three phases find nothing to do.\<close>

definition at_rest :: "env \<Rightarrow> string \<Rightarrow> pydatetime \<Rightarrow> 'a sched_db_scheme \<Rightarrow> bool" where
  "at_rest E tenant now db \<longleftrightarrow> select_active_due db now tenant = Inr [] \<and>
     (\<forall>l\<in>set (select_active_limits db tenant True). settled_limit E db l) \<and> lifecycle_inv db \<and>
     (\<forall>b\<in>set (select_overdue_breaches db now tenant). escalated_epoch (action_rows (br_id b) (br_tenant b) db))"

lemma at_rest_phases:
  assumes "at_rest E tenant now db"
  shows "\<exists>breached. tick_phases B E cv tenant now db = Inr (db, \<lparr>tk_scheduled = [], tk_breached = breached,
    tk_escalated = [], tk_notified = [], tk_repro_alarmed = []\<rparr>)"
proof -
  have 1: "poll_tenant_schedules B E now cv tenant db = Inr (db, [])"
    using assms by (simp add: at_rest_def poll_tenant_schedules_def)
  have 2: "fst (poll_tenant_breaches E now tenant db) = db"
    using assms evaluate_each_settled[of "select_active_limits db tenant True" E db now]
    by (simp add: at_rest_def poll_tenant_breaches_def)
  have 3: "poll_tenant_breach_deadlines E now tenant db = (db, [])"
    using assms by (intro deadline_phase_quiet) (simp_all add: at_rest_def)
  show ?thesis using 2 3 by (cases "poll_tenant_breaches E now tenant db") (simp add: tick_phases_def 1)
qed

lemma at_rest_same_world:
  assumes "at_rest E tenant now db" "same_world db db'"
  shows "at_rest E tenant now db'"
proof -
  have w: "schedules db' = schedules db" "calendars db' = calendars db" "calendar_holidays db' = calendar_holidays db"
    "scheduled_runs db' = scheduled_runs db" "limit_definitions db' = limit_definitions db" "breaches db' = breaches db"
    "breach_actions db' = breach_actions db" "calc_runs db' = calc_runs db" "var_results db' = var_results db"
    "active_risk_results db' = active_risk_results db" "concentration_results db' = concentration_results db"
    "class_nodes db' = class_nodes db"
    using assms(2) by (simp_all add: same_world_def same_config_def)
  have rows: "action_rows bid t db' = action_rows bid t db" for bid t by (simp add: action_rows_def w)
  have inv: "lifecycle_inv db" "lifecycle_inv db'"
    using assms(1) lifecycle_inv_other[of db db'] by (simp_all add: at_rest_def w)
  then have num: "actions.numbered (breach_actions db)" "actions.numbered (breach_actions db')"
    by (simp_all add: lifecycle_inv_def)
  have "set (select_overdue_breaches db' now tenant) = set (select_overdue_breaches db now tenant)"
    by (auto simp: selected_iff[OF num(1)] selected_iff[OF num(2)] rows w)
  moreover have "select_active_limits db' tenant True = select_active_limits db tenant True"
    by (simp add: select_active_limits_def w)
  moreover have "settled_limit E db' l" if "settled_limit E db l" for l
    by (rule settled_transfer[OF that resolve_latest_cong[OF w(8-12)]]) (simp add: breach_of_run_def w)
  moreover have "select_active_due db' now tenant = select_active_due db now tenant"
    by (rule select_each_tail) (simp_all add: w)
  ultimately show ?thesis using assms(1) inv(2) by (simp add: at_rest_def rows)
qed

lemma phases_leave_at_rest:
  assumes B: "binders_keep B" and dist: "distinct (map sd_id (schedules db))" "ids_distinct db"
    and ok: "breach_state_ok E db" and tick: "tick_phases B E cv tenant now db = Inr (db', r)"
  shows "at_rest E tenant now db'"
proof -
  obtain db1 scheduled where p1: "poll_tenant_schedules B E now cv tenant db = Inr (db1, scheduled)"
    using tick by (auto simp: tick_phases_def res_simps)
  obtain db2 breached where p2: "poll_tenant_breaches E now tenant db1 = (db2, breached)" by fastforce
  obtain db3 escalated where p3: "poll_tenant_breach_deadlines E now tenant db2 = (db3, escalated)" by fastforce
  have db': "db' = db3" using tick by (simp add: tick_phases_def p1 p2 p3)
  note s1 = poll_then_nothing_due[OF B dist(1) p1]
  have same1: "limit_definitions db1 = limit_definitions db" "breaches db1 = breaches db" "breach_actions db1 = breach_actions db"
    using s1 by (simp_all add: same_config_def)
  have ok1: "breach_state_ok E db1" "ids_distinct db1"
    using ok dist(2) lifecycle_inv_other[of db db1] same1
    by (simp_all add: breach_state_ok_def one_breach_per_run_def breach_ids_ok_def ids_distinct_def)
  let ?ls = "select_active_limits db1 tenant True"
  have ok2: "breach_state_ok E db2" "gov_db.more db2 = gov_db.more db1"
    using evaluate_each_keeps[OF ok1(1), of now ?ls] p2 by (simp_all add: poll_tenant_breaches_def)
  have settled2: "\<forall>l\<in>set ?ls. settled_limit E db2 l" "limit_definitions db2 = limit_definitions db1"
    using breach_phase_settles[where db = db1 and t = tenant and E = E and now = now] ok1 p2 by (simp_all add: breach_state_ok_def)
  have inv2: "lifecycle_inv db2" using ok2(1) by (simp add: breach_state_ok_def)
  have last: "lifecycle_inv db3" "breaches db3 = breaches db2"
    "\<forall>b\<in>set (select_overdue_breaches db3 now tenant). escalated_epoch (action_rows (br_id b) (br_tenant b) db3)"
    using deadline_phase_settles[OF inv2, of E now tenant db3] p3 by simp_all
  note tail3 = deadlines_tail[OF p3]
  have "settled_limit E db3 l" if "l \<in> set ?ls" for l
  proof (rule settled_transfer[of E db2])
    show "settled_limit E db2 l" using settled2(1) that by blast
    show "resolve_latest db3 l = resolve_latest db2 l" by (rule resolve_latest_tail[OF tail3(1)])
  qed (simp only: breach_of_run_def last(2))
  moreover have "select_active_limits db3 tenant True = ?ls"
    by (simp add: select_active_limits_def tail3(2) settled2(2))
  moreover have "gov_db.more db3 = gov_db.more db1" using gov_tail(6)[OF tail3(1)] ok2(2) by simp
  from select_each_tail[OF sched_tail[OF this]] s1 have "select_active_due db3 now tenant = Inr []" by simp
  ultimately show ?thesis using last(1,3) by (simp add: db' at_rest_def)
qed

text \<open>C18. The operational tick composes. After one tick of a tenant, a second tick at the same instant
  fires no schedule and escalates no breach, and its schedule, limit and deadline phases leave the
  database, with its limits, breaches, ledger and audit chain, exactly as the first tick left it,
  whichever dispatches, evaluations or escalations failed: all that the second tick does is what its
  notification and reproduction alarm phases do to that database (they may retry what failed).
  Assumed: schedules and limits have distinct ids, a limit has one breach per run, the breach rows
  carry the generator's ids and their recorded actions are a lifecycle history; the dispatched
  binders and the alarm phases leave the tables of the three phases alone.\<close>

theorem operational_tick_settles:
  assumes "binders_keep B" "alarm_keeps notify" "alarm_keeps alarm"
    and "distinct (map sd_id (schedules db))" "ids_distinct db" "breach_state_ok E db"
    and "run_operational_tick B notify alarm E cv raw now db = Inr (db', r)"
  shows "\<exists>tenant breached. worker_tenant_id raw = Inr tenant \<and>
    run_operational_tick B notify alarm E cv raw now db' =
      (let (db4, notified) = notify now tenant db'; (db5, alarmed) = alarm now tenant db4
       in Inr (db5, \<lparr>tk_scheduled = [], tk_breached = breached, tk_escalated = [],
                     tk_notified = notified, tk_repro_alarmed = alarmed\<rparr>))"
proof -
  obtain tenant where t: "worker_tenant_id raw = Inr tenant"
    using assms(7) by (auto simp: run_operational_tick_def res_simps)
  then obtain db3 r3 where p: "tick_phases B E cv tenant now db = Inr (db3, r3)"
    using assms(7) by (auto simp: run_operational_tick_def split: sum.splits)
  obtain db4 n where n: "notify now tenant db3 = (db4, n)" by fastforce
  obtain db5 a where a: "alarm now tenant db4 = (db5, a)" by fastforce
  have db': "db' = db5" using assms(7) by (simp add: run_operational_tick_def t p n a)
  have w: "same_world db3 db4" "same_world db4 db5"
    using assms(2,3) n a unfolding alarm_keeps_def by (metis fst_conv)+
  have "at_rest E tenant now db5"
    by (rule at_rest_same_world[OF at_rest_same_world[OF phases_leave_at_rest[OF assms(1,4-6) p] w(1)] w(2)])
  from at_rest_phases[OF this] obtain breached where "tick_phases B E cv tenant now db5 = Inr (db5,
      \<lparr>tk_scheduled = [], tk_breached = breached, tk_escalated = [], tk_notified = [], tk_repro_alarmed = []\<rparr>)"
    by blast
  then show ?thesis by (simp add: run_operational_tick_def t db' case_prod_beta Let_def)
qed

section \<open>An example\<close>

text \<open>The month-end schedule, and an ACTIVE limit whose newest VaR run breaches it.\<close>

definition tick_env :: env where
  "tick_env = sample_env\<lparr>uuid := \<lambda>kind n. kind @ replicate n (CHR ''x'')\<rparr>"

definition tick_tenant :: string where
  "tick_tenant = ''00000000-0000-0000-0000-000000000001''"

definition tick_schedule :: schedule_row where
  "tick_schedule = (sample_schedule tick_env)\<lparr>sd_tenant := tick_tenant\<rparr>"

definition tick0 :: sched_db where
  "tick0 = sched0\<lparr>schedules := [tick_schedule], limit_definitions := [active_l\<lparr>ld_tenant := tick_tenant\<rparr>],
     calc_runs := [sample_run\<lparr>run_tenant := tick_tenant\<rparr>], var_results := [sample_metric]\<rparr>"

lemma tick_tables: "schedules tick0 = [tick_schedule]" "scheduled_runs tick0 = []" "breaches tick0 = []"
    "breach_actions tick0 = []" "limit_definitions tick0 = [active_l\<lparr>ld_tenant := tick_tenant\<rparr>]"
  by (simp_all add: tick0_def sched0_def)

lemma tick_due:
  "select_active_due tick0 (Aware 1786000000000000 0) tick_tenant =
     Inr [(tick_schedule, end_of_day (Date 2026 7 31), None)]"
proof -
  have tick: "due_tick tick0 (Aware 1786000000000000 0) tick_schedule = Inr (end_of_day (Date 2026 7 31), None)"
    by (simp add: due_tick_def schedule_tick_def tick_schedule_def sample_schedule_def new_schedule_def sched_input_def aug_6_tick)
  have "active_schedules tick0 tick_tenant = [tick_schedule]"
    by (simp add: active_schedules_def tick_tables tick_schedule_def sample_schedule_def new_schedule_def sched_input_def)
  moreover have "sd_anchor tick_schedule = Date 2026 1 5" "\<not> is_business tick_schedule"
    by (simp_all add: tick_schedule_def sample_schedule_def new_schedule_def sched_input_def is_business_def)
  ultimately show ?thesis
    by (simp add: select_active_due_def tick outside_start_boundary_def aug_6_instants fired_def tick_tables)
qed

lemma tick_tenant_id: "worker_tenant_id tick_tenant = Inr tick_tenant"
  by code_simp

text \<open>Alarm phases that write an audit event each and report it.\<close>

definition sample_alarm :: "string \<Rightarrow> sched_db alarm_phase" where
  "sample_alarm what now t db = (log_event tick_env (event_call what t ''SYSTEM'' ''w'' ''limit'' ''alarm'') None db, [what])"

lemma sample_alarm_keeps: "alarm_keeps (sample_alarm what)"
  by (simp add: alarm_keeps_def same_world_def same_config_def sample_alarm_def row_simps)

theorem operational_tick_settles_witness:
  "\<exists>db' r db5 r5. run_operational_tick sample_binders (sample_alarm ''n'') (sample_alarm ''a'') tick_env ''v1''
      tick_tenant (Aware 1786000000000000 0) tick0 = Inr (db', r) \<and>
     run_operational_tick sample_binders (sample_alarm ''n'') (sample_alarm ''a'') tick_env ''v1''
      tick_tenant (Aware 1786000000000000 0) db' = Inr (db5, r5) \<and>
     tk_scheduled r5 = [] \<and> tk_escalated r5 = [] \<and> tk_notified r5 = [''n'']"
proof -
  let ?now = "Aware 1786000000000000 0"
  obtain db3 r3 where r3: "tick_phases sample_binders tick_env ''v1'' tick_tenant ?now tick0 = Inr (db3, r3)"
    by (simp add: tick_phases_def poll_tenant_schedules_def tick_due case_prod_beta Let_def)
  then obtain db' r where r: "run_operational_tick sample_binders (sample_alarm ''n'') (sample_alarm ''a'') tick_env ''v1''
      tick_tenant ?now tick0 = Inr (db', r)"
    by (simp add: run_operational_tick_def tick_tenant_id case_prod_beta Let_def)
  have inj: "inj (uuid tick_env ''breach'')"
    by (rule injI) (simp add: tick_env_def)
  have ok: "breach_state_ok tick_env tick0"
    using inj tick_tables
    by (simp add: breach_state_ok_def one_breach_per_run_def lifecycle_inv_def well_linked_def action_rows_def
        actions.numbered_Nil breach_ids_ok_def)
  have dist: "distinct (map sd_id (schedules tick0))" "ids_distinct tick0"
    by (simp_all add: tick_tables ids_distinct_def)
  from operational_tick_settles[OF sample_binders_keep sample_alarm_keeps sample_alarm_keeps dist ok r] r
  show ?thesis by (auto simp: sample_alarm_def)
qed

end
