(* ===== verification/Decimal_Ctx.thy ===== *)
theory Decimal_Ctx
  imports Decimal_Num
begin

text \<open>
  The arithmetic of a \<open>decimal\<close> context on finite values, as the numeric kernels use it. A value is the
  rational a Decimal denotes (a kernel's result does not depend on the exponent it is written with).
  An operation computes exactly and rounds half to even when the result has more digits than the
  context; \<open>quantize(..., ROUND_HALF_UP)\<close> rounds ties away from zero and raises when the result does
  not fit the context.
\<close>

section \<open>Rounding to an integer\<close>

definition half_even :: "rat \<Rightarrow> int" where
  "half_even x = (let f = \<lfloor>x\<rfloor>; r = x - of_int f in
     if r < 1 / 2 then f else if 1 / 2 < r then f + 1 else if even f then f else f + 1)"

definition half_up :: "rat \<Rightarrow> int" where
  "half_up x = (if x < 0 then - \<lfloor>1 / 2 - x\<rfloor> else \<lfloor>x + 1 / 2\<rfloor>)"

lemma half_even_of_int [simp]: "half_even (of_int c) = c"
  by (simp add: half_even_def)

lemma half_up_of_int [simp]: "half_up (of_int c) = c"
proof -
  have "\<lfloor>of_int c + 1 / 2 :: rat\<rfloor> = c" "\<lfloor>1 / 2 - of_int c :: rat\<rfloor> = - c"
    by (rule floor_unique; simp)+
  then show ?thesis by (simp add: half_up_def)
qed

lemma half_even_mono: "x \<le> y \<Longrightarrow> half_even x \<le> half_even y"
proof -
  assume xy: "x \<le> y"
  have fl: "\<lfloor>x\<rfloor> \<le> \<lfloor>y\<rfloor>" using xy by (rule floor_mono)
  have b: "\<lfloor>z\<rfloor> \<le> half_even z" "half_even z \<le> \<lfloor>z\<rfloor> + 1" for z
    by (auto simp: half_even_def Let_def)
  show ?thesis
  proof (cases "\<lfloor>x\<rfloor> = \<lfloor>y\<rfloor>")
    case True
    then show ?thesis using xy by (auto simp: half_even_def Let_def)
  next
    case False
    then have "\<lfloor>x\<rfloor> + 1 \<le> \<lfloor>y\<rfloor>" using fl by linarith
    then show ?thesis using b[of x] b[of y] by linarith
  qed
qed

lemma half_up_mono: "x \<le> y \<Longrightarrow> half_up x \<le> half_up y"
proof -
  assume xy: "x \<le> y"
  consider "0 \<le> x" | "y < 0" | "x < 0" "0 \<le> y" by linarith
  then show ?thesis
  proof cases
    case 1
    then show ?thesis using xy by (simp add: half_up_def floor_mono)
  next
    case 2
    then show ?thesis using xy by (simp add: half_up_def floor_mono)
  next
    case 3
    then have "0 \<le> \<lfloor>1 / 2 - x\<rfloor>" "0 \<le> \<lfloor>y + 1 / 2\<rfloor>" by simp_all
    moreover have "half_up x = - \<lfloor>1 / 2 - x\<rfloor>" "half_up y = \<lfloor>y + 1 / 2\<rfloor>"
      using 3 by (simp_all add: half_up_def)
    ultimately show ?thesis by linarith
  qed
qed

lemma half_up_error: "\<bar>of_int (half_up x) - x\<bar> \<le> 1 / 2"
proof (cases "x < 0")
  case True
  define f where "f = \<lfloor>1 / 2 - x\<rfloor>"
  have "of_int f \<le> 1 / 2 - x \<and> 1 / 2 - x < of_int f + 1" using floor_correct[of "1 / 2 - x"] by (simp add: f_def)
  moreover have "(of_int (half_up x) :: rat) = - of_int f" using True by (simp add: half_up_def f_def)
  ultimately show ?thesis unfolding abs_le_iff by (intro conjI) linarith+
next
  case False
  define f where "f = \<lfloor>x + 1 / 2\<rfloor>"
  have "of_int f \<le> x + 1 / 2 \<and> x + 1 / 2 < of_int f + 1" using floor_correct[of "x + 1 / 2"] by (simp add: f_def)
  moreover have "(of_int (half_up x) :: rat) = of_int f" using False by (simp add: half_up_def f_def)
  ultimately show ?thesis unfolding abs_le_iff by (intro conjI) linarith+
qed

section \<open>Quantization to a scale\<close>

text \<open>The scaled value is exact at a scale when multiplying by its power of ten gives an integer.\<close>

definition at_scale :: "nat \<Rightarrow> rat \<Rightarrow> bool" where
  "at_scale s x \<longleftrightarrow> x * 10 ^ s \<in> \<int>"

definition quantized :: "nat \<Rightarrow> rat \<Rightarrow> rat" where
  "quantized s x = of_int (half_up (x * 10 ^ s)) / 10 ^ s"

text \<open>\<open>InvalidOperation\<close> when the coefficient does not fit the context's precision.\<close>

definition quantize :: "nat \<Rightarrow> nat \<Rightarrow> rat \<Rightarrow> rat option" where
  "quantize prec s x = (if 10 ^ prec \<le> \<bar>half_up (x * 10 ^ s)\<bar> then None else Some (quantized s x))"

lemma at_scale_iff: "at_scale s x \<longleftrightarrow> (\<exists>c. x = of_int c / 10 ^ s)"
  by (auto simp: at_scale_def Ints_def field_simps)

lemma at_scale_quantized [simp]: "at_scale s (quantized s x)"
  by (simp add: at_scale_def quantized_def)

lemma at_scale_simps [simp]: "at_scale s 0"
  by (simp add: at_scale_def)

lemma at_scale_add [intro]: "at_scale s x \<Longrightarrow> at_scale s y \<Longrightarrow> at_scale s (x + y)"
  by (simp add: at_scale_def distrib_right)

lemma at_scale_diff [intro]: "at_scale s x \<Longrightarrow> at_scale s y \<Longrightarrow> at_scale s (x - y)"
  by (simp add: at_scale_def left_diff_distrib)

lemma at_scale_uminus [simp]: "at_scale s (- x) \<longleftrightarrow> at_scale s x"
  by (simp add: at_scale_def)

lemma at_scale_sum_list: "(\<And>x. x \<in> set xs \<Longrightarrow> at_scale s x) \<Longrightarrow> at_scale s (sum_list xs)"
  by (induction xs) auto

lemma quantized_exact: "at_scale s x \<Longrightarrow> quantized s x = x"
  by (auto simp: at_scale_iff quantized_def)

lemma quantized_mono: "x \<le> y \<Longrightarrow> quantized s x \<le> quantized s y"
  unfolding quantized_def
  by (intro divide_right_mono) (simp_all add: half_up_mono mult_right_mono)

lemma quantized_le: "x \<le> y \<Longrightarrow> at_scale s y \<Longrightarrow> quantized s x \<le> y"
  using quantized_mono[of x y s] quantized_exact[of s y] by simp

lemma quantized_ge: "x \<le> y \<Longrightarrow> at_scale s x \<Longrightarrow> x \<le> quantized s y"
  using quantized_mono[of x y s] quantized_exact[of s x] by simp

lemma quantized_nonneg: "0 \<le> x \<Longrightarrow> 0 \<le> quantized s x"
  using quantized_ge[of 0 x s] by simp

lemma quantized_error: "\<bar>quantized s x - x\<bar> \<le> 1 / (2 * 10 ^ s)"
proof -
  have "quantized s x - x = (of_int (half_up (x * 10 ^ s)) - x * 10 ^ s) / 10 ^ s"
    by (simp add: quantized_def field_simps)
  then have "\<bar>quantized s x - x\<bar> = \<bar>of_int (half_up (x * 10 ^ s)) - x * 10 ^ s\<bar> / 10 ^ s"
    by (simp add: abs_divide)
  then show ?thesis
    using divide_right_mono[OF half_up_error[of "x * 10 ^ s"], of "10 ^ s"] by simp
qed

lemma quantize_Some: "quantize prec s x = Some y \<Longrightarrow> y = quantized s x"
  by (simp add: quantize_def split: if_splits)

section \<open>Rounding to the context\<close>

function ndigits :: "int \<Rightarrow> nat" where
  "ndigits n = (if n < 10 then 1 else Suc (ndigits (n div 10)))"
  by auto

termination
  by (relation "measure nat") auto

declare ndigits.simps [simp del]

text \<open>The power of ten just above the absolute value of a number that is not zero.\<close>

definition magnitude :: "rat \<Rightarrow> int" where
  "magnitude x = (case quotient_of \<bar>x\<bar> of (n, d) \<Rightarrow>
     let k = int (ndigits n) - int (ndigits d) in if \<bar>x\<bar> < pow10 k then k else k + 1)"

definition rnd :: "nat \<Rightarrow> rat \<Rightarrow> rat" where
  "rnd prec x = (if x = 0 then 0
     else let e = magnitude x - int prec in of_int (half_even (x * pow10 (- e))) * pow10 e)"

definition dadd :: "nat \<Rightarrow> rat \<Rightarrow> rat \<Rightarrow> rat" where "dadd p x y = rnd p (x + y)"
definition dsub :: "nat \<Rightarrow> rat \<Rightarrow> rat \<Rightarrow> rat" where "dsub p x y = rnd p (x - y)"
definition dmul :: "nat \<Rightarrow> rat \<Rightarrow> rat \<Rightarrow> rat" where "dmul p x y = rnd p (x * y)"
definition ddiv :: "nat \<Rightarrow> rat \<Rightarrow> rat \<Rightarrow> rat" where "ddiv p x y = rnd p (x / y)"

text \<open>\<open>sum(xs, Decimal(0))\<close>: from the left, each step rounded.\<close>

definition dsum :: "nat \<Rightarrow> rat list \<Rightarrow> rat" where
  "dsum p xs = foldl (dadd p) 0 xs"

lemma ndigits_bounds: "0 < n \<Longrightarrow> 10 ^ (ndigits n - 1) \<le> n \<and> n < 10 ^ ndigits n \<and> 1 \<le> ndigits n"
proof (induction n rule: ndigits.induct)
  case (1 n)
  show ?case
  proof (cases "n < 10")
    case True
    then show ?thesis using 1 by (simp add: ndigits.simps[of n])
  next
    case False
    then have IH: "10 ^ (ndigits (n div 10) - 1) \<le> n div 10" "n div 10 < 10 ^ ndigits (n div 10)" "1 \<le> ndigits (n div 10)"
      using 1 by auto
    have "n < 10 * 10 ^ ndigits (n div 10)" using IH(2) by linarith
    moreover have "10 * 10 ^ (ndigits (n div 10) - 1) \<le> n" using IH(1) by linarith
    moreover have "(10::int) * 10 ^ (ndigits (n div 10) - 1) = 10 ^ ndigits (n div 10)"
      using IH(3) by (metis Suc_diff_le diff_Suc_1 power_Suc One_nat_def)
    ultimately show ?thesis using False by (simp add: ndigits.simps[of n])
  qed
qed

lemma pow10_nat: "pow10 (int n) = 10 ^ n"
  by (simp add: pow10_def)

lemma pow10_mono: "a \<le> b \<Longrightarrow> pow10 a \<le> pow10 b"
proof -
  assume ab: "a \<le> b"
  have "pow10 b = pow10 a * pow10 (b - a)" using pow10_add[of a "b - a"] by simp
  moreover have "1 \<le> pow10 (b - a)" using ab by (simp add: pow10_def)
  ultimately show ?thesis using mult_left_mono[of 1 "pow10 (b - a)" "pow10 a"] pow10_pos[of a] by simp
qed

lemma pow10_less_iff: "pow10 a < pow10 b \<longleftrightarrow> a < b"
proof
  show "a < b" if "pow10 a < pow10 b" using that pow10_mono[of b a] by linarith
  assume ab: "a < b"
  have "pow10 (a + 1) = 10 * pow10 a" using pow10_add[of a 1] by (simp add: pow10_def[of 1])
  then show "pow10 a < pow10 b" using pow10_mono[of "a + 1" b] ab pow10_pos[of a] by linarith
qed

lemma pow10_minus: "pow10 (- e) = 1 / pow10 e"
  using pow10_add[of e "- e"] by (simp add: pow10_def[of 0] field_simps)

text \<open>The magnitude is the one of the definition.\<close>

lemma magnitude_bounds:
  assumes "x \<noteq> 0"
  shows "pow10 (magnitude x - 1) \<le> \<bar>x\<bar> \<and> \<bar>x\<bar> < pow10 (magnitude x)"
proof -
  obtain n d where q: "quotient_of \<bar>x\<bar> = (n, d)" by (cases "quotient_of \<bar>x\<bar>")
  have x: "\<bar>x\<bar> = of_int n / of_int d" and d: "0 < d"
    using q by (simp_all add: quotient_of_div quotient_of_denom_pos)
  have "0 < \<bar>x\<bar>" using assms by simp
  then have n: "0 < n" using d unfolding x by (simp add: zero_less_divide_iff)
  define a b where "a = ndigits n" and "b = ndigits d"
  have nn: "10 ^ (a - 1) \<le> n" "n < 10 ^ a" "1 \<le> a" using ndigits_bounds[OF n] by (simp_all add: a_def)
  have dd: "10 ^ (b - 1) \<le> d" "d < 10 ^ b" "1 \<le> b" using ndigits_bounds[OF d] by (simp_all add: b_def)
  have "(of_int (10 ^ (a - 1)) :: rat) \<le> of_int n" "(of_int n :: rat) < of_int (10 ^ a)"
    "(of_int (10 ^ (b - 1)) :: rat) \<le> of_int d" "(of_int d :: rat) < of_int (10 ^ b)"
    using nn dd by (simp_all only: of_int_le_iff of_int_less_iff)
  then have rn: "pow10 (int a - 1) \<le> of_int n" "of_int n < pow10 (int a)"
    and rd: "pow10 (int b - 1) \<le> of_int d" "of_int d < pow10 (int b)"
    using nn(3) dd(3) pow10_nat[of "a - 1"] pow10_nat[of "b - 1"]
    by (simp_all add: pow10_nat of_nat_diff)
  let ?k = "int a - int b"
  have d0: "(0::rat) < of_int d" using d by simp
  have up: "\<bar>x\<bar> < pow10 (?k + 1)"
  proof -
    have "pow10 (int a) = pow10 (?k + 1) * pow10 (int b - 1)" by (simp add: pow10_add[symmetric])
    also have "\<dots> \<le> pow10 (?k + 1) * of_int d" using rd(1) by (intro mult_left_mono) (simp_all add: less_imp_le)
    finally show ?thesis using rn(2) d0 unfolding x by (simp add: divide_less_eq)
  qed
  have low: "pow10 (?k - 1) \<le> \<bar>x\<bar>"
  proof -
    have "pow10 (?k - 1) * of_int d \<le> pow10 (?k - 1) * pow10 (int b)"
      using rd(2) by (intro mult_left_mono) (simp_all add: less_imp_le)
    also have "\<dots> = pow10 (int a - 1)" by (simp add: pow10_add[symmetric])
    finally show ?thesis using rn(1) d0 unfolding x by (simp add: le_divide_eq)
  qed
  have "magnitude x = (if \<bar>x\<bar> < pow10 ?k then ?k else ?k + 1)"
    by (simp add: magnitude_def q a_def b_def)
  then show ?thesis using up low by (cases "\<bar>x\<bar> < pow10 ?k") simp_all
qed

lemma magnitude_mono: "x \<noteq> 0 \<Longrightarrow> y \<noteq> 0 \<Longrightarrow> \<bar>x\<bar> \<le> \<bar>y\<bar> \<Longrightarrow> magnitude x \<le> magnitude y"
  using magnitude_bounds[of x] magnitude_bounds[of y] pow10_less_iff[of "magnitude x - 1" "magnitude y"] by linarith


lemma half_even_minus: "half_even (- x) = - half_even x"
proof (cases "x = of_int \<lfloor>x\<rfloor>")
  case True
  then show ?thesis by (metis half_even_of_int of_int_minus)
next
  case False
  define f where "f = \<lfloor>x\<rfloor>"
  have b: "of_int f < x" "x < of_int f + 1" using False floor_correct[of x] by (auto simp: f_def less_le)
  have m: "\<lfloor>- x\<rfloor> = - f - 1" by (rule floor_unique) (use b in simp_all)
  consider "x - of_int f < 1 / 2" | "x - of_int f = 1 / 2" | "1 / 2 < x - of_int f" by linarith
  then show ?thesis
    by cases (auto simp: half_even_def Let_def m f_def[symmetric])
qed

lemma rnd_zero [simp]: "rnd p 0 = 0"
  by (simp add: rnd_def)

lemma magnitude_minus [simp]: "magnitude (- x) = magnitude x"
  by (simp add: magnitude_def)

text \<open>The context's rounding is odd, exact where the digits fit, and monotone.\<close>

lemma rnd_minus: "rnd p (- x) = - rnd p x"
  using half_even_minus[of "x * pow10 (int p - magnitude x)"] by (simp add: rnd_def Let_def)

lemma rnd_exact:
  assumes "at_scale s x" "\<bar>x\<bar> * 10 ^ s < 10 ^ p"
  shows "rnd p x = x"
proof (cases "x = 0")
  case False
  define e where "e = magnitude x - int p"
  have "\<bar>x\<bar> < pow10 (int p - int s)"
    using assms(2) pow10_add[of "int p - int s" "int s"] by (simp add: pow10_nat pos_less_divide_eq[symmetric])
  then have "pow10 (magnitude x - 1) < pow10 (int p - int s)" using magnitude_bounds[OF False] by linarith
  then have le: "0 \<le> - e - int s" by (simp add: pow10_less_iff e_def)
  obtain c where c: "x * 10 ^ s = of_int c" using assms(1) by (auto simp: at_scale_def Ints_def)
  have "x * pow10 (- e) = x * 10 ^ s * pow10 (- e - int s)"
    using pow10_add[of "int s" "- e - int s"] by (simp add: pow10_nat)
  also have "\<dots> = of_int (c * 10 ^ nat (- e - int s))" using le by (simp add: c pow10_def)
  finally have "half_even (x * pow10 (- e)) = c * 10 ^ nat (- e - int s)" "of_int (c * 10 ^ nat (- e - int s)) = x * pow10 (- e)"
    by (simp_all only: half_even_of_int)
  then have "rnd p x = x * pow10 (- e) * pow10 e" using False by (simp add: rnd_def Let_def e_def)
  then show ?thesis using pow10_add[of "- e" e] by (simp add: pow10_def[of 0])
qed simp

lemma rnd_bounds:
  assumes "0 < x" "0 < p"
  shows "pow10 (magnitude x - 1) \<le> rnd p x \<and> rnd p x \<le> pow10 (magnitude x)"
proof -
  define e where "e = magnitude x - int p"
  have b: "pow10 (magnitude x - 1) \<le> x" "x \<le> pow10 (magnitude x)" using magnitude_bounds[of x] assms by simp_all
  have "pow10 (magnitude x) * pow10 (- e) = pow10 (int p)"
    "pow10 (magnitude x - 1) * pow10 (- e) = pow10 (int (p - 1))"
    using assms(2) by (simp_all add: pow10_add[symmetric] e_def of_nat_diff)
  then have up: "pow10 (magnitude x) * pow10 (- e) = of_int (10 ^ p)"
    and low: "pow10 (magnitude x - 1) * pow10 (- e) = of_int (10 ^ (p - 1))"
    by (simp_all only: pow10_nat of_int_power of_int_numeral)
  have "x * pow10 (- e) \<le> of_int (10 ^ p)" "of_int (10 ^ (p - 1)) \<le> x * pow10 (- e)"
    unfolding up[symmetric] low[symmetric] using b by (simp_all add: mult_right_mono less_imp_le)
  then have h: "half_even (x * pow10 (- e)) \<le> 10 ^ p" "10 ^ (p - 1) \<le> half_even (x * pow10 (- e))"
    using half_even_mono by (metis half_even_of_int)+
  have r: "rnd p x = of_int (half_even (x * pow10 (- e))) * pow10 e"
    using assms by (simp add: rnd_def Let_def e_def)
  have "(of_int (half_even (x * pow10 (- e))) :: rat) \<le> of_int (10 ^ p)"
    "(of_int (10 ^ (p - 1)) :: rat) \<le> of_int (half_even (x * pow10 (- e)))"
    using h by (simp_all only: of_int_le_iff)
  then have "rnd p x \<le> of_int (10 ^ p) * pow10 e" "of_int (10 ^ (p - 1)) * pow10 e \<le> rnd p x"
    unfolding r by (simp_all only: mult_right_mono less_imp_le pow10_pos)
  moreover have "pow10 (- e) * pow10 e = 1" using pow10_add[of "- e" e] by (simp add: pow10_def[of 0])
  ultimately show ?thesis unfolding up[symmetric] low[symmetric] by (simp add: mult.assoc)
qed

lemma rnd_mono_pos:
  assumes "0 < x" "x \<le> y" "0 < p"
  shows "rnd p x \<le> rnd p y"
proof (cases "magnitude x = magnitude y")
  case True
  define e where "e = magnitude y - int p"
  have "half_even (x * pow10 (- e)) \<le> half_even (y * pow10 (- e))"
    using assms(2) by (intro half_even_mono mult_right_mono) (simp_all add: less_imp_le)
  then have "(of_int (half_even (x * pow10 (- e))) :: rat) * pow10 e \<le> of_int (half_even (y * pow10 (- e))) * pow10 e"
    by (intro mult_right_mono) (simp_all add: less_imp_le)
  then show ?thesis using assms True by (simp add: rnd_def Let_def e_def)
next
  case False
  then have "magnitude x \<le> magnitude y - 1" using magnitude_mono[of x y] assms by simp
  then have "pow10 (magnitude x) \<le> pow10 (magnitude y - 1)" by (rule pow10_mono)
  then show ?thesis using rnd_bounds[of x p] rnd_bounds[of y p] assms by simp
qed

lemma rnd_mono:
  assumes "x \<le> y" "0 < p"
  shows "rnd p x \<le> rnd p y"
proof -
  have pos: "0 < rnd p z" if "0 < z" for z
    using rnd_bounds[OF that assms(2)] pow10_pos[of "magnitude z - 1"] by linarith
  consider "0 < x" | "y < 0" | "x \<le> 0" "0 \<le> y" using assms(1) by linarith
  then show ?thesis
  proof cases
    case 1
    then show ?thesis using rnd_mono_pos assms by blast
  next
    case 2
    then show ?thesis using rnd_mono_pos[of "- y" "- x" p] assms by (simp add: rnd_minus)
  next
    case 3
    then have "rnd p x \<le> 0" using pos[of "- x"] by (cases "x = 0") (simp_all add: rnd_minus less_le)
    moreover have "0 \<le> rnd p y" using 3 pos[of y] by (cases "y = 0") (simp_all add: less_le)
    ultimately show ?thesis by simp
  qed
qed

text \<open>A sum whose terms share a scale is exact when the absolute values together fit.\<close>

lemma dsum_from_exact:
  assumes "at_scale s a" "\<And>x. x \<in> set xs \<Longrightarrow> at_scale s x"
    and "(\<bar>a\<bar> + sum_list (map abs xs)) * 10 ^ s < 10 ^ p"
  shows "foldl (dadd p) a xs = a + sum_list xs"
  using assms
proof (induction xs arbitrary: a)
  case (Cons x xs)
  have nn: "0 \<le> sum_list (map abs xs)" by (rule sum_list_nonneg) auto
  have "\<bar>a + x\<bar> + sum_list (map abs xs) \<le> \<bar>a\<bar> + sum_list (map abs (x # xs))"
    using abs_triangle_ineq[of a x] by simp
  then have fit: "(\<bar>a + x\<bar> + sum_list (map abs xs)) * 10 ^ s < 10 ^ p"
    using Cons.prems(3) by (meson le_less_trans mult_right_mono zero_le_numeral zero_le_power)
  have "\<bar>a + x\<bar> * 10 ^ s \<le> (\<bar>a + x\<bar> + sum_list (map abs xs)) * 10 ^ s"
    using nn by (intro mult_right_mono) simp_all
  then have lt: "\<bar>a + x\<bar> * 10 ^ s < 10 ^ p" using fit by (rule le_less_trans)
  have "at_scale s (a + x)" using Cons.prems by auto
  then have "dadd p a x = a + x" unfolding dadd_def using lt by (rule rnd_exact)
  then show ?case using Cons.IH[of "a + x"] Cons.prems(2) fit \<open>at_scale s (a + x)\<close> by simp
qed simp

lemma dsum_exact:
  "(\<And>x. x \<in> set xs \<Longrightarrow> at_scale s x) \<Longrightarrow> sum_list (map abs xs) * 10 ^ s < 10 ^ p \<Longrightarrow> dsum p xs = sum_list xs"
  using dsum_from_exact[of s 0 xs p] by (simp add: dsum_def)

lemma at_scale_mult: "at_scale s x \<Longrightarrow> at_scale t y \<Longrightarrow> at_scale (s + t) (x * y)"
proof -
  assume "at_scale s x" "at_scale t y"
  then have "(x * 10 ^ s) * (y * 10 ^ t) \<in> \<int>" by (simp add: at_scale_def)
  then show ?thesis by (simp add: at_scale_def power_add mult_ac)
qed

lemma at_scale_up: "at_scale s x \<Longrightarrow> s \<le> t \<Longrightarrow> at_scale t x"
  using at_scale_mult[of s x "t - s" 1] by (simp add: at_scale_def)

lemma at_scale_of_int [simp]: "at_scale s (of_int c)"
  by (simp add: at_scale_def)

lemma at_scale_of_nat [simp]: "at_scale s (of_nat c)"
  using at_scale_of_int[of s "int c"] by (simp del: at_scale_of_int)

lemma at_scale_1 [simp]: "at_scale s 1"
  using at_scale_of_int[of s 1] by simp

lemma quantize_fits: "\<bar>x\<bar> * 10 ^ s + 1 / 2 < 10 ^ p \<Longrightarrow> quantize p s x = Some (quantized s x)"
proof -
  assume fit: "\<bar>x\<bar> * 10 ^ s + 1 / 2 < 10 ^ p"
  have "\<bar>of_int (half_up (x * 10 ^ s))\<bar> \<le> \<bar>x * 10 ^ s\<bar> + 1 / 2"
    using half_up_error[of "x * 10 ^ s"]
      abs_triangle_ineq[of "of_int (half_up (x * 10 ^ s)) - x * 10 ^ s" "x * 10 ^ s"] by linarith
  then have "(of_int \<bar>half_up (x * 10 ^ s)\<bar> :: rat) < of_int (10 ^ p)" using fit by (simp add: abs_mult)
  then show ?thesis by (simp only: of_int_less_iff) (simp add: quantize_def)
qed

section \<open>What the kernels rely on\<close>

text \<open>
  The interface of a context's rounding: every kernel lemma about rounded arithmetic needs only that
  the rounding is monotone and leaves the values it can hold alone.
\<close>

locale rounding =
  fixes r :: "rat \<Rightarrow> rat" and holds_exactly :: "rat \<Rightarrow> bool"
  assumes mono: "x \<le> y \<Longrightarrow> r x \<le> r y"
    and exact: "holds_exactly x \<Longrightarrow> r x = x"
begin

lemma below: "x \<le> y \<Longrightarrow> holds_exactly y \<Longrightarrow> r x \<le> y"
  using mono[of x y] exact[of y] by simp

lemma above: "x \<le> y \<Longrightarrow> holds_exactly x \<Longrightarrow> x \<le> r y"
  using mono[of x y] exact[of x] by simp

end

text \<open>What fits a context of 50 digits at some scale; \<open>quantized\<close> is a rounding of the same kind.\<close>

definition fits :: "nat \<Rightarrow> rat \<Rightarrow> bool" where
  "fits p x \<longleftrightarrow> (\<exists>s. at_scale s x \<and> \<bar>x\<bar> * 10 ^ s < 10 ^ p)"

lemma fits_at: "at_scale s x \<Longrightarrow> \<bar>x\<bar> * 10 ^ s < 10 ^ p \<Longrightarrow> fits p x"
  by (auto simp: fits_def)

interpretation ctx50: rounding "rnd 50" "fits 50"
  by unfold_locales (auto simp: fits_def intro: rnd_mono rnd_exact)

interpretation ctx28: rounding "rnd 28" "fits 28"
  by unfold_locales (auto simp: fits_def intro: rnd_mono rnd_exact)

interpretation scale: rounding "quantized s" "at_scale s" for s
  by unfold_locales (auto intro: quantized_mono quantized_exact)

end
