(* ===== verification/Hs_Var.thy ===== *)
theory Hs_Var
  imports Decimal_Ctx "HOL-Library.Multiset"
begin

text \<open>
  Historical-simulation VaR and expected shortfall (\<open>risk/var_hs_kernel.py\<close>). The exposures are a
  dictionary in insertion order; the pinned window maps each date to its returns by factor. The
  selection of the order statistic runs in the default context (28 digits), the accumulation,
  the negation and the quantization in a context of 50.
\<close>

section \<open>The kernel\<close>

datatype 'd hs_error =
    NoExposures | NoScenarios | ConfidenceDomain rat | WindowTooShort nat rat
  | MissingReturn string 'd
  | TailIndexOutOfRange \<comment> \<open>Python's \<open>IndexError\<close>\<close>
  | QuantizeInvalid \<comment> \<open>\<open>decimal.InvalidOperation\<close>\<close>

record hs_var_estimate =
  n_observations :: nat
  k_index :: nat
  var_value :: rat

record hs_es_estimate =
  es_observations :: nat
  tail_floor_count :: nat
  es_value :: rat

definition order_statistic_index :: "nat \<Rightarrow> rat \<Rightarrow> 'd hs_error + nat" where
  "order_statistic_index n c =
     (if \<not> (0 < c \<and> c < 1) then Inl (ConfidenceDomain c)
      else let k = nat \<lceil>dmul 28 (of_nat n) (dsub 28 1 c)\<rceil> in
        if k < 1 then Inl (WindowTooShort n c) else Inr k)"

text \<open>One scenario: the accumulation over the exposures, in their order.\<close>

fun scenario_pnl :: "'d \<Rightarrow> (string \<times> rat) list \<Rightarrow> rat \<Rightarrow> (string \<times> rat) list \<Rightarrow> 'd hs_error + rat" where
  "scenario_pnl day rs pnl [] = Inr pnl"
| "scenario_pnl day rs pnl ((f, x) # es) =
     (case map_of rs f of None \<Rightarrow> Inl (MissingReturn f day)
      | Some r \<Rightarrow> scenario_pnl day rs (dadd 50 pnl (dmul 50 x r)) es)"

fun scenario_pnls ::
  "(string \<times> rat) list \<Rightarrow> ('d \<times> (string \<times> rat) list) list \<Rightarrow> 'd hs_error + rat list" where
  "scenario_pnls es [] = Inr []"
| "scenario_pnls es ((day, rs) # days) =
     bindR (scenario_pnl day rs 0 es) (\<lambda>p. bindR (scenario_pnls es days) (\<lambda>ps. Inr (p # ps)))"

definition sorted_scenario_pnls ::
  "(string \<times> rat) list \<Rightarrow> ('d::linorder \<times> (string \<times> rat) list) list \<Rightarrow> 'd hs_error + rat list" where
  "sorted_scenario_pnls es days = bindR (scenario_pnls es (sort_key fst days)) (\<lambda>ps. Inr (sort ps))"

definition compute_historical_var ::
  "(string \<times> rat) list \<Rightarrow> ('d::linorder \<times> (string \<times> rat) list) list \<Rightarrow> rat
    \<Rightarrow> 'd hs_error + hs_var_estimate" where
  "compute_historical_var es days c =
     (if es = [] then Inl NoExposures
      else if days = [] then Inl NoScenarios
      else bindR (order_statistic_index (length days) c) (\<lambda>k.
        bindR (sorted_scenario_pnls es days) (\<lambda>ps.
          case quantize 50 6 (rnd 50 (- (ps ! (k - 1)))) of
            None \<Rightarrow> Inl QuantizeInvalid
          | Some v \<Rightarrow> Inr \<lparr>n_observations = length days, k_index = k, var_value = v\<rparr>)))"

definition compute_historical_es ::
  "(string \<times> rat) list \<Rightarrow> ('d::linorder \<times> (string \<times> rat) list) list \<Rightarrow> rat
    \<Rightarrow> 'd hs_error + hs_es_estimate" where
  "compute_historical_es es days c =
     (if es = [] then Inl NoExposures
      else if days = [] then Inl NoScenarios
      else bindR (order_statistic_index (length days) c) (\<lambda>k.
        let n_a = dmul 28 (of_nat (length days)) (dsub 28 1 c);
            m = nat \<lfloor>n_a\<rfloor>;
            w = dsub 28 n_a (of_nat m)
        in bindR (sorted_scenario_pnls es days) (\<lambda>ps.
          if length ps \<le> m then Inl TailIndexOutOfRange
          else let tail = dadd 50 (dsum 50 (take m ps)) (dmul 50 w (ps ! m)) in
            case quantize 50 6 (rnd 50 (- ddiv 50 tail n_a)) of
              None \<Rightarrow> Inl QuantizeInvalid
            | Some v \<Rightarrow> Inr \<lparr>es_observations = length days, tail_floor_count = m, es_value = v\<rparr>)))"

section \<open>The reference: exact scenarios\<close>

definition exact_pnl :: "(string \<times> rat) list \<Rightarrow> (string \<times> rat) list \<Rightarrow> rat" where
  "exact_pnl es rs = sum_list (map (\<lambda>(f, x). x * the (map_of rs f)) es)"

text \<open>The total of the absolute contributions: the size the context has to hold.\<close>

definition gross_pnl :: "(string \<times> rat) list \<Rightarrow> (string \<times> rat) list \<Rightarrow> rat" where
  "gross_pnl es rs = sum_list (map (\<lambda>(f, x). \<bar>x * the (map_of rs f)\<bar>) es)"

definition covered :: "(string \<times> rat) list \<Rightarrow> ('d \<times> (string \<times> rat) list) list \<Rightarrow> bool" where
  "covered es days \<longleftrightarrow> (\<forall>d\<in>set days. \<forall>e\<in>set es. map_of (snd d) (fst e) \<noteq> None)"

text \<open>The columns' scales: six decimals for an exposure, twelve for a return.\<close>

definition at_column_scale :: "(string \<times> rat) list \<Rightarrow> ('d \<times> (string \<times> rat) list) list \<Rightarrow> bool" where
  "at_column_scale es days \<longleftrightarrow>
     (\<forall>e\<in>set es. at_scale 6 (snd e)) \<and> (\<forall>d\<in>set days. \<forall>r\<in>set (snd d). at_scale 12 (snd r))"

definition worst_first :: "(string \<times> rat) list \<Rightarrow> ('d \<times> (string \<times> rat) list) list \<Rightarrow> rat list" where
  "worst_first es days = sort (map (\<lambda>d. exact_pnl es (snd d)) days)"

text \<open>A window the context holds: at the columns' scales, with a total below \<open>10 ^ 28\<close>.\<close>

definition fits_context :: "(string \<times> rat) list \<Rightarrow> ('d \<times> (string \<times> rat) list) list \<Rightarrow> bool" where
  "fits_context es days \<longleftrightarrow> at_column_scale es days \<and> length days < 10 ^ 20 \<and>
     sum_list (map (\<lambda>d. gross_pnl es (snd d)) days) < 10 ^ 28 - 1"

section \<open>Scenarios are exact\<close>

lemma abs_exact_pnl: "\<bar>exact_pnl es rs\<bar> \<le> gross_pnl es rs"
  by (induction es) (auto simp: exact_pnl_def gross_pnl_def intro: order_trans[OF abs_triangle_ineq])

lemma gross_pnl_nonneg: "0 \<le> gross_pnl es rs"
  using abs_exact_pnl[of es rs] by linarith

lemma scenario_pnl_exact:
  assumes "\<forall>e\<in>set es. at_scale 6 (snd e) \<and> map_of rs (fst e) \<noteq> None"
    and "\<forall>r\<in>set rs. at_scale 12 (snd r)" "at_scale 18 a" "\<bar>a\<bar> + gross_pnl es rs < 10 ^ 28"
  shows "scenario_pnl d rs a es = Inr (a + exact_pnl es rs)"
  using assms
proof (induction es arbitrary: a)
  case Nil
  then show ?case by (simp add: exact_pnl_def)
next
  case (Cons e es)
  obtain f x where e: "e = (f, x)" by (cases e)
  obtain r where r: "map_of rs f = Some r" using Cons.prems(1) e by auto
  have "at_scale 12 r" using map_of_SomeD[OF r] Cons.prems(2) by auto
  then have xr: "at_scale 18 (x * r)" using at_scale_mult[of 6 x 12 r] Cons.prems(1) e by simp
  have split: "gross_pnl (e # es) rs = \<bar>x * r\<bar> + gross_pnl es rs" "exact_pnl (e # es) rs = x * r + exact_pnl es rs"
    by (simp_all add: gross_pnl_def exact_pnl_def e r)
  have small: "rnd 50 y = y" if "at_scale 18 y" "\<bar>y\<bar> < 10 ^ 28" for y
    using that by (intro rnd_exact) auto
  have bound: "\<bar>a\<bar> + (\<bar>x * r\<bar> + gross_pnl es rs) < 10 ^ 28" using Cons.prems(4) split(1) by simp
  have nxt: "\<bar>a + x * r\<bar> + gross_pnl es rs < 10 ^ 28" using bound abs_triangle_ineq[of a "x * r"] by linarith
  have ax: "at_scale 18 (a + x * r)" using Cons.prems(3) xr by auto
  have "rnd 50 (x * r) = x * r" "rnd 50 (a + x * r) = a + x * r"
    using small[OF xr] small[OF ax] bound nxt gross_pnl_nonneg[of es rs] by linarith+
  then have "scenario_pnl d rs a (e # es) = scenario_pnl d rs (a + x * r) es"
    by (simp add: e r dadd_def dmul_def)
  then show ?case using Cons.IH[of "a + x * r"] Cons.prems(1,2) ax nxt split(2) by simp
qed

lemma scenario_pnls_exact:
  assumes "covered es days" "at_column_scale es days" "\<And>d. d \<in> set days \<Longrightarrow> gross_pnl es (snd d) < 10 ^ 28"
  shows "scenario_pnls es days = Inr (map (\<lambda>d. exact_pnl es (snd d)) days)"
  using assms
proof (induction days)
  case (Cons d days)
  obtain day rs where d: "d = (day, rs)" by (cases d)
  have "gross_pnl es rs < 10 ^ 28" using Cons.prems(3)[of d] d by simp
  then have "scenario_pnl day rs 0 es = Inr (0 + exact_pnl es rs)"
    using Cons.prems(1,2) by (intro scenario_pnl_exact) (auto simp: d covered_def at_column_scale_def)
  moreover have "scenario_pnls es days = Inr (map (\<lambda>d. exact_pnl es (snd d)) days)"
    using Cons.prems by (intro Cons.IH) (auto simp: covered_def at_column_scale_def)
  ultimately show ?case by (simp add: d)
qed simp


lemma gross_le_total: "d \<in> set days \<Longrightarrow> gross_pnl es (snd d) \<le> sum_list (map (\<lambda>d. gross_pnl es (snd d)) days)"
  by (rule member_le_sum_list) (auto simp: gross_pnl_nonneg)

lemma sorted_scenario_pnls_exact:
  assumes "covered es days" "fits_context es days"
  shows "sorted_scenario_pnls es days = Inr (worst_first es days)"
proof -
  have sub: "set (sort_key fst days) = set days" by simp
  have "scenario_pnls es (sort_key fst days) = Inr (map (\<lambda>d. exact_pnl es (snd d)) (sort_key fst days))"
  proof (rule scenario_pnls_exact)
    show "covered es (sort_key fst days)" "at_column_scale es (sort_key fst days)"
      using assms unfolding covered_def at_column_scale_def fits_context_def sub by blast+
    show "gross_pnl es (snd d) < 10 ^ 28" if "d \<in> set (sort_key fst days)" for d
      using gross_le_total[of d days es] that assms(2) by (simp add: fits_context_def)
  qed
  moreover have "sort (map (\<lambda>d. exact_pnl es (snd d)) (sort_key fst days)) = worst_first es days"
    unfolding worst_first_def by (rule properties_for_sort) simp_all
  ultimately show ?thesis by (simp add: sorted_scenario_pnls_def)
qed

lemma worst_first_props:
  shows "length (worst_first es days) = length days" and "sorted (worst_first es days)"
  by (simp_all add: worst_first_def)

lemma exact_pnl_at_scale:
  assumes "\<forall>e\<in>set es. at_scale 6 (snd e) \<and> map_of rs (fst e) \<noteq> None" "\<forall>r\<in>set rs. at_scale 12 (snd r)"
  shows "at_scale 18 (exact_pnl es rs)"
  unfolding exact_pnl_def
proof (rule at_scale_sum_list, clarsimp)
  fix f x assume "(f, x) \<in> set es"
  then obtain r where "map_of rs f = Some r" "at_scale 6 x" using assms(1) by force
  then show "at_scale 18 (x * the (map_of rs f))"
    using at_scale_mult[of 6 x 12 r] assms(2) map_of_SomeD[of rs f r] by force
qed

lemma worst_first_at_scale:
  assumes "covered es days" "fits_context es days" "p \<in> set (worst_first es days)"
  shows "at_scale 18 p"
  using assms by (auto simp: worst_first_def covered_def fits_context_def at_column_scale_def intro!: exact_pnl_at_scale)

lemma sum_abs_worst_first:
  assumes "fits_context es days"
  shows "sum_list (map abs (worst_first es days)) < 10 ^ 28 - 1"
proof -
  have "sum_list (map abs (worst_first es days)) = sum_mset (mset (map abs (worst_first es days)))"
    by (rule sum_mset_sum_list[symmetric])
  also have "mset (map abs (worst_first es days)) = mset (map (\<lambda>d. \<bar>exact_pnl es (snd d)\<bar>) days)"
    by (simp add: worst_first_def image_mset.compositionality comp_def)
  also have "sum_mset \<dots> = sum_list (map (\<lambda>d. \<bar>exact_pnl es (snd d)\<bar>) days)" by (rule sum_mset_sum_list)
  also have "\<dots> \<le> sum_list (map (\<lambda>d. gross_pnl es (snd d)) days)"
    by (rule sum_list_mono) (rule abs_exact_pnl)
  finally show ?thesis using assms by (simp add: fits_context_def)
qed

section \<open>The selection is exact\<close>

lemma at_scale_times_nat: "at_scale s x \<Longrightarrow> at_scale s (of_nat n * x)"
  using at_scale_mult[of 0 "of_nat n" s x] by simp

lemma selection_exact:
  assumes "at_scale 4 c" "0 < c" "c < 1" "n < 10 ^ 20"
  shows "dsub 28 1 c = 1 - c" and "dmul 28 (of_nat n) (1 - c) = of_nat n * (1 - c)"
proof -
  have a: "at_scale 4 (1 - c)" using assms by auto
  show "dsub 28 1 c = 1 - c" using assms a by (auto simp: dsub_def intro: rnd_exact)
  have "of_nat n * (1 - c) \<le> of_nat n * 1" using assms by (intro mult_left_mono) simp_all
  moreover have "(of_nat n :: rat) < of_nat (10 ^ 20)" using assms(4) by (simp only: of_nat_less_iff)
  ultimately have "of_nat n * (1 - c) < (10 ^ 20 :: rat)" by simp
  moreover have "0 \<le> of_nat n * (1 - c)" using assms by simp
  moreover have "at_scale 4 (of_nat n * (1 - c))" using a by (rule at_scale_times_nat)
  ultimately show "dmul 28 (of_nat n) (1 - c) = of_nat n * (1 - c)"
    unfolding dmul_def by (intro rnd_exact[where s = 4]) (assumption, simp add: abs_mult)
qed

lemma order_statistic_index_exact:
  assumes "at_scale 4 c" "0 < c" "c < 1" "0 < n" "n < 10 ^ 20"
  shows "order_statistic_index n c = Inr (nat \<lceil>of_nat n * (1 - c)\<rceil>)"
    and "1 \<le> nat \<lceil>of_nat n * (1 - c)\<rceil>" "nat \<lceil>of_nat n * (1 - c)\<rceil> \<le> n"
proof -
  have pos: "0 < of_nat n * (1 - c)" using assms by simp
  then show k: "1 \<le> nat \<lceil>of_nat n * (1 - c)\<rceil>" by linarith
  have "of_nat n * (1 - c) \<le> of_nat n * 1" using assms by (intro mult_left_mono) simp_all
  then show "nat \<lceil>of_nat n * (1 - c)\<rceil> \<le> n" by (simp add: ceiling_le_iff nat_le_iff)
  show "order_statistic_index n c = Inr (nat \<lceil>of_nat n * (1 - c)\<rceil>)"
    using selection_exact[OF assms(1-3,5)] k assms by (simp add: order_statistic_index_def Let_def mult_le_0_iff)
qed

text \<open>The tail mean never exceeds the selected order statistic.\<close>

lemma tail_below_order_statistic:
  fixes ps :: "rat list"
  assumes "sorted ps" "0 < na" "na < of_nat (length ps)"
  defines "m \<equiv> nat \<lfloor>na\<rfloor>" and "k \<equiv> nat \<lceil>na\<rceil>"
  shows "sum_list (take m ps) + (na - of_nat m) * ps ! m \<le> na * ps ! (k - 1)"
proof -
  have mn: "m < length ps" and m: "of_nat m = (of_int \<lfloor>na\<rfloor> :: rat)"
    using assms(2,3) by (simp_all add: m_def nat_less_iff floor_less_iff)
  have w: "0 \<le> na - of_nat m" unfolding m by simp
  have kn: "k - 1 < length ps" and mk: "m \<le> k" and k1: "1 \<le> k"
    using assms(2,3) mn by (auto simp: m_def k_def nat_less_iff; linarith)+
  have "x \<le> ps ! (k - 1)" if x: "x \<in> set (take m ps)" for x
  proof -
    obtain i where "i < m" "x = ps ! i" using x mn by (auto simp: in_set_conv_nth)
    then show ?thesis using sorted_nth_mono[OF assms(1), of i "k - 1"] mk kn by simp
  qed
  then have "sum_list (take m ps) \<le> of_nat m * ps ! (k - 1)"
    using sum_list_mono[of "take m ps" "\<lambda>x. x" "\<lambda>_. ps ! (k - 1)"] mn by (simp add: sum_list_triv)
  moreover have "(na - of_nat m) * ps ! m \<le> (na - of_nat m) * ps ! (k - 1)"
  proof (cases "na = of_nat m")
    case False
    then have "of_int \<lfloor>na\<rfloor> < na" using w m by linarith
    then have "\<lceil>na\<rceil> = \<lfloor>na\<rfloor> + 1" by (intro ceiling_unique) (use floor_correct[of na] in simp_all)
    then have "k - 1 = m" using assms(2) by (simp add: k_def m_def nat_add_distrib)
    then show ?thesis by simp
  qed simp
  ultimately show ?thesis by (simp add: algebra_simps)
qed


definition tail_mean :: "rat list \<Rightarrow> rat \<Rightarrow> rat" where
  "tail_mean ps na = (sum_list (take (nat \<lfloor>na\<rfloor>) ps) + (na - of_nat (nat \<lfloor>na\<rfloor>)) * ps ! nat \<lfloor>na\<rfloor>) / na"

lemma small_value_at_scale_22:
  "at_scale 22 x \<Longrightarrow> \<bar>x\<bar> < 10 ^ 28 - 1 \<Longrightarrow> rnd 50 x = x"
  by (rule rnd_exact[where s = 22]) (simp_all, linarith?)

text \<open>Rounding keeps a value inside the bounds a 50-digit context holds; such a value is quantized.\<close>

lemma quantize_rounded:
  assumes "\<bar>x\<bar> \<le> 10 ^ 28 - 1"
  shows "quantize 50 6 (rnd 50 x) = Some (quantized 6 (rnd 50 x))" "\<bar>rnd 50 x\<bar> \<le> 10 ^ 28 - 1"
proof -
  have f: "fits 50 (10 ^ 28 - 1)" "fits 50 (- (10 ^ 28 - 1))"
    by (rule fits_at[where s = 0]; simp add: at_scale_def)+
  show b: "\<bar>rnd 50 x\<bar> \<le> 10 ^ 28 - 1"
    using ctx50.below[of x "10 ^ 28 - 1"] ctx50.above[of "- (10 ^ 28 - 1)" x] f assms by (simp add: abs_le_iff)
  have "\<bar>rnd 50 x\<bar> * 10 ^ 6 \<le> (10 ^ 28 - 1) * 10 ^ 6" using b by (rule mult_right_mono) simp
  then show "quantize 50 6 (rnd 50 x) = Some (quantized 6 (rnd 50 x))"
    by (intro quantize_fits) simp
qed

lemma tail_exact:
  fixes ps :: "rat list"
  assumes "\<And>p. p \<in> set ps \<Longrightarrow> at_scale 18 p" "sum_list (map abs ps) < 10 ^ 28 - 1"
    and "at_scale 4 na" "0 < na" "na < of_nat (length ps)"
  defines "m \<equiv> nat \<lfloor>na\<rfloor>"
  shows "dadd 50 (dsum 50 (take m ps)) (dmul 50 (na - of_nat m) (ps ! m)) = na * tail_mean ps na"
    and "\<bar>tail_mean ps na\<bar> \<le> 10 ^ 28 - 1"
proof -
  let ?B = "sum_list (map abs ps)" and ?w = "na - of_nat m"
  have mn: "m < length ps" and m: "of_nat m = (of_int \<lfloor>na\<rfloor> :: rat)"
    using assms(4,5) by (simp_all add: m_def nat_less_iff floor_less_iff)
  have w: "0 \<le> ?w" "?w < 1" using floor_correct[of na] unfolding m by simp_all
  have each: "\<bar>p\<bar> \<le> ?B" if "p \<in> set ps" for p
    using that by (intro member_le_sum_list) auto
  have split: "?B = sum_list (map abs (take m ps)) + (\<bar>ps ! m\<bar> + sum_list (map abs (drop (Suc m) ps)))"
    using id_take_nth_drop[OF mn] by (metis map_append list.simps(9) sum_list.Cons sum_list_append)
  have nn: "0 \<le> sum_list (map abs (drop (Suc m) ps))" "0 \<le> sum_list (map abs (take m ps))"
    by (rule sum_list_nonneg, auto)+
  have abs_sum: "\<bar>sum_list (take m ps)\<bar> \<le> sum_list (map abs (take m ps))" by (rule sum_list_abs)
  have wp: "\<bar>?w * ps ! m\<bar> \<le> \<bar>ps ! m\<bar>"
    using mult_left_le_one_le[of "\<bar>ps ! m\<bar>" ?w] w by (simp add: abs_mult)
  have s18: "at_scale 18 x" if "x \<in> set (take m ps)" for x using that assms(1) set_take_subset by fastforce
  have sc: "at_scale 22 (sum_list (take m ps))" "at_scale 22 (?w * ps ! m)"
    using at_scale_up[OF at_scale_sum_list[of "take m ps" 18, OF s18], of 22]
      at_scale_mult[of 4 ?w 18 "ps ! m"] assms(1,3) mn by (auto simp: at_scale_diff)
  have d1: "dsum 50 (take m ps) = sum_list (take m ps)"
  proof (rule dsum_exact[where s = 18])
    show "sum_list (map abs (take m ps)) * 10 ^ 18 < 10 ^ 50" using split nn assms(2) by simp
  qed (rule s18)
  have d2: "dmul 50 ?w (ps ! m) = ?w * ps ! m"
    unfolding dmul_def using wp split nn assms(2) sc by (intro small_value_at_scale_22) linarith+
  have d3: "rnd 50 (sum_list (take m ps) + ?w * ps ! m) = sum_list (take m ps) + ?w * ps ! m"
    using wp split nn assms(2) sc abs_sum abs_triangle_ineq[of "sum_list (take m ps)" "?w * ps ! m"]
    by (intro small_value_at_scale_22 at_scale_add) linarith+
  have tail: "sum_list (take m ps) + ?w * ps ! m = na * tail_mean ps na"
    using assms(4) by (simp add: tail_mean_def m_def)
  then show "dadd 50 (dsum 50 (take m ps)) (dmul 50 ?w (ps ! m)) = na * tail_mean ps na"
    using d1 d2 d3 by (simp add: dadd_def)
  have "sum_list (map abs (take m ps)) \<le> of_nat m * ?B"
    using sum_list_mono[of "take m ps" abs "\<lambda>_. ?B"] each in_set_takeD[of _ m ps] mn by (simp add: sum_list_triv)
  moreover have "\<bar>?w * ps ! m\<bar> \<le> ?w * ?B" using w each[of "ps ! m"] mn by (simp add: abs_mult mult_left_mono)
  ultimately have "\<bar>na * tail_mean ps na\<bar> \<le> of_nat m * ?B + ?w * ?B"
    unfolding tail[symmetric] using abs_sum abs_triangle_ineq[of "sum_list (take m ps)" "?w * ps ! m"] by linarith
  also have "\<dots> = na * ?B" by (simp add: algebra_simps)
  finally have "\<bar>tail_mean ps na\<bar> \<le> ?B" using assms(4) by (simp add: abs_mult)
  then show "\<bar>tail_mean ps na\<bar> \<le> 10 ^ 28 - 1" using assms(2) by linarith
qed

lemma tail_mean_le: "sorted ps \<Longrightarrow> 0 < na \<Longrightarrow> na < of_nat (length ps) \<Longrightarrow> tail_mean ps na \<le> ps ! (nat \<lceil>na\<rceil> - 1)"
  using tail_below_order_statistic[of ps na] by (simp add: tail_mean_def divide_le_eq mult.commute)

text \<open>C21. On a window whose numbers the context holds (six-decimal exposures, twelve-decimal returns, every exposed
  factor present on every date, a total gross P&L below \<open>10 ^ 28 - 1\<close>) and a confidence in \<open>(0, 1)\<close> with four decimals, both
  historical-simulation kernels return: the VaR is the quantized loss of the \<open>\<lceil>N (1 - c)\<rceil>\<close>-th worst of the EXACT scenario
  P&Ls, whatever the order of the dates and of the dictionary; the expected shortfall is the quantized
  Acerbi-Tasche tail mean (\<open>\<lfloor>N (1 - c)\<rfloor>\<close> full weights and the fractional one) of the same exact scenarios; and the
  quantized, reported shortfall is never below the reported VaR, the roundings of the tail mean included.\<close>

theorem historical_var_and_es:
  fixes days :: "('d::linorder \<times> (string \<times> rat) list) list"
  assumes "es \<noteq> []" "days \<noteq> []" "covered es days" "fits_context es days"
    and "at_scale 4 c" "0 < c" "c < 1"
  defines "na \<equiv> of_nat (length days) * (1 - c)"
  shows "\<exists>v e. compute_historical_var es days c
      = Inr \<lparr>n_observations = length days, k_index = nat \<lceil>na\<rceil>, var_value = v\<rparr>
    \<and> v = quantized 6 (- (worst_first es days ! (nat \<lceil>na\<rceil> - 1)))
    \<and> compute_historical_es es days c
      = Inr \<lparr>es_observations = length days, tail_floor_count = nat \<lfloor>na\<rfloor>, es_value = e\<rparr>
    \<and> e = quantized 6 (rnd 50 (- rnd 50 (tail_mean (worst_first es days) na)))
    \<and> v \<le> e"
proof -
  let ?ps = "worst_first es days" and ?k = "nat \<lceil>na\<rceil>" and ?m = "nat \<lfloor>na\<rfloor>"
  have n: "0 < length days" "length days < 10 ^ 20" using assms(2,4) by (simp_all add: fits_context_def)
  note sel = selection_exact[OF assms(5-7) n(2), folded na_def]
  note idx = order_statistic_index_exact[OF assms(5-7) n, folded na_def]
  have na: "0 < na" "na < of_nat (length ?ps)" "at_scale 4 na"
    using assms(5-7) n(1) by (auto simp: na_def worst_first_props intro!: at_scale_times_nat)
  have m: "?m < length ?ps" and w: "dsub 28 na (of_nat ?m) = na - of_nat ?m"
  proof -
    show "?m < length ?ps" using na by (simp add: nat_less_iff floor_less_iff)
    have "of_nat ?m \<le> na" "na < of_nat ?m + 1" using na(1) floor_correct[of na] by simp_all
    moreover have "at_scale 4 (na - of_nat ?m)" using na(3) by auto
    ultimately show "dsub 28 na (of_nat ?m) = na - of_nat ?m"
      unfolding dsub_def by (intro rnd_exact[where s = 4]) simp_all
  qed
  have sc: "\<And>p. p \<in> set ?ps \<Longrightarrow> at_scale 18 p" by (rule worst_first_at_scale[OF assms(3,4)])
  have total: "sum_list (map abs ?ps) < 10 ^ 28 - 1" by (rule sum_abs_worst_first[OF assms(4)])
  let ?p = "?ps ! (?k - 1)"
  have kp: "?p \<in> set ?ps" using idx(2,3) n(1) by (intro nth_mem) (simp add: worst_first_props)
  have "\<bar>?p\<bar> \<le> sum_list (map abs ?ps)" using kp by (intro member_le_sum_list) auto
  then have p_small: "\<bar>?p\<bar> < 10 ^ 28 - 1" using total by linarith
  have p_exact: "rnd 50 (- ?p) = - ?p"
    using sc[OF kp] p_small at_scale_up[of 18 "- ?p" 22] by (intro small_value_at_scale_22) simp_all
  have q_var: "quantize 50 6 (rnd 50 (- ?p)) = Some (quantized 6 (- ?p))"
    using quantize_rounded(1)[of "- ?p"] p_small p_exact by simp
  note te = tail_exact[OF sc total na(3,1,2)]
  have "\<bar>- rnd 50 (tail_mean ?ps na)\<bar> \<le> 10 ^ 28 - 1" using quantize_rounded(2)[OF te(2)] by simp
  then have q_es: "quantize 50 6 (rnd 50 (- rnd 50 (tail_mean ?ps na)))
      = Some (quantized 6 (rnd 50 (- rnd 50 (tail_mean ?ps na))))" by (rule quantize_rounded(1))
  have "- ?p \<le> - tail_mean ?ps na" using tail_mean_le[OF worst_first_props(2) na(1,2)] by simp
  then have "- ?p \<le> rnd 50 (- rnd 50 (tail_mean ?ps na))"
    using rnd_mono[of "- ?p" "- tail_mean ?ps na" 50] rnd_mono[of "- ?p" "rnd 50 (- tail_mean ?ps na)" 50] p_exact
    by (simp add: rnd_minus)
  then have le: "quantized 6 (- ?p) \<le> quantized 6 (rnd 50 (- rnd 50 (tail_mean ?ps na)))" by (rule quantized_mono)
  have ps: "sorted_scenario_pnls es days = Inr ?ps" by (rule sorted_scenario_pnls_exact[OF assms(3,4)])
  have idx': "(order_statistic_index (length days) c :: 'd hs_error + nat) = Inr ?k" by (rule idx(1))
  have var: "compute_historical_var es days c
      = Inr \<lparr>n_observations = length days, k_index = ?k, var_value = quantized 6 (- ?p)\<rparr>"
    using assms(1,2) by (simp only: compute_historical_var_def idx' ps bindR.simps q_var if_False option.case)
  have es: "compute_historical_es es days c
      = Inr \<lparr>es_observations = length days, tail_floor_count = ?m,
             es_value = quantized 6 (rnd 50 (- rnd 50 (tail_mean ?ps na)))\<rparr>"
    using assms(1,2) m na(1)
    by (simp only: compute_historical_es_def idx' ps bindR.simps sel w te(1) Let_def ddiv_def
        nonzero_mult_div_cancel_left less_imp_neq[symmetric] not_le[symmetric] if_False q_es option.case)
  show ?thesis using var es le by blast
qed

text \<open>Two factors over four days at 50% confidence.\<close>

definition sample_exposures :: "(string \<times> rat) list" where
  "sample_exposures = [(''F1'', 100), (''F2'', 50)]"

definition sample_window :: "(nat \<times> (string \<times> rat) list) list" where
  "sample_window = [(2, [(''F1'', -1/100), (''F2'', 0)]), (1, [(''F1'', 1/50), (''F2'', 1/100)]),
     (3, [(''F2'', 1/10), (''F1'', -1/20)])]"

theorem historical_var_and_es_witness:
  "\<exists>v e. compute_historical_var sample_exposures sample_window (1/2)
      = Inr \<lparr>n_observations = 3, k_index = 2, var_value = v\<rparr>
    \<and> compute_historical_es sample_exposures sample_window (1/2)
      = Inr \<lparr>es_observations = 3, tail_floor_count = 1, es_value = e\<rparr> \<and> v \<le> e"
proof -
  have I: "at_scale s x" if "x * 10 ^ s = of_int i" for s x i using that by (simp add: at_scale_def)
  have sc: "at_scale 12 (1/50)" "at_scale 12 (1/100)" "at_scale 12 (-1/100)" "at_scale 12 (1/10)" "at_scale 12 (-1/20)"
    "at_scale 6 100" "at_scale 6 50" "at_scale 4 (1/2)"
    by (rule I[of _ _ 20000000000] I[of _ _ 10000000000] I[of _ _ "- 10000000000"] I[of _ _ 100000000000]
          I[of _ _ "- 50000000000"] I[of _ _ 100000000] I[of _ _ 50000000] I[of _ _ 5000]; simp; fail)+
  have "sample_exposures \<noteq> []" "sample_window \<noteq> []" "covered sample_exposures sample_window"
    "fits_context sample_exposures sample_window" "at_scale 4 (1/2)"
    using sc by (simp_all add: sample_exposures_def sample_window_def covered_def fits_context_def at_column_scale_def
        gross_pnl_def del: not_None_eq)
  note main = historical_var_and_es[OF this]
  have n: "length sample_window = 3" by (simp add: sample_window_def)
  have k: "nat \<lceil>of_nat 3 * (1 - 1 / 2 :: rat)\<rceil> = 2" "nat \<lfloor>of_nat 3 * (1 - 1 / 2 :: rat)\<rfloor> = 1"
    using ceiling_unique[of 2 "3/2 :: rat"] floor_unique[of 1 "3/2 :: rat"] by simp_all
  have half: "(0::rat) < 1 / 2" "(1 / 2 :: rat) < 1" by simp_all
  show ?thesis using main[OF half] unfolding n k by blast
qed

end
