(* ===== verification/Dq.thy ===== *)
theory Dq
  imports Decimal_Num
begin

text \<open>
  Data quality (\<open>dq/rules.py\<close>, \<open>dq/service.py\<close>, \<open>dq/gates.py\<close>): the generic rule evaluators, the
  governed rule head, the check that always leaves a result, and the two gates over it. A dataset
  row is the dictionary of its columns; the detail texts and row ids are left out.
\<close>

section \<open>Python values\<close>

datatype field_value = VNone | VBool bool | VInt int | VDec decimal | VText string | VDate int

datatype param = PV field_value | PList "field_value list"

type_synonym params = "string \<rightharpoonup> param"
type_synonym dataset = "(string \<rightharpoonup> field_value) list"

fun as_number :: "field_value \<Rightarrow> decimal option" where
  "as_number (VBool b) = Some (Fin (if b then 1 else 0) 0)"
| "as_number (VInt i) = Some (Fin i 0)"
| "as_number (VDec d) = Some d"
| "as_number v = None"

definition py_eq :: "field_value \<Rightarrow> field_value \<Rightarrow> bool" where
  "py_eq a b = (case (as_number a, as_number b) of
      (Some x, Some y) \<Rightarrow> dec_eq x y \<or> x = y | _ \<Rightarrow> a = b)"

text \<open>\<open>a < b\<close>; \<open>None\<close> when Python raises (unordered types, a NaN).\<close>

fun py_less :: "field_value \<Rightarrow> field_value \<Rightarrow> bool option" where
  "py_less (VText a) (VText b) = Some (a < b)"
| "py_less (VDate a) (VDate b) = Some (a < b)"
| "py_less a b = (case (as_number a, as_number b) of (Some x, Some y) \<Rightarrow> dec_less x y | _ \<Rightarrow> None)"

definition py_le :: "field_value \<Rightarrow> field_value \<Rightarrow> bool option" where
  "py_le a b = map_option Not (py_less b a)"

fun value_truthy :: "field_value \<Rightarrow> bool" where
  "value_truthy VNone = False"
| "value_truthy (VBool b) = b"
| "value_truthy (VInt i) = (i \<noteq> 0)"
| "value_truthy (VDec (Fin c e)) = (c \<noteq> 0)"
| "value_truthy (VDec (Special s)) = True"
| "value_truthy (VText s) = (s \<noteq> [])"
| "value_truthy (VDate d) = True"

fun param_truthy :: "param \<Rightarrow> bool" where
  "param_truthy (PV v) = value_truthy v"
| "param_truthy (PList vs) = (vs \<noteq> [])"

definition row_get :: "(string \<rightharpoonup> field_value) \<Rightarrow> string \<Rightarrow> field_value" where
  "row_get row c = (case row c of None \<Rightarrow> VNone | Some v \<Rightarrow> v)"

section \<open>The evaluators\<close>

record dq_evaluation =
  ev_passed :: bool
  ev_observed :: "field_value option"
  ev_evaluated :: nat
  ev_failed :: nat

text \<open>A rule that cannot be evaluated raises; the text stands for the exception.\<close>

definition require_text :: "string \<Rightarrow> params \<Rightarrow> string + string" where
  "require_text name ps =
     (case ps name of Some (PV (VText c)) \<Rightarrow> if c = [] then Inl ''ValueError'' else Inr c
      | _ \<Rightarrow> Inl ''ValueError'')"

definition offenders_result :: "field_value list \<Rightarrow> nat \<Rightarrow> dq_evaluation" where
  "offenders_result bad n =
     (case bad of [] \<Rightarrow> \<lparr>ev_passed = True, ev_observed = None, ev_evaluated = n, ev_failed = 0\<rparr>
      | v # vs \<Rightarrow> \<lparr>ev_passed = False, ev_observed = Some v, ev_evaluated = n, ev_failed = length bad\<rparr>)"

definition evaluate_not_null :: "params \<Rightarrow> dataset \<Rightarrow> string + dq_evaluation" where
  "evaluate_not_null ps rows =
     bindR (require_text ''column'' ps) (\<lambda>c.
       let failed = length (filter (\<lambda>row. row_get row c = VNone) rows)
       in Inr (if failed = 0
         then \<lparr>ev_passed = True, ev_observed = None, ev_evaluated = length rows, ev_failed = 0\<rparr>
         else \<lparr>ev_passed = False, ev_observed = None, ev_evaluated = length rows, ev_failed = failed\<rparr>))"

definition evaluate_allowed_values :: "params \<Rightarrow> dataset \<Rightarrow> string + dq_evaluation" where
  "evaluate_allowed_values ps rows =
     bindR (require_text ''column'' ps) (\<lambda>c.
       case ps ''allowed'' of
         Some (PList allowed) \<Rightarrow>
           Inr (offenders_result
             (filter (\<lambda>v. \<not> list_ex (py_eq v) allowed) (map (\<lambda>row. row_get row c) rows)) (length rows))
       | _ \<Rightarrow> Inl ''ValueError'')"

text \<open>A bound that is a list, or not comparable with the value, raises.\<close>

definition past_bound ::
  "(field_value \<Rightarrow> field_value \<Rightarrow> bool option) \<Rightarrow> param option \<Rightarrow> field_value \<Rightarrow> string + bool" where
  "past_bound cmp bound v =
     (case bound of None \<Rightarrow> Inr False
      | Some (PV VNone) \<Rightarrow> Inr False
      | Some (PList vs) \<Rightarrow> Inl ''TypeError''
      | Some (PV b) \<Rightarrow> (case cmp v b of None \<Rightarrow> Inl ''TypeError'' | Some x \<Rightarrow> Inr x))"

definition inclusive :: "params \<Rightarrow> string \<Rightarrow> bool" where
  "inclusive ps name = (case ps name of None \<Rightarrow> True | Some p \<Rightarrow> param_truthy p)"

definition out_of_range :: "params \<Rightarrow> field_value \<Rightarrow> string + bool" where
  "out_of_range ps v =
     (if v = VNone then Inr True
      else bindR (past_bound (if inclusive ps ''min_inclusive'' then py_less else py_le) (ps ''min'') v) (\<lambda>below.
           bindR (past_bound (if inclusive ps ''max_inclusive'' then (\<lambda>a b. py_less b a) else (\<lambda>a b. py_le b a))
             (ps ''max'') v) (\<lambda>above. Inr (below \<or> above))))"

fun range_offenders :: "params \<Rightarrow> field_value list \<Rightarrow> string + field_value list" where
  "range_offenders ps [] = Inr []"
| "range_offenders ps (v # vs) =
     bindR (out_of_range ps v) (\<lambda>out.
     bindR (range_offenders ps vs) (\<lambda>bad. Inr (if out then v # bad else bad)))"

definition evaluate_range :: "params \<Rightarrow> dataset \<Rightarrow> string + dq_evaluation" where
  "evaluate_range ps rows =
     bindR (require_text ''column'' ps) (\<lambda>c.
     bindR (range_offenders ps (map (\<lambda>row. row_get row c) rows)) (\<lambda>bad.
       Inr (offenders_result bad (length rows))))"

text \<open>
  The two differences of the key sets; the order of the offending keys (Python sorts their texts) only
  chooses the one that is reported.
\<close>

definition evaluate_completeness :: "params \<Rightarrow> dataset \<Rightarrow> string + dq_evaluation" where
  "evaluate_completeness ps rows =
     bindR (require_text ''key_column'' ps) (\<lambda>c.
       case ps ''expected'' of
         Some (PList expected) \<Rightarrow>
           (let observed = map (\<lambda>row. row_get row c) rows;
                missing = remdups (filter (\<lambda>k. \<not> list_ex (py_eq k) observed) expected);
                unexpected = remdups (filter (\<lambda>k. \<not> list_ex (py_eq k) expected) observed)
            in Inr (offenders_result (missing @ unexpected) (length rows)))
       | _ \<Rightarrow> Inl ''ValueError'')"

definition evaluate_rule :: "string \<Rightarrow> params \<Rightarrow> dataset \<Rightarrow> string + dq_evaluation" where
  "evaluate_rule rule_type ps rows =
     (if rule_type = ''NOT_NULL'' then evaluate_not_null ps rows
      else if rule_type = ''ALLOWED_VALUES'' then evaluate_allowed_values ps rows
      else if rule_type = ''RANGE'' then evaluate_range ps rows
      else if rule_type = ''COMPLETENESS'' then evaluate_completeness ps rows
      else Inl ''UnknownRuleTypeError'')"

section \<open>Rules and results\<close>

record dq_rule =
  dr_id :: string
  dr_tenant :: string
  dr_code :: string
  dr_name :: string
  dr_type :: string
  dr_params :: params
  dr_target :: "string option"
  dr_severity :: string
  dr_active :: bool
  dr_version :: int

record dq_result =
  rs_tenant :: string
  rs_rule :: string
  rs_target_type :: "string option"
  rs_target_id :: "string option"
  rs_passed :: bool
  rs_outcome :: string
  rs_evaluation :: dq_evaluation
  rs_source :: "string option"
  rs_batch :: "string option"

datatype dq_event = RuleDefined string | RuleUpdated string "string list" | Validated string string bool

record dq_db =
  dq_rules :: "dq_rule list"
  dq_results :: "dq_result list"
  dq_events :: "dq_event list"

datatype dq_error =
    RuleNotVisible string | SourceNotVisible string | DuplicateRule string
  | RuleErrored string | RuleFailed string
  | NotUpdatable "string list" | NoChecksRecorded | BlockingChecks nat

definition register_dq_rule ::
  "string \<Rightarrow> string \<Rightarrow> string \<Rightarrow> string \<Rightarrow> string \<Rightarrow> params \<Rightarrow> string option \<Rightarrow> string \<Rightarrow> dq_db
    \<Rightarrow> dq_error + dq_db \<times> dq_rule" where
  "register_dq_rule rid t code name rule_type ps target severity db =
     (if list_ex (\<lambda>r. dr_tenant r = t \<and> dr_code r = code) (dq_rules db) then Inl (DuplicateRule code)
      else let r = \<lparr>dr_id = rid, dr_tenant = t, dr_code = code, dr_name = name, dr_type = rule_type,
             dr_params = ps, dr_target = target, dr_severity = severity, dr_active = True, dr_version = 1\<rparr>
        in Inr (db\<lparr>dq_rules := dq_rules db @ [r], dq_events := dq_events db @ [RuleDefined rid]\<rparr>, r))"

datatype rule_change =
    SetName string | SetRuleType string | SetParams params | SetTarget "string option"
  | SetSeverity string | SetActive bool | SetOther string

fun apply_change :: "rule_change \<Rightarrow> dq_rule \<Rightarrow> dq_rule" where
  "apply_change (SetName x) r = r\<lparr>dr_name := x\<rparr>"
| "apply_change (SetRuleType x) r = r\<lparr>dr_type := x\<rparr>"
| "apply_change (SetParams x) r = r\<lparr>dr_params := x\<rparr>"
| "apply_change (SetTarget x) r = r\<lparr>dr_target := x\<rparr>"
| "apply_change (SetSeverity x) r = r\<lparr>dr_severity := x\<rparr>"
| "apply_change (SetActive x) r = r\<lparr>dr_active := x\<rparr>"
| "apply_change (SetOther k) r = r"

fun change_key :: "rule_change \<Rightarrow> string" where
  "change_key (SetName x) = ''name''"
| "change_key (SetRuleType x) = ''rule_type''"
| "change_key (SetParams x) = ''params''"
| "change_key (SetTarget x) = ''target_entity_type''"
| "change_key (SetSeverity x) = ''severity''"
| "change_key (SetActive x) = ''is_active''"
| "change_key (SetOther k) = k"

fun is_other :: "rule_change \<Rightarrow> bool" where
  "is_other (SetOther k) = True"
| "is_other c = False"

definition update_dq_rule :: "string \<Rightarrow> rule_change list \<Rightarrow> dq_db \<Rightarrow> dq_error + dq_db" where
  "update_dq_rule rid changes db =
     (let unknown = filter is_other changes
      in if unknown \<noteq> [] then Inl (NotUpdatable (map change_key unknown))
      else Inr (db\<lparr>dq_rules := map (\<lambda>r. if dr_id r = rid
                 then (fold apply_change changes r)\<lparr>dr_version := dr_version r + 1\<rparr> else r) (dq_rules db),
               dq_events := dq_events db @ [RuleUpdated rid (map change_key changes)]\<rparr>))"

text \<open>
  The check returns the state it leaves together with the result or the error it raises: the result and the
  event are written before the raise, and a caller that rolls back drops them.
\<close>

definition check_result ::
  "dq_rule \<Rightarrow> string + dq_evaluation \<Rightarrow> string option \<Rightarrow> string option \<Rightarrow> string option \<Rightarrow> string option \<Rightarrow> dq_result" where
  "check_result rule evaluated target_type target_id source batch =
     (let ev = (case evaluated of Inr e \<Rightarrow> e
            | Inl _ \<Rightarrow> \<lparr>ev_passed = False, ev_observed = None, ev_evaluated = 0, ev_failed = 0\<rparr>);
          outcome = (if ev_passed ev then ''PASS''
            else if isOk evaluated \<and> dr_severity rule = ''WARNING'' then ''WARN'' else ''FAIL'')
      in \<lparr>rs_tenant = dr_tenant rule, rs_rule = dr_id rule, rs_target_type = target_type,
          rs_target_id = target_id, rs_passed = ev_passed ev, rs_outcome = outcome,
          rs_evaluation = ev, rs_source = source, rs_batch = batch\<rparr>)"

definition run_quality_check ::
  "string list \<Rightarrow> string \<Rightarrow> dataset \<Rightarrow> string option \<Rightarrow> string option \<Rightarrow> string option \<Rightarrow> string option
    \<Rightarrow> dq_db \<Rightarrow> dq_db \<times> (dq_error + dq_result)" where
  "run_quality_check sources rid rows target_type target_id source batch db =
     (case find (\<lambda>r. dr_id r = rid) (dq_rules db) of
        None \<Rightarrow> (db, Inl (RuleNotVisible rid))
      | Some rule \<Rightarrow>
          if opt_any source (\<lambda>s. s \<notin> set sources) then (db, Inl (SourceNotVisible (the source)))
          else
            let evaluated = evaluate_rule (dr_type rule) (dr_params rule) rows;
                res = check_result rule evaluated target_type target_id source batch;
                db = db\<lparr>dq_results := dq_results db @ [res],
                  dq_events := dq_events db @ [Validated (dr_id rule) (rs_outcome res) (rs_outcome res = ''PASS'')]\<rparr>
            in (db, case evaluated of
                  Inl e \<Rightarrow> Inl (RuleErrored e)
                | Inr _ \<Rightarrow> if rs_outcome res = ''FAIL'' then Inl (RuleFailed (dr_code rule)) else Inr res))"

definition assert_passed_quality_checks ::
  "string \<Rightarrow> string \<Rightarrow> string option \<Rightarrow> dq_db \<Rightarrow> dq_error + dq_result list" where
  "assert_passed_quality_checks target_type target_id t db =
     (let results = filter (\<lambda>r. rs_target_type r = Some target_type \<and> rs_target_id r = Some target_id \<and>
            (case t of None \<Rightarrow> True | Some t \<Rightarrow> rs_tenant r = t)) (dq_results db);
          blocking = filter (\<lambda>r. rs_outcome r = ''FAIL'') results
      in if results = [] then Inl NoChecksRecorded
         else if blocking \<noteq> [] then Inl (BlockingChecks (length blocking))
         else Inr results)"

section \<open>Gates\<close>

text \<open>Resolve-or-register a rule of the tenant; the new id is the one the database would draw for the code.\<close>

definition ensure_rule ::
  "(string \<Rightarrow> string) \<Rightarrow> string \<Rightarrow> string \<Rightarrow> string \<Rightarrow> string \<Rightarrow> params \<Rightarrow> string \<Rightarrow> dq_db
    \<Rightarrow> dq_error + dq_db \<times> dq_rule" where
  "ensure_rule ids t code name rule_type ps target db =
     (case find (\<lambda>r. dr_tenant r = t \<and> dr_code r = code) (dq_rules db) of
        Some r \<Rightarrow> Inr (db, r)
      | None \<Rightarrow> register_dq_rule (ids code) t code name rule_type ps (Some target) ''ERROR'' db)"

definition present_params :: params where
  "present_params = [''column'' \<mapsto> PV (VText ''present'')]"

definition ensure_presence_rule ::
  "(string \<Rightarrow> string) \<Rightarrow> string \<Rightarrow> string \<Rightarrow> string \<Rightarrow> string \<Rightarrow> dq_db \<Rightarrow> dq_error + dq_db \<times> dq_rule" where
  "ensure_presence_rule ids t code name target db =
     ensure_rule ids t code name ''NOT_NULL'' present_params target db"

definition run_presence_gate :: "string \<Rightarrow> string list \<Rightarrow> string \<Rightarrow> string \<Rightarrow> dq_db \<Rightarrow> dq_db \<times> (dq_error + dq_result)" where
  "run_presence_gate rid gaps target_type target_id db =
     (let rows = (if gaps = [] then [[''present'' \<mapsto> VBool True]] else map (\<lambda>_. [''present'' \<mapsto> VNone]) gaps)
      in run_quality_check [] rid rows (Some target_type) (Some target_id) None None db)"

text \<open>Ids drawn apart for every tenant and code, for the samples.\<close>

definition sample_ids :: "string \<Rightarrow> string \<Rightarrow> string" where
  "sample_ids t c = replicate (length t) (CHR ''1'') @ ''0'' @ t @ c"

lemma takeWhile_replicate: "x \<noteq> y \<Longrightarrow> takeWhile (\<lambda>z. z = x) (replicate n x @ y # ys) = replicate n x"
  by (induction n) auto

lemma sample_ids_inj: "inj (\<lambda>(t, c). sample_ids t c)"
proof (rule injI, clarsimp)
  fix t c t' c' assume eq: "sample_ids t c = sample_ids t' c'"
  then have "takeWhile (\<lambda>z. z = CHR ''1'') (sample_ids t c) = takeWhile (\<lambda>z. z = CHR ''1'') (sample_ids t' c')" by simp
  then have "length t = length t'" by (auto simp: sample_ids_def takeWhile_replicate dest: arg_cong[of _ _ length])
  then show "t = t' \<and> c = c'" using eq by (simp add: sample_ids_def)
qed

section \<open>What the rules decide\<close>

lemma offenders_passed [simp]: "ev_passed (offenders_result bad n) \<longleftrightarrow> bad = []"
  by (simp add: offenders_result_def split: list.splits)

lemma not_null_passes:
  "ps ''column'' = Some (PV (VText c)) \<Longrightarrow> c \<noteq> [] \<Longrightarrow>
   \<exists>ev. evaluate_not_null ps rows = Inr ev \<and> (ev_passed ev \<longleftrightarrow> (\<forall>row\<in>set rows. row_get row c \<noteq> VNone))"
  by (auto simp: evaluate_not_null_def require_text_def Let_def filter_empty_conv)

lemma completeness_passes:
  "ps ''key_column'' = Some (PV (VText c)) \<Longrightarrow> c \<noteq> [] \<Longrightarrow> ps ''expected'' = Some (PList expected) \<Longrightarrow>
   \<exists>ev. evaluate_completeness ps rows = Inr ev \<and>
     (ev_passed ev \<longleftrightarrow> (\<forall>k\<in>set expected. \<exists>row\<in>set rows. py_eq k (row_get row c)) \<and>
        (\<forall>row\<in>set rows. \<exists>k\<in>set expected. py_eq (row_get row c) k))"
  by (auto simp: evaluate_completeness_def require_text_def Let_def filter_empty_conv list_ex_iff)

text \<open>A finite Decimal column against a strict lower bound.\<close>

definition above_params :: "string \<Rightarrow> int \<Rightarrow> params" where
  "above_params c lo = [''column'' \<mapsto> PV (VText c), ''min'' \<mapsto> PV (VInt lo), ''min_inclusive'' \<mapsto> PV (VBool False)]"

lemma range_above:
  assumes "c \<noteq> []" "is_finite d"
  shows "\<exists>ev. evaluate_range (above_params c lo) [[c \<mapsto> VDec d]] = Inr ev \<and> (ev_passed ev \<longleftrightarrow> of_int lo < dec_val d)"
proof -
  obtain k e where d: "d = Fin k e" using assms(2) by (cases d) auto
  have le: "py_le (VDec d) (VInt lo) = Some (dec_val d \<le> of_int lo)"
    using dec_less_finite[of "Fin lo 0" d] assms(2) by (auto simp: py_le_def pow10_def)
  show ?thesis
    using assms(1) le
    by (auto simp: evaluate_range_def above_params_def require_text_def out_of_range_def past_bound_def
        inclusive_def row_get_def)
qed

definition outcome_of :: "dq_rule \<Rightarrow> dataset \<Rightarrow> string" where
  "outcome_of rule rows = (case evaluate_rule (dr_type rule) (dr_params rule) rows of
      Inl e \<Rightarrow> ''FAIL''
    | Inr ev \<Rightarrow> if ev_passed ev then ''PASS'' else if dr_severity rule = ''WARNING'' then ''WARN'' else ''FAIL'')"

lemma check_result_fields:
  "rs_outcome (check_result rule (evaluate_rule (dr_type rule) (dr_params rule) rows) tt ti source batch) = outcome_of rule rows"
  "rs_tenant (check_result rule e tt ti source batch) = dr_tenant rule"
  "rs_target_type (check_result rule e tt ti source batch) = tt"
  "rs_target_id (check_result rule e tt ti source batch) = ti"
  by (simp_all add: check_result_def outcome_of_def Let_def split: sum.splits)

lemma run_quality_check_ok:
  assumes "find (\<lambda>r. dr_id r = rid) (dq_rules db) = Some rule"
    and "\<not> opt_any source (\<lambda>s. s \<notin> set sources)"
  shows "isOk (snd (run_quality_check sources rid rows tt ti source batch db)) \<longleftrightarrow> outcome_of rule rows \<noteq> ''FAIL''"
  using assms
  by (auto simp: run_quality_check_def Let_def check_result_fields check_result_def outcome_of_def split: sum.splits)

lemma run_quality_check_state:
  assumes "find (\<lambda>r. dr_id r = rid) (dq_rules db) = Some rule"
    and "\<not> opt_any source (\<lambda>s. s \<notin> set sources)"
  shows "fst (run_quality_check sources rid rows tt ti source batch db) =
    db\<lparr>dq_results := dq_results db @ [check_result rule (evaluate_rule (dr_type rule) (dr_params rule) rows) tt ti source batch],
       dq_events := dq_events db @ [Validated rid (outcome_of rule rows) (outcome_of rule rows = ''PASS'')]\<rparr>"
proof -
  have "dr_id rule = rid" using assms by (auto simp: find_Some_iff)
  then show ?thesis using assms by (simp add: run_quality_check_def Let_def check_result_fields)
qed

text \<open>C22. No silent failure, for a check that names its target. A check of an invisible rule raises and leaves
  nothing, and so does a check of a visible rule that names an invisible data source. Every other check leaves exactly one result for its target and one
  audit event, which counts as a success only for a PASS; the outcome is PASS exactly when the rule's evaluator accepts
  the dataset, WARN only for a rule of severity WARNING whose evaluation did not raise, and FAIL otherwise, also when the
  evaluator raises; the call raises exactly on FAIL, and after a FAIL the quality gate refuses the target whatever
  checks follow.\<close>

theorem no_silent_failure:
  assumes run: "run_quality_check sources rid rows (Some tt) (Some ti) source batch db = (db', out)"
  shows "case find (\<lambda>r. dr_id r = rid) (dq_rules db) of
      None \<Rightarrow> db' = db \<and> out = Inl (RuleNotVisible rid)
    | Some rule \<Rightarrow>
      if opt_any source (\<lambda>s. s \<notin> set sources) then db' = db \<and> out = Inl (SourceNotVisible (the source))
      else \<exists>res. dq_results db' = dq_results db @ [res] \<and> rs_target_type res = Some tt \<and> rs_target_id res = Some ti
        \<and> rs_tenant res = dr_tenant rule \<and> rs_rule res = rid \<and> rs_source res = source \<and> rs_batch res = batch
        \<and> rs_outcome res = (case evaluate_rule (dr_type rule) (dr_params rule) rows of
            Inl e \<Rightarrow> ''FAIL''
          | Inr ev \<Rightarrow> if ev_passed ev then ''PASS'' else if dr_severity rule = ''WARNING'' then ''WARN'' else ''FAIL'')
        \<and> dq_events db' = dq_events db @ [Validated rid (rs_outcome res) (rs_outcome res = ''PASS'')]
        \<and> (isOk out \<longleftrightarrow> rs_outcome res \<noteq> ''FAIL'')
        \<and> (isOk out \<or> (\<forall>more t. (t = None \<or> t = Some (dr_tenant rule)) \<longrightarrow>
              \<not> isOk (assert_passed_quality_checks tt ti t (db'\<lparr>dq_results := dq_results db' @ more\<rparr>))))"
proof (cases "find (\<lambda>r. dr_id r = rid) (dq_rules db)")
  case None
  then show ?thesis using run by (simp add: run_quality_check_def)
next
  case (Some rule)
  show ?thesis
  proof (cases "opt_any source (\<lambda>s. s \<notin> set sources)")
    case True
    then show ?thesis using run Some by (simp add: run_quality_check_def)
  next
    case visible: False
    let ?res = "check_result rule (evaluate_rule (dr_type rule) (dr_params rule) rows) (Some tt) (Some ti) source batch"
    have id: "dr_id rule = rid" using Some by (auto simp: find_Some_iff)
    have db': "db' = db\<lparr>dq_results := dq_results db @ [?res],
         dq_events := dq_events db @ [Validated rid (outcome_of rule rows) (outcome_of rule rows = ''PASS'')]\<rparr>"
      using run_quality_check_state[OF Some visible, of rows "Some tt" "Some ti" batch] run by simp
    have ok: "isOk out \<longleftrightarrow> outcome_of rule rows \<noteq> ''FAIL''"
      using run_quality_check_ok[OF Some visible, of rows "Some tt" "Some ti" batch] run by simp
    have "\<not> isOk (assert_passed_quality_checks tt ti t (db'\<lparr>dq_results := dq_results db' @ more\<rparr>))"
      if "\<not> isOk out" "t = None \<or> t = Some (dr_tenant rule)" for t more
      using that ok unfolding db' by (auto simp: assert_passed_quality_checks_def Let_def filter_empty_conv check_result_fields)
    moreover have "rs_rule ?res = rid" "rs_source ?res = source" "rs_batch ?res = batch"
      using id by (simp_all add: check_result_def Let_def)
    ultimately show ?thesis
      using Some visible ok unfolding db' by (simp add: check_result_fields outcome_of_def)
  qed
qed

definition sample_rule :: dq_rule where
  "sample_rule = \<lparr>dr_id = ''r1'', dr_tenant = ''T'', dr_code = ''price.positive_price'', dr_name = ''Price strictly positive'',
     dr_type = ''RANGE'', dr_params = above_params ''price'' 0, dr_target = Some ''price_point'',
     dr_severity = ''ERROR'', dr_active = True, dr_version = 1\<rparr>"

theorem no_silent_failure_witness:
  "\<exists>db' out. run_quality_check [] ''r1'' [[''price'' \<mapsto> VDec (Fin 0 0)]] (Some ''price_point'') (Some ''p'') None None
      \<lparr>dq_rules = [sample_rule], dq_results = [], dq_events = []\<rparr> = (db', out)
    \<and> \<not> isOk (assert_passed_quality_checks ''price_point'' ''p'' None db')"
proof -
  let ?db = "\<lparr>dq_rules = [sample_rule], dq_results = [], dq_events = []\<rparr>"
  obtain db' out where run: "run_quality_check [] ''r1'' [[''price'' \<mapsto> VDec (Fin 0 0)]] (Some ''price_point'') (Some ''p'') None None ?db = (db', out)"
    by (cases "run_quality_check [] ''r1'' [[''price'' \<mapsto> VDec (Fin 0 0)]] (Some ''price_point'') (Some ''p'') None None ?db")
  have rule: "find (\<lambda>r. dr_id r = ''r1'') (dq_rules ?db) = Some sample_rule" by (simp add: sample_rule_def)
  have "\<exists>ev. evaluate_rule (dr_type sample_rule) (dr_params sample_rule) [[''price'' \<mapsto> VDec (Fin 0 0)]] = Inr ev \<and> \<not> ev_passed ev"
    using range_above[of "''price''" "Fin 0 0" 0] by (auto simp: evaluate_rule_def sample_rule_def)
  then have "\<not> isOk out"
    using no_silent_failure[OF run] unfolding rule by (auto simp: sample_rule_def)
  then have all: "\<forall>more t. (t = None \<or> t = Some (dr_tenant sample_rule)) \<longrightarrow>
      \<not> isOk (assert_passed_quality_checks ''price_point'' ''p'' t (db'\<lparr>dq_results := dq_results db' @ more\<rparr>))"
    using no_silent_failure[OF run] unfolding rule by (auto simp del: dq_db.update_convs)
  have "\<not> isOk (assert_passed_quality_checks ''price_point'' ''p'' None db')"
    using all[THEN spec[of _ "[]"], THEN spec[of _ None]] by simp
  then show ?thesis using run by blast
qed

end
