(* ===== verification/Bitemporal.thy ===== *)
theory Bitemporal
  imports Dq
begin

text \<open>
  The bitemporal (``full reproducible'') protocol that positions, valuations, instrument terms and the
  captured market-data series share, as each binder writes it out: a version is open on the valid axis
  until a supersede stamps its \<open>valid_to\<close>, and on the system axis until a correction stamps its
  \<open>system_to\<close>; a partial unique index allows one version per logical key that is open on both. The
  content of a version is the dictionary of its captured columns. A table is a list of versions in insertion order;
  one call is one transaction, so a failing call leaves no trace.
\<close>

section \<open>Rows\<close>

type_synonym content = "string \<rightharpoonup> field_value"

record 'k version =
  v_id :: string
  v_tenant :: string
  v_key :: 'k
  valid_from :: pydatetime
  valid_to :: "pydatetime option"
  system_from :: pydatetime
  system_to :: "pydatetime option"
  v_content :: content
  mapping_version :: "string option"
  restatement_reason :: "string option"
  supersedes_id :: "string option"
  record_version :: int

text \<open>
  What a binder leaves behind besides the rows: its audit events and one ORIGIN lineage edge per
  new version (the target's id).
\<close>

datatype 'k fr_event =
    CreateEvent string "'k version"
  | ValidCloseEvent string string "pydatetime option" "pydatetime option"
  | SystemCloseEvent string string "pydatetime option" "pydatetime option"
  | CorrectionEvent string "'k version" string

record 'k fr_db =
  versions :: "'k version list"
  fr_events :: "('k fr_event \<times> pydatetime) list"
  origin_edges :: "string list"

datatype 'k fr_error =
    RefNotVisible string string
  | BadVocabulary string string
  | UnknownFields "string list"
  | NoCurrent 'k
  | IncoherentWindow pydatetime pydatetime
  | VersionNotVisible string
  | MultipleResultsFound
  | DuplicateHead
  | DuplicateId string
  | NullViolation string
  | BadValue string
  | GateRefused dq_error

text \<open>The names a binder uses: its captured columns, those that are NOT NULL, and its audit event types.\<close>

record fr_family =
  fam_fields :: "string list"
  fam_not_null :: "string list"
  ev_create :: string
  ev_update :: string
  ev_correction :: string

section \<open>The protocol\<close>

text \<open>\<open>assert_supersede_effective_at\<close>\<close>

definition assert_supersede_effective_at :: "pydatetime \<Rightarrow> pydatetime \<Rightarrow> 'k fr_error + unit" where
  "assert_supersede_effective_at prior_from eff =
     (if utc_of eff \<le> utc_of prior_from then Inl (IncoherentWindow eff prior_from) else Inr ())"

text \<open>\<open>scalar_one_or_none\<close>\<close>

fun scalar_one_or_none :: "'r list \<Rightarrow> 'k fr_error + 'r option" where
  "scalar_one_or_none [] = Inr None"
| "scalar_one_or_none [r] = Inr (Some r)"
| "scalar_one_or_none (r # s # rs) = Inl MultipleResultsFound"

definition is_head :: "string \<Rightarrow> 'k \<Rightarrow> 'k version \<Rightarrow> bool" where
  "is_head t k r \<longleftrightarrow> v_tenant r = t \<and> v_key r = k \<and> valid_to r = None \<and> system_to r = None"

definition current_open :: "'k fr_db \<Rightarrow> string \<Rightarrow> 'k \<Rightarrow> 'k fr_error + 'k version option" where
  "current_open db t k = scalar_one_or_none (filter (is_head t k) (versions db))"

definition resolve_version :: "'k fr_db \<Rightarrow> string \<Rightarrow> string \<Rightarrow> 'k fr_error + 'k version" where
  "resolve_version db i t =
     bindR (scalar_one_or_none (filter (\<lambda>r. v_id r = i \<and> v_tenant r = t) (versions db)))
       (\<lambda>row. case row of None \<Rightarrow> Inl (VersionNotVisible i) | Some r \<Rightarrow> Inr r)"

definition check_field_kwargs :: "fr_family \<Rightarrow> (string \<times> field_value) list \<Rightarrow> 'k fr_error + unit" where
  "check_field_kwargs fam kw =
     (let unknown = filter (\<lambda>f. f \<notin> set (fam_fields fam)) (map fst kw)
      in if unknown \<noteq> [] then Inl (UnknownFields unknown) else Inr ())"

text \<open>
  \<open>session.add\<close> and \<open>flush\<close>, with the NOT NULL columns, the primary key and the partial unique
  index of the current head.
\<close>

definition insert_version :: "fr_family \<Rightarrow> 'k version \<Rightarrow> 'k fr_db \<Rightarrow> 'k fr_error + 'k fr_db" where
  "insert_version fam r db =
     (case filter (\<lambda>f. v_content r f = None \<or> v_content r f = Some VNone) (fam_not_null fam) of
        f # fs \<Rightarrow> Inl (NullViolation f)
      | [] \<Rightarrow>
      if v_id r \<in> v_id ` set (versions db) then Inl (DuplicateId (v_id r))
      else if valid_to r = None \<and> system_to r = None \<and>
         list_ex (is_head (v_tenant r) (v_key r)) (versions db)
      then Inl DuplicateHead
      else Inr (db\<lparr>versions := versions db @ [r]\<rparr>))"

definition update_version :: "string \<Rightarrow> ('k version \<Rightarrow> 'k version) \<Rightarrow> 'k fr_db \<Rightarrow> 'k fr_db" where
  "update_version i f db = db\<lparr>versions := map (\<lambda>r. if v_id r = i then f r else r) (versions db)\<rparr>"

definition record_create :: "fr_family \<Rightarrow> 'k version \<Rightarrow> pydatetime \<Rightarrow> 'k fr_db \<Rightarrow> 'k fr_db" where
  "record_create fam r now db =
     db\<lparr>origin_edges := origin_edges db @ [v_id r],
        fr_events := fr_events db @ [(CreateEvent (ev_create fam) r, now)]\<rparr>"

definition record_update :: "'k fr_event \<Rightarrow> pydatetime \<Rightarrow> 'k fr_db \<Rightarrow> 'k fr_db" where
  "record_update ev now db = db\<lparr>fr_events := fr_events db @ [(ev, now)]\<rparr>"

definition record_correction ::
  "fr_family \<Rightarrow> 'k version \<Rightarrow> string \<Rightarrow> pydatetime \<Rightarrow> 'k fr_db \<Rightarrow> 'k fr_db" where
  "record_correction fam r reason now db =
     db\<lparr>origin_edges := origin_edges db @ [v_id r],
        fr_events := fr_events db @ [(CorrectionEvent (ev_correction fam) r reason, now)]\<rparr>"

text \<open>
  The first version of a key. The gate is the data-quality check some binders run between the flush and the
  event; it writes its own tables (the state \<open>x\<close>), and a refusal rolls the transaction back.
\<close>

fun create_version ::
  "fr_family \<Rightarrow> ('k version \<Rightarrow> 'x \<Rightarrow> 'k fr_error + 'x) \<Rightarrow> string \<Rightarrow> 'k \<Rightarrow> content \<Rightarrow> string option
    \<Rightarrow> pydatetime option \<Rightarrow> string \<Rightarrow> pydatetime \<Rightarrow> 'x \<times> 'k fr_db \<Rightarrow> 'k fr_error + ('x \<times> 'k fr_db) \<times> 'k version" where
  "create_version fam gate t k cols mapping from nid now (x, db) =
     (let row = \<lparr>v_id = nid, v_tenant = t, v_key = k,
          valid_from = (case from of None \<Rightarrow> now | Some f \<Rightarrow> f), valid_to = None,
          system_from = now, system_to = None, v_content = cols, mapping_version = mapping,
          restatement_reason = None, supersedes_id = None, record_version = 1\<rparr>
      in bindR (insert_version fam row db) (\<lambda>db.
         bindR (gate row x) (\<lambda>x. Inr ((x, record_create fam row now db), row))))"

fun supersede_version ::
  "fr_family \<Rightarrow> ('k version \<Rightarrow> 'x \<Rightarrow> 'k fr_error + 'x) \<Rightarrow> string \<Rightarrow> 'k \<Rightarrow> pydatetime
    \<Rightarrow> (string \<times> field_value) list \<Rightarrow> string option \<Rightarrow> string \<Rightarrow> pydatetime \<Rightarrow> 'x \<times> 'k fr_db
    \<Rightarrow> 'k fr_error + ('x \<times> 'k fr_db) \<times> 'k version" where
  "supersede_version fam gate t k eff kw mapping nid now (x, db) =
     bindR (check_field_kwargs fam kw) (\<lambda>_.
     bindR (current_open db t k) (\<lambda>head. case head of
       None \<Rightarrow> Inl (NoCurrent k)
     | Some prior \<Rightarrow>
         bindR (assert_supersede_effective_at (valid_from prior) eff) (\<lambda>_.
         let db = update_version (v_id prior) (\<lambda>r. r\<lparr>valid_to := Some eff\<rparr>) db;
             db = record_update (ValidCloseEvent (ev_update fam) (v_id prior) (valid_to prior) (Some eff)) now db;
             new = \<lparr>v_id = nid, v_tenant = t, v_key = k, valid_from = eff, valid_to = None,
               system_from = now, system_to = None, v_content = v_content prior ++ map_of kw,
               mapping_version = mapping, restatement_reason = None, supersedes_id = Some (v_id prior),
               record_version = record_version prior + 1\<rparr>
         in bindR (insert_version fam new db) (\<lambda>db.
            bindR (gate new x) (\<lambda>x. Inr ((x, record_create fam new now db), new))))))"

fun correct_version ::
  "fr_family \<Rightarrow> ('k version \<Rightarrow> 'x \<Rightarrow> 'k fr_error + 'x) \<Rightarrow> string \<Rightarrow> 'k version \<Rightarrow> string
    \<Rightarrow> (string \<times> field_value) list \<Rightarrow> string option \<Rightarrow> string \<Rightarrow> pydatetime \<Rightarrow> 'x \<times> 'k fr_db
    \<Rightarrow> 'k fr_error + ('x \<times> 'k fr_db) \<times> 'k version" where
  "correct_version fam gate t row reason kw mapping nid now (x, db) =
     bindR (check_field_kwargs fam kw) (\<lambda>_.
       let db = update_version (v_id row) (\<lambda>r. r\<lparr>system_to := Some now\<rparr>) db;
           db = record_update (SystemCloseEvent (ev_update fam) (v_id row) (system_to row) (Some now)) now db;
           new = \<lparr>v_id = nid, v_tenant = t, v_key = v_key row, valid_from = valid_from row,
             valid_to = valid_to row, system_from = now, system_to = None,
             v_content = v_content row ++ map_of kw, mapping_version = mapping,
             restatement_reason = Some reason, supersedes_id = Some (v_id row),
             record_version = record_version row + 1\<rparr>
       in bindR (insert_version fam new db) (\<lambda>db.
          bindR (gate new x) (\<lambda>x. Inr ((x, record_correction fam new reason now db), new))))"

declare create_version.simps [simp del] supersede_version.simps [simp del] correct_version.simps [simp del]

text \<open>The as-of read: half-open windows on both axes.\<close>

definition covers_valid :: "'k version \<Rightarrow> int \<Rightarrow> bool" where
  "covers_valid r v \<longleftrightarrow> utc_of (valid_from r) \<le> v \<and>
     (case valid_to r of None \<Rightarrow> True | Some x \<Rightarrow> v < utc_of x)"

definition covers_known :: "'k version \<Rightarrow> int \<Rightarrow> bool" where
  "covers_known r s \<longleftrightarrow> utc_of (system_from r) \<le> s \<and>
     (case system_to r of None \<Rightarrow> True | Some x \<Rightarrow> s < utc_of x)"

definition reconstruct_as_of ::
  "'k fr_db \<Rightarrow> string \<Rightarrow> 'k \<Rightarrow> pydatetime \<Rightarrow> pydatetime option \<Rightarrow> pydatetime
    \<Rightarrow> 'k fr_error + 'k version option" where
  "reconstruct_as_of db t k valid_at known_at now =
     (let known = (case known_at of None \<Rightarrow> now | Some x \<Rightarrow> x)
      in scalar_one_or_none (filter (\<lambda>r. v_tenant r = t \<and> v_key r = k \<and>
           covers_valid r (utc_of valid_at) \<and> covers_known r (utc_of known)) (versions db)))"

section \<open>The shared invariant\<close>

definition hits :: "'k version list \<Rightarrow> string \<Rightarrow> 'k \<Rightarrow> int \<Rightarrow> int \<Rightarrow> 'k version list" where
  "hits rs t k s v = filter (\<lambda>r. v_tenant r = t \<and> v_key r = k \<and> covers_valid r v \<and> covers_known r s) rs"

text \<open>
  No two versions of a key meet on both axes, a key with versions has a current head, ids identify versions,
  and nothing was recorded after the clock.
\<close>

definition fr_wf :: "int \<Rightarrow> 'k fr_db \<Rightarrow> bool" where
  "fr_wf clock db \<longleftrightarrow> distinct (map v_id (versions db)) \<and>
     (\<forall>t k s v. length (hits (versions db) t k s v) \<le> 1) \<and>
     (\<forall>r\<in>set (versions db). list_ex (is_head (v_tenant r) (v_key r)) (versions db)) \<and>
     (\<forall>r\<in>set (versions db). utc_of (system_from r) \<le> clock)"

lemma scalar_short: "length rs \<le> 1 \<Longrightarrow> scalar_one_or_none rs = Inr (case rs of [] \<Rightarrow> None | r # _ \<Rightarrow> Some r)"
  by (cases rs rule: scalar_one_or_none.cases) auto

lemma reconstruct_hits:
  "reconstruct_as_of db t k valid_at known_at now =
     scalar_one_or_none (hits (versions db) t k (utc_of (case known_at of None \<Rightarrow> now | Some x \<Rightarrow> x)) (utc_of valid_at))"
  by (simp add: reconstruct_as_of_def hits_def)

lemma hits_append: "hits (rs @ qs) t k s v = hits rs t k s v @ hits qs t k s v"
  by (simp add: hits_def)

lemma hits_Cons: "hits (r # rs) t k s v = hits [r] t k s v @ hits rs t k s v"
  by (simp add: hits_def)

lemma hits_one: "hits [r] t k s v = (if v_tenant r = t \<and> v_key r = k \<and> covers_valid r v \<and> covers_known r s then [r] else [])"
  by (simp add: hits_def)

lemma fr_wf_empty: "fr_wf clock \<lparr>versions = [], fr_events = evs, origin_edges = es\<rparr>"
  by (simp add: fr_wf_def hits_def)

lemma is_headI: "v_tenant r = t \<Longrightarrow> v_key r = k \<Longrightarrow> valid_to r = None \<Longrightarrow> system_to r = None \<Longrightarrow> is_head t k r"
  by (simp add: is_head_def)

lemma head_hit: "is_head t k h \<Longrightarrow> utc_of (valid_from h) \<le> v \<Longrightarrow> utc_of (system_from h) \<le> s \<Longrightarrow> hits [h] t k s v = [h]"
  by (simp add: is_head_def hits_one covers_valid_def covers_known_def)

lemma short_list_single: "{r, q} \<subseteq> set xs \<Longrightarrow> length xs \<le> 1 \<Longrightarrow> r = q"
  by (cases xs) auto

text \<open>In a well-formed table the current head is unique.\<close>

lemma head_unique:
  assumes wf: "fr_wf clock db" and "r \<in> set (versions db)" "q \<in> set (versions db)" "is_head t k r" "is_head t k q"
  shows "r = q"
proof -
  define v where "v = max (utc_of (valid_from r)) (utc_of (valid_from q))"
  define s where "s = max (utc_of (system_from r)) (utc_of (system_from q))"
  have "{r, q} \<subseteq> set (hits (versions db) t k s v)"
    using assms(2-5) by (auto simp: hits_def is_head_def covers_valid_def covers_known_def v_def s_def)
  moreover have "length (hits (versions db) t k s v) \<le> 1" using wf unfolding fr_wf_def by blast
  ultimately show ?thesis by (rule short_list_single)
qed

lemma current_open_Some:
  assumes "fr_wf clock db" "current_open db t k = Inr (Some h)"
  shows "h \<in> set (versions db)" "is_head t k h"
proof -
  have "h \<in> set (filter (is_head t k) (versions db))"
    using assms(2) unfolding current_open_def
    by (cases "filter (is_head t k) (versions db)" rule: scalar_one_or_none.cases) auto
  then show "h \<in> set (versions db)" "is_head t k h" by auto
qed

lemma current_open_wf:
  assumes wf: "fr_wf clock db"
  shows "current_open db t k = Inr None \<and> \<not> list_ex (is_head t k) (versions db) \<or>
    (\<exists>h. current_open db t k = Inr (Some h) \<and> h \<in> set (versions db) \<and> is_head t k h)"
proof -
  let ?hs = "filter (is_head t k) (versions db)"
  have "distinct (map v_id ?hs)" using wf by (simp add: fr_wf_def distinct_map_filter)
  moreover have "r = q" if "r \<in> set ?hs" "q \<in> set ?hs" for r q
    using head_unique[OF wf] that by auto
  ultimately have "length ?hs \<le> 1"
    by (cases ?hs rule: scalar_one_or_none.cases) auto
  moreover have "set ?hs \<subseteq> {h. h \<in> set (versions db) \<and> is_head t k h}" by auto
  ultimately show ?thesis
    unfolding current_open_def
    by (cases ?hs) (auto simp: list_ex_iff filter_empty_conv)
qed

lemma update_split:
  assumes "distinct (map v_id (xs @ h # ys))"
  shows "map (\<lambda>r. if v_id r = v_id h then f r else r) (xs @ h # ys) = xs @ f h # ys"
proof -
  have "map (\<lambda>r. if v_id r = v_id h then f r else r) zs = zs" if "v_id h \<notin> v_id ` set zs" for zs
    using that by (intro map_idI) (auto simp: image_iff)
  then show ?thesis using assms by simp
qed

lemma by_id_split:
  fixes h :: "'k version"
  assumes "distinct (map v_id (xs @ h # ys))"
  shows "filter (\<lambda>r. v_id r = v_id h \<and> v_tenant r = v_tenant h) (xs @ h # ys) = [h]"
proof -
  have "filter (\<lambda>r. v_id r = v_id h \<and> v_tenant r = v_tenant h) zs = []" if "v_id h \<notin> v_id ` set zs" for zs :: "'k version list"
    using that by (auto simp: filter_empty_conv image_iff)
  then show ?thesis using assms by simp
qed

section \<open>The as-of view\<close>

text \<open>What a reader sees of a key at a knowledge instant and a business instant.\<close>

type_synonym 'k as_of_view = "string \<Rightarrow> 'k \<Rightarrow> int \<Rightarrow> int \<Rightarrow> (string \<times> content) option"

definition as_of_view :: "'k fr_db \<Rightarrow> 'k as_of_view" where
  "as_of_view db t k s v =
     (case hits (versions db) t k s v of [] \<Rightarrow> None | r # _ \<Rightarrow> Some (v_id r, v_content r))"

definition covers :: "'k version \<Rightarrow> int \<Rightarrow> int \<Rightarrow> bool" where
  "covers r s v \<longleftrightarrow> covers_valid r v \<and> covers_known r s"

text \<open>The abstract operations: a function is changed on a rectangle of the two axes.\<close>

definition view_write ::
  "string \<Rightarrow> 'k \<Rightarrow> (int \<Rightarrow> int \<Rightarrow> bool) \<Rightarrow> (string \<times> content) option \<Rightarrow> 'k as_of_view \<Rightarrow> 'k as_of_view" where
  "view_write t k area x f = (\<lambda>t' k' s v. if t' = t \<and> k' = k \<and> area s v then x else f t' k' s v)"

lemma view_write_twice: "view_write t k area x (view_write t k area y f) = view_write t k area x f"
  by (intro ext) (simp add: view_write_def)

text \<open>
  One version of a key is replaced by a part of itself and a new version is appended
  that lies in what the part has given up: both close-first protocols are of this form.
\<close>

definition replaced_by :: "'k version list \<Rightarrow> 'k version \<Rightarrow> 'k version \<Rightarrow> 'k version \<Rightarrow> 'k version list \<Rightarrow> bool" where
  "replaced_by xs h h' n ys \<longleftrightarrow>
     v_tenant h' = v_tenant h \<and> v_key h' = v_key h \<and> v_id h' = v_id h \<and> v_content h' = v_content h \<and>
     v_tenant n = v_tenant h \<and> v_key n = v_key h \<and>
     (\<forall>t k s v. length (hits (xs @ h # ys) t k s v) \<le> 1) \<and>
     (\<forall>s v. covers n s v \<longrightarrow> covers h s v) \<and>
     (\<forall>s v. covers h' s v \<longrightarrow> covers h s v \<and> \<not> covers n s v)"

lemma hits_shape:
  "replaced_by xs h h' n ys \<Longrightarrow> hits (xs @ h # ys) t k s v
    = hits xs t k s v @ (if v_tenant h = t \<and> v_key h = k \<and> covers h s v then [h] else []) @ hits ys t k s v"
  "replaced_by xs h h' n ys \<Longrightarrow> hits (xs @ h' # ys @ [n]) t k s v
    = hits xs t k s v @ (if v_tenant h = t \<and> v_key h = k \<and> covers h' s v then [h'] else [])
     @ hits ys t k s v @ (if v_tenant h = t \<and> v_key h = k \<and> covers n s v then [n] else [])"
  by (simp_all add: hits_append hits_Cons[of h] hits_Cons[of h'] hits_one replaced_by_def covers_def)

lemma hits_counted:
  assumes "replaced_by xs h h' n ys"
  shows "length (hits xs t k s v) + length (hits ys t k s v)
    + (if v_tenant h = t \<and> v_key h = k \<and> covers h s v then 1 else 0) \<le> 1"
proof -
  have "length (hits (xs @ h # ys) t k s v) \<le> 1" using assms unfolding replaced_by_def by blast
  then show ?thesis unfolding hits_shape(1)[OF assms] by (auto split: if_splits)
qed

lemma replaced_byD:
  assumes "replaced_by xs h h' n ys"
  shows "covers n s v \<Longrightarrow> covers h s v" "covers h' s v \<Longrightarrow> covers h s v" "covers h' s v \<Longrightarrow> \<not> covers n s v"
    "v_id h' = v_id h" "v_content h' = v_content h"
  using assms unfolding replaced_by_def by blast+

lemma single_after:
  assumes rb: "replaced_by xs h h' n ys"
  shows "length (hits (xs @ h' # ys @ [n]) t k s v) \<le> 1"
  using hits_counted[OF rb, of t k s v] replaced_byD(1-3)[OF rb, of s v]
  unfolding hits_shape(2)[OF rb] by (auto split: if_splits)

lemma view_after:
  assumes rb: "replaced_by xs h h' n ys" and db: "versions db = xs @ h # ys" "versions db' = xs @ h' # ys @ [n]"
  shows "as_of_view db' = view_write (v_tenant h) (v_key h) (covers n) (Some (v_id n, v_content n))
    (view_write (v_tenant h) (v_key h) (\<lambda>s v. covers h s v \<and> \<not> covers h' s v) None (as_of_view db))"
proof (intro ext)
  fix t k s v
  note D = replaced_byD(1-3)[OF rb, of s v] replaced_byD(4,5)[OF rb] and shape = hits_shape[OF rb, of t k s v]
  show "as_of_view db' t k s v = view_write (v_tenant h) (v_key h) (covers n) (Some (v_id n, v_content n))
    (view_write (v_tenant h) (v_key h) (\<lambda>s v. covers h s v \<and> \<not> covers h' s v) None (as_of_view db)) t k s v"
  proof (cases "v_tenant h = t \<and> v_key h = k \<and> covers h s v")
    case True
    then have "hits xs t k s v = []" "hits ys t k s v = []" using hits_counted[OF rb, of t k s v] by simp_all
    then show ?thesis using True D unfolding as_of_view_def view_write_def db shape by simp
  next
    case False
    then show ?thesis using D(1,2) unfolding as_of_view_def view_write_def db shape by auto
  qed
qed

lemma view_append:
  assumes "versions db' = versions db @ [n]" "\<And>s v. hits (versions db) (v_tenant n) (v_key n) s v = []"
  shows "as_of_view db' = view_write (v_tenant n) (v_key n) (covers n) (Some (v_id n, v_content n)) (as_of_view db)"
  by (intro ext) (auto simp: as_of_view_def view_write_def assms hits_append hits_one covers_def)

section \<open>The operations on the as-of view\<close>

lemma insert_version_ok:
  "insert_version fam r db = Inr db' \<Longrightarrow> versions db' = versions db @ [r] \<and> v_id r \<notin> v_id ` set (versions db) \<and>
     (valid_to r = None \<and> system_to r = None \<longrightarrow> \<not> list_ex (is_head (v_tenant r) (v_key r)) (versions db))"
  by (auto simp: insert_version_def split: if_splits list.splits)

lemma insert_not_null:
  "insert_version fam r db = Inr db' \<Longrightarrow> filter (\<lambda>f. v_content r f = None \<or> v_content r f = Some VNone) (fam_not_null fam) = []"
  by (simp add: insert_version_def split: list.splits)

lemma record_versions [simp]:
  "versions (record_create fam r now db) = versions db" "versions (record_update ev now db) = versions db"
  "versions (record_correction fam r reason now db) = versions db"
  by (simp_all add: record_create_def record_update_def record_correction_def)

lemma create_version_effect:
  assumes "create_version fam gate t k cols mapping from nid now (x, db) = Inr ((x', db'), row)"
  shows "versions db' = versions db @ [row] \<and> nid \<notin> v_id ` set (versions db) \<and> \<not> list_ex (is_head t k) (versions db) \<and> gate row x = Inr x'
    \<and> v_id row = nid \<and> v_tenant row = t \<and> v_key row = k \<and> v_content row = cols
    \<and> valid_from row = (case from of None \<Rightarrow> now | Some f \<Rightarrow> f) \<and> valid_to row = None
    \<and> system_from row = now \<and> system_to row = None"
  using assms by (auto simp: create_version.simps Let_def bindR_Inr dest!: insert_version_ok)

lemma supersede_version_effect:
  assumes wf: "fr_wf clock db"
    and ok: "supersede_version fam gate t k eff kw mapping nid now (x, db) = Inr ((x', db'), new)"
  obtains xs h ys where "versions db = xs @ h # ys" "is_head t k h" "current_open db t k = Inr (Some h)"
    "versions db' = xs @ h\<lparr>valid_to := Some eff\<rparr> # ys @ [new]" "utc_of (valid_from h) < utc_of eff"
    "v_id new = nid" "v_tenant new = t" "v_key new = k" "v_content new = v_content h ++ map_of kw"
    "valid_from new = eff" "valid_to new = None" "system_from new = now" "system_to new = None"
    "set (map fst kw) \<subseteq> set (fam_fields fam)" "gate new x = Inr x'" "nid \<notin> v_id ` set (versions db)"
proof -
  obtain h where h: "current_open db t k = Inr (Some h)"
    using ok by (auto simp: supersede_version.simps bindR_Inr split: option.splits)
  have hd: "is_head t k h" "h \<in> set (versions db)" using current_open_Some[OF wf h] by auto
  obtain xs ys where split: "versions db = xs @ h # ys" using hd(2) by (meson split_list)
  have d: "distinct (map v_id (xs @ h # ys))" using wf split by (simp add: fr_wf_def)
  have up: "versions (update_version (v_id h) (\<lambda>r. r\<lparr>valid_to := Some eff\<rparr>) db) = xs @ h\<lparr>valid_to := Some eff\<rparr> # ys"
    using update_split[OF d, of "\<lambda>r. r\<lparr>valid_to := Some eff\<rparr>"] by (simp add: update_version_def split)
  show thesis
    using ok h hd(1) split up
    by (auto simp: supersede_version.simps bindR_Inr Let_def check_field_kwargs_def assert_supersede_effective_at_def
        filter_empty_conv split: if_splits dest!: insert_version_ok intro!: that)
qed

lemma fr_wf_replaced:
  assumes wf: "fr_wf clock db" and db: "versions db = xs @ h # ys" "versions db' = xs @ h' # ys @ [n]"
    and rb: "replaced_by xs h h' n ys" and fresh: "v_id n \<notin> v_id ` set (versions db)"
    and clock: "clock \<le> now" "utc_of (system_from n) \<le> now" and sf: "system_from h' = system_from h"
    and heads: "is_head (v_tenant h) (v_key h) h \<Longrightarrow> is_head (v_tenant h) (v_key h) n"
  shows "fr_wf now db'"
proof -
  have same: "v_tenant h' = v_tenant h" "v_key h' = v_key h" "v_tenant n = v_tenant h" "v_key n = v_key h"
    using rb unfolding replaced_by_def by blast+
  have "distinct (map v_id (xs @ h # ys))" using wf unfolding fr_wf_def db by blast
  then have "distinct (map v_id (versions db'))"
    using fresh replaced_byD(4)[OF rb] by (auto simp: db)
  moreover have "list_ex (is_head (v_tenant r) (v_key r)) (versions db')" if r: "r \<in> set (versions db')" for r
  proof -
    have "\<exists>r0\<in>set (versions db). v_tenant r0 = v_tenant r \<and> v_key r0 = v_key r"
      using r same unfolding db by auto
    then obtain r0 where r0: "r0 \<in> set (versions db)" "v_tenant r0 = v_tenant r" "v_key r0 = v_key r" by blast
    then have "list_ex (is_head (v_tenant r) (v_key r)) (versions db)" using wf unfolding fr_wf_def by metis
    then obtain q where q: "q \<in> set (versions db)" "is_head (v_tenant r) (v_key r) q" by (auto simp: list_ex_iff)
    show ?thesis
    proof (cases "q = h")
      case True
      then have "v_tenant r = v_tenant h" "v_key r = v_key h" using q(2) by (simp_all add: is_head_def)
      then show ?thesis using heads q(2) True by (simp add: db list_ex_iff)
    next
      case False
      then show ?thesis using q by (auto simp: db list_ex_iff)
    qed
  qed
  moreover have "utc_of (system_from r) \<le> now" if "r \<in> set (versions db')" for r
  proof -
    have old: "utc_of (system_from q) \<le> now" if "q \<in> set (versions db)" for q
      using wf clock(1) that unfolding fr_wf_def by (meson order_trans)
    show ?thesis using that old clock(2) sf unfolding db by auto
  qed
  moreover have "\<forall>t k s v. length (hits (versions db') t k s v) \<le> 1" unfolding db using single_after[OF rb] by blast
  ultimately show ?thesis unfolding fr_wf_def by blast
qed

lemma supersede_replaced:
  assumes wf: "fr_wf clock db" and "clock \<le> utc_of now"
    and "versions db = xs @ h # ys" "is_head t k h" "utc_of (valid_from h) < utc_of eff"
    and new: "v_tenant n = t" "v_key n = k" "valid_from n = eff" "valid_to n = None" "system_from n = now" "system_to n = None"
  shows "replaced_by xs h (h\<lparr>valid_to := Some eff\<rparr>) n ys"
    and "covers n = (\<lambda>s v. utc_of now \<le> s \<and> utc_of eff \<le> v)"
    and "(\<lambda>s v. covers h s v \<and> \<not> covers (h\<lparr>valid_to := Some eff\<rparr>) s v)
      = (\<lambda>s v. utc_of (system_from h) \<le> s \<and> utc_of eff \<le> v)"
proof -
  have "h \<in> set (versions db)" using assms(3) by simp
  then have s0: "utc_of (system_from h) \<le> utc_of now" using wf assms(2) unfolding fr_wf_def by force
  have one: "\<forall>t k s v. length (hits (xs @ h # ys) t k s v) \<le> 1" using wf unfolding fr_wf_def assms(3) by blast
  have ch: "covers h s v = (utc_of (valid_from h) \<le> v \<and> utc_of (system_from h) \<le> s)"
      "covers (h\<lparr>valid_to := Some eff\<rparr>) s v = (utc_of (valid_from h) \<le> v \<and> v < utc_of eff \<and> utc_of (system_from h) \<le> s)"
      "covers n s v = (utc_of eff \<le> v \<and> utc_of now \<le> s)" for s v
    using assms(4) new by (simp_all add: covers_def covers_valid_def covers_known_def is_head_def)
  show "replaced_by xs h (h\<lparr>valid_to := Some eff\<rparr>) n ys"
    unfolding replaced_by_def ch using one assms(4,5) new s0 by (simp add: is_head_def)
  show "covers n = (\<lambda>s v. utc_of now \<le> s \<and> utc_of eff \<le> v)" unfolding ch by (intro ext) blast
  show "(\<lambda>s v. covers h s v \<and> \<not> covers (h\<lparr>valid_to := Some eff\<rparr>) s v)
      = (\<lambda>s v. utc_of (system_from h) \<le> s \<and> utc_of eff \<le> v)"
    unfolding ch using assms(5) by (intro ext) (auto simp: not_less)
qed

text \<open>
  A supersede writes the rectangle from the effective instant and the present on, and
  takes away what the head said, also to earlier knowledge, from the effective instant on.
\<close>

lemma supersede_view:
  assumes wf: "fr_wf clock db" and "clock \<le> utc_of now"
    and ok: "supersede_version fam gate t k eff kw mapping nid now (x, db) = Inr ((x', db'), new)"
  obtains h where "current_open db t k = Inr (Some h)"
    "as_of_view db' = view_write t k (\<lambda>s v. utc_of now \<le> s \<and> utc_of eff \<le> v) (Some (nid, v_content h ++ map_of kw))
      (view_write t k (\<lambda>s v. utc_of (system_from h) \<le> s \<and> utc_of eff \<le> v) None (as_of_view db))"
    "fr_wf (utc_of now) db'"
proof -
  obtain xs h ys where E: "versions db = xs @ h # ys" "is_head t k h" "current_open db t k = Inr (Some h)"
    "versions db' = xs @ h\<lparr>valid_to := Some eff\<rparr> # ys @ [new]" "utc_of (valid_from h) < utc_of eff"
    "v_id new = nid" "v_tenant new = t" "v_key new = k" "v_content new = v_content h ++ map_of kw"
    "valid_from new = eff" "valid_to new = None" "system_from new = now" "system_to new = None"
    "nid \<notin> v_id ` set (versions db)"
    by (rule supersede_version_effect[OF wf ok])
  note R = supersede_replaced[OF wf assms(2) E(1,2,5,7,8,10-13)]
  have tk: "v_tenant h = t" "v_key h = k" using E(2) by (simp_all add: is_head_def)
  have "fr_wf (utc_of now) db'"
    by (rule fr_wf_replaced[OF wf E(1,4) R(1)]) (use E tk assms(2) in \<open>simp_all add: is_head_def\<close>)
  then show thesis
    using that[OF E(3)] view_after[OF R(1) E(1,4)] unfolding R(2,3) tk E(6,9) by simp
qed

lemma correct_version_effect:
  assumes wf: "fr_wf clock db" and row: "row \<in> set (versions db)"
    and ok: "correct_version fam gate t row reason kw mapping nid now (x, db) = Inr ((x', db'), new)"
  obtains xs ys where "versions db = xs @ row # ys"
    "versions db' = xs @ row\<lparr>system_to := Some now\<rparr> # ys @ [new]"
    "v_id new = nid" "v_tenant new = t" "v_key new = v_key row" "v_content new = v_content row ++ map_of kw"
    "valid_from new = valid_from row" "valid_to new = valid_to row" "system_from new = now" "system_to new = None"
    "set (map fst kw) \<subseteq> set (fam_fields fam)" "gate new x = Inr x'" "nid \<notin> v_id ` set (versions db)"
proof -
  obtain xs ys where split: "versions db = xs @ row # ys" using row by (meson split_list)
  have d: "distinct (map v_id (xs @ row # ys))" using wf split by (simp add: fr_wf_def)
  have up: "versions (update_version (v_id row) (\<lambda>r. r\<lparr>system_to := Some now\<rparr>) db) = xs @ row\<lparr>system_to := Some now\<rparr> # ys"
    using update_split[OF d, of "\<lambda>r. r\<lparr>system_to := Some now\<rparr>"] by (simp add: update_version_def split)
  show thesis
    using ok split up
    by (auto simp: correct_version.simps bindR_Inr Let_def check_field_kwargs_def
        filter_empty_conv split: if_splits dest!: insert_version_ok intro!: that)
qed

text \<open>
  A correction of a version that is still open on the system axis writes its own valid window from the
  present on and leaves everything known before as it was.
\<close>

lemma correct_view:
  assumes wf: "fr_wf clock db" and clock: "clock \<le> utc_of now"
    and row: "row \<in> set (versions db)" "system_to row = None" "v_tenant row = t"
    and ok: "correct_version fam gate t row reason kw mapping nid now (x, db) = Inr ((x', db'), new)"
  shows "as_of_view db' = view_write t (v_key row) (\<lambda>s v. utc_of now \<le> s \<and> covers_valid row v)
      (Some (nid, v_content row ++ map_of kw)) (as_of_view db)"
    and "fr_wf (utc_of now) db'"
proof -
  obtain xs ys where E: "versions db = xs @ row # ys"
    "versions db' = xs @ row\<lparr>system_to := Some now\<rparr> # ys @ [new]"
    "v_id new = nid" "v_tenant new = t" "v_key new = v_key row" "v_content new = v_content row ++ map_of kw"
    "valid_from new = valid_from row" "valid_to new = valid_to row" "system_from new = now" "system_to new = None"
    "nid \<notin> v_id ` set (versions db)"
    by (rule correct_version_effect[OF wf row(1) ok])
  let ?h' = "row\<lparr>system_to := Some now\<rparr>"
  have s0: "utc_of (system_from row) \<le> utc_of now" using wf clock row(1) unfolding fr_wf_def by force
  have one: "\<forall>t k s v. length (hits (xs @ row # ys) t k s v) \<le> 1" using wf unfolding fr_wf_def E(1) by blast
  have c: "covers row s v = (covers_valid row v \<and> utc_of (system_from row) \<le> s)"
      "covers ?h' s v = (covers_valid row v \<and> utc_of (system_from row) \<le> s \<and> s < utc_of now)"
      "covers new s v = (covers_valid row v \<and> utc_of now \<le> s)" for s v
    using row(2) by (simp_all add: covers_def covers_valid_def covers_known_def E(7-10))
  have rb: "replaced_by xs row ?h' new ys"
    unfolding replaced_by_def c using one s0 by (simp add: E(4,5) row(3))
  show "fr_wf (utc_of now) db'"
    by (rule fr_wf_replaced[OF wf E(1,2) rb]) (use E(3-5,8-11) row clock in \<open>simp_all add: is_head_def\<close>)
  have given: "(\<lambda>s v. covers row s v \<and> \<not> covers ?h' s v) = (\<lambda>s v. utc_of now \<le> s \<and> covers_valid row v)"
    unfolding c using s0 by (intro ext) auto
  have cn: "covers new = (\<lambda>s v. utc_of now \<le> s \<and> covers_valid row v)" unfolding c by (intro ext) blast
  show "as_of_view db' = view_write t (v_key row) (\<lambda>s v. utc_of now \<le> s \<and> covers_valid row v)
      (Some (nid, v_content row ++ map_of kw)) (as_of_view db)"
    using view_after[OF rb E(1,2)] unfolding given cn E(3,6) row(3) view_write_twice .
qed

lemma create_view:
  assumes wf: "fr_wf clock db" and clock: "clock \<le> utc_of now"
    and ok: "create_version fam gate t k cols mapping from nid now (x, db) = Inr ((x', db'), row)"
  shows "as_of_view db' = view_write t k
      (\<lambda>s v. utc_of now \<le> s \<and> utc_of (case from of None \<Rightarrow> now | Some f \<Rightarrow> f) \<le> v) (Some (nid, cols)) (as_of_view db)"
    and "fr_wf (utc_of now) db'"
proof -
  note E = create_version_effect[OF ok]
  have none: "v_tenant r \<noteq> t \<or> v_key r \<noteq> k" if "r \<in> set (versions db)" for r
    using wf E that unfolding fr_wf_def by metis
  then have nohit: "hits (versions db) t k s v = []" for s v
    by (auto simp: hits_def filter_empty_conv)
  have cov: "covers row = (\<lambda>s v. utc_of now \<le> s \<and> utc_of (case from of None \<Rightarrow> now | Some f \<Rightarrow> f) \<le> v)"
    using E by (intro ext) (auto simp: covers_def covers_valid_def covers_known_def)
  show "as_of_view db' = view_write t k
      (\<lambda>s v. utc_of now \<le> s \<and> utc_of (case from of None \<Rightarrow> now | Some f \<Rightarrow> f) \<le> v) (Some (nid, cols)) (as_of_view db)"
    using view_append[of db' db row] E nohit unfolding cov by simp
  have "length (hits (versions db') t' k' s v) \<le> 1" for t' k' s v
  proof -
    have "length (hits (versions db) t' k' s v) \<le> 1" using wf unfolding fr_wf_def by blast
    then show ?thesis using E nohit[of s v] by (auto simp: hits_append hits_one)
  qed
  moreover have "list_ex (is_head (v_tenant r) (v_key r)) (versions db')" if "r \<in> set (versions db')" for r
  proof (cases "r = row")
    case True
    then show ?thesis using E by (simp add: is_head_def)
  next
    case False
    then have "r \<in> set (versions db)" using that E by auto
    then show ?thesis using wf E unfolding fr_wf_def by simp
  qed
  moreover have "distinct (map v_id (versions db'))" using wf E unfolding fr_wf_def by auto
  moreover have "utc_of (system_from r) \<le> utc_of now" if "r \<in> set (versions db')" for r
    using that wf E clock unfolding fr_wf_def by force
  ultimately show "fr_wf (utc_of now) db'" unfolding fr_wf_def by blast
qed

text \<open>In a well-formed table the as-of read returns, and it reads the view.\<close>

lemma reconstruct_reads_view:
  assumes "fr_wf clock db"
  shows "\<exists>row. reconstruct_as_of db t k valid_at known_at now = Inr row \<and>
    map_option (\<lambda>r. (v_id r, v_content r)) row
      = as_of_view db t k (utc_of (case known_at of None \<Rightarrow> now | Some x \<Rightarrow> x)) (utc_of valid_at)"
proof -
  let ?hs = "hits (versions db) t k (utc_of (case known_at of None \<Rightarrow> now | Some x \<Rightarrow> x)) (utc_of valid_at)"
  have "length ?hs \<le> 1" using assms unfolding fr_wf_def by blast
  then show ?thesis unfolding reconstruct_hits as_of_view_def by (cases ?hs) (simp_all add: scalar_short)
qed

lemma fr_wf_later: "fr_wf clock db \<Longrightarrow> clock \<le> now \<Longrightarrow> fr_wf now db"
  unfolding fr_wf_def by (meson order_trans)

lemma fr_wf_clock: "fr_wf clock db \<Longrightarrow> list_all (\<lambda>r. utc_of (system_from r) \<le> now) (versions db) \<Longrightarrow> fr_wf now db"
  by (simp add: fr_wf_def list_all_iff)

lemma resolve_version_Inr:
  "resolve_version db i t = Inr row \<Longrightarrow> row \<in> set (versions db) \<and> v_id row = i \<and> v_tenant row = t"
proof -
  assume "resolve_version db i t = Inr row"
  then have "row \<in> set (filter (\<lambda>r. v_id r = i \<and> v_tenant r = t) (versions db))"
    by (cases "filter (\<lambda>r. v_id r = i \<and> v_tenant r = t) (versions db)" rule: scalar_one_or_none.cases)
      (auto simp: resolve_version_def)
  then show ?thesis by simp
qed

lemma head_count:
  assumes wf: "fr_wf clock db"
  shows "length (filter (is_head t k) (versions db)) = (if \<exists>r\<in>set (versions db). v_tenant r = t \<and> v_key r = k then 1 else 0)"
proof -
  have ex: "list_ex (is_head t k) (versions db)" if "r \<in> set (versions db)" "v_tenant r = t" "v_key r = k" for r
    using wf that unfolding fr_wf_def by metis
  have no: "filter (is_head t k) (versions db) = []" if "\<not> (\<exists>r\<in>set (versions db). v_tenant r = t \<and> v_key r = k)"
    using that by (auto simp: filter_empty_conv is_head_def)
  have one: "length (filter (is_head t k) (versions db)) = 1" if "list_ex (is_head t k) (versions db)"
    using current_open_wf[OF wf, of t k] that unfolding current_open_def
    by (cases "filter (is_head t k) (versions db)" rule: scalar_one_or_none.cases) (auto simp: filter_empty_conv list_ex_iff)
  show ?thesis using ex no one by auto
qed

lemma head_read:
  assumes wf: "fr_wf clock db" and h: "current_open db t k = Inr (Some h)"
    and cov: "utc_of (valid_from h) \<le> utc_of valid_at" "utc_of (system_from h) \<le> utc_of known"
  shows "reconstruct_as_of db t k valid_at (Some known) now = Inr (Some h)"
proof -
  let ?hs = "hits (versions db) t k (utc_of known) (utc_of valid_at)"
  have "h \<in> set ?hs"
    using current_open_Some[OF wf h] cov by (auto simp: hits_def is_head_def covers_valid_def covers_known_def)
  moreover have "length ?hs \<le> 1" using wf unfolding fr_wf_def by blast
  ultimately have "?hs = [h]" by (cases ?hs) auto
  then show ?thesis by (simp add: reconstruct_hits)
qed

text \<open>The same correction, submitted twice, of a version whose valid window is closed.\<close>

lemma two_hits:
  assumes "a \<in> set (hits rs t k s v)" "b \<in> set (hits rs t k s v)" "a \<noteq> b"
  shows "scalar_one_or_none (hits rs t k s v) = Inl MultipleResultsFound"
  using assms by (cases "hits rs t k s v" rule: scalar_one_or_none.cases) auto

lemma corrected_twice:
  fixes db :: "'k fr_db"
  assumes wf: "fr_wf clock db" and clock: "clock \<le> utc_of now1" "utc_of now1 \<le> utc_of now2"
    and row: "row \<in> set (versions db)" "system_to row = None" "v_tenant row = t" "valid_to row = Some w"
    and fresh: "nid2 \<notin> v_id ` set (versions db1)"
    and ok: "correct_version fam gate t row reason kw m nid1 now1 (x, db) = Inr ((x1, db1), new1)"
    and open_gate: "\<And>r y. gate r y = Inr y"
  shows "\<exists>db2 new2. resolve_version db1 (v_id row) t = Inr (row\<lparr>system_to := Some now1\<rparr>)
    \<and> correct_version fam gate t (row\<lparr>system_to := Some now1\<rparr>) reason kw m nid2 now2 (x1, db1) = Inr ((x1, db2), new2)
    \<and> (\<forall>valid_at known. covers_valid row (utc_of valid_at) \<and> utc_of now2 \<le> utc_of known \<longrightarrow>
        reconstruct_as_of db2 t (v_key row) valid_at (Some known) now = Inl MultipleResultsFound)"
proof -
  let ?r1 = "row\<lparr>system_to := Some now1\<rparr>" and ?r2 = "row\<lparr>system_to := Some now2\<rparr>"
  obtain xs ys where E: "versions db = xs @ row # ys" "versions db1 = xs @ ?r1 # ys @ [new1]"
    "v_id new1 = nid1" "v_tenant new1 = t" "v_key new1 = v_key row" "v_content new1 = v_content row ++ map_of kw"
    "valid_from new1 = valid_from row" "valid_to new1 = valid_to row" "system_from new1 = now1" "system_to new1 = None"
    "set (map fst kw) \<subseteq> set (fam_fields fam)"
    by (rule correct_version_effect[OF wf row(1) ok])
  define new2 where "new2 = new1\<lparr>v_id := nid2, system_from := now2, record_version := record_version row + 1,
    mapping_version := m, restatement_reason := Some reason, supersedes_id := Some (v_id row)\<rparr>"
  have wf1: "fr_wf (utc_of now1) db1" by (rule correct_view(2)[OF wf clock(1) row(1-3) ok])
  have d: "distinct (map v_id (xs @ ?r1 # ys @ [new1]))" using wf1 unfolding fr_wf_def E(2) by blast
  have resolve: "resolve_version db1 (v_id row) t = Inr ?r1"
    using by_id_split[OF d] row(3) unfolding resolve_version_def E(2) by simp
  have nn: "filter (\<lambda>f. v_content new1 f = None \<or> v_content new1 f = Some VNone) (fam_not_null fam) = []"
    unfolding E(6) using ok
    by (clarsimp simp: correct_version.simps bindR_Inr Let_def simp del: not_None_eq) (drule insert_not_null, simp)
  have up: "versions (update_version (v_id row) (\<lambda>r. r\<lparr>system_to := Some now2\<rparr>) db1) = xs @ ?r2 # ys @ [new1]"
    using update_split[OF d, of "\<lambda>r. r\<lparr>system_to := Some now2\<rparr>"] by (simp add: update_version_def E(2))
  have chk: "check_field_kwargs fam kw = (Inr () :: 'k fr_error + unit)"
    using E(11) by (auto simp: check_field_kwargs_def filter_empty_conv)
  obtain db2 where two: "correct_version fam gate t ?r1 reason kw m nid2 now2 (x1, db1) = Inr ((x1, db2), new2)"
    and v2: "versions db2 = xs @ ?r2 # ys @ [new1, new2]"
    using E(3-10) nn fresh row up d open_gate chk
    by (auto simp: correct_version.simps Let_def insert_version_def new2_def E(2)
        filter_empty_conv record_correction_def record_update_def split: list.splits)
  have "reconstruct_as_of db2 t (v_key row) valid_at (Some known) now = Inl MultipleResultsFound"
    if "covers_valid row (utc_of valid_at)" "utc_of now2 \<le> utc_of known" for valid_at known
    unfolding reconstruct_hits option.case
  proof (rule two_hits)
    show "new1 \<in> set (hits (versions db2) t (v_key row) (utc_of known) (utc_of valid_at))"
      "new2 \<in> set (hits (versions db2) t (v_key row) (utc_of known) (utc_of valid_at))"
      using that clock E(4-10) by (auto simp: hits_def v2 new2_def covers_valid_def covers_known_def)
    have "v_id new1 \<noteq> v_id new2" using fresh E(2) by (auto simp: new2_def)
    then show "new1 \<noteq> new2" by blast
  qed
  then show ?thesis using resolve two by blast
qed

section \<open>Runs of a binder\<close>

text \<open>Operations one after another, each in its own transaction: a refused one leaves the state.\<close>

fun run_ops :: "(pydatetime \<Rightarrow> string \<Rightarrow> 'op \<Rightarrow> 's \<Rightarrow> 's option) \<Rightarrow> (pydatetime \<times> string \<times> 'op) list \<Rightarrow> 's \<Rightarrow> 's" where
  "run_ops exec [] s = s"
| "run_ops exec ((now, nid, op) # ops) s = run_ops exec ops (case exec now nid op s of None \<Rightarrow> s | Some s' \<Rightarrow> s')"

text \<open>
  The clock does not go back, and no operation of the run reopens a version, that is: corrects one that
  is already closed on the system axis.
\<close>

fun orderly ::
  "(pydatetime \<Rightarrow> string \<Rightarrow> 'op \<Rightarrow> 's \<Rightarrow> 's option) \<Rightarrow> ('op \<Rightarrow> 's \<Rightarrow> bool) \<Rightarrow> int
    \<Rightarrow> (pydatetime \<times> string \<times> 'op) list \<Rightarrow> 's \<Rightarrow> bool" where
  "orderly exec reopens clock [] s \<longleftrightarrow> True"
| "orderly exec reopens clock ((now, nid, op) # ops) s \<longleftrightarrow> clock \<le> utc_of now \<and> \<not> reopens op s \<and>
     orderly exec reopens (utc_of now) ops (case exec now nid op s of None \<Rightarrow> s | Some s' \<Rightarrow> s')"

text \<open>
  What a family of binders owes its readers: an operation that succeeds keeps its table well-formed. The
  client is whoever runs operations and reads afterwards.
\<close>

locale fr_binder =
  fixes tbl :: "'s \<Rightarrow> 'k fr_db"
    and exec :: "pydatetime \<Rightarrow> string \<Rightarrow> 'op \<Rightarrow> 's \<Rightarrow> 's option"
    and reopens :: "'op \<Rightarrow> 's \<Rightarrow> bool"
  assumes exec_wf: "fr_wf clock (tbl s) \<Longrightarrow> clock \<le> utc_of now \<Longrightarrow> \<not> reopens op s \<Longrightarrow>
    exec now nid op s = Some s' \<Longrightarrow> fr_wf (utc_of now) (tbl s')"
begin

lemma run_wf:
  "fr_wf clock (tbl s) \<Longrightarrow> orderly exec reopens clock ops s \<Longrightarrow> \<exists>clock'. fr_wf clock' (tbl (run_ops exec ops s))"
proof (induction ops arbitrary: clock s)
  case (Cons step ops)
  obtain now nid op where step: "step = (now, nid, op)" by (cases step)
  have c: "clock \<le> utc_of now" "\<not> reopens op s" using Cons.prems(2) by (auto simp: step)
  have "fr_wf (utc_of now) (tbl (case exec now nid op s of None \<Rightarrow> s | Some s' \<Rightarrow> s'))"
    using fr_wf_later[OF Cons.prems(1) c(1)] exec_wf[OF Cons.prems(1) c] by (simp split: option.split)
  then show ?case using Cons by (simp add: step)
qed auto

text \<open>After a run every as-of read returns, and reads the view; a key with versions has one head.\<close>

lemma run_reads:
  assumes "fr_wf clock (tbl s)" "orderly exec reopens clock ops s"
  defines "s' \<equiv> run_ops exec ops s"
  shows "(\<exists>row. reconstruct_as_of (tbl s') t k valid_at known_at now = Inr row \<and>
      map_option (\<lambda>r. (v_id r, v_content r)) row
        = as_of_view (tbl s') t k (utc_of (case known_at of None \<Rightarrow> now | Some x \<Rightarrow> x)) (utc_of valid_at))
    \<and> (length (filter (is_head t k) (versions (tbl s')))
        = (if \<exists>r\<in>set (versions (tbl s')). v_tenant r = t \<and> v_key r = k then 1 else 0))"
proof -
  obtain c where wf: "fr_wf c (tbl s')" using run_wf[OF assms(1,2)] unfolding s'_def by blast
  show ?thesis using reconstruct_reads_view[OF wf] head_count[OF wf] by blast
qed

end

end
