(* ===== verification/Portfolio_Tree.thy ===== *)
theory Portfolio_Tree
  imports Prelude "HOL-Library.Product_Lexorder"
begin

text \<open>
  The portfolio hierarchy (\<open>portfolio/portfolio.py\<close>, \<open>portfolio/models.py\<close>): nodes with a parent link inside
  one tenant, the bounded resolvers up and down the tree, the guarded writes and the append-only
  history they leave, from which the tree of any past instant is read. Audit events and lineage
  edges are recorded by their target.
\<close>

section \<open>State\<close>

record portfolio =
  pf_id :: string
  pf_tenant :: string
  pf_code :: string
  pf_name :: string
  pf_node_type :: string
  pf_parent :: "string option"
  pf_currency :: "string option"
  pf_status :: string
  pf_description :: "string option"
  pf_version :: int
  pf_valid_from :: pydatetime

record hierarchy_version =
  hv_tenant :: string
  hv_portfolio :: string
  hv_parent :: "string option"
  hv_node_type :: string
  hv_name :: string
  hv_status :: string
  hv_currency :: "string option"
  hv_version :: int
  hv_effective_at :: pydatetime

datatype pf_event = PortfolioCreate string pydatetime | PortfolioUpdate string

record portfolio_db =
  pf_nodes :: "portfolio list"
  pf_history :: "hierarchy_version list"
  pf_events :: "pf_event list"
  pf_origins :: "string list"

datatype pf_error =
    PortfolioNotVisible string
  | HierarchyCycle string
  | OwnParent
  | NonUpdatable "string list"
  | DuplicatePortfolio string

definition max_hierarchy_depth :: nat where
  "max_hierarchy_depth = 32"

section \<open>Resolvers\<close>

text \<open>\<open>scalar_one_or_none\<close> over the primary key.\<close>

definition visible_node :: "portfolio_db \<Rightarrow> string \<Rightarrow> string \<Rightarrow> portfolio option" where
  "visible_node db i t = find (\<lambda>n. pf_id n = i \<and> pf_tenant n = t) (pf_nodes db)"

definition resolve_portfolio :: "portfolio_db \<Rightarrow> string \<Rightarrow> string \<Rightarrow> pf_error + portfolio" where
  "resolve_portfolio db i t =
     (case visible_node db i t of None \<Rightarrow> Inl (PortfolioNotVisible i) | Some n \<Rightarrow> Inr n)"

fun walk_up :: "portfolio_db \<Rightarrow> string \<Rightarrow> string \<Rightarrow> nat \<Rightarrow> portfolio \<Rightarrow> string list \<Rightarrow> pf_error + string" where
  "walk_up db t start 0 cur visited = Inl (HierarchyCycle start)"
| "walk_up db t start (Suc n) cur visited =
     (case pf_parent cur of
        None \<Rightarrow> Inr (pf_id cur)
      | Some p \<Rightarrow>
          if p \<in> set visited then Inl (HierarchyCycle start)
          else (case visible_node db p t of
              None \<Rightarrow> Inr (pf_id cur)
            | Some parent \<Rightarrow> walk_up db t start n parent (pf_id parent # visited)))"

definition resolve_ultimate_parent :: "portfolio_db \<Rightarrow> portfolio \<Rightarrow> string \<Rightarrow> pf_error + string" where
  "resolve_ultimate_parent db node t =
     (if pf_tenant node \<noteq> t then Inl (PortfolioNotVisible (pf_id node))
      else walk_up db t (pf_id node) max_hierarchy_depth node [pf_id node])"

fun walk_currency ::
  "portfolio_db \<Rightarrow> string \<Rightarrow> string \<Rightarrow> nat \<Rightarrow> portfolio \<Rightarrow> string list \<Rightarrow> pf_error + string option" where
  "walk_currency db t start 0 cur visited = Inl (HierarchyCycle start)"
| "walk_currency db t start (Suc n) cur visited =
     (if truthy (pf_currency cur) then Inr (pf_currency cur)
      else case pf_parent cur of
        None \<Rightarrow> Inr None
      | Some p \<Rightarrow>
          if p \<in> set visited then Inl (HierarchyCycle start)
          else (case visible_node db p t of
              None \<Rightarrow> Inr None
            | Some parent \<Rightarrow> walk_currency db t start n parent (pf_id parent # visited)))"

definition resolve_reporting_currency :: "portfolio_db \<Rightarrow> portfolio \<Rightarrow> string \<Rightarrow> pf_error + string option" where
  "resolve_reporting_currency db node t =
     (if pf_tenant node \<noteq> t then Inl (PortfolioNotVisible (pf_id node))
      else walk_currency db t (pf_id node) max_hierarchy_depth node [pf_id node])"

text \<open>One level of the subtree: the children of the frontier, by code.\<close>

definition children_of :: "portfolio_db \<Rightarrow> string \<Rightarrow> string list \<Rightarrow> portfolio list" where
  "children_of db t frontier =
     sort_key pf_code (filter (\<lambda>n. opt_any (pf_parent n) (\<lambda>p. p \<in> set frontier) \<and> pf_tenant n = t) (pf_nodes db))"

fun visit_children :: "string \<Rightarrow> portfolio list \<Rightarrow> string list \<Rightarrow> pf_error + string list" where
  "visit_children start [] visited = Inr visited"
| "visit_children start (c # cs) visited =
     (if pf_id c \<in> set visited then Inl (HierarchyCycle start)
      else visit_children start cs (pf_id c # visited))"

fun walk_down ::
  "portfolio_db \<Rightarrow> string \<Rightarrow> string \<Rightarrow> nat \<Rightarrow> string list \<Rightarrow> string list \<Rightarrow> portfolio list \<Rightarrow> pf_error + portfolio list" where
  "walk_down db t start 0 frontier visited acc =
     (if frontier \<noteq> [] then Inl (HierarchyCycle start) else Inr acc)"
| "walk_down db t start (Suc n) frontier visited acc =
     (if frontier = [] then Inr acc
      else let cs = children_of db t frontier in
        bindR (visit_children start cs visited) (\<lambda>visited.
          walk_down db t start n (map pf_id cs) visited (acc @ cs)))"

definition resolve_descendants :: "portfolio_db \<Rightarrow> portfolio \<Rightarrow> string \<Rightarrow> pf_error + portfolio list" where
  "resolve_descendants db node t =
     (if pf_tenant node \<noteq> t then Inl (PortfolioNotVisible (pf_id node))
      else walk_down db t (pf_id node) max_hierarchy_depth [pf_id node] [pf_id node] [])"

text \<open>The guard of a re-parent: the moved node must not be an ancestor of the new parent.\<close>

fun walk_reject :: "portfolio_db \<Rightarrow> string \<Rightarrow> string \<Rightarrow> nat \<Rightarrow> portfolio \<Rightarrow> string list \<Rightarrow> pf_error + unit" where
  "walk_reject db t moved 0 cur visited = Inl (HierarchyCycle moved)"
| "walk_reject db t moved (Suc n) cur visited =
     (case pf_parent cur of
        None \<Rightarrow> Inr ()
      | Some p \<Rightarrow>
          if p = moved then Inl (HierarchyCycle moved)
          else if p \<in> set visited then Inl (HierarchyCycle moved)
          else (case visible_node db p t of
              None \<Rightarrow> Inr ()
            | Some parent \<Rightarrow> walk_reject db t moved n parent (pf_id parent # visited)))"

definition reject_reparent_cycle :: "portfolio_db \<Rightarrow> portfolio \<Rightarrow> portfolio \<Rightarrow> string \<Rightarrow> pf_error + unit" where
  "reject_reparent_cycle db node new_parent t =
     (if pf_id new_parent = pf_id node then Inl (HierarchyCycle (pf_id node))
      else walk_reject db t (pf_id node) max_hierarchy_depth new_parent [pf_id new_parent])"

section \<open>Writes\<close>

definition append_hierarchy_version :: "portfolio \<Rightarrow> pydatetime \<Rightarrow> portfolio_db \<Rightarrow> portfolio_db" where
  "append_hierarchy_version n now db = db\<lparr>pf_history := pf_history db @
     [\<lparr>hv_tenant = pf_tenant n, hv_portfolio = pf_id n,
       hv_parent = (if truthy (pf_parent n) then pf_parent n else None),
       hv_node_type = pf_node_type n, hv_name = pf_name n, hv_status = pf_status n,
       hv_currency = pf_currency n, hv_version = pf_version n, hv_effective_at = now\<rparr>]\<rparr>"

text \<open>
  A create without the deterministic seam stamps the clock as \<open>valid_from\<close>; with it, the given instant. Both are
  \<open>now\<close> here. The primary key and \<open>UNIQUE(tenant_id, code)\<close> are the table's constraints.
\<close>

definition create_portfolio ::
  "string \<Rightarrow> string \<Rightarrow> string \<Rightarrow> string \<Rightarrow> string option \<Rightarrow> string option \<Rightarrow> string \<Rightarrow> string option
    \<Rightarrow> string \<Rightarrow> pydatetime \<Rightarrow> portfolio_db \<Rightarrow> pf_error + portfolio_db \<times> portfolio" where
  "create_portfolio t code name node_type parent currency status description nid now db =
     bindR (case parent of None \<Rightarrow> Inr () | Some p \<Rightarrow> bindR (resolve_portfolio db p t) (\<lambda>_. Inr ())) (\<lambda>_.
       let n = \<lparr>pf_id = nid, pf_tenant = t, pf_code = code, pf_name = name, pf_node_type = node_type,
             pf_parent = (if truthy parent then parent else None), pf_currency = currency, pf_status = status,
             pf_description = description, pf_version = 1, pf_valid_from = now\<rparr>
       in if list_ex (\<lambda>m. pf_id m = nid \<or> (pf_tenant m = t \<and> pf_code m = code)) (pf_nodes db)
          then Inl (DuplicatePortfolio code)
          else let db = db\<lparr>pf_nodes := pf_nodes db @ [n]\<rparr>;
                   db = append_hierarchy_version n (pf_valid_from n) db
               in Inr (db\<lparr>pf_origins := pf_origins db @ [nid],
                          pf_events := pf_events db @ [PortfolioCreate nid now]\<rparr>, n))"

text \<open>The keyword arguments of an update: each updatable attribute given or not, and the names of any other.\<close>

record pf_changes =
  ch_name :: "string option"
  ch_node_type :: "string option"
  ch_parent :: "string option option"
  ch_currency :: "string option option"
  ch_status :: "string option"
  ch_description :: "string option option"
  ch_unknown :: "string list"

definition given :: "'a option \<Rightarrow> 'a \<Rightarrow> 'a" where
  "given x old = (case x of None \<Rightarrow> old | Some v \<Rightarrow> v)"

definition apply_changes :: "pf_changes \<Rightarrow> portfolio \<Rightarrow> portfolio" where
  "apply_changes ch n = n\<lparr>pf_name := given (ch_name ch) (pf_name n),
     pf_node_type := given (ch_node_type ch) (pf_node_type n),
     pf_parent := given (ch_parent ch) (pf_parent n),
     pf_currency := given (ch_currency ch) (pf_currency n),
     pf_status := given (ch_status ch) (pf_status n),
     pf_description := given (ch_description ch) (pf_description n)\<rparr>"

definition update_portfolio ::
  "portfolio \<Rightarrow> pf_changes \<Rightarrow> pydatetime \<Rightarrow> portfolio_db \<Rightarrow> pf_error + portfolio_db \<times> portfolio" where
  "update_portfolio node ch now db =
     (if ch_unknown ch \<noteq> [] then Inl (NonUpdatable (ch_unknown ch))
      else bindR (case ch_parent ch of None \<Rightarrow> Inr () | Some None \<Rightarrow> Inr ()
          | Some (Some p) \<Rightarrow> if p = pf_id node then Inl OwnParent
              else bindR (resolve_portfolio db p (pf_tenant node)) (\<lambda>np.
                   reject_reparent_cycle db node np (pf_tenant node))) (\<lambda>_.
        let n = (apply_changes ch node)\<lparr>pf_version := pf_version node + 1\<rparr>;
            db = db\<lparr>pf_nodes := map (\<lambda>m. if pf_id m = pf_id node then n else m) (pf_nodes db)\<rparr>;
            db = append_hierarchy_version n now db
        in Inr (db\<lparr>pf_events := pf_events db @ [PortfolioUpdate (pf_id node)]\<rparr>, n)))"

section \<open>The tree as of an instant\<close>

record tree_node =
  tn_portfolio :: string
  tn_parent :: "string option"
  tn_node_type :: string
  tn_name :: string
  tn_status :: string
  tn_currency :: "string option"
  tn_version :: int
  tn_effective_at :: pydatetime

definition tree_node_of :: "hierarchy_version \<Rightarrow> tree_node" where
  "tree_node_of r = \<lparr>tn_portfolio = hv_portfolio r,
     tn_parent = (if truthy (hv_parent r) then hv_parent r else None), tn_node_type = hv_node_type r,
     tn_name = hv_name r, tn_status = hv_status r, tn_currency = hv_currency r,
     tn_version = hv_version r, tn_effective_at = hv_effective_at r\<rparr>"

definition resolve_tree_as_of :: "portfolio_db \<Rightarrow> string \<Rightarrow> pydatetime \<Rightarrow> string \<rightharpoonup> tree_node" where
  "resolve_tree_as_of db t as_of =
     (let rows = sort_key (\<lambda>r. (hv_portfolio r, utc_of (hv_effective_at r), hv_version r))
            (filter (\<lambda>r. hv_tenant r = t \<and> utc_of (hv_effective_at r) \<le> utc_of as_of) (pf_history db))
      in fold (\<lambda>r tree. tree(hv_portfolio r \<mapsto> tree_node_of r)) rows Map.empty)"

section \<open>Histories of the tree\<close>

text \<open>The calls a client makes, with the clock they read; a refused call leaves no trace.\<close>

datatype pf_op =
    CreateNode string string string string "string option" "string option" string "string option" string
  | AmendNode string string pf_changes

fun pf_step :: "pydatetime \<times> pf_op \<Rightarrow> portfolio_db \<Rightarrow> portfolio_db" where
  "pf_step (now, CreateNode t code name ty parent cur st descr nid) db =
     (case create_portfolio t code name ty parent cur st descr nid now db of Inl _ \<Rightarrow> db | Inr r \<Rightarrow> fst r)"
| "pf_step (now, AmendNode i t ch) db =
     (case bindR (resolve_portfolio db i t) (\<lambda>n. update_portfolio n ch now db) of Inl _ \<Rightarrow> db | Inr r \<Rightarrow> fst r)"

definition empty_tree :: portfolio_db where
  "empty_tree = \<lparr>pf_nodes = [], pf_history = [], pf_events = [], pf_origins = []\<rparr>"

definition pf_run :: "(pydatetime \<times> pf_op) list \<Rightarrow> portfolio_db" where
  "pf_run ops = fold pf_step ops empty_tree"

definition parent_rel :: "portfolio list \<Rightarrow> (string \<times> string) set" where
  "parent_rel ns = {(pf_id n, p) | n p. n \<in> set ns \<and> pf_parent n = Some p}"

text \<open>Ids are unique, a parent is a node of the same tenant, and there is no cycle.\<close>

definition forest :: "portfolio_db \<Rightarrow> bool" where
  "forest db \<longleftrightarrow> distinct (map pf_id (pf_nodes db)) \<and>
     (\<forall>n\<in>set (pf_nodes db). \<forall>p. pf_parent n = Some p \<longrightarrow> (\<exists>m\<in>set (pf_nodes db). pf_id m = p \<and> pf_tenant m = pf_tenant n)) \<and>
     acyclic (parent_rel (pf_nodes db))"

lemma visible_node_iff:
  assumes "distinct (map pf_id (pf_nodes db))"
  shows "visible_node db i t = Some n \<longleftrightarrow> n \<in> set (pf_nodes db) \<and> pf_id n = i \<and> pf_tenant n = t"
proof
  assume "visible_node db i t = Some n"
  then show "n \<in> set (pf_nodes db) \<and> pf_id n = i \<and> pf_tenant n = t"
    by (auto simp: visible_node_def find_Some_iff)
next
  assume n: "n \<in> set (pf_nodes db) \<and> pf_id n = i \<and> pf_tenant n = t"
  then obtain m where m: "visible_node db i t = Some m"
    unfolding visible_node_def by (cases "find (\<lambda>n. pf_id n = i \<and> pf_tenant n = t) (pf_nodes db)")
      (auto simp: find_None_iff)
  then have "m \<in> set (pf_nodes db)" "pf_id m = i" by (auto simp: visible_node_def find_Some_iff)
  then show "visible_node db i t = Some n" using m n assms by (metis distinct_map inj_onD)
qed

lemma parent_relI: "n \<in> set ns \<Longrightarrow> pf_parent n = Some p \<Longrightarrow> (pf_id n, p) \<in> parent_rel ns"
  by (auto simp: parent_rel_def)

lemma parent_rel_fun:
  assumes "distinct (map pf_id ns)" "n \<in> set ns" "(pf_id n, x) \<in> parent_rel ns"
  shows "pf_parent n = Some x"
  using assms by (auto simp: parent_rel_def distinct_map dest: inj_onD)

lemma parent_step:
  assumes "distinct (map pf_id ns)" "n \<in> set ns" "(pf_id n, x) \<in> (parent_rel ns)\<^sup>*"
  shows "x = pf_id n \<or> (\<exists>p. pf_parent n = Some p \<and> (p, x) \<in> (parent_rel ns)\<^sup>*)"
  using assms(3)
proof (cases rule: converse_rtranclE)
  case (step y)
  then show ?thesis using parent_rel_fun[OF assms(1,2)] by blast
qed simp

text \<open>When the guard lets a move pass, the moved node is not above the new parent.\<close>

lemma walk_reject_ok:
  assumes "distinct (map pf_id (pf_nodes db))"
    and closed: "\<forall>n\<in>set (pf_nodes db). \<forall>p. pf_parent n = Some p \<longrightarrow> (\<exists>m\<in>set (pf_nodes db). pf_id m = p \<and> pf_tenant m = pf_tenant n)"
    and "cur \<in> set (pf_nodes db)" "pf_tenant cur = t" "pf_id cur \<noteq> moved"
    and "walk_reject db t moved n cur visited = Inr ()"
  shows "(pf_id cur, moved) \<notin> (parent_rel (pf_nodes db))\<^sup>*"
  using assms(3-6)
proof (induction n arbitrary: cur visited)
  case (Suc n)
  show ?case
  proof (cases "pf_parent cur")
    case None
    then show ?thesis using parent_step[OF assms(1) Suc.prems(1)] Suc.prems(3) by auto
  next
    case (Some p)
    then obtain m where m: "m \<in> set (pf_nodes db)" "pf_id m = p" "pf_tenant m = t"
      using closed Suc.prems(1,2) by blast
    then have vis: "visible_node db p t = Some m" using visible_node_iff[OF assms(1)] by blast
    have "p \<noteq> moved" "walk_reject db t moved n m (pf_id m # visited) = Inr ()"
      using Suc.prems(4) Some vis by (auto split: if_splits)
    then have "(p, moved) \<notin> (parent_rel (pf_nodes db))\<^sup>*" using Suc.IH[OF m(1,3)] m(2) by blast
    then show ?thesis using parent_step[OF assms(1) Suc.prems(1)] Suc.prems(3) Some by auto
  qed
qed simp

lemma append_nodes [simp]: "pf_nodes (append_hierarchy_version n now db) = pf_nodes db"
  by (simp add: append_hierarchy_version_def)

lemma create_forest:
  assumes f: "forest db"
    and ok: "create_portfolio t code name ty parent cur st descr nid now db = Inr (db', n)"
  shows "forest db'"
proof -
  let ?R = "parent_rel (pf_nodes db)"
  have d: "distinct (map pf_id (pf_nodes db))" using f by (simp add: forest_def)
  have E: "pf_nodes db' = pf_nodes db @ [n]" "pf_id n = nid" "pf_tenant n = t"
    "nid \<notin> pf_id ` set (pf_nodes db)" "pf_parent n = (if truthy parent then parent else None)"
    "parent = None \<or> (\<exists>m. resolve_portfolio db (the parent) t = Inr m)"
    using ok by (auto simp: create_portfolio_def bindR_Inr Let_def list_ex_iff split: if_splits option.splits)
  have par: "\<exists>m\<in>set (pf_nodes db). pf_id m = p \<and> pf_tenant m = t" if "pf_parent n = Some p" for p
    using that E(5,6) visible_node_iff[OF d] by (auto simp: resolve_portfolio_def truthy_def split: option.splits if_splits)
  have no_nid: "(x, nid) \<notin> ?R" for x
    using f E(4) by (auto simp: parent_rel_def forest_def)
  have "acyclic (parent_rel (pf_nodes db'))"
  proof (cases "pf_parent n")
    case None
    then have "parent_rel (pf_nodes db') = ?R" by (auto simp: parent_rel_def E(1))
    then show ?thesis using f by (simp add: forest_def)
  next
    case (Some p)
    then have rel: "parent_rel (pf_nodes db') = insert (nid, p) ?R"
      using E(2) by (auto simp: parent_rel_def E(1))
    have "p \<noteq> nid" using par[OF Some] E(4) by auto
    then have "(p, nid) \<notin> ?R\<^sup>*" using no_nid by (metis rtranclE)
    then show ?thesis using f unfolding rel by (simp add: acyclic_insert forest_def)
  qed
  moreover have "distinct (map pf_id (pf_nodes db'))" using d E by simp
  moreover have "\<exists>m\<in>set (pf_nodes db'). pf_id m = p \<and> pf_tenant m = pf_tenant k"
    if k: "k \<in> set (pf_nodes db')" and p: "pf_parent k = Some p" for k p
  proof (cases "k = n")
    case True
    then show ?thesis using par p E by auto
  next
    case False
    then have "k \<in> set (pf_nodes db)" using k E(1) by auto
    then show ?thesis using f p unfolding forest_def E(1) by auto
  qed
  ultimately show ?thesis unfolding forest_def by blast
qed

lemma update_effect:
  assumes "update_portfolio node ch now db = Inr (db', n)"
  shows "pf_nodes db' = map (\<lambda>m. if pf_id m = pf_id node then n else m) (pf_nodes db)"
    "n = (apply_changes ch node)\<lparr>pf_version := pf_version node + 1\<rparr>"
    "\<And>p. ch_parent ch = Some (Some p) \<Longrightarrow> \<exists>np. resolve_portfolio db p (pf_tenant node) = Inr np
      \<and> reject_reparent_cycle db node np (pf_tenant node) = Inr ()"
    "pf_history db' = pf_history (append_hierarchy_version n now db)"
  using assms by (auto simp: update_portfolio_def bindR_Inr Let_def append_hierarchy_version_def split: if_splits option.splits)

lemma update_forest:
  assumes f: "forest db" and node: "node \<in> set (pf_nodes db)"
    and ok: "update_portfolio node ch now db = Inr (db', n)"
  shows "forest db'"
proof -
  let ?R = "parent_rel (pf_nodes db)"
  note E = update_effect[OF ok]
  have d: "distinct (map pf_id (pf_nodes db))"
    and closed: "\<forall>n\<in>set (pf_nodes db). \<forall>p. pf_parent n = Some p \<longrightarrow> (\<exists>m\<in>set (pf_nodes db). pf_id m = p \<and> pf_tenant m = pf_tenant n)"
    using f by (simp_all add: forest_def)
  have same: "pf_id n = pf_id node" "pf_tenant n = pf_tenant node" "pf_parent n = given (ch_parent ch) (pf_parent node)"
    by (simp_all add: E(2) apply_changes_def)
  have moved: "(p, pf_id node) \<notin> ?R\<^sup>* \<and> (\<exists>m\<in>set (pf_nodes db). pf_id m = p \<and> pf_tenant m = pf_tenant node)"
    if "ch_parent ch = Some (Some p)" for p
  proof -
    obtain np where np: "resolve_portfolio db p (pf_tenant node) = Inr np"
      "reject_reparent_cycle db node np (pf_tenant node) = Inr ()" using E(3) \<open>ch_parent ch = Some (Some p)\<close> by blast
    have m: "np \<in> set (pf_nodes db)" "pf_id np = p" "pf_tenant np = pf_tenant node"
      using np(1) visible_node_iff[OF d, of p "pf_tenant node" np] by (auto simp: resolve_portfolio_def split: option.splits)
    have "p \<noteq> pf_id node" "walk_reject db (pf_tenant node) (pf_id node) max_hierarchy_depth np [p] = Inr ()"
      using np(2) m(2) by (auto simp: reject_reparent_cycle_def split: if_splits)
    then have "(p, pf_id node) \<notin> ?R\<^sup>*" using walk_reject_ok[OF d closed m(1,3)] m(2) by blast
    then show ?thesis using m by blast
  qed
  have sub: "parent_rel (pf_nodes db') \<subseteq> (case ch_parent ch of Some (Some p) \<Rightarrow> insert (pf_id node, p) ?R | _ \<Rightarrow> ?R)"
    using node by (auto simp: parent_rel_def E(1) same given_def split: option.splits if_splits)
  have "acyclic (parent_rel (pf_nodes db'))"
  proof (cases "\<exists>p. ch_parent ch = Some (Some p)")
    case True
    then obtain p where p: "ch_parent ch = Some (Some p)" by blast
    have "acyclic (insert (pf_id node, p) ?R)" using f moved[OF p] by (simp add: acyclic_insert forest_def)
    then show ?thesis using sub p by (auto intro: acyclic_subset)
  next
    case False
    then have "parent_rel (pf_nodes db') \<subseteq> ?R" using sub by (auto split: option.splits)
    then show ?thesis using f by (auto simp: forest_def intro: acyclic_subset)
  qed
  moreover have "distinct (map pf_id (pf_nodes db'))"
  proof -
    have "map pf_id (pf_nodes db') = map pf_id (pf_nodes db)" by (auto simp: E(1) same)
    then show ?thesis using d by simp
  qed
  moreover have "\<exists>m\<in>set (pf_nodes db'). pf_id m = p \<and> pf_tenant m = pf_tenant k"
    if k: "k \<in> set (pf_nodes db')" and p: "pf_parent k = Some p" for k p
  proof -
    have ex: "\<exists>m\<in>set (pf_nodes db'). pf_id m = q \<and> pf_tenant m = u"
      if old: "\<exists>m\<in>set (pf_nodes db). pf_id m = q \<and> pf_tenant m = u" for q u
    proof -
      obtain m where m: "m \<in> set (pf_nodes db)" "pf_id m = q" "pf_tenant m = u" using old by blast
      show ?thesis
      proof (cases "q = pf_id node")
        case True
        then have "m = node" using m node d by (metis distinct_map inj_onD)
        then show ?thesis using m same by (auto simp: E(1))
      qed (use m in \<open>auto simp: E(1)\<close>)
    qed
    show ?thesis
    proof (cases "k = n \<and> (\<exists>q. ch_parent ch = Some (Some q))")
      case True
      then show ?thesis using moved p same ex by (auto simp: given_def)
    next
      case False
      then obtain k0 where "k0 \<in> set (pf_nodes db)" "pf_parent k0 = Some p" "pf_tenant k0 = pf_tenant k"
        using k p node same by (auto simp: E(1) given_def split: option.splits if_splits)
      then show ?thesis using closed ex by metis
    qed
  qed
  ultimately show ?thesis unfolding forest_def by blast
qed

lemma forest_step: "forest db \<Longrightarrow> forest (pf_step op db)"
proof (induction op db rule: pf_step.induct)
  case (1 now t code name ty parent cur st descr nid db)
  then show ?case using create_forest by (auto split: sum.splits)
next
  case (2 now i t ch db)
  have d: "distinct (map pf_id (pf_nodes db))" using 2 by (simp add: forest_def)
  show ?case
  proof (cases "bindR (resolve_portfolio db i t) (\<lambda>n. update_portfolio n ch now db)")
    case (Inl e)
    then show ?thesis using 2 by simp
  next
    case (Inr r)
    then obtain n where n: "resolve_portfolio db i t = Inr n" "update_portfolio n ch now db = Inr r" by (auto simp: bindR_Inr)
    then have "n \<in> set (pf_nodes db)" using visible_node_iff[OF d] by (auto simp: resolve_portfolio_def split: option.splits)
    then show ?thesis using update_forest[OF 2] n(2) Inr by (cases r) simp
  qed
qed

lemma forest_run: "forest (pf_run ops)"
proof -
  have "forest (fold pf_step ops db)" if "forest db" for db
    using that by (induction ops arbitrary: db) (simp_all add: forest_step)
  moreover have "forest empty_tree" by (simp add: forest_def empty_tree_def parent_rel_def acyclic_def)
  ultimately show ?thesis by (simp add: pf_run_def)
qed

section \<open>The resolvers in a forest\<close>

lemma walk_up_forest:
  assumes f: "forest db"
    and "cur \<in> set (pf_nodes db)" "pf_tenant cur = t" "\<forall>v\<in>set visited. (v, pf_id cur) \<in> (parent_rel (pf_nodes db))\<^sup>*"
  shows "case walk_up db t start n cur visited of
      Inr r \<Rightarrow> (pf_id cur, r) \<in> (parent_rel (pf_nodes db))\<^sup>* \<and> (\<exists>m\<in>set (pf_nodes db). pf_id m = r \<and> pf_parent m = None)
    | Inl e \<Rightarrow> e = HierarchyCycle start \<and> (\<exists>x. (pf_id cur, x) \<in> parent_rel (pf_nodes db) ^^ n)"
  using assms(2-4)
proof (induction n arbitrary: cur visited)
  case (Suc n)
  let ?R = "parent_rel (pf_nodes db)"
  have d: "distinct (map pf_id (pf_nodes db))" using f by (simp add: forest_def)
  show ?case
  proof (cases "pf_parent cur")
    case None
    then show ?thesis using Suc.prems(1) by auto
  next
    case (Some p)
    have step: "(pf_id cur, p) \<in> ?R" using Suc.prems(1) Some by (rule parent_relI)
    obtain m where m: "m \<in> set (pf_nodes db)" "pf_id m = p" "pf_tenant m = t"
      using f Suc.prems(1,2) Some unfolding forest_def by blast
    then have vis: "visible_node db p t = Some m" using visible_node_iff[OF d] by blast
    have "p \<notin> set visited"
    proof
      assume "p \<in> set visited"
      then have "(p, pf_id cur) \<in> ?R\<^sup>*" using Suc.prems(3) by blast
      then have "(p, p) \<in> ?R\<^sup>+" using step by (rule rtrancl_into_trancl1)
      then show False using f by (simp add: forest_def acyclic_def)
    qed
    then have eq: "walk_up db t start (Suc n) cur visited = walk_up db t start n m (pf_id m # visited)"
      using Some vis by simp
    have "\<forall>v\<in>set (pf_id m # visited). (v, pf_id m) \<in> ?R\<^sup>*"
      using Suc.prems(3) step m(2) by (auto intro: rtrancl_into_rtrancl)
    from Suc.IH[OF m(1,3) this] show ?thesis
      unfolding eq using step m(2)
      by (auto split: sum.splits intro: converse_rtrancl_into_rtrancl relpow_Suc_I2 simp del: relpow.simps)
  qed
qed simp

lemma resolve_ultimate_parent_forest:
  assumes "forest db" "node \<in> set (pf_nodes db)"
  shows "case resolve_ultimate_parent db node (pf_tenant node) of
      Inr r \<Rightarrow> (pf_id node, r) \<in> (parent_rel (pf_nodes db))\<^sup>* \<and> (\<exists>m\<in>set (pf_nodes db). pf_id m = r \<and> pf_parent m = None)
    | Inl e \<Rightarrow> e = HierarchyCycle (pf_id node) \<and> (\<exists>x. (pf_id node, x) \<in> parent_rel (pf_nodes db) ^^ max_hierarchy_depth)"
  using walk_up_forest[OF assms(1,2) refl, of "[pf_id node]" "pf_id node" max_hierarchy_depth]
  by (simp add: resolve_ultimate_parent_def)

text \<open>The levels below a node.\<close>

lemma visit_children_ok:
  "visit_children start cs visited = Inr visited' \<Longrightarrow> set visited' = pf_id ` set cs \<union> set visited"
  by (induction cs arbitrary: visited) (auto split: if_splits)

lemma same_tenant:
  assumes f: "forest db" and "m \<in> set (pf_nodes db)" "node \<in> set (pf_nodes db)"
    and "(pf_id m, pf_id node) \<in> (parent_rel (pf_nodes db))\<^sup>*"
  shows "pf_tenant m = pf_tenant node"
proof -
  have d: "distinct (map pf_id (pf_nodes db))" using f by (simp add: forest_def)
  have "(x, pf_id node) \<in> (parent_rel (pf_nodes db))\<^sup>* \<Longrightarrow> m \<in> set (pf_nodes db) \<Longrightarrow> pf_id m = x \<Longrightarrow> pf_tenant m = pf_tenant node" for x m
  proof (induction arbitrary: m rule: converse_rtrancl_induct)
    case base
    then show ?case using d assms(3) by (metis distinct_map inj_onD)
  next
    case (step x y)
    then have "pf_parent m = Some y" using parent_rel_fun[OF d] by blast
    then obtain k where "k \<in> set (pf_nodes db)" "pf_id k = y" "pf_tenant k = pf_tenant m"
      using f step.prems unfolding forest_def by blast
    then show ?case using step.IH by simp
  qed
  then show ?thesis using assms by blast
qed

definition level :: "portfolio_db \<Rightarrow> string \<Rightarrow> nat \<Rightarrow> string set" where
  "level db i k = {x. (x, i) \<in> parent_rel (pf_nodes db) ^^ k}"

lemma children_of_level:
  assumes f: "forest db" and node: "node \<in> set (pf_nodes db)" and fr: "set frontier = level db (pf_id node) k"
  shows "pf_id ` set (children_of db (pf_tenant node) frontier) = level db (pf_id node) (Suc k)"
proof -
  let ?R = "parent_rel (pf_nodes db)"
  have up: "\<exists>m\<in>set (pf_nodes db). pf_id m = x \<and> pf_parent m = Some y" if "(x, y) \<in> ?R" for x y
    using that by (auto simp: parent_rel_def)
  show ?thesis
  proof (intro equalityI subsetI)
    fix x assume "x \<in> pf_id ` set (children_of db (pf_tenant node) frontier)"
    then obtain m p where "m \<in> set (pf_nodes db)" "pf_id m = x" "pf_parent m = Some p" "p \<in> set frontier"
      by (auto simp: children_of_def opt_any_def split: option.splits)
    then show "x \<in> level db (pf_id node) (Suc k)"
      using fr by (auto simp: level_def intro!: relpow_Suc_I2 intro: parent_relI simp del: relpow.simps)
  next
    fix x assume "x \<in> level db (pf_id node) (Suc k)"
    then obtain y where y: "(x, y) \<in> ?R" "(y, pf_id node) \<in> ?R ^^ k" unfolding level_def by (auto elim: relpow_Suc_E2 simp del: relpow.simps)
    obtain m where m: "m \<in> set (pf_nodes db)" "pf_id m = x" "pf_parent m = Some y" using up[OF y(1)] by blast
    have "(x, pf_id node) \<in> ?R\<^sup>*" using y by (meson converse_rtrancl_into_rtrancl relpow_imp_rtrancl)
    then have "pf_tenant m = pf_tenant node" using same_tenant[OF f m(1) node] m(2) by blast
    then have "m \<in> set (children_of db (pf_tenant node) frontier)"
      using m y(2) fr by (auto simp: children_of_def level_def)
    then show "x \<in> pf_id ` set (children_of db (pf_tenant node) frontier)" using m(2) by blast
  qed
qed

lemma levels_apart:
  assumes f: "forest db" and "x \<in> level db i j" "x \<in> level db i k" "j < k"
  shows False
proof -
  let ?R = "parent_rel (pf_nodes db)"
  have d: "distinct (map pf_id (pf_nodes db))" using f by (simp add: forest_def)
  have sv: "y = z" if "(x, y) \<in> ?R" "(x, z) \<in> ?R" for x y z
    using that parent_rel_fun[OF d] by (auto simp: parent_rel_def) (metis option.inject)
  have "(y, z) \<in> ?R ^^ b" if "(x, y) \<in> ?R ^^ a" "(x, z) \<in> ?R ^^ (a + b)" for x y z a b
    using that
  proof (induction a arbitrary: x)
    case (Suc a)
    obtain u where u: "(x, u) \<in> ?R" "(u, y) \<in> ?R ^^ a" using Suc.prems(1) by (auto elim: relpow_Suc_E2 simp del: relpow.simps)
    obtain w where w: "(x, w) \<in> ?R" "(w, z) \<in> ?R ^^ (a + b)" using Suc.prems(2) by (auto elim: relpow_Suc_E2 simp del: relpow.simps)
    show ?case using Suc.IH[OF u(2)] w sv[OF u(1) w(1)] by blast
  qed simp
  from this[of x i j i "k - j"] have "(i, i) \<in> ?R ^^ (k - j)" using assms by (simp add: level_def)
  then have "(i, i) \<in> ?R\<^sup>+" using assms(4) by (metis trancl_power zero_less_diff)
  then show False using f by (simp add: forest_def acyclic_def)
qed

lemma level_empty: "level db i k = {} \<Longrightarrow> k \<le> j \<Longrightarrow> level db i j = {}"
proof (induction j)
  case (Suc j)
  then show ?case by (cases "k = Suc j") (auto simp: level_def elim: relpow_Suc_E2 simp del: relpow.simps)
qed simp

lemma visit_children_total:
  "distinct (map pf_id cs) \<Longrightarrow> pf_id ` set cs \<inter> set visited = {} \<Longrightarrow> \<exists>v. visit_children start cs visited = Inr v"
  by (induction cs arbitrary: visited) auto

lemma walk_down_forest:
  assumes f: "forest db" and node: "node \<in> set (pf_nodes db)"
    and "set frontier = level db (pf_id node) k" "set visited = (\<Union>i\<le>k. level db (pf_id node) i)"
    and "pf_id ` set acc = (\<Union>i\<in>{1..k}. level db (pf_id node) i)"
  shows "case walk_down db (pf_tenant node) start n frontier visited acc of
      Inr ds \<Rightarrow> pf_id ` set ds = {x. (x, pf_id node) \<in> (parent_rel (pf_nodes db))\<^sup>+}
    | Inl e \<Rightarrow> e = HierarchyCycle start \<and> level db (pf_id node) (k + n) \<noteq> {}"
  using assms(3-5)
proof (induction n arbitrary: frontier visited acc k)
  let ?L = "level db (pf_id node)"
  have all: "pf_id ` set acc = {x. (x, pf_id node) \<in> (parent_rel (pf_nodes db))\<^sup>+}"
    if "pf_id ` set acc = (\<Union>i\<in>{1..k}. ?L i)" "?L k = {}" for acc k
  proof -
    have "i \<le> k" if "x \<in> ?L i" for x i
      using level_empty[OF \<open>?L k = {}\<close>, of i] that by (cases "i \<le> k") auto
    then have "(\<Union>i\<in>{1..k}. ?L i) = (\<Union>i\<in>{i. 1 \<le> i}. ?L i)" by fastforce
    then show ?thesis using that(1) by (auto simp: level_def trancl_power Suc_le_eq)
  qed
  {
    case 0
    then show ?case using all[of acc k] by (cases frontier) auto
  next
    case (Suc n)
    let ?cs = "children_of db (pf_tenant node) frontier"
    show ?case
    proof (cases "frontier = []")
      case True
      then show ?thesis using all[of acc k] Suc.prems by simp
    next
      case False
      have lv: "pf_id ` set ?cs = ?L (Suc k)" by (rule children_of_level[OF f node Suc.prems(1)])
      have "distinct (map pf_id ?cs)"
        using f unfolding forest_def children_of_def by (auto simp: distinct_map inj_on_def)
      moreover have "pf_id ` set ?cs \<inter> set visited = {}"
        unfolding lv Suc.prems(2) using levels_apart[OF f, of _ "pf_id node" _ "Suc k"] less_Suc_eq_le by blast
      ultimately obtain v where v: "visit_children start ?cs visited = Inr v" using visit_children_total by blast
      have up: "(\<Union>i\<le>Suc k. ?L i) = ?L (Suc k) \<union> (\<Union>i\<le>k. ?L i)"
        "(\<Union>i\<in>{1..Suc k}. ?L i) = ?L (Suc k) \<union> (\<Union>i\<in>{1..k}. ?L i)"
        by (auto simp: atMost_Suc atLeastAtMostSuc_conv)
      have "set v = (\<Union>i\<le>Suc k. ?L i)" using visit_children_ok[OF v] lv Suc.prems(2) up(1) by simp
      moreover have "pf_id ` set (acc @ ?cs) = (\<Union>i\<in>{1..Suc k}. ?L i)" using lv Suc.prems(3) up(2) by (simp add: image_Un Un_commute)
      moreover have "set (map pf_id ?cs) = ?L (Suc k)" using lv by simp
      ultimately show ?thesis using Suc.IH[of "map pf_id ?cs" "Suc k" v "acc @ ?cs", unfolded add_Suc_shift] False v by (simp add: Let_def)
    qed
  }
qed

lemma resolve_descendants_forest:
  assumes "forest db" "node \<in> set (pf_nodes db)"
  shows "case resolve_descendants db node (pf_tenant node) of
      Inr ds \<Rightarrow> pf_id ` set ds = {x. (x, pf_id node) \<in> (parent_rel (pf_nodes db))\<^sup>+}
    | Inl e \<Rightarrow> e = HierarchyCycle (pf_id node) \<and> (\<exists>x. (x, pf_id node) \<in> parent_rel (pf_nodes db) ^^ max_hierarchy_depth)"
  using walk_down_forest[OF assms, of "[pf_id node]" 0 "[pf_id node]" "[]" "pf_id node" max_hierarchy_depth]
  by (auto simp: resolve_descendants_def level_def split: sum.splits)

text \<open>C23. Whatever sequence of creates and amendments (accepted or refused, across tenants) has run, the hierarchy is a forest:
  ids are unique, every parent is a node of the same tenant, and no node is above itself. So the bounded
  resolvers never report a cycle by mistake: the ultimate parent is the root above the node and the descendants are exactly the
  nodes below it, unless the chain above (or the subtree below) reaches the depth cap of 32.\<close>

theorem portfolio_tree_stays_a_forest:
  fixes ops :: "(pydatetime \<times> pf_op) list"
  defines "db \<equiv> pf_run ops" and "R \<equiv> parent_rel (pf_nodes (pf_run ops))"
  assumes node: "n \<in> set (pf_nodes db)"
  shows "distinct (map pf_id (pf_nodes db)) \<and> acyclic R
    \<and> (pf_parent n = None \<or> (\<exists>m\<in>set (pf_nodes db). pf_parent n = Some (pf_id m) \<and> pf_tenant m = pf_tenant n))
    \<and> (case resolve_ultimate_parent db n (pf_tenant n) of
          Inr r \<Rightarrow> (pf_id n, r) \<in> R\<^sup>* \<and> (\<exists>m\<in>set (pf_nodes db). pf_id m = r \<and> pf_parent m = None)
        | Inl e \<Rightarrow> e = HierarchyCycle (pf_id n) \<and> (\<exists>x. (pf_id n, x) \<in> R ^^ max_hierarchy_depth))
    \<and> (case resolve_descendants db n (pf_tenant n) of
          Inr ds \<Rightarrow> pf_id ` set ds = {x. (x, pf_id n) \<in> R\<^sup>+}
        | Inl e \<Rightarrow> e = HierarchyCycle (pf_id n) \<and> (\<exists>x. (x, pf_id n) \<in> R ^^ max_hierarchy_depth))"
proof -
  have f: "forest db" unfolding db_def by (rule forest_run)
  have "pf_parent n = None \<or> (\<exists>m\<in>set (pf_nodes db). pf_parent n = Some (pf_id m) \<and> pf_tenant m = pf_tenant n)"
    using f node unfolding forest_def by (cases "pf_parent n") auto
  moreover have "distinct (map pf_id (pf_nodes db))" "acyclic R"
    using f unfolding forest_def R_def db_def by blast+
  ultimately show ?thesis
    using resolve_ultimate_parent_forest[OF f node] resolve_descendants_forest[OF f node]
    unfolding R_def db_def by blast
qed

definition sample_ops :: "(pydatetime \<times> pf_op) list" where
  "sample_ops =
     [(Naive 1, CreateNode ''T'' ''ROOT'' ''Firm'' ''PORTFOLIO'' None (Some ''USD'') ''ACTIVE'' None ''p1''),
      (Naive 2, CreateNode ''T'' ''FUND'' ''Fund'' ''FUND'' (Some ''p1'') None ''ACTIVE'' None ''p2''),
      (Naive 3, AmendNode ''p1'' ''T'' \<lparr>ch_name = None, ch_node_type = None, ch_parent = Some (Some ''p2''),
         ch_currency = None, ch_status = None, ch_description = None, ch_unknown = []\<rparr>)]"

theorem portfolio_tree_stays_a_forest_witness:
  "\<exists>n. n \<in> set (pf_nodes (pf_run sample_ops)) \<and> pf_id n = ''p2'' \<and> acyclic (parent_rel (pf_nodes (pf_run sample_ops)))
     \<and> resolve_ultimate_parent (pf_run sample_ops) n ''T'' = Inr ''p1''"
proof -
  have "\<exists>n\<in>set (pf_nodes (pf_run sample_ops)). pf_id n = ''p2'' \<and> resolve_ultimate_parent (pf_run sample_ops) n ''T'' = Inr ''p1''"
    by code_simp
  then obtain n where n: "n \<in> set (pf_nodes (pf_run sample_ops))" "pf_id n = ''p2''"
      "resolve_ultimate_parent (pf_run sample_ops) n ''T'' = Inr ''p1''" by blast
  then show ?thesis using portfolio_tree_stays_a_forest[OF n(1)] by blast
qed

section \<open>The history is the tree's past\<close>

text \<open>The live state of a node, without the instant it dates from.\<close>

definition live_node :: "portfolio_db \<Rightarrow> string \<Rightarrow> string \<Rightarrow> hierarchy_version option" where
  "live_node db t i = map_option (\<lambda>n. \<lparr>hv_tenant = pf_tenant n, hv_portfolio = pf_id n,
       hv_parent = (if truthy (pf_parent n) then pf_parent n else None), hv_node_type = pf_node_type n,
       hv_name = pf_name n, hv_status = pf_status n, hv_currency = pf_currency n, hv_version = pf_version n,
       hv_effective_at = pf_valid_from n\<rparr>) (find (\<lambda>n. pf_id n = i \<and> pf_tenant n = t) (pf_nodes db))"

definition same_state :: "tree_node \<Rightarrow> hierarchy_version \<Rightarrow> bool" where
  "same_state a r \<longleftrightarrow> tn_portfolio a = hv_portfolio r \<and> tn_parent a = hv_parent r \<and> tn_node_type a = hv_node_type r
     \<and> tn_name a = hv_name r \<and> tn_status a = hv_status r \<and> tn_currency a = hv_currency r \<and> tn_version a = hv_version r"

text \<open>The rows of one node are in the order they were written, and the newest is the live state.\<close>

definition rows_of :: "portfolio_db \<Rightarrow> string \<Rightarrow> hierarchy_version list" where
  "rows_of db i = filter (\<lambda>r. hv_portfolio r = i) (pf_history db)"

lemma last_wins:
  "fold (\<lambda>r m. m(k r \<mapsto> v r)) rs m i
    = (case filter (\<lambda>r. k r = i) rs of [] \<Rightarrow> m i | ys \<Rightarrow> Some (v (last ys)))"
proof (induction rs arbitrary: m)
  case (Cons r rs)
  then show ?case by (cases "filter (\<lambda>r. k r = i) rs") auto
qed simp

lemma sorted_rows:
  assumes "sorted (map (\<lambda>r. (utc_of (hv_effective_at r), hv_version r)) (rows_of db i))"
  shows "filter (\<lambda>r. hv_portfolio r = i)
      (sort_key (\<lambda>r. (hv_portfolio r, utc_of (hv_effective_at r), hv_version r))
        (filter (\<lambda>r. hv_tenant r = t \<and> utc_of (hv_effective_at r) \<le> a) (pf_history db)))
    = filter (\<lambda>r. hv_tenant r = t \<and> utc_of (hv_effective_at r) \<le> a) (rows_of db i)"
proof -
  let ?f = "\<lambda>r. (hv_portfolio r, utc_of (hv_effective_at r), hv_version r)"
  let ?rs = "filter (\<lambda>r. hv_tenant r = t \<and> utc_of (hv_effective_at r) \<le> a) (rows_of db i)"
  have "filter (\<lambda>r. hv_portfolio r = i) (filter (\<lambda>r. hv_tenant r = t \<and> utc_of (hv_effective_at r) \<le> a) (pf_history db)) = ?rs"
    by (simp add: rows_of_def) (metis (mono_tags, lifting) conj_commute)
  moreover have "sorted (map ?f ?rs)"
  proof -
    have "sorted (map (\<lambda>r. (utc_of (hv_effective_at r), hv_version r)) ?rs)" using assms by (rule sorted_filter)
    moreover have "map ?f ?rs = map (Pair i) (map (\<lambda>r. (utc_of (hv_effective_at r), hv_version r)) ?rs)"
      by (auto simp: rows_of_def)
    ultimately show ?thesis by (auto simp: sorted_map intro: sorted_wrt_mono_rel[rotated])
  qed
  ultimately show ?thesis by (simp add: filter_sort sort_key_id_if_sorted)
qed

lemma tree_as_of_rows:
  assumes "sorted (map (\<lambda>r. (utc_of (hv_effective_at r), hv_version r)) (rows_of db i))"
  shows "resolve_tree_as_of db t a i =
    (case filter (\<lambda>r. hv_tenant r = t \<and> utc_of (hv_effective_at r) \<le> utc_of a) (rows_of db i) of
       [] \<Rightarrow> None | ys \<Rightarrow> Some (tree_node_of (last ys)))"
  unfolding resolve_tree_as_of_def Let_def last_wins sorted_rows[OF assms] by simp

definition hist_ok :: "int \<Rightarrow> portfolio_db \<Rightarrow> bool" where
  "hist_ok clock db \<longleftrightarrow>
     (\<forall>i. sorted (map (\<lambda>r. (utc_of (hv_effective_at r), hv_version r)) (rows_of db i))) \<and>
     (\<forall>n\<in>set (pf_nodes db). rows_of db (pf_id n) \<noteq> [] \<and> hv_version (last (rows_of db (pf_id n))) = pf_version n \<and>
        (\<forall>r. live_node db (pf_tenant n) (pf_id n) = Some r \<longrightarrow> same_state (tree_node_of (last (rows_of db (pf_id n)))) r)) \<and>
     (\<forall>r\<in>set (pf_history db). (\<exists>n\<in>set (pf_nodes db). pf_id n = hv_portfolio r \<and> pf_tenant n = hv_tenant r)
        \<and> utc_of (hv_effective_at r) \<le> clock)"

lemma sorted_le_last: "sorted xs \<Longrightarrow> x \<in> set xs \<Longrightarrow> x \<le> (last xs :: 'a::linorder)"
  by (induction xs) auto

text \<open>One write: the node that is new or changed, and its row.\<close>

lemma hist_ok_write:
  assumes h: "hist_ok clock db" and d: "distinct (map pf_id (pf_nodes db'))"
    and hist: "pf_history db' = pf_history (append_hierarchy_version n now db)"
    and nodes: "n \<in> set (pf_nodes db')" "\<And>m. m \<in> set (pf_nodes db') \<Longrightarrow> m = n \<or> m \<in> set (pf_nodes db)"
      "\<And>m. m \<in> set (pf_nodes db) \<Longrightarrow> pf_id m = pf_id n \<or> m \<in> set (pf_nodes db')"
      "\<And>m. m \<in> set (pf_nodes db) \<Longrightarrow> pf_id m = pf_id n \<Longrightarrow> pf_tenant m = pf_tenant n \<and> pf_version m < pf_version n"
    and clock: "clock \<le> utc_of now"
  shows "hist_ok (utc_of now) db'"
proof -
  define row where "row = last (pf_history db')"
  have row: "row = \<lparr>hv_tenant = pf_tenant n, hv_portfolio = pf_id n,
       hv_parent = (if truthy (pf_parent n) then pf_parent n else None),
       hv_node_type = pf_node_type n, hv_name = pf_name n, hv_status = pf_status n,
       hv_currency = pf_currency n, hv_version = pf_version n, hv_effective_at = now\<rparr>"
    by (simp add: row_def hist append_hierarchy_version_def)
  have h': "pf_history db' = pf_history db @ [row]" by (simp add: row hist append_hierarchy_version_def)
  have rows: "rows_of db' i = rows_of db i @ (if i = pf_id n then [row] else [])" for i
    by (auto simp: rows_of_def h' row)
  have old: "\<exists>m\<in>set (pf_nodes db). pf_id m = hv_portfolio r \<and> pf_tenant m = hv_tenant r"
      "utc_of (hv_effective_at r) \<le> clock" if "r \<in> set (pf_history db)" for r
    using h that unfolding hist_ok_def by blast+
  have live: "live_node db' (pf_tenant m) (pf_id m) = Some (\<lparr>hv_tenant = pf_tenant m, hv_portfolio = pf_id m,
       hv_parent = (if truthy (pf_parent m) then pf_parent m else None), hv_node_type = pf_node_type m,
       hv_name = pf_name m, hv_status = pf_status m, hv_currency = pf_currency m, hv_version = pf_version m,
       hv_effective_at = pf_valid_from m\<rparr>)" if "m \<in> set (pf_nodes db')" for m
    using visible_node_iff[OF d, of "pf_id m" "pf_tenant m" m] that by (simp add: live_node_def visible_node_def)
  have "sorted (map (\<lambda>r. (utc_of (hv_effective_at r), hv_version r)) (rows_of db' i))" for i
  proof -
    have s: "sorted (map (\<lambda>r. (utc_of (hv_effective_at r), hv_version r)) (rows_of db i))" using h by (simp add: hist_ok_def)
    have "(utc_of (hv_effective_at r), hv_version r) \<le> (utc_of now, pf_version n)"
      if r: "r \<in> set (rows_of db i)" and i: "i = pf_id n" for r
    proof -
      have rh: "r \<in> set (pf_history db)" "hv_portfolio r = pf_id n" using r i by (auto simp: rows_of_def)
      obtain m where m: "m \<in> set (pf_nodes db)" "pf_id m = pf_id n" using old(1)[OF rh(1)] rh(2) by auto
      have "(utc_of (hv_effective_at r), hv_version r) \<le> (utc_of (hv_effective_at (last (rows_of db i))), hv_version (last (rows_of db i)))"
      proof -
        have ne: "rows_of db i \<noteq> []" using r by auto
        have "(utc_of (hv_effective_at r), hv_version r) \<in> set (map (\<lambda>r. (utc_of (hv_effective_at r), hv_version r)) (rows_of db i))" using r by simp
        from sorted_le_last[OF s this] show ?thesis using ne by (simp add: last_map)
      qed
      moreover have "hv_version (last (rows_of db i)) < pf_version n"
        using h m nodes(4)[OF m] i unfolding hist_ok_def by auto
      moreover have "last (rows_of db i) \<in> set (pf_history db)"
      proof -
        have "last (rows_of db i) \<in> set (rows_of db i)" using r by (intro last_in_set) auto
        then show ?thesis by (simp add: rows_of_def)
      qed
      then have "utc_of (hv_effective_at (last (rows_of db i))) \<le> utc_of now" using old(2) clock by fastforce
      ultimately show ?thesis by (auto simp: less_eq_prod_def)
    qed
    then show ?thesis using s by (auto simp: rows sorted_append row)
  qed
  moreover have "rows_of db' (pf_id m) \<noteq> [] \<and> hv_version (last (rows_of db' (pf_id m))) = pf_version m \<and>
        (\<forall>r. live_node db' (pf_tenant m) (pf_id m) = Some r \<longrightarrow> same_state (tree_node_of (last (rows_of db' (pf_id m)))) r)"
    if m: "m \<in> set (pf_nodes db')" for m
  proof (cases "m = n")
    case True
    then show ?thesis using live[OF m] by (auto simp: rows row same_state_def tree_node_of_def)
  next
    case False
    then have mdb: "m \<in> set (pf_nodes db)" using nodes(2) m by blast
    have ne: "pf_id m \<noteq> pf_id n" using False m nodes(1) d by (auto simp: distinct_map dest: inj_onD)
    have "\<exists>q. find (\<lambda>k. pf_id k = pf_id m \<and> pf_tenant k = pf_tenant m) (pf_nodes db) = Some q \<and> q \<in> set (pf_nodes db) \<and> pf_id q = pf_id m"
      using mdb by (cases "find (\<lambda>k. pf_id k = pf_id m \<and> pf_tenant k = pf_tenant m) (pf_nodes db)") (auto simp: find_None_iff find_Some_iff)
    then obtain q where q: "find (\<lambda>k. pf_id k = pf_id m \<and> pf_tenant k = pf_tenant m) (pf_nodes db) = Some q"
      "q \<in> set (pf_nodes db)" "pf_id q = pf_id m" by blast
    have "q \<in> set (pf_nodes db')" using nodes(3)[OF q(2)] q(3) ne by auto
    then have "q = m" using q(3) m d by (auto simp: distinct_map dest: inj_onD)
    then have "live_node db (pf_tenant m) (pf_id m) = live_node db' (pf_tenant m) (pf_id m)"
      unfolding live[OF m] using q(1) \<open>q = m\<close> by (simp add: live_node_def)
    then show ?thesis using h mdb ne unfolding hist_ok_def by (simp add: rows)
  qed
  moreover have "(\<exists>m\<in>set (pf_nodes db'). pf_id m = hv_portfolio r \<and> pf_tenant m = hv_tenant r) \<and> utc_of (hv_effective_at r) \<le> utc_of now"
    if r: "r \<in> set (pf_history db')" for r
  proof (cases "r = row")
    case True
    then show ?thesis using nodes(1) row by auto
  next
    case False
    then have "r \<in> set (pf_history db)" using r h' by simp
    then obtain m where m: "m \<in> set (pf_nodes db)" "pf_id m = hv_portfolio r" "pf_tenant m = hv_tenant r"
      "utc_of (hv_effective_at r) \<le> clock" using old by blast
    then have "\<exists>m\<in>set (pf_nodes db'). pf_id m = hv_portfolio r \<and> pf_tenant m = hv_tenant r"
      using nodes(1) nodes(3)[OF m(1)] nodes(4)[OF m(1)] by metis
    then show ?thesis using m(4) clock by linarith
  qed
  ultimately show ?thesis unfolding hist_ok_def by blast
qed

lemma create_hist_ok:
  assumes f: "forest db" and h: "hist_ok clock db" and clock: "clock \<le> utc_of now"
    and ok: "create_portfolio t code name ty parent cur st descr nid now db = Inr (db', n)"
  shows "hist_ok (utc_of now) db' \<and> (\<exists>new. pf_history db' = pf_history db @ new \<and> (\<forall>r\<in>set new. hv_effective_at r = now))"
proof -
  have E: "pf_nodes db' = pf_nodes db @ [n]" "pf_id n \<notin> pf_id ` set (pf_nodes db)"
    "pf_history db' = pf_history (append_hierarchy_version n now db)"
    using ok by (auto simp: create_portfolio_def bindR_Inr Let_def list_ex_iff append_hierarchy_version_def split: if_splits)
  have d: "distinct (map pf_id (pf_nodes db'))" using create_forest[OF f ok] by (simp add: forest_def)
  have "hist_ok (utc_of now) db'"
    by (rule hist_ok_write[OF h d E(3) _ _ _ _ clock]) (use E(1,2) in \<open>auto simp: image_iff\<close>)
  then show ?thesis by (auto simp: E(3) append_hierarchy_version_def)
qed

lemma update_hist_ok:
  assumes f: "forest db" and h: "hist_ok clock db" and clock: "clock \<le> utc_of now"
    and node: "node \<in> set (pf_nodes db)" and ok: "update_portfolio node ch now db = Inr (db', n)"
  shows "hist_ok (utc_of now) db' \<and> (\<exists>new. pf_history db' = pf_history db @ new \<and> (\<forall>r\<in>set new. hv_effective_at r = now))"
proof -
  note E = update_effect[OF ok]
  have d: "distinct (map pf_id (pf_nodes db'))" using update_forest[OF f node ok] by (simp add: forest_def)
  have dd: "distinct (map pf_id (pf_nodes db))" using f by (simp add: forest_def)
  have n: "pf_id n = pf_id node" "pf_tenant n = pf_tenant node" "pf_version n = pf_version node + 1"
    by (simp_all add: E(2) apply_changes_def)
  have uniq: "m = node" if "m \<in> set (pf_nodes db)" "pf_id m = pf_id node" for m
    using that node dd by (auto simp: distinct_map dest: inj_onD)
  have "hist_ok (utc_of now) db'"
  proof (rule hist_ok_write[OF h d E(4) _ _ _ _ clock])
    show "n \<in> set (pf_nodes db')" using node n by (auto simp: E(1))
    show "m = n \<or> m \<in> set (pf_nodes db)" if "m \<in> set (pf_nodes db')" for m using that by (auto simp: E(1))
    show "pf_id m = pf_id n \<or> m \<in> set (pf_nodes db')" if "m \<in> set (pf_nodes db)" for m
      using that n by (auto simp: E(1))
    show "pf_tenant m = pf_tenant n \<and> pf_version m < pf_version n" if "m \<in> set (pf_nodes db)" "pf_id m = pf_id n" for m
    proof -
      have "m = node" using uniq that n(1) by simp
      then show ?thesis using n by simp
    qed
  qed
  then show ?thesis by (auto simp: E(4) append_hierarchy_version_def)
qed

lemma step_hist_ok:
  assumes f: "forest db" and h: "hist_ok clock db" and clock: "clock \<le> utc_of (fst op)"
  shows "hist_ok (utc_of (fst op)) (pf_step op db)
    \<and> (\<exists>new. pf_history (pf_step op db) = pf_history db @ new \<and> (\<forall>r\<in>set new. hv_effective_at r = fst op))"
proof -
  have idle: "hist_ok (utc_of (fst op)) db" using h clock unfolding hist_ok_def by (meson order_trans)
  obtain now o' where op: "op = (now, o')" by (cases op)
  show ?thesis
  proof (cases o')
    case (CreateNode t code name ty parent cur st descr nid)
    show ?thesis
    proof (cases "create_portfolio t code name ty parent cur st descr nid now db")
      case (Inr r)
      then show ?thesis using create_hist_ok[OF f h, of now] clock op CreateNode by (cases r) simp
    qed (use idle op CreateNode in simp)
  next
    case (AmendNode i t ch)
    have d: "distinct (map pf_id (pf_nodes db))" using f by (simp add: forest_def)
    show ?thesis
    proof (cases "bindR (resolve_portfolio db i t) (\<lambda>n. update_portfolio n ch now db)")
      case (Inr r)
      then obtain n where n: "resolve_portfolio db i t = Inr n" "update_portfolio n ch now db = Inr r" by (auto simp: bindR_Inr)
      then have "n \<in> set (pf_nodes db)" using visible_node_iff[OF d] by (auto simp: resolve_portfolio_def split: option.splits)
      then show ?thesis using update_hist_ok[OF f h, of now n ch] clock op AmendNode Inr n(2) by (cases r) simp
    qed (use idle op AmendNode in simp)
  qed
qed

lemma run_hist_ok:
  assumes "forest db" "hist_ok clock db" "sorted (clock # map (\<lambda>x. utc_of (fst x)) ops)"
  shows "hist_ok (last (clock # map (\<lambda>x. utc_of (fst x)) ops)) (fold pf_step ops db)
    \<and> (\<exists>new. pf_history (fold pf_step ops db) = pf_history db @ new \<and> (\<forall>r\<in>set new. \<exists>o'\<in>set ops. hv_effective_at r = fst o'))"
  using assms
proof (induction ops arbitrary: db clock)
  case (Cons op ops)
  have s: "hist_ok (utc_of (fst op)) (pf_step op db)"
    "\<exists>new. pf_history (pf_step op db) = pf_history db @ new \<and> (\<forall>r\<in>set new. hv_effective_at r = fst op)"
    using step_hist_ok[OF Cons.prems(1,2), of op] Cons.prems(3) by auto
  have "sorted (utc_of (fst op) # map (\<lambda>x. utc_of (fst x)) ops)" using Cons.prems(3) by simp
  note IH = Cons.IH[OF forest_step[OF Cons.prems(1)] s(1) this]
  obtain new where new: "pf_history (pf_step op db) = pf_history db @ new" "\<forall>r\<in>set new. hv_effective_at r = fst op"
    using s(2) by blast
  obtain new' where new': "pf_history (fold pf_step ops (pf_step op db)) = pf_history (pf_step op db) @ new'"
    "\<forall>r\<in>set new'. \<exists>o'\<in>set ops. hv_effective_at r = fst o'" using IH by blast
  have "pf_history (fold pf_step (op # ops) db) = pf_history db @ (new @ new')" using new(1) new'(1) by simp
  moreover have "\<forall>r\<in>set (new @ new'). \<exists>o'\<in>set (op # ops). hv_effective_at r = fst o'" using new(2) new'(2) by auto
  moreover have "hist_ok (last (clock # map (\<lambda>x. utc_of (fst x)) (op # ops))) (fold pf_step (op # ops) db)"
    using IH by simp
  ultimately show ?case by blast
qed simp

lemma hist_ok_empty: "hist_ok clock empty_tree"
  by (simp add: hist_ok_def empty_tree_def rows_of_def)

text \<open>C24. The tree of any past instant is read back exactly: after any sequence of creates and amendments with a clock that does not
  go back, \<open>resolve_tree_as_of\<close> at an instant between two writes gives, for every node of the tenant, the state the live
  tree had after the first group of writes, and no other node, whatever is written later.\<close>

theorem as_of_tree_is_the_tree_then:
  assumes clock: "sorted (map (\<lambda>x. utc_of (fst x)) (before @ later))"
    and before: "list_all (\<lambda>o'. utc_of (fst o') \<le> utc_of as_of) before"
    and later: "list_all (\<lambda>o'. utc_of as_of < utc_of (fst o')) later"
  shows "case live_node (pf_run before) t i of
      None \<Rightarrow> resolve_tree_as_of (pf_run (before @ later)) t as_of i = None
    | Some r \<Rightarrow> (\<exists>a. resolve_tree_as_of (pf_run (before @ later)) t as_of i = Some a \<and> same_state a r)"
proof -
  define db1 db2 where "db1 = pf_run before" and "db2 = pf_run (before @ later)"
  define c where "c = Min (insert (utc_of as_of) ((\<lambda>x. utc_of (fst x)) ` set (before @ later)))"
  have c_le: "c \<le> x" if "x \<in> insert (utc_of as_of) ((\<lambda>x. utc_of (fst x)) ` set (before @ later))" for x
    unfolding c_def using that by (intro Min_le) auto
  have s1: "sorted (c # map (\<lambda>x. utc_of (fst x)) before)" using clock c_le by (auto simp: sorted_append)
  have f0: "forest empty_tree" using forest_run[of "[]"] by (simp add: pf_run_def)
  note r1 = run_hist_ok[OF f0 hist_ok_empty s1, folded pf_run_def db1_def]
  define c1 where "c1 = last (c # map (\<lambda>x. utc_of (fst x)) before)"
  have h1: "hist_ok c1 db1" using r1 by (simp add: c1_def)
  have mem: "c1 \<in> set (c # map (\<lambda>x. utc_of (fst x)) before)" unfolding c1_def by (rule last_in_set) simp
  then have c1: "c1 \<le> utc_of as_of" "c1 \<in> insert c ((\<lambda>x. utc_of (fst x)) ` set before)"
    using before c_le by (auto simp: list_all_iff)
  have "sorted (c1 # map (\<lambda>x. utc_of (fst x)) later)"
    using clock c1(2) c_le by (auto simp: sorted_append)
  from run_hist_ok[OF _ h1 this] have r2: "\<exists>new. pf_history db2 = pf_history db1 @ new
      \<and> (\<forall>r\<in>set new. \<exists>o'\<in>set later. hv_effective_at r = fst o')"
    using forest_run[of before] by (simp add: db1_def db2_def pf_run_def)
  then obtain new where new: "pf_history db2 = pf_history db1 @ new" "\<forall>r\<in>set new. utc_of as_of < utc_of (hv_effective_at r)"
    using later by (auto simp: list_all_iff) (metis)
  have "filter (\<lambda>r. hv_tenant r = t \<and> utc_of (hv_effective_at r) \<le> utc_of as_of) (pf_history db2)
      = filter (\<lambda>r. hv_tenant r = t \<and> utc_of (hv_effective_at r) \<le> utc_of as_of) (pf_history db1)"
    using new by (auto simp: filter_empty_conv)
  then have eq: "resolve_tree_as_of db2 t as_of = resolve_tree_as_of db1 t as_of" by (simp add: resolve_tree_as_of_def)
  have f1: "forest db1" unfolding db1_def by (rule forest_run)
  have d: "distinct (map pf_id (pf_nodes db1))" using f1 by (simp add: forest_def)
  have sr: "sorted (map (\<lambda>r. (utc_of (hv_effective_at r), hv_version r)) (rows_of db1 i))" using h1 by (simp add: hist_ok_def)
  have owner: "\<exists>n\<in>set (pf_nodes db1). pf_id n = i \<and> pf_tenant n = hv_tenant r" "utc_of (hv_effective_at r) \<le> utc_of as_of"
    if r: "r \<in> set (rows_of db1 i)" for r
  proof -
    have "r \<in> set (pf_history db1)" "hv_portfolio r = i" using r by (simp_all add: rows_of_def)
    then have "(\<exists>n\<in>set (pf_nodes db1). pf_id n = i \<and> pf_tenant n = hv_tenant r)" "utc_of (hv_effective_at r) \<le> c1"
      using h1 unfolding hist_ok_def by blast+
    then show "\<exists>n\<in>set (pf_nodes db1). pf_id n = i \<and> pf_tenant n = hv_tenant r" "utc_of (hv_effective_at r) \<le> utc_of as_of"
      using c1(1) by (blast, linarith)
  qed
  show ?thesis
  proof (cases "visible_node db1 i t")
    case None
    then have "filter (\<lambda>r. hv_tenant r = t \<and> utc_of (hv_effective_at r) \<le> utc_of as_of) (rows_of db1 i) = []"
    proof -
      have "hv_tenant r \<noteq> t" if r: "r \<in> set (rows_of db1 i)" for r
      proof
        assume "hv_tenant r = t"
        then obtain n where "n \<in> set (pf_nodes db1)" "pf_id n = i" "pf_tenant n = t" using owner(1)[OF r] by blast
        then have "visible_node db1 i t = Some n" using visible_node_iff[OF d] by blast
        then show False using None by simp
      qed
      then show ?thesis unfolding filter_empty_conv by blast
    qed
    then have "resolve_tree_as_of db1 t as_of i = None" unfolding tree_as_of_rows[OF sr] by simp
    then show ?thesis using None eq by (simp add: live_node_def visible_node_def db1_def db2_def)
  next
    case (Some n)
    then have n: "n \<in> set (pf_nodes db1)" "pf_id n = i" "pf_tenant n = t" using visible_node_iff[OF d] by blast+
    have "hv_tenant r = t \<and> utc_of (hv_effective_at r) \<le> utc_of as_of" if r: "r \<in> set (rows_of db1 i)" for r
    proof -
      obtain m where m: "m \<in> set (pf_nodes db1)" "pf_id m = i" "pf_tenant m = hv_tenant r" using owner(1)[OF r] by blast
      then have "m = n" using n d by (metis distinct_map inj_onD)
      then show ?thesis using m n owner(2)[OF r] by simp
    qed
    then have "filter (\<lambda>r. hv_tenant r = t \<and> utc_of (hv_effective_at r) \<le> utc_of as_of) (rows_of db1 i) = rows_of db1 i"
      by (simp add: filter_id_conv)
    moreover have ne: "rows_of db1 i \<noteq> []" and st: "\<forall>r. live_node db1 t i = Some r \<longrightarrow> same_state (tree_node_of (last (rows_of db1 i))) r"
      using h1 n unfolding hist_ok_def by blast+
    ultimately have "resolve_tree_as_of db1 t as_of i = Some (tree_node_of (last (rows_of db1 i)))"
      unfolding tree_as_of_rows[OF sr] by (simp split: list.splits)
    moreover obtain r where "live_node db1 t i = Some r" using Some by (auto simp: live_node_def visible_node_def)
    ultimately show ?thesis using st eq by (simp add: db1_def db2_def)
  qed
qed

theorem as_of_tree_is_the_tree_then_witness:
  "\<exists>a r. live_node (pf_run (take 2 sample_ops)) ''T'' ''p2'' = Some r
     \<and> resolve_tree_as_of (pf_run sample_ops) ''T'' (Naive 2) ''p2'' = Some a \<and> same_state a r"
proof -
  have "sorted (map (\<lambda>x. utc_of (fst x)) (take 2 sample_ops @ drop 2 sample_ops))"
    "list_all (\<lambda>o'. utc_of (fst o') \<le> utc_of (Naive 2)) (take 2 sample_ops)"
    "list_all (\<lambda>o'. utc_of (Naive 2) < utc_of (fst o')) (drop 2 sample_ops)"
    by (simp_all add: sample_ops_def)
  note main = as_of_tree_is_the_tree_then[OF this, of "''T''" "''p2''"]
  have "live_node (pf_run (take 2 sample_ops)) ''T'' ''p2'' \<noteq> None" by code_simp
  then obtain r where "live_node (pf_run (take 2 sample_ops)) ''T'' ''p2'' = Some r" by blast
  then show ?thesis using main by auto
qed

end
