(* ===== verification/Captured_Holdings.thy ===== *)
theory Captured_Holdings
  imports Bitemporal Portfolio_Tree
begin

text \<open>
  The three captured records that follow the bitemporal protocol without a data-quality gate
  (\<open>position/\<close>, \<open>valuation/\<close>, \<open>reference/instrument_terms.py\<close>): each resolves the
  records its key names in the acting tenant, then runs the shared protocol on its own table. The tables the
  binders read and write are one state.
\<close>

section \<open>State\<close>

text \<open>An instrument head, as far as the binders read it.\<close>

record instrument =
  ins_id :: string
  ins_tenant :: string
  ins_code :: string

type_synonym position_key = "string \<times> string"

type_synonym valuation_key = "string \<times> string \<times> int"

record books =
  bk_portfolios :: portfolio_db
  bk_instruments :: "instrument list"
  bk_positions :: "position_key fr_db"
  bk_valuations :: "valuation_key fr_db"
  bk_terms :: "string fr_db"

section \<open>References\<close>

definition resolve_instrument :: "instrument list \<Rightarrow> string \<Rightarrow> string \<Rightarrow> 'k fr_error + instrument" where
  "resolve_instrument ins i t =
     (case find (\<lambda>r. ins_id r = i \<and> ins_tenant r = t) ins of
        None \<Rightarrow> Inl (RefNotVisible ''instrument'' i)
      | Some r \<Rightarrow> Inr r)"

definition resolve_holding :: "books \<Rightarrow> string \<Rightarrow> string \<Rightarrow> string \<Rightarrow> 'k fr_error + unit" where
  "resolve_holding bk p i t =
     (case resolve_portfolio (bk_portfolios bk) p t of
        Inl _ \<Rightarrow> Inl (RefNotVisible ''portfolio'' p)
      | Inr _ \<Rightarrow> bindR (resolve_instrument (bk_instruments bk) i t) (\<lambda>_. Inr ()))"

definition no_gate :: "'k version \<Rightarrow> unit \<Rightarrow> 'k fr_error + unit" where
  "no_gate row x = Inr x"

definition given_id :: "string option \<Rightarrow> string option" where
  "given_id m = (if truthy m then m else None)"

definition opt_dec :: "decimal option \<Rightarrow> field_value" where
  "opt_dec d = (case d of None \<Rightarrow> VNone | Some x \<Rightarrow> VDec x)"

definition opt_text :: "string option \<Rightarrow> field_value" where
  "opt_text s = (case s of None \<Rightarrow> VNone | Some x \<Rightarrow> VText x)"

section \<open>Positions\<close>

definition position_fields :: "string list" where
  "position_fields = [''quantity'', ''cost_basis'', ''quantity_unit'', ''position_source'']"

definition position_family :: fr_family where
  "position_family = \<lparr>fam_fields = position_fields, fam_not_null = [''quantity''],
     ev_create = ''POSITION.CREATE'', ev_update = ''POSITION.UPDATE'', ev_correction = ''POSITION.CORRECTION''\<rparr>"

definition store_position ::
  "books \<Rightarrow> 'e + (unit \<times> position_key fr_db) \<times> position_key version \<Rightarrow> 'e + books \<times> position_key version" where
  "store_position bk res = bindR res (\<lambda>((_, db), row). Inr (bk\<lparr>bk_positions := db\<rparr>, row))"

definition position_content :: "decimal \<Rightarrow> decimal option \<Rightarrow> string option \<Rightarrow> string option \<Rightarrow> content" where
  "position_content quantity cost unit_name source =
     [''quantity'' \<mapsto> VDec quantity, ''cost_basis'' \<mapsto> opt_dec cost,
      ''quantity_unit'' \<mapsto> opt_text unit_name, ''position_source'' \<mapsto> opt_text source]"

definition create_position ::
  "string \<Rightarrow> string \<Rightarrow> string \<Rightarrow> decimal \<Rightarrow> pydatetime option \<Rightarrow> decimal option \<Rightarrow> string option \<Rightarrow> string option
    \<Rightarrow> string option \<Rightarrow> string \<Rightarrow> pydatetime \<Rightarrow> books \<Rightarrow> position_key fr_error + books \<times> position_key version" where
  "create_position p i t quantity from cost unit_name source mapping nid now bk =
     bindR (resolve_holding bk p i t) (\<lambda>_.
       store_position bk
         (create_version position_family no_gate t (p, i)
           (position_content quantity cost unit_name source) (given_id mapping) from nid now ((), bk_positions bk)))"

definition supersede_position ::
  "string \<Rightarrow> string \<Rightarrow> string \<Rightarrow> pydatetime \<Rightarrow> (string \<times> field_value) list \<Rightarrow> string option \<Rightarrow> string \<Rightarrow> pydatetime
    \<Rightarrow> books \<Rightarrow> position_key fr_error + books \<times> position_key version" where
  "supersede_position p i t eff kw mapping nid now bk =
     bindR (resolve_holding bk p i t) (\<lambda>_.
       store_position bk
         (supersede_version position_family no_gate t (p, i) eff kw (given_id mapping) nid now ((), bk_positions bk)))"

definition correct_position ::
  "string \<Rightarrow> position_key version \<Rightarrow> string \<Rightarrow> (string \<times> field_value) list \<Rightarrow> string option \<Rightarrow> string
    \<Rightarrow> pydatetime \<Rightarrow> books \<Rightarrow> position_key fr_error + books \<times> position_key version" where
  "correct_position t row reason kw mapping nid now bk =
     bindR (resolve_holding bk (fst (v_key row)) (snd (v_key row)) t) (\<lambda>_.
       store_position bk
         (correct_version position_family no_gate t row reason kw (given_id mapping) nid now ((), bk_positions bk)))"

definition resolve_position :: "books \<Rightarrow> string \<Rightarrow> string \<Rightarrow> position_key fr_error + position_key version" where
  "resolve_position bk i t = resolve_version (bk_positions bk) i t"

definition reconstruct_position_as_of ::
  "books \<Rightarrow> string \<Rightarrow> string \<Rightarrow> string \<Rightarrow> pydatetime \<Rightarrow> pydatetime option \<Rightarrow> pydatetime
    \<Rightarrow> position_key fr_error + position_key version option" where
  "reconstruct_position_as_of bk t p i valid_at known_at now =
     reconstruct_as_of (bk_positions bk) t (p, i) valid_at known_at now"

section \<open>Valuations\<close>

definition valuation_fields :: "string list" where
  "valuation_fields = [''mark_value'', ''currency_code'', ''mark_source'', ''price_basis'']"

definition valuation_family :: fr_family where
  "valuation_family = \<lparr>fam_fields = valuation_fields, fam_not_null = [''mark_value''],
     ev_create = ''VALUATION.CREATE'', ev_update = ''VALUATION.UPDATE'', ev_correction = ''VALUATION.CORRECTION''\<rparr>"

definition store_valuation ::
  "books \<Rightarrow> 'e + (unit \<times> valuation_key fr_db) \<times> valuation_key version \<Rightarrow> 'e + books \<times> valuation_key version" where
  "store_valuation bk res = bindR res (\<lambda>((_, db), row). Inr (bk\<lparr>bk_valuations := db\<rparr>, row))"

definition create_valuation ::
  "string \<Rightarrow> string \<Rightarrow> int \<Rightarrow> string \<Rightarrow> decimal \<Rightarrow> pydatetime option \<Rightarrow> string option \<Rightarrow> string option \<Rightarrow> string option
    \<Rightarrow> string \<Rightarrow> pydatetime \<Rightarrow> books \<Rightarrow> valuation_key fr_error + books \<times> valuation_key version" where
  "create_valuation p i d t mark from currency source basis nid now bk =
     bindR (resolve_holding bk p i t) (\<lambda>_.
       store_valuation bk
         (create_version valuation_family no_gate t (p, i, d)
           [''mark_value'' \<mapsto> VDec mark, ''currency_code'' \<mapsto> opt_text currency,
            ''mark_source'' \<mapsto> opt_text source, ''price_basis'' \<mapsto> opt_text basis]
           None from nid now ((), bk_valuations bk)))"

definition supersede_valuation ::
  "string \<Rightarrow> string \<Rightarrow> int \<Rightarrow> string \<Rightarrow> pydatetime \<Rightarrow> (string \<times> field_value) list \<Rightarrow> string \<Rightarrow> pydatetime
    \<Rightarrow> books \<Rightarrow> valuation_key fr_error + books \<times> valuation_key version" where
  "supersede_valuation p i d t eff kw nid now bk =
     bindR (resolve_holding bk p i t) (\<lambda>_.
       store_valuation bk
         (supersede_version valuation_family no_gate t (p, i, d) eff kw None nid now ((), bk_valuations bk)))"

definition correct_valuation ::
  "string \<Rightarrow> valuation_key version \<Rightarrow> string \<Rightarrow> (string \<times> field_value) list \<Rightarrow> string
    \<Rightarrow> pydatetime \<Rightarrow> books \<Rightarrow> valuation_key fr_error + books \<times> valuation_key version" where
  "correct_valuation t row reason kw nid now bk =
     bindR (resolve_holding bk (fst (v_key row)) (fst (snd (v_key row))) t) (\<lambda>_.
       store_valuation bk
         (correct_version valuation_family no_gate t row reason kw None nid now ((), bk_valuations bk)))"

definition resolve_valuation :: "books \<Rightarrow> string \<Rightarrow> string \<Rightarrow> valuation_key fr_error + valuation_key version" where
  "resolve_valuation bk i t = resolve_version (bk_valuations bk) i t"

definition reconstruct_valuation_as_of ::
  "books \<Rightarrow> string \<Rightarrow> string \<Rightarrow> string \<Rightarrow> int \<Rightarrow> pydatetime \<Rightarrow> pydatetime option \<Rightarrow> pydatetime
    \<Rightarrow> valuation_key fr_error + valuation_key version option" where
  "reconstruct_valuation_as_of bk t p i d valid_at known_at now =
     reconstruct_as_of (bk_valuations bk) t (p, i, d) valid_at known_at now"

section \<open>Instrument terms\<close>

definition term_fields :: "string list" where
  "term_fields = [''coupon_rate'', ''coupon_frequency'', ''issue_date'', ''maturity_date'', ''day_count'',
     ''denomination_currency'', ''face_value'', ''term_source'']"

definition terms_family :: fr_family where
  "terms_family = \<lparr>fam_fields = term_fields, fam_not_null = [],
     ev_create = ''REFERENCE.CREATE'', ev_update = ''REFERENCE.UPDATE'', ev_correction = ''REFERENCE.CORRECTION''\<rparr>"

definition store_terms ::
  "books \<Rightarrow> 'e + (unit \<times> string fr_db) \<times> string version \<Rightarrow> 'e + books \<times> string version" where
  "store_terms bk res = bindR res (\<lambda>((_, db), row). Inr (bk\<lparr>bk_terms := db\<rparr>, row))"

definition create_instrument_terms ::
  "string \<Rightarrow> string \<Rightarrow> pydatetime option \<Rightarrow> (string \<times> field_value) list \<Rightarrow> string \<Rightarrow> pydatetime \<Rightarrow> books
    \<Rightarrow> string fr_error + books \<times> string version" where
  "create_instrument_terms i t from kw nid now bk =
     bindR (resolve_instrument (bk_instruments bk) i t) (\<lambda>_.
     bindR (check_field_kwargs terms_family kw) (\<lambda>_.
       store_terms bk
         (create_version terms_family no_gate t i (map_of kw) None from nid now ((), bk_terms bk))))"

definition supersede_instrument_terms ::
  "string \<Rightarrow> string \<Rightarrow> pydatetime \<Rightarrow> (string \<times> field_value) list \<Rightarrow> string \<Rightarrow> pydatetime \<Rightarrow> books
    \<Rightarrow> string fr_error + books \<times> string version" where
  "supersede_instrument_terms i t eff kw nid now bk =
     bindR (resolve_instrument (bk_instruments bk) i t) (\<lambda>_.
       store_terms bk
         (supersede_version terms_family no_gate t i eff kw None nid now ((), bk_terms bk)))"

definition correct_instrument_terms ::
  "string \<Rightarrow> string version \<Rightarrow> string \<Rightarrow> (string \<times> field_value) list \<Rightarrow> string \<Rightarrow> pydatetime \<Rightarrow> books
    \<Rightarrow> string fr_error + books \<times> string version" where
  "correct_instrument_terms t row reason kw nid now bk =
     bindR (resolve_instrument (bk_instruments bk) (v_key row) t) (\<lambda>_.
       store_terms bk
         (correct_version terms_family no_gate t row reason kw None nid now ((), bk_terms bk)))"

definition reconstruct_terms_as_of ::
  "books \<Rightarrow> string \<Rightarrow> string \<Rightarrow> pydatetime \<Rightarrow> pydatetime option \<Rightarrow> pydatetime
    \<Rightarrow> string fr_error + string version option" where
  "reconstruct_terms_as_of bk i t valid_at known_at now = reconstruct_as_of (bk_terms bk) t i valid_at known_at now"

lemmas position_ops_defs = create_position_def supersede_position_def correct_position_def store_position_def
lemmas valuation_ops_defs = create_valuation_def supersede_valuation_def correct_valuation_def store_valuation_def
lemmas terms_ops_defs = create_instrument_terms_def supersede_instrument_terms_def correct_instrument_terms_def store_terms_def

section \<open>Interleaved runs\<close>

text \<open>
  The write operations of the three binders; a correction names the version by id, as its endpoint does, and
  resolves it in the acting tenant first.
\<close>

datatype book_op =
    CreatePosition string string decimal "pydatetime option" "decimal option" "string option" "string option" "string option"
  | SupersedePosition string string pydatetime "(string \<times> field_value) list" "string option"
  | CorrectPosition string string "(string \<times> field_value) list" "string option"
  | CreateValuation string string int decimal "pydatetime option" "string option" "string option" "string option"
  | SupersedeValuation string string int pydatetime "(string \<times> field_value) list"
  | CorrectValuation string string "(string \<times> field_value) list"
  | CreateTerms string "pydatetime option" "(string \<times> field_value) list"
  | SupersedeTerms string pydatetime "(string \<times> field_value) list"
  | CorrectTerms string string "(string \<times> field_value) list"

definition committed :: "'e + 's \<times> 'r \<Rightarrow> 's option" where
  "committed res = (case res of Inl _ \<Rightarrow> None | Inr (s, _) \<Rightarrow> Some s)"

fun book_exec :: "pydatetime \<Rightarrow> string \<Rightarrow> string \<times> book_op \<Rightarrow> books \<Rightarrow> books option" where
  "book_exec now nid (t, CreatePosition p i q from cost u src m) bk = committed (create_position p i t q from cost u src m nid now bk)"
| "book_exec now nid (t, SupersedePosition p i eff kw m) bk = committed (supersede_position p i t eff kw m nid now bk)"
| "book_exec now nid (t, CorrectPosition rid reason kw m) bk =
     committed (bindR (resolve_position bk rid t) (\<lambda>row. correct_position t row reason kw m nid now bk))"
| "book_exec now nid (t, CreateValuation p i d q from c src b) bk = committed (create_valuation p i d t q from c src b nid now bk)"
| "book_exec now nid (t, SupersedeValuation p i d eff kw) bk = committed (supersede_valuation p i d t eff kw nid now bk)"
| "book_exec now nid (t, CorrectValuation rid reason kw) bk =
     committed (bindR (resolve_valuation bk rid t) (\<lambda>row. correct_valuation t row reason kw nid now bk))"
| "book_exec now nid (t, CreateTerms i from kw) bk = committed (create_instrument_terms i t from kw nid now bk)"
| "book_exec now nid (t, SupersedeTerms i eff kw) bk = committed (supersede_instrument_terms i t eff kw nid now bk)"
| "book_exec now nid (t, CorrectTerms rid reason kw) bk =
     committed (bindR (resolve_version (bk_terms bk) rid t) (\<lambda>row. correct_instrument_terms t row reason kw nid now bk))"

definition is_closed :: "'k fr_db \<Rightarrow> string \<Rightarrow> string \<Rightarrow> bool" where
  "is_closed db i t \<longleftrightarrow> list_ex (\<lambda>r. v_id r = i \<and> v_tenant r = t \<and> system_to r \<noteq> None) (versions db)"

fun book_reopens :: "string \<times> book_op \<Rightarrow> books \<Rightarrow> bool" where
  "book_reopens (t, CorrectPosition rid _ _ _) bk \<longleftrightarrow> is_closed (bk_positions bk) rid t"
| "book_reopens (t, CorrectValuation rid _ _) bk \<longleftrightarrow> is_closed (bk_valuations bk) rid t"
| "book_reopens (t, CorrectTerms rid _ _) bk \<longleftrightarrow> is_closed (bk_terms bk) rid t"
| "book_reopens _ _ \<longleftrightarrow> False"

lemma committed_Some: "committed res = Some s \<longleftrightarrow> (\<exists>r. res = Inr (s, r))"
  by (auto simp: committed_def split: sum.splits)

lemma still_open:
  "resolve_version db i t = Inr row \<Longrightarrow> \<not> is_closed db i t \<Longrightarrow>
     row \<in> set (versions db) \<and> v_tenant row = t \<and> v_id row = i \<and> system_to row = None"
  using resolve_version_Inr[of db i t row] by (auto simp: is_closed_def list_ex_iff)

lemma resolved_correct_wf:
  assumes "correct_version fam gate t row reason kw m nid now (x, db) = Inr ((x', db'), new)"
    "resolve_version db i t = Inr row" "\<not> is_closed db i t" "fr_wf clock db" "clock \<le> utc_of now"
  shows "fr_wf (utc_of now) db'"
proof -
  have row: "row \<in> set (versions db)" "system_to row = None" "v_tenant row = t" using still_open[OF assms(2,3)] by auto
  show ?thesis by (rule correct_view(2)[OF assms(4,5) row assms(1)])
qed

lemmas book_exec_effects = committed_Some bindR_Inr position_ops_defs valuation_ops_defs terms_ops_defs
  resolve_position_def resolve_valuation_def

interpretation pos: fr_binder bk_positions book_exec book_reopens
proof
  fix clock s now op nid s'
  assume wf: "fr_wf clock (bk_positions s)" "clock \<le> utc_of now" and ok: "\<not> book_reopens op s" "book_exec now nid op s = Some s'"
  obtain t bop where op: "op = (t, bop)" by (cases op)
  show "fr_wf (utc_of now) (bk_positions s')"
    using wf ok unfolding op
    by (cases bop) (auto simp: book_exec_effects fr_wf_later elim: create_view(2) supersede_view resolved_correct_wf)
qed

interpretation val: fr_binder bk_valuations book_exec book_reopens
proof
  fix clock s now op nid s'
  assume wf: "fr_wf clock (bk_valuations s)" "clock \<le> utc_of now" and ok: "\<not> book_reopens op s" "book_exec now nid op s = Some s'"
  obtain t bop where op: "op = (t, bop)" by (cases op)
  show "fr_wf (utc_of now) (bk_valuations s')"
    using wf ok unfolding op
    by (cases bop) (auto simp: book_exec_effects fr_wf_later elim: create_view(2) supersede_view resolved_correct_wf)
qed

interpretation trm: fr_binder bk_terms book_exec book_reopens
proof
  fix clock s now op nid s'
  assume wf: "fr_wf clock (bk_terms s)" "clock \<le> utc_of now" and ok: "\<not> book_reopens op s" "book_exec now nid op s = Some s'"
  obtain t bop where op: "op = (t, bop)" by (cases op)
  show "fr_wf (utc_of now) (bk_terms s')"
    using wf ok unfolding op
    by (cases bop) (auto simp: book_exec_effects fr_wf_later elim: create_view(2) supersede_view resolved_correct_wf)
qed

section \<open>Properties\<close>

definition empty_books :: "portfolio_db \<Rightarrow> instrument list \<Rightarrow> books" where
  "empty_books pdb ins = \<lparr>bk_portfolios = pdb, bk_instruments = ins,
     bk_positions = \<lparr>versions = [], fr_events = [], origin_edges = []\<rparr>,
     bk_valuations = \<lparr>versions = [], fr_events = [], origin_edges = []\<rparr>,
     bk_terms = \<lparr>versions = [], fr_events = [], origin_edges = []\<rparr>\<rparr>"

lemma empty_books_wf:
  "fr_wf c (bk_positions (empty_books pdb ins))" "fr_wf c (bk_valuations (empty_books pdb ins))"
  "fr_wf c (bk_terms (empty_books pdb ins))"
  by (simp_all add: empty_books_def fr_wf_empty)

text \<open>
  C26. Whatever creates, supersedes and corrections of positions, valuations and instrument terms run, interleaved
  and with refusals, as long as the clock does not go back and only versions that are still open on the system
  axis are corrected: every as-of read of the three records, for any business and knowledge instants, returns
  (it never finds two versions), and each key that has versions has exactly one that is open on both axes.
\<close>
theorem captured_records_read_unambiguously:
  assumes "orderly book_exec book_reopens clock ops (empty_books pdb ins)"
    and bk: "bk = run_ops book_exec ops (empty_books pdb ins)"
  shows "(\<exists>row. reconstruct_position_as_of bk t p i valid_at known_at now = Inr row)
    \<and> (\<exists>row. reconstruct_valuation_as_of bk t p i d valid_at known_at now = Inr row)
    \<and> (\<exists>row. reconstruct_terms_as_of bk i t valid_at known_at now = Inr row)
    \<and> (\<forall>r\<in>set (versions (bk_positions bk)).
        length (filter (is_head (v_tenant r) (v_key r)) (versions (bk_positions bk))) = 1)
    \<and> (\<forall>r\<in>set (versions (bk_valuations bk)).
        length (filter (is_head (v_tenant r) (v_key r)) (versions (bk_valuations bk))) = 1)
    \<and> (\<forall>r\<in>set (versions (bk_terms bk)).
        length (filter (is_head (v_tenant r) (v_key r)) (versions (bk_terms bk))) = 1)"
proof -
  note P = pos.run_reads[OF empty_books_wf(1) assms(1), folded bk]
    and V = val.run_reads[OF empty_books_wf(2) assms(1), folded bk]
    and T = trm.run_reads[OF empty_books_wf(3) assms(1), folded bk]
  have "length (filter (is_head (v_tenant r) (v_key r)) (versions (bk_positions bk))) = 1"
    if "r \<in> set (versions (bk_positions bk))" for r using P[of "v_tenant r" "v_key r"] that by (auto split: if_splits)
  moreover have "length (filter (is_head (v_tenant r) (v_key r)) (versions (bk_valuations bk))) = 1"
    if "r \<in> set (versions (bk_valuations bk))" for r using V[of "v_tenant r" "v_key r"] that by (auto split: if_splits)
  moreover have "length (filter (is_head (v_tenant r) (v_key r)) (versions (bk_terms bk))) = 1"
    if "r \<in> set (versions (bk_terms bk))" for r using T[of "v_tenant r" "v_key r"] that by (auto split: if_splits)
  ultimately show ?thesis
    unfolding reconstruct_position_as_of_def reconstruct_valuation_as_of_def reconstruct_terms_as_of_def
    using P[of t "(p, i)" valid_at known_at now] V[of t "(p, i, d)" valid_at known_at now] T[of t i valid_at known_at now]
    by blast
qed

lemma create_position_view:
  assumes "fr_wf clock (bk_positions bk)" "clock \<le> utc_of now"
    "create_position p i t q from cost u src m nid now bk = Inr (bk', row)"
  shows "as_of_view (bk_positions bk') = view_write t (p, i)
    (\<lambda>s v. utc_of now \<le> s \<and> utc_of (case from of None \<Rightarrow> now | Some f \<Rightarrow> f) \<le> v) (Some (nid, position_content q cost u src))
    (as_of_view (bk_positions bk))"
proof -
  obtain x db where ok: "create_version position_family no_gate t (p, i) (position_content q cost u src) (given_id m) from nid now ((), bk_positions bk) = Inr ((x, db), row)"
    and bk': "bk' = bk\<lparr>bk_positions := db\<rparr>" using assms(3) by (auto simp: position_ops_defs bindR_Inr)
  show ?thesis using create_view(1)[OF assms(1,2) ok] by (simp add: bk')
qed

lemma supersede_position_view:
  assumes "fr_wf clock (bk_positions bk)" "clock \<le> utc_of now"
    "supersede_position p i t eff kw m nid now bk = Inr (bk', row)"
  shows "\<exists>h. current_open (bk_positions bk) t (p, i) = Inr (Some h) \<and>
    as_of_view (bk_positions bk') =
      view_write t (p, i) (\<lambda>s v. utc_of now \<le> s \<and> utc_of eff \<le> v) (Some (nid, v_content h ++ map_of kw))
        (view_write t (p, i) (\<lambda>s v. utc_of (system_from h) \<le> s \<and> utc_of eff \<le> v) None (as_of_view (bk_positions bk)))"
proof -
  obtain x db where ok: "supersede_version position_family no_gate t (p, i) eff kw (given_id m) nid now ((), bk_positions bk) = Inr ((x, db), row)"
    and bk': "bk' = bk\<lparr>bk_positions := db\<rparr>" using assms(3) by (auto simp: position_ops_defs bindR_Inr)
  show ?thesis by (rule supersede_view[OF assms(1,2) ok]) (use bk' in auto)
qed

lemma correct_position_view:
  assumes "fr_wf clock (bk_positions bk)" "clock \<le> utc_of now" "resolve_position bk rid t = Inr old" "system_to old = None"
    "correct_position t old reason kw m nid now bk = Inr (bk', row)"
  shows "as_of_view (bk_positions bk') = view_write t (v_key old)
    (\<lambda>s v. utc_of now \<le> s \<and> covers_valid old v) (Some (nid, v_content old ++ map_of kw)) (as_of_view (bk_positions bk))"
proof -
  obtain x db where ok: "correct_version position_family no_gate t old reason kw (given_id m) nid now ((), bk_positions bk) = Inr ((x, db), row)"
    and bk': "bk' = bk\<lparr>bk_positions := db\<rparr>" using assms(5) by (auto simp: position_ops_defs bindR_Inr)
  have "old \<in> set (versions (bk_positions bk))" "v_tenant old = t"
    using resolve_version_Inr assms(3) unfolding resolve_position_def by blast+
  then show ?thesis using correct_view(1)[OF assms(1,2) _ assms(4) _ ok] by (simp add: bk')
qed

text \<open>
  C25. The position binder refines the as-of view, the function from a key, a knowledge instant and a business
  instant to what a reader is told: a create writes the new version from now and from its as-of date on; a supersede
  takes the head's word away from the effective instant on and writes the new version there from now on; a
  correction of a system-open version writes that version's own window from now on; and the as-of read reads the view.
\<close>
theorem position_binder_refines_the_as_of_view:
  assumes wf: "fr_wf clock (bk_positions bk)" and clock: "clock \<le> utc_of now"
  defines "view \<equiv> as_of_view (bk_positions bk)"
  shows "(\<forall>q cost u src bk' row. create_position p i t q from cost u src m nid now bk = Inr (bk', row) \<longrightarrow>
      as_of_view (bk_positions bk') = view_write t (p, i)
        (\<lambda>s v. utc_of now \<le> s \<and> utc_of (case from of None \<Rightarrow> now | Some f \<Rightarrow> f) \<le> v)
        (Some (nid, position_content q cost u src)) view)
    \<and> (\<forall>bk' row. supersede_position p i t eff kw m nid now bk = Inr (bk', row) \<longrightarrow>
      (\<exists>h. current_open (bk_positions bk) t (p, i) = Inr (Some h) \<and> as_of_view (bk_positions bk') =
          view_write t (p, i) (\<lambda>s v. utc_of now \<le> s \<and> utc_of eff \<le> v) (Some (nid, v_content h ++ map_of kw))
            (view_write t (p, i) (\<lambda>s v. utc_of (system_from h) \<le> s \<and> utc_of eff \<le> v) None view)))
    \<and> (\<forall>old bk' row. resolve_position bk rid t = Inr old \<and> system_to old = None
        \<and> correct_position t old reason kw m nid now bk = Inr (bk', row) \<longrightarrow>
      as_of_view (bk_positions bk') = view_write t (v_key old)
        (\<lambda>s v. utc_of now \<le> s \<and> covers_valid old v) (Some (nid, v_content old ++ map_of kw)) view)
    \<and> (\<exists>row. reconstruct_position_as_of bk t p i valid_at known_at now = Inr row \<and>
      map_option (\<lambda>r. (v_id r, v_content r)) row
        = view t (p, i) (utc_of (case known_at of None \<Rightarrow> now | Some x \<Rightarrow> x)) (utc_of valid_at))"
proof -
  have read: "\<exists>row. reconstruct_position_as_of bk t p i valid_at known_at now = Inr row \<and>
      map_option (\<lambda>r. (v_id r, v_content r)) row
        = as_of_view (bk_positions bk) t (p, i) (utc_of (case known_at of None \<Rightarrow> now | Some x \<Rightarrow> x)) (utc_of valid_at)"
    unfolding reconstruct_position_as_of_def by (rule reconstruct_reads_view[OF wf])
  show ?thesis
    unfolding view_def
    by (intro conjI allI impI; (elim conjE)?;
        (rule read | erule create_position_view[OF wf clock] | erule supersede_position_view[OF wf clock]
          | (erule correct_position_view[OF wf clock]; assumption)))
qed

text \<open>
  Reopening: take a version that is open on the system axis and whose valid window has been closed by a
  supersede, and submit the same correction of it twice. The second one is accepted too (the version is already
  closed on the system axis, but nothing checks that, and the index only guards the current head), and from then on
  every as-of read of that window finds two versions and raises.
\<close>
lemma repeated_correction_makes_history_unreadable:
  assumes wf: "fr_wf clock (bk_positions bk)" "clock \<le> utc_of now1" "utc_of now1 \<le> utc_of now2"
    and row: "resolve_position bk rid t = Inr row" "system_to row = None" "valid_to row = Some w"
    and once: "correct_position t row reason kw m nid1 now1 bk = Inr (bk1, new1)"
    and fresh: "nid2 \<notin> v_id ` set (versions (bk_positions bk1))"
  shows "\<exists>row1 bk2 new2. resolve_position bk1 rid t = Inr row1 \<and> system_to row1 = Some now1
    \<and> correct_position t row1 reason kw m nid2 now2 bk1 = Inr (bk2, new2)
    \<and> (\<forall>valid_at known_at. utc_of (valid_from row) \<le> utc_of valid_at \<and> utc_of valid_at < utc_of w
        \<and> utc_of now2 \<le> utc_of known_at \<longrightarrow>
        reconstruct_position_as_of bk2 t (fst (v_key row)) (snd (v_key row)) valid_at (Some known_at) now
          = Inl MultipleResultsFound)"
proof -
  obtain db1 where ok: "correct_version position_family no_gate t row reason kw (given_id m) nid1 now1 ((), bk_positions bk) = Inr (((), db1), new1)"
    and bk1: "bk1 = bk\<lparr>bk_positions := db1\<rparr>" 
    using once by (auto simp: position_ops_defs bindR_Inr)
  have ref: "resolve_holding bk (fst (v_key row)) (snd (v_key row)) t = (Inr () :: position_key fr_error + unit)"
    using once by (auto simp: correct_position_def bindR_Inr)
  have r: "row \<in> set (versions (bk_positions bk))" "v_tenant row = t" "v_id row = rid"
    using resolve_version_Inr row(1) unfolding resolve_position_def by blast+
  have ref1: "resolve_holding bk1 (fst (v_key row)) (snd (v_key row)) t = (Inr () :: position_key fr_error + unit)"
    using ref by (simp add: resolve_holding_def bk1 split: sum.splits)
  obtain db2 new2 where two: "resolve_version db1 (v_id row) t = Inr (row\<lparr>system_to := Some now1\<rparr>)"
    "correct_version position_family no_gate t (row\<lparr>system_to := Some now1\<rparr>) reason kw (given_id m) nid2 now2 ((), db1)
      = Inr (((), db2), new2)"
    "\<forall>valid_at known. covers_valid row (utc_of valid_at) \<and> utc_of now2 \<le> utc_of known \<longrightarrow>
        reconstruct_as_of db2 t (v_key row) valid_at (Some known) now = Inl MultipleResultsFound"
    using corrected_twice[OF wf r(1) row(2) r(2) row(3) _ ok, of nid2 now] fresh by (auto simp: bk1 no_gate_def)
  have "correct_position t (row\<lparr>system_to := Some now1\<rparr>) reason kw m nid2 now2 bk1 = Inr (bk1\<lparr>bk_positions := db2\<rparr>, new2)"
    using two(2) ref1 by (simp add: position_ops_defs bk1)
  moreover have "resolve_position bk1 rid t = Inr (row\<lparr>system_to := Some now1\<rparr>)"
    using two(1) r(3) by (simp add: resolve_position_def bk1)
  ultimately show ?thesis
    using two(3) row(3) by (auto simp: reconstruct_position_as_of_def covers_valid_def)
qed

text \<open>
  A supersede rewrites what was known: for business instants from its effective instant on, a read at a past
  knowledge instant at which the head was already known returned the head before the supersede and returns nothing
  after it, although the supersede was not known then.
\<close>
lemma supersede_rewrites_past_knowledge:
  assumes wf: "fr_wf clock (bk_positions bk)" "clock \<le> utc_of now"
    and head: "current_open (bk_positions bk) t (p, i) = Inr (Some h)"
    and ok: "supersede_position p i t eff kw m nid now bk = Inr (bk', row)"
    and past: "utc_of (system_from h) \<le> utc_of known" "utc_of known < utc_of now" "utc_of eff \<le> utc_of valid_at"
  shows "reconstruct_position_as_of bk t p i valid_at (Some known) now' = Inr (Some h)
    \<and> reconstruct_position_as_of bk' t p i valid_at (Some known) now' = Inr None"
proof
  obtain x db where ok': "supersede_version position_family no_gate t (p, i) eff kw (given_id m) nid now ((), bk_positions bk) = Inr ((x, db), row)"
    and bk': "bk' = bk\<lparr>bk_positions := db\<rparr>" using ok by (auto simp: position_ops_defs bindR_Inr)
  have eff: "utc_of (valid_from h) < utc_of eff"
    using supersede_version_effect[OF wf(1) ok'] head by auto
  show "reconstruct_position_as_of bk t p i valid_at (Some known) now' = Inr (Some h)"
    unfolding reconstruct_position_as_of_def
    using head_read[OF wf(1) head, of valid_at known] past eff by simp
  have wf': "fr_wf (utc_of now) (bk_positions bk')"
    by (rule supersede_view[OF wf ok']) (simp add: bk')
  have "as_of_view (bk_positions bk') t (p, i) (utc_of known) (utc_of valid_at) = None"
    using supersede_position_view[OF wf ok] head past by (auto simp: view_write_def)
  then show "reconstruct_position_as_of bk' t p i valid_at (Some known) now' = Inr None"
    using reconstruct_reads_view[OF wf', of t "(p, i)" valid_at "Some known" now'] by (auto simp: reconstruct_position_as_of_def)
qed

section \<open>A sample book\<close>

definition sample_bk0 :: books where
  "sample_bk0 = empty_books
     \<lparr>pf_nodes = [\<lparr>pf_id = ''p'', pf_tenant = ''t'', pf_code = ''FUND'', pf_name = ''Fund'', pf_node_type = ''FUND'',
        pf_parent = None, pf_currency = None, pf_status = ''ACTIVE'', pf_description = None, pf_version = 1,
        pf_valid_from = Naive 0\<rparr>], pf_history = [], pf_events = [], pf_origins = []\<rparr>
     [\<lparr>ins_id = ''i'', ins_tenant = ''t'', ins_code = ''XS1''\<rparr>]"

text \<open>A holding of 100 from instant 10, 150 from instant 20 on, captured when they happened.\<close>

definition sample_book_ops :: "(pydatetime \<times> string \<times> string \<times> book_op) list" where
  "sample_book_ops =
     [(Naive 10, ''v1'', ''t'', CreatePosition ''p'' ''i'' (Fin 100 0) None None None None None),
      (Naive 20, ''v2'', ''t'', SupersedePosition ''p'' ''i'' (Naive 20) [(''quantity'', VDec (Fin 150 0))] None),
      (Naive 25, ''m1'', ''t'', CreateValuation ''p'' ''i'' 7 (Fin 101 0) None None None None),
      (Naive 26, ''m2'', ''t'', CorrectValuation ''m1'' ''typo'' [(''mark_value'', VDec (Fin 102 0))]),
      (Naive 27, ''x1'', ''t'', CreateTerms ''i'' None [(''coupon_rate'', VDec (Fin 3 0))])]"

definition sample_bk1 :: books where
  "sample_bk1 = run_ops book_exec (take 1 sample_book_ops) sample_bk0"

definition sample_bk2 :: books where
  "sample_bk2 = run_ops book_exec sample_book_ops sample_bk0"

lemma sample_orderly:
  "orderly book_exec book_reopens 0 sample_book_ops sample_bk0"
  "orderly book_exec book_reopens 0 (take 1 sample_book_ops) sample_bk0"
  by code_simp+

lemma sample_bk2_wf: "\<exists>c. fr_wf c (bk_positions sample_bk2)"
  unfolding sample_bk2_def using pos.run_wf sample_orderly(1) empty_books_wf(1) unfolding sample_bk0_def by blast

theorem captured_records_read_unambiguously_witness:
  "length (versions (bk_positions sample_bk2)) = 2 \<and>
     list_all (\<lambda>r. length (filter (is_head (v_tenant r) (v_key r)) (versions (bk_positions sample_bk2))) = 1)
       (versions (bk_positions sample_bk2))"
proof
  show "length (versions (bk_positions sample_bk2)) = 2" by code_simp
  show "list_all (\<lambda>r. length (filter (is_head (v_tenant r) (v_key r)) (versions (bk_positions sample_bk2))) = 1)
      (versions (bk_positions sample_bk2))"
    unfolding list_all_iff
    using captured_records_read_unambiguously[OF sample_orderly(1)[unfolded sample_bk0_def] sample_bk2_def[unfolded sample_bk0_def]]
    by blast
qed

lemma run_one: "\<not> Option.is_none (exec now nid op s) \<Longrightarrow> exec now nid op s = Some (run_ops exec [(now, nid, op)] s)"
  by (auto simp: Option.is_none_def)

lemma sample_bk1_wf: "fr_wf 10 (bk_positions sample_bk1)"
proof -
  let ?op = "(''t'', CreatePosition ''p'' ''i'' (Fin 100 0) None None None None None)"
  have "\<not> Option.is_none (book_exec (Naive 10) ''v1'' ?op sample_bk0)" by code_simp
  then have "book_exec (Naive 10) ''v1'' ?op sample_bk0 = Some sample_bk1"
    using run_one by (fastforce simp: sample_bk1_def sample_book_ops_def simp del: book_exec.simps)
  then show ?thesis
    using pos.exec_wf[of 0 sample_bk0 "Naive 10" ?op] empty_books_wf(1) by (simp add: sample_bk0_def)
qed

lemma sample_supersede:
  "isOk (supersede_position ''p'' ''i'' ''t'' (Naive 20) [(''quantity'', VDec (Fin 150 0))] None ''v2'' (Naive 30) sample_bk1)"
  by code_simp

theorem position_binder_refines_the_as_of_view_witness:
  "\<exists>bk' row. supersede_position ''p'' ''i'' ''t'' (Naive 20) [(''quantity'', VDec (Fin 150 0))] None ''v2'' (Naive 30) sample_bk1
      = Inr (bk', row)
    \<and> map_option (\<lambda>x. snd x ''quantity'') (as_of_view (bk_positions bk') ''t'' (''p'', ''i'') 30 25)
      = Some (Some (VDec (Fin 150 0)))"
proof -
  obtain bk' row where ok: "supersede_position ''p'' ''i'' ''t'' (Naive 20) [(''quantity'', VDec (Fin 150 0))] None ''v2'' (Naive 30) sample_bk1
      = Inr (bk', row)"
    by (cases "supersede_position ''p'' ''i'' ''t'' (Naive 20) [(''quantity'', VDec (Fin 150 0))] None ''v2'' (Naive 30) sample_bk1")
      (use sample_supersede in auto)
  have "10 \<le> utc_of (Naive 30)" by simp
  from position_binder_refines_the_as_of_view[OF sample_bk1_wf this, THEN conjunct2, THEN conjunct1, rule_format, OF ok]
  show ?thesis using ok by (auto simp: view_write_def)
qed

lemma sample_bk2_at_27: "fr_wf 27 (bk_positions sample_bk2)"
proof -
  have "list_all (\<lambda>r. utc_of (system_from r) \<le> 27) (versions (bk_positions sample_bk2))" by code_simp
  then show ?thesis using sample_bk2_wf fr_wf_clock by blast
qed

lemma sample_first_version:
  "\<exists>row. resolve_position sample_bk2 ''v1'' ''t'' = Inr row \<and> system_to row = None \<and> valid_to row = Some (Naive 20)
     \<and> valid_from row = Naive 10 \<and> v_key row = (''p'', ''i'')
     \<and> isOk (correct_position ''t'' row ''late file'' [(''quantity'', VDec (Fin 90 0))] None ''v3'' (Naive 30) sample_bk2)"
proof -
  have "case resolve_position sample_bk2 ''v1'' ''t'' of Inl _ \<Rightarrow> False
    | Inr row \<Rightarrow> system_to row = None \<and> valid_to row = Some (Naive 20)
     \<and> valid_from row = Naive 10 \<and> v_key row = (''p'', ''i'')
     \<and> isOk (correct_position ''t'' row ''late file'' [(''quantity'', VDec (Fin 90 0))] None ''v3'' (Naive 30) sample_bk2)"
    by code_simp
  then show ?thesis by (auto split: sum.splits)
qed

lemma repeated_correction_makes_history_unreadable_witness:
  "\<exists>bk2. reconstruct_position_as_of bk2 ''t'' ''p'' ''i'' (Naive 15) (Some (Naive 40)) (Naive 50) = Inl MultipleResultsFound"
proof -
  obtain row where row: "resolve_position sample_bk2 ''v1'' ''t'' = Inr row" "system_to row = None" "valid_to row = Some (Naive 20)"
    "valid_from row = Naive 10" "v_key row = (''p'', ''i'')"
    "isOk (correct_position ''t'' row ''late file'' [(''quantity'', VDec (Fin 90 0))] None ''v3'' (Naive 30) sample_bk2)"
    using sample_first_version by blast
  obtain bk1 new1 where once: "correct_position ''t'' row ''late file'' [(''quantity'', VDec (Fin 90 0))] None ''v3'' (Naive 30) sample_bk2
      = Inr (bk1, new1)" using row(6) by (auto elim!: isOkE)
  obtain nid2 where fresh: "nid2 \<notin> v_id ` set (versions (bk_positions bk1))"
    using ex_new_if_finite[OF infinite_UNIV_listI] by (metis List.finite_set finite_imageI)
  have "27 \<le> utc_of (Naive 30)" "utc_of (Naive 30) \<le> utc_of (Naive 31)" by simp_all
  from repeated_correction_makes_history_unreadable[OF sample_bk2_at_27 this row(1-3) once fresh, of "Naive 50"]
  obtain bk2 where "\<forall>valid_at known_at. utc_of (valid_from row) \<le> utc_of valid_at \<and> utc_of valid_at < utc_of (Naive 20)
      \<and> utc_of (Naive 31) \<le> utc_of known_at \<longrightarrow>
      reconstruct_position_as_of bk2 ''t'' (fst (v_key row)) (snd (v_key row)) valid_at (Some known_at) (Naive 50)
        = Inl MultipleResultsFound" by blast
  then have "reconstruct_position_as_of bk2 ''t'' ''p'' ''i'' (Naive 15) (Some (Naive 40)) (Naive 50) = Inl MultipleResultsFound"
    using row(4,5) by simp
  then show ?thesis by blast
qed

lemma supersede_rewrites_past_knowledge_witness:
  "\<exists>bk' row. supersede_position ''p'' ''i'' ''t'' (Naive 20) [(''quantity'', VDec (Fin 150 0))] None ''v2'' (Naive 30) sample_bk1
      = Inr (bk', row)
    \<and> reconstruct_position_as_of bk' ''t'' ''p'' ''i'' (Naive 25) (Some (Naive 12)) (Naive 40) = Inr None"
proof -
  obtain bk' row where ok: "supersede_position ''p'' ''i'' ''t'' (Naive 20) [(''quantity'', VDec (Fin 150 0))] None ''v2'' (Naive 30) sample_bk1
      = Inr (bk', row)"
    by (cases "supersede_position ''p'' ''i'' ''t'' (Naive 20) [(''quantity'', VDec (Fin 150 0))] None ''v2'' (Naive 30) sample_bk1")
      (use sample_supersede in auto)
  have "case current_open (bk_positions sample_bk1) ''t'' (''p'', ''i'') of Inr (Some h) \<Rightarrow> system_from h = Naive 10 | _ \<Rightarrow> False"
    by code_simp
  then obtain h where h: "current_open (bk_positions sample_bk1) ''t'' (''p'', ''i'') = Inr (Some h)" "system_from h = Naive 10"
    by (auto split: sum.splits option.splits)
  show ?thesis
    using supersede_rewrites_past_knowledge[OF sample_bk1_wf _ h(1) ok, of "Naive 12" "Naive 25" "Naive 40"] h(2) ok by auto
qed

end
