(* ===== verification/Market_Rates.thy ===== *)
theory Market_Rates
  imports Captured_Holdings Classification_Tree
begin

text \<open>
  Captured vendor prices and FX rates (\<open>marketdata/price.py\<close>, \<open>marketdata/service.py\<close>): the bitemporal protocol
  behind a data-quality gate that every new version runs through, with both rules resolved or registered per tenant, and the
  currency codes resolved under hybrid visibility (the tenant's own row or the system tenant's, the own one first).
\<close>

section \<open>Hybrid visibility\<close>

text \<open>\<open>dedupe_tenant_wins\<close>: rows in the order of their key, the tenant's own row first within a key; the first of each is kept.\<close>

fun set_default :: "'k \<Rightarrow> 'r \<Rightarrow> ('k \<times> 'r) list \<Rightarrow> ('k \<times> 'r) list" where
  "set_default k r [] = [(k, r)]"
| "set_default k r ((k', r') # d) = (if k' = k then (k', r') # d else (k', r') # set_default k r d)"

definition dedupe_tenant_wins :: "('r \<Rightarrow> 'k::linorder) \<Rightarrow> ('r \<Rightarrow> string) \<Rightarrow> string \<Rightarrow> 'r list \<Rightarrow> 'r list" where
  "dedupe_tenant_wins key ten acting rows =
     (let ordered = sort_key key (sort_key (\<lambda>r. if ten r = acting then 0 else 1 :: nat) rows);
          chosen = fold (\<lambda>r. set_default (key r) r) ordered []
      in map snd (sort_key fst chosen))"

record currency_row =
  cu_code :: string
  cu_tenant :: string

definition resolve_currency :: "currency_row list \<Rightarrow> string \<Rightarrow> string \<Rightarrow> 'k fr_error + currency_row" where
  "resolve_currency rows code t =
     (let visible = filter (\<lambda>r. cu_code r = code \<and> (cu_tenant r = t \<or> cu_tenant r = system_tenant)) rows
      in if visible = [] then Inl (RefNotVisible ''currency'' code)
         else Inr (hd (dedupe_tenant_wins cu_code cu_tenant t visible)))"

section \<open>State\<close>

type_synonym price_key = "string \<times> int \<times> string \<times> string \<times> string"

type_synonym fx_key = "string \<times> string \<times> int \<times> string"

record market =
  mk_instruments :: "instrument list"
  mk_currencies :: "currency_row list"
  mk_dq :: dq_db
  mk_prices :: "price_key fr_db"
  mk_fx :: "fx_key fr_db"

section \<open>The gate\<close>

definition checked :: "dq_db \<times> (dq_error + dq_result) \<Rightarrow> dq_error + dq_db" where
  "checked res = (case res of (_, Inl e) \<Rightarrow> Inl e | (db, Inr _) \<Rightarrow> Inr db)"

text \<open>
  Required fields present, then strictly positive. Every rule is resolved by its code in the tenant or
  registered under the id the database would draw (\<open>ids\<close>).
\<close>

definition run_positive_gate ::
  "(string \<Rightarrow> string) \<Rightarrow> string \<Rightarrow> string \<Rightarrow> string \<times> string \<Rightarrow> string \<times> string \<Rightarrow> string \<Rightarrow> bool \<Rightarrow> field_value \<Rightarrow> string
    \<Rightarrow> dq_db \<Rightarrow> dq_error + dq_db" where
  "run_positive_gate ids t target required_rule positive_rule column missing value target_id db =
     bindR (ensure_rule ids t (fst required_rule) (snd required_rule) ''NOT_NULL'' present_params target db) (\<lambda>(db, rule).
     bindR (checked (run_quality_check [] (dr_id rule) [[''present'' \<mapsto> if missing then VNone else VBool True]]
         (Some target) (Some target_id) None None db)) (\<lambda>db.
     bindR (ensure_rule ids t (fst positive_rule) (snd positive_rule) ''RANGE'' (above_params column 0) target db) (\<lambda>(db, rule).
     checked (run_quality_check [] (dr_id rule) [[column \<mapsto> value]] (Some target) (Some target_id) None None db))))"

definition gate_error :: "dq_error + 'x \<Rightarrow> 'k fr_error + 'x" where
  "gate_error res = (case res of Inl e \<Rightarrow> Inl (GateRefused e) | Inr x \<Rightarrow> Inr x)"

section \<open>Prices\<close>

definition price_types :: "string list" where
  "price_types = [''CLOSE'', ''MID'', ''NAV'']"

definition price_fields :: "string list" where
  "price_fields = [''price'']"

definition required_price_fields :: "string list" where
  "required_price_fields = [''instrument_id'', ''price_date'', ''price'', ''price_type'', ''currency_code'', ''price_source'']"

definition price_family :: fr_family where
  "price_family = \<lparr>fam_fields = price_fields, fam_not_null = [''price''],
     ev_create = ''MARKET.PRICE_CREATE'', ev_update = ''MARKET.PRICE_UPDATE'', ev_correction = ''MARKET.PRICE_CORRECTION''\<rparr>"

definition price_attr :: "price_key version \<Rightarrow> string \<Rightarrow> field_value" where
  "price_attr r f = (case v_key r of (i, d, ty, cur, src) \<Rightarrow>
     if f = ''instrument_id'' then VText i else if f = ''price_date'' then VDate d
     else if f = ''price_type'' then VText ty else if f = ''currency_code'' then VText cur
     else if f = ''price_source'' then VText src else row_get (v_content r) f)"

definition run_price_dq_gate :: "(string \<Rightarrow> string \<Rightarrow> string) \<Rightarrow> price_key version \<Rightarrow> dq_db \<Rightarrow> price_key fr_error + dq_db" where
  "run_price_dq_gate ids row db =
     gate_error (run_positive_gate (ids (v_tenant row)) (v_tenant row) ''price_point''
       (''price.required_fields'', ''Price required fields present'') (''price.positive_price'', ''Price strictly positive'')
       ''price'' (list_ex (\<lambda>f. price_attr row f = VNone) required_price_fields) (price_attr row ''price'') (v_id row) db)"

definition validate_price_type :: "string \<Rightarrow> 'k fr_error + unit" where
  "validate_price_type ty = (if ty \<in> set price_types then Inr () else Inl (BadVocabulary ''price_type'' ty))"

definition resolve_price_refs :: "market \<Rightarrow> string \<Rightarrow> string \<Rightarrow> string \<Rightarrow> 'k fr_error + unit" where
  "resolve_price_refs mk i cur t =
     bindR (resolve_instrument (mk_instruments mk) i t) (\<lambda>_.
     bindR (resolve_currency (mk_currencies mk) cur t) (\<lambda>_. Inr ()))"

definition store_price ::
  "market \<Rightarrow> 'e + (dq_db \<times> price_key fr_db) \<times> price_key version \<Rightarrow> 'e + market \<times> price_key version" where
  "store_price mk res = bindR res (\<lambda>((dq, db), row). Inr (mk\<lparr>mk_dq := dq, mk_prices := db\<rparr>, row))"

definition capture_price ::
  "(string \<Rightarrow> string \<Rightarrow> string) \<Rightarrow> string \<Rightarrow> price_key \<Rightarrow> decimal \<Rightarrow> pydatetime option \<Rightarrow> string \<Rightarrow> pydatetime \<Rightarrow> market
    \<Rightarrow> price_key fr_error + market \<times> price_key version" where
  "capture_price ids t k price from nid now mk = (case k of (i, d, ty, cur, src) \<Rightarrow>
     bindR (validate_price_type ty) (\<lambda>_.
     bindR (resolve_price_refs mk i cur t) (\<lambda>_.
       store_price mk (create_version price_family (run_price_dq_gate ids) t k [''price'' \<mapsto> VDec price] None from nid now
         (mk_dq mk, mk_prices mk)))))"

definition supersede_price ::
  "(string \<Rightarrow> string \<Rightarrow> string) \<Rightarrow> string \<Rightarrow> price_key \<Rightarrow> pydatetime \<Rightarrow> (string \<times> field_value) list \<Rightarrow> string \<Rightarrow> pydatetime
    \<Rightarrow> market \<Rightarrow> price_key fr_error + market \<times> price_key version" where
  "supersede_price ids t k eff kw nid now mk = (case k of (i, d, ty, cur, src) \<Rightarrow>
     bindR (validate_price_type ty) (\<lambda>_.
     bindR (resolve_price_refs mk i cur t) (\<lambda>_.
       store_price mk (supersede_version price_family (run_price_dq_gate ids) t k eff kw None nid now
         (mk_dq mk, mk_prices mk)))))"

definition correct_price ::
  "(string \<Rightarrow> string \<Rightarrow> string) \<Rightarrow> string \<Rightarrow> price_key version \<Rightarrow> string \<Rightarrow> (string \<times> field_value) list \<Rightarrow> string
    \<Rightarrow> pydatetime \<Rightarrow> market \<Rightarrow> price_key fr_error + market \<times> price_key version" where
  "correct_price ids t row reason kw nid now mk = (case v_key row of (i, d, ty, cur, src) \<Rightarrow>
     bindR (resolve_price_refs mk i cur t) (\<lambda>_.
       store_price mk (correct_version price_family (run_price_dq_gate ids) t row reason kw None nid now
         (mk_dq mk, mk_prices mk))))"

definition resolve_price :: "market \<Rightarrow> string \<Rightarrow> string \<Rightarrow> price_key fr_error + price_key version" where
  "resolve_price mk i t = resolve_version (mk_prices mk) i t"

definition reconstruct_price_as_of ::
  "market \<Rightarrow> string \<Rightarrow> price_key \<Rightarrow> pydatetime \<Rightarrow> pydatetime option \<Rightarrow> pydatetime
    \<Rightarrow> price_key fr_error + price_key version option" where
  "reconstruct_price_as_of mk t k valid_at known_at now = reconstruct_as_of (mk_prices mk) t k valid_at known_at now"

section \<open>FX rates\<close>

definition fx_rate_types :: "string list" where
  "fx_rate_types = [''MID'']"

definition fx_fields :: "string list" where
  "fx_fields = [''rate'', ''rate_source'']"

definition required_fx_fields :: "string list" where
  "required_fx_fields = [''base_currency'', ''quote_currency'', ''rate_date'', ''rate'', ''rate_type'']"

definition fx_family :: fr_family where
  "fx_family = \<lparr>fam_fields = fx_fields, fam_not_null = [''rate''],
     ev_create = ''MARKET.FX_CREATE'', ev_update = ''MARKET.FX_UPDATE'', ev_correction = ''MARKET.FX_CORRECTION''\<rparr>"

definition fx_attr :: "fx_key version \<Rightarrow> string \<Rightarrow> field_value" where
  "fx_attr r f = (case v_key r of (b, q, d, ty) \<Rightarrow>
     if f = ''base_currency'' then VText b else if f = ''quote_currency'' then VText q
     else if f = ''rate_date'' then VDate d else if f = ''rate_type'' then VText ty else row_get (v_content r) f)"

definition run_fx_dq_gate :: "(string \<Rightarrow> string \<Rightarrow> string) \<Rightarrow> fx_key version \<Rightarrow> dq_db \<Rightarrow> fx_key fr_error + dq_db" where
  "run_fx_dq_gate ids row db =
     gate_error (run_positive_gate (ids (v_tenant row)) (v_tenant row) ''fx_rate''
       (''fx.required_fields'', ''FX required fields present'') (''fx.positive_rate'', ''FX rate strictly positive'')
       ''rate'' (list_ex (\<lambda>f. fx_attr row f = VNone) required_fx_fields) (fx_attr row ''rate'') (v_id row) db)"

definition validate_pair :: "string \<Rightarrow> string \<Rightarrow> string \<Rightarrow> 'k fr_error + unit" where
  "validate_pair b q ty =
     (if ty \<notin> set fx_rate_types then Inl (BadVocabulary ''rate_type'' ty)
      else if b = q then Inl (BadVocabulary ''base_currency == quote_currency'' b) else Inr ())"

definition resolve_currencies :: "market \<Rightarrow> string \<Rightarrow> string \<Rightarrow> string \<Rightarrow> 'k fr_error + unit" where
  "resolve_currencies mk b q t =
     bindR (resolve_currency (mk_currencies mk) b t) (\<lambda>_.
     bindR (resolve_currency (mk_currencies mk) q t) (\<lambda>_. Inr ()))"

definition store_fx ::
  "market \<Rightarrow> 'e + (dq_db \<times> fx_key fr_db) \<times> fx_key version \<Rightarrow> 'e + market \<times> fx_key version" where
  "store_fx mk res = bindR res (\<lambda>((dq, db), row). Inr (mk\<lparr>mk_dq := dq, mk_fx := db\<rparr>, row))"

definition capture_fx_rate ::
  "(string \<Rightarrow> string \<Rightarrow> string) \<Rightarrow> string \<Rightarrow> fx_key \<Rightarrow> decimal \<Rightarrow> string option \<Rightarrow> pydatetime option \<Rightarrow> string \<Rightarrow> pydatetime \<Rightarrow> market
    \<Rightarrow> fx_key fr_error + market \<times> fx_key version" where
  "capture_fx_rate ids t k rate source from nid now mk = (case k of (b, q, d, ty) \<Rightarrow>
     bindR (validate_pair b q ty) (\<lambda>_.
     bindR (resolve_currencies mk b q t) (\<lambda>_.
       store_fx mk (create_version fx_family (run_fx_dq_gate ids) t k [''rate'' \<mapsto> VDec rate, ''rate_source'' \<mapsto> opt_text source]
         None from nid now (mk_dq mk, mk_fx mk)))))"

definition supersede_fx_rate ::
  "(string \<Rightarrow> string \<Rightarrow> string) \<Rightarrow> string \<Rightarrow> fx_key \<Rightarrow> pydatetime \<Rightarrow> (string \<times> field_value) list \<Rightarrow> string \<Rightarrow> pydatetime
    \<Rightarrow> market \<Rightarrow> fx_key fr_error + market \<times> fx_key version" where
  "supersede_fx_rate ids t k eff kw nid now mk = (case k of (b, q, d, ty) \<Rightarrow>
     bindR (validate_pair b q ty) (\<lambda>_.
     bindR (resolve_currencies mk b q t) (\<lambda>_.
       store_fx mk (supersede_version fx_family (run_fx_dq_gate ids) t k eff kw None nid now (mk_dq mk, mk_fx mk)))))"

definition correct_fx_rate ::
  "(string \<Rightarrow> string \<Rightarrow> string) \<Rightarrow> string \<Rightarrow> fx_key version \<Rightarrow> string \<Rightarrow> (string \<times> field_value) list \<Rightarrow> string
    \<Rightarrow> pydatetime \<Rightarrow> market \<Rightarrow> fx_key fr_error + market \<times> fx_key version" where
  "correct_fx_rate ids t row reason kw nid now mk = (case v_key row of (b, q, d, ty) \<Rightarrow>
     bindR (resolve_currencies mk b q t) (\<lambda>_.
       store_fx mk (correct_version fx_family (run_fx_dq_gate ids) t row reason kw None nid now (mk_dq mk, mk_fx mk))))"

definition resolve_fx_rate :: "market \<Rightarrow> string \<Rightarrow> string \<Rightarrow> fx_key fr_error + fx_key version" where
  "resolve_fx_rate mk i t = resolve_version (mk_fx mk) i t"

definition reconstruct_fx_rate_as_of ::
  "market \<Rightarrow> string \<Rightarrow> fx_key \<Rightarrow> pydatetime \<Rightarrow> pydatetime option \<Rightarrow> pydatetime
    \<Rightarrow> fx_key fr_error + fx_key version option" where
  "reconstruct_fx_rate_as_of mk t k valid_at known_at now = reconstruct_as_of (mk_fx mk) t k valid_at known_at now"

lemmas price_ops_defs = capture_price_def supersede_price_def correct_price_def store_price_def resolve_price_def
lemmas fx_ops_defs = capture_fx_rate_def supersede_fx_rate_def correct_fx_rate_def store_fx_def resolve_fx_rate_def

section \<open>What the gate lets through\<close>

definition positive_value :: "field_value \<Rightarrow> bool" where
  "positive_value v \<longleftrightarrow> py_le v (VInt 0) = Some False"

lemma positive_value_decimal: "is_finite d \<Longrightarrow> positive_value (VDec d) \<longleftrightarrow> 0 < dec_val d"
  using dec_less_finite[of "Fin 0 0" d] by (auto simp: positive_value_def py_le_def pow10_def)

text \<open>The rules of the positive gates are those the binders registered, each under its own id.\<close>

definition gate_rules :: "(string \<Rightarrow> string \<Rightarrow> string) \<Rightarrow> (string \<times> string) list \<Rightarrow> dq_db \<Rightarrow> bool" where
  "gate_rules ids gates db \<longleftrightarrow> (\<forall>r\<in>set (dq_rules db). dr_id r = ids (dr_tenant r) (dr_code r) \<and>
     (\<forall>(code, column)\<in>set gates. dr_code r = code \<longrightarrow> dr_type r = ''RANGE'' \<and> dr_params r = above_params column 0
        \<and> dr_severity r = ''ERROR''))"

lemma ensure_rule_gate:
  assumes "ensure_rule (ids t) t code name ty ps target db = Inr (db', r)" "gate_rules ids gates db"
    and "\<And>column. (code, column) \<in> set gates \<Longrightarrow> ty = ''RANGE'' \<and> ps = above_params column 0"
  shows "gate_rules ids gates db' \<and> r \<in> set (dq_rules db') \<and> dr_tenant r = t \<and> dr_code r = code"
proof (cases "find (\<lambda>r. dr_tenant r = t \<and> dr_code r = code) (dq_rules db)")
  case None
  then show ?thesis
    using assms by (auto simp: ensure_rule_def register_dq_rule_def gate_rules_def Let_def split: if_splits)
next
  case (Some q)
  then have "db' = db" "r = q" using assms(1) by (simp_all add: ensure_rule_def)
  moreover have "q \<in> set (dq_rules db) \<and> dr_tenant q = t \<and> dr_code q = code" using Some by (auto simp: find_Some_iff)
  ultimately show ?thesis using assms(2) by simp
qed

lemma run_quality_check_rules [simp]: "dq_rules (fst (run_quality_check src rid rows tt ti s b db)) = dq_rules db"
  by (simp add: run_quality_check_def Let_def split: option.splits)

lemma checked_rules: "checked (run_quality_check src rid rows tt ti s b db) = Inr db' \<Longrightarrow> dq_rules db' = dq_rules db"
  using run_quality_check_rules[of src rid rows tt ti s b db]
  by (cases "run_quality_check src rid rows tt ti s b db") (auto simp: checked_def split: sum.splits)

lemma gate_rules_cong: "dq_rules db' = dq_rules db \<Longrightarrow> gate_rules ids gates db' = gate_rules ids gates db"
  by (simp add: gate_rules_def)

lemma range_passes_positive:
  assumes "evaluate_range (above_params c 0) [[c \<mapsto> v]] = Inr ev" "ev_passed ev"
  shows "positive_value v"
proof -
  have "out_of_range (above_params c 0) v = Inr False"
    using assms by (auto simp: evaluate_range_def bindR_Inr row_get_def above_params_def require_text_def Let_def split: if_splits)
  then show ?thesis
    by (auto simp: out_of_range_def positive_value_def bindR_Inr past_bound_def above_params_def inclusive_def
        split: if_splits option.splits)
qed

lemma checked_positive:
  assumes rules: "gate_rules ids gates db" and inj: "inj (\<lambda>(t, c). ids t c)" and g: "(code, column) \<in> set gates"
    and r: "r \<in> set (dq_rules db)" "dr_code r = code"
    and ok: "checked (run_quality_check [] (dr_id r) [[column \<mapsto> v]] tt ti None None db) = Inr db'"
  shows "positive_value v"
proof -
  obtain q where q: "find (\<lambda>q. dr_id q = dr_id r) (dq_rules db) = Some q"
    using r(1) by (cases "find (\<lambda>q. dr_id q = dr_id r) (dq_rules db)") (auto simp: find_None_iff)
  then have q': "q \<in> set (dq_rules db)" "dr_id q = dr_id r" by (auto simp: find_Some_iff)
  have "dr_id q = ids (dr_tenant q) (dr_code q)" "dr_id r = ids (dr_tenant r) (dr_code r)"
    using rules q'(1) r(1) unfolding gate_rules_def by blast+
  then have "(dr_tenant q, dr_code q) = (dr_tenant r, dr_code r)" using q'(2) by (intro injD[OF inj]) simp
  then have "dr_code q = code" using r(2) by simp
  then have rule: "dr_type q = ''RANGE''" "dr_params q = above_params column 0" "dr_severity q = ''ERROR''"
    using rules g q'(1) unfolding gate_rules_def by fast+
  have "isOk (snd (run_quality_check [] (dr_id r) [[column \<mapsto> v]] tt ti None None db))"
    using ok by (auto simp: checked_def split: prod.splits sum.splits)
  then have "outcome_of q [[column \<mapsto> v]] \<noteq> ''FAIL''" using run_quality_check_ok[OF q, where source = None] by simp
  then show ?thesis
    using range_passes_positive rule by (auto simp: outcome_of_def evaluate_rule_def split: sum.splits if_splits)
qed

lemma positive_gate_passes:
  assumes ok: "run_positive_gate (ids t) t target (rc, rn) (pc, pn) column missing v tid db = Inr db'"
    and rules: "gate_rules ids gates db" and inj: "inj (\<lambda>(t, c). ids t c)"
    and g: "(pc, column) \<in> set gates" "rc \<notin> fst ` set gates" "\<And>c. (pc, c) \<in> set gates \<Longrightarrow> c = column"
  shows "positive_value v \<and> gate_rules ids gates db'"
proof -
  obtain db1 r1 db2 db3 r2 where
    1: "ensure_rule (ids t) t rc rn ''NOT_NULL'' present_params target db = Inr (db1, r1)" and
    2: "checked (run_quality_check [] (dr_id r1) [[''present'' \<mapsto> if missing then VNone else VBool True]]
         (Some target) (Some tid) None None db1) = Inr db2" and
    3: "ensure_rule (ids t) t pc pn ''RANGE'' (above_params column 0) target db2 = Inr (db3, r2)" and
    4: "checked (run_quality_check [] (dr_id r2) [[column \<mapsto> v]] (Some target) (Some tid) None None db3) = Inr db'"
    using ok by (auto simp: run_positive_gate_def bindR_Inr simp del: fun_upd_apply)
  have "gate_rules ids gates db1" using ensure_rule_gate[where ids = ids and t = t, OF 1 rules] g(2) by force
  then have "gate_rules ids gates db2" using checked_rules[OF 2] gate_rules_cong by blast
  then have e: "gate_rules ids gates db3" "r2 \<in> set (dq_rules db3)" "dr_code r2 = pc"
    using ensure_rule_gate[where ids = ids and t = t, OF 3] g(3) by auto
  then show ?thesis
    using checked_positive[OF e(1) inj g(1) e(2,3) 4] checked_rules[OF 4] gate_rules_cong by blast
qed

definition market_gates :: "(string \<times> string) list" where
  "market_gates = [(''price.positive_price'', ''price''), (''fx.positive_rate'', ''rate'')]"

lemma gate_error_Inr: "gate_error res = Inr x \<longleftrightarrow> res = Inr x"
  by (simp add: gate_error_def split: sum.splits)

lemma price_gate_passes:
  assumes "run_price_dq_gate ids row db = Inr db'" "gate_rules ids market_gates db" "inj (\<lambda>(t, c). ids t c)"
  shows "positive_value (row_get (v_content row) ''price'') \<and> gate_rules ids market_gates db'"
proof -
  have "price_attr row ''price'' = row_get (v_content row) ''price''" by (simp add: price_attr_def split: prod.splits)
  then show ?thesis
    using positive_gate_passes[OF assms(1)[unfolded run_price_dq_gate_def gate_error_Inr] assms(2,3)]
    by (simp add: market_gates_def)
qed

lemma fx_gate_passes:
  assumes "run_fx_dq_gate ids row db = Inr db'" "gate_rules ids market_gates db" "inj (\<lambda>(t, c). ids t c)"
  shows "positive_value (row_get (v_content row) ''rate'') \<and> gate_rules ids market_gates db'"
proof -
  have "fx_attr row ''rate'' = row_get (v_content row) ''rate''" by (simp add: fx_attr_def split: prod.splits)
  then show ?thesis
    using positive_gate_passes[OF assms(1)[unfolded run_fx_dq_gate_def gate_error_Inr] assms(2,3)]
    by (simp add: market_gates_def)
qed

section \<open>What a table says\<close>

text \<open>The keys and contents of a table, which closing a version leaves as they are.\<close>

definition sayings :: "'k fr_db \<Rightarrow> ('k \<times> content) set" where
  "sayings db = (\<lambda>r. (v_key r, v_content r)) ` set (versions db)"

lemma sayings_update:
  assumes "\<And>r. v_key (f r) = v_key r \<and> v_content (f r) = v_content r"
  shows "sayings (update_version i f db) = sayings db"
proof -
  have "(\<lambda>r. (v_key r, v_content r)) ` set (map (\<lambda>r. if v_id r = i then f r else r) rs)
      = (\<lambda>r. (v_key r, v_content r)) ` set rs" for rs
    by (induction rs) (simp_all add: assms)
  then show ?thesis by (simp add: sayings_def update_version_def)
qed

lemma sayings_insert: "insert_version fam r db = Inr db' \<Longrightarrow> sayings db' = insert (v_key r, v_content r) (sayings db)"
  using insert_version_ok[of fam r db db'] by (simp add: sayings_def)

lemma sayings_record [simp]:
  "sayings (record_create fam r now db) = sayings db" "sayings (record_update ev now db) = sayings db"
  "sayings (record_correction fam r reason now db) = sayings db"
  by (simp_all add: sayings_def)

lemma create_sayings:
  "create_version fam gate t k cols m from nid now (x, db) = Inr ((x', db'), new) \<Longrightarrow>
     sayings db' = insert (k, v_content new) (sayings db) \<and> gate new x = Inr x' \<and> v_key new = k"
  by (auto simp: create_version.simps Let_def bindR_Inr sayings_insert)

lemma supersede_sayings:
  "supersede_version fam gate t k eff kw m nid now (x, db) = Inr ((x', db'), new) \<Longrightarrow>
     sayings db' = insert (k, v_content new) (sayings db) \<and> gate new x = Inr x' \<and> v_key new = k"
  by (auto simp: supersede_version.simps Let_def bindR_Inr sayings_insert sayings_update split: option.splits)

lemma correct_sayings:
  "correct_version fam gate t row reason kw m nid now (x, db) = Inr ((x', db'), new) \<Longrightarrow>
     sayings db' = insert (v_key row, v_content new) (sayings db) \<and> gate new x = Inr x' \<and> v_key new = v_key row"
  by (auto simp: correct_version.simps Let_def bindR_Inr sayings_insert sayings_update)

section \<open>Runs\<close>

datatype market_op =
    CapturePrice price_key decimal "pydatetime option"
  | SupersedePrice price_key pydatetime "(string \<times> field_value) list"
  | CorrectPrice string string "(string \<times> field_value) list"
  | CaptureFx fx_key decimal "string option" "pydatetime option"
  | SupersedeFx fx_key pydatetime "(string \<times> field_value) list"
  | CorrectFx string string "(string \<times> field_value) list"
  | RegisterRule string string string params "string option" string
  | UpdateRule string "rule_change list"

text \<open>
  The two last ones are the rule registration of \<open>POST /dq/rules\<close> and the update of a rule: any tenant
  may write rules of its own, under any code.
\<close>

fun market_exec ::
  "(string \<Rightarrow> string \<Rightarrow> string) \<Rightarrow> pydatetime \<Rightarrow> string \<Rightarrow> string \<times> market_op \<Rightarrow> market \<Rightarrow> market option" where
  "market_exec ids now nid (t, CapturePrice k p from) mk = committed (capture_price ids t k p from nid now mk)"
| "market_exec ids now nid (t, SupersedePrice k eff kw) mk = committed (supersede_price ids t k eff kw nid now mk)"
| "market_exec ids now nid (t, CorrectPrice rid reason kw) mk =
     committed (bindR (resolve_price mk rid t) (\<lambda>row. correct_price ids t row reason kw nid now mk))"
| "market_exec ids now nid (t, CaptureFx k r src from) mk = committed (capture_fx_rate ids t k r src from nid now mk)"
| "market_exec ids now nid (t, SupersedeFx k eff kw) mk = committed (supersede_fx_rate ids t k eff kw nid now mk)"
| "market_exec ids now nid (t, CorrectFx rid reason kw) mk =
     committed (bindR (resolve_fx_rate mk rid t) (\<lambda>row. correct_fx_rate ids t row reason kw nid now mk))"
| "market_exec ids now nid (t, RegisterRule code name ty ps target sev) mk =
     committed (bindR (register_dq_rule (ids t code) t code name ty ps target sev (mk_dq mk)) (\<lambda>(dq, r).
       Inr (mk\<lparr>mk_dq := dq\<rparr>, r)))"
| "market_exec ids now nid (t, UpdateRule rid changes) mk =
     (if list_ex (\<lambda>r. dr_id r = rid \<and> dr_tenant r = t) (dq_rules (mk_dq mk))
      then committed (bindR (update_dq_rule rid changes (mk_dq mk)) (\<lambda>dq. Inr (mk\<lparr>mk_dq := dq\<rparr>, ()))) else None)"

fun market_reopens :: "string \<times> market_op \<Rightarrow> market \<Rightarrow> bool" where
  "market_reopens (t, CorrectPrice rid _ _) mk \<longleftrightarrow> is_closed (mk_prices mk) rid t"
| "market_reopens (t, CorrectFx rid _ _) mk \<longleftrightarrow> is_closed (mk_fx mk) rid t"
| "market_reopens _ _ \<longleftrightarrow> False"

lemma rule_op_tables:
  "market_exec ids now nid (t, RegisterRule code name ty ps target sev) mk = Some mk' \<Longrightarrow>
     mk_prices mk' = mk_prices mk \<and> mk_fx mk' = mk_fx mk"
  "market_exec ids now nid (t, UpdateRule rid changes) mk = Some mk' \<Longrightarrow>
     mk_prices mk' = mk_prices mk \<and> mk_fx mk' = mk_fx mk"
  by (auto simp: committed_Some bindR_Inr split: if_splits)

lemmas market_exec_effects = committed_Some bindR_Inr price_ops_defs fx_ops_defs case_prod_unfold

interpretation prices: fr_binder mk_prices "market_exec ids" market_reopens for ids
proof
  fix clock s now op nid s'
  assume wf: "fr_wf clock (mk_prices s)" "clock \<le> utc_of now" and ok: "\<not> market_reopens op s" "market_exec ids now nid op s = Some s'"
  obtain t mop where op: "op = (t, mop)" by (cases op)
  show "fr_wf (utc_of now) (mk_prices s')"
  proof (cases mop)
    case (RegisterRule code name ty ps target sev)
    then show ?thesis using wf ok rule_op_tables(1) unfolding op by (metis fr_wf_later)
  next
    case (UpdateRule rid changes)
    then show ?thesis using wf ok rule_op_tables(2) unfolding op by (metis fr_wf_later)
  qed (use wf ok in \<open>auto simp: op market_exec_effects fr_wf_later elim: create_view(2) supersede_view resolved_correct_wf\<close>)
qed

interpretation rates: fr_binder mk_fx "market_exec ids" market_reopens for ids
proof
  fix clock s now op nid s'
  assume wf: "fr_wf clock (mk_fx s)" "clock \<le> utc_of now" and ok: "\<not> market_reopens op s" "market_exec ids now nid op s = Some s'"
  obtain t mop where op: "op = (t, mop)" by (cases op)
  show "fr_wf (utc_of now) (mk_fx s')"
  proof (cases mop)
    case (RegisterRule code name ty ps target sev)
    then show ?thesis using wf ok rule_op_tables(1) unfolding op by (metis fr_wf_later)
  next
    case (UpdateRule rid changes)
    then show ?thesis using wf ok rule_op_tables(2) unfolding op by (metis fr_wf_later)
  qed (use wf ok in \<open>auto simp: op market_exec_effects fr_wf_later elim: create_view(2) supersede_view resolved_correct_wf\<close>)
qed

text \<open>What the platform publishes: positive prices of the vocabulary, positive rates of proper pairs.\<close>

fun good_price :: "price_key \<times> content \<Rightarrow> bool" where
  "good_price ((i, d, ty, cur, src), c) \<longleftrightarrow> positive_value (row_get c ''price'') \<and> ty \<in> set price_types"

fun good_rate :: "fx_key \<times> content \<Rightarrow> bool" where
  "good_rate ((b, q, d, ty), c) \<longleftrightarrow> positive_value (row_get c ''rate'') \<and> b \<noteq> q \<and> ty = ''MID''"

definition published :: "market \<Rightarrow> bool" where
  "published mk \<longleftrightarrow> (\<forall>x\<in>sayings (mk_prices mk). good_price x) \<and> (\<forall>x\<in>sayings (mk_fx mk). good_rate x)"

lemma good_price_iff: "good_price x \<longleftrightarrow> positive_value (row_get (snd x) ''price'') \<and> fst (snd (snd (fst x))) \<in> set price_types"
  by (cases x rule: good_price.cases) simp

lemma good_rate_iff:
  "good_rate x \<longleftrightarrow> positive_value (row_get (snd x) ''rate'') \<and> fst (fst x) \<noteq> fst (snd (fst x)) \<and> snd (snd (snd (fst x))) = ''MID''"
  by (cases x rule: good_rate.cases) simp

lemma published_price:
  "published mk \<Longrightarrow> sayings b = insert (k, c) (sayings (mk_prices mk)) \<Longrightarrow> good_price (k, c) \<Longrightarrow>
     published (mk\<lparr>mk_dq := a, mk_prices := b\<rparr>)"
  by (simp add: published_def)

lemma published_rate:
  "published mk \<Longrightarrow> sayings b = insert (k, c) (sayings (mk_fx mk)) \<Longrightarrow> good_rate (k, c) \<Longrightarrow>
     published (mk\<lparr>mk_dq := a, mk_fx := b\<rparr>)"
  by (simp add: published_def)

lemma resolved_saying: "resolve_version db i t = Inr row \<Longrightarrow> (v_key row, v_content row) \<in> sayings db"
  unfolding sayings_def by (auto dest!: resolve_version_Inr)

lemma corrected_price:
  "published mk \<Longrightarrow> resolve_version (mk_prices mk) i t = Inr row \<Longrightarrow> positive_value (row_get c ''price'') \<Longrightarrow>
     good_price (v_key row, c)"
  using resolved_saying[of "mk_prices mk" i t row] by (force simp: published_def good_price_iff)

lemma corrected_rate:
  "published mk \<Longrightarrow> resolve_version (mk_fx mk) i t = Inr row \<Longrightarrow> positive_value (row_get c ''rate'') \<Longrightarrow>
     good_rate (v_key row, c)"
  using resolved_saying[of "mk_fx mk" i t row] by (force simp: published_def good_rate_iff)

text \<open>
  A rule operation that tampers with a positive gate: it registers a rule under the gate's code before
  the gate has, or changes the rule of the gate.
\<close>

fun tampers :: "string \<times> market_op \<Rightarrow> market \<Rightarrow> bool" where
  "tampers (t, RegisterRule code name ty ps target sev) mk \<longleftrightarrow> code \<in> fst ` set market_gates"
| "tampers (t, UpdateRule rid changes) mk \<longleftrightarrow>
     list_ex (\<lambda>r. dr_id r = rid \<and> dr_code r \<in> fst ` set market_gates) (dq_rules (mk_dq mk))"
| "tampers _ mk \<longleftrightarrow> False"

fun gates_spared ::
  "(string \<Rightarrow> string \<Rightarrow> string) \<Rightarrow> (pydatetime \<times> string \<times> string \<times> market_op) list \<Rightarrow> market \<Rightarrow> bool" where
  "gates_spared ids [] mk \<longleftrightarrow> True"
| "gates_spared ids ((now, nid, op) # ops) mk \<longleftrightarrow> \<not> tampers op mk \<and>
     gates_spared ids ops (case market_exec ids now nid op mk of None \<Rightarrow> mk | Some mk' \<Rightarrow> mk')"

lemma apply_changes_keys:
  "dr_id (fold apply_change cs r) = dr_id r \<and> dr_tenant (fold apply_change cs r) = dr_tenant r \<and>
   dr_code (fold apply_change cs r) = dr_code r"
proof (induction cs arbitrary: r)
  case (Cons c cs)
  then show ?case by (cases c) simp_all
qed simp

lemma register_keeps_gates:
  assumes "register_dq_rule (ids t code) t code name ty ps target sev db = Inr (db', r)"
    and "gate_rules ids gates db" "code \<notin> fst ` set gates"
  shows "gate_rules ids gates db'"
  using assms by (force simp: register_dq_rule_def gate_rules_def Let_def split: if_splits)

lemma update_keeps_gates:
  assumes "update_dq_rule rid changes db = Inr db'" "gate_rules ids gates db"
    and spared: "\<not> list_ex (\<lambda>r. dr_id r = rid \<and> dr_code r \<in> fst ` set gates) (dq_rules db)"
  shows "gate_rules ids gates db'"
  unfolding gate_rules_def
proof
  fix r assume "r \<in> set (dq_rules db')"
  then obtain q where q: "q \<in> set (dq_rules db)"
    "r = (if dr_id q = rid then (fold apply_change changes q)\<lparr>dr_version := dr_version q + 1\<rparr> else q)"
    using assms(1) by (auto simp: update_dq_rule_def Let_def split: if_splits)
  have keys: "dr_id r = dr_id q" "dr_tenant r = dr_tenant q" "dr_code r = dr_code q"
    using apply_changes_keys[of changes q] by (simp_all add: q(2))
  note rule = bspec[OF assms(2)[unfolded gate_rules_def] q(1)]
  show "dr_id r = ids (dr_tenant r) (dr_code r) \<and> (\<forall>(code, column)\<in>set gates. dr_code r = code \<longrightarrow>
      dr_type r = ''RANGE'' \<and> dr_params r = above_params column 0 \<and> dr_severity r = ''ERROR'')"
  proof (cases "dr_id q = rid")
    case True
    then have "dr_code q \<notin> fst ` set gates" using spared q(1) by (auto simp: list_ex_iff)
    then have none: "\<forall>x\<in>set gates. dr_code r \<noteq> fst x" using keys(3) by (metis image_eqI)
    have "dr_id r = ids (dr_tenant r) (dr_code r)" using conjunct1[OF rule] by (simp only: keys)
    then show ?thesis using none by auto
  next
    case False
    then have "r = q" using q(2) by simp
    then show ?thesis using rule by blast
  qed
qed

lemma published_rules: "published (mk\<lparr>mk_dq := dq\<rparr>) = published mk"
  by (simp add: published_def)

lemma market_exec_published:
  assumes ok: "market_exec ids now nid op mk = Some mk'" and inj: "inj (\<lambda>(t, c). ids t c)"
    and spared: "\<not> tampers op mk" and inv: "published mk" "gate_rules ids market_gates (mk_dq mk)"
  shows "published mk' \<and> gate_rules ids market_gates (mk_dq mk')"
proof -
  obtain t mop where op: "op = (t, mop)" by (cases op)
  note P = price_gate_passes[OF _ inv(2) inj] and F = fx_gate_passes[OF _ inv(2) inj]
  show ?thesis
  proof (cases mop)
    case (CapturePrice k p start)
    then show ?thesis using ok inv P unfolding op
      by (auto simp: market_exec_effects validate_price_type_def good_price_iff split: if_splits
          dest!: create_sayings intro!: published_price)
  next
    case (SupersedePrice k eff kw)
    then show ?thesis using ok inv P unfolding op
      by (auto simp: market_exec_effects validate_price_type_def good_price_iff split: if_splits
          dest!: supersede_sayings intro!: published_price)
  next
    case (CorrectPrice rid reason kw)
    then show ?thesis using ok inv P corrected_price[OF inv(1)] unfolding op
      by (auto simp: market_exec_effects dest!: correct_sayings intro!: published_price)
  next
    case (CaptureFx k r src start)
    then show ?thesis using ok inv F unfolding op
      by (auto simp: market_exec_effects validate_pair_def fx_rate_types_def good_rate_iff split: if_splits
          dest!: create_sayings intro!: published_rate)
  next
    case (SupersedeFx k eff kw)
    then show ?thesis using ok inv F unfolding op
      by (auto simp: market_exec_effects validate_pair_def fx_rate_types_def good_rate_iff split: if_splits
          dest!: supersede_sayings intro!: published_rate)
  next
    case (CorrectFx rid reason kw)
    then show ?thesis using ok inv F corrected_rate[OF inv(1)] unfolding op
      by (auto simp: market_exec_effects dest!: correct_sayings intro!: published_rate)
  next
    case (RegisterRule code name ty ps target sev)
    then obtain dq r where dq: "register_dq_rule (ids t code) t code name ty ps target sev (mk_dq mk) = Inr (dq, r)"
        "mk' = mk\<lparr>mk_dq := dq\<rparr>"
      using ok unfolding op by (auto simp: committed_Some bindR_Inr)
    show ?thesis
      using register_keeps_gates[OF dq(1) inv(2)] inv(1) spared RegisterRule op by (simp add: dq(2) published_rules)
  next
    case (UpdateRule rid changes)
    then obtain dq where dq: "update_dq_rule rid changes (mk_dq mk) = Inr dq" "mk' = mk\<lparr>mk_dq := dq\<rparr>"
      using ok unfolding op by (auto simp: committed_Some bindR_Inr split: if_splits)
    show ?thesis
      using update_keeps_gates[OF dq(1) inv(2)] inv(1) spared UpdateRule op by (simp add: dq(2) published_rules)
  qed
qed

lemma market_run_published:
  assumes inj: "inj (\<lambda>(t, c). ids t c)"
  shows "published mk \<Longrightarrow> gate_rules ids market_gates (mk_dq mk) \<Longrightarrow> gates_spared ids ops mk \<Longrightarrow> published (run_ops (market_exec ids) ops mk)"
proof (induction ops arbitrary: mk)
  case (Cons step ops)
  obtain now nid op where step: "step = (now, nid, op)" by (cases step)
  show ?case
    using Cons.IH Cons.prems market_exec_published[OF _ inj _ Cons.prems(1,2)] by (auto simp: step split: option.splits)
qed simp

definition empty_market :: "instrument list \<Rightarrow> currency_row list \<Rightarrow> market" where
  "empty_market ins cur = \<lparr>mk_instruments = ins, mk_currencies = cur,
     mk_dq = \<lparr>dq_rules = [], dq_results = [], dq_events = []\<rparr>,
     mk_prices = \<lparr>versions = [], fr_events = [], origin_edges = []\<rparr>,
     mk_fx = \<lparr>versions = [], fr_events = [], origin_edges = []\<rparr>\<rparr>"


definition sample_market_ops :: "(pydatetime \<times> string \<times> string \<times> market_op) list" where
  "sample_market_ops =
     [(Naive 10, ''f1'', ''t'', CaptureFx (''EUR'', ''USD'', 0, ''MID'') (Fin 11 (-1)) None None),
      (Naive 20, ''f2'', ''t'', CaptureFx (''GBP'', ''USD'', 0, ''MID'') (Fin 0 0) None None),
      (Naive 25, ''r1'', ''t'', RegisterRule ''fx.small_rate'' ''n'' ''RANGE'' (above_params ''rate'' 0) None ''WARNING''),
      (Naive 30, ''f3'', ''t'', CorrectFx ''f1'' ''restated'' [(''rate'', VDec (Fin 12 (-1)))])]"

definition sample_market0 :: market where
  "sample_market0 = empty_market []
     [\<lparr>cu_code = ''EUR'', cu_tenant = system_tenant\<rparr>, \<lparr>cu_code = ''USD'', cu_tenant = system_tenant\<rparr>,
      \<lparr>cu_code = ''GBP'', cu_tenant = system_tenant\<rparr>]"

definition sample_market :: market where
  "sample_market = run_ops (market_exec sample_ids) sample_market_ops sample_market0"


text \<open>
  The gate resolves its rule by the code alone: whoever may register rules can plant one under the gate's code with
  the gate's own parameters and severity WARNING before the first capture, and then a rate of zero is stored.
\<close>

lemma planted_rule_admits_a_zero_rate:
  "map (\<lambda>r. v_content r ''rate'') (versions (mk_fx (run_ops (market_exec sample_ids)
     [(Naive 10, ''r1'', ''t'', RegisterRule ''fx.positive_rate'' ''n'' ''RANGE'' (above_params ''rate'' 0) None ''WARNING''),
      (Naive 20, ''f2'', ''t'', CaptureFx (''GBP'', ''USD'', 0, ''MID'') (Fin 0 0) None None)] sample_market0)))
   = [Some (VDec (Fin 0 0))]"
  by code_simp

end
