(* ===== verification/Fx_Path.thy ===== *)
theory Fx_Path
  imports Market_Rates Decimal_Ctx
begin

text \<open>
  Conversion over published rates: \<open>convert\<close> (\<open>marketdata/convert.py\<close>) and the path of legs that a snapshot pins
  and an exposure is computed from (\<open>marketdata/legs.py\<close>). Rates are read through the as-of read of the FX binder, at the
  rate date of the valuation instant; the arithmetic is that of the default decimal context (28 digits).
\<close>

section \<open>Reading a rate\<close>

datatype fx_error =
    FxRateNotFound string string
  | FxReadError "fx_key fr_error"
  | DivisionByZero

text \<open>\<open>valid_at.date()\<close>: the date on the clock of the instant's own zone.\<close>

fun date_number :: "pydatetime \<Rightarrow> int" where
  "date_number (Naive w) = w div day_us"
| "date_number (Aware w off) = w div day_us"

definition rate_of :: "fx_key version \<Rightarrow> rat" where
  "rate_of r = (case as_number (row_get (v_content r) ''rate'') of Some d \<Rightarrow> dec_val d | None \<Rightarrow> 0)"

text \<open>The as-of read both modules make for a pair; \<open>rd\<close> stands for its other arguments.\<close>

record fx_read =
  rd_tenant :: string
  rd_valid_at :: pydatetime
  rd_known_at :: "pydatetime option"
  rd_now :: pydatetime
  rd_type :: string

definition published_rate :: "market \<Rightarrow> fx_read \<Rightarrow> string \<Rightarrow> string \<Rightarrow> fx_error + fx_key version option" where
  "published_rate mk rd b q =
     (case reconstruct_fx_rate_as_of mk (rd_tenant rd) (b, q, date_number (rd_valid_at rd), rd_type rd)
        (rd_valid_at rd) (rd_known_at rd) (rd_now rd) of
        Inl e \<Rightarrow> Inl (FxReadError e)
      | Inr row \<Rightarrow> Inr row)"

definition reciprocal :: "rat \<Rightarrow> fx_error + rat" where
  "reciprocal x = (if x = 0 then Inl DivisionByZero else Inr (ddiv 28 1 x))"

section \<open>Conversion\<close>

datatype path_label = Identity string string | DirectRate string string rat | ReciprocalOf string string rat

record convert_result =
  converted_amount :: rat
  rate_type :: string
  rate_path :: "path_label list"

definition default_base :: string where
  "default_base = ''USD''"

definition resolve_multiplier :: "market \<Rightarrow> fx_read \<Rightarrow> string \<Rightarrow> string \<Rightarrow> fx_error + (rat \<times> path_label) option" where
  "resolve_multiplier mk rd a b =
     (if a = b then Inr (Some (1, Identity a b))
      else bindR (published_rate mk rd a b) (\<lambda>direct. case direct of
        Some r \<Rightarrow> Inr (Some (rate_of r, DirectRate a b (rate_of r)))
      | None \<Rightarrow> bindR (published_rate mk rd b a) (\<lambda>recip. case recip of
          Some r \<Rightarrow> bindR (reciprocal (rate_of r)) (\<lambda>m. Inr (Some (m, ReciprocalOf a b (rate_of r))))
        | None \<Rightarrow> Inr None)))"

definition convert :: "market \<Rightarrow> fx_read \<Rightarrow> rat \<Rightarrow> string \<Rightarrow> string \<Rightarrow> string \<Rightarrow> fx_error + convert_result" where
  "convert mk rd amount a b base =
     (if a = b then Inr \<lparr>converted_amount = amount, rate_type = rd_type rd, rate_path = [Identity a b]\<rparr>
      else bindR (resolve_multiplier mk rd a b) (\<lambda>direct. case direct of
        Some (m, label) \<Rightarrow> Inr \<lparr>converted_amount = dmul 28 amount m, rate_type = rd_type rd, rate_path = [label]\<rparr>
      | None \<Rightarrow>
          bindR (resolve_multiplier mk rd a base) (\<lambda>leg1.
          bindR (resolve_multiplier mk rd base b) (\<lambda>leg2. case (leg1, leg2) of
            (Some (m1, l1), Some (m2, l2)) \<Rightarrow>
              Inr \<lparr>converted_amount = dmul 28 (dmul 28 amount m1) m2, rate_type = rd_type rd, rate_path = [l1, l2]\<rparr>
          | _ \<Rightarrow> Inl (FxRateNotFound a b)))))"

section \<open>Legs\<close>

datatype direction = Direct | Reciprocal

record fx_leg =
  fx_rate_id :: string
  base_currency :: string
  quote_currency :: string
  leg_rate :: rat
  leg_direction :: direction

definition multiplier :: "fx_leg \<Rightarrow> fx_error + rat" where
  "multiplier l = (case leg_direction l of Direct \<Rightarrow> Inr (leg_rate l) | Reciprocal \<Rightarrow> reciprocal (leg_rate l))"

text \<open>The injected lookup of an ordered pair: the id, the rate and, when it is live, the row.\<close>

type_synonym rate_lookup = "string \<Rightarrow> string \<Rightarrow> fx_error + (string \<times> rat \<times> fx_key version option) option"

definition hop :: "rate_lookup \<Rightarrow> string \<Rightarrow> string \<Rightarrow> fx_error + (fx_leg \<times> fx_key version option) option" where
  "hop get a b =
     bindR (get a b) (\<lambda>direct. case direct of
       Some (i, x, row) \<Rightarrow> Inr (Some (\<lparr>fx_rate_id = i, base_currency = a, quote_currency = b, leg_rate = x, leg_direction = Direct\<rparr>, row))
     | None \<Rightarrow> bindR (get b a) (\<lambda>recip. case recip of
         Some (i, x, row) \<Rightarrow> Inr (Some (\<lparr>fx_rate_id = i, base_currency = b, quote_currency = a, leg_rate = x, leg_direction = Reciprocal\<rparr>, row))
       | None \<Rightarrow> Inr None))"

definition resolve_path ::
  "rate_lookup \<Rightarrow> string \<Rightarrow> string \<Rightarrow> string \<Rightarrow> fx_error + (fx_leg \<times> fx_key version option) list option" where
  "resolve_path get a b base =
     (if a = b then Inr (Some [])
      else bindR (hop get a b) (\<lambda>leg. case leg of
        Some l \<Rightarrow> Inr (Some [l])
      | None \<Rightarrow>
          if base \<noteq> a \<and> base \<noteq> b then
            bindR (hop get a base) (\<lambda>leg1.
            bindR (hop get base b) (\<lambda>leg2. case (leg1, leg2) of
              (Some l1, Some l2) \<Rightarrow> Inr (Some [l1, l2])
            | _ \<Rightarrow> Inr None))
          else Inr None))"

definition live_lookup :: "market \<Rightarrow> fx_read \<Rightarrow> rate_lookup" where
  "live_lookup mk rd b q =
     bindR (published_rate mk rd b q) (\<lambda>row. Inr (case row of None \<Rightarrow> None | Some r \<Rightarrow> Some (v_id r, rate_of r, Some r)))"

definition resolve_conversion_legs ::
  "market \<Rightarrow> fx_read \<Rightarrow> string \<Rightarrow> string \<Rightarrow> string \<Rightarrow> fx_error + fx_key version list" where
  "resolve_conversion_legs mk rd a b base =
     bindR (resolve_path (live_lookup mk rd) a b base) (\<lambda>path. case path of
       None \<Rightarrow> Inl (FxRateNotFound a b)
     | Some legs \<Rightarrow> Inr (List.map_filter snd legs))"

type_synonym rate_map = "string \<times> string \<rightharpoonup> string \<times> rat"

definition captured_lookup :: "rate_map \<Rightarrow> rate_lookup" where
  "captured_lookup m b q = Inr (case m (b, q) of None \<Rightarrow> None | Some (i, x) \<Rightarrow> Some (i, x, None))"

fun compose_legs :: "rat \<Rightarrow> fx_leg list \<Rightarrow> fx_error + rat" where
  "compose_legs eff [] = Inr eff"
| "compose_legs eff (l # ls) = bindR (multiplier l) (\<lambda>m. compose_legs (dmul 28 eff m) ls)"

definition compose_effective_rate ::
  "rate_map \<Rightarrow> string \<Rightarrow> string \<Rightarrow> string \<Rightarrow> fx_error + (rat \<times> fx_leg list) option" where
  "compose_effective_rate m a b base =
     bindR (resolve_path (captured_lookup m) a b base) (\<lambda>path. case path of
       None \<Rightarrow> Inr None
     | Some legs \<Rightarrow> bindR (compose_legs 1 (map fst legs)) (\<lambda>eff. Inr (Some (eff, map fst legs))))"

section \<open>Stored evidence\<close>

text \<open>A leg as the dictionary that is stored; the rate's text is a parameter (\<open>str(Decimal)\<close>).\<close>

type_synonym leg_dict = "string \<rightharpoonup> string"

definition as_dict :: "(rat \<Rightarrow> string) \<Rightarrow> fx_leg \<Rightarrow> leg_dict" where
  "as_dict txt l = [''fx_rate_id'' \<mapsto> fx_rate_id l, ''base_currency'' \<mapsto> base_currency l, ''quote_currency'' \<mapsto> quote_currency l,
     ''rate'' \<mapsto> txt (leg_rate l),
     ''direction'' \<mapsto> (case leg_direction l of Direct \<Rightarrow> ''direct'' | Reciprocal \<Rightarrow> ''reciprocal'')]"

text \<open>\<open>serialize_legs\<close>, up to the JSON text of the list.\<close>

definition serialize_legs :: "(rat \<Rightarrow> string) \<Rightarrow> fx_leg list \<Rightarrow> string option \<Rightarrow> leg_dict list" where
  "serialize_legs txt legs pivot =
     (case pivot of
        Some p \<Rightarrow> if length legs = 2 then map (\<lambda>l. (as_dict txt l)(''pivot'' \<mapsto> p)) legs else map (as_dict txt) legs
      | None \<Rightarrow> map (as_dict txt) legs)"

text \<open>A missing currency of a leg is Python's KeyError.\<close>

definition travel :: "leg_dict \<Rightarrow> string + string \<times> string" where
  "travel d = (case (d ''base_currency'', d ''quote_currency'') of
      (Some b, Some q) \<Rightarrow> Inr (if d ''direction'' = Some ''reciprocal'' then (q, b) else (b, q))
    | _ \<Rightarrow> Inl ''KeyError'')"

definition derive_pivot :: "leg_dict list \<Rightarrow> string + string option" where
  "derive_pivot legs =
     (case find (\<lambda>d. truthy (d ''pivot'')) legs of
        Some d \<Rightarrow> Inr (d ''pivot'')
      | None \<Rightarrow>
          (case legs of
             [d1, d2] \<Rightarrow> bindR (travel d1) (\<lambda>x. bindR (travel d2) (\<lambda>y.
               Inr (if snd x = fst y then Some (snd x) else None)))
           | _ \<Rightarrow> Inr None))"

section \<open>Live and captured paths\<close>

lemma scalar_filter: "scalar_one_or_none (filter P xs) = Inr (Some r) \<Longrightarrow> r \<in> set xs \<and> P r"
  by (cases "filter P xs" rule: scalar_one_or_none.cases) (auto simp: filter_eq_Cons_iff)

lemma published_rate_row:
  "published_rate mk rd a b = Inr (Some r) \<Longrightarrow>
     r \<in> set (versions (mk_fx mk)) \<and> fst (v_key r) = a \<and> fst (snd (v_key r)) = b"
proof -
  let ?k = "(a, b, date_number (rd_valid_at rd), rd_type rd)"
  assume "published_rate mk rd a b = Inr (Some r)"
  then have "reconstruct_as_of (mk_fx mk) (rd_tenant rd) ?k (rd_valid_at rd) (rd_known_at rd) (rd_now rd) = Inr (Some r)"
    by (simp add: published_rate_def reconstruct_fx_rate_as_of_def split: sum.splits)
  then have "r \<in> set (versions (mk_fx mk)) \<and> v_key r = ?k"
    unfolding reconstruct_as_of_def Let_def by (auto dest: scalar_filter)
  then show ?thesis by simp
qed

lemma published_rate_total:
  assumes "fr_wf clock (mk_fx mk)"
  shows "\<exists>row. published_rate mk rd a b = Inr row"
  using reconstruct_reads_view[OF assms, of "rd_tenant rd" "(a, b, date_number (rd_valid_at rd), rd_type rd)"
      "rd_valid_at rd" "rd_known_at rd" "rd_now rd"]
  by (auto simp: published_rate_def reconstruct_fx_rate_as_of_def)

text \<open>What a snapshot captures for a path: every row of the path, and nothing that is not published as of the same instants.\<close>

definition pins :: "rate_map \<Rightarrow> fx_key version list \<Rightarrow> bool" where
  "pins m rows \<longleftrightarrow> (\<forall>r\<in>set rows. m (fst (v_key r), fst (snd (v_key r))) = Some (v_id r, rate_of r))"

definition only_published :: "market \<Rightarrow> fx_read \<Rightarrow> rate_map \<Rightarrow> bool" where
  "only_published mk rd m \<longleftrightarrow> (\<forall>a b i x. m (a, b) = Some (i, x) \<longrightarrow>
     (\<exists>r. published_rate mk rd a b = Inr (Some r) \<and> v_id r = i \<and> rate_of r = x))"

definition forget :: "fx_leg \<times> fx_key version option \<Rightarrow> fx_leg \<times> fx_key version option" where
  "forget l = (fst l, None)"

lemma unpublished: "only_published mk rd m \<Longrightarrow> published_rate mk rd a b = Inr None \<Longrightarrow> m (a, b) = None"
  unfolding only_published_def by (cases "m (a, b)") fastforce+

text \<open>A leg carries the row it comes from.\<close>

definition leg_of :: "market \<Rightarrow> fx_leg \<times> fx_key version option \<Rightarrow> bool" where
  "leg_of mk l \<longleftrightarrow> (\<exists>r\<in>set (versions (mk_fx mk)). snd l = Some r \<and> fx_rate_id (fst l) = v_id r \<and> leg_rate (fst l) = rate_of r \<and>
     base_currency (fst l) = fst (v_key r) \<and> quote_currency (fst l) = fst (snd (v_key r)))"

definition travels :: "fx_leg \<Rightarrow> string \<Rightarrow> string \<Rightarrow> bool" where
  "travels l a b \<longleftrightarrow> (case leg_direction l of
     Direct \<Rightarrow> base_currency l = a \<and> quote_currency l = b | Reciprocal \<Rightarrow> base_currency l = b \<and> quote_currency l = a)"

lemma hop_captured:
  "m (a, b) = Some (i, x) \<Longrightarrow> hop (captured_lookup m) a b
     = Inr (Some (\<lparr>fx_rate_id = i, base_currency = a, quote_currency = b, leg_rate = x, leg_direction = Direct\<rparr>, None))"
  "m (a, b) = None \<Longrightarrow> m (b, a) = Some (i, x) \<Longrightarrow> hop (captured_lookup m) a b
     = Inr (Some (\<lparr>fx_rate_id = i, base_currency = b, quote_currency = a, leg_rate = x, leg_direction = Reciprocal\<rparr>, None))"
  by (simp_all add: hop_def captured_lookup_def)

lemma hop_live:
  assumes wf: "fr_wf clock (mk_fx mk)"
  shows "hop (live_lookup mk rd) a b = Inr None \<and> published_rate mk rd a b = Inr None \<and> published_rate mk rd b a = Inr None \<or>
    (\<exists>l. hop (live_lookup mk rd) a b = Inr (Some l) \<and> leg_of mk l \<and> travels (fst l) a b \<and>
       (\<forall>m. only_published mk rd m \<longrightarrow> pins m (List.map_filter snd [l]) \<longrightarrow>
          hop (captured_lookup m) a b = Inr (Some (forget l))))"
proof -
  obtain x y where x: "published_rate mk rd a b = Inr x" and y: "published_rate mk rd b a = Inr y"
    using published_rate_total[OF wf] by metis
  show ?thesis
  proof (cases x)
    case (Some r)
    let ?l = "(\<lparr>fx_rate_id = v_id r, base_currency = a, quote_currency = b, leg_rate = rate_of r, leg_direction = Direct\<rparr>, Some r)"
    have r: "r \<in> set (versions (mk_fx mk))" "fst (v_key r) = a" "fst (snd (v_key r)) = b"
      using published_rate_row x Some by blast+
    have "hop (live_lookup mk rd) a b = Inr (Some ?l)" using x Some by (simp add: hop_def live_lookup_def)
    moreover have "hop (captured_lookup m) a b = Inr (Some (forget ?l))" if "pins m (List.map_filter snd [?l])" for m
      using that r by (simp add: hop_captured(1) pins_def List.map_filter_def forget_def)
    moreover have "leg_of mk ?l \<and> travels (fst ?l) a b" using r by (simp add: leg_of_def travels_def)
    ultimately show ?thesis by blast
  next
    case None
    note n = None
    show ?thesis
    proof (cases y)
      case None
      then show ?thesis using x y n by (simp add: hop_def live_lookup_def)
    next
      case (Some r)
      let ?l = "(\<lparr>fx_rate_id = v_id r, base_currency = b, quote_currency = a, leg_rate = rate_of r, leg_direction = Reciprocal\<rparr>, Some r)"
      have r: "r \<in> set (versions (mk_fx mk))" "fst (v_key r) = b" "fst (snd (v_key r)) = a"
        using published_rate_row y Some by blast+
      have "hop (live_lookup mk rd) a b = Inr (Some ?l)" using x y n Some by (simp add: hop_def live_lookup_def)
      moreover have "hop (captured_lookup m) a b = Inr (Some (forget ?l))"
        if "only_published mk rd m" "pins m (List.map_filter snd [?l])" for m
        using that r unpublished[OF that(1), of a b] x n by (simp add: hop_captured(2) pins_def List.map_filter_def forget_def)
      moreover have "leg_of mk ?l \<and> travels (fst ?l) a b" using r by (simp add: leg_of_def travels_def)
      ultimately show ?thesis by blast
    qed
  qed
qed

lemma hop_captured_None:
  assumes "published_rate mk rd a b = Inr None" "published_rate mk rd b a = Inr None" "only_published mk rd m"
  shows "hop (captured_lookup m) a b = Inr None"
  using unpublished[OF assms(3)] assms(1,2) by (simp add: hop_def captured_lookup_def)

fun leads :: "fx_leg list \<Rightarrow> string \<Rightarrow> string \<Rightarrow> string \<Rightarrow> bool" where
  "leads [] a b base \<longleftrightarrow> a = b"
| "leads [l] a b base \<longleftrightarrow> a \<noteq> b \<and> travels l a b"
| "leads [l1, l2] a b base \<longleftrightarrow> a \<noteq> b \<and> travels l1 a base \<and> travels l2 base b"
| "leads _ a b base \<longleftrightarrow> False"

lemma resolve_path_live:
  assumes wf: "fr_wf clock (mk_fx mk)"
  shows "resolve_path (live_lookup mk rd) a b base = Inr None \<or>
    (\<exists>legs. resolve_path (live_lookup mk rd) a b base = Inr (Some legs) \<and> list_all (leg_of mk) legs \<and> leads (map fst legs) a b base \<and>
       (\<forall>m. only_published mk rd m \<longrightarrow> pins m (List.map_filter snd legs) \<longrightarrow>
          resolve_path (captured_lookup m) a b base = Inr (Some (map forget legs))))"
proof (cases "a = b")
  case True
  then show ?thesis by (simp add: resolve_path_def List.map_filter_def)
next
  case ab: False
  consider (direct) l where "hop (live_lookup mk rd) a b = Inr (Some l)" "leg_of mk l" "travels (fst l) a b"
      "\<And>m. only_published mk rd m \<Longrightarrow> pins m (List.map_filter snd [l]) \<Longrightarrow> hop (captured_lookup m) a b = Inr (Some (forget l))"
    | (none) "hop (live_lookup mk rd) a b = Inr None" "published_rate mk rd a b = Inr None" "published_rate mk rd b a = Inr None"
    using hop_live[OF wf, of rd a b] by blast
  then show ?thesis
  proof cases
    case direct
    then show ?thesis using ab by (auto simp: resolve_path_def)
  next
    case none
    have capt: "hop (captured_lookup m) a b = Inr None" if "only_published mk rd m" for m
      by (rule hop_captured_None[OF none(2,3) that])
    show ?thesis
    proof (cases "base = a \<or> base = b")
      case True
      then show ?thesis using none(1) ab by (auto simp: resolve_path_def)
    next
      case False
      have split: "pins m (List.map_filter snd [l1, l2]) \<Longrightarrow> pins m (List.map_filter snd [l1]) \<and> pins m (List.map_filter snd [l2])"
        for m and l1 l2 :: "fx_leg \<times> fx_key version option"
        by (auto simp: pins_def List.map_filter_def split: if_splits)
      note H1 = hop_live[OF wf, of rd a base] and H2 = hop_live[OF wf, of rd base b]
      show ?thesis
      proof (cases "hop (live_lookup mk rd) a base = Inr None \<or> hop (live_lookup mk rd) base b = Inr None")
        case True
        then show ?thesis using H1 H2 none(1) False ab by (auto simp: resolve_path_def split: option.splits)
      next
        case some: False
        obtain l1 where l1: "hop (live_lookup mk rd) a base = Inr (Some l1)" "leg_of mk l1" "travels (fst l1) a base"
          "\<And>m. only_published mk rd m \<Longrightarrow> pins m (List.map_filter snd [l1]) \<Longrightarrow> hop (captured_lookup m) a base = Inr (Some (forget l1))"
          using H1 some by blast
        obtain l2 where l2: "hop (live_lookup mk rd) base b = Inr (Some l2)" "leg_of mk l2" "travels (fst l2) base b"
          "\<And>m. only_published mk rd m \<Longrightarrow> pins m (List.map_filter snd [l2]) \<Longrightarrow> hop (captured_lookup m) base b = Inr (Some (forget l2))"
          using H2 some by blast
        have "resolve_path (live_lookup mk rd) a b base = Inr (Some [l1, l2])"
          using l1(1) l2(1) none(1) False ab by (simp add: resolve_path_def)
        moreover have "resolve_path (captured_lookup m) a b base = Inr (Some (map forget [l1, l2]))"
          if m: "only_published mk rd m" "pins m (List.map_filter snd [l1, l2])" for m
          using l1(4)[OF m(1)] l2(4)[OF m(1)] split[OF m(2)] capt[OF m(1)] False ab by (simp add: resolve_path_def)
        ultimately show ?thesis using l1(2,3) l2(2,3) ab by (intro disjI2 exI[of _ "[l1, l2]"]) simp
      qed
    qed
  qed
qed

section \<open>Converting along the path\<close>

definition leg_multiplier :: "fx_leg \<Rightarrow> rat" where
  "leg_multiplier l = (case leg_direction l of Direct \<Rightarrow> leg_rate l | Reciprocal \<Rightarrow> ddiv 28 1 (leg_rate l))"

definition leg_label :: "fx_leg \<Rightarrow> string \<Rightarrow> string \<Rightarrow> path_label" where
  "leg_label l a b = (case leg_direction l of Direct \<Rightarrow> DirectRate a b (leg_rate l) | Reciprocal \<Rightarrow> ReciprocalOf a b (leg_rate l))"

lemma multiplier_ok: "leg_rate l \<noteq> 0 \<Longrightarrow> multiplier l = Inr (leg_multiplier l)"
  by (simp add: multiplier_def leg_multiplier_def reciprocal_def split: direction.split)

lemma compose_ok:
  "list_all (\<lambda>l. leg_rate l \<noteq> 0) ls \<Longrightarrow> compose_legs x ls = Inr (foldl (dmul 28) x (map leg_multiplier ls))"
  by (induction ls arbitrary: x) (simp_all add: multiplier_ok)

lemma multiplier_of_hop:
  assumes "a \<noteq> b" "hop (live_lookup mk rd) a b = Inr h" "\<And>l row. h = Some (l, row) \<Longrightarrow> leg_rate l \<noteq> 0"
  shows "resolve_multiplier mk rd a b = Inr (map_option (\<lambda>l. (leg_multiplier (fst l), leg_label (fst l) a b)) h)"
proof -
  obtain x where x: "published_rate mk rd a b = Inr x"
    using assms(2) by (auto simp: hop_def live_lookup_def bindR_Inr)
  show ?thesis
  proof (cases x)
    case (Some r)
    then show ?thesis using assms x
      by (auto simp: hop_def live_lookup_def resolve_multiplier_def leg_multiplier_def leg_label_def)
  next
    case None
    then obtain y where y: "published_rate mk rd b a = Inr y"
      using assms(2) x by (auto simp: hop_def live_lookup_def bindR_Inr)
    then show ?thesis using assms x None
      by (cases y) (auto simp: hop_def live_lookup_def resolve_multiplier_def leg_multiplier_def leg_label_def reciprocal_def)
  qed
qed

lemma resolve_multiplier_same [simp]: "resolve_multiplier mk rd a a = Inr (Some (1, Identity a a))"
  by (simp add: resolve_multiplier_def)

lemma convert_along_path:
  assumes path: "resolve_path (live_lookup mk rd) a b base = Inr p"
    and hops: "\<And>a b. \<exists>h. hop (live_lookup mk rd) a b = Inr h"
    and rates: "\<And>a b l row. hop (live_lookup mk rd) a b = Inr (Some (l, row)) \<Longrightarrow> leg_rate l \<noteq> 0"
  shows "case p of
      None \<Rightarrow> convert mk rd amount a b base = Inl (FxRateNotFound a b)
    | Some legs \<Rightarrow> \<exists>res. convert mk rd amount a b base = Inr res \<and>
        converted_amount res = foldl (dmul 28) amount (map (leg_multiplier \<circ> fst) legs)"
proof (cases "a = b")
  case True
  then show ?thesis using path by (auto simp: resolve_path_def convert_def)
next
  case ab: False
  have mult: "resolve_multiplier mk rd x y = Inr (map_option (\<lambda>l. (leg_multiplier (fst l), leg_label (fst l) x y)) h)"
    if "x \<noteq> y" "hop (live_lookup mk rd) x y = Inr h" for x y h
    using multiplier_of_hop[OF that] rates that(2) by blast
  obtain h where h: "hop (live_lookup mk rd) a b = Inr h" using hops by blast
  obtain h1 h2 where h12: "hop (live_lookup mk rd) a base = Inr h1" "hop (live_lookup mk rd) base b = Inr h2" using hops by metis
  show ?thesis
  proof (cases h)
    case (Some l)
    then show ?thesis using path ab h mult[OF ab h] by (auto simp: resolve_path_def convert_def)
  next
    case None
    show ?thesis
    proof (cases "base = a \<or> base = b")
      case True
      then show ?thesis using path ab h None mult[OF ab h] by (auto simp: resolve_path_def convert_def)
    next
      case False
      then have "a \<noteq> base" "base \<noteq> b" by auto
      note m1 = mult[OF this(1) h12(1)] and m2 = mult[OF this(2) h12(2)]
      show ?thesis using path ab h None mult[OF ab h] m1 m2 h12 False
        by (cases h1; cases h2) (auto simp: resolve_path_def convert_def)
    qed
  qed
qed

lemma travel_as_dict: "travels l a b \<Longrightarrow> travel (as_dict txt l) = Inr (a, b)"
  by (auto simp: travel_def as_dict_def travels_def split: direction.splits)

lemma travel_with_pivot: "travel (d(''pivot'' \<mapsto> p)) = travel d"
  by (simp add: travel_def split: option.splits)

lemma no_stated_pivot: "\<not> truthy (as_dict txt l ''pivot'')"
  by (simp add: as_dict_def truthy_def)

lemma truthy_Some: "truthy (Some s) \<longleftrightarrow> s \<noteq> []"
  by (simp add: truthy_def)

lemma pivot_of_path:
  assumes "leads legs a b base"
  shows "derive_pivot (serialize_legs txt legs None) = Inr (if length legs = 2 then Some base else None)"
proof -
  consider "legs = []" | l where "legs = [l]" | l1 l2 where "legs = [l1, l2]" "travels l1 a base" "travels l2 base b"
    using assms by (cases "(legs, a, b, base)" rule: leads.cases) auto
  then show ?thesis
    by cases (simp_all add: derive_pivot_def serialize_legs_def no_stated_pivot travel_as_dict)
qed

lemma pivot_stated:
  assumes "leads legs a b base" "base \<noteq> []"
  shows "derive_pivot (serialize_legs txt legs (Some base)) = Inr (if length legs = 2 then Some base else None)"
proof -
  consider "legs = []" | l where "legs = [l]" | l1 l2 where "legs = [l1, l2]" "travels l1 a base" "travels l2 base b"
    using assms(1) by (cases "(legs, a, b, base)" rule: leads.cases) auto
  then show ?thesis
    using assms(2) by cases (simp_all add: derive_pivot_def serialize_legs_def no_stated_pivot truthy_Some)
qed

text \<open>
  C28. The live and the captured end of a conversion agree. In a well-formed table of nonzero rates, either no direct,
  reciprocal or triangulated path is published, and then both the snapshot's leg resolution and \<open>convert\<close> refuse with
  FxRateNotFound; or the leg resolution returns rows, \<open>convert\<close> succeeds, and for every captured map that holds
  those rows and nothing unpublished, whatever else it holds, the composition over the map alone picks the same rates in
  the same order, multiplies the multipliers \<open>convert\<close> multiplies the amount by, and stores evidence from which the pivot
  currency is read back, stated or not.
\<close>
theorem captured_path_is_the_live_path:
  assumes wf: "fr_wf clock (mk_fx mk)" and rates: "\<forall>r\<in>set (versions (mk_fx mk)). rate_of r \<noteq> 0" and base: "base \<noteq> []"
  shows "case resolve_conversion_legs mk rd a b base of
      Inl e \<Rightarrow> e = FxRateNotFound a b \<and> (\<forall>amount. convert mk rd amount a b base = Inl (FxRateNotFound a b))
    | Inr rows \<Rightarrow> (\<exists>legs.
        map fx_rate_id legs = map v_id rows \<and> map leg_rate legs = map rate_of rows \<and>
        (\<forall>amount. \<exists>res. convert mk rd amount a b base = Inr res \<and>
          converted_amount res = foldl (dmul 28) amount (map leg_multiplier legs)) \<and>
        (\<forall>m. only_published mk rd m \<and> pins m rows \<longrightarrow>
          compose_effective_rate m a b base = Inr (Some (foldl (dmul 28) 1 (map leg_multiplier legs), legs))) \<and>
        (\<forall>txt pivot. pivot = None \<or> pivot = Some base \<longrightarrow>
          derive_pivot (serialize_legs txt legs pivot) = Inr (if length legs = 2 then Some base else None)))"
proof -
  have hops: "\<exists>h. hop (live_lookup mk rd) x y = Inr h" for x y using hop_live[OF wf, of rd x y] by blast
  have nz: "leg_rate l \<noteq> 0" if "hop (live_lookup mk rd) x y = Inr (Some (l, row))" for x y l row
  proof -
    have "leg_of mk (l, row)" using hop_live[OF wf, of rd x y] that by auto
    then show ?thesis using rates by (auto simp: leg_of_def)
  qed
  note C = convert_along_path[OF _ hops nz]
  show ?thesis
  proof (cases "resolve_path (live_lookup mk rd) a b base = Inr None")
    case True
    then show ?thesis using C[OF True] by (simp add: resolve_conversion_legs_def)
  next
    case False
    then obtain legs where L: "resolve_path (live_lookup mk rd) a b base = Inr (Some legs)" "list_all (leg_of mk) legs"
      "leads (map fst legs) a b base"
      "\<And>m. only_published mk rd m \<Longrightarrow> pins m (List.map_filter snd legs) \<Longrightarrow>
          resolve_path (captured_lookup m) a b base = Inr (Some (map forget legs))"
      using resolve_path_live[OF wf, of rd a b base] by blast
    let ?rows = "List.map_filter snd legs" and ?ls = "map fst legs"
    have ids: "map fx_rate_id ?ls = map v_id ?rows" "map leg_rate ?ls = map rate_of ?rows"
      using L(2) by (induction legs) (auto simp: leg_of_def List.map_filter_def)
    have nonzero: "list_all (\<lambda>l. leg_rate l \<noteq> 0) ?ls" using L(2) rates by (auto simp: list_all_iff leg_of_def)
    have same: "map fst (map forget legs) = ?ls" by (simp add: forget_def)
    have comp: "compose_effective_rate m a b base = Inr (Some (foldl (dmul 28) 1 (map leg_multiplier ?ls), ?ls))"
      if "only_published mk rd m \<and> pins m ?rows" for m
      unfolding compose_effective_rate_def L(4)[OF conjunct1[OF that] conjunct2[OF that]]
      by (simp only: bindR.simps option.case same compose_ok[OF nonzero])
    have conv: "\<exists>res. convert mk rd amount a b base = Inr res \<and>
        converted_amount res = foldl (dmul 28) amount (map leg_multiplier ?ls)" for amount
      using C[OF L(1)] by simp
    have pivots: "derive_pivot (serialize_legs str ?ls pivot) = Inr (if length ?ls = 2 then Some base else None)"
      if "pivot = None \<or> pivot = Some base" for str pivot
      using pivot_of_path[OF L(3)] pivot_stated[OF L(3) base] that by blast
    have rows: "resolve_conversion_legs mk rd a b base = Inr ?rows" by (simp add: resolve_conversion_legs_def L(1))
    show ?thesis
      unfolding rows sum.case by (intro exI[of _ ?ls] conjI allI impI ids conv comp pivots) simp_all
  qed
qed

definition sample_read :: fx_read where
  "sample_read = \<lparr>rd_tenant = ''t'', rd_valid_at = Naive 35, rd_known_at = None, rd_now = Naive 40, rd_type = ''MID''\<rparr>"

lemma sample_market_wf: "\<exists>c. fr_wf c (mk_fx sample_market)"
proof -
  have "orderly (market_exec sample_ids) market_reopens 0 sample_market_ops sample_market0" by code_simp
  moreover have "fr_wf 0 (mk_fx sample_market0)" by (simp add: sample_market0_def empty_market_def fr_wf_empty)
  ultimately show ?thesis unfolding sample_market_def using rates.run_wf by blast
qed

theorem captured_path_is_the_live_path_witness:
  "\<exists>res. convert sample_market sample_read 100 ''USD'' ''EUR'' ''USD'' = Inr res
    \<and> (case resolve_conversion_legs sample_market sample_read ''USD'' ''EUR'' ''USD'' of
         Inl _ \<Rightarrow> False | Inr rows \<Rightarrow> map v_id rows = [''f3''])"
proof -
  obtain c where wf: "fr_wf c (mk_fx sample_market)" using sample_market_wf by blast
  have nz: "\<forall>r\<in>set (versions (mk_fx sample_market)). rate_of r \<noteq> 0" by code_simp
  have rows: "case resolve_conversion_legs sample_market sample_read ''USD'' ''EUR'' ''USD'' of
      Inl _ \<Rightarrow> False | Inr rows \<Rightarrow> map v_id rows = [''f3'']" by code_simp
  then obtain rows where r: "resolve_conversion_legs sample_market sample_read ''USD'' ''EUR'' ''USD'' = Inr rows"
    by (auto split: sum.splits)
  have "''USD'' \<noteq> []" by simp
  note T = captured_path_is_the_live_path[OF wf nz this, where rd = sample_read and a = "''USD''" and b = "''EUR''",
      unfolded r sum.case]
  have "\<exists>res. convert sample_market sample_read 100 ''USD'' ''EUR'' ''USD'' = Inr res"
    using T by (elim exE conjE) (drule spec[of _ 100], elim exE conjE, rule exI)
  then show ?thesis using rows by blast
qed

end
