(* ===== verification/Notification.thy ===== *)
theory Notification
  imports Entitlement "HOL-Library.Sublist"
begin

text \<open>
  Breach notifications (\<open>notification/service.py\<close>, the phase 4 of the tick in
  \<open>irp_worker/notifications.py\<close>): the alarm events of the audit log after a derived high-water mark, one
  durable attempt row per recipient, and the batch that stops at its first failure. The sink is a parameter
  that may accept, reject or raise. A text is a list of eight-bit characters, so the cut of a failure reason at 2000
  characters is the source's for single-byte texts; a longer text of wider characters is cut at another place.
\<close>

section \<open>State\<close>

record notification =
  nf_id :: string
  nf_tenant :: string
  nf_seq :: int
  nf_event_type :: string
  nf_breach :: string
  nf_recipient :: string
  nf_reason :: string
  nf_channel :: string
  nf_outcome :: string
  nf_failure :: "string option"
  nf_severity :: string
  nf_at :: pydatetime

text \<open>The breach rows are seen here only as the target of a foreign key.\<close>

record notif_db = ent_db +
  notifications :: "notification list"
  breach_ids :: "string list"

text \<open>\<open>NotifyDedup\<close> is a violation of the unique key; everything else that raises is \<open>NotifyFailed\<close>.\<close>

datatype notify_error = NotifyDedup | NotifyFailed string

record message =
  msg_tenant :: string
  msg_recipient :: string
  msg_subject :: string
  msg_event_type :: string
  msg_severity :: string

text \<open>A delivery that raises is the text of the exception.\<close>

record sink =
  sk_channel :: string
  sk_deliver :: "message \<Rightarrow> string + bool \<times> string option"

definition logging_sink :: sink where
  "logging_sink = \<lparr>sk_channel = ''LOG'', sk_deliver = (\<lambda>m. Inr (True, None))\<rparr>"

text \<open>\<open>str.replace\<close> of a non-empty text, from the left and without overlaps.\<close>

function py_replace :: "string \<Rightarrow> string \<Rightarrow> string \<Rightarrow> string" where
  "py_replace old new [] = []"
| "py_replace old new (c # cs) =
     (if prefix old (c # cs) then new @ py_replace old new (drop (length old - 1) cs)
      else c # py_replace old new cs)"
  by pat_completeness auto
termination by (relation "measure (\<lambda>(old, new, s). length s)") auto

text \<open>
  The POST itself is a parameter: a status, an HTTP error with its code, or another exception as its text.
\<close>

datatype http_result = HttpStatus int | HttpError int | HttpUnreachable string

definition redact :: "string \<Rightarrow> string \<Rightarrow> string" where
  "redact url msg = py_replace url ''<webhook-url>'' msg"

definition webhook_deliver :: "string \<Rightarrow> (message \<Rightarrow> http_result) \<Rightarrow> message \<Rightarrow> string + bool \<times> string option" where
  "webhook_deliver url post m = Inr (case post m of
     HttpStatus s \<Rightarrow> if 200 \<le> s \<and> s < 300 then (True, None) else (False, Some (''webhook returned HTTP '' @ int_str s))
   | HttpError c \<Rightarrow> (False, Some (''webhook returned HTTP '' @ int_str c))
   | HttpUnreachable exc \<Rightarrow> (False, Some (redact url (''webhook unreachable: '' @ exc))))"

definition webhook_sink :: "string \<Rightarrow> (message \<Rightarrow> http_result) \<Rightarrow> notify_error + sink" where
  "webhook_sink url post =
     (if url = [] then Inl (NotifyFailed ''empty URL'')
      else if \<not> (prefix ''http://'' url \<or> prefix ''https://'' url) then Inl (NotifyFailed ''scheme'')
      else Inr \<lparr>sk_channel = ''WEBHOOK'', sk_deliver = webhook_deliver url post\<rparr>)"

text \<open>The variable of the environment; unset is the empty text.\<close>

definition default_sink :: "string \<Rightarrow> (message \<Rightarrow> http_result) \<Rightarrow> notify_error + sink" where
  "default_sink setting post =
     (let url = py_strip setting in if url = [] then Inr logging_sink else webhook_sink url post)"

definition alarm_types :: "string list" where
  "alarm_types = [''BREACH.DETECT'', ''BREACH.ESCALATE'']"

definition recipient_permission :: string where
  "recipient_permission = ''breach.review''"

definition no_recipient :: string where
  "no_recipient = ''00000000-0000-0000-0000-000000000000''"

section \<open>The work list\<close>

text \<open>\<open>MAX(source_sequence_no)\<close>, or 0.\<close>

definition current_high_water :: "'a notif_db_scheme \<Rightarrow> string \<Rightarrow> int" where
  "current_high_water db t =
     (case map nf_seq (filter (\<lambda>r. nf_tenant r = t) (notifications db)) of [] \<Rightarrow> 0 | s # ss \<Rightarrow> fold max ss s)"

definition pending_alarm_events :: "'a notif_db_scheme \<Rightarrow> string \<Rightarrow> nat option \<Rightarrow> audit_event list" where
  "pending_alarm_events db t lim = list_events_since_sequence db t (current_high_water db t) alarm_types lim"

section \<open>One event\<close>

text \<open>A key that is missing, or whose value is no text, cannot name a breach.\<close>

definition breach_id_for_event :: "audit_event \<Rightarrow> notify_error + string" where
  "breach_id_for_event e =
     (if event_type e = ''BREACH.DETECT'' then Inr (case entity_id e of None \<Rightarrow> ''None'' | Some i \<Rightarrow> i)
      else (case after_value e of
          Some (JObj kvs) \<Rightarrow> (case map_of kvs ''breach_id'' of Some (JStr i) \<Rightarrow> Inr i | _ \<Rightarrow> Inl (NotifyFailed ''breach_id''))
        | _ \<Rightarrow> Inl (NotifyFailed ''breach_id'')))"

definition dispatch_fields :: "notification \<Rightarrow> event_fields" where
  "dispatch_fields r = (event_call ''NOTIFY.DISPATCH'' (nf_tenant r) ''SYSTEM'' (''notify:'' @ nf_tenant r) ''notification'' ''record'')
     \<lparr>entity_type := Some ''breach_notification'', entity_id := Some (nf_id r), severity := nf_severity r,
      after_value := Some (JObj [(''breach_id'', JStr (nf_breach r)), (''recipient_id'', JStr (nf_recipient r)),
        (''recipient_reason'', JStr (nf_reason r)), (''source_sequence_no'', JInt (nf_seq r)),
        (''source_event_type'', JStr (nf_event_type r)), (''channel'', JStr (nf_channel r)), (''outcome'', JStr (nf_outcome r))])\<rparr>"

text \<open>The insert under its unique key and its foreign key, and the audit event of the attempt.\<close>

definition record_notification ::
  "env \<Rightarrow> string \<Rightarrow> audit_event \<Rightarrow> string \<Rightarrow> pydatetime \<Rightarrow> string \<times> string \<times> string option \<Rightarrow> 'a notif_db_scheme
     \<Rightarrow> notify_error + 'a notif_db_scheme" where
  "record_notification E channel e breach now attempt db = (case attempt of (recipient, result, failure) \<Rightarrow>
     let r = \<lparr>nf_id = uuid E ''breach_notification'' (length (notifications db)), nf_tenant = tenant_id e, nf_seq = sequence_no e,
           nf_event_type = event_type e, nf_breach = breach, nf_recipient = recipient, nf_reason = recipient_permission,
           nf_channel = channel, nf_outcome = result,
           nf_failure = (if truthy failure then map_option (take 2000) failure else None),
           nf_severity = severity e, nf_at = now\<rparr>
     in if list_ex (\<lambda>q. nf_tenant q = nf_tenant r \<and> nf_seq q = nf_seq r \<and> nf_recipient q = nf_recipient r) (notifications db)
        then Inl NotifyDedup
        else if breach \<notin> set (breach_ids db) then Inl (NotifyFailed ''breach'')
        else Inr (log_event E (dispatch_fields r) None (db\<lparr>notifications := notifications db @ [r]\<rparr>)))"

fun record_each ::
  "env \<Rightarrow> string \<Rightarrow> audit_event \<Rightarrow> string \<Rightarrow> pydatetime \<Rightarrow> (string \<times> string \<times> string option) list \<Rightarrow> 'a notif_db_scheme
     \<Rightarrow> notify_error + 'a notif_db_scheme" where
  "record_each E channel e breach now [] db = Inr db"
| "record_each E channel e breach now (a # as) db =
     bindR (record_notification E channel e breach now a db) (\<lambda>db. record_each E channel e breach now as db)"

definition attempt :: "sink \<Rightarrow> audit_event \<Rightarrow> string \<Rightarrow> string \<Rightarrow> string \<times> string \<times> string option" where
  "attempt sk e breach recipient =
     (case sk_deliver sk \<lparr>msg_tenant = tenant_id e, msg_recipient = recipient, msg_subject = breach,
          msg_event_type = event_type e, msg_severity = severity e\<rparr> of
        Inl exc \<Rightarrow> (recipient, ''FAILED'', Some exc)
      | Inr (ok, detail) \<Rightarrow>
          if ok then (recipient, ''SENT'', None)
          else (recipient, ''FAILED'', Some (if truthy detail then the detail else ''delivery failed'')))"

text \<open>Every recipient is delivered to before anything is recorded.\<close>

definition attempts :: "'a notif_db_scheme \<Rightarrow> pydatetime \<Rightarrow> sink \<Rightarrow> audit_event \<Rightarrow> string \<Rightarrow> (string \<times> string \<times> string option) list" where
  "attempts db now sk e breach =
     (let recipients = holders_of_permission db recipient_permission (tenant_id e) now
      in if recipients = [] then [(no_recipient, ''SUPPRESSED'', None)] else map (attempt sk e breach) recipients)"

definition notify_for_event ::
  "env \<Rightarrow> sink \<Rightarrow> pydatetime \<Rightarrow> audit_event \<Rightarrow> 'a notif_db_scheme \<Rightarrow> notify_error + 'a notif_db_scheme" where
  "notify_for_event E sk now e db =
     bindR (breach_id_for_event e) (\<lambda>breach.
       record_each E (sk_channel sk) e breach now (attempts db now sk e breach) db)"

section \<open>The batch\<close>

text \<open>One event is one transaction; the first failure other than a duplicate ends the batch.\<close>

fun notify_each ::
  "env \<Rightarrow> sink \<Rightarrow> pydatetime \<Rightarrow> audit_event list \<Rightarrow> 'a notif_db_scheme \<Rightarrow> 'a notif_db_scheme \<times> string list" where
  "notify_each E sk now [] db = (db, [])"
| "notify_each E sk now (e # es) db =
     (case notify_for_event E sk now e db of
        Inr db' \<Rightarrow> (let (db'', done_ids) = notify_each E sk now es db' in (db'', ev_id e # done_ids))
      | Inl NotifyDedup \<Rightarrow> notify_each E sk now es db
      | Inl (NotifyFailed x) \<Rightarrow> (db, []))"

definition poll_tenant_notifications ::
  "env \<Rightarrow> sink \<Rightarrow> pydatetime \<Rightarrow> string \<Rightarrow> 'a notif_db_scheme \<Rightarrow> 'a notif_db_scheme \<times> string list" where
  "poll_tenant_notifications E sk now t db = notify_each E sk now (pending_alarm_events db t None) db"

definition list_breach_notifications ::
  "'a notif_db_scheme \<Rightarrow> string \<Rightarrow> string option \<Rightarrow> nat \<Rightarrow> nat \<Rightarrow> notification list" where
  "list_breach_notifications db t breach lim offs =
     take lim (drop offs (rev (sort_key (\<lambda>r. utc_of (nf_at r)) (rev (sort_key nf_id
       (filter (\<lambda>r. nf_tenant r = t \<and> opt_filter breach (\<lambda>b. nf_breach r = b)) (notifications db)))))))"

section \<open>What one event writes\<close>

lemma log_event_notif [row_simps]:
  "notifications (log_event E f tm db) = notifications db" "breach_ids (log_event E f tm db) = breach_ids db"
  "app_users (log_event E f tm db) = app_users db"
  by (simp_all add: log_event_eq)

text \<open>The recipients a poll must reach, and the part of the state a poll leaves alone.\<close>

definition recipients :: "'a notif_db_scheme \<Rightarrow> pydatetime \<Rightarrow> string \<Rightarrow> string list" where
  "recipients db now t =
     (let hs = holders_of_permission db recipient_permission t now in if hs = [] then [no_recipient] else hs)"


definition notified :: "'a notif_db_scheme \<Rightarrow> notification list \<Rightarrow> 'a notif_db_scheme \<Rightarrow> bool" where
  "notified db ns db' \<longleftrightarrow> notifications db' = notifications db @ ns \<and> breach_ids db' = breach_ids db
     \<and> (\<exists>xs. audit_events db' = audit_events db @ xs \<and> (\<forall>x\<in>set xs. event_type x \<notin> set alarm_types))
     \<and> holders_of_permission db' = holders_of_permission db"

lemma notified_refl: "notified db [] db"
  by (simp add: notified_def)

lemma notified_trans: "notified db ns db' \<Longrightarrow> notified db' ms db'' \<Longrightarrow> notified db (ns @ ms) db''"
  unfolding notified_def by force

definition names_breach :: "'a notif_db_scheme \<Rightarrow> audit_event \<Rightarrow> bool" where
  "names_breach db e \<longleftrightarrow> (case breach_id_for_event e of Inr b \<Rightarrow> b \<in> set (breach_ids db) | Inl x \<Rightarrow> False)"

definition attempted :: "audit_event \<Rightarrow> (string \<times> string \<times> string option) list \<Rightarrow> notification list \<Rightarrow> bool" where
  "attempted e as ns \<longleftrightarrow> map (\<lambda>r. (nf_tenant r, nf_seq r, nf_recipient r, nf_outcome r)) ns
     = map (\<lambda>(who, result, failure). (tenant_id e, sequence_no e, who, result)) as"

definition unrecorded :: "'a notif_db_scheme \<Rightarrow> audit_event \<Rightarrow> string set \<Rightarrow> bool" where
  "unrecorded db e whos \<longleftrightarrow> (\<forall>q\<in>set (notifications db). nf_tenant q = tenant_id e \<longrightarrow> nf_seq q = sequence_no e \<longrightarrow> nf_recipient q \<notin> whos)"

lemma holders_cong:
  assumes "app_users db' = app_users db" "user_roles db' = user_roles db" "roles db' = roles db"
    "role_permissions db' = role_permissions db" "permissions db' = permissions db"
  shows "holders_of_permission db' = holders_of_permission db"
  by (intro ext) (unfold holders_of_permission_def assms, rule refl)

lemma record_notification_ok:
  assumes "breach \<in> set (breach_ids db)" "unrecorded db e {fst a}"
  shows "\<exists>r db'. record_notification E ch e breach now a db = Inr db' \<and> notified db [r] db' \<and> attempted e [a] [r]"
proof -
  obtain who result failure where a: "a = (who, result, failure)" by (cases a)
  have "\<not> list_ex (\<lambda>q. nf_tenant q = tenant_id e \<and> nf_seq q = sequence_no e \<and> nf_recipient q = who) (notifications db)"
    using assms(2) by (auto simp: unrecorded_def list_ex_iff a)
  then show ?thesis using assms(1)
    by (auto simp: record_notification_def a Let_def notified_def attempted_def log_event_eq
        record_event_def dispatch_fields_def event_call_def alarm_types_def intro!: holders_cong)
qed

lemma record_notification_fails:
  assumes "breach \<notin> set (breach_ids db)" "unrecorded db e {fst a}"
  shows "\<exists>x. record_notification E ch e breach now a db = Inl (NotifyFailed x)"
  using assms by (auto simp: record_notification_def unrecorded_def list_ex_iff Let_def split: prod.splits)

lemma record_each_ok:
  assumes "breach \<in> set (breach_ids db)" "unrecorded db e (set (map fst as))" "distinct (map fst as)"
  shows "\<exists>ns db'. record_each E ch e breach now as db = Inr db' \<and> notified db ns db' \<and> attempted e as ns"
  using assms
proof (induction as arbitrary: db)
  case (Cons a as)
  have "unrecorded db e {fst a}" using Cons.prems(2) by (auto simp: unrecorded_def)
  from record_notification_ok[OF Cons.prems(1) this] obtain r db' where
    r: "record_notification E ch e breach now a db = Inr db'" "notified db [r] db'" "attempted e [a] [r]" by blast
  have "nf_recipient r = fst a" using r(3) by (auto simp: attempted_def split: prod.splits)
  then have "unrecorded db' e (set (map fst as))" "breach \<in> set (breach_ids db')"
    using r(2) Cons.prems by (auto simp: unrecorded_def notified_def)
  from Cons.IH[OF this(2,1)] Cons.prems(3) obtain ns db'' where
    "record_each E ch e breach now as db' = Inr db''" "notified db' ns db''" "attempted e as ns" by auto
  then show ?case using r notified_trans[OF r(2)]
    by (intro exI[of _ "r # ns"] exI[of _ db'']) (auto simp: attempted_def split: prod.splits)
qed (auto simp: notified_refl attempted_def)

lemma fst_attempt: "fst (attempt sk e breach who) = who"
  by (simp add: attempt_def split: sum.splits prod.splits)

lemma attempts_recipients: "map fst (attempts db now sk e breach) = recipients db now (tenant_id e)"
  by (simp add: attempts_def recipients_def Let_def o_def fst_attempt)

lemma recipients_distinct: "distinct (recipients db now t)" "recipients db now t \<noteq> []"
  by (auto simp: recipients_def Let_def holders_of_permission_def)

lemma notify_for_event_cases:
  assumes "unrecorded db e (set (recipients db now (tenant_id e)))"
  shows "if names_breach db e
    then \<exists>ns db' b. notify_for_event E sk now e db = Inr db' \<and> notified db ns db'
      \<and> attempted e (attempts db now sk e b) ns \<and> breach_id_for_event e = Inr b
    else \<exists>x. notify_for_event E sk now e db = Inl (NotifyFailed x)"
proof (cases "breach_id_for_event e")
  case (Inl x)
  then show ?thesis
    by (auto simp: names_breach_def notify_for_event_def breach_id_for_event_def split: if_splits option.splits json.splits)
next
  case (Inr b)
  show ?thesis
  proof (cases "b \<in> set (breach_ids db)")
    case True
    from record_each_ok[OF True, of e "attempts db now sk e b"] assms recipients_distinct(1)[of db now "tenant_id e"]
    show ?thesis using True Inr
      by (simp add: attempts_recipients notify_for_event_def names_breach_def)
  next
    case False
    obtain a as where as: "attempts db now sk e b = a # as"
      using recipients_distinct(2)[of db now "tenant_id e"] attempts_recipients[of db now sk e b]
      by (cases "attempts db now sk e b") auto
    then have "fst a \<in> set (recipients db now (tenant_id e))" using attempts_recipients[of db now sk e b] by (metis list.set_intros(1) list.simps(9))
    then have "unrecorded db e {fst a}" using assms by (auto simp: unrecorded_def)
    from record_notification_fails[OF False this, of E "sk_channel sk" now] obtain x where
      "record_notification E (sk_channel sk) e b now a db = Inl (NotifyFailed x)" ..
    then show ?thesis using False Inr as by (auto simp: notify_for_event_def names_breach_def)
  qed
qed

section \<open>What a poll writes\<close>

definition queue_rows :: "string \<Rightarrow> string list \<Rightarrow> audit_event list \<Rightarrow> (string \<times> int \<times> string) list" where
  "queue_rows t whos es = concat (map (\<lambda>e. map (\<lambda>who. (t, sequence_no e, who)) whos) es)"

definition row_key :: "notification \<Rightarrow> string \<times> int \<times> string" where
  "row_key r = (nf_tenant r, nf_seq r, nf_recipient r)"

lemma attempted_keys:
  assumes "attempted e (attempts db now sk e b) ns"
  shows "map row_key ns = map (\<lambda>who. (tenant_id e, sequence_no e, who)) (recipients db now (tenant_id e))"
proof -
  have "map row_key ns = map (\<lambda>(t, s, who, result). (t, s, who)) (map (\<lambda>r. (nf_tenant r, nf_seq r, nf_recipient r, nf_outcome r)) ns)"
    by (simp add: row_key_def o_def)
  also have "\<dots> = map (\<lambda>who. (tenant_id e, sequence_no e, who)) (map fst (attempts db now sk e b))"
    by (simp only: assms[unfolded attempted_def]) (simp add: case_prod_unfold)
  finally show ?thesis by (simp only: attempts_recipients)
qed

lemma notified_names: "notified db ns db' \<Longrightarrow> names_breach db' e = names_breach db e"
  by (simp add: notified_def names_breach_def split: sum.splits)

lemma notified_recipients: "notified db ns db' \<Longrightarrow> recipients db' now t = recipients db now t"
  by (simp add: notified_def recipients_def)

lemma notify_each_serves:
  assumes "sorted_wrt (<) (map sequence_no es)" "\<forall>e\<in>set es. tenant_id e = t"
    and "\<forall>q\<in>set (notifications db). nf_tenant q = t \<longrightarrow> (\<forall>e\<in>set es. nf_seq q < sequence_no e)"
  shows "\<exists>ns db'. notify_each E sk now es db = (db', map ev_id (takeWhile (names_breach db) es)) \<and> notified db ns db'
    \<and> map row_key ns = queue_rows t (recipients db now t) (takeWhile (names_breach db) es)"
  using assms
proof (induction es arbitrary: db)
  case (Cons e es)
  have t: "tenant_id e = t" using Cons.prems(2) by simp
  have "nf_seq q \<noteq> sequence_no e" if "q \<in> set (notifications db)" "nf_tenant q = t" for q
    using bspec[OF Cons.prems(3) that(1)] that(2) by force
  then have u: "unrecorded db e (set (recipients db now (tenant_id e)))" unfolding unrecorded_def t by blast
  show ?case
  proof (cases "names_breach db e")
    case True
    with notify_for_event_cases[OF u, of E sk] obtain ns db' b where
      1: "notify_for_event E sk now e db = Inr db'" "notified db ns db'" "attempted e (attempts db now sk e b) ns" by auto
    have k: "map row_key ns = map (\<lambda>who. (t, sequence_no e, who)) (recipients db now t)"
      using attempted_keys[OF 1(3)] unfolding t .
    have "nf_tenant q = t \<longrightarrow> (\<forall>x\<in>set es. nf_seq q < sequence_no x)" if "q \<in> set (notifications db')" for q
    proof (cases "q \<in> set ns")
      case True
      then have "row_key q \<in> set (map row_key ns)" by simp
      then have "nf_seq q = sequence_no e" unfolding k by (auto simp: row_key_def)
      then show ?thesis using Cons.prems(1) by simp
    qed (use that 1(2) Cons.prems(3) in \<open>auto simp: notified_def\<close>)
    then obtain ms db'' where 2: "notify_each E sk now es db' = (db'', map ev_id (takeWhile (names_breach db') es))" "notified db' ms db''"
      "map row_key ms = queue_rows t (recipients db' now t) (takeWhile (names_breach db') es)"
      using Cons.IH[of db'] Cons.prems(1,2) by auto
    have n: "names_breach db' = names_breach db" by (intro ext notified_names[OF 1(2)])
    show ?thesis using True 1(1) 2 notified_trans[OF 1(2) 2(2)] k
      by (intro exI[of _ "ns @ ms"] exI[of _ db'']) (simp add: n notified_recipients[OF 1(2)] queue_rows_def)
  next
    case False
    with notify_for_event_cases[OF u, of E sk] show ?thesis
      by (auto simp: notified_refl queue_rows_def intro: exI[of _ db])
  qed
qed (auto simp: notified_refl queue_rows_def)

definition tenant_alarms :: "'a notif_db_scheme \<Rightarrow> string \<Rightarrow> audit_event list" where
  "tenant_alarms db t = sort_key sequence_no (filter (\<lambda>e. tenant_id e = t \<and> event_type e \<in> set alarm_types) (audit_events db))"

lemma pending_alarms: "pending_alarm_events db t None = filter (\<lambda>e. current_high_water db t < sequence_no e) (tenant_alarms db t)"
  by (simp add: pending_alarm_events_def list_events_since_sequence_def tenant_alarms_def alarm_types_def filter_sort conj_ac)

definition sent_seqs :: "'a notif_db_scheme \<Rightarrow> string \<Rightarrow> int set" where
  "sent_seqs db t = nf_seq ` {r \<in> set (notifications db). nf_tenant r = t}"

lemma high_water_max: "current_high_water db t = (if sent_seqs db t = {} then 0 else Max (sent_seqs db t))"
proof (cases "map nf_seq (filter (\<lambda>r. nf_tenant r = t) (notifications db))")
  case Nil
  then have "sent_seqs db t = {}" by (auto simp: sent_seqs_def filter_empty_conv)
  then show ?thesis using Nil by (simp add: current_high_water_def)
next
  case (Cons s ss)
  moreover have "sent_seqs db t = set (map nf_seq (filter (\<lambda>r. nf_tenant r = t) (notifications db)))"
    by (auto simp: sent_seqs_def)
  ultimately show ?thesis using Max.set_eq_fold[of s ss] by (simp add: current_high_water_def)
qed

lemma finite_sent: "finite (sent_seqs db t)"
  by (simp add: sent_seqs_def)

lemma high_water_ge: "s \<in> sent_seqs db t \<Longrightarrow> s \<le> current_high_water db t"
  using Max_ge[OF finite_sent] by (auto simp: high_water_max)

lemma high_water_advances:
  assumes "sent_seqs db' t = sent_seqs db t \<union> S" "\<forall>s\<in>S. current_high_water db t < s"
  shows "current_high_water db' t = (if S = {} then current_high_water db t else Max S)"
proof (cases "S = {}")
  case False
  have fin: "finite S" using finite_sent[of db' t] by (simp add: assms(1))
  have "Max (sent_seqs db t \<union> S) = Max S"
  proof (cases "sent_seqs db t = {}")
    case ne: False
    have "Max (sent_seqs db t) < Max S" using assms(2) Max_in[OF fin False] ne by (simp add: high_water_max)
    then show ?thesis using Max_Un[OF finite_sent ne fin False] by simp
  qed simp
  then show ?thesis using False by (simp add: high_water_max[of db'] assms(1))
qed (simp add: high_water_max assms(1))

lemma filter_served:
  fixes f :: "'a \<Rightarrow> int"
  assumes "sorted_wrt (<) (map f (served @ rest))" "\<forall>e\<in>set (served @ rest). h < f e"
  shows "filter (\<lambda>e. (if f ` set served = {} then h else Max (f ` set served)) < f e) (served @ rest) = rest"
proof (cases "served = []")
  case False
  have "\<forall>e\<in>set served. \<not> Max (f ` set served) < f e" by (simp add: not_less)
  moreover have "\<forall>e\<in>set rest. Max (f ` set served) < f e"
    using assms(1) False by (simp add: sorted_wrt_append)
  ultimately show ?thesis using False by (simp add: filter_empty_conv filter_id_conv)
qed (use assms(2) in \<open>simp add: filter_id_conv\<close>)

lemma tenant_alarms_sorted:
  assumes "distinct (map sequence_no (filter (\<lambda>e. tenant_id e = t) (audit_events db)))"
  shows "sorted_wrt (<) (map sequence_no (tenant_alarms db t))"
proof -
  have "distinct (map sequence_no (filter (\<lambda>e. event_type e \<in> set alarm_types) (filter (\<lambda>e. tenant_id e = t) (audit_events db))))"
    using assms by (rule distinct_map_filter)
  then have "distinct (map sequence_no (tenant_alarms db t))"
    by (simp add: tenant_alarms_def distinct_map conj_commute)
  then show ?thesis by (simp add: strict_sorted_iff tenant_alarms_def)
qed

lemma tenant_alarms_notified: "notified db ns db' \<Longrightarrow> tenant_alarms db' t = tenant_alarms db t"
  by (auto simp: notified_def tenant_alarms_def intro!: arg_cong[of _ _ "sort_key sequence_no"] simp: filter_empty_conv)

lemma rows_seqs:
  assumes "notified db ns db'" "map row_key ns = queue_rows t whos served" "whos \<noteq> []"
  shows "sent_seqs db' t = sent_seqs db t \<union> sequence_no ` set served"
proof -
  have "row_key ` set ns = set (queue_rows t whos served)" using assms(2) by (metis set_map)
  also have "\<dots> = (\<lambda>(e, who). (t, sequence_no e, who)) ` (set served \<times> set whos)" by (auto simp: queue_rows_def)
  finally have k: "row_key ` set ns = (\<lambda>(e, who). (t, sequence_no e, who)) ` (set served \<times> set whos)" .
  have "nf_seq ` {r \<in> set ns. nf_tenant r = t} = (fst \<circ> snd) ` {x \<in> row_key ` set ns. fst x = t}" by (force simp: row_key_def)
  also have "\<dots> = sequence_no ` set served" unfolding k using assms(3) by (cases whos) force+
  finally show ?thesis using assms(1) by (auto simp: notified_def sent_seqs_def)
qed

lemma poll_notified:
  assumes "distinct (map sequence_no (filter (\<lambda>e. tenant_id e = t) (audit_events db)))"
    and "poll_tenant_notifications E sk now t db = (db', ids)"
    and "served = takeWhile (names_breach db) (pending_alarm_events db t None)"
  shows "\<exists>ns. ids = map ev_id served \<and> notified db ns db' \<and> map row_key ns = queue_rows t (recipients db now t) served"
proof -
  let ?p = "pending_alarm_events db t None"
  have st: "sorted_wrt (<) (map sequence_no ?p)"
    using tenant_alarms_sorted[OF assms(1)] by (simp add: pending_alarms strict_sorted_iff distinct_map_filter sorted_filter)
  have "nf_seq q < sequence_no e" if "q \<in> set (notifications db)" "nf_tenant q = t" "e \<in> set ?p" for q e
  proof -
    have "nf_seq q \<le> current_high_water db t" using that(1,2) by (intro high_water_ge) (auto simp: sent_seqs_def)
    then show ?thesis using that(3) by (simp add: pending_alarms)
  qed
  moreover have "\<forall>e\<in>set ?p. tenant_id e = t" by (simp add: pending_alarms tenant_alarms_def)
  ultimately show ?thesis
    using notify_each_serves[OF st, of t db E sk now] assms(2) by (auto simp: poll_tenant_notifications_def assms(3))
qed

text \<open>
  C29. A poll serves the pending alarms of the tenant in order up to the first one that names no breach: each of them
  gets one row per recipient (one sentinel row when nobody holds the review permission), the notification table gains nothing else (each attempt also
  logs its audit event), and the next poll starts exactly at the alarm where this one stopped, so no alarm is skipped or notified twice.
\<close>

theorem poll_serves_the_queue:
  assumes "distinct (map sequence_no (filter (\<lambda>e. tenant_id e = t) (audit_events db)))"
    and "served = takeWhile (names_breach db) (pending_alarm_events db t None)"
    and "poll_tenant_notifications E sk now t db = (db', ids)"
  shows "ids = map ev_id served
    \<and> pending_alarm_events db t None = served @ pending_alarm_events db' t None
    \<and> take (length (notifications db)) (notifications db') = notifications db
    \<and> map row_key (drop (length (notifications db)) (notifications db')) = queue_rows t (recipients db now t) served"
proof -
  let ?p = "pending_alarm_events db t None" and ?h = "current_high_water db t" and ?h' = "current_high_water db' t"
  obtain ns where ns: "ids = map ev_id served" "notified db ns db'" "map row_key ns = queue_rows t (recipients db now t) served"
    using poll_notified[OF assms(1,3,2)] by blast
  obtain rest where rest: "?p = served @ rest" unfolding assms(2) using takeWhile_dropWhile_id by metis
  have gt: "\<forall>e\<in>set (served @ rest). ?h < sequence_no e" unfolding rest[symmetric] by (simp add: pending_alarms)
  have st: "sorted_wrt (<) (map sequence_no (served @ rest))"
    using tenant_alarms_sorted[OF assms(1)] unfolding rest[symmetric]
    by (simp add: pending_alarms strict_sorted_iff distinct_map_filter sorted_filter)
  have h': "?h' = (if sequence_no ` set served = {} then ?h else Max (sequence_no ` set served))"
    using gt by (intro high_water_advances[OF rows_seqs[OF ns(2,3) recipients_distinct(2)]]) auto
  then have "?h \<le> ?h'"
  proof (cases served)
    case (Cons e es)
    then have "sequence_no e \<le> ?h'" unfolding h' by (auto intro: Max_ge)
    then show ?thesis using gt Cons by auto
  qed simp
  then have "pending_alarm_events db' t None = filter (\<lambda>e. ?h' < sequence_no e) ?p"
    by (auto simp: pending_alarms tenant_alarms_notified[OF ns(2)] intro: filter_cong)
  also have "\<dots> = rest" unfolding rest h' by (rule filter_served[OF st gt])
  finally show ?thesis using rest ns by (simp add: notified_def)
qed

section \<open>Redaction\<close>

lemma prefix_py_replace:
  assumes "CHR ''<'' \<notin> set u" "prefix u (py_replace old (CHR ''<'' # m) s)"
  shows "prefix u s"
  using assms
proof (induction old "CHR ''<'' # m" s arbitrary: u rule: py_replace.induct)
  case (2 old c cs)
  show ?case
  proof (cases u)
    case (Cons d ds)
    then have "\<not> prefix old (c # cs)" using 2(3,4) by (auto split: if_splits)
    then show ?thesis using 2 Cons by auto
  qed simp
qed simp

lemma py_replace_removes:
  assumes "CHR ''<'' \<notin> set old" "CHR ''>'' \<notin> set old" "\<not> set old \<subseteq> set (CHR ''<'' # m @ ''>'')"
  shows "\<not> sublist old (py_replace old (CHR ''<'' # m @ ''>'') s)"
  using assms
proof (induction old "CHR ''<'' # m @ ''>''" s rule: py_replace.induct)
  case (1 old)
  then show ?case by auto
next
  case (2 old c cs)
  let ?mark = "CHR ''<'' # m @ ''>''" and ?R = "\<lambda>s. py_replace old (CHR ''<'' # m @ ''>'') s"
  show ?case
  proof (cases "prefix old (c # cs)")
    case True
    have IH: "\<not> sublist old (?R (drop (length old - 1) cs))" using 2(1)[OF True 2(3-5)] .
    have "\<not> sublist old ?mark" using 2(5) by (auto dest!: set_mono_sublist)
    moreover have False if "old = xs @ ys" "suffix xs ?mark" "prefix ys (?R (drop (length old - 1) cs))" for xs ys
    proof (cases "xs = []")
      case False
      from that(2) obtain zs where "zs @ xs = ?mark" by (auto simp: suffix_def)
      then have "last xs = last ?mark" using False by (metis last_appendR)
      then have "CHR ''>'' \<in> set old" using that(1) last_in_set[OF False] by simp
      then show False using 2(4) by blast
    qed (use that IH in \<open>auto dest: prefix_imp_sublist\<close>)
    ultimately show ?thesis using IH True by (auto simp del: append_Cons simp: sublist_append)
  next
    case False
    have "\<not> sublist old (?R cs)" using 2(2)[OF False 2(3-5)] .
    moreover have "\<not> prefix old (c # ?R cs)"
    proof
      assume a: "prefix old (c # ?R cs)"
      have "old \<noteq> []" using False by auto
      with a obtain u where u: "old = c # u" "prefix u (?R cs)" by (cases old) auto
      then have "prefix u cs" using prefix_py_replace[of u old "m @ ''>''" cs] 2(3) by auto
      then show False using False u by simp
    qed
    ultimately show ?thesis using False by (simp add: sublist_Cons_right)
  qed
qed



definition stored_failure :: "string option \<Rightarrow> string option" where
  "stored_failure f = (if truthy f then map_option (take 2000) f else None)"

lemma record_each_rows:
  assumes "record_each E ch e breach now as db = Inr db'" "r \<in> set (notifications db')"
  shows "r \<in> set (notifications db) \<or> nf_failure r \<in> stored_failure ` (snd \<circ> snd) ` set as"
  using assms
proof (induction as arbitrary: db)
  case (Cons a as)
  obtain who result failure where a: "a = (who, result, failure)" by (cases a)
  from Cons.prems(1) obtain db1 where 1: "record_notification E ch e breach now a db = Inr db1"
    "record_each E ch e breach now as db1 = Inr db'" by (auto simp: bindR_Inr)
  from Cons.IH[OF 1(2) Cons.prems(2)] 1(1) show ?case
    by (auto simp: record_notification_def a Let_def stored_failure_def row_simps split: if_splits)
qed simp

lemma notify_each_rows:
  fixes db :: "'a notif_db_scheme"
  assumes "r \<in> set (notifications (fst (notify_each E sk now es db)))"
    and "\<And>(db :: 'a notif_db_scheme) e b. \<forall>a\<in>set (attempts db now sk e b). P (stored_failure (snd (snd a)))"
  shows "r \<in> set (notifications db) \<or> P (nf_failure r)"
  using assms(1)
proof (induction es arbitrary: db)
  case (Cons e es)
  show ?case
  proof (cases "notify_for_event E sk now e db")
    case (Inr db1)
    then obtain b where "record_each E (sk_channel sk) e b now (attempts db now sk e b) db = Inr db1"
      by (auto simp: notify_for_event_def bindR_Inr)
    note each = record_each_rows[OF this, of r]
    from Cons Inr have "r \<in> set (notifications db1) \<or> P (nf_failure r)" by (auto simp: case_prod_unfold Let_def)
    then show ?thesis using each assms(2)[of db e b] by force
  qed (use Cons in \<open>auto split: notify_error.splits\<close>)
qed simp

lemma int_str_no_colon: "CHR '':'' \<notin> set (int_str n)"
  by (auto simp: int_str_def dest!: bspec[OF nat_str_digits] simp: is_digit_def)

lemma webhook_details:
  assumes "webhook_sink url post = Inr sk" "CHR ''<'' \<notin> set url" "CHR ''>'' \<notin> set url"
  shows "\<forall>a\<in>set (attempts db now sk e b). case stored_failure (snd (snd a)) of None \<Rightarrow> True | Some f \<Rightarrow> \<not> sublist url f"
proof -
  have sk: "sk_deliver sk = webhook_deliver url post" and colon: "CHR '':'' \<in> set url"
    using assms(1) by (auto simp: webhook_sink_def prefix_def split: if_splits)
  have no_colon: "\<not> sublist url f" if "CHR '':'' \<notin> set f" for f
    using that colon by (auto dest: set_mono_sublist)
  have "\<not> sublist url (redact url f)" for f
    using py_replace_removes[OF assms(2,3), of "''webhook-url''" f] colon by (auto simp: redact_def)
  then have "\<not> sublist url d" if "webhook_deliver url post m = Inr (ok, Some d)" for m ok d
    using that no_colon int_str_no_colon by (auto simp: webhook_deliver_def split: http_result.splits if_splits)
  moreover have "sublist url (take 2000 f) \<Longrightarrow> sublist url f" for f
    using sublist_order.order.trans[OF _ sublist_take] by blast
  ultimately have d: "webhook_deliver url post m = Inr (ok, Some d) \<Longrightarrow> \<not> sublist url (take 2000 d)" for m ok d by blast
  have "case stored_failure (snd (snd (attempt sk e b who))) of None \<Rightarrow> True | Some f \<Rightarrow> \<not> sublist url f" for who
  proof -
    let ?m = "\<lparr>msg_tenant = tenant_id e, msg_recipient = who, msg_subject = b, msg_event_type = event_type e, msg_severity = severity e\<rparr>"
    obtain p where "webhook_deliver url post ?m = Inr p" by (simp add: webhook_deliver_def)
    then obtain ok x where "webhook_deliver url post ?m = Inr (ok, x)" by (cases p) simp
    then show ?thesis using d[of ?m ok] no_colon[of "''delivery failed''"]
      by (cases x) (auto simp: attempt_def sk stored_failure_def truthy_def)
  qed
  then show ?thesis by (auto simp: attempts_def Let_def stored_failure_def truthy_def)
qed

text \<open>
  C30. The webhook URL, which may carry a secret, is in no failure reason a poll stores, whatever the network answers: an error
  text is redacted before it is returned, and the URL does not reappear across the replaced parts or by the
  truncation. (A URL is assumed to hold no angle brackets.)
\<close>

theorem webhook_url_is_never_stored:
  assumes "webhook_sink url post = Inr sk" "CHR ''<'' \<notin> set url" "CHR ''>'' \<notin> set url"
    and "poll_tenant_notifications E sk now t db = (db', ids)" "r \<in> set (notifications db')" "r \<notin> set (notifications db)"
    and "nf_failure r = Some f"
  shows "\<not> sublist url f"
proof -
  have "r \<in> set (notifications (fst (notify_each E sk now (pending_alarm_events db t None) db)))"
    using assms(4,5) by (simp add: poll_tenant_notifications_def)
  from notify_each_rows[OF this, of "\<lambda>f. case f of None \<Rightarrow> True | Some f \<Rightarrow> \<not> sublist url f", OF webhook_details[OF assms(1-3)]]
  show ?thesis using assms(6,7) by simp
qed

section \<open>A tenant with one reviewer and three alarms\<close>

definition quiet_tenant :: notif_db where
  "quiet_tenant = \<lparr>audit_events = [], audit_checkpoints = [],
     app_users = [\<lparr>user_id = ''u1'', user_tenant = ''t'', user_subject = None, user_name = ''n'', user_active = True\<rparr>],
     roles = [\<lparr>rl_id = ''r'', rl_tenant = ''t'', rl_code = ''2l'', rl_name = ''2l''\<rparr>],
     permissions = [\<lparr>pm_id = ''p'', pm_code = recipient_permission, pm_description = []\<rparr>],
     role_permissions = [\<lparr>rp_id = ''rp'', rp_role = ''r'', rp_permission = ''p''\<rparr>], revocations = None,
     user_roles = [\<lparr>ur_id = ''ur'', ur_tenant = ''t'', ur_user = ''u1'', ur_role = ''r'', ur_from = Naive 0, ur_to = None\<rparr>],
     notifications = [], breach_ids = [''b1'']\<rparr>"

definition alarm :: "string \<Rightarrow> string \<Rightarrow> string \<Rightarrow> event_fields" where
  "alarm ty entity breach = (event_call ty ''t'' ''SYSTEM'' ''w'' ''limit'' ''record'')
     \<lparr>entity_id := Some entity, after_value := Some (JObj [(''breach_id'', JStr breach)])\<rparr>"

definition alarm_row :: "int \<Rightarrow> string \<Rightarrow> string \<Rightarrow> string \<Rightarrow> audit_event" where
  "alarm_row n ty entity breach = event_fields.extend (alarm ty entity breach)
     \<lparr>ev_id = int_str n, event_time = [], chain_id = ''t'', sequence_no = n, previous_event_hash = [],
      event_payload_hash = [], event_hash = [], hash_algorithm = [], hash_version = []\<rparr>"

definition alarmed_tenant :: notif_db where
  "alarmed_tenant = quiet_tenant\<lparr>audit_events :=
     [alarm_row 1 ''BREACH.DETECT'' ''b1'' ''b1'', alarm_row 2 ''BREACH.ESCALATE'' ''a1'' ''b1'', alarm_row 3 ''BREACH.DETECT'' ''b9'' ''b9'']\<rparr>"

definition sample_url :: string where
  "sample_url = ''https://h/T0''"

definition offline_sink :: sink where
  "offline_sink = (case webhook_sink sample_url (\<lambda>m. HttpUnreachable (''no route to '' @ sample_url)) of Inr sk \<Rightarrow> sk | Inl x \<Rightarrow> logging_sink)"

lemma offline_sink: "webhook_sink sample_url (\<lambda>m. HttpUnreachable (''no route to '' @ sample_url)) = Inr offline_sink"
  by (simp add: offline_sink_def webhook_sink_def sample_url_def)

lemma alarmed_poll:
  "map sequence_no (filter (\<lambda>e. tenant_id e = ''t'') (audit_events alarmed_tenant)) = [1, 2, 3]"
  "map ev_id (takeWhile (names_breach alarmed_tenant) (pending_alarm_events alarmed_tenant ''t'' None)) = [''1'', ''2'']"
  "queue_rows ''t'' (recipients alarmed_tenant (Naive 5) ''t'') (takeWhile (names_breach alarmed_tenant) (pending_alarm_events alarmed_tenant ''t'' None))
     = [(''t'', 1, ''u1''), (''t'', 2, ''u1'')]"
  "notifications alarmed_tenant = []"
  by code_simp+

definition one_alarm :: notif_db where
  "one_alarm = quiet_tenant\<lparr>audit_events := [alarm_row 1 ''BREACH.DETECT'' ''b1'' ''b1'']\<rparr>"

lemma one_alarm:
  "pending_alarm_events one_alarm ''t'' None = [alarm_row 1 ''BREACH.DETECT'' ''b1'' ''b1'']"
  "breach_id_for_event (alarm_row 1 ''BREACH.DETECT'' ''b1'' ''b1'') = Inr ''b1''"
  "attempts one_alarm (Naive 5) offline_sink (alarm_row 1 ''BREACH.DETECT'' ''b1'' ''b1'') ''b1''
     = [(''u1'', ''FAILED'', Some ''webhook unreachable: no route to <webhook-url>'')]"
  "notifications one_alarm = []" "breach_ids one_alarm = [''b1'']"
  by code_simp+

lemma offline_row:
  "map nf_failure (notifications (fst (poll_tenant_notifications sample_env offline_sink (Naive 5) ''t'' one_alarm)))
     = [Some ''webhook unreachable: no route to <webhook-url>'']"
  by (simp add: poll_tenant_notifications_def notify_for_event_def one_alarm record_notification_def row_simps truthy_def Let_def)

theorem poll_serves_the_queue_witness:
  "snd (poll_tenant_notifications sample_env offline_sink (Naive 5) ''t'' alarmed_tenant) = [''1'', ''2'']
    \<and> map row_key (notifications (fst (poll_tenant_notifications sample_env offline_sink (Naive 5) ''t'' alarmed_tenant)))
      = [(''t'', 1, ''u1''), (''t'', 2, ''u1'')]"
proof -
  have "distinct (map sequence_no (filter (\<lambda>e. tenant_id e = ''t'') (audit_events alarmed_tenant)))"
    unfolding alarmed_poll(1) by simp
  from poll_serves_the_queue[OF this refl surjective_pairing, of sample_env offline_sink "Naive 5"]
  show ?thesis by (simp only: alarmed_poll list.size drop_0)
qed

theorem webhook_url_is_never_stored_witness:
  "\<not> sublist sample_url ''webhook unreachable: no route to <webhook-url>''"
proof -
  let ?ns = "notifications (fst (poll_tenant_notifications sample_env offline_sink (Naive 5) ''t'' one_alarm))"
  have "hd ?ns \<in> set ?ns" "nf_failure (hd ?ns) = Some ''webhook unreachable: no route to <webhook-url>''"
    using offline_row by (cases ?ns; simp)+
  then show ?thesis
    using webhook_url_is_never_stored[OF offline_sink _ _ surjective_pairing, where E = sample_env and now = "Naive 5" and t = "''t''" and db = one_alarm and r = "hd ?ns"]
    by (simp add: sample_url_def one_alarm(4))
qed

end
