(* ===== verification/Transactions.thy ===== *)
theory Transactions
  imports Captured_Holdings
begin

text \<open>
  The trade and cash-flow log (\<open>transaction/transaction.py\<close>, \<open>transaction/service.py\<close>): an append-only table whose
  external reference is unique per tenant, written by a record and by a reversal that negates the row it names.
\<close>

section \<open>State\<close>

record trade =
  tx_id :: string
  tx_tenant :: string
  tx_portfolio :: string
  tx_instrument :: string
  tx_type :: string
  tx_trade_date :: int
  tx_settle_date :: "int option"
  tx_quantity :: decimal
  tx_price :: "decimal option"
  tx_gross :: "decimal option"
  tx_currency :: "string option"
  tx_external_ref :: "string option"
  tx_reverses :: "string option"
  tx_description :: "string option"
  tx_at :: pydatetime

datatype trade_event =
    TransactionRecorded trade
  | TransactionReversed trade "string option"

text \<open>The MANUAL data sources by tenant, and one ORIGIN edge (its source's tenant, the target) per row.\<close>

record trade_log =
  tl_books :: books
  tl_trades :: "trade list"
  tl_sources :: "string list"
  tl_origins :: "(string \<times> string) list"
  tl_events :: "(trade_event \<times> pydatetime) list"

datatype trade_error =
    TradeRefNotVisible
  | TransactionNotVisible string
  | TradeMultipleRows
  | TradeIntegrity string
  | TradeNumeric string

definition reversal_txn_type :: string where
  "reversal_txn_type = ''REVERSAL''"

section \<open>Operations\<close>

text \<open>\<open>ensure_manual_source\<close>: resolve or register.\<close>

definition ensure_manual_source :: "string \<Rightarrow> trade_log \<Rightarrow> trade_log" where
  "ensure_manual_source t s = (if t \<in> set (tl_sources s) then s else s\<lparr>tl_sources := tl_sources s @ [t]\<rparr>)"

definition emit_trade :: "trade_event \<Rightarrow> trade \<Rightarrow> pydatetime \<Rightarrow> trade_log \<Rightarrow> trade_log" where
  "emit_trade ev r now s =
     (let s = ensure_manual_source (tx_tenant r) s
      in s\<lparr>tl_origins := tl_origins s @ [(tx_tenant r, tx_id r)], tl_events := tl_events s @ [(ev, now)]\<rparr>)"

definition bind_opt :: "nat \<Rightarrow> nat \<Rightarrow> decimal option \<Rightarrow> decimal option option" where
  "bind_opt prec scale d = (case d of None \<Rightarrow> Some None | Some x \<Rightarrow> map_option Some (bind_numeric prec scale x))"

text \<open>The insert: the columns bound to their scales, the primary key, the unique external reference of the tenant.\<close>

definition insert_trade :: "trade \<Rightarrow> trade list \<Rightarrow> trade_error + trade list \<times> trade" where
  "insert_trade r rows =
     (case (bind_numeric 28 8 (tx_quantity r), bind_opt 20 6 (tx_price r), bind_opt 20 6 (tx_gross r)) of
        (Some q, Some p, Some g) \<Rightarrow>
          (let r = r\<lparr>tx_quantity := q, tx_price := p, tx_gross := g\<rparr> in
           if tx_id r \<in> tx_id ` set rows then Inl (TradeIntegrity ''id'')
           else if tx_external_ref r \<noteq> None \<and>
             list_ex (\<lambda>x. tx_tenant x = tx_tenant r \<and> tx_external_ref x = tx_external_ref r) rows
           then Inl (TradeIntegrity ''external_ref'')
           else Inr (rows @ [r], r))
      | _ \<Rightarrow> Inl (TradeNumeric ''numeric''))"

definition resolve_transaction :: "trade_log \<Rightarrow> string \<Rightarrow> string \<Rightarrow> trade_error + trade" where
  "resolve_transaction s rid t =
     (case filter (\<lambda>r. tx_id r = rid \<and> tx_tenant r = t) (tl_trades s) of
        [] \<Rightarrow> Inl (TransactionNotVisible rid) | [r] \<Rightarrow> Inr r | _ \<Rightarrow> Inl TradeMultipleRows)"

definition record_transaction ::
  "string \<Rightarrow> string \<Rightarrow> string \<Rightarrow> string \<Rightarrow> int \<Rightarrow> decimal \<Rightarrow> int option \<Rightarrow> decimal option \<Rightarrow> decimal option \<Rightarrow> string option
    \<Rightarrow> string option \<Rightarrow> string option \<Rightarrow> string \<Rightarrow> pydatetime \<Rightarrow> trade_log \<Rightarrow> trade_error + trade_log \<times> trade" where
  "record_transaction t p i ty date quantity settle price gross cur ext descr nid now s =
     (case resolve_holding (tl_books s) p i t :: unit fr_error + unit of
        Inl _ \<Rightarrow> Inl TradeRefNotVisible
      | Inr _ \<Rightarrow>
          bindR (insert_trade \<lparr>tx_id = nid, tx_tenant = t, tx_portfolio = p, tx_instrument = i, tx_type = ty, tx_trade_date = date,
              tx_settle_date = settle, tx_quantity = quantity, tx_price = price, tx_gross = gross, tx_currency = cur,
              tx_external_ref = ext, tx_reverses = None, tx_description = descr, tx_at = now\<rparr> (tl_trades s)) (\<lambda>(rows, r).
          Inr (emit_trade (TransactionRecorded r) r now (s\<lparr>tl_trades := rows\<rparr>), r)))"

fun negated :: "decimal \<Rightarrow> decimal" where
  "negated (Fin c e) = Fin (- c) e"
| "negated (Special x) = Special (if x = ''Infinity'' then ''-Infinity'' else if x = ''-Infinity'' then ''Infinity'' else x)"

definition reversal_row :: "trade \<Rightarrow> int option \<Rightarrow> string option \<Rightarrow> string option \<Rightarrow> string \<Rightarrow> pydatetime \<Rightarrow> trade" where
  "reversal_row original date ext descr nid now = original\<lparr>tx_id := nid, tx_type := reversal_txn_type,
     tx_trade_date := (case date of None \<Rightarrow> tx_trade_date original | Some d \<Rightarrow> d),
     tx_quantity := negated (tx_quantity original), tx_gross := map_option negated (tx_gross original),
     tx_external_ref := ext, tx_description := descr, tx_reverses := Some (tx_id original), tx_at := now\<rparr>"

definition reverse_transaction ::
  "trade \<Rightarrow> int option \<Rightarrow> string option \<Rightarrow> string option \<Rightarrow> string option \<Rightarrow> string \<Rightarrow> pydatetime \<Rightarrow> trade_log
    \<Rightarrow> trade_error + trade_log \<times> trade" where
  "reverse_transaction original date reason ext descr nid now s =
     bindR (insert_trade (reversal_row original date ext descr nid now) (tl_trades s)) (\<lambda>(rows, r).
     Inr (emit_trade (TransactionReversed r reason) r now (s\<lparr>tl_trades := rows\<rparr>), r))"

section \<open>Runs\<close>

text \<open>A reversal names its target by id, as its endpoint does.\<close>

datatype trade_op =
    RecordTrade string string string int decimal "int option" "decimal option" "decimal option" "string option" "string option" "string option"
  | ReverseTrade string "int option" "string option" "string option" "string option"

fun trade_exec :: "pydatetime \<Rightarrow> string \<Rightarrow> string \<times> trade_op \<Rightarrow> trade_log \<Rightarrow> trade_log option" where
  "trade_exec now nid (t, RecordTrade p i ty d q settle price gross cur ext descr) s =
     committed (record_transaction t p i ty d q settle price gross cur ext descr nid now s)"
| "trade_exec now nid (t, ReverseTrade rid d reason ext descr) s =
     committed (bindR (resolve_transaction s rid t) (\<lambda>r. reverse_transaction r d reason ext descr nid now s))"

section \<open>What the log keeps\<close>

definition bound_row :: "trade \<Rightarrow> bool" where
  "bound_row r \<longleftrightarrow> bind_numeric 28 8 (tx_quantity r) = Some (tx_quantity r) \<and> bind_opt 20 6 (tx_price r) = Some (tx_price r)
     \<and> bind_opt 20 6 (tx_gross r) = Some (tx_gross r)"

definition same_ref :: "trade \<Rightarrow> trade \<Rightarrow> bool" where
  "same_ref r q \<longleftrightarrow> tx_tenant r = tx_tenant q \<and> tx_external_ref r = tx_external_ref q \<and> tx_external_ref r \<noteq> None"

definition log_ok :: "trade_log \<Rightarrow> bool" where
  "log_ok s \<longleftrightarrow> distinct (map tx_id (tl_trades s)) \<and> (\<forall>r\<in>set (tl_trades s). bound_row r)
     \<and> (\<forall>r\<in>set (tl_trades s). \<forall>q\<in>set (tl_trades s). same_ref r q \<longrightarrow> r = q)
     \<and> tl_origins s = map (\<lambda>r. (tx_tenant r, tx_id r)) (tl_trades s) \<and> length (tl_events s) = length (tl_trades s)
     \<and> distinct (tl_sources s) \<and> set (tl_sources s) = tx_tenant ` set (tl_trades s)"

lemma bind_again: "bind_numeric prec scale d = Some x \<Longrightarrow> bind_numeric prec scale x = Some x"
proof -
  assume b: "bind_numeric prec scale d = Some x"
  then obtain q where x: "x = Fin q (- int scale)" and q: "\<not> 10 ^ prec \<le> \<bar>q\<bar>"
    by (cases d) (auto simp: Let_def split: if_splits)
  then show ?thesis by (simp add: rescale_half_up_def)
qed

lemma bind_negated: "bind_numeric prec scale x = Some x \<Longrightarrow> bind_numeric prec scale (negated x) = Some (negated x)"
proof -
  assume b: "bind_numeric prec scale x = Some x"
  then obtain q where x: "x = Fin q (- int scale)" and q: "\<not> 10 ^ prec \<le> \<bar>q\<bar>"
    by (cases x) (auto simp: Let_def split: if_splits)
  then show ?thesis by (simp add: rescale_half_up_def)
qed

lemma bind_opt_again: "bind_opt prec scale d = Some x \<Longrightarrow> bind_opt prec scale x = Some x"
  by (auto simp: bind_opt_def intro: bind_again split: option.splits)

lemma bind_opt_negated: "bind_opt prec scale x = Some x \<Longrightarrow> bind_opt prec scale (map_option negated x) = Some (map_option negated x)"
  by (auto simp: bind_opt_def intro: bind_negated split: option.splits)

lemma insert_trade_Inr:
  assumes "insert_trade r rows = Inr (rows', r')"
  shows "rows' = rows @ [r'] \<and> bound_row r' \<and> tx_id r' \<notin> tx_id ` set rows \<and> \<not> (\<exists>q\<in>set rows. same_ref r' q)
    \<and> tx_id r' = tx_id r \<and> tx_tenant r' = tx_tenant r"
proof -
  obtain q p g where b: "bind_numeric 28 8 (tx_quantity r) = Some q" "bind_opt 20 6 (tx_price r) = Some p" "bind_opt 20 6 (tx_gross r) = Some g"
    using assms by (auto simp: insert_trade_def split: option.splits)
  let ?r = "r\<lparr>tx_quantity := q, tx_price := p, tx_gross := g\<rparr>"
  have ok: "bound_row ?r"
    using bind_again[OF b(1)] bind_opt_again[OF b(2)] bind_opt_again[OF b(3)] by (simp add: bound_row_def)
  have "insert_trade r rows =
     (if tx_id r \<in> tx_id ` set rows then Inl (TradeIntegrity ''id'')
      else if tx_external_ref r \<noteq> None \<and> list_ex (\<lambda>x. tx_tenant x = tx_tenant r \<and> tx_external_ref x = tx_external_ref r) rows
      then Inl (TradeIntegrity ''external_ref'') else Inr (rows @ [?r], ?r))"
    by (simp add: insert_trade_def b Let_def)
  then have "rows' = rows @ [?r]" "r' = ?r" "tx_id r \<notin> tx_id ` set rows"
    and "\<not> (tx_external_ref r \<noteq> None \<and> list_ex (\<lambda>x. tx_tenant x = tx_tenant r \<and> tx_external_ref x = tx_external_ref r) rows)"
    using assms by (simp_all split: if_splits)
  moreover have "same_ref ?r x \<longleftrightarrow> tx_tenant r = tx_tenant x \<and> tx_external_ref r = tx_external_ref x \<and> tx_external_ref r \<noteq> None" for x
    by (simp add: same_ref_def)
  ultimately have "\<not> (\<exists>x\<in>set rows. same_ref r' x)" unfolding list_ex_iff by metis
  then show ?thesis using ok \<open>rows' = rows @ [?r]\<close> \<open>r' = ?r\<close> \<open>tx_id r \<notin> tx_id ` set rows\<close> by simp
qed

lemma emit_trade_fields [simp]:
  "tl_trades (emit_trade ev r now s) = tl_trades s" "tl_books (emit_trade ev r now s) = tl_books s"
  "tl_origins (emit_trade ev r now s) = tl_origins s @ [(tx_tenant r, tx_id r)]"
  "tl_events (emit_trade ev r now s) = tl_events s @ [(ev, now)]"
  "tl_sources (emit_trade ev r now s) = tl_sources (ensure_manual_source (tx_tenant r) s)"
  by (simp_all add: emit_trade_def ensure_manual_source_def Let_def)

text \<open>Both operations post one row.\<close>

lemma posted_log_ok:
  assumes "log_ok s" "insert_trade r (tl_trades s) = Inr (rows, r')"
  shows "log_ok (emit_trade ev r' now (s\<lparr>tl_trades := rows\<rparr>))"
proof -
  note I = insert_trade_Inr[OF assms(2)]
  have rows: "rows = tl_trades s @ [r']" using I by blast
  have sym: "same_ref x y \<Longrightarrow> same_ref y x" for x y unfolding same_ref_def by metis
  have refs: "\<forall>x\<in>set rows. \<forall>y\<in>set rows. same_ref x y \<longrightarrow> x = y"
  proof (intro ballI impI)
    fix x y assume xy: "x \<in> set rows" "y \<in> set rows" "same_ref x y"
    then consider "x \<in> set (tl_trades s)" "y \<in> set (tl_trades s)" | "x = r'" "y = r'"
      | "x = r'" "y \<in> set (tl_trades s)" | "y = r'" "x \<in> set (tl_trades s)"
      unfolding rows by auto
    then show "x = y"
      by cases (use assms(1) xy(3) I sym[OF xy(3)] in \<open>unfold log_ok_def, blast+\<close>)
  qed
  have src: "distinct (tl_sources (ensure_manual_source t s)) \<and> set (tl_sources (ensure_manual_source t s)) = insert t (set (tl_sources s))" for t
    using assms(1) by (auto simp: ensure_manual_source_def log_ok_def)
  have same: "tl_sources (ensure_manual_source t (s\<lparr>tl_trades := rows\<rparr>)) = tl_sources (ensure_manual_source t s)" for t
    by (simp add: ensure_manual_source_def)
  have "distinct (map tx_id rows)" "\<forall>x\<in>set rows. bound_row x"
    using assms(1) I unfolding rows log_ok_def by auto
  then show ?thesis using assms(1) refs src by (simp add: log_ok_def same[unfolded rows] rows)
qed

lemma trade_exec_posts:
  assumes "trade_exec now nid op s = Some s'"
  obtains r rows r' ev where "insert_trade r (tl_trades s) = Inr (rows, r')" "s' = emit_trade ev r' now (s\<lparr>tl_trades := rows\<rparr>)" "tx_id r = nid"
proof -
  obtain t top where op: "op = (t, top)" by (cases op)
  show thesis
    using assms that unfolding op
    by (cases top) (auto simp: committed_Some bindR_Inr record_transaction_def reverse_transaction_def reversal_row_def split: sum.splits)
qed

lemma run_log_ok: "log_ok s \<Longrightarrow> log_ok (run_ops trade_exec ops s)"
proof (induction ops arbitrary: s)
  case (Cons step ops)
  obtain now nid op where "step = (now, nid, op)" by (cases step)
  then show ?case using Cons by (auto split: option.split elim!: trade_exec_posts intro: posted_log_ok)
qed simp

lemma run_appends: "\<exists>rows. tl_trades (run_ops trade_exec ops s) = tl_trades s @ rows"
proof (induction ops arbitrary: s)
  case (Cons step ops)
  obtain now nid op where step: "step = (now, nid, op)" by (cases step)
  show ?case
  proof (cases "trade_exec now nid op s")
    case (Some s')
    then obtain r' where "tl_trades s' = tl_trades s @ [r']" by (auto elim!: trade_exec_posts dest!: insert_trade_Inr)
    then show ?thesis using Cons.IH[of s'] Some by (auto simp: step)
  qed (use Cons.IH[of s] in \<open>simp add: step\<close>)
qed simp

definition empty_trade_log :: "books \<Rightarrow> trade_log" where
  "empty_trade_log bk = \<lparr>tl_books = bk, tl_trades = [], tl_sources = [], tl_origins = [], tl_events = []\<rparr>"

lemma empty_log_ok: "log_ok (empty_trade_log bk)"
  by (simp add: log_ok_def empty_trade_log_def)

section \<open>Properties\<close>

text \<open>
  The trade log is append-only and posts once: whatever records and reversals ran, a tenant has at most one row per
  external reference, every row has its own id, its lineage edge to the tenant's one MANUAL source and its event, the stored
  numbers are at the scale of their columns, and whatever runs afterwards only appends.
\<close>
lemma trade_log_posts_once:
  assumes "s = run_ops trade_exec ops (empty_trade_log bk)"
  shows "(\<forall>r\<in>set (tl_trades s). \<forall>q\<in>set (tl_trades s).
        tx_tenant r = tx_tenant q \<and> tx_external_ref r = tx_external_ref q \<and> tx_external_ref r \<noteq> None \<longrightarrow> r = q)
    \<and> distinct (map tx_id (tl_trades s))
    \<and> tl_origins s = map (\<lambda>r. (tx_tenant r, tx_id r)) (tl_trades s) \<and> length (tl_events s) = length (tl_trades s)
    \<and> distinct (tl_sources s) \<and> set (tl_sources s) = tx_tenant ` set (tl_trades s)
    \<and> (\<forall>r\<in>set (tl_trades s). bind_numeric 28 8 (tx_quantity r) = Some (tx_quantity r))
    \<and> (\<exists>rows. tl_trades (run_ops trade_exec later s) = tl_trades s @ rows)"
  using run_log_ok[OF empty_log_ok, of ops bk] run_appends[of later s]
  unfolding assms log_ok_def same_ref_def bound_row_def by blast

definition net_quantity :: "trade_log \<Rightarrow> string \<Rightarrow> string \<Rightarrow> string \<Rightarrow> rat" where
  "net_quantity s t p i = (\<Sum>r\<leftarrow>filter (\<lambda>r. tx_tenant r = t \<and> tx_portfolio r = p \<and> tx_instrument r = i) (tl_trades s). dec_val (tx_quantity r))"

lemma negated_val [simp]: "dec_val (negated d) = - dec_val d"
  by (cases d) simp_all

lemma resolve_own:
  assumes "log_ok s" "r \<in> set (tl_trades s)"
  shows "resolve_transaction s (tx_id r) (tx_tenant r) = Inr r"
proof -
  obtain xs ys where split: "tl_trades s = xs @ r # ys" using assms(2) by (meson split_list)
  have "distinct (map tx_id (xs @ r # ys))" using assms(1) unfolding log_ok_def split by blast
  moreover have "filter (\<lambda>q. tx_id q = tx_id r \<and> tx_tenant q = tx_tenant r) zs = []" if "tx_id r \<notin> tx_id ` set zs" for zs :: "trade list"
    using that by (auto simp: filter_empty_conv image_iff)
  ultimately have "filter (\<lambda>q. tx_id q = tx_id r \<and> tx_tenant q = tx_tenant r) (xs @ r # ys) = [r]" by simp
  then show ?thesis by (simp add: resolve_transaction_def split)
qed

lemma reversal_posts:
  assumes "log_ok s" "r \<in> set (tl_trades s)" "nid \<notin> tx_id ` set (tl_trades s)"
  shows "\<exists>s' x. reverse_transaction r date reason None descr nid now s = Inr (s', x) \<and> log_ok s'
    \<and> tl_trades s' = tl_trades s @ [x] \<and> tx_id x = nid
    \<and> net_quantity s' (tx_tenant r) (tx_portfolio r) (tx_instrument r)
      = net_quantity s (tx_tenant r) (tx_portfolio r) (tx_instrument r) - dec_val (tx_quantity r)"
proof -
  let ?x = "reversal_row r date None descr nid now"
  have "bound_row r" using assms(1,2) by (simp add: log_ok_def)
  then have ins: "insert_trade ?x (tl_trades s) = Inr (tl_trades s @ [?x], ?x)"
    using assms(3) bind_negated[of 28 8 "tx_quantity r"] bind_opt_negated[of 20 6 "tx_gross r"]
    by (simp add: insert_trade_def reversal_row_def bound_row_def Let_def)
  have "log_ok (emit_trade (TransactionReversed ?x reason) ?x now (s\<lparr>tl_trades := tl_trades s @ [?x]\<rparr>))"
    by (rule posted_log_ok[OF assms(1) ins])
  then show ?thesis
    by (intro exI[of _ "emit_trade (TransactionReversed ?x reason) ?x now (s\<lparr>tl_trades := tl_trades s @ [?x]\<rparr>)"] exI[of _ ?x])
      (simp add: reverse_transaction_def ins, simp add: net_quantity_def reversal_row_def)
qed

text \<open>
  C33. Nothing stops a second reversal of the same transaction: whatever ran before, reversing a row (with a reversal that gives no external
  reference, so that no idempotency key is involved) takes exactly its quantity off the net quantity of its holding, and
  reversing the same row once more in the same way, again accepted, takes it off a second time, so that the net is then
  wrong by the whole quantity. (Capital calls and distributions refuse this; a trade does not.)
\<close>
theorem second_reversal_overcorrects:
  assumes "s = run_ops trade_exec ops (empty_trade_log bk)" "r \<in> set (tl_trades s)"
    and "nid1 \<notin> tx_id ` set (tl_trades s)" "nid2 \<notin> tx_id ` set (tl_trades s)" "nid1 \<noteq> nid2"
  shows "\<exists>s1 x1 s2 x2. resolve_transaction s (tx_id r) (tx_tenant r) = Inr r
    \<and> reverse_transaction r date1 reason1 None descr1 nid1 now1 s = Inr (s1, x1)
    \<and> net_quantity s1 (tx_tenant r) (tx_portfolio r) (tx_instrument r)
      = net_quantity s (tx_tenant r) (tx_portfolio r) (tx_instrument r) - dec_val (tx_quantity r)
    \<and> resolve_transaction s1 (tx_id r) (tx_tenant r) = Inr r
    \<and> reverse_transaction r date2 reason2 None descr2 nid2 now2 s1 = Inr (s2, x2)
    \<and> net_quantity s2 (tx_tenant r) (tx_portfolio r) (tx_instrument r)
      = net_quantity s (tx_tenant r) (tx_portfolio r) (tx_instrument r) - 2 * dec_val (tx_quantity r)"
proof -
  have ok: "log_ok s" unfolding assms(1) by (rule run_log_ok[OF empty_log_ok])
  obtain s1 x1 where 1: "reverse_transaction r date1 reason1 None descr1 nid1 now1 s = Inr (s1, x1)" "log_ok s1"
    "tl_trades s1 = tl_trades s @ [x1]" "tx_id x1 = nid1"
    "net_quantity s1 (tx_tenant r) (tx_portfolio r) (tx_instrument r)
      = net_quantity s (tx_tenant r) (tx_portfolio r) (tx_instrument r) - dec_val (tx_quantity r)"
    using reversal_posts[OF ok assms(2,3)] by blast
  have r1: "r \<in> set (tl_trades s1)" "nid2 \<notin> tx_id ` set (tl_trades s1)" using 1(3,4) assms(2,4,5) by auto
  obtain s2 x2 where 2: "reverse_transaction r date2 reason2 None descr2 nid2 now2 s1 = Inr (s2, x2)"
    "net_quantity s2 (tx_tenant r) (tx_portfolio r) (tx_instrument r)
      = net_quantity s1 (tx_tenant r) (tx_portfolio r) (tx_instrument r) - dec_val (tx_quantity r)"
    using reversal_posts[OF 1(2) r1] by blast
  show ?thesis
    using resolve_own[OF ok assms(2)] resolve_own[OF 1(2) r1(1)] 1(1,5) 2
    by (intro exI[of _ s1] exI[of _ x1] exI[of _ s2] exI[of _ x2]) simp
qed

section \<open>A purchase of 10\<close>

definition sample_trade_ops :: "(pydatetime \<times> string \<times> string \<times> trade_op) list" where
  "sample_trade_ops =
     [(Naive 10, ''x1'', ''t'', RecordTrade ''p'' ''i'' ''BUY'' 5 (Fin 10 0) None (Some (Fin 995 (-1))) None None (Some ''ref'') None),
      (Naive 20, ''x2'', ''t'', RecordTrade ''p'' ''i'' ''BUY'' 5 (Fin 10 0) None None None None (Some ''ref'') None),
      (Naive 30, ''x3'', ''t'', RecordTrade ''p'' ''unknown'' ''BUY'' 5 (Fin 10 0) None None None None None None)]"

definition sample_trades :: trade_log where
  "sample_trades = run_ops trade_exec sample_trade_ops (empty_trade_log sample_bk0)"

lemma sample_trades_rows:
  "map tx_id (tl_trades sample_trades) = [''x1'']" "map tx_quantity (tl_trades sample_trades) = [Fin 1000000000 (-8)]"
  by code_simp+

lemma trade_log_posts_once_witness:
  "map tx_id (tl_trades sample_trades) = [''x1''] \<and> length (tl_origins sample_trades) = 1 \<and> length (tl_sources sample_trades) \<le> 1"
proof -
  have len: "length (tl_trades sample_trades) = 1" using arg_cong[OF sample_trades_rows(1), of length] by simp
  then obtain r where r: "tl_trades sample_trades = [r]" by (auto simp: length_Suc_conv)
  from trade_log_posts_once[OF sample_trades_def, of "[]"]
  have P: "tl_origins sample_trades = map (\<lambda>r. (tx_tenant r, tx_id r)) (tl_trades sample_trades)"
    "distinct (tl_sources sample_trades)" "set (tl_sources sample_trades) = tx_tenant ` set (tl_trades sample_trades)" by auto
  then have "length (tl_sources sample_trades) = card {tx_tenant r}" using distinct_card[OF P(2)] by (simp add: r)
  then show ?thesis using P(1) sample_trades_rows(1) len by simp
qed

theorem second_reversal_overcorrects_witness:
  "\<exists>r s1 x1 s2 x2. tl_trades sample_trades = [r] \<and> dec_val (tx_quantity r) = 10
    \<and> reverse_transaction r None None None None ''y1'' (Naive 40) sample_trades = Inr (s1, x1)
    \<and> reverse_transaction r None None None None ''y2'' (Naive 50) s1 = Inr (s2, x2)
    \<and> net_quantity s2 (tx_tenant r) (tx_portfolio r) (tx_instrument r) = -10"
proof -
  have "length (tl_trades sample_trades) = 1" using arg_cong[OF sample_trades_rows(1), of length] by simp
  then obtain r where r: "tl_trades sample_trades = [r]" by (auto simp: length_Suc_conv)
  have q: "dec_val (tx_quantity r) = 10" "tx_id r = ''x1''" using sample_trades_rows by (simp_all add: r pow10_def)
  have net: "net_quantity sample_trades (tx_tenant r) (tx_portfolio r) (tx_instrument r) = 10" by (simp add: net_quantity_def r q)
  from second_reversal_overcorrects[OF sample_trades_def, of r "''y1''" "''y2''" None None None "Naive 40" None None None "Naive 50"]
  show ?thesis using r q net by auto
qed

end
