(* ===== verification/Holdings_View.thy ===== *)
theory Holdings_View
  imports Captured_Holdings "HOL-Library.Product_Lexorder" "HOL-Library.List_Lexorder" "HOL-Library.Char_ord" "HOL-Library.Multiset"
begin

text \<open>
  The as-of holdings (\<open>holdings/service.py\<close>), a read composed of the hierarchy, the positions and, for display, the
  valuations. It writes nothing.
\<close>

section \<open>Rows\<close>

record holding_row =
  hr_position :: string
  hr_portfolio :: string
  hr_instrument :: string
  hr_quantity :: field_value
  hr_unit :: field_value
  hr_cost :: field_value
  hr_source :: field_value
  hr_mapping :: "string option"
  hr_valid_from :: pydatetime
  hr_valid_to :: "pydatetime option"
  hr_system_from :: pydatetime
  hr_system_to :: "pydatetime option"
  hr_version :: int

record mark_view =
  mv_valuation :: string
  mv_date :: int
  mv_value :: field_value
  mv_currency :: field_value
  mv_source :: field_value
  mv_basis :: field_value

datatype holdings_error =
    HoldingsPortfolio pf_error
  | HoldingsRead "valuation_key fr_error"

definition holding_of :: "position_key version \<Rightarrow> holding_row" where
  "holding_of r = \<lparr>hr_position = v_id r, hr_portfolio = fst (v_key r), hr_instrument = snd (v_key r),
     hr_quantity = row_get (v_content r) ''quantity'', hr_unit = row_get (v_content r) ''quantity_unit'',
     hr_cost = row_get (v_content r) ''cost_basis'', hr_source = row_get (v_content r) ''position_source'',
     hr_mapping = mapping_version r, hr_valid_from = valid_from r, hr_valid_to = valid_to r,
     hr_system_from = system_from r, hr_system_to = system_to r, hr_version = record_version r\<rparr>"

definition mark_of :: "valuation_key version \<Rightarrow> mark_view" where
  "mark_of r = \<lparr>mv_valuation = v_id r, mv_date = snd (snd (v_key r)), mv_value = row_get (v_content r) ''mark_value'',
     mv_currency = row_get (v_content r) ''currency_code'', mv_source = row_get (v_content r) ''mark_source'',
     mv_basis = row_get (v_content r) ''price_basis''\<rparr>"

section \<open>Reads\<close>

definition holdings_query :: "books \<Rightarrow> string \<Rightarrow> string list \<Rightarrow> pydatetime \<Rightarrow> pydatetime \<Rightarrow> position_key version list" where
  "holdings_query bk t ps valid_at known = sort_key v_key (filter (\<lambda>r. v_tenant r = t \<and> fst (v_key r) \<in> set ps
     \<and> covers_valid r (utc_of valid_at) \<and> covers_known r (utc_of known)) (versions (bk_positions bk)))"

definition reconstruct_holdings_as_of ::
  "books \<Rightarrow> string \<Rightarrow> string \<Rightarrow> pydatetime \<Rightarrow> pydatetime option \<Rightarrow> pydatetime \<Rightarrow> holding_row list" where
  "reconstruct_holdings_as_of bk t p valid_at known_at now =
     map holding_of (holdings_query bk t [p] valid_at (case known_at of None \<Rightarrow> now | Some k \<Rightarrow> k))"

definition reconstruct_subtree_holdings_as_of ::
  "books \<Rightarrow> string \<Rightarrow> string \<Rightarrow> pydatetime \<Rightarrow> pydatetime option \<Rightarrow> pydatetime \<Rightarrow> pf_error + holding_row list" where
  "reconstruct_subtree_holdings_as_of bk t p valid_at known_at now =
     bindR (resolve_portfolio (bk_portfolios bk) p t) (\<lambda>node.
     bindR (resolve_descendants (bk_portfolios bk) node t) (\<lambda>ds.
     Inr (map holding_of (holdings_query bk t (pf_id node # map pf_id ds) valid_at
       (case known_at of None \<Rightarrow> now | Some k \<Rightarrow> k)))))"

fun attach_marks_as_of ::
  "books \<Rightarrow> string \<Rightarrow> int \<Rightarrow> pydatetime \<Rightarrow> pydatetime option \<Rightarrow> pydatetime \<Rightarrow> holding_row list
    \<Rightarrow> valuation_key fr_error + (holding_row \<times> mark_view option) list" where
  "attach_marks_as_of bk t d valid_at known_at now [] = Inr []"
| "attach_marks_as_of bk t d valid_at known_at now (h # hs) =
     bindR (reconstruct_valuation_as_of bk t (hr_portfolio h) (hr_instrument h) d valid_at known_at now) (\<lambda>mark.
     bindR (attach_marks_as_of bk t d valid_at known_at now hs) (\<lambda>rest. Inr ((h, map_option mark_of mark) # rest)))"

section \<open>What a read returns\<close>

lemma set_query:
  "set (holdings_query bk t ps valid_at known) = {r \<in> set (versions (bk_positions bk)). v_tenant r = t \<and> fst (v_key r) \<in> set ps
     \<and> covers_valid r (utc_of valid_at) \<and> covers_known r (utc_of known)}"
  by (simp add: holdings_query_def)

lemma query_hits:
  assumes "fr_wf clock (bk_positions bk)"
  shows "r \<in> set (holdings_query bk t ps valid_at known) \<longleftrightarrow>
     (\<exists>p i. p \<in> set ps \<and> v_key r = (p, i) \<and> hits (versions (bk_positions bk)) t (p, i) (utc_of known) (utc_of valid_at) = [r])"
    and "distinct (map v_key (holdings_query bk t ps valid_at known))"
proof -
  let ?vs = "versions (bk_positions bk)" and ?q = "holdings_query bk t ps valid_at known"
  have one: "length (hits ?vs t k s v) \<le> 1" for k s v using assms unfolding fr_wf_def by blast
  have in_hits: "r \<in> set ?q \<longleftrightarrow> fst (v_key r) \<in> set ps \<and> r \<in> set (hits ?vs t (v_key r) (utc_of known) (utc_of valid_at))" for r
    by (auto simp: holdings_query_def hits_def)
  have single: "r \<in> set (hits ?vs t k s v) \<longleftrightarrow> hits ?vs t k s v = [r]" for r k s v
    using one[of k s v] by (cases "hits ?vs t k s v") auto
  show "r \<in> set ?q \<longleftrightarrow> (\<exists>p i. p \<in> set ps \<and> v_key r = (p, i) \<and> hits ?vs t (p, i) (utc_of known) (utc_of valid_at) = [r])"
    unfolding in_hits single by (metis prod.collapse fst_conv)
  have "distinct ?vs" using assms unfolding fr_wf_def distinct_map by blast
  then have "distinct ?q" by (simp add: holdings_query_def)
  moreover have "inj_on v_key (set ?q)"
  proof (rule inj_onI)
    fix r q assume "r \<in> set ?q" "q \<in> set ?q" "v_key r = v_key q"
    then show "r = q" unfolding in_hits single by (metis list.inject)
  qed
  ultimately show "distinct (map v_key ?q)" by (simp add: distinct_map)
qed

definition subtree :: "portfolio_db \<Rightarrow> string \<Rightarrow> string set" where
  "subtree pdb p = {x. (x, p) \<in> (parent_rel (pf_nodes pdb))\<^sup>*}"

lemma subtree_ids:
  assumes "forest pdb" "resolve_portfolio pdb p t = Inr node" "resolve_descendants pdb node t = Inr ds"
  shows "insert (pf_id node) (pf_id ` set ds) = subtree pdb p"
proof -
  have d: "distinct (map pf_id (pf_nodes pdb))" using assms(1) by (simp add: forest_def)
  have n: "node \<in> set (pf_nodes pdb)" "pf_id node = p" "pf_tenant node = t"
    using assms(2) visible_node_iff[OF d] by (auto simp: resolve_portfolio_def split: option.splits)
  have "pf_id ` set ds = {x. (x, p) \<in> (parent_rel (pf_nodes pdb))\<^sup>+}"
    using resolve_descendants_forest[OF assms(1) n(1)] assms(3) n(2,3) by simp
  then show ?thesis unfolding subtree_def n(2) by (auto simp: rtrancl_eq_or_trancl)
qed

lemma scalar_one_or_none_member: "scalar_one_or_none xs = Inr (Some x) \<Longrightarrow> x \<in> set xs"
  by (cases xs rule: scalar_one_or_none.cases) simp_all

text \<open>What the row of a version says, and what a mark says of the view of a valuation.\<close>

definition says_version :: "position_key version list \<Rightarrow> holding_row \<Rightarrow> content \<Rightarrow> bool" where
  "says_version vs h c \<longleftrightarrow> hr_quantity h = row_get c ''quantity'' \<and> hr_unit h = row_get c ''quantity_unit'' \<and>
     hr_cost h = row_get c ''cost_basis'' \<and> hr_source h = row_get c ''position_source'' \<and>
     (\<exists>r\<in>set vs. v_id r = hr_position h \<and> v_content r = c \<and> v_key r = (hr_portfolio h, hr_instrument h) \<and>
        hr_mapping h = mapping_version r \<and> hr_valid_from h = valid_from r \<and> hr_valid_to h = valid_to r \<and>
        hr_system_from h = system_from r \<and> hr_system_to h = system_to r \<and> hr_version h = record_version r)"

fun mark_of_view :: "int \<Rightarrow> (string \<times> content) option \<Rightarrow> mark_view option" where
  "mark_of_view d None = None"
| "mark_of_view d (Some (vid, c)) = Some \<lparr>mv_valuation = vid, mv_date = d, mv_value = row_get c ''mark_value'',
     mv_currency = row_get c ''currency_code'', mv_source = row_get c ''mark_source'', mv_basis = row_get c ''price_basis''\<rparr>"

lemma subtree_read:
  assumes "forest pdb" "resolve_portfolio pdb p t = Inr node"
  shows "case resolve_descendants pdb node t of Inr ds \<Rightarrow> insert (pf_id node) (pf_id ` set ds) = subtree pdb p
    | Inl e \<Rightarrow> e = HierarchyCycle p \<and> (\<exists>x. (x, p) \<in> parent_rel (pf_nodes pdb) ^^ max_hierarchy_depth)"
proof -
  have d: "distinct (map pf_id (pf_nodes pdb))" using assms(1) by (simp add: forest_def)
  have n: "node \<in> set (pf_nodes pdb)" "pf_id node = p" "pf_tenant node = t"
    using assms(2) visible_node_iff[OF d] by (auto simp: resolve_portfolio_def split: option.splits)
  show ?thesis
    using resolve_descendants_forest[OF assms(1) n(1)] subtree_ids[OF assms] unfolding n(2,3)
    by (cases "resolve_descendants pdb node t") auto
qed

lemma reconstruct_key:
  "reconstruct_as_of db t k valid_at known_at now = Inr (Some r) \<Longrightarrow> v_key r = k"
  by (auto simp: reconstruct_as_of_def Let_def dest!: scalar_one_or_none_member)

lemma mark_reads_view:
  assumes "fr_wf clock (bk_valuations bk)"
  shows "\<exists>row. reconstruct_valuation_as_of bk t q i d valid_at known_at now = Inr row \<and>
    map_option mark_of row = mark_of_view d
      (as_of_view (bk_valuations bk) t (q, i, d) (utc_of (case known_at of None \<Rightarrow> now | Some k \<Rightarrow> k)) (utc_of valid_at))"
proof -
  obtain row where row: "reconstruct_as_of (bk_valuations bk) t (q, i, d) valid_at known_at now = Inr row"
      "map_option (\<lambda>r. (v_id r, v_content r)) row = as_of_view (bk_valuations bk) t (q, i, d)
        (utc_of (case known_at of None \<Rightarrow> now | Some k \<Rightarrow> k)) (utc_of valid_at)"
    using reconstruct_reads_view[OF assms] by blast
  have "v_key r = (q, i, d)" if "row = Some r" for r
    using reconstruct_key[OF row(1)[unfolded that]] .
  then have "map_option mark_of row = mark_of_view d (map_option (\<lambda>r. (v_id r, v_content r)) row)"
    by (cases row) (simp_all add: mark_of_def)
  then show ?thesis using row by (auto simp: reconstruct_valuation_as_of_def)
qed

lemma attach_marks_reads_view:
  assumes "fr_wf clock (bk_valuations bk)"
  shows "\<exists>ms. attach_marks_as_of bk t d valid_at known_at now xs = Inr ms \<and> map fst ms = xs \<and>
    (\<forall>(h, m)\<in>set ms. m = mark_of_view d (as_of_view (bk_valuations bk) t (hr_portfolio h, hr_instrument h, d)
       (utc_of (case known_at of None \<Rightarrow> now | Some k \<Rightarrow> k)) (utc_of valid_at)))"
proof (induction xs)
  case (Cons h xs)
  obtain row where "reconstruct_valuation_as_of bk t (hr_portfolio h) (hr_instrument h) d valid_at known_at now = Inr row"
    "map_option mark_of row = mark_of_view d (as_of_view (bk_valuations bk) t (hr_portfolio h, hr_instrument h, d)
       (utc_of (case known_at of None \<Rightarrow> now | Some k \<Rightarrow> k)) (utc_of valid_at))"
    using mark_reads_view[OF assms] by blast
  then show ?case using Cons by auto
qed simp

lemma holding_says:
  assumes "r \<in> set vs"
  shows "says_version vs (holding_of r) (v_content r)"
  unfolding says_version_def by (intro conjI bexI[OF _ assms]) (simp_all add: holding_of_def)

text \<open>
  C34. A subtree read lists exactly what the as-of view says, for a tenant's hierarchy that is a forest and well-formed tables of
  positions and valuations. It raises only for a portfolio that is not the tenant's, or when the tree below the portfolio
  reaches the depth cap. Otherwise it returns, in the order of portfolio and instrument, one row for every holding of the
  portfolio or of a portfolio below it that the view has at these instants, and no other: with the view's version,
  the quantity, unit, cost and source of the view's content, and the windows, mapping and number of that version; the
  rows of a subtree are those of its nodes, none lost and none listed twice; and attaching marks always returns, keeps
  the rows and puts beside each the valuation, value, currency, source and basis of the valuations' view, or no mark
  where that view has none.
\<close>
theorem subtree_holdings_are_the_view:
  fixes bk :: books and t :: string and valid_at now :: pydatetime and known_at :: "pydatetime option" and clock :: int
  defines "view \<equiv> \<lambda>k. as_of_view (bk_positions bk) t k (utc_of (case known_at of None \<Rightarrow> now | Some k \<Rightarrow> k)) (utc_of valid_at)"
    and "marks \<equiv> \<lambda>k. as_of_view (bk_valuations bk) t k (utc_of (case known_at of None \<Rightarrow> now | Some k \<Rightarrow> k)) (utc_of valid_at)"
  assumes "fr_wf clock (bk_positions bk)" "fr_wf clock (bk_valuations bk)" "forest (bk_portfolios bk)"
  shows "case reconstruct_subtree_holdings_as_of bk t p valid_at known_at now of
      Inl e \<Rightarrow> e = PortfolioNotVisible p \<and> visible_node (bk_portfolios bk) p t = None
        \<or> e = HierarchyCycle p \<and> (\<exists>x. (x, p) \<in> parent_rel (pf_nodes (bk_portfolios bk)) ^^ max_hierarchy_depth)
    | Inr hs \<Rightarrow> sorted (map (\<lambda>h. (hr_portfolio h, hr_instrument h)) hs)
      \<and> distinct (map (\<lambda>h. (hr_portfolio h, hr_instrument h)) hs)
      \<and> (\<forall>q i. (\<exists>h\<in>set hs. hr_portfolio h = q \<and> hr_instrument h = i) \<longleftrightarrow> q \<in> subtree (bk_portfolios bk) p \<and> view (q, i) \<noteq> None)
      \<and> (\<forall>h\<in>set hs. \<exists>c. view (hr_portfolio h, hr_instrument h) = Some (hr_position h, c)
            \<and> says_version (versions (bk_positions bk)) h c)
      \<and> set hs = (\<Union>q\<in>subtree (bk_portfolios bk) p. set (reconstruct_holdings_as_of bk t q valid_at known_at now))
      \<and> (\<exists>ms. attach_marks_as_of bk t d valid_at known_at now hs = Inr ms \<and> map fst ms = hs \<and>
          (\<forall>(h, m)\<in>set ms. m = mark_of_view d (marks (hr_portfolio h, hr_instrument h, d))))"
proof (cases "reconstruct_subtree_holdings_as_of bk t p valid_at known_at now")
  case (Inl e)
  have "visible_node (bk_portfolios bk) p t = None \<and> e = PortfolioNotVisible p \<or>
      (\<exists>node. resolve_portfolio (bk_portfolios bk) p t = Inr node \<and> resolve_descendants (bk_portfolios bk) node t = Inl e)"
    using Inl unfolding reconstruct_subtree_holdings_as_of_def resolve_portfolio_def
    by (cases "visible_node (bk_portfolios bk) p t"; cases "resolve_descendants (bk_portfolios bk) (the (visible_node (bk_portfolios bk) p t)) t") simp_all
  then show ?thesis using subtree_read[OF assms(5), of p t] Inl by fastforce
next
  case (Inr hs)
  let ?k = "case known_at of None \<Rightarrow> now | Some k \<Rightarrow> k"
  let ?Q = "\<lambda>ps. holdings_query bk t ps valid_at ?k"
  obtain node ds where nd: "resolve_portfolio (bk_portfolios bk) p t = Inr node" "resolve_descendants (bk_portfolios bk) node t = Inr ds"
    "hs = map holding_of (?Q (pf_id node # map pf_id ds))"
    using Inr by (auto simp: reconstruct_subtree_holdings_as_of_def bindR_Inr)
  define ps where "ps = pf_id node # map pf_id ds"
  have ps: "set ps = subtree (bk_portfolios bk) p" using subtree_ids[OF assms(5) nd(1,2)] by (simp add: ps_def)
  have hs: "hs = map holding_of (?Q ps)" using nd(3) by (simp add: ps_def)
  note q = query_hits[OF assms(3)]
  have key: "(hr_portfolio (holding_of r), hr_instrument (holding_of r)) = v_key r" for r by (simp add: holding_of_def)
  have "map (\<lambda>h. (hr_portfolio h, hr_instrument h)) hs = map v_key (?Q ps)" unfolding hs by (simp add: key)
  then have 1: "distinct (map (\<lambda>h. (hr_portfolio h, hr_instrument h)) hs)" using q(2) by simp
  have 0: "sorted (map (\<lambda>h. (hr_portfolio h, hr_instrument h)) hs)"
    unfolding hs by (simp add: key comp_def holdings_query_def)
  have one: "length (hits (versions (bk_positions bk)) t k s v) \<le> 1" for k s v using assms(3) unfolding fr_wf_def by blast
  have some: "view k \<noteq> None \<longleftrightarrow> (\<exists>r. hits (versions (bk_positions bk)) t k (utc_of ?k) (utc_of valid_at) = [r])" for k
    using one[of k "utc_of ?k" "utc_of valid_at"] unfolding view_def as_of_view_def
    by (cases "hits (versions (bk_positions bk)) t k (utc_of ?k) (utc_of valid_at)") auto
  have hit_key: "v_key r = k" if "hits (versions (bk_positions bk)) t k s v = [r]" for r k s v
  proof -
    have "r \<in> set (hits (versions (bk_positions bk)) t k s v)" using that by simp
    then show ?thesis by (simp add: hits_def)
  qed
  have 2: "(\<exists>h\<in>set hs. hr_portfolio h = x \<and> hr_instrument h = i) \<longleftrightarrow> x \<in> subtree (bk_portfolios bk) p \<and> view (x, i) \<noteq> None" for x i
  proof
    assume "\<exists>h\<in>set hs. hr_portfolio h = x \<and> hr_instrument h = i"
    then obtain r where r: "r \<in> set (?Q ps)" "v_key r = (x, i)" unfolding hs by (auto simp: holding_of_def)
    then show "x \<in> subtree (bk_portfolios bk) p \<and> view (x, i) \<noteq> None" unfolding q(1) some ps[symmetric] by auto
  next
    assume "x \<in> subtree (bk_portfolios bk) p \<and> view (x, i) \<noteq> None"
    then obtain r where r: "x \<in> set ps" "hits (versions (bk_positions bk)) t (x, i) (utc_of ?k) (utc_of valid_at) = [r]"
      unfolding some ps[symmetric] by blast
    then have "r \<in> set (?Q ps)" "v_key r = (x, i)" unfolding q(1) using hit_key[OF r(2)] by blast+
    then show "\<exists>h\<in>set hs. hr_portfolio h = x \<and> hr_instrument h = i" unfolding hs by (force simp: holding_of_def)
  qed
  have 3: "\<exists>c. view (hr_portfolio h, hr_instrument h) = Some (hr_position h, c)
      \<and> says_version (versions (bk_positions bk)) h c" if h: "h \<in> set hs" for h
  proof -
    obtain r where r: "r \<in> set (?Q ps)" "h = holding_of r" using h unfolding hs by auto
    then have "view (v_key r) = Some (v_id r, v_content r)"
      by (auto simp: q(1) view_def as_of_view_def)
    moreover have "(hr_portfolio h, hr_instrument h) = v_key r" "hr_position h = v_id r" by (simp_all add: r(2) holding_of_def)
    moreover have "r \<in> set (versions (bk_positions bk))" using r(1) by (simp add: set_query)
    ultimately show ?thesis using holding_says[of r] r(2) by auto
  qed
  have 4: "set hs = (\<Union>x\<in>subtree (bk_portfolios bk) p. set (reconstruct_holdings_as_of bk t x valid_at known_at now))"
  proof -
    have "set (?Q ps) = (\<Union>x\<in>set ps. set (?Q [x]))" unfolding set_query by auto
    then show ?thesis unfolding hs ps[symmetric] reconstruct_holdings_as_of_def by (simp add: image_UN)
  qed
  have 5: "\<exists>ms. attach_marks_as_of bk t d valid_at known_at now hs = Inr ms \<and> map fst ms = hs \<and>
      (\<forall>(h, m)\<in>set ms. m = mark_of_view d (marks (hr_portfolio h, hr_instrument h, d)))"
    unfolding marks_def by (rule attach_marks_reads_view[OF assms(4)])
  show ?thesis using Inr 0 1 2 3 4 5 by simp
qed

section \<open>A fund below a firm\<close>

definition fund_books0 :: books where
  "fund_books0 = empty_books (pf_run sample_ops) [\<lparr>ins_id = ''i'', ins_tenant = ''T'', ins_code = ''XS1''\<rparr>]"

definition fund_book_ops :: "(pydatetime \<times> string \<times> string \<times> book_op) list" where
  "fund_book_ops =
     [(Naive 10, ''v1'', ''T'', CreatePosition ''p2'' ''i'' (Fin 100 0) None None None None None),
      (Naive 20, ''v2'', ''T'', CreatePosition ''p1'' ''i'' (Fin 50 0) None None None None None),
      (Naive 30, ''m1'', ''T'', CreateValuation ''p2'' ''i'' 7 (Fin 99 0) None None None None)]"

definition fund_books :: books where
  "fund_books = run_ops book_exec fund_book_ops fund_books0"

lemma fund_books_wf: "\<exists>c. fr_wf c (bk_positions fund_books) \<and> fr_wf c (bk_valuations fund_books)"
proof -
  have o: "orderly book_exec book_reopens 0 fund_book_ops fund_books0" by code_simp
  obtain c1 where 1: "fr_wf c1 (bk_positions fund_books)"
    using pos.run_wf[OF empty_books_wf(1) o[unfolded fund_books0_def]] by (auto simp: fund_books_def fund_books0_def)
  obtain c2 where 2: "fr_wf c2 (bk_valuations fund_books)"
    using val.run_wf[OF empty_books_wf(2) o[unfolded fund_books0_def]] by (auto simp: fund_books_def fund_books0_def)
  show ?thesis using fr_wf_later[OF 1, of "max c1 c2"] fr_wf_later[OF 2, of "max c1 c2"] by auto
qed

lemma fund_portfolios: "bk_portfolios fund_books = pf_run sample_ops"
  by code_simp

lemma fund_read:
  "isOk (reconstruct_subtree_holdings_as_of fund_books ''T'' ''p1'' (Naive 40) (Some (Naive 40)) (Naive 40))"
  "case reconstruct_subtree_holdings_as_of fund_books ''T'' ''p1'' (Naive 40) (Some (Naive 40)) (Naive 40) of
     Inl _ \<Rightarrow> False | Inr hs \<Rightarrow> map hr_position hs = [''v2'', ''v1'']"
  by code_simp+

theorem subtree_holdings_are_the_view_witness:
  "\<exists>hs ms. reconstruct_subtree_holdings_as_of fund_books ''T'' ''p1'' (Naive 40) (Some (Naive 40)) (Naive 40) = Inr hs
    \<and> map hr_position hs = [''v2'', ''v1''] \<and> attach_marks_as_of fund_books ''T'' 7 (Naive 40) (Some (Naive 40)) (Naive 40) hs = Inr ms
    \<and> map fst ms = hs"
proof -
  obtain hs where hs: "reconstruct_subtree_holdings_as_of fund_books ''T'' ''p1'' (Naive 40) (Some (Naive 40)) (Naive 40) = Inr hs"
      "map hr_position hs = [''v2'', ''v1'']"
    using fund_read(2) by (auto split: sum.splits)
  obtain c where wf: "fr_wf c (bk_positions fund_books)" "fr_wf c (bk_valuations fund_books)" using fund_books_wf by blast
  have "forest (bk_portfolios fund_books)" unfolding fund_portfolios by (rule forest_run)
  note facts = subtree_holdings_are_the_view[OF wf this, of "''p1''" "''T''" "Naive 40" "Some (Naive 40)" "Naive 40" 7,
      unfolded hs(1) sum.case]
  from facts[THEN conjunct2, THEN conjunct2, THEN conjunct2, THEN conjunct2, THEN conjunct2]
  obtain ms where "attach_marks_as_of fund_books ''T'' 7 (Naive 40) (Some (Naive 40)) (Naive 40) hs = Inr ms" "map fst ms = hs"
    by (elim exE conjE)
  then show ?thesis using hs by (intro exI[of _ hs] exI[of _ ms] conjI)
qed

end
