(* ===== verification/Pacing_Kernel.thy ===== *)
theory Pacing_Kernel
  imports Decimal_Ctx Calendar
begin

text \<open>
  The commitment-pacing projection (\<open>pacing/pacing_kernel.py\<close>): the Takahashi-Alexander recursion over declared parameters and
  an anchor, in a context of 50 digits, every period quantized to six places before the next is rolled from it. \<open>x ** b\<close> of the decimal
  library is the parameter \<open>pw\<close>: all the theorems use of it is that a fraction to a positive power stays a fraction.
\<close>

section \<open>Data\<close>

record pacing_params =
  rc_schedule :: "decimal list"
  fund_life :: int
  bow :: decimal
  growth :: decimal
  yield_floor :: decimal

record pacing_anchor =
  current_age :: int
  an_unfunded :: decimal
  an_nav :: decimal

record pacing_period =
  period_index :: int
  projected_call :: rat
  projected_distribution :: rat
  projected_nav :: rat
  unfunded_end :: rat

section \<open>Anniversaries\<close>

text \<open>\<open>date.replace\<close> raises on a date that does not exist, also on a year past 9999.\<close>

definition replace_date :: "int \<Rightarrow> int \<Rightarrow> int \<Rightarrow> date option" where
  "replace_date y m d = (if y \<le> 9999 \<and> valid_date (Date y m d) then Some (Date y m d) else None)"

definition nth_anniversary :: "date \<Rightarrow> int \<Rightarrow> date option" where
  "nth_anniversary v n =
     (case replace_date (year v + n) (month v) (day v) of
        Some d \<Rightarrow> Some d
      | None \<Rightarrow> replace_date (year v + n) (month v) 28)"

definition anniversary_window :: "date \<Rightarrow> int \<Rightarrow> (date \<times> date) option" where
  "anniversary_window v age =
     (case (nth_anniversary v (age - 1), nth_anniversary v age) of
        (Some a, Some b) \<Rightarrow> Some (a, b) | _ \<Rightarrow> None)"

section \<open>Domains\<close>

definition in_unit :: "decimal \<Rightarrow> bool" where
  "in_unit d \<longleftrightarrow> is_finite d \<and> \<not> dec_val d < 0 \<and> \<not> 1 < dec_val d"

definition validate_pacing :: "pacing_params \<Rightarrow> pacing_anchor \<Rightarrow> string + unit" where
  "validate_pacing ps an =
     (if fund_life ps < 1 then Inl ''FUND_LIFE_DOMAIN''
      else if rc_schedule ps = [] then Inl ''RC_SCHEDULE_EMPTY''
      else if fund_life ps < int (length (rc_schedule ps)) then Inl ''RC_SCHEDULE_LENGTH''
      else if \<not> list_all in_unit (rc_schedule ps) then Inl ''RC_RATE_DOMAIN''
      else if \<not> is_finite (bow ps) \<or> dec_val (bow ps) \<le> 0 then Inl ''BOW_DOMAIN''
      else if \<not> is_finite (growth ps) \<or> dec_val (growth ps) \<le> -1 then Inl ''GROWTH_DOMAIN''
      else if \<not> in_unit (yield_floor ps) then Inl ''YIELD_DOMAIN''
      else if current_age an < 0 then Inl ''AGE_DOMAIN''
      else if \<not> is_finite (an_unfunded an) \<or> dec_val (an_unfunded an) < 0 then Inl ''ANCHOR_DOMAIN''
      else if \<not> is_finite (an_nav an) \<or> dec_val (an_nav an) < 0 then Inl ''ANCHOR_DOMAIN''
      else Inr ())"

section \<open>The recursion\<close>

definition rc_for_age :: "decimal list \<Rightarrow> int \<Rightarrow> decimal" where
  "rc_for_age rcs age = rcs ! nat (min age (int (length rcs)) - 1)"

definition money :: "rat \<Rightarrow> rat option" where
  "money x = quantize 50 6 x"

definition magnitude_ceiling :: rat where "magnitude_ceiling = 10 ^ 30"

definition beyond_ceiling :: "pacing_period \<Rightarrow> bool" where
  "beyond_ceiling p \<longleftrightarrow> magnitude_ceiling < \<bar>projected_call p\<bar> \<or> magnitude_ceiling < \<bar>projected_distribution p\<bar>
     \<or> magnitude_ceiling < \<bar>projected_nav p\<bar> \<or> magnitude_ceiling < \<bar>unfunded_end p\<bar>"

definition gross_growth :: "pacing_params \<Rightarrow> rat" where
  "gross_growth ps = dadd 50 1 (dec_val (growth ps))"

definition distribution_rate :: "(rat \<Rightarrow> rat \<Rightarrow> rat) \<Rightarrow> pacing_params \<Rightarrow> int \<Rightarrow> rat" where
  "distribution_rate pw ps t =
     (let f = pw (ddiv 50 (of_int t) (of_int (fund_life ps))) (dec_val (bow ps))
      in if f < dec_val (yield_floor ps) then dec_val (yield_floor ps) else f)"

text \<open>One period from the unfunded amount and the value before it; no value stands for \<open>InvalidOperation\<close>.\<close>

definition pacing_step :: "(rat \<Rightarrow> rat \<Rightarrow> rat) \<Rightarrow> pacing_params \<Rightarrow> int \<Rightarrow> rat \<Rightarrow> rat \<Rightarrow> pacing_period option" where
  "pacing_step pw ps t unfunded nav =
     (case money (dmul 50 (dec_val (rc_for_age (rc_schedule ps) t)) unfunded) of None \<Rightarrow> None | Some call \<Rightarrow>
      let grown = dmul 50 nav (gross_growth ps) in
      case money (dmul 50 (distribution_rate pw ps t) grown) of None \<Rightarrow> None | Some paid \<Rightarrow>
      case money (dsub 50 (dadd 50 grown call) paid) of None \<Rightarrow> None | Some nav' \<Rightarrow>
      case money (dsub 50 unfunded call) of None \<Rightarrow> None | Some rest \<Rightarrow>
      Some \<lparr>period_index = t, projected_call = call, projected_distribution = paid, projected_nav = nav', unfunded_end = rest\<rparr>)"

fun project_from ::
  "(rat \<Rightarrow> rat \<Rightarrow> rat) \<Rightarrow> pacing_params \<Rightarrow> int list \<Rightarrow> rat \<Rightarrow> rat \<Rightarrow> string + pacing_period list" where
  "project_from pw ps [] unfunded nav = Inr []"
| "project_from pw ps (t # ts) unfunded nav =
     (case pacing_step pw ps t unfunded nav of
        None \<Rightarrow> Inl ''InvalidOperation''
      | Some p \<Rightarrow> if beyond_ceiling p then Inr [p]
          else bindR (project_from pw ps ts (unfunded_end p) (projected_nav p)) (\<lambda>rest. Inr (p # rest)))"

definition project_commitment ::
  "(rat \<Rightarrow> rat \<Rightarrow> rat) \<Rightarrow> pacing_params \<Rightarrow> pacing_anchor \<Rightarrow> string + pacing_period list" where
  "project_commitment pw ps an =
     bindR (validate_pacing ps an) (\<lambda>_.
       project_from pw ps [current_age an + 1 .. fund_life ps] (dec_val (an_unfunded an)) (dec_val (an_nav an)))"

section \<open>Bounds of one period\<close>

text \<open>
  What the registration's patterns let through (\<open>pacing/bootstrap.py\<close>): at most twelve places and four digits before the point; and what
  the money columns hold.
\<close>

definition bindable :: "pacing_params \<Rightarrow> bool" where
  "bindable ps \<longleftrightarrow> at_scale 12 (dec_val (growth ps)) \<and> dec_val (growth ps) < 10 ^ 4"

definition money_held :: "rat \<Rightarrow> bool" where
  "money_held x \<longleftrightarrow> at_scale 6 x \<and> \<bar>x\<bar> \<le> magnitude_ceiling"

text \<open>A fraction to a positive power is a fraction.\<close>

definition fraction_power :: "(rat \<Rightarrow> rat \<Rightarrow> rat) \<Rightarrow> bool" where
  "fraction_power pw \<longleftrightarrow> (\<forall>x b. 0 < x \<longrightarrow> x \<le> 1 \<longrightarrow> 0 < b \<longrightarrow> 0 \<le> pw x b \<and> pw x b \<le> 1) \<and> (\<forall>b. 0 < b \<longrightarrow> pw 1 b = 1)"

lemma rnd_abs: "\<bar>x\<bar> \<le> b \<Longrightarrow> fits 50 b \<Longrightarrow> \<bar>rnd 50 x\<bar> \<le> b"
  using ctx50.below[of x b] ctx50.below[of "- x" b] by (simp add: rnd_minus abs_le_iff)

lemma fits_int: "\<bar>c\<bar> < 10 ^ 50 \<Longrightarrow> fits 50 (of_int c)"
proof -
  assume c: "\<bar>c\<bar> < 10 ^ 50"
  then have "(of_int \<bar>c\<bar> :: rat) < of_int (10 ^ 50)" by (simp only: of_int_less_iff)
  then show ?thesis by (intro fits_at[of 0]) simp_all
qed

lemma money_total: "\<bar>x\<bar> \<le> 10 ^ 43 \<Longrightarrow> money x = Some (quantized 6 x)"
  unfolding money_def by (rule quantize_fits) simp

lemma quantized_abs: "\<bar>x\<bar> \<le> b \<Longrightarrow> at_scale s b \<Longrightarrow> \<bar>quantized s x\<bar> \<le> b"
  using quantized_le[of x b s] quantized_ge[of "- b" x s] by (simp add: abs_le_iff)

text \<open>Validated parameters, as rationals.\<close>

lemma validated:
  assumes "validate_pacing ps an = Inr ()"
  shows "1 \<le> fund_life ps" "0 < dec_val (bow ps)" "-1 < dec_val (growth ps)" "0 \<le> dec_val (yield_floor ps)" "dec_val (yield_floor ps) \<le> 1"
    "0 \<le> current_age an" "0 \<le> dec_val (an_unfunded an)" "0 \<le> dec_val (an_nav an)" "rc_schedule ps \<noteq> []" "list_all in_unit (rc_schedule ps)"
  using assms by (auto simp: validate_pacing_def in_unit_def split: if_splits)

lemma rc_unit:
  assumes "validate_pacing ps an = Inr ()" "1 \<le> t"
  shows "0 \<le> dec_val (rc_for_age (rc_schedule ps) t) \<and> dec_val (rc_for_age (rc_schedule ps) t) \<le> 1"
proof -
  have "rc_schedule ps \<noteq> []" and all: "list_all in_unit (rc_schedule ps)" using validated[OF assms(1)] by blast+
  then have "nat (min t (int (length (rc_schedule ps))) - 1) < length (rc_schedule ps)"
    using assms(2) by (cases "rc_schedule ps") auto
  then have "in_unit (rc_for_age (rc_schedule ps) t)" using all by (simp add: rc_for_age_def list_all_length)
  then show ?thesis by (simp add: in_unit_def)
qed

lemma rate_unit:
  assumes v: "validate_pacing ps an = Inr ()" and t: "1 \<le> t" "t \<le> fund_life ps" and pw: "fraction_power pw"
  shows "0 \<le> distribution_rate pw ps t \<and> distribution_rate pw ps t \<le> 1"
    and "t = fund_life ps \<Longrightarrow> distribution_rate pw ps t = 1"
proof -
  define x where "x = ddiv 50 (of_int t) (of_int (fund_life ps))"
  have q: "0 < (of_int t / of_int (fund_life ps) :: rat)" "(of_int t / of_int (fund_life ps) :: rat) \<le> 1"
    using t validated(1)[OF v] by (simp_all add: divide_le_eq)
  have one: "fits 50 1" using fits_int[of 1] by simp
  have "pow10 (magnitude (of_int t / of_int (fund_life ps)) - 1) \<le> x"
    using rnd_bounds[OF q(1), of 50] by (simp add: x_def ddiv_def)
  then have x: "0 < x" "x \<le> 1"
    using pow10_pos[of "magnitude (of_int t / of_int (fund_life ps)) - 1"] ctx50.below[OF q(2) one]
    by (linarith, simp add: x_def ddiv_def)
  have b: "0 < dec_val (bow ps)" "0 \<le> dec_val (yield_floor ps)" "dec_val (yield_floor ps) \<le> 1" using validated[OF v] by blast+
  have p: "0 \<le> pw x (dec_val (bow ps))" "pw x (dec_val (bow ps)) \<le> 1" using pw x b(1) by (auto simp: fraction_power_def)
  show "0 \<le> distribution_rate pw ps t \<and> distribution_rate pw ps t \<le> 1"
    using p b by (simp add: distribution_rate_def x_def[symmetric] Let_def)
  show "distribution_rate pw ps t = 1" if "t = fund_life ps"
  proof -
    have "x = 1" using that validated(1)[OF v] ctx50.exact[OF one] by (simp add: x_def ddiv_def)
    then have "pw x (dec_val (bow ps)) = 1" using pw b(1) by (simp add: fraction_power_def)
    then show ?thesis using b by (simp add: distribution_rate_def x_def[symmetric] Let_def)
  qed
qed

lemma gross_exact:
  assumes "validate_pacing ps an = Inr ()" "bindable ps"
  shows "gross_growth ps = 1 + dec_val (growth ps)" "0 < gross_growth ps" "gross_growth ps < 10001" "at_scale 12 (gross_growth ps)"
proof -
  have g: "-1 < dec_val (growth ps)" "dec_val (growth ps) < 10 ^ 4" "at_scale 12 (dec_val (growth ps))"
    using validated(3)[OF assms(1)] assms(2) by (auto simp: bindable_def)
  have sc: "at_scale 12 (1 + dec_val (growth ps))" using g(3) by auto
  have "\<bar>1 + dec_val (growth ps)\<bar> * 10 ^ 12 < 10 ^ 50" using g by simp
  then show "gross_growth ps = 1 + dec_val (growth ps)" unfolding gross_growth_def dadd_def using sc rnd_exact by blast
  then show "0 < gross_growth ps" "gross_growth ps < 10001" "at_scale 12 (gross_growth ps)" using g sc by simp_all
qed

text \<open>What a period owes the state before it.\<close>

definition period_ok :: "pacing_params \<Rightarrow> rat \<Rightarrow> rat \<Rightarrow> pacing_period \<Rightarrow> bool" where
  "period_ok ps unfunded nav p \<longleftrightarrow>
     0 \<le> projected_call p \<and> projected_call p \<le> unfunded \<and> unfunded_end p = unfunded - projected_call p \<and>
     (\<bar>nav\<bar> \<le> 10 ^ 22 \<longrightarrow>
        projected_nav p = quantized 6 (nav * (1 + dec_val (growth ps)) + projected_call p - projected_distribution p) \<and>
        (period_index p = fund_life ps \<longrightarrow> \<bar>projected_nav p - projected_call p\<bar> \<le> 1 / 10 ^ 6) \<and>
        (0 \<le> nav \<longrightarrow> 0 \<le> projected_distribution p \<and>
           projected_distribution p \<le> quantized 6 (nav * (1 + dec_val (growth ps))) \<and> - 1 / 10 ^ 6 \<le> projected_nav p))"

lemma step_shape:
  assumes v: "validate_pacing ps an = Inr ()" "bindable ps" and t: "1 \<le> t" "t \<le> fund_life ps" and pw: "fraction_power pw"
    and u: "at_scale 6 u" "0 \<le> u" "u \<le> 10 ^ 22" and n: "\<bar>nav\<bar> \<le> magnitude_ceiling"
  defines "grown \<equiv> dmul 50 nav (gross_growth ps)"
    and "call \<equiv> quantized 6 (dmul 50 (dec_val (rc_for_age (rc_schedule ps) t)) u)"
  defines "paid \<equiv> quantized 6 (dmul 50 (distribution_rate pw ps t) grown)"
  shows "pacing_step pw ps t u nav = Some \<lparr>period_index = t, projected_call = call, projected_distribution = paid,
      projected_nav = quantized 6 (dsub 50 (dadd 50 grown call) paid), unfunded_end = u - call\<rparr>"
    and "0 \<le> call" "call \<le> u" "at_scale 6 call"
proof -
  define rc rd where "rc = dec_val (rc_for_age (rc_schedule ps) t)" and "rd = distribution_rate pw ps t"
  have rc: "0 \<le> rc" "rc \<le> 1" using rc_unit[OF v(1) t(1)] by (simp_all add: rc_def)
  have rd: "0 \<le> rd" "rd \<le> 1" using rate_unit(1)[OF v(1) t pw] by (simp_all add: rd_def)
  have ru: "0 \<le> rc * u" "rc * u \<le> u" using rc u(2) mult_right_mono[of rc 1 u] by simp_all
  have "u * 10 ^ 6 < 10 ^ 50" using u(3) by simp
  then have fu: "fits 50 u" using u(1,2) by (intro fits_at[of 6]) simp_all
  have z: "fits 50 0" using fits_int[of 0] by simp
  have rr: "0 \<le> rnd 50 (rc * u)" "rnd 50 (rc * u) \<le> u" using ctx50.above[OF ru(1) z] ctx50.below[OF ru(2) fu] by simp_all
  have call: "call = quantized 6 (rnd 50 (rc * u))" by (simp add: call_def dmul_def rc_def)
  show c: "0 \<le> call" "call \<le> u" "at_scale 6 call"
    unfolding call using quantized_nonneg[OF rr(1)] quantized_le[OF rr(2) u(1)] by simp_all
  have "\<bar>rnd 50 (rc * u)\<bar> \<le> 10 ^ 43" using rr u(3) by simp
  note m1 = money_total[OF this]
  have gb: "0 < gross_growth ps" "gross_growth ps < 10001" using gross_exact[OF v] by blast+
  have "\<bar>nav * gross_growth ps\<bar> \<le> magnitude_ceiling * 10001"
    unfolding abs_mult using n gb by (intro mult_mono) simp_all
  also have "\<dots> \<le> of_int (10 ^ 35)" by (simp add: magnitude_ceiling_def)
  finally have g: "\<bar>grown\<bar> \<le> 10 ^ 35" using rnd_abs[OF _ fits_int[of "10 ^ 35"]] by (simp add: grown_def dmul_def)
  have "\<bar>rd * grown\<bar> \<le> 1 * \<bar>grown\<bar>" unfolding abs_mult using rd by (intro mult_right_mono) simp_all
  then have d0: "\<bar>rnd 50 (rd * grown)\<bar> \<le> 10 ^ 35" using g rnd_abs[OF _ fits_int[of "10 ^ 35"], of "rd * grown"] by simp
  then have m2: "money (dmul 50 rd grown) = Some paid" using money_total[of "rnd 50 (rd * grown)"] by (simp add: paid_def dmul_def rd_def)
  have d: "\<bar>paid\<bar> \<le> 10 ^ 35"
    unfolding paid_def dmul_def rd_def[symmetric] using d0 at_scale_of_int[of 6 "10 ^ 35"] by (intro quantized_abs) simp_all
  have "\<bar>grown + call\<bar> \<le> 10 ^ 35 + 10 ^ 22" using g c u(3) abs_triangle_ineq[of grown call] by simp
  then have "\<bar>grown + call\<bar> \<le> of_int (10 ^ 36)" by simp
  then have a: "\<bar>dadd 50 grown call\<bar> \<le> 10 ^ 36" using rnd_abs[OF _ fits_int[of "10 ^ 36"]] by (simp add: dadd_def)
  then have "\<bar>dadd 50 grown call - paid\<bar> \<le> of_int (10 ^ 37)" using d abs_triangle_ineq4[of "dadd 50 grown call" paid] by simp
  then have "\<bar>dsub 50 (dadd 50 grown call) paid\<bar> \<le> 10 ^ 37" using rnd_abs[OF _ fits_int[of "10 ^ 37"]] by (simp add: dsub_def)
  then have m3: "money (dsub 50 (dadd 50 grown call) paid) = Some (quantized 6 (dsub 50 (dadd 50 grown call) paid))"
    by (intro money_total) simp
  have us: "at_scale 6 (u - call)" using u(1) c(3) by auto
  have "\<bar>u - call\<bar> * 10 ^ 6 < 10 ^ 50" using c u by simp
  then have "dsub 50 u call = u - call" unfolding dsub_def by (rule rnd_exact[OF us])
  then have m4: "money (dsub 50 u call) = Some (u - call)"
    using money_total[of "u - call"] quantized_exact[OF us] c u by simp
  show "pacing_step pw ps t u nav = Some \<lparr>period_index = t, projected_call = call, projected_distribution = paid,
      projected_nav = quantized 6 (dsub 50 (dadd 50 grown call) paid), unfunded_end = u - call\<rparr>"
    using m1 m2 m3 m4 by (simp add: pacing_step_def call grown_def[symmetric] rc_def[symmetric] rd_def[symmetric] Let_def dmul_def[of 50 rc])
qed

lemma exact_growth:
  assumes v: "validate_pacing ps an = Inr ()" "bindable ps" and n: "at_scale 6 nav" "\<bar>nav\<bar> \<le> 10 ^ 22"
  shows "dmul 50 nav (gross_growth ps) = nav * (1 + dec_val (growth ps))" "at_scale 18 (nav * (1 + dec_val (growth ps)))"
    "\<bar>nav * (1 + dec_val (growth ps))\<bar> \<le> 10 ^ 27"
proof -
  note g = gross_exact[OF v]
  show sc: "at_scale 18 (nav * (1 + dec_val (growth ps)))" using at_scale_mult[OF n(1) g(4)] g(1) by simp
  have "\<bar>nav * gross_growth ps\<bar> \<le> 10 ^ 22 * 10001" unfolding abs_mult using n(2) g(2,3) by (intro mult_mono) simp_all
  then show b: "\<bar>nav * (1 + dec_val (growth ps))\<bar> \<le> 10 ^ 27" using g(1) by simp
  have "\<bar>nav * (1 + dec_val (growth ps))\<bar> * 10 ^ 18 \<le> 10 ^ 27 * 10 ^ 18" using b by (rule mult_right_mono) simp
  also have "\<dots> < (10 ^ 50 :: rat)" by simp
  finally show "dmul 50 nav (gross_growth ps) = nav * (1 + dec_val (growth ps))"
    unfolding dmul_def g(1) by (rule rnd_exact[OF sc])
qed

lemma step_ok:
  assumes v: "validate_pacing ps an = Inr ()" "bindable ps" and t: "1 \<le> t" "t \<le> fund_life ps" and pw: "fraction_power pw"
    and u: "at_scale 6 u" "0 \<le> u" "u \<le> 10 ^ 22" and n: "at_scale 6 nav" "\<bar>nav\<bar> \<le> magnitude_ceiling"
  shows "\<exists>p. pacing_step pw ps t u nav = Some p \<and> period_index p = t \<and> period_ok ps u nav p \<and>
    at_scale 6 (projected_nav p) \<and> at_scale 6 (unfunded_end p) \<and> 0 \<le> unfunded_end p \<and> unfunded_end p \<le> 10 ^ 22"
proof -
  define call where "call = quantized 6 (dmul 50 (dec_val (rc_for_age (rc_schedule ps) t)) u)"
  define grown where "grown = dmul 50 nav (gross_growth ps)"
  define rd where "rd = distribution_rate pw ps t"
  define paid where "paid = quantized 6 (dmul 50 rd grown)"
  define nav' where "nav' = quantized 6 (dsub 50 (dadd 50 grown call) paid)"
  note st = step_shape[OF v t pw u n(2), folded call_def grown_def rd_def, folded paid_def, folded nav'_def]
  have rd: "0 \<le> rd" "rd \<le> 1" "t = fund_life ps \<Longrightarrow> rd = 1" using rate_unit[OF v(1) t pw] by (simp_all add: rd_def)
  have sm: "nav' = quantized 6 (grown + call - paid)" "grown = nav * (1 + dec_val (growth ps))" "fits 50 grown"
    if b: "\<bar>nav\<bar> \<le> 10 ^ 22"
  proof -
    note e = exact_growth[OF v n(1) b]
    show g: "grown = nav * (1 + dec_val (growth ps))" using e(1) by (simp add: grown_def)
    have gs: "at_scale 18 grown" "\<bar>grown\<bar> \<le> 10 ^ 27" using e g by simp_all
    show "fits 50 grown" using gs by (intro fits_at[OF gs(1)]) simp
    have "\<bar>rd * grown\<bar> \<le> 1 * \<bar>grown\<bar>" unfolding abs_mult using rd by (intro mult_right_mono) simp_all
    then have "\<bar>rnd 50 (rd * grown)\<bar> \<le> 10 ^ 27" using gs(2) rnd_abs[OF _ fits_int[of "10 ^ 27"], of "rd * grown"] by simp
    then have d: "\<bar>paid\<bar> \<le> 10 ^ 27" unfolding paid_def dmul_def using at_scale_of_int[of 6 "10 ^ 27"] by (intro quantized_abs) simp_all
    have sc: "at_scale 18 call" "at_scale 18 paid"
      using at_scale_up[of 6 _ 18] st(4) by (simp_all add: paid_def)
    then have sc2: "at_scale 18 (grown + call)" "at_scale 18 (grown + call - paid)" using gs(1) by auto
    have b2: "\<bar>grown + call\<bar> \<le> 10 ^ 28" using gs(2) st(2,3) u(3) abs_triangle_ineq[of grown call] by simp
    have b3: "\<bar>grown + call - paid\<bar> \<le> 10 ^ 29" using b2 d abs_triangle_ineq4[of "grown + call" paid] by simp
    have "dadd 50 grown call = grown + call" unfolding dadd_def using b2 by (intro rnd_exact[OF sc2(1)]) simp
    moreover have "dsub 50 (grown + call) paid = grown + call - paid" unfolding dsub_def using b3 by (intro rnd_exact[OF sc2(2)]) simp
    ultimately show "nav' = quantized 6 (grown + call - paid)" by (simp add: nav'_def)
  qed
  have last: "\<bar>nav' - call\<bar> \<le> 1 / 10 ^ 6" if b: "\<bar>nav\<bar> \<le> 10 ^ 22" "t = fund_life ps"
  proof -
    have "dmul 50 rd grown = grown" using rd(3)[OF b(2)] ctx50.exact[OF sm(3)[OF b(1)]] by (simp add: dmul_def)
    then have "\<bar>paid - grown\<bar> \<le> 1 / (2 * 10 ^ 6)" using quantized_error[of 6 grown] by (simp add: paid_def)
    moreover have "\<bar>nav' - (grown + call - paid)\<bar> \<le> 1 / (2 * 10 ^ 6)"
      using quantized_error[of 6 "grown + call - paid"] sm(1)[OF b(1)] by simp
    ultimately show ?thesis unfolding abs_le_iff by simp
  qed
  have pos: "0 \<le> paid" "paid \<le> quantized 6 grown" "- 1 / 10 ^ 6 \<le> nav'" if b: "\<bar>nav\<bar> \<le> 10 ^ 22" "0 \<le> nav"
  proof -
    have g0: "0 \<le> grown" using sm(2)[OF b(1)] b(2) validated(3)[OF v(1)] by simp
    have m: "0 \<le> rd * grown" "rd * grown \<le> grown" using rd g0 mult_right_mono[of rd 1 grown] by simp_all
    have r: "0 \<le> rnd 50 (rd * grown)" "rnd 50 (rd * grown) \<le> grown"
      using ctx50.above[OF m(1)] ctx50.below[OF m(2) sm(3)[OF b(1)]] fits_int[of 0] by simp_all
    show "0 \<le> paid" "paid \<le> quantized 6 grown" using quantized_nonneg[OF r(1)] quantized_mono[OF r(2)] by (simp_all add: paid_def dmul_def)
    moreover have "quantized 6 grown - grown \<le> 1 / (2 * 10 ^ 6)" using quantized_error[of 6 grown] by (rule abs_le_D1)
    ultimately have "- 1 / (2 * 10 ^ 6) \<le> grown + call - paid" using st(2) by simp
    then have "- 1 / 10 ^ 6 \<le> grown + call - paid" by simp
    moreover have "at_scale 6 (- 1 / 10 ^ 6 :: rat)" using at_scale_of_int[of 0 "- 1"] by (simp add: at_scale_def)
    ultimately show "- 1 / 10 ^ 6 \<le> nav'" unfolding sm(1)[OF b(1)] by (rule quantized_ge)
  qed
  have "period_ok ps u nav \<lparr>period_index = t, projected_call = call, projected_distribution = paid, projected_nav = nav', unfunded_end = u - call\<rparr>"
    using st sm(1,2) last pos unfolding period_ok_def by simp
  moreover have "at_scale 6 nav'" "at_scale 6 (u - call)" "0 \<le> u - call" "u - call \<le> 10 ^ 22"
    using st(2-4) u by (auto simp: nav'_def)
  ultimately show ?thesis using st(1) by auto
qed

section \<open>The whole projection\<close>

text \<open>Every period is owed to the one before it, and no period but the last is past the ceiling.\<close>

fun rolled :: "pacing_params \<Rightarrow> rat \<Rightarrow> rat \<Rightarrow> pacing_period list \<Rightarrow> bool" where
  "rolled ps u nav [] = True"
| "rolled ps u nav (p # rest) \<longleftrightarrow> period_ok ps u nav p \<and> (rest = [] \<or> \<not> beyond_ceiling p) \<and> rolled ps (unfunded_end p) (projected_nav p) rest"

lemma project_rolled:
  assumes v: "validate_pacing ps an = Inr ()" "bindable ps" and pw: "fraction_power pw"
    and ts: "\<forall>t\<in>set ts. 1 \<le> t \<and> t \<le> fund_life ps"
    and u: "at_scale 6 u" "0 \<le> u" "u \<le> 10 ^ 22" and n: "at_scale 6 nav" "\<bar>nav\<bar> \<le> magnitude_ceiling"
  shows "\<exists>rows. project_from pw ps ts u nav = Inr rows \<and> rolled ps u nav rows \<and> map period_index rows = take (length rows) ts \<and>
    (length rows < length ts \<longrightarrow> rows \<noteq> [] \<and> beyond_ceiling (last rows))"
  using ts u n
proof (induction ts arbitrary: u nav)
  case (Cons t ts)
  then have t: "1 \<le> t" "t \<le> fund_life ps" by simp_all
  obtain p where p: "pacing_step pw ps t u nav = Some p" "period_index p = t" "period_ok ps u nav p"
      "at_scale 6 (projected_nav p)" "at_scale 6 (unfunded_end p)" "0 \<le> unfunded_end p" "unfunded_end p \<le> 10 ^ 22"
    using step_ok[OF v t pw Cons.prems(2-6)] by blast
  show ?case
  proof (cases "beyond_ceiling p")
    case True
    then show ?thesis using p by auto
  next
    case False
    then have "\<bar>projected_nav p\<bar> \<le> magnitude_ceiling" by (simp add: beyond_ceiling_def)
    then obtain rows where "project_from pw ps ts (unfunded_end p) (projected_nav p) = Inr rows"
        "rolled ps (unfunded_end p) (projected_nav p) rows" "map period_index rows = take (length rows) ts"
        "length rows < length ts \<longrightarrow> rows \<noteq> [] \<and> beyond_ceiling (last rows)"
      using Cons.IH[OF _ p(5,6,7,4)] Cons.prems(1) by auto
    then show ?thesis using p False by auto
  qed
qed simp

lemma rolled_sum: "rolled ps u nav rows \<Longrightarrow> rows \<noteq> [] \<Longrightarrow> sum_list (map projected_call rows) + unfunded_end (last rows) = u"
proof (induction rows arbitrary: u nav)
  case (Cons p rows)
  have u: "unfunded_end p = u - projected_call p" using Cons.prems(1) by (simp add: period_ok_def)
  show ?case
  proof (cases "rows = []")
    case False
    have "rolled ps (unfunded_end p) (projected_nav p) rows" using Cons.prems(1) by simp
    from Cons.IH[OF this False] show ?thesis using u False by simp
  qed (use u in simp)
qed simp

lemma rolled_unfunded: "rolled ps u nav rows \<Longrightarrow> p \<in> set rows \<Longrightarrow> 0 \<le> projected_call p \<and> 0 \<le> unfunded_end p \<and> unfunded_end p \<le> u"
proof (induction rows arbitrary: u nav)
  case (Cons q rows)
  have q: "0 \<le> projected_call q" "0 \<le> unfunded_end q" "unfunded_end q \<le> u" using Cons.prems(1) by (auto simp: period_ok_def)
  show ?case
  proof (cases "p = q")
    case False
    then show ?thesis using Cons.IH[of "unfunded_end q" "projected_nav q"] Cons.prems q by fastforce
  qed (use q in simp)
qed simp

text \<open>
  The projection conserves the commitment and never breaks: for parameters that validate within the registered precision and an anchor the
  money columns hold, no arithmetic of any period overflows the context, however fast the declared growth compounds; the periods are the
  consecutive fund ages from the anchor's on, up to the fund's life unless a value passes the ceiling in the last one; every call is between
  zero and the unfunded amount before it, the calls and the last unfunded amount add up exactly to the anchor's, and each period rolls
  from the one before it: its value is the quantized grown value plus call minus distribution, no less than minus one quantum, and at
  the end of the fund's life all that remains is the period's own call, within a quantum.
\<close>

lemma projection_conserves:
  assumes "validate_pacing ps an = Inr ()" "bindable ps" "fraction_power pw"
    and "at_scale 6 (dec_val (an_unfunded an))" "dec_val (an_unfunded an) \<le> 10 ^ 22"
    and "at_scale 6 (dec_val (an_nav an))" "dec_val (an_nav an) \<le> 10 ^ 22"
  shows "\<exists>rows. project_commitment pw ps an = Inr rows
    \<and> map period_index rows = take (length rows) [current_age an + 1 .. fund_life ps]
    \<and> (length rows < nat (fund_life ps - current_age an) \<longrightarrow> rows \<noteq> [] \<and> beyond_ceiling (last rows))
    \<and> rolled ps (dec_val (an_unfunded an)) (dec_val (an_nav an)) rows
    \<and> (rows \<noteq> [] \<longrightarrow> sum_list (map projected_call rows) + unfunded_end (last rows) = dec_val (an_unfunded an))
    \<and> (\<forall>p\<in>set rows. 0 \<le> projected_call p \<and> 0 \<le> unfunded_end p \<and> unfunded_end p \<le> dec_val (an_unfunded an))"
proof -
  note v = validated[OF assms(1)]
  have n: "\<bar>dec_val (an_nav an)\<bar> \<le> magnitude_ceiling" using v(8) assms(7) by (simp add: magnitude_ceiling_def)
  have ts: "\<forall>t\<in>set [current_age an + 1 .. fund_life ps]. 1 \<le> t \<and> t \<le> fund_life ps" using v(6) by auto
  obtain rows where r: "project_from pw ps [current_age an + 1 .. fund_life ps] (dec_val (an_unfunded an)) (dec_val (an_nav an)) = Inr rows"
      "rolled ps (dec_val (an_unfunded an)) (dec_val (an_nav an)) rows"
      "map period_index rows = take (length rows) [current_age an + 1 .. fund_life ps]"
      "length rows < length [current_age an + 1 .. fund_life ps] \<longrightarrow> rows \<noteq> [] \<and> beyond_ceiling (last rows)"
    using project_rolled[OF assms(1,2,3) ts assms(4) v(7) assms(5,6) n] by blast
  then show ?thesis
    using rolled_sum[OF r(2)] rolled_unfunded[OF r(2)] assms(1) by (auto simp: project_commitment_def)
qed

section \<open>Sample\<close>

definition sample_power :: "rat \<Rightarrow> rat \<Rightarrow> rat" where
  "sample_power x b = (if b = 2 then x * x else x)"

lemma sample_power_fraction: "fraction_power sample_power"
  by (simp add: fraction_power_def sample_power_def mult_le_one)

text \<open>The rounding of the last distribution can leave a value below zero: one quantum of value grown by half of it.\<close>

lemma last_value_below_zero:
  "project_commitment sample_power \<lparr>rc_schedule = [Fin 0 0], fund_life = 1, bow = Fin 1 0, growth = Fin 5 (-1), yield_floor = Fin 0 0\<rparr>
     \<lparr>current_age = 0, an_unfunded = Fin 0 0, an_nav = Fin 1 (-6)\<rparr> =
   Inr [\<lparr>period_index = 1, projected_call = 0, projected_distribution = 2 / 10 ^ 6, projected_nav = - 1 / 10 ^ 6, unfunded_end = 0\<rparr>]"
  by code_simp

end
