(* ===== verification/Shares.thy ===== *)
theory Shares
  imports Decimal_Ctx
begin

text \<open>
  What the ratio kernels (concentration, liquidity) share: amounts at six places summed and divided in the default context of 28
  digits, results quantized to six places. Sums of captured amounts are exact; a ratio, a sum of ratios and a sum of squared ratios carry
  an error far below the quantum.
\<close>

definition q6 :: "rat \<Rightarrow> rat option" where
  "q6 x = quantize 28 6 x"

lemma those_map_Some: "(\<And>x. x \<in> set xs \<Longrightarrow> f x = Some (g x)) \<Longrightarrow> those (map f xs) = Some (map g xs)"
  by (induction xs) auto

lemma half_even_error: "\<bar>of_int (half_even x) - x\<bar> \<le> 1 / 2"
proof -
  define f where "f = \<lfloor>x\<rfloor>"
  have "of_int f \<le> x \<and> x < of_int f + 1" using floor_correct[of x] by (simp add: f_def)
  then show ?thesis by (auto simp: half_even_def Let_def f_def[symmetric] abs_le_iff)
qed

lemma rnd_error: "\<bar>rnd p x - x\<bar> \<le> pow10 (magnitude x - int p) / 2"
proof (cases "x = 0")
  case False
  define e where "e = magnitude x - int p"
  have "pow10 (- e) * pow10 e = 1" using pow10_add[of "- e" e] by (simp add: pow10_def[of 0])
  then have "rnd p x - x = (of_int (half_even (x * pow10 (- e))) - x * pow10 (- e)) * pow10 e"
    using False by (simp add: rnd_def Let_def e_def[symmetric] left_diff_distrib mult.assoc)
  then have "\<bar>rnd p x - x\<bar> = \<bar>of_int (half_even (x * pow10 (- e))) - x * pow10 (- e)\<bar> * pow10 e"
    using pow10_pos[of e] by (simp only: abs_mult abs_of_pos)
  also have "\<dots> \<le> 1 / 2 * pow10 e" using half_even_error by (intro mult_right_mono) (simp_all add: less_imp_le)
  finally show ?thesis by (simp add: e_def)
qed (simp add: less_imp_le)

text \<open>An absolute error for values up to ten.\<close>

definition eps :: rat where "eps = 1 / 10 ^ 27"

lemma rnd_small:
  assumes "\<bar>x\<bar> < 10"
  shows "\<bar>rnd 28 x - x\<bar> \<le> eps"
proof (cases "x = 0")
  case False
  then have "pow10 (magnitude x - 1) < pow10 1" using magnitude_bounds[of x] assms by (simp add: pow10_def[of 1])
  then have "magnitude x - int 28 \<le> - 27" by (simp add: pow10_less_iff)
  then have "pow10 (magnitude x - int 28) \<le> pow10 (- 27)" by (rule pow10_mono)
  then show ?thesis using rnd_error[of 28 x] by (simp add: eps_def pow10_def)
qed (simp add: eps_def)

lemma rnd28_nonneg: "0 \<le> x \<Longrightarrow> 0 \<le> rnd 28 x"
  using ctx28.above[of 0 x] fits_at[of 0 0 28] by simp

lemma rnd28_le_1: "x \<le> 1 \<Longrightarrow> rnd 28 x \<le> 1"
  using ctx28.below[of x 1] fits_at[of 0 1 28] by simp

text \<open>A running sum of nonnegative terms whose exact sum stays below ten, term by term within an error.\<close>

lemma dsum_from_error:
  assumes "0 \<le> a" "\<forall>x\<in>set xs. 0 \<le> x" "a + sum_list xs + of_nat (length xs) * eps < 10"
  shows "\<bar>foldl (dadd 28) a xs - (a + sum_list xs)\<bar> \<le> of_nat (length xs) * eps \<and> 0 \<le> foldl (dadd 28) a xs"
  using assms
proof (induction xs arbitrary: a)
  case (Cons x xs)
  have e0: "0 < eps" by (simp add: eps_def)
  have s: "0 \<le> sum_list xs" using Cons.prems(2) by (intro sum_list_nonneg) auto
  have ax: "0 \<le> a + x" using Cons.prems by simp
  have "0 \<le> of_nat (length xs) * eps" using e0 by simp
  moreover have "a + x + sum_list xs + (eps + of_nat (length xs) * eps) < 10"
    using Cons.prems(3) by (simp add: distrib_right add.assoc)
  ultimately have lt: "\<bar>a + x\<bar> < 10" using s ax e0 by linarith
  have r: "\<bar>dadd 28 a x - (a + x)\<bar> \<le> eps" unfolding dadd_def using rnd_small[OF lt] .
  have r0: "0 \<le> dadd 28 a x" unfolding dadd_def using ax by (rule rnd28_nonneg)
  have "dadd 28 a x + sum_list xs + of_nat (length xs) * eps < 10"
    using r Cons.prems(3) by (simp add: distrib_right abs_le_iff)
  then have "\<bar>foldl (dadd 28) (dadd 28 a x) xs - (dadd 28 a x + sum_list xs)\<bar> \<le> of_nat (length xs) * eps \<and>
      0 \<le> foldl (dadd 28) (dadd 28 a x) xs"
    using Cons.IH[OF r0] Cons.prems(2) by simp
  then show ?case using r by (simp add: distrib_right abs_le_iff)
qed simp

lemma dsum_error:
  "\<forall>x\<in>set xs. 0 \<le> x \<Longrightarrow> sum_list xs + of_nat (length xs) * eps < 10 \<Longrightarrow>
   \<bar>dsum 28 xs - sum_list xs\<bar> \<le> of_nat (length xs) * eps \<and> 0 \<le> dsum 28 xs"
  using dsum_from_error[of 0 xs] by (simp add: dsum_def)

section \<open>Amounts and their shares\<close>

lemma at_scale_numeral [simp]: "at_scale s (numeral n)"
  using at_scale_of_int[of s "numeral n"] by (simp del: at_scale_of_int)

text \<open>Amounts at six places whose absolute values together fit the context.\<close>

definition fits_book :: "rat list \<Rightarrow> bool" where
  "fits_book xs \<longleftrightarrow> (\<forall>x\<in>set xs. at_scale 6 x) \<and> sum_list (map abs xs) * 10 ^ 6 < 10 ^ 28"

lemma sum_list_filter_le: "\<forall>x\<in>set xs. 0 \<le> (f x :: rat) \<Longrightarrow> sum_list (map f (filter P xs)) \<le> sum_list (map f xs)"
  by (induction xs) auto

lemma sum_list_pos_le:
  fixes f g :: "'a \<Rightarrow> rat"
  shows "\<forall>x\<in>set xs. f x \<le> g x \<Longrightarrow> sum_list (map f xs) \<le> sum_list (map g xs)"
  by (rule sum_list_mono) auto

lemma fits_filter: "fits_book xs \<Longrightarrow> fits_book (filter P xs)"
proof -
  assume f: "fits_book xs"
  have "sum_list (map abs (filter P xs)) \<le> sum_list (map abs xs)" by (rule sum_list_filter_le) simp
  then have "sum_list (map abs (filter P xs)) * 10 ^ 6 \<le> sum_list (map abs xs) * 10 ^ 6" by (rule mult_right_mono) simp
  then show ?thesis using f by (auto simp: fits_book_def)
qed

lemma fits_abs: "fits_book xs \<Longrightarrow> fits_book (map abs xs)"
  by (auto simp: fits_book_def comp_def) (auto simp: abs_if)

lemma book_sum: "fits_book xs \<Longrightarrow> dsum 28 xs = sum_list xs"
  unfolding fits_book_def by (rule dsum_exact[of xs 6]) auto

lemma sum_abs_ge: "\<bar>sum_list xs\<bar> \<le> sum_list (map abs (xs :: rat list))"
  by (induction xs) (auto intro: abs_triangle_ineq order_trans add_left_mono)

lemma book_total:
  assumes "fits_book xs"
  shows "at_scale 6 (sum_list xs)" "\<bar>sum_list xs\<bar> * 10 ^ 6 < 10 ^ 28"
proof -
  show "at_scale 6 (sum_list xs)" using assms by (intro at_scale_sum_list) (auto simp: fits_book_def)
  have "\<bar>sum_list xs\<bar> * 10 ^ 6 \<le> sum_list (map abs xs) * 10 ^ 6" using sum_abs_ge by (rule mult_right_mono) simp
  then show "\<bar>sum_list xs\<bar> * 10 ^ 6 < 10 ^ 28" using assms by (simp add: fits_book_def)
qed

lemma q6_exact: "at_scale 6 x \<Longrightarrow> \<bar>x\<bar> * 10 ^ 6 < 10 ^ 28 \<Longrightarrow> q6 x = Some x"
proof -
  assume x: "at_scale 6 x" "\<bar>x\<bar> * 10 ^ 6 < 10 ^ 28"
  obtain c where c: "x * 10 ^ 6 = of_int c" using x(1) by (auto simp: at_scale_def Ints_def)
  have "\<bar>x * 10 ^ 6\<bar> < of_int (10 ^ 28)" using x(2) by (simp add: abs_mult)
  then have "\<bar>c\<bar> < 10 ^ 28" unfolding c of_int_abs[symmetric] by (simp only: of_int_less_iff)
  moreover have "half_up (x * 10 ^ 6) = c" unfolding c by (rule half_up_of_int)
  ultimately show ?thesis using quantized_exact[OF x(1)] by (simp add: q6_def quantize_def)
qed

lemma q6_small: "\<bar>x\<bar> \<le> 10 \<Longrightarrow> q6 x = Some (quantized 6 x)"
  unfolding q6_def by (rule quantize_fits) simp

text \<open>A share before and after quantization.\<close>

lemma raw_share:
  assumes "0 \<le> a" "a \<le> T" "0 < T"
  shows "0 \<le> ddiv 28 a T" "ddiv 28 a T \<le> 1" "\<bar>ddiv 28 a T - a / T\<bar> \<le> eps"
proof -
  have q: "0 \<le> a / T" "a / T \<le> 1" using assms by (simp_all add: divide_le_eq)
  then show "0 \<le> ddiv 28 a T" "ddiv 28 a T \<le> 1" unfolding ddiv_def using rnd28_nonneg rnd28_le_1 by blast+
  show "\<bar>ddiv 28 a T - a / T\<bar> \<le> eps" unfolding ddiv_def using q by (intro rnd_small) simp
qed

lemma stored_share:
  assumes "0 \<le> a" "a \<le> T" "0 < T"
  shows "q6 (ddiv 28 a T) = Some (quantized 6 (ddiv 28 a T))" "0 \<le> quantized 6 (ddiv 28 a T)" "quantized 6 (ddiv 28 a T) \<le> 1"
    "\<bar>quantized 6 (ddiv 28 a T) - a / T\<bar> \<le> 1 / 10 ^ 6"
proof -
  note r = raw_share[OF assms]
  show "q6 (ddiv 28 a T) = Some (quantized 6 (ddiv 28 a T))" using r by (intro q6_small) simp
  show "0 \<le> quantized 6 (ddiv 28 a T)" "quantized 6 (ddiv 28 a T) \<le> 1" using r quantized_nonneg quantized_le[of _ 1] by simp_all
  show "\<bar>quantized 6 (ddiv 28 a T) - a / T\<bar> \<le> 1 / 10 ^ 6"
    using abs_triangle_ineq[of "quantized 6 (ddiv 28 a T) - ddiv 28 a T" "ddiv 28 a T - a / T"]
      quantized_error[of 6 "ddiv 28 a T"] r(3) by (simp add: eps_def)
qed

end
