(* ===== verification/Governed_Run.thy ===== *)
theory Governed_Run
  imports Calc_Reads Dq
begin

text \<open>
  Governed calculation runs: the run record and its status (\<open>calc/service.py\<close>, \<open>calc/runs.py\<close>), the lineage writers
  (\<open>lineage/service.py\<close>) and the lifecycle every governed number shares (\<open>calc/scaffold.py\<close>): create, RUNNING, the
  edge from the snapshot, compute, the presence gate, and FAILED or the result rows with an edge each. The result table is a
  parameter: its rows have any type, and \<open>insert\<close> stores them or raises; the locale \<open>result_table\<close> says what it owes.
\<close>

section \<open>State\<close>

datatype run_state = Created | Running | Completed | Failed

fun state_text :: "run_state \<Rightarrow> string" where
  "state_text Created = ''CREATED''"
| "state_text Running = ''RUNNING''"
| "state_text Completed = ''COMPLETED''"
| "state_text Failed = ''FAILED''"

definition terminal_states :: "run_state list" where
  "terminal_states = [Completed, Failed]"

text \<open>The columns the reads join on come first (\<open>calc_run\<close>).\<close>

record governed_run = calc_run +
  gr_initiated_by :: string
  gr_snapshot :: "string option"
  gr_model_version :: "string option"
  gr_code_version :: "string option"
  gr_environment :: "string option"
  gr_completed_at :: "pydatetime option"
  gr_failure_reason :: "string option"

record lineage_edge =
  le_tenant :: string
  le_source_type :: string
  le_source :: string
  le_target_type :: string
  le_target :: string
  le_kind :: string
  le_run :: "string option"

datatype run_event =
    RunCreated string string string
  | RunStatusChanged string string string string string

record 'r run_db =
  rb_runs :: "governed_run list"
  rb_snapshots :: "(string \<times> string) list"
  rb_edges :: "lineage_edge list"
  rb_rows :: "'r list"
  rb_events :: "run_event list"
  rb_dq :: dq_db

datatype run_error =
    RunIntegrity | SnapshotNotVisible string | RunNotVisible string | RunRefused string | RunGate dq_error
  | ComputeRaised string | ResultIntegrity string

section \<open>The run record\<close>

definition create_run ::
  "string \<Rightarrow> string \<Rightarrow> string \<Rightarrow> string \<Rightarrow> string option \<Rightarrow> string option \<Rightarrow> string option \<Rightarrow> string option
     \<Rightarrow> string option \<Rightarrow> pydatetime \<Rightarrow> 'r run_db \<Rightarrow> run_error + 'r run_db \<times> governed_run" where
  "create_run rid t rtype by snapshot model code env scope now db =
     (if rid \<in> run_id ` set (rb_runs db) then Inl RunIntegrity
      else let run = \<lparr>run_id = rid, run_tenant = t, run_type = rtype, run_status = state_text Created,
             run_scope_portfolio_id = scope, run_system_from = now, gr_initiated_by = by, gr_snapshot = snapshot,
             gr_model_version = model, gr_code_version = code, gr_environment = env, gr_completed_at = None,
             gr_failure_reason = None\<rparr>
        in Inr (db\<lparr>rb_runs := rb_runs db @ [run],
                  rb_events := rb_events db @ [RunCreated rid (run_status run) rtype]\<rparr>, run))"

definition with_status :: "run_state \<Rightarrow> string option \<Rightarrow> pydatetime \<Rightarrow> governed_run \<Rightarrow> governed_run" where
  "with_status st reason now run =
     (let run = run\<lparr>run_status := state_text st\<rparr>;
          run = (if st \<in> set terminal_states then run\<lparr>gr_completed_at := Some now\<rparr> else run)
      in if reason \<noteq> None \<and> st = Failed then run\<lparr>gr_failure_reason := reason\<rparr> else run)"

definition update_run_status ::
  "governed_run \<Rightarrow> run_state \<Rightarrow> string option \<Rightarrow> string \<Rightarrow> string option \<Rightarrow> pydatetime \<Rightarrow> 'r run_db
     \<Rightarrow> 'r run_db \<times> governed_run" where
  "update_run_status run st actor result reason now db =
     (let run' = with_status st reason now run
      in (db\<lparr>rb_runs := map (\<lambda>r. if run_id r = run_id run then run' else r) (rb_runs db),
            rb_events := rb_events db @ [RunStatusChanged (run_id run) (run_status run) (run_status run')
              (case actor of None \<Rightarrow> ''system'' | Some a \<Rightarrow> if a = [] then ''system'' else a) result]\<rparr>, run'))"

definition resolve_run_of_type :: "string \<Rightarrow> string \<Rightarrow> string \<Rightarrow> 'r run_db \<Rightarrow> run_error + governed_run" where
  "resolve_run_of_type rid t rtype db =
     (case one_or_none (filter (\<lambda>r. run_id r = rid \<and> run_tenant r = t \<and> run_type r = rtype) (rb_runs db)) of
        None \<Rightarrow> Inl (RunNotVisible rid) | Some r \<Rightarrow> Inr r)"

definition resolve_completed_run_of_type :: "string \<Rightarrow> string \<Rightarrow> string \<Rightarrow> 'r run_db \<Rightarrow> run_error + governed_run" where
  "resolve_completed_run_of_type rid t rtype db =
     bindR (resolve_run_of_type rid t rtype db) (\<lambda>run.
       if run_status run \<noteq> state_text Completed then Inl (RunRefused rid) else Inr run)"

section \<open>Lineage\<close>

text \<open>The source is resolved through the session of tenant \<open>t\<close>; the edge carries the tenant of the row found.\<close>

definition record_internal_lineage ::
  "string \<Rightarrow> string \<Rightarrow> string \<Rightarrow> string \<Rightarrow> string \<Rightarrow> string option \<Rightarrow> 'r run_db \<Rightarrow> run_error + 'r run_db" where
  "record_internal_lineage t sid target_type target kind rid db =
     (case find (\<lambda>(s, owner). s = sid \<and> owner = t) (rb_snapshots db) of
        None \<Rightarrow> Inl (SnapshotNotVisible sid)
      | Some (s, owner) \<Rightarrow> Inr (db\<lparr>rb_edges := rb_edges db @
          [\<lparr>le_tenant = owner, le_source_type = ''data_snapshot'', le_source = sid, le_target_type = target_type,
            le_target = target, le_kind = kind, le_run = rid\<rparr>]\<rparr>))"

definition record_run_lineage ::
  "string \<Rightarrow> string \<Rightarrow> string \<Rightarrow> string \<Rightarrow> string \<Rightarrow> 'r run_db \<Rightarrow> run_error + 'r run_db" where
  "record_run_lineage t rid target_type target kind db =
     (case find (\<lambda>r. run_id r = rid \<and> run_tenant r = t) (rb_runs db) of
        None \<Rightarrow> Inl (RunNotVisible rid)
      | Some r \<Rightarrow> Inr (db\<lparr>rb_edges := rb_edges db @
          [\<lparr>le_tenant = run_tenant r, le_source_type = ''calculation_run'', le_source = rid, le_target_type = target_type,
            le_target = target, le_kind = kind, le_run = Some rid\<rparr>]\<rparr>))"

fun record_each :: "string \<Rightarrow> string \<Rightarrow> string \<Rightarrow> string list \<Rightarrow> 'r run_db \<Rightarrow> run_error + 'r run_db" where
  "record_each t rid target_type [] db = Inr db"
| "record_each t rid target_type (x # xs) db =
     bindR (record_run_lineage t rid target_type x ''ORIGIN'' db) (record_each t rid target_type xs)"

definition assert_has_lineage :: "string \<Rightarrow> string \<Rightarrow> string option \<Rightarrow> 'r run_db \<Rightarrow> lineage_edge option" where
  "assert_has_lineage target_type target t db =
     find (\<lambda>e. le_target_type e = target_type \<and> le_target e = target \<and> opt_filter t (\<lambda>x. le_tenant e = x)) (rb_edges db)"

section \<open>The lifecycle\<close>

record run_request =
  rq_tenant :: string
  rq_actor :: string
  rq_run_type :: string
  rq_snapshot :: string
  rq_model_version :: "string option"
  rq_code_version :: string
  rq_environment :: string
  rq_rule_code :: string
  rq_rule_name :: string
  rq_rule_target :: string
  rq_result_type :: string
  rq_scope :: "string option"

record 'r run_outcome =
  oc_run :: governed_run
  oc_status :: string
  oc_rows :: "'r list"
  oc_reason :: "string option"

text \<open>\<open>DataQualityError\<close>: what the gate's handler catches; any other raise leaves the call.\<close>

fun is_data_quality_error :: "dq_error \<Rightarrow> bool" where
  "is_data_quality_error (RuleErrored e) = True"
| "is_data_quality_error (RuleFailed c) = True"
| "is_data_quality_error e = False"

text \<open>Up to the computation; from the gate on; and the whole.\<close>

definition begin_run :: "run_request \<Rightarrow> string \<Rightarrow> pydatetime \<Rightarrow> 'r run_db \<Rightarrow> run_error + 'r run_db \<times> governed_run" where
  "begin_run rq rid now db =
     bindR (create_run rid (rq_tenant rq) (rq_run_type rq) (rq_actor rq) (Some (rq_snapshot rq)) (rq_model_version rq)
        (Some (rq_code_version rq)) (Some (rq_environment rq)) (rq_scope rq) now db) (\<lambda>(db, run).
     let (db, run) = update_run_status run Running (Some (rq_actor rq)) ''success'' None now db in
     bindR (record_internal_lineage (rq_tenant rq) (rq_snapshot rq) ''calculation_run'' rid ''DEPENDS_ON'' (Some rid) db)
       (\<lambda>db. Inr (db, run)))"

definition finish_run ::
  "('r list \<Rightarrow> 'r list \<Rightarrow> string + 'r list) \<Rightarrow> ('r \<Rightarrow> string) \<Rightarrow> (string \<Rightarrow> string \<Rightarrow> string) \<Rightarrow> run_request
     \<Rightarrow> (dq_error \<Rightarrow> string list \<Rightarrow> string) \<Rightarrow> 'r list \<Rightarrow> string list \<Rightarrow> governed_run \<Rightarrow> pydatetime \<Rightarrow> 'r run_db
     \<Rightarrow> run_error + 'r run_db \<times> 'r run_outcome" where
  "finish_run store row_id ids rq format_reason rows gaps run now db =
     (case ensure_presence_rule (ids (rq_tenant rq)) (rq_tenant rq) (rq_rule_code rq) (rq_rule_name rq) (rq_rule_target rq) (rb_dq db) of
        Inl e \<Rightarrow> Inl (RunGate e)
      | Inr (dq, rule) \<Rightarrow>
     (case run_presence_gate (dr_id rule) gaps ''calculation_run'' (run_id run) dq of
        (dq, Inl e) \<Rightarrow>
          if is_data_quality_error e then
            let reason = format_reason e gaps;
                (db, run) = update_run_status run Failed (Some (rq_actor rq)) ''failure'' (Some reason) now (db\<lparr>rb_dq := dq\<rparr>)
            in Inr (db, \<lparr>oc_run = run, oc_status = state_text Failed, oc_rows = [], oc_reason = Some reason\<rparr>)
          else Inl (RunGate e)
      | (dq, Inr res) \<Rightarrow>
          (case store (rb_rows db) rows of
             Inl e \<Rightarrow> Inl (ResultIntegrity e)
           | Inr stored \<Rightarrow>
             bindR (record_each (rq_tenant rq) (run_id run) (rq_result_type rq) (map row_id rows)
                (db\<lparr>rb_dq := dq, rb_rows := stored\<rparr>)) (\<lambda>db.
             let (db, run) = update_run_status run Completed (Some (rq_actor rq)) ''success'' None now db
             in Inr (db, \<lparr>oc_run = run, oc_status = state_text Completed, oc_rows = rows, oc_reason = None\<rparr>)))))"

definition execute_governed_run ::
  "('r list \<Rightarrow> 'r list \<Rightarrow> string + 'r list) \<Rightarrow> ('r \<Rightarrow> string) \<Rightarrow> (string \<Rightarrow> string \<Rightarrow> string) \<Rightarrow> run_request
     \<Rightarrow> (governed_run \<Rightarrow> string + 'r list \<times> string list) \<Rightarrow> (dq_error \<Rightarrow> string list \<Rightarrow> string)
     \<Rightarrow> string \<Rightarrow> pydatetime \<Rightarrow> 'r run_db \<Rightarrow> run_error + 'r run_db \<times> 'r run_outcome" where
  "execute_governed_run store row_id ids rq compute format_reason rid now db =
     bindR (begin_run rq rid now db) (\<lambda>(db, run).
       case compute run of
         Inl e \<Rightarrow> Inl (ComputeRaised e)
       | Inr (rows, gaps) \<Rightarrow> finish_run store row_id ids rq format_reason rows gaps run now db)"

section \<open>The gate\<close>

definition presence_rule :: "dq_rule \<Rightarrow> bool" where
  "presence_rule r \<longleftrightarrow> dr_type r = ''NOT_NULL'' \<and> dr_params r = present_params \<and> dr_severity r = ''ERROR''"

text \<open>The rules of a database in which only the gates have registered any; \<open>ids\<close> draws the id of a tenant's code.\<close>

definition gates_only :: "(string \<Rightarrow> string \<Rightarrow> string) \<Rightarrow> dq_db \<Rightarrow> bool" where
  "gates_only ids dq \<longleftrightarrow> distinct (map (\<lambda>r. (dr_tenant r, dr_code r)) (dq_rules dq)) \<and>
     (\<forall>r\<in>set (dq_rules dq). presence_rule r \<and> dr_id r = ids (dr_tenant r) (dr_code r))"

definition draws_apart :: "(string \<Rightarrow> string \<Rightarrow> string) \<Rightarrow> bool" where
  "draws_apart ids \<longleftrightarrow> inj (\<lambda>(t, c). ids t c)"

lemma ensure_gate:
  assumes "gates_only ids dq"
  shows "\<exists>dq' rule. ensure_presence_rule (ids t) t code name target dq = Inr (dq', rule) \<and> gates_only ids dq' \<and>
    rule \<in> set (dq_rules dq') \<and> dr_tenant rule = t \<and> dr_code rule = code"
proof (cases "find (\<lambda>r. dr_tenant r = t \<and> dr_code r = code) (dq_rules dq)")
  case None
  then have no: "\<not> list_ex (\<lambda>r. dr_tenant r = t \<and> dr_code r = code) (dq_rules dq)" by (auto simp: find_None_iff list_ex_iff)
  then have "(t, code) \<notin> (\<lambda>r. (dr_tenant r, dr_code r)) ` set (dq_rules dq)" by (auto simp: list_ex_iff)
  then show ?thesis using None no assms
    by (auto simp: ensure_presence_rule_def ensure_rule_def register_dq_rule_def gates_only_def presence_rule_def Let_def)
next
  case (Some r)
  then have "r \<in> set (dq_rules dq)" "dr_tenant r = t" "dr_code r = code" by (auto simp: find_Some_iff)
  then show ?thesis using Some assms by (auto simp: ensure_presence_rule_def ensure_rule_def)
qed

lemma gate_finds:
  assumes "gates_only ids dq" "draws_apart ids" "rule \<in> set (dq_rules dq)"
  shows "find (\<lambda>r. dr_id r = dr_id rule) (dq_rules dq) = Some rule"
proof -
  have "r = rule" if "r \<in> set (dq_rules dq)" "dr_id r = dr_id rule" for r
  proof -
    have "(dr_tenant r, dr_code r) = (dr_tenant rule, dr_code rule)"
      using that assms unfolding gates_only_def draws_apart_def inj_def by (metis (mono_tags, lifting) case_prod_conv)
    then show ?thesis using that assms(1,3) unfolding gates_only_def distinct_map inj_on_def by blast
  qed
  moreover have "find (\<lambda>r. dr_id r = dr_id rule) (dq_rules dq) \<noteq> None" using assms(3) by (auto simp: find_None_iff)
  then obtain r where "find (\<lambda>r. dr_id r = dr_id rule) (dq_rules dq) = Some r" by blast
  moreover from this have "r \<in> set (dq_rules dq)" "dr_id r = dr_id rule" by (auto simp: find_Some_iff)
  ultimately show ?thesis by simp
qed

lemma presence_outcome:
  assumes "presence_rule rule"
  shows "evaluate_rule (dr_type rule) (dr_params rule) (if gaps = [] then [[''present'' \<mapsto> VBool True]] else map (\<lambda>_. [''present'' \<mapsto> VNone]) gaps)
      = Inr ev \<Longrightarrow> ev_passed ev \<longleftrightarrow> gaps = []"
    and "isOk (evaluate_rule (dr_type rule) (dr_params rule) (if gaps = [] then [[''present'' \<mapsto> VBool True]] else map (\<lambda>_. [''present'' \<mapsto> VNone]) gaps))"
proof -
  let ?rows = "if gaps = [] then [[''present'' \<mapsto> VBool True]] else map (\<lambda>_. [''present'' \<mapsto> VNone]) gaps"
  obtain ev' where ev': "evaluate_not_null present_params ?rows = Inr ev'"
      "ev_passed ev' \<longleftrightarrow> (\<forall>row\<in>set ?rows. row_get row ''present'' \<noteq> VNone)"
    using not_null_passes[of present_params "''present''" ?rows] by (auto simp: present_params_def)
  moreover have "(\<forall>row\<in>set ?rows. row_get row ''present'' \<noteq> VNone) \<longleftrightarrow> gaps = []"
    by (cases gaps) (auto simp: row_get_def)
  ultimately show "evaluate_rule (dr_type rule) (dr_params rule) ?rows = Inr ev \<Longrightarrow> ev_passed ev \<longleftrightarrow> gaps = []"
    and "isOk (evaluate_rule (dr_type rule) (dr_params rule) ?rows)"
    using assms by (auto simp: presence_rule_def evaluate_rule_def)
qed

lemma gate_decides:
  assumes "gates_only ids dq" "draws_apart ids" "rule \<in> set (dq_rules dq)"
  shows "\<exists>dq' out. run_presence_gate (dr_id rule) gaps tt ti dq = (dq', out) \<and> dq_rules dq' = dq_rules dq \<and>
    (if gaps = [] then isOk out else out = Inl (RuleFailed (dr_code rule)))"
proof -
  let ?rows = "if gaps = [] then [[''present'' \<mapsto> VBool True]] else map (\<lambda>_. [''present'' \<mapsto> VNone]) gaps"
  have p: "presence_rule rule" using assms(1,3) by (auto simp: gates_only_def)
  obtain ev where ev: "evaluate_rule (dr_type rule) (dr_params rule) ?rows = Inr ev"
    using presence_outcome(2)[OF p, of gaps] by (auto elim: isOkE)
  have passed: "ev_passed ev \<longleftrightarrow> gaps = []" using presence_outcome(1)[OF p ev] .
  show ?thesis
    using gate_finds[OF assms] ev passed p
    by (auto simp: run_presence_gate_def run_quality_check_def Let_def check_result_def presence_rule_def)
qed

section \<open>What a run leaves\<close>

definition started :: "run_request \<Rightarrow> string \<Rightarrow> pydatetime \<Rightarrow> governed_run" where
  "started rq rid now = \<lparr>run_id = rid, run_tenant = rq_tenant rq, run_type = rq_run_type rq, run_status = ''RUNNING'',
     run_scope_portfolio_id = rq_scope rq, run_system_from = now, gr_initiated_by = rq_actor rq,
     gr_snapshot = Some (rq_snapshot rq), gr_model_version = rq_model_version rq, gr_code_version = Some (rq_code_version rq),
     gr_environment = Some (rq_environment rq), gr_completed_at = None, gr_failure_reason = None\<rparr>"

definition dependency :: "run_request \<Rightarrow> string \<Rightarrow> lineage_edge" where
  "dependency rq rid = \<lparr>le_tenant = rq_tenant rq, le_source_type = ''data_snapshot'', le_source = rq_snapshot rq,
     le_target_type = ''calculation_run'', le_target = rid, le_kind = ''DEPENDS_ON'', le_run = Some rid\<rparr>"

definition origin :: "string \<Rightarrow> string \<Rightarrow> string \<Rightarrow> string \<Rightarrow> lineage_edge" where
  "origin t rid target_type x = \<lparr>le_tenant = t, le_source_type = ''calculation_run'', le_source = rid,
     le_target_type = target_type, le_target = x, le_kind = ''ORIGIN'', le_run = Some rid\<rparr>"

lemma record_each_origin:
  assumes "find (\<lambda>r. run_id r = rid \<and> run_tenant r = t) (rb_runs db) = Some r"
  shows "record_each t rid tt xs db = Inr (db\<lparr>rb_edges := rb_edges db @ map (origin t rid tt) xs\<rparr>)"
  using assms
proof (induction xs arbitrary: db)
  case (Cons x xs)
  have "run_tenant r = t" using Cons.prems by (auto simp: find_Some_iff)
  then show ?case using Cons by (simp add: record_run_lineage_def origin_def)
qed simp

lemma find_SomeD: "find P xs = Some x \<Longrightarrow> P x \<and> x \<in> set xs"
  by (auto simp: find_Some_iff)

lemma find_last: "\<not> (\<exists>x\<in>set xs. P x) \<Longrightarrow> P y \<Longrightarrow> find P (xs @ [y]) = Some y"
  by (induction xs) auto

lemma replace_last:
  "rid \<notin> run_id ` set xs \<Longrightarrow> map (\<lambda>r. if run_id r = rid then y else r) (xs @ [x]) = xs @ [if run_id x = rid then y else x]"
  by (induction xs) auto

text \<open>The run, its edges, rows and events after a call that returned, by the gaps the computation reported.\<close>

definition settled ::
  "('r list \<Rightarrow> 'r list \<Rightarrow> string + 'r list) \<Rightarrow> ('r \<Rightarrow> string) \<Rightarrow> run_request \<Rightarrow> (dq_error \<Rightarrow> string list \<Rightarrow> string)
     \<Rightarrow> string \<Rightarrow> pydatetime \<Rightarrow> 'r list \<Rightarrow> string list \<Rightarrow> 'r run_db \<Rightarrow> 'r run_db \<Rightarrow> 'r run_outcome \<Rightarrow> bool" where
  "settled store row_id rq fmt rid now rows gaps db db' out \<longleftrightarrow>
     rb_runs db' = rb_runs db @ [oc_run out] \<and> oc_status out = run_status (oc_run out) \<and>
     oc_reason out = gr_failure_reason (oc_run out) \<and>
     (if gaps = [] then
        oc_run out = (started rq rid now)\<lparr>run_status := ''COMPLETED'', gr_completed_at := Some now\<rparr> \<and>
        store (rb_rows db) rows = Inr (rb_rows db') \<and> oc_rows out = rows \<and>
        rb_edges db' = rb_edges db @ dependency rq rid # map (origin (rq_tenant rq) rid (rq_result_type rq)) (map row_id rows)
      else
        oc_run out = (started rq rid now)\<lparr>run_status := ''FAILED'', gr_completed_at := Some now,
          gr_failure_reason := Some (fmt (RuleFailed (rq_rule_code rq)) gaps)\<rparr> \<and>
        rb_rows db' = rb_rows db \<and> oc_rows out = [] \<and> rb_edges db' = rb_edges db @ [dependency rq rid])"

lemma begun:
  assumes "begin_run rq rid now db = Inr (db', run)"
  shows "rid \<notin> run_id ` set (rb_runs db) \<and> (rq_snapshot rq, rq_tenant rq) \<in> set (rb_snapshots db) \<and> run = started rq rid now \<and>
    rb_runs db' = rb_runs db @ [started rq rid now] \<and> rb_rows db' = rb_rows db \<and> rb_edges db' = rb_edges db @ [dependency rq rid] \<and>
    rb_dq db' = rb_dq db \<and> rb_snapshots db' = rb_snapshots db"
proof -
  have new: "rid \<notin> run_id ` set (rb_runs db)"
    using assms by (auto simp: begin_run_def create_run_def split: if_splits)
  then show ?thesis
    using assms replace_last[OF new]
    by (auto simp: begin_run_def create_run_def update_run_status_def with_status_def terminal_states_def started_def Let_def
        record_internal_lineage_def dependency_def bindR_Inr split: option.splits dest!: find_SomeD)
qed

lemma finish_completed:
  assumes "rid \<notin> run_id ` set runs" "rb_runs db = runs @ [started rq rid now]"
  shows "\<exists>db'. update_run_status (started rq rid now) Completed a r None now db =
      (db', (started rq rid now)\<lparr>run_status := ''COMPLETED'', gr_completed_at := Some now\<rparr>) \<and>
    rb_runs db' = runs @ [(started rq rid now)\<lparr>run_status := ''COMPLETED'', gr_completed_at := Some now\<rparr>] \<and>
    rb_rows db' = rb_rows db \<and> rb_edges db' = rb_edges db \<and> rb_dq db' = rb_dq db \<and> rb_snapshots db' = rb_snapshots db"
  using replace_last[OF assms(1)] assms(2)
  by (simp add: update_run_status_def with_status_def terminal_states_def Let_def started_def)

lemma finish_failed:
  assumes "rid \<notin> run_id ` set runs" "rb_runs db = runs @ [started rq rid now]"
  shows "\<exists>db'. update_run_status (started rq rid now) Failed a r (Some reason) now db =
      (db', (started rq rid now)\<lparr>run_status := ''FAILED'', gr_completed_at := Some now, gr_failure_reason := Some reason\<rparr>) \<and>
    rb_runs db' = runs @ [(started rq rid now)\<lparr>run_status := ''FAILED'', gr_completed_at := Some now, gr_failure_reason := Some reason\<rparr>] \<and>
    rb_rows db' = rb_rows db \<and> rb_edges db' = rb_edges db \<and> rb_dq db' = rb_dq db \<and> rb_snapshots db' = rb_snapshots db"
  using replace_last[OF assms(1)] assms(2)
  by (simp add: update_run_status_def with_status_def terminal_states_def Let_def started_def)

lemma finished:
  assumes gates: "gates_only ids (rb_dq db)" "draws_apart ids"
    and db: "rid \<notin> run_id ` set runs" "rb_runs db = runs @ [started rq rid now]"
    and run: "finish_run store row_id ids rq fmt rows gaps (started rq rid now) now db = Inr (db', out)"
  shows "rb_runs db' = runs @ [oc_run out] \<and> oc_status out = run_status (oc_run out) \<and> oc_reason out = gr_failure_reason (oc_run out) \<and>
    gates_only ids (rb_dq db') \<and> rb_snapshots db' = rb_snapshots db \<and>
    (if gaps = [] then oc_run out = (started rq rid now)\<lparr>run_status := ''COMPLETED'', gr_completed_at := Some now\<rparr> \<and>
        store (rb_rows db) rows = Inr (rb_rows db') \<and> oc_rows out = rows \<and>
        rb_edges db' = rb_edges db @ map (origin (rq_tenant rq) rid (rq_result_type rq)) (map row_id rows)
      else oc_run out = (started rq rid now)\<lparr>run_status := ''FAILED'', gr_completed_at := Some now,
          gr_failure_reason := Some (fmt (RuleFailed (rq_rule_code rq)) gaps)\<rparr> \<and>
        rb_rows db' = rb_rows db \<and> oc_rows out = [] \<and> rb_edges db' = rb_edges db)"
proof -
  have rid: "run_id (started rq rid now) = rid" by (simp add: started_def)
  obtain dq rule where e: "ensure_presence_rule (ids (rq_tenant rq)) (rq_tenant rq) (rq_rule_code rq) (rq_rule_name rq) (rq_rule_target rq) (rb_dq db) = Inr (dq, rule)"
      "gates_only ids dq" "rule \<in> set (dq_rules dq)" "dr_code rule = rq_rule_code rq"
    using ensure_gate[of ids "rb_dq db" "rq_tenant rq" "rq_rule_code rq"] gates(1) by metis
  obtain dq' o' where g: "run_presence_gate (dr_id rule) gaps ''calculation_run'' rid dq = (dq', o')" "dq_rules dq' = dq_rules dq"
      "if gaps = [] then isOk o' else o' = Inl (RuleFailed (dr_code rule))"
    using gate_decides[OF e(2) gates(2) e(3), of gaps "''calculation_run''" rid] by blast
  have ok': "gates_only ids dq'" using e(2) g(2) by (simp add: gates_only_def)
  show ?thesis
  proof (cases "gaps = []")
    case True
    then obtain res where o': "o' = Inr res" using g(3) by (auto elim: isOkE)
    then obtain stored where st: "store (rb_rows db) rows = Inr stored"
      using run e g rid by (auto simp: finish_run_def split: sum.splits)
    define db3 where "db3 = db\<lparr>rb_dq := dq', rb_rows := stored\<rparr>"
    have "find (\<lambda>r. run_id r = rid \<and> run_tenant r = rq_tenant rq) (rb_runs db3) = Some (started rq rid now)"
      using db by (auto intro!: find_last simp: started_def db3_def)
    note rec = record_each_origin[OF this, of "rq_result_type rq" "map row_id rows"]
    have "rb_runs (db3\<lparr>rb_edges := rb_edges db3 @ map (origin (rq_tenant rq) rid (rq_result_type rq)) (map row_id rows)\<rparr>) =
      runs @ [started rq rid now]" by (simp add: db3_def db)
    note fin = finish_completed[OF db(1) this, of "Some (rq_actor rq)" "''success''"]
    then obtain d where d: "update_run_status (started rq rid now) Completed (Some (rq_actor rq)) ''success'' None now
        (db3\<lparr>rb_edges := rb_edges db3 @ map (origin (rq_tenant rq) rid (rq_result_type rq)) (map row_id rows)\<rparr>) =
       (d, (started rq rid now)\<lparr>run_status := ''COMPLETED'', gr_completed_at := Some now\<rparr>)"
      "rb_runs d = runs @ [(started rq rid now)\<lparr>run_status := ''COMPLETED'', gr_completed_at := Some now\<rparr>]" "rb_rows d = stored"
      "rb_edges d = rb_edges db @ map (origin (rq_tenant rq) rid (rq_result_type rq)) (map row_id rows)" "rb_dq d = dq'"
      "rb_snapshots d = rb_snapshots db" by (auto simp: db3_def)
    have "db' = d \<and> out = \<lparr>oc_run = (started rq rid now)\<lparr>run_status := ''COMPLETED'', gr_completed_at := Some now\<rparr>,
        oc_status = ''COMPLETED'', oc_rows = rows, oc_reason = None\<rparr>"
      using run e(1) g(1) o' st rec[unfolded db3_def] d(1)[unfolded db3_def] unfolding finish_run_def rid by simp
    then show ?thesis using True st d ok' by (simp add: started_def)
  next
    case False
    have "rb_runs (db\<lparr>rb_dq := dq'\<rparr>) = runs @ [started rq rid now]" by (simp add: db)
    from finish_failed[OF db(1) this, of "Some (rq_actor rq)" "''failure''" "fmt (RuleFailed (rq_rule_code rq)) gaps"]
    obtain d where d: "update_run_status (started rq rid now) Failed (Some (rq_actor rq)) ''failure''
        (Some (fmt (RuleFailed (rq_rule_code rq)) gaps)) now (db\<lparr>rb_dq := dq'\<rparr>) =
       (d, (started rq rid now)\<lparr>run_status := ''FAILED'', gr_completed_at := Some now, gr_failure_reason := Some (fmt (RuleFailed (rq_rule_code rq)) gaps)\<rparr>)"
      "rb_runs d = runs @ [(started rq rid now)\<lparr>run_status := ''FAILED'', gr_completed_at := Some now, gr_failure_reason := Some (fmt (RuleFailed (rq_rule_code rq)) gaps)\<rparr>]"
      "rb_rows d = rb_rows db" "rb_edges d = rb_edges db" "rb_dq d = dq'" "rb_snapshots d = rb_snapshots db" by auto
    have "db' = d \<and> out = \<lparr>oc_run = (started rq rid now)\<lparr>run_status := ''FAILED'', gr_completed_at := Some now,
          gr_failure_reason := Some (fmt (RuleFailed (rq_rule_code rq)) gaps)\<rparr>,
        oc_status = ''FAILED'', oc_rows = [], oc_reason = Some (fmt (RuleFailed (rq_rule_code rq)) gaps)\<rparr>"
      using run e(1,4) g(1,3) False d(1) unfolding finish_run_def rid by (auto simp: Let_def)
    then show ?thesis using False d ok' by (simp add: started_def)
  qed
qed

lemma executed:
  assumes "gates_only ids (rb_dq db)" "draws_apart ids"
    and "execute_governed_run store row_id ids rq compute fmt rid now db = Inr (db', out)"
  shows "\<exists>rows gaps. compute (started rq rid now) = Inr (rows, gaps) \<and> settled store row_id rq fmt rid now rows gaps db db' out
    \<and> rid \<notin> run_id ` set (rb_runs db) \<and> (rq_snapshot rq, rq_tenant rq) \<in> set (rb_snapshots db)
    \<and> gates_only ids (rb_dq db') \<and> rb_snapshots db' = rb_snapshots db"
proof -
  obtain db1 run where b: "begin_run rq rid now db = Inr (db1, run)"
    using assms(3) by (auto simp: execute_governed_run_def bindR_Inr)
  note s = begun[OF b]
  obtain rows gaps where c: "compute (started rq rid now) = Inr (rows, gaps)"
      and f: "finish_run store row_id ids rq fmt rows gaps (started rq rid now) now db1 = Inr (db', out)"
    using assms(3) b s by (auto simp: execute_governed_run_def split: sum.splits)
  have "gates_only ids (rb_dq db1)" using assms(1) s by simp
  from finished[OF this assms(2) _ _ f, of "rb_runs db"] s c show ?thesis by (auto simp: settled_def)
qed

section \<open>Invariant of the runs and their results\<close>

definition finished_run :: "governed_run \<Rightarrow> bool" where
  "finished_run c \<longleftrightarrow> gr_completed_at c \<noteq> None \<and>
     (run_status c = ''COMPLETED'' \<and> gr_failure_reason c = None \<or> run_status c = ''FAILED'' \<and> gr_failure_reason c \<noteq> None)"

definition linked :: "lineage_edge list \<Rightarrow> string \<Rightarrow> string \<Rightarrow> string \<Rightarrow> string \<Rightarrow> bool" where
  "linked es t source kind target \<longleftrightarrow>
     (\<exists>e\<in>set es. le_tenant e = t \<and> le_source e = source \<and> le_kind e = kind \<and> le_target e = target)"

definition runs_ok :: "('r \<Rightarrow> string) \<Rightarrow> ('r \<Rightarrow> string) \<Rightarrow> ('r \<Rightarrow> string) \<Rightarrow> 'r run_db \<Rightarrow> bool" where
  "runs_ok row_id run_of tenant_of db \<longleftrightarrow> distinct (map run_id (rb_runs db)) \<and>
     (\<forall>c\<in>set (rb_runs db). finished_run c \<and>
        linked (rb_edges db) (run_tenant c) (the (gr_snapshot c)) ''DEPENDS_ON'' (run_id c)) \<and>
     (\<forall>r\<in>set (rb_rows db). \<exists>c\<in>set (rb_runs db). run_id c = run_of r \<and> run_tenant c = tenant_of r \<and>
        run_status c = ''COMPLETED'' \<and> linked (rb_edges db) (tenant_of r) (run_of r) ''ORIGIN'' (row_id r))"

lemma linked_append: "linked es t s k x \<Longrightarrow> linked (es @ fs) t s k x" "linked fs t s k x \<Longrightarrow> linked (es @ fs) t s k x"
  by (auto simp: linked_def)

lemma linked_edges: "linked (dependency rq rid # es) (rq_tenant rq) (rq_snapshot rq) ''DEPENDS_ON'' rid"
  "x \<in> set xs \<Longrightarrow> linked (e # map (origin t rid tt) xs) t rid ''ORIGIN'' x"
  by (auto simp: linked_def dependency_def origin_def)

text \<open>A result table stores the rows it is given after those it has, and keeps their keys (a column may round a number).\<close>

locale result_table =
  fixes store :: "'r list \<Rightarrow> 'r list \<Rightarrow> string + 'r list"
    and row_id :: "'r \<Rightarrow> string" and run_of :: "'r \<Rightarrow> string" and tenant_of :: "'r \<Rightarrow> string"
  assumes keeps_keys: "store old rows = Inr new \<Longrightarrow> \<exists>xs. new = old @ xs \<and>
    map (\<lambda>r. (row_id r, run_of r, tenant_of r)) xs = map (\<lambda>r. (row_id r, run_of r, tenant_of r)) rows"
begin

lemma executed_ok:
  assumes ok: "runs_ok row_id run_of tenant_of db" and gates: "gates_only ids (rb_dq db)" "draws_apart ids"
    and own: "\<And>rows gaps r. compute (started rq rid now) = Inr (rows, gaps) \<Longrightarrow> r \<in> set rows \<Longrightarrow> run_of r = rid \<and> tenant_of r = rq_tenant rq"
    and run: "execute_governed_run store row_id ids rq compute fmt rid now db = Inr (db', out)"
  shows "runs_ok row_id run_of tenant_of db'"
proof -
  obtain rows gaps where c: "compute (started rq rid now) = Inr (rows, gaps)" and s: "settled store row_id rq fmt rid now rows gaps db db' out"
      and new: "rid \<notin> run_id ` set (rb_runs db)"
    using executed[OF gates run] by blast
  obtain es where es: "rb_edges db' = rb_edges db @ dependency rq rid # es" and oc: "rb_runs db' = rb_runs db @ [oc_run out]"
      "run_id (oc_run out) = rid" "run_tenant (oc_run out) = rq_tenant rq" "finished_run (oc_run out)" "gr_snapshot (oc_run out) = Some (rq_snapshot rq)"
    using s by (auto simp: settled_def finished_run_def started_def split: if_splits)
  have old: "\<exists>c\<in>set (rb_runs db'). run_id c = run_of r \<and> run_tenant c = tenant_of r \<and>
        run_status c = ''COMPLETED'' \<and> linked (rb_edges db') (tenant_of r) (run_of r) ''ORIGIN'' (row_id r)" if "r \<in> set (rb_rows db)" for r
    using ok that linked_append(1) unfolding runs_ok_def es oc by fastforce
  have "\<exists>c\<in>set (rb_runs db'). run_id c = run_of r \<and> run_tenant c = tenant_of r \<and>
        run_status c = ''COMPLETED'' \<and> linked (rb_edges db') (tenant_of r) (run_of r) ''ORIGIN'' (row_id r)" if r: "r \<in> set (rb_rows db')" for r
  proof (cases "r \<in> set (rb_rows db)")
    case False
    then have g: "gaps = []" and st: "store (rb_rows db) rows = Inr (rb_rows db')"
      using r s by (auto simp: settled_def split: if_splits)
    obtain xs where xs: "rb_rows db' = rb_rows db @ xs" "map (\<lambda>r. (row_id r, run_of r, tenant_of r)) xs = map (\<lambda>r. (row_id r, run_of r, tenant_of r)) rows"
      using keeps_keys[OF st] by blast
    have "(row_id r, run_of r, tenant_of r) \<in> (\<lambda>r. (row_id r, run_of r, tenant_of r)) ` set rows"
      using False r xs(1) arg_cong[OF xs(2), of set] by auto
    then obtain r' where r': "r' \<in> set rows" "row_id r = row_id r'" "run_of r = run_of r'" "tenant_of r = tenant_of r'" by auto
    have k: "run_of r = rid" "tenant_of r = rq_tenant rq" using own[OF c r'(1)] r' by auto
    have "rb_edges db' = rb_edges db @ dependency rq rid # map (origin (rq_tenant rq) rid (rq_result_type rq)) (map row_id rows)"
      and "run_status (oc_run out) = ''COMPLETED''"
      using s g by (auto simp: settled_def)
    then have "linked (rb_edges db') (rq_tenant rq) rid ''ORIGIN'' (row_id r')"
      using linked_append(2)[OF linked_edges(2)[of "row_id r'" "map row_id rows"]] r'(1) by (simp only: set_map imageI)
    then show ?thesis
      using oc k r'(2) \<open>run_status (oc_run out) = ''COMPLETED''\<close> by auto
  qed (use old in blast)
  moreover have "finished_run c \<and> linked (rb_edges db') (run_tenant c) (the (gr_snapshot c)) ''DEPENDS_ON'' (run_id c)"
    if "c \<in> set (rb_runs db')" for c
  proof (cases "c \<in> set (rb_runs db)")
    case True
    then show ?thesis using ok by (simp add: runs_ok_def es linked_append(1))
  next
    case False
    then have "c = oc_run out" using that oc(1) by simp
    then show ?thesis using linked_append(2)[OF linked_edges(1)] by (simp add: es oc)
  qed
  moreover have "distinct (map run_id (rb_runs db'))" using ok new oc by (simp add: runs_ok_def)
  ultimately show ?thesis unfolding runs_ok_def by blast
qed

end

text \<open>What the readers see.\<close>

lemma governed_reads:
  assumes "runs_ok row_id run_of tenant_of db"
  shows "set (list_governed_results (map calc_run.truncate (rb_runs db)) run_of tenant_of grain (rb_rows db) t (\<lambda>c r. True) None None) =
    {r \<in> set (rb_rows db). tenant_of r = t}"
  using assms unfolding runs_ok_def by (fastforce simp: governed_in opt_filter_def calc_run.defs)

section \<open>When a run returns\<close>

lemma find_pair: "(s, t) \<in> set xs \<Longrightarrow> find (\<lambda>(a, b). a = s \<and> b = t) xs = Some (s, t)"
  by (induction xs) auto

lemma begin_returns:
  assumes "rid \<notin> run_id ` set (rb_runs db)" "(rq_snapshot rq, rq_tenant rq) \<in> set (rb_snapshots db)"
  shows "\<exists>db' run. begin_run rq rid now db = Inr (db', run)"
  using assms find_pair[OF assms(2)]
  by (simp add: begin_run_def create_run_def update_run_status_def record_internal_lineage_def Let_def)

lemma finish_returns:
  assumes gates: "gates_only ids (rb_dq db)" "draws_apart ids"
    and st: "gaps = [] \<Longrightarrow> isOk (store (rb_rows db) rows)"
    and here: "run \<in> set (rb_runs db)" "run_tenant run = rq_tenant rq"
  shows "\<exists>db' out. finish_run store row_id ids rq fmt rows gaps run now db = Inr (db', out)"
proof -
  obtain dq rule where e: "ensure_presence_rule (ids (rq_tenant rq)) (rq_tenant rq) (rq_rule_code rq) (rq_rule_name rq) (rq_rule_target rq) (rb_dq db) = Inr (dq, rule)"
      "gates_only ids dq" "rule \<in> set (dq_rules dq)"
    using ensure_gate[of ids "rb_dq db" "rq_tenant rq" "rq_rule_code rq"] gates(1) by metis
  obtain dq' o' where g: "run_presence_gate (dr_id rule) gaps ''calculation_run'' (run_id run) dq = (dq', o')"
      "if gaps = [] then isOk o' else o' = Inl (RuleFailed (dr_code rule))"
    using gate_decides[OF e(2) gates(2) e(3), of gaps "''calculation_run''" "run_id run"] by blast
  show ?thesis
  proof (cases "gaps = []")
    case True
    then obtain res stored where o': "o' = Inr res" and s: "store (rb_rows db) rows = Inr stored"
      using g(2) st by (auto elim!: isOkE)
    have "find (\<lambda>r. run_id r = run_id run \<and> run_tenant r = rq_tenant rq) (rb_runs (db\<lparr>rb_dq := dq', rb_rows := stored\<rparr>)) \<noteq> None"
      using here by (auto simp: find_None_iff)
    then obtain r where "find (\<lambda>r. run_id r = run_id run \<and> run_tenant r = rq_tenant rq) (rb_runs (db\<lparr>rb_dq := dq', rb_rows := stored\<rparr>)) = Some r"
      by blast
    from record_each_origin[OF this, of "rq_result_type rq" "map row_id rows"] show ?thesis
      using e(1) g(1) o' s by (simp add: finish_run_def update_run_status_def Let_def)
  next
    case False
    then show ?thesis using e(1) g by (simp add: finish_run_def update_run_status_def Let_def)
  qed
qed

lemma executes_iff:
  assumes gates: "gates_only ids (rb_dq db)" "draws_apart ids"
  shows "isOk (execute_governed_run store row_id ids rq compute fmt rid now db) \<longleftrightarrow>
    rid \<notin> run_id ` set (rb_runs db) \<and> (rq_snapshot rq, rq_tenant rq) \<in> set (rb_snapshots db) \<and>
    (\<exists>rows gaps. compute (started rq rid now) = Inr (rows, gaps) \<and> (gaps = [] \<longrightarrow> isOk (store (rb_rows db) rows)))"
    (is "?L \<longleftrightarrow> ?R")
proof
  assume ?L
  then obtain db' out where "execute_governed_run store row_id ids rq compute fmt rid now db = Inr (db', out)"
    by (auto elim!: isOkE)
  from executed[OF gates this] show ?R by (auto simp: settled_def split: if_splits)
next
  assume r: ?R
  then obtain db1 run where b: "begin_run rq rid now db = Inr (db1, run)" using begin_returns by blast
  note bg = begun[OF b]
  obtain rows gaps where c: "compute (started rq rid now) = Inr (rows, gaps)" "gaps = [] \<longrightarrow> isOk (store (rb_rows db) rows)"
    using r by blast
  have "\<exists>db' out. finish_run store row_id ids rq fmt rows gaps run now db1 = Inr (db', out)"
    using gates c(2) bg by (intro finish_returns) (simp_all add: started_def)
  then show ?L using b bg c(1) by (auto simp: execute_governed_run_def)
qed

text \<open>
  C35. A governed run settles, and nothing in between: over a rule catalogue that only the gates write, a call returns exactly
  when its run id is new, its snapshot is visible to the tenant, the computation returns, and, where it reported no gap, the result
  table takes its rows. It then adds one run, linked from its snapshot, which is COMPLETED exactly when the computation reported no gap; a
  COMPLETED run has all its rows stored with one ORIGIN edge each and no failure reason, a FAILED one has the formatted reason, no row and no further edge.
\<close>

theorem governed_run_settles:
  assumes "gates_only ids (rb_dq db)" "draws_apart ids"
  shows "case execute_governed_run store row_id ids rq compute fmt rid now db of
      Inl e \<Rightarrow> rid \<in> run_id ` set (rb_runs db) \<or> (rq_snapshot rq, rq_tenant rq) \<notin> set (rb_snapshots db) \<or>
        (case compute (started rq rid now) of Inl e \<Rightarrow> True | Inr (rows, gaps) \<Rightarrow> gaps = [] \<and> \<not> isOk (store (rb_rows db) rows))
    | Inr (db', out) \<Rightarrow> rid \<notin> run_id ` set (rb_runs db) \<and> (rq_snapshot rq, rq_tenant rq) \<in> set (rb_snapshots db) \<and>
        rb_runs db' = rb_runs db @ [oc_run out] \<and> run_id (oc_run out) = rid \<and> finished_run (oc_run out) \<and>
        (case compute (started rq rid now) of Inl e \<Rightarrow> False
         | Inr (rows, []) \<Rightarrow> run_status (oc_run out) = ''COMPLETED'' \<and> store (rb_rows db) rows = Inr (rb_rows db') \<and>
             rb_edges db' = rb_edges db @ dependency rq rid # map (\<lambda>r. origin (rq_tenant rq) rid (rq_result_type rq) (row_id r)) rows
         | Inr (rows, gaps) \<Rightarrow> run_status (oc_run out) = ''FAILED'' \<and> rb_rows db' = rb_rows db \<and>
             gr_failure_reason (oc_run out) = Some (fmt (RuleFailed (rq_rule_code rq)) gaps) \<and>
             rb_edges db' = rb_edges db @ [dependency rq rid])"
proof (cases "execute_governed_run store row_id ids rq compute fmt rid now db")
  case (Inl e)
  then have "\<not> isOk (execute_governed_run store row_id ids rq compute fmt rid now db)" by simp
  then show ?thesis using Inl unfolding executes_iff[OF assms] by (auto split: sum.splits)
next
  case (Inr p)
  obtain db' out where p: "p = (db', out)" by (cases p)
  note r = Inr[unfolded p]
  obtain rows gaps where c: "compute (started rq rid now) = Inr (rows, gaps)" and s: "settled store row_id rq fmt rid now rows gaps db db' out"
    and new: "rid \<notin> run_id ` set (rb_runs db)" "(rq_snapshot rq, rq_tenant rq) \<in> set (rb_snapshots db)"
    using executed[OF assms r] by blast
  have "run_id (oc_run out) = rid" "finished_run (oc_run out)"
    using s by (simp_all add: settled_def finished_run_def started_def split: if_splits)
  then show ?thesis using r c s new by (cases gaps) (simp_all add: settled_def comp_def)
qed

text \<open>A rule that already holds the gate's code, with a severity that flags and does not raise.\<close>

lemma planted_gate:
  assumes "find (\<lambda>r. dr_id r = dr_id rule) (dq_rules dq) = Some rule"
    and "dr_type rule = ''NOT_NULL''" "dr_params rule = present_params" "dr_severity rule = ''WARNING''"
  shows "\<exists>dq' res. run_presence_gate (dr_id rule) gaps tt ti dq = (dq', Inr res)"
proof -
  let ?rows = "if gaps = [] then [[''present'' \<mapsto> VBool True]] else map (\<lambda>_. [''present'' \<mapsto> VNone]) gaps"
  have p: "presence_rule (rule\<lparr>dr_severity := ''ERROR''\<rparr>)" using assms by (simp add: presence_rule_def)
  obtain ev where "evaluate_rule (dr_type rule) (dr_params rule) ?rows = Inr ev"
    using presence_outcome(2)[OF p, of gaps] by (auto elim: isOkE)
  then show ?thesis using assms by (simp add: run_presence_gate_def run_quality_check_def Let_def check_result_def)
qed

text \<open>
  C36. The gate trusts a rule it did not write: where the tenant's catalogue already holds, under the gate's code, a NOT_NULL rule with the gate's
  own parameters and severity WARNING, found under its id (a user with the right to manage rules registers one before the family's first run), a run
  whose computation reports gaps is not FAILED: if it starts (a fresh id, a snapshot of the tenant), its computation returns and its rows can be stored, it
  returns COMPLETED with every row stored. A planted rule of another type or with other parameters is not claimed to open the gate; the evaluator may
  raise on it.
\<close>

theorem planted_rule_opens_the_gate:
  assumes "find (\<lambda>r. dr_tenant r = rq_tenant rq \<and> dr_code r = rq_rule_code rq) (dq_rules (rb_dq db)) = Some rule"
    and "find (\<lambda>r. dr_id r = dr_id rule) (dq_rules (rb_dq db)) = Some rule"
    and "dr_type rule = ''NOT_NULL''" "dr_params rule = present_params" "dr_severity rule = ''WARNING''"
    and "rid \<notin> run_id ` set (rb_runs db)" "(rq_snapshot rq, rq_tenant rq) \<in> set (rb_snapshots db)"
    and "compute (started rq rid now) = Inr (rows, gaps)" "store (rb_rows db) rows = Inr stored"
  shows "\<exists>db' out. execute_governed_run store row_id ids rq compute fmt rid now db = Inr (db', out)
    \<and> oc_status out = ''COMPLETED'' \<and> rb_rows db' = stored"
proof -
  obtain db1 run where b: "begin_run rq rid now db = Inr (db1, run)" using begin_returns assms(6,7) by blast
  note bg = begun[OF b]
  obtain dq' res where g: "run_presence_gate (dr_id rule) gaps ''calculation_run'' rid (rb_dq db) = (dq', Inr res)"
    using planted_gate[OF assms(2-5)] by blast
  have "find (\<lambda>r. run_id r = rid \<and> run_tenant r = rq_tenant rq) (rb_runs (db1\<lparr>rb_dq := dq', rb_rows := stored\<rparr>)) = Some (started rq rid now)"
    using bg by (auto intro!: find_last simp: started_def)
  note rec = record_each_origin[OF this, of "rq_result_type rq" "map row_id rows"]
  have rid: "run_id (started rq rid now) = rid" by (simp add: started_def)
  have "\<exists>db' out. finish_run store row_id ids rq fmt rows gaps (started rq rid now) now db1 = Inr (db', out)
      \<and> oc_status out = ''COMPLETED'' \<and> rb_rows db' = stored"
    using rec g assms(1,9) bg
    by (simp add: finish_run_def rid ensure_presence_rule_def ensure_rule_def update_run_status_def Let_def)
  then show ?thesis using b bg assms(8) by (auto simp: execute_governed_run_def)
qed

section \<open>Sample\<close>

definition sample_request :: run_request where
  "sample_request = \<lparr>rq_tenant = ''T'', rq_actor = ''u'', rq_run_type = ''PACING_PROJECTION'', rq_snapshot = ''s'', rq_model_version = Some ''m'',
     rq_code_version = ''1'', rq_environment = ''prod'', rq_rule_code = ''pacing.projection.presence'', rq_rule_name = ''n'',
     rq_rule_target = ''pacing_projection_result'', rq_result_type = ''pacing_projection_result'', rq_scope = None\<rparr>"

definition sample_run_db :: "dq_db \<Rightarrow> string run_db" where
  "sample_run_db dq = \<lparr>rb_runs = [], rb_snapshots = [(''s'', ''T'')], rb_edges = [], rb_rows = [], rb_events = [], rb_dq = dq\<rparr>"

theorem governed_run_settles_witness:
  "gates_only sample_ids \<lparr>dq_rules = [], dq_results = [], dq_events = []\<rparr> \<and> draws_apart sample_ids
    \<and> (\<exists>db' out. execute_governed_run (\<lambda>old new. Inr (old @ new)) id sample_ids sample_request (\<lambda>run. Inr ([''x''], []))
          (\<lambda>e gaps. []) ''run'' (Aware 0 0) (sample_run_db \<lparr>dq_rules = [], dq_results = [], dq_events = []\<rparr>) = Inr (db', out)
        \<and> run_status (oc_run out) = ''COMPLETED'' \<and> rb_rows db' = [''x''])"
proof -
  let ?dq = "\<lparr>dq_rules = [], dq_results = [], dq_events = []\<rparr>"
  have g: "gates_only sample_ids (rb_dq (sample_run_db ?dq))" "draws_apart sample_ids"
    using sample_ids_inj by (simp_all add: gates_only_def draws_apart_def sample_run_db_def)
  have "isOk (execute_governed_run (\<lambda>old new. Inr (old @ new)) id sample_ids sample_request (\<lambda>run. Inr ([''x''], []))
          (\<lambda>e gaps. []) ''run'' (Aware 0 0) (sample_run_db ?dq))"
    unfolding executes_iff[OF g] by (simp add: sample_run_db_def sample_request_def)
  then obtain db' out where r: "execute_governed_run (\<lambda>old new. Inr (old @ new)) id sample_ids sample_request (\<lambda>run. Inr ([''x''], []))
          (\<lambda>e gaps. []) ''run'' (Aware 0 0) (sample_run_db ?dq) = Inr (db', out)" by (auto elim!: isOkE)
  then show ?thesis
    using governed_run_settles[OF g, where store = "\<lambda>old new. Inr (old @ new)" and row_id = id and rq = sample_request
        and compute = "\<lambda>run. Inr ([''x''], [])" and fmt = "\<lambda>e gaps. []" and rid = "''run''" and now = "Aware 0 0"] g
    by (simp add: sample_run_db_def)
qed

theorem planted_rule_opens_the_gate_witness:
  "\<exists>dq rule db' out. register_dq_rule ''r'' ''T'' ''pacing.projection.presence'' ''mine'' ''NOT_NULL'' present_params None ''WARNING''
      \<lparr>dq_rules = [], dq_results = [], dq_events = []\<rparr> = Inr (dq, rule)
    \<and> execute_governed_run (\<lambda>old new. Inr (old @ new)) id (\<lambda>t c. c) sample_request (\<lambda>run. Inr ([''x''], [''gap''])) (\<lambda>e gaps. [])
       ''run'' (Aware 0 0) (sample_run_db dq) = Inr (db', out)
    \<and> oc_status out = ''COMPLETED'' \<and> rb_rows db' = [''x'']"
proof -
  let ?dq0 = "\<lparr>dq_rules = [], dq_results = [], dq_events = []\<rparr>"
  obtain dq rule where r: "register_dq_rule ''r'' ''T'' ''pacing.projection.presence'' ''mine'' ''NOT_NULL'' present_params None ''WARNING'' ?dq0 = Inr (dq, rule)"
    by (simp add: register_dq_rule_def Let_def)
  then have f: "find (\<lambda>r. dr_tenant r = ''T'' \<and> dr_code r = ''pacing.projection.presence'') (dq_rules dq) = Some rule"
      "find (\<lambda>r. dr_id r = dr_id rule) (dq_rules dq) = Some rule"
      "dr_type rule = ''NOT_NULL''" "dr_params rule = present_params" "dr_severity rule = ''WARNING''"
    by (auto simp: register_dq_rule_def Let_def)
  show ?thesis
    using planted_rule_opens_the_gate[where rq = sample_request and db = "sample_run_db dq" and rule = rule and rid = "''run''"
        and compute = "\<lambda>run. Inr ([''x''], [''gap''])" and rows = "[''x'']" and gaps = "[''gap'']" and store = "\<lambda>old new. Inr (old @ new)"
        and stored = "[''x'']" and row_id = id and ids = "\<lambda>t c. c" and fmt = "\<lambda>e gaps. []" and now = "Aware 0 0"] r f
    by (simp add: sample_request_def sample_run_db_def)
qed

end
