(* ===== verification/Reversal_Ledger.thy ===== *)
theory Reversal_Ledger
  imports Bitemporal
begin

text \<open>
  Append-only event tables whose only correction is a reversal: a new row with the negated amount that names the
  row it reverses, echoes its terms, and may be appended once per row. The interface is a locale: its client learns that
  a plain sum over the table, reversals included, is the sum of the events that stand.
\<close>

locale reversal_rows =
  fixes rid :: "'r \<Rightarrow> string"
    and reverses :: "'r \<Rightarrow> string option"
    and amount :: "'r \<Rightarrow> rat"
    and terms :: "'r \<Rightarrow> 'a"
begin

inductive ledger :: "'r list \<Rightarrow> bool" where
  empty: "ledger []"
| original: "ledger rs \<Longrightarrow> rid r \<notin> rid ` set rs \<Longrightarrow> reverses r = None \<Longrightarrow> 0 < amount r \<Longrightarrow> ledger (rs @ [r])"
| reversal: "ledger rs \<Longrightarrow> rid r \<notin> rid ` set rs \<Longrightarrow> q \<in> set rs \<Longrightarrow> reverses q = None \<Longrightarrow> reverses r = Some (rid q) \<Longrightarrow>
    Some (rid q) \<notin> reverses ` set rs \<Longrightarrow> terms r = terms q \<Longrightarrow> amount r = - amount q \<Longrightarrow> ledger (rs @ [r])"

definition standing :: "'r list \<Rightarrow> 'r \<Rightarrow> bool" where
  "standing rs r \<longleftrightarrow> reverses r = None \<and> Some (rid r) \<notin> reverses ` set rs"

lemma ledger_ids: "ledger rs \<Longrightarrow> distinct (map rid rs)"
  by (induction rule: ledger.induct) auto

lemma ledger_targets: "ledger rs \<Longrightarrow> reverses ` set rs \<subseteq> insert None (Some ` rid ` set rs)"
  by (induction rule: ledger.induct) auto

lemma ledger_positive: "ledger rs \<Longrightarrow> r \<in> set rs \<Longrightarrow> reverses r = None \<Longrightarrow> 0 < amount r"
  by (induction rule: ledger.induct) auto

lemma ledger_once:
  "ledger rs \<Longrightarrow> r \<in> set rs \<Longrightarrow> q \<in> set rs \<Longrightarrow> reverses r = reverses q \<Longrightarrow> reverses r \<noteq> None \<Longrightarrow> r = q"
  by (induction rule: ledger.induct) (auto simp: image_iff)

text \<open>Dropping one row from a sum over rows with distinct ids.\<close>

lemma sum_without:
  assumes "distinct (map rid rs)" "q \<in> set rs" "P q"
  shows "sum_list (map amount (filter (\<lambda>r. P r \<and> rid r \<noteq> rid q) rs)) = sum_list (map amount (filter P rs)) - amount q"
  using assms
proof (induction rs)
  case (Cons x xs)
  show ?case
  proof (cases "x = q")
    case True
    then have "filter (\<lambda>r. P r \<and> rid r \<noteq> rid q) xs = filter P xs"
      using Cons.prems(1) by (intro filter_cong) (auto simp: image_iff)
    then show ?thesis using True Cons.prems(3) by simp
  next
    case False
    then have "q \<in> set xs" "rid x \<noteq> rid q" using Cons.prems(1,2) by (auto simp: image_iff)
    then show ?thesis using Cons by simp
  qed
qed simp

text \<open>The plain sum over any selection by terms is the sum of what stands.\<close>

lemma ledger_net:
  "ledger rs \<Longrightarrow> sum_list (map amount (filter (\<lambda>r. Q (terms r)) rs))
     = sum_list (map amount (filter (\<lambda>r. Q (terms r) \<and> standing rs r) rs))"
proof (induction rule: ledger.induct)
  case (original rs r)
  have "standing (rs @ [r]) r"
    using original(2,3) ledger_targets[OF original(1)] by (auto simp: standing_def)
  moreover have "standing (rs @ [r]) x = standing rs x" for x
    using original(3) by (auto simp: standing_def)
  ultimately show ?case using original.IH by simp
next
  case (reversal rs r q)
  have new: "standing (rs @ [r]) x \<longleftrightarrow> standing rs x \<and> rid x \<noteq> rid q" for x
    using reversal(5) by (auto simp: standing_def)
  have q: "standing rs q" using reversal(4,6) by (simp add: standing_def)
  have r: "\<not> standing rs r" using reversal(5) by (simp add: standing_def)
  show ?case
  proof (cases "Q (terms q)")
    case True
    then show ?thesis
      using sum_without[OF ledger_ids[OF reversal(1)] reversal(3), of "\<lambda>x. Q (terms x) \<and> standing rs x"] q r reversal.IH reversal(7,8)
      by (simp add: new conj_assoc)
  next
    case False
    have "filter (\<lambda>x. Q (terms x) \<and> standing rs x \<and> rid x \<noteq> rid q) rs = filter (\<lambda>x. Q (terms x) \<and> standing rs x) rs"
    proof (rule filter_cong[OF refl])
      fix x assume "x \<in> set rs"
      then have "rid x = rid q \<Longrightarrow> x = q" using ledger_ids[OF reversal(1)] reversal(3) by (auto simp: distinct_map dest: inj_onD)
      then show "(Q (terms x) \<and> standing rs x \<and> rid x \<noteq> rid q) = (Q (terms x) \<and> standing rs x)" using False by auto
    qed
    then show ?thesis using False reversal.IH reversal(7) r by (simp add: new)
  qed
qed simp

end

text \<open>A service that only ever posts to such a table.\<close>

locale reversal_ledger = reversal_rows rid reverses amount terms
  for rid :: "'r \<Rightarrow> string" and reverses :: "'r \<Rightarrow> string option" and amount :: "'r \<Rightarrow> rat" and terms :: "'r \<Rightarrow> 'a" +
  fixes rows :: "'s \<Rightarrow> 'r list"
    and exec :: "pydatetime \<Rightarrow> string \<Rightarrow> 'op \<Rightarrow> 's \<Rightarrow> 's option"
  assumes exec_ledger: "ledger (rows s) \<Longrightarrow> exec now nid op s = Some s' \<Longrightarrow> ledger (rows s')"
begin

lemma run_ledger: "ledger (rows s) \<Longrightarrow> ledger (rows (run_ops exec ops s))"
proof (induction ops arbitrary: s)
  case (Cons step ops)
  obtain now nid op where "step = (now, nid, op)" by (cases step)
  then show ?case using Cons exec_ledger by (auto split: option.split)
qed simp

end

end
