(* ===== verification/Private_Capital.thy ===== *)
theory Private_Capital
  imports Market_Rates Decimal_Ctx Reversal_Ledger
begin

text \<open>
  Private capital (\<open>private_capital/commitment_service.py\<close>, \<open>private_capital/capital_flow_service.py\<close>): commitments on the
  bitemporal protocol with a currency that never changes, and the capital calls and distributions posted against them, corrected
  only by full reversals. The three tables are one state. A currency code is three letters A to Z; the source, which asks
  \<open>isalpha\<close> and that the code is its own upper case, also lets capital letters outside ASCII through.
\<close>

section \<open>State\<close>

type_synonym commitment_key = "string \<times> string"

record capital_call =
  cf_id :: string
  cf_tenant :: string
  cf_portfolio :: string
  cf_instrument :: string
  cf_version :: string
  cf_date :: int
  cf_amount :: decimal
  cf_currency :: string
  cf_type :: string
  cf_external_ref :: "string option"
  cf_reverses :: "string option"
  cf_at :: pydatetime

record distribution = capital_call +
  di_recallable :: bool

text \<open>The audit event of a flow: its type, the row, what it reverses and why.\<close>

datatype flow_event =
    FlowCreated string string
  | FlowReversed string string string string

record private_capital =
  pc_portfolios :: portfolio_db
  pc_instruments :: "instrument list"
  pc_dq :: dq_db
  pc_commitments :: "commitment_key fr_db"
  pc_calls :: "capital_call list"
  pc_distributions :: "distribution list"
  pc_flow_events :: "(flow_event \<times> pydatetime) list"
  pc_flow_origins :: "string list"

type_synonym 'r outcome = "commitment_key fr_error + private_capital \<times> 'r"

section \<open>Validators\<close>

definition max_amount :: rat where
  "max_amount = 99999999999999999999 / 1000000"

text \<open>\<open>amount.quantize(AMOUNT_QUANTUM)\<close> under the default context: 28 digits, ties to even.\<close>

definition quantize_default :: "nat \<Rightarrow> rat \<Rightarrow> rat option" where
  "quantize_default s x =
     (if 10 ^ 28 \<le> \<bar>half_even (x * 10 ^ s)\<bar> then None else Some (of_int (half_even (x * 10 ^ s)) / 10 ^ s))"

definition validate_amount :: "decimal \<Rightarrow> 'k fr_error + unit" where
  "validate_amount a =
     (if \<not> is_finite a then Inl (BadValue ''finite'')
      else case quantize_default 6 (dec_val a) of
        None \<Rightarrow> Inl (BadValue ''envelope'')
      | Some q \<Rightarrow>
          if q \<le> 0 then Inl (BadValue ''positive'')
          else if max_amount < q then Inl (BadValue ''maximum'') else Inr ())"

definition is_upper :: "char \<Rightarrow> bool" where
  "is_upper c \<longleftrightarrow> (of_char c :: nat) \<in> {65..90}"

definition validate_currency :: "string \<Rightarrow> 'k fr_error + unit" where
  "validate_currency c = (if length c \<noteq> 3 \<or> \<not> list_all is_upper c then Inl (BadValue ''currency_code'') else Inr ())"

definition assert_targets_in_tenant :: "private_capital \<Rightarrow> string \<Rightarrow> string \<Rightarrow> string \<Rightarrow> 'k fr_error + unit" where
  "assert_targets_in_tenant s p i t =
     (case resolve_portfolio (pc_portfolios s) p t of
        Inl _ \<Rightarrow> Inl (BadValue ''portfolio'')
      | Inr _ \<Rightarrow> (case resolve_instrument (pc_instruments s) i t :: 'k fr_error + instrument of
            Inl _ \<Rightarrow> Inl (BadValue ''instrument'') | Inr _ \<Rightarrow> Inr ()))"

section \<open>The gate\<close>

definition run_required_gate ::
  "(string \<Rightarrow> string) \<Rightarrow> string \<Rightarrow> string \<Rightarrow> string \<times> string \<Rightarrow> bool \<Rightarrow> string \<Rightarrow> dq_db \<Rightarrow> dq_error + dq_db" where
  "run_required_gate ids t target rule missing target_id db =
     bindR (ensure_rule ids t (fst rule) (snd rule) ''NOT_NULL'' present_params target db) (\<lambda>(db, r).
     checked (run_quality_check [] (dr_id r) [[''present'' \<mapsto> if missing then VNone else VBool True]]
       (Some target) (Some target_id) None None db))"

section \<open>Commitments\<close>

definition commitment_family :: fr_family where
  "commitment_family = \<lparr>fam_fields = [''committed_amount'', ''commitment_date''],
     fam_not_null = [''committed_amount'', ''currency_code'', ''commitment_date''],
     ev_create = ''PRIVATE.COMMITMENT_CREATE'', ev_update = ''PRIVATE.COMMITMENT_UPDATE'',
     ev_correction = ''PRIVATE.COMMITMENT_CORRECTION''\<rparr>"

definition commitment_attr :: "commitment_key version \<Rightarrow> string \<Rightarrow> field_value" where
  "commitment_attr r f =
     (if f = ''portfolio_id'' then VText (fst (v_key r)) else if f = ''instrument_id'' then VText (snd (v_key r))
      else row_get (v_content r) f)"

definition run_commitment_gate :: "(string \<Rightarrow> string \<Rightarrow> string) \<Rightarrow> commitment_key version \<Rightarrow> dq_db \<Rightarrow> commitment_key fr_error + dq_db" where
  "run_commitment_gate ids row db =
     gate_error (run_required_gate (ids (v_tenant row)) (v_tenant row) ''commitment''
       (''commitment.required_fields'', ''commitment required fields present'')
       (list_ex (\<lambda>f. commitment_attr row f = VNone)
          [''portfolio_id'', ''instrument_id'', ''committed_amount'', ''currency_code'', ''commitment_date''])
       (v_id row) db)"

definition store_commitment ::
  "private_capital \<Rightarrow> 'e + (dq_db \<times> commitment_key fr_db) \<times> commitment_key version
     \<Rightarrow> 'e + private_capital \<times> commitment_key version" where
  "store_commitment s res = bindR res (\<lambda>((dq, db), row). Inr (s\<lparr>pc_dq := dq, pc_commitments := db\<rparr>, row))"

text \<open>What the amount column holds: the value bound half up at six places.\<close>

definition bound_amount :: "decimal \<Rightarrow> 'k fr_error + decimal" where
  "bound_amount a = (case bind_numeric 20 6 a of None \<Rightarrow> Inl (BadValue ''numeric'') | Some b \<Rightarrow> Inr b)"

definition current_commitment :: "private_capital \<Rightarrow> string \<Rightarrow> string \<Rightarrow> string \<Rightarrow> commitment_key fr_error + commitment_key version option" where
  "current_commitment s t p i = current_open (pc_commitments s) t (p, i)"

definition require_current_commitment :: "private_capital \<Rightarrow> string \<Rightarrow> string \<Rightarrow> string \<Rightarrow> commitment_key fr_error + commitment_key version" where
  "require_current_commitment s t p i =
     bindR (current_commitment s t p i) (\<lambda>c. case c of None \<Rightarrow> Inl (NoCurrent (p, i)) | Some r \<Rightarrow> Inr r)"

definition currency_of :: "commitment_key version \<Rightarrow> field_value" where
  "currency_of r = row_get (v_content r) ''currency_code''"

definition assert_chain_currency :: "commitment_key version \<Rightarrow> string \<Rightarrow> 'k fr_error + unit" where
  "assert_chain_currency prior c = (if VText c \<noteq> currency_of prior then Inl (BadValue ''chain currency'') else Inr ())"

definition capture_commitment ::
  "(string \<Rightarrow> string \<Rightarrow> string) \<Rightarrow> string \<Rightarrow> string \<Rightarrow> string \<Rightarrow> decimal \<Rightarrow> string \<Rightarrow> int \<Rightarrow> pydatetime option
    \<Rightarrow> string \<Rightarrow> pydatetime \<Rightarrow> private_capital \<Rightarrow> commitment_key version outcome" where
  "capture_commitment ids t p i amt cur date from nid now s =
     bindR (validate_amount amt) (\<lambda>_.
     bindR (validate_currency cur) (\<lambda>_.
     bindR (assert_targets_in_tenant s p i t) (\<lambda>_.
     bindR (bound_amount amt) (\<lambda>b.
       store_commitment s (create_version commitment_family (run_commitment_gate ids) t (p, i)
         [''committed_amount'' \<mapsto> VDec b, ''currency_code'' \<mapsto> VText cur, ''commitment_date'' \<mapsto> VDate date]
         None from nid now (pc_dq s, pc_commitments s))))))"

definition supersede_commitment ::
  "(string \<Rightarrow> string \<Rightarrow> string) \<Rightarrow> string \<Rightarrow> string \<Rightarrow> string \<Rightarrow> decimal \<Rightarrow> string \<Rightarrow> int \<Rightarrow> pydatetime
    \<Rightarrow> string \<Rightarrow> pydatetime \<Rightarrow> private_capital \<Rightarrow> commitment_key version outcome" where
  "supersede_commitment ids t p i amt cur date eff nid now s =
     bindR (validate_amount amt) (\<lambda>_.
     bindR (validate_currency cur) (\<lambda>_.
     bindR (require_current_commitment s t p i) (\<lambda>prior.
     bindR (assert_chain_currency prior cur) (\<lambda>_.
     bindR (bound_amount amt) (\<lambda>b.
       store_commitment s (supersede_version commitment_family (run_commitment_gate ids) t (p, i) eff
         [(''committed_amount'', VDec b), (''commitment_date'', VDate date)] None nid now (pc_dq s, pc_commitments s)))))))"

definition correct_commitment ::
  "(string \<Rightarrow> string \<Rightarrow> string) \<Rightarrow> string \<Rightarrow> string \<Rightarrow> string \<Rightarrow> decimal \<Rightarrow> string \<Rightarrow> int option
    \<Rightarrow> string \<Rightarrow> pydatetime \<Rightarrow> private_capital \<Rightarrow> commitment_key version outcome" where
  "correct_commitment ids t p i amt reason date nid now s =
     bindR (validate_amount amt) (\<lambda>_.
     if reason = [] then Inl (BadValue ''restatement_reason'') else
     bindR (require_current_commitment s t p i) (\<lambda>prior.
     bindR (bound_amount amt) (\<lambda>b.
       store_commitment s (correct_version commitment_family (run_commitment_gate ids) t prior reason
         ((''committed_amount'', VDec b) # (case date of None \<Rightarrow> [] | Some d \<Rightarrow> [(''commitment_date'', VDate d)]))
         None nid now (pc_dq s, pc_commitments s)))))"

definition reconstruct_commitment_as_of ::
  "private_capital \<Rightarrow> string \<Rightarrow> string \<Rightarrow> string \<Rightarrow> pydatetime \<Rightarrow> pydatetime \<Rightarrow> commitment_key fr_error + commitment_key version option" where
  "reconstruct_commitment_as_of s t p i valid_at known_at =
     reconstruct_as_of (pc_commitments s) t (p, i) valid_at (Some known_at) known_at"

definition given :: "'a option \<Rightarrow> 'a \<Rightarrow> bool" where
  "given f x \<longleftrightarrow> (case f of None \<Rightarrow> True | Some y \<Rightarrow> x = y)"

definition list_commitments :: "private_capital \<Rightarrow> string \<Rightarrow> string option \<Rightarrow> string option \<Rightarrow> commitment_key version list" where
  "list_commitments s t p i = sort_key v_key (filter (\<lambda>r. v_tenant r = t \<and> valid_to r = None \<and> system_to r = None
     \<and> given p (fst (v_key r)) \<and> given i (snd (v_key r))) (versions (pc_commitments s)))"

section \<open>Capital calls and distributions\<close>

definition call_types :: "string list" where
  "call_types = [''DRAWDOWN'', ''EQUALIZATION'', ''FEE'']"

definition distribution_types :: "string list" where
  "distribution_types = [''RETURN_OF_CAPITAL'', ''CAPITAL_GAIN'', ''INCOME'']"

definition validate_event_currency :: "commitment_key version \<Rightarrow> string \<Rightarrow> 'k fr_error + unit" where
  "validate_event_currency c cur = (if VText cur \<noteq> currency_of c then Inl (BadValue ''event currency'') else Inr ())"

text \<open>The insert, under the primary key and the unique index of the reversals.\<close>

definition insert_flow :: "'f capital_call_scheme \<Rightarrow> 'f capital_call_scheme list \<Rightarrow> 'k fr_error + 'f capital_call_scheme list" where
  "insert_flow r fs =
     (if cf_id r \<in> cf_id ` set fs then Inl (DuplicateId (cf_id r))
      else if cf_reverses r \<noteq> None \<and> cf_reverses r \<in> cf_reverses ` set fs then Inl DuplicateHead
      else Inr (fs @ [r]))"

text \<open>Every captured field of a row is set, so that the gate has nothing missing.\<close>

fun flow_attr :: "'f capital_call_scheme \<Rightarrow> string \<Rightarrow> field_value" where
  "flow_attr r f =
     (if f = ''portfolio_id'' then VText (cf_portfolio r) else if f = ''instrument_id'' then VText (cf_instrument r)
      else if f = ''event_date'' then VDate (cf_date r) else if f = ''amount'' then VDec (cf_amount r)
      else if f = ''currency_code'' then VText (cf_currency r) else if f = ''type'' then VText (cf_type r) else VNone)"

definition flow_fields :: "string list" where
  "flow_fields = [''portfolio_id'', ''instrument_id'', ''event_date'', ''amount'', ''currency_code'', ''type'']"

definition run_flow_gate :: "(string \<Rightarrow> string \<Rightarrow> string) \<Rightarrow> string \<Rightarrow> 'f capital_call_scheme \<Rightarrow> dq_db \<Rightarrow> 'k fr_error + dq_db" where
  "run_flow_gate ids entity r db =
     gate_error (run_required_gate (ids (cf_tenant r)) (cf_tenant r) entity
       (entity @ ''.required_fields'', entity @ '' required fields present'')
       (list_ex (\<lambda>f. flow_attr r f = VNone) flow_fields) (cf_id r) db)"

definition log_flow :: "flow_event \<Rightarrow> string \<Rightarrow> pydatetime \<Rightarrow> private_capital \<Rightarrow> private_capital" where
  "log_flow ev rid now s = s\<lparr>pc_flow_origins := pc_flow_origins s @ [rid], pc_flow_events := pc_flow_events s @ [(ev, now)]\<rparr>"

definition capture_capital_call ::
  "(string \<Rightarrow> string \<Rightarrow> string) \<Rightarrow> string \<Rightarrow> string \<Rightarrow> string \<Rightarrow> int \<Rightarrow> decimal \<Rightarrow> string \<Rightarrow> string \<Rightarrow> string option
    \<Rightarrow> string \<Rightarrow> pydatetime \<Rightarrow> private_capital \<Rightarrow> capital_call outcome" where
  "capture_capital_call ids t p i date amt cur kind ext nid now s =
     bindR (validate_amount amt) (\<lambda>_.
     if kind \<notin> set call_types then Inl (BadVocabulary ''call_type'' kind) else
     bindR (require_current_commitment s t p i) (\<lambda>c.
     bindR (validate_event_currency c cur) (\<lambda>_.
     bindR (bound_amount amt) (\<lambda>b.
     let row = \<lparr>cf_id = nid, cf_tenant = t, cf_portfolio = fst (v_key c), cf_instrument = snd (v_key c),
           cf_version = v_id c, cf_date = date, cf_amount = b, cf_currency = cur, cf_type = kind,
           cf_external_ref = ext, cf_reverses = None, cf_at = now\<rparr>
     in bindR (insert_flow row (pc_calls s)) (\<lambda>fs.
        bindR (run_flow_gate ids ''capital_call'' row (pc_dq s)) (\<lambda>dq.
        Inr (log_flow (FlowCreated ''PRIVATE.CAPITAL_CALL_CREATE'' nid) nid now (s\<lparr>pc_calls := fs, pc_dq := dq\<rparr>), row)))))))"

definition capture_distribution ::
  "(string \<Rightarrow> string \<Rightarrow> string) \<Rightarrow> string \<Rightarrow> string \<Rightarrow> string \<Rightarrow> int \<Rightarrow> decimal \<Rightarrow> string \<Rightarrow> string \<Rightarrow> bool \<Rightarrow> string option
    \<Rightarrow> string \<Rightarrow> pydatetime \<Rightarrow> private_capital \<Rightarrow> distribution outcome" where
  "capture_distribution ids t p i date amt cur kind recallable ext nid now s =
     bindR (validate_amount amt) (\<lambda>_.
     if kind \<notin> set distribution_types then Inl (BadVocabulary ''distribution_type'' kind) else
     bindR (require_current_commitment s t p i) (\<lambda>c.
     bindR (validate_event_currency c cur) (\<lambda>_.
     bindR (bound_amount amt) (\<lambda>b.
     let row = \<lparr>cf_id = nid, cf_tenant = t, cf_portfolio = fst (v_key c), cf_instrument = snd (v_key c),
           cf_version = v_id c, cf_date = date, cf_amount = b, cf_currency = cur, cf_type = kind,
           cf_external_ref = ext, cf_reverses = None, cf_at = now, di_recallable = recallable\<rparr>
     in bindR (insert_flow row (pc_distributions s)) (\<lambda>fs.
        bindR (run_flow_gate ids ''distribution'' row (pc_dq s)) (\<lambda>dq.
        Inr (log_flow (FlowCreated ''PRIVATE.DISTRIBUTION_CREATE'' nid) nid now (s\<lparr>pc_distributions := fs, pc_dq := dq\<rparr>), row)))))))"

text \<open>The reversal: the target resolved in the tenant, and only an original that is not reversed yet.\<close>

definition resolve_event :: "string \<Rightarrow> string \<Rightarrow> 'f capital_call_scheme list \<Rightarrow> 'k fr_error + 'f capital_call_scheme" where
  "resolve_event rid t fs =
     bindR (scalar_one_or_none (filter (\<lambda>r. cf_id r = rid \<and> cf_tenant r = t) fs))
       (\<lambda>row. case row of None \<Rightarrow> Inl (VersionNotVisible rid) | Some r \<Rightarrow> Inr r)"

definition validate_reversal_target :: "'f capital_call_scheme \<Rightarrow> 'f capital_call_scheme list \<Rightarrow> 'k fr_error + unit" where
  "validate_reversal_target target fs =
     (if cf_reverses target \<noteq> None then Inl (BadValue ''itself a reversal'')
      else bindR (scalar_one_or_none (filter (\<lambda>r. cf_reverses r = Some (cf_id target) \<and> cf_tenant r = cf_tenant target) fs))
        (\<lambda>existing. case existing of None \<Rightarrow> Inr () | Some r \<Rightarrow> Inl (BadValue ''already reversed'')))"

fun negate :: "decimal \<Rightarrow> decimal" where
  "negate (Fin c e) = Fin (- c) e"
| "negate (Special s) = Special (if s = ''Infinity'' then ''-Infinity'' else if s = ''-Infinity'' then ''Infinity'' else s)"

definition reversal_of :: "string \<Rightarrow> pydatetime \<Rightarrow> 'f capital_call_scheme \<Rightarrow> 'f capital_call_scheme" where
  "reversal_of nid now target = target\<lparr>cf_id := nid, cf_amount := negate (cf_amount target), cf_external_ref := None,
     cf_reverses := Some (cf_id target), cf_at := now\<rparr>"

definition reverse_capital_call ::
  "string \<Rightarrow> string \<Rightarrow> string \<Rightarrow> string \<Rightarrow> pydatetime \<Rightarrow> private_capital \<Rightarrow> capital_call outcome" where
  "reverse_capital_call rid t reason nid now s =
     (if reason = [] then Inl (BadValue ''reason'') else
     bindR (resolve_event rid t (pc_calls s)) (\<lambda>target.
     bindR (validate_reversal_target target (pc_calls s)) (\<lambda>_.
     bindR (insert_flow (reversal_of nid now target) (pc_calls s)) (\<lambda>fs.
     Inr (log_flow (FlowReversed ''PRIVATE.CAPITAL_CALL_REVERSE'' nid rid reason) nid now (s\<lparr>pc_calls := fs\<rparr>),
       reversal_of nid now target)))))"

definition reverse_distribution ::
  "string \<Rightarrow> string \<Rightarrow> string \<Rightarrow> string \<Rightarrow> pydatetime \<Rightarrow> private_capital \<Rightarrow> distribution outcome" where
  "reverse_distribution rid t reason nid now s =
     (if reason = [] then Inl (BadValue ''reason'') else
     bindR (resolve_event rid t (pc_distributions s)) (\<lambda>target.
     bindR (validate_reversal_target target (pc_distributions s)) (\<lambda>_.
     bindR (insert_flow (reversal_of nid now target) (pc_distributions s)) (\<lambda>fs.
     Inr (log_flow (FlowReversed ''PRIVATE.DISTRIBUTION_REVERSE'' nid rid reason) nid now (s\<lparr>pc_distributions := fs\<rparr>),
       reversal_of nid now target)))))"

definition list_flows :: "'f capital_call_scheme list \<Rightarrow> string \<Rightarrow> string option \<Rightarrow> string option \<Rightarrow> 'f capital_call_scheme list" where
  "list_flows fs t p i = sort_key (\<lambda>r. (cf_date r, utc_of (cf_at r)))
     (filter (\<lambda>r. cf_tenant r = t \<and> given p (cf_portfolio r) \<and> given i (cf_instrument r)) fs)"

definition list_capital_calls :: "private_capital \<Rightarrow> string \<Rightarrow> string option \<Rightarrow> string option \<Rightarrow> capital_call list" where
  "list_capital_calls s t p i = list_flows (pc_calls s) t p i"

definition list_distributions :: "private_capital \<Rightarrow> string \<Rightarrow> string option \<Rightarrow> string option \<Rightarrow> distribution list" where
  "list_distributions s t p i = list_flows (pc_distributions s) t p i"

section \<open>Runs\<close>

datatype capital_op =
    CaptureCommitment string string decimal string int "pydatetime option"
  | SupersedeCommitment string string decimal string int pydatetime
  | CorrectCommitment string string decimal string "int option"
  | CaptureCall string string int decimal string string "string option"
  | CaptureDistribution string string int decimal string string bool "string option"
  | ReverseCall string string
  | ReverseDistribution string string

fun capital_exec ::
  "(string \<Rightarrow> string \<Rightarrow> string) \<Rightarrow> pydatetime \<Rightarrow> string \<Rightarrow> string \<times> capital_op \<Rightarrow> private_capital \<Rightarrow> private_capital option" where
  "capital_exec ids now nid (t, CaptureCommitment p i a c d from) s = committed (capture_commitment ids t p i a c d from nid now s)"
| "capital_exec ids now nid (t, SupersedeCommitment p i a c d eff) s = committed (supersede_commitment ids t p i a c d eff nid now s)"
| "capital_exec ids now nid (t, CorrectCommitment p i a reason d) s = committed (correct_commitment ids t p i a reason d nid now s)"
| "capital_exec ids now nid (t, CaptureCall p i d a c ty ext) s = committed (capture_capital_call ids t p i d a c ty ext nid now s)"
| "capital_exec ids now nid (t, CaptureDistribution p i d a c ty rc ext) s = committed (capture_distribution ids t p i d a c ty rc ext nid now s)"
| "capital_exec ids now nid (t, ReverseCall rid reason) s = committed (reverse_capital_call rid t reason nid now s)"
| "capital_exec ids now nid (t, ReverseDistribution rid reason) s = committed (reverse_distribution rid t reason nid now s)"

text \<open>A correction acts on the current head, so that no closed version is ever reopened.\<close>

definition no_reopening :: "string \<times> capital_op \<Rightarrow> private_capital \<Rightarrow> bool" where
  "no_reopening op s \<longleftrightarrow> False"

section \<open>Amounts\<close>

lemma half_even_pos: "0 < half_even x \<Longrightarrow> 1 / 2 < x"
proof (rule ccontr)
  assume a: "0 < half_even x" "\<not> 1 / 2 < x"
  have "\<lfloor>1 / 2 :: rat\<rfloor> = 0" by (rule floor_unique) simp_all
  then have "half_even (1 / 2) = 0" by (simp add: half_even_def)
  then show False using half_even_mono[of x "1 / 2"] a by simp
qed

lemma half_even_below: "half_even x \<le> 99999999999999999999 \<Longrightarrow> x < 99999999999999999999 + 1 / 2"
proof (rule ccontr)
  assume a: "half_even x \<le> 99999999999999999999" "\<not> x < 99999999999999999999 + 1 / 2"
  have "\<lfloor>99999999999999999999 + 1 / 2 :: rat\<rfloor> = 99999999999999999999" by (rule floor_unique) simp_all
  then have "half_even (99999999999999999999 + 1 / 2) = 100000000000000000000" by (simp add: half_even_def)
  then show False using half_even_mono[of "99999999999999999999 + 1 / 2" x] a by simp
qed

text \<open>An accepted amount is never refused by its column, and is stored as a positive number.\<close>

lemma accepted_amount_binds:
  assumes "validate_amount a = Inr ()"
  shows "\<exists>b. bind_numeric 20 6 a = Some b \<and> 0 < dec_val b"
proof (cases a)
  case (Fin c e)
  let ?y = "dec_val (Fin c e) * 10 ^ 6" and ?q = "rescale_half_up 6 c e"
  have acc: "0 < half_even ?y" "half_even ?y \<le> 99999999999999999999"
  proof -
    have "0 < (of_int (half_even ?y) / 10 ^ 6 :: rat)" "(of_int (half_even ?y) / 10 ^ 6 :: rat) \<le> max_amount"
      using assms by (auto simp: Fin validate_amount_def quantize_default_def simp del: dec_val.simps split: if_splits)
    then show "0 < half_even ?y" "half_even ?y \<le> 99999999999999999999"
      by (simp_all add: max_amount_def zero_less_divide_iff divide_le_eq del: dec_val.simps)
  qed
  have "\<bar>of_int ?q - ?y\<bar> \<le> 1 / 2" by (rule rescale_error)
  then have "(0 :: rat) < of_int ?q" "(of_int ?q :: rat) < 100000000000000000000"
    using half_even_pos[OF acc(1)] half_even_below[OF acc(2)] by linarith+
  then have q: "0 < ?q" "?q < 10 ^ 20" by simp_all
  then have "bind_numeric 20 6 (Fin c e) = Some (Fin ?q (- 6))" by (simp add: Let_def)
  then show ?thesis using q(1) Fin by (auto simp: pow10_def zero_less_divide_iff intro!: exI[of _ "Fin ?q (- 6)"])
qed (use assms in \<open>simp add: validate_amount_def\<close>)

text \<open>The validator rounds ties to even, the column away from zero: half a quantum is refused although it would be stored as one.\<close>

lemma tie_refused_but_storable:
  "validate_amount (Fin 5 (-7)) = Inl (BadValue ''positive'')" "bind_numeric 20 6 (Fin 5 (-7)) = Some (Fin 1 (-6))"
proof -
  have "\<lfloor>1 / 2 :: rat\<rfloor> = 0" by (rule floor_unique) simp_all
  then have "half_even (1 / 2) = 0" by (simp add: half_even_def)
  then show "validate_amount (Fin 5 (-7)) = Inl (BadValue ''positive'')"
    by (simp add: validate_amount_def quantize_default_def pow10_def)
  show "bind_numeric 20 6 (Fin 5 (-7)) = Some (Fin 1 (-6))" by (simp add: rescale_half_up_def half_up_div_def)
qed

lemma bound_amount_pos: "validate_amount a = Inr () \<Longrightarrow> bound_amount a = Inr b \<Longrightarrow> 0 < dec_val b"
  using accepted_amount_binds[of a] by (auto simp: bound_amount_def split: option.splits)

lemma negate_val [simp]: "dec_val (negate d) = - dec_val d"
  by (cases d) simp_all

section \<open>The tables as ledgers\<close>

abbreviation flow_ledger :: "('f capital_call_scheme \<Rightarrow> 'a) \<Rightarrow> 'f capital_call_scheme list \<Rightarrow> bool" where
  "flow_ledger trm \<equiv> reversal_rows.ledger cf_id cf_reverses (\<lambda>r. dec_val (cf_amount r)) trm"

definition call_terms :: "'f capital_call_scheme \<Rightarrow> string \<times> string \<times> string \<times> int \<times> string \<times> string" where
  "call_terms r = (cf_tenant r, cf_portfolio r, cf_instrument r, cf_date r, cf_currency r, cf_type r)"

definition distribution_terms :: "distribution \<Rightarrow> (string \<times> string \<times> string \<times> int \<times> string \<times> string) \<times> bool" where
  "distribution_terms r = (call_terms r, di_recallable r)"

lemma capture_posts:
  "insert_flow r fs = Inr fs' \<Longrightarrow> cf_reverses r = None \<Longrightarrow> 0 < dec_val (cf_amount r) \<Longrightarrow> flow_ledger trm fs \<Longrightarrow> flow_ledger trm fs'"
  by (auto simp: insert_flow_def split: if_splits intro: reversal_rows.ledger.original)

lemma resolve_event_Inr: "resolve_event rid t fs = Inr q \<Longrightarrow> q \<in> set fs \<and> cf_id q = rid \<and> cf_tenant q = t"
proof -
  assume "resolve_event rid t fs = Inr q"
  then have "q \<in> set (filter (\<lambda>r. cf_id r = rid \<and> cf_tenant r = t) fs)"
    by (cases "filter (\<lambda>r. cf_id r = rid \<and> cf_tenant r = t) fs" rule: scalar_one_or_none.cases)
      (auto simp: resolve_event_def)
  then show ?thesis by simp
qed

lemma reverse_posts:
  assumes "resolve_event rid t fs = Inr q" "validate_reversal_target q fs = Inr ()"
    "insert_flow (reversal_of nid now q) fs = Inr fs'" "trm (reversal_of nid now q) = trm q" "flow_ledger trm fs"
  shows "flow_ledger trm fs'"
proof -
  have q: "q \<in> set fs" "cf_reverses q = None" using resolve_event_Inr[OF assms(1)] assms(2)
    by (auto simp: validate_reversal_target_def split: if_splits)
  have "nid \<notin> cf_id ` set fs" "Some (cf_id q) \<notin> cf_reverses ` set fs" "fs' = fs @ [reversal_of nid now q]"
    using assms(3) by (auto simp: insert_flow_def reversal_of_def split: if_splits)
  then show ?thesis
    using reversal_rows.ledger.reversal[OF assms(5), of "reversal_of nid now q" q] q assms(4)
    by (simp add: reversal_of_def)
qed

lemmas capital_ops_defs = capture_commitment_def supersede_commitment_def correct_commitment_def store_commitment_def
  capture_capital_call_def capture_distribution_def reverse_capital_call_def reverse_distribution_def log_flow_def

lemmas capital_effects = committed_Some bindR_Inr Let_def capital_ops_defs

interpretation calls: reversal_ledger cf_id cf_reverses "\<lambda>r :: capital_call. dec_val (cf_amount r)" call_terms pc_calls "capital_exec ids" for ids
proof
  fix s s' now nid op
  assume a: "flow_ledger call_terms (pc_calls s)" "capital_exec ids now nid op s = Some s'"
  obtain t cop where op: "op = (t, cop)" by (cases op)
  show "flow_ledger call_terms (pc_calls s')"
    using a unfolding op
    by (cases cop) (auto simp: capital_effects bound_amount_pos split: if_splits elim!: capture_posts reverse_posts
        simp: call_terms_def reversal_of_def)
qed

interpretation dists: reversal_ledger cf_id cf_reverses "\<lambda>r :: distribution. dec_val (cf_amount r)" distribution_terms pc_distributions "capital_exec ids" for ids
proof
  fix s s' now nid op
  assume a: "flow_ledger distribution_terms (pc_distributions s)" "capital_exec ids now nid op s = Some s'"
  obtain t cop where op: "op = (t, cop)" by (cases op)
  show "flow_ledger distribution_terms (pc_distributions s')"
    using a unfolding op
    by (cases cop) (auto simp: capital_effects bound_amount_pos split: if_splits elim!: capture_posts reverse_posts
        simp: distribution_terms_def call_terms_def reversal_of_def)
qed

interpretation commits: fr_binder pc_commitments "capital_exec ids" no_reopening for ids
proof
  fix clock s now op nid s'
  assume wf: "fr_wf clock (pc_commitments s)" "clock \<le> utc_of now" and ok: "capital_exec ids now nid op s = Some s'"
  obtain t cop where op: "op = (t, cop)" by (cases op)
  show "fr_wf (utc_of now) (pc_commitments s')"
  proof (cases cop)
    case (CorrectCommitment p i a reason d)
    then obtain prior kw x' db' new where "current_open (pc_commitments s) t (p, i) = Inr (Some prior)" "s' = s\<lparr>pc_dq := x', pc_commitments := db'\<rparr>"
      "correct_version commitment_family (run_commitment_gate ids) t prior reason kw None nid now (pc_dq s, pc_commitments s) = Inr ((x', db'), new)"
      using ok unfolding op
      by (auto simp: capital_effects require_current_commitment_def current_commitment_def split: if_splits option.splits)
    then show ?thesis using current_open_Some[OF wf(1)] correct_view(2)[OF wf, of prior t] by (fastforce simp: is_head_def)
  qed (use wf ok op in \<open>auto simp: capital_effects fr_wf_later split: if_splits elim: create_view(2) supersede_view\<close>)
qed

section \<open>One currency per commitment\<close>

definition currency_chains :: "private_capital \<Rightarrow> (string \<times> commitment_key \<times> field_value) set" where
  "currency_chains s = (\<lambda>r. (v_tenant r, v_key r, currency_of r)) ` set (versions (pc_commitments s))"

definition in_chain :: "private_capital \<Rightarrow> 'f capital_call_scheme \<Rightarrow> bool" where
  "in_chain s r \<longleftrightarrow> (cf_tenant r, (cf_portfolio r, cf_instrument r), VText (cf_currency r)) \<in> currency_chains s"

definition one_currency :: "private_capital \<Rightarrow> bool" where
  "one_currency s \<longleftrightarrow> (\<forall>t k c c'. (t, k, c) \<in> currency_chains s \<longrightarrow> (t, k, c') \<in> currency_chains s \<longrightarrow> c = c')
     \<and> (\<forall>r\<in>set (pc_calls s). in_chain s r) \<and> (\<forall>r\<in>set (pc_distributions s). in_chain s r)"

lemma head_in_chains:
  "fr_wf clock (pc_commitments s) \<Longrightarrow> current_open (pc_commitments s) t k = Inr (Some h) \<Longrightarrow>
     (t, k, currency_of h) \<in> currency_chains s \<and> v_tenant h = t \<and> v_key h = k"
  using current_open_Some[of clock "pc_commitments s" t k h] by (force simp: currency_chains_def is_head_def)

lemma create_chains:
  assumes "fr_wf clock (pc_commitments s)"
    "create_version fam gate t k cols m from nid now (x, pc_commitments s) = Inr ((x', db'), new)"
  shows "currency_chains (s\<lparr>pc_dq := x', pc_commitments := db'\<rparr>) = insert (t, k, currency_of new) (currency_chains s)"
    and "(t, k, c) \<notin> currency_chains s"
proof -
  note E = create_version_effect[OF assms(2)]
  show "currency_chains (s\<lparr>pc_dq := x', pc_commitments := db'\<rparr>) = insert (t, k, currency_of new) (currency_chains s)"
    using E by (simp add: currency_chains_def)
  have "v_tenant r \<noteq> t \<or> v_key r \<noteq> k" if "r \<in> set (versions (pc_commitments s))" for r
    using assms(1) E that unfolding fr_wf_def by metis
  then show "(t, k, c) \<notin> currency_chains s" by (auto simp: currency_chains_def)
qed

lemma supersede_chains:
  assumes "fr_wf clock (pc_commitments s)" "map_of kw ''currency_code'' = None"
    "supersede_version fam gate t k eff kw m nid now (x, pc_commitments s) = Inr ((x', db'), new)"
  shows "currency_chains (s\<lparr>pc_dq := x', pc_commitments := db'\<rparr>) = currency_chains s"
  by (rule supersede_version_effect[OF assms(1,3)])
    (use assms(2) in \<open>auto simp: currency_chains_def currency_of_def row_get_def map_add_def is_head_def split: option.splits\<close>)

lemma correct_chains:
  assumes "fr_wf clock (pc_commitments s)" "map_of kw ''currency_code'' = None" "row \<in> set (versions (pc_commitments s))" "v_tenant row = t"
    "correct_version fam gate t row reason kw m nid now (x, pc_commitments s) = Inr ((x', db'), new)"
  shows "currency_chains (s\<lparr>pc_dq := x', pc_commitments := db'\<rparr>) = currency_chains s"
  by (rule correct_version_effect[OF assms(1,3,5)])
    (use assms(2,4) in \<open>auto simp: currency_chains_def currency_of_def row_get_def map_add_def split: option.splits\<close>)

lemma chains_frame [simp]:
  "currency_chains (s\<lparr>pc_calls := fs, pc_dq := d, pc_flow_origins := os, pc_flow_events := es\<rparr>) = currency_chains s"
  "currency_chains (s\<lparr>pc_distributions := ds, pc_dq := d, pc_flow_origins := os, pc_flow_events := es\<rparr>) = currency_chains s"
  "currency_chains (s\<lparr>pc_calls := fs, pc_flow_origins := os, pc_flow_events := es\<rparr>) = currency_chains s"
  "currency_chains (s\<lparr>pc_distributions := ds, pc_flow_origins := os, pc_flow_events := es\<rparr>) = currency_chains s"
  by (simp_all add: currency_chains_def)

lemma one_currency_same: "one_currency s \<Longrightarrow> currency_chains s' = currency_chains s \<Longrightarrow> pc_calls s' = pc_calls s \<Longrightarrow>
    pc_distributions s' = pc_distributions s \<Longrightarrow> one_currency s'"
  by (simp add: one_currency_def in_chain_def)

lemma insert_flow_Inr: "insert_flow r fs = Inr fs' \<Longrightarrow> fs' = fs @ [r]"
  by (simp add: insert_flow_def split: if_splits)

lemma capture_in_chain:
  assumes "fr_wf clock (pc_commitments s)" "require_current_commitment s t p i = Inr c" "validate_event_currency c cur = Inr ()"
  shows "(t, v_key c, VText cur) \<in> currency_chains s"
  using assms head_in_chains[OF assms(1), of t "(p, i)" c]
  by (auto simp: require_current_commitment_def current_commitment_def validate_event_currency_def bindR_Inr split: option.splits if_splits)

lemma current_prior:
  assumes "fr_wf clock (pc_commitments s)" "require_current_commitment s t p i = Inr c"
  shows "c \<in> set (versions (pc_commitments s))" "v_tenant c = t"
  using assms current_open_Some[OF assms(1), of t "(p, i)" c]
  by (auto simp: require_current_commitment_def current_commitment_def bindR_Inr is_head_def split: option.splits)

lemma exec_one_currency:
  assumes wf: "fr_wf clock (pc_commitments s)" and inv: "one_currency s" and ok: "capital_exec ids now nid op s = Some s'"
  shows "one_currency s'"
proof -
  obtain t cop where op: "op = (t, cop)" by (cases op)
  show ?thesis
  proof (cases cop)
    case (CaptureCommitment p i a c d start)
    then obtain x' db' new cols where c: "s' = s\<lparr>pc_dq := x', pc_commitments := db'\<rparr>"
      "create_version commitment_family (run_commitment_gate ids) t (p, i) cols None start nid now (pc_dq s, pc_commitments s) = Inr ((x', db'), new)"
      using ok unfolding op by (auto simp: capital_effects)
    show ?thesis
      using inv create_chains[OF wf c(2)] unfolding c(1) one_currency_def in_chain_def by auto
  next
    case (SupersedeCommitment p i a c d eff)
    then show ?thesis using ok inv unfolding op
      by (auto simp: capital_effects elim!: one_currency_same supersede_chains[OF wf, rotated])
  next
    case (CorrectCommitment p i a reason d)
    then obtain prior kw x' db' new where c: "require_current_commitment s t p i = Inr prior" "s' = s\<lparr>pc_dq := x', pc_commitments := db'\<rparr>"
      "correct_version commitment_family (run_commitment_gate ids) t prior reason kw None nid now (pc_dq s, pc_commitments s) = Inr ((x', db'), new)"
      "map_of kw ''currency_code'' = None"
      using ok unfolding op by (auto simp: capital_effects split: if_splits option.splits)
    show ?thesis using correct_chains[OF wf c(4) current_prior[OF wf c(1)] c(3)] inv
      by (auto simp: c(2) elim!: one_currency_same)
  next
    case (CaptureCall p i d a c ty ext)
    then show ?thesis using ok inv capture_in_chain[OF wf] unfolding op
      by (auto simp: capital_effects one_currency_def in_chain_def split: if_splits dest!: insert_flow_Inr)
  next
    case (CaptureDistribution p i d a c ty rc ext)
    then show ?thesis using ok inv capture_in_chain[OF wf] unfolding op
      by (auto simp: capital_effects one_currency_def in_chain_def split: if_splits dest!: insert_flow_Inr)
  next
    case (ReverseCall rid reason)
    then show ?thesis using ok inv unfolding op
      by (auto simp: capital_effects one_currency_def in_chain_def reversal_of_def split: if_splits dest!: insert_flow_Inr resolve_event_Inr)
  next
    case (ReverseDistribution rid reason)
    then show ?thesis using ok inv unfolding op
      by (auto simp: capital_effects one_currency_def in_chain_def reversal_of_def split: if_splits dest!: insert_flow_Inr resolve_event_Inr)
  qed
qed

lemma run_one_currency:
  "fr_wf clock (pc_commitments s) \<Longrightarrow> orderly (capital_exec ids) no_reopening clock ops s \<Longrightarrow> one_currency s \<Longrightarrow>
     one_currency (run_ops (capital_exec ids) ops s)"
proof (induction ops arbitrary: clock s)
  case (Cons step ops)
  obtain now nid op where step: "step = (now, nid, op)" by (cases step)
  have c: "clock \<le> utc_of now" using Cons.prems(2) by (simp add: step)
  show ?case
  proof (cases "capital_exec ids now nid op s")
    case None
    then show ?thesis using Cons.IH[of "utc_of now" s] Cons.prems fr_wf_later[OF Cons.prems(1) c] by (simp add: step)
  next
    case (Some s')
    then show ?thesis
      using Cons.IH[of "utc_of now" s'] Cons.prems commits.exec_wf[OF Cons.prems(1) c _ Some] exec_one_currency[OF Cons.prems(1,3) Some]
      by (simp add: step no_reopening_def)
  qed
qed simp

section \<open>Properties\<close>

definition empty_capital :: "portfolio_db \<Rightarrow> instrument list \<Rightarrow> private_capital" where
  "empty_capital pdb ins = \<lparr>pc_portfolios = pdb, pc_instruments = ins,
     pc_dq = \<lparr>dq_rules = [], dq_results = [], dq_events = []\<rparr>,
     pc_commitments = \<lparr>versions = [], fr_events = [], origin_edges = []\<rparr>,
     pc_calls = [], pc_distributions = [], pc_flow_events = [], pc_flow_origins = []\<rparr>"

text \<open>
  C31. Plain sums over the capital calls and over the distributions are right without looking at reversals: whatever
  captures and reversals ran, refused ones included, the sum of the amounts of all rows that satisfy any condition on tenant, portfolio,
  instrument, date, currency, type (and recallability) is the sum over the captured events that are not reversed, each of which has
  a positive amount.
\<close>
theorem capital_flows_net_out:
  assumes "s = run_ops (capital_exec ids) ops (empty_capital pdb ins)"
  shows "(\<Sum>r\<leftarrow>filter (\<lambda>r. Q (call_terms r)) (pc_calls s). dec_val (cf_amount r))
      = (\<Sum>r\<leftarrow>filter (\<lambda>r. Q (call_terms r) \<and> cf_reverses r = None \<and> Some (cf_id r) \<notin> cf_reverses ` set (pc_calls s)) (pc_calls s).
          dec_val (cf_amount r))
    \<and> (\<Sum>r\<leftarrow>filter (\<lambda>r. Q' (distribution_terms r)) (pc_distributions s). dec_val (cf_amount r))
      = (\<Sum>r\<leftarrow>filter (\<lambda>r. Q' (distribution_terms r) \<and> cf_reverses r = None \<and> Some (cf_id r) \<notin> cf_reverses ` set (pc_distributions s))
            (pc_distributions s). dec_val (cf_amount r))
    \<and> (\<forall>r\<in>set (pc_calls s). cf_reverses r = None \<longrightarrow> 0 < dec_val (cf_amount r))
    \<and> (\<forall>r\<in>set (pc_distributions s). cf_reverses r = None \<longrightarrow> 0 < dec_val (cf_amount r))"
proof -
  have C: "calls.ledger (pc_calls s)" and D: "dists.ledger (pc_distributions s)"
    unfolding assms by (intro calls.run_ledger dists.run_ledger; simp add: empty_capital_def calls.ledger.empty dists.ledger.empty)+
  show ?thesis
    using calls.ledger_net[OF C, of Q] dists.ledger_net[OF D, of Q'] calls.ledger_positive[OF C] dists.ledger_positive[OF D]
    by (simp add: calls.standing_def dists.standing_def)
qed

text \<open>
  C32. The currency of a commitment is fixed for good: while the clock does not go back, all versions of a commitment, through every
  supersede and correction, have one currency, and every capital call and distribution, reversals included, is in the
  currency of a version of its commitment.
\<close>
theorem commitment_currency_is_fixed:
  assumes "orderly (capital_exec ids) no_reopening clock ops (empty_capital pdb ins)"
    and "s = run_ops (capital_exec ids) ops (empty_capital pdb ins)"
  shows "(\<forall>u\<in>set (versions (pc_commitments s)). \<forall>v\<in>set (versions (pc_commitments s)).
        v_tenant u = v_tenant v \<longrightarrow> v_key u = v_key v \<longrightarrow> currency_of u = currency_of v)
    \<and> (\<forall>r\<in>set (pc_calls s). \<exists>v\<in>set (versions (pc_commitments s)).
        v_tenant v = cf_tenant r \<and> v_key v = (cf_portfolio r, cf_instrument r) \<and> currency_of v = VText (cf_currency r))
    \<and> (\<forall>r\<in>set (pc_distributions s). \<exists>v\<in>set (versions (pc_commitments s)).
        v_tenant v = cf_tenant r \<and> v_key v = (cf_portfolio r, cf_instrument r) \<and> currency_of v = VText (cf_currency r))"
proof -
  have "fr_wf clock (pc_commitments (empty_capital pdb ins))" "one_currency (empty_capital pdb ins)"
    by (simp_all add: empty_capital_def fr_wf_empty one_currency_def currency_chains_def)
  then have inv: "one_currency s" unfolding assms(2) using run_one_currency assms(1) by blast
  have ex: "\<exists>v\<in>set (versions (pc_commitments s)). v_tenant v = t \<and> v_key v = k \<and> currency_of v = c" if "(t, k, c) \<in> currency_chains s" for t k c
    using that by (auto simp: currency_chains_def)
  have mem: "(v_tenant v, v_key v, currency_of v) \<in> currency_chains s" if "v \<in> set (versions (pc_commitments s))" for v
    using that by (simp add: currency_chains_def)
  have "currency_of u = currency_of v"
    if "u \<in> set (versions (pc_commitments s))" "v \<in> set (versions (pc_commitments s))" "v_tenant u = v_tenant v" "v_key u = v_key v" for u v
  proof -
    have "(v_tenant v, v_key v, currency_of u) \<in> currency_chains s" using mem[OF that(1)] that(3,4) by simp
    then show ?thesis using inv mem[OF that(2)] unfolding one_currency_def by blast
  qed
  then show ?thesis using inv ex unfolding one_currency_def in_chain_def by blast
qed

definition capital_sample0 :: private_capital where
  "capital_sample0 = empty_capital (bk_portfolios sample_bk0) (bk_instruments sample_bk0)"

text \<open>100 committed, two calls of which the first is reversed, a call in another currency that is refused, a smaller commitment.\<close>

definition capital_sample_ops :: "(pydatetime \<times> string \<times> string \<times> capital_op) list" where
  "capital_sample_ops =
     [(Naive 10, ''c1'', ''t'', CaptureCommitment ''p'' ''i'' (Fin 100 0) ''USD'' 0 None),
      (Naive 20, ''k1'', ''t'', CaptureCall ''p'' ''i'' 5 (Fin 40 0) ''USD'' ''DRAWDOWN'' None),
      (Naive 30, ''k2'', ''t'', CaptureCall ''p'' ''i'' 6 (Fin 25 0) ''USD'' ''FEE'' None),
      (Naive 40, ''k3'', ''t'', CaptureCall ''p'' ''i'' 6 (Fin 25 0) ''EUR'' ''FEE'' None),
      (Naive 50, ''k4'', ''t'', ReverseCall ''k1'' ''typo''),
      (Naive 60, ''k5'', ''t'', ReverseCall ''k1'' ''again''),
      (Naive 70, ''c2'', ''t'', SupersedeCommitment ''p'' ''i'' (Fin 20 0) ''USD'' 0 (Naive 65))]"

definition capital_sample :: private_capital where
  "capital_sample = run_ops (capital_exec sample_ids) capital_sample_ops capital_sample0"

lemma capital_sample_rows:
  "map cf_id (pc_calls capital_sample) = [''k1'', ''k2'', ''k4'']"
  "map cf_amount (pc_calls capital_sample) = [Fin 40000000 (-6), Fin 25000000 (-6), Fin (-40000000) (-6)]"
  "map v_id (versions (pc_commitments capital_sample)) = [''c1'', ''c2'']"
  by code_simp+


theorem capital_flows_net_out_witness:
  "length (pc_calls capital_sample) = 3 \<and>
     (\<Sum>r\<leftarrow>pc_calls capital_sample. dec_val (cf_amount r)) = 25 \<and>
     (\<Sum>r\<leftarrow>filter (\<lambda>r. cf_reverses r = None \<and> Some (cf_id r) \<notin> cf_reverses ` set (pc_calls capital_sample)) (pc_calls capital_sample).
        dec_val (cf_amount r)) = 25"
proof -
  have len: "length (pc_calls capital_sample) = 3" using arg_cong[OF capital_sample_rows(1), of length] by simp
  have "(\<Sum>r\<leftarrow>pc_calls capital_sample. dec_val (cf_amount r)) = (\<Sum>d\<leftarrow>map cf_amount (pc_calls capital_sample). dec_val d)"
    by (simp add: o_def)
  also have "\<dots> = 25" unfolding capital_sample_rows by (simp add: pow10_def)
  finally show ?thesis
    using len capital_flows_net_out[OF capital_sample_def[unfolded capital_sample0_def], of "\<lambda>_. True"] by simp
qed

theorem commitment_currency_is_fixed_witness:
  "map v_id (versions (pc_commitments capital_sample)) = [''c1'', ''c2''] \<and> length (pc_calls capital_sample) = 3 \<and>
     list_all (\<lambda>r. \<exists>v\<in>set (versions (pc_commitments capital_sample)).
        v_tenant v = cf_tenant r \<and> v_key v = (cf_portfolio r, cf_instrument r) \<and> currency_of v = VText (cf_currency r))
       (pc_calls capital_sample)"
proof -
  have len: "length (pc_calls capital_sample) = 3" using arg_cong[OF capital_sample_rows(1), of length] by simp
  have "orderly (capital_exec sample_ids) no_reopening 0 capital_sample_ops capital_sample0" by code_simp
  then show ?thesis
    unfolding list_all_iff capital_sample0_def
    using len capital_sample_rows(3) commitment_currency_is_fixed[OF _ capital_sample_def[unfolded capital_sample0_def], of 0] by blast
qed

end
