(* ===== verification/Pacing.thy ===== *)
theory Pacing
  imports Pacing_Kernel Shares Governed_Run Private_Capital
begin

text \<open>
  The governed pacing number (\<open>pacing/service.py\<close>, the pacing builder of \<open>snapshot/service.py\<close>): pin the commitment, its calls and
  distributions and the latest mark; assemble the anchor from the pins alone; project; store the periods of a governed run. A pinned
  amount is the rational its text denotes, a pin that does not parse has no content. The model registry is an argument: what the
  declared parameters of a version are, or that it may not be bound.
\<close>

section \<open>Pins\<close>

record commitment_pin =
  cp_portfolio :: string
  cp_instrument :: string
  cp_currency :: string
  cp_committed :: rat
  cp_date :: date

datatype pin =
    PinCommitment "commitment_pin option"
  | PinCall "rat option"
  | PinDistribution "(bool \<times> rat) option"
  | PinMark "(rat \<times> string) option"
  | PinOther

record pacing_snapshot =
  ps_id :: string
  ps_tenant :: string
  ps_purpose :: string
  ps_as_of :: date
  ps_pins :: "pin list"

fun number_in :: "field_value \<Rightarrow> rat option" where
  "number_in (VDec d) = (if is_finite d then Some (dec_val d) else None)"
| "number_in v = None"

definition commitment_content :: "commitment_key version \<Rightarrow> commitment_pin option" where
  "commitment_content r =
     (case (number_in (row_get (v_content r) ''committed_amount''), currency_of r, row_get (v_content r) ''commitment_date'') of
        (Some a, VText c, VDate d) \<Rightarrow> Some \<lparr>cp_portfolio = fst (v_key r), cp_instrument = snd (v_key r), cp_currency = c,
          cp_committed = a, cp_date = from_ord d\<rparr>
      | _ \<Rightarrow> None)"

definition mark_content :: "valuation_key version \<Rightarrow> (rat \<times> string) option" where
  "mark_content r =
     (case (number_in (row_get (v_content r) ''mark_value''), row_get (v_content r) ''currency_code'') of
        (Some a, VText c) \<Rightarrow> Some (a, c) | (Some a, VNone) \<Rightarrow> Some (a, []) | _ \<Rightarrow> None)"

definition latest_mark :: "valuation_key fr_db \<Rightarrow> string \<Rightarrow> string \<Rightarrow> string \<Rightarrow> valuation_key version option" where
  "latest_mark db t p i = latest_by (\<lambda>r. snd (snd (v_key r)))
     (filter (\<lambda>r. v_tenant r = t \<and> fst (v_key r) = p \<and> fst (snd (v_key r)) = i \<and> valid_to r = None \<and> system_to r = None) (versions db))"

definition build_pacing_snapshot ::
  "private_capital \<Rightarrow> valuation_key fr_db \<Rightarrow> string \<Rightarrow> string \<Rightarrow> string \<Rightarrow> string \<Rightarrow> pydatetime \<Rightarrow> string + pacing_snapshot" where
  "build_pacing_snapshot s vals t p i sid now =
     (case assert_targets_in_tenant s p i t :: commitment_key fr_error + unit of
        Inl e \<Rightarrow> Inl ''not visible''
      | Inr _ \<Rightarrow>
     (case current_commitment s t p i of
        Inl e \<Rightarrow> Inl ''MultipleResultsFound''
      | Inr None \<Rightarrow> Inl ''no current commitment''
      | Inr (Some c) \<Rightarrow>
          let mark = latest_mark vals t p i in
          Inr \<lparr>ps_id = sid, ps_tenant = t, ps_purpose = ''PACING_INPUT'',
            ps_as_of = (case mark of None \<Rightarrow> date_of (utc_of now) | Some m \<Rightarrow> from_ord (snd (snd (v_key m)))),
            ps_pins = PinCommitment (commitment_content c)
              # map (\<lambda>r. PinCall (if is_finite (cf_amount r) then Some (dec_val (cf_amount r)) else None)) (list_capital_calls s t (Some p) (Some i))
              @ map (\<lambda>r. PinDistribution (if is_finite (cf_amount r) then Some (di_recallable r, dec_val (cf_amount r)) else None))
                  (list_distributions s t (Some p) (Some i))
              @ (case mark of None \<Rightarrow> [] | Some m \<Rightarrow> [PinMark (mark_content m)])\<rparr>))"

section \<open>The anchor\<close>

record anchor_state =
  as_portfolio :: string
  as_instrument :: string
  as_currency :: string
  as_commitment_date :: date
  as_of_date :: date
  as_age :: int
  as_unfunded :: rat
  as_nav :: rat

definition complete_annual_periods :: "date \<Rightarrow> date \<Rightarrow> int option" where
  "complete_annual_periods vintage as_of =
     (let years = year as_of - year vintage in
      case nth_anniversary vintage years of None \<Rightarrow> None | Some a \<Rightarrow> Some (if as_of < a then years - 1 else years))"

definition commitment_pins :: "pin list \<Rightarrow> commitment_pin option list" where
  "commitment_pins ps = List.map_filter (\<lambda>p. case p of PinCommitment c \<Rightarrow> Some c | _ \<Rightarrow> None) ps"

definition call_pins :: "pin list \<Rightarrow> rat option list" where
  "call_pins ps = List.map_filter (\<lambda>p. case p of PinCall a \<Rightarrow> Some a | _ \<Rightarrow> None) ps"

definition distribution_pins :: "pin list \<Rightarrow> (bool \<times> rat) option list" where
  "distribution_pins ps = List.map_filter (\<lambda>p. case p of PinDistribution a \<Rightarrow> Some a | _ \<Rightarrow> None) ps"

definition mark_pins :: "pin list \<Rightarrow> (rat \<times> string) option list" where
  "mark_pins ps = List.map_filter (\<lambda>p. case p of PinMark a \<Rightarrow> Some a | _ \<Rightarrow> None) ps"

definition restored :: "(bool \<times> rat) list \<Rightarrow> rat list" where
  "restored ds = map snd (filter fst ds)"

definition adjudicate_anchor :: "private_capital \<Rightarrow> string \<Rightarrow> pacing_snapshot \<Rightarrow> string + anchor_state" where
  "adjudicate_anchor s t snap =
     (let ps = ps_pins snap in
      if length (commitment_pins ps) \<noteq> 1 then Inl ''one commitment''
      else if 1 < length (mark_pins ps) then Inl ''one mark''
      else case (hd (commitment_pins ps), those (call_pins ps), those (distribution_pins ps), those (mark_pins ps)) of
        (Some c, Some calls, Some ds, Some marks) \<Rightarrow>
          if \<exists>m\<in>set marks. snd m \<noteq> cp_currency c then Inl ''mark currency''
          else (case assert_targets_in_tenant s (cp_portfolio c) (cp_instrument c) t :: commitment_key fr_error + unit of
            Inl e \<Rightarrow> Inl ''not visible''
          | Inr _ \<Rightarrow>
            let paid_in = dsum 28 calls;
                unfunded = dadd 28 (dsub 28 (cp_committed c) paid_in) (dsum 28 (restored ds))
            in if unfunded < 0 \<or> cp_committed c < unfunded then Inl ''incoherent book''
            else if marks = [] \<and> paid_in \<noteq> 0 then Inl ''funded without a mark''
            else if ps_as_of snap < cp_date c then Inl ''as-of before commitment''
            else (case complete_annual_periods (cp_date c) (ps_as_of snap) of
                None \<Rightarrow> Inl ''ValueError''
              | Some age \<Rightarrow> Inr \<lparr>as_portfolio = cp_portfolio c, as_instrument = cp_instrument c, as_currency = cp_currency c,
                  as_commitment_date = cp_date c, as_of_date = ps_as_of snap, as_age = age, as_unfunded = unfunded,
                  as_nav = (case marks of [] \<Rightarrow> 0 | m # _ \<Rightarrow> fst m)\<rparr>))
      | _ \<Rightarrow> Inl ''malformed pin'')"

section \<open>The governed number\<close>

record pacing_row =
  pr_id :: string
  pr_tenant :: string
  pr_run :: string
  pr_snapshot :: string
  pr_model :: string
  pr_portfolio :: string
  pr_instrument :: string
  pr_start :: date
  pr_end :: date
  pr_period :: pacing_period
  pr_currency :: string

text \<open>The table: ids and the grain (run, period) are unique, a money column holds values below ten to the 22nd.\<close>

definition money_column :: "rat \<Rightarrow> bool" where
  "money_column x \<longleftrightarrow> \<bar>x\<bar> < 10 ^ 22"

definition period_fits :: "pacing_period \<Rightarrow> bool" where
  "period_fits p \<longleftrightarrow> money_column (projected_call p) \<and> money_column (projected_distribution p) \<and> money_column (projected_nav p)
     \<and> money_column (unfunded_end p)"

definition store_pacing_rows :: "pacing_row list \<Rightarrow> pacing_row list \<Rightarrow> string + pacing_row list" where
  "store_pacing_rows old new =
     (if \<not> distinct (map pr_id (old @ new)) \<or> \<not> distinct (map (\<lambda>r. (pr_run r, period_index (pr_period r))) (old @ new)) then Inl ''IntegrityError''
      else if \<not> list_all (\<lambda>r. period_fits (pr_period r)) new then Inl ''numeric field overflow''
      else Inr (old @ new))"

definition max_abs :: rat where "max_abs = 10 ^ 21"

text \<open>The gaps: one for every value past the envelope.\<close>

definition period_gaps :: "pacing_period \<Rightarrow> string list" where
  "period_gaps p = map fst (filter (\<lambda>(name, v). max_abs < \<bar>v\<bar>)
     [(''projected_call'', projected_call p), (''projected_distribution'', projected_distribution p),
      (''projected_nav'', projected_nav p), (''unfunded_end'', unfunded_end p)])"

definition result_row ::
  "(int \<Rightarrow> string) \<Rightarrow> string \<Rightarrow> string \<Rightarrow> string \<Rightarrow> anchor_state \<Rightarrow> governed_run \<Rightarrow> pacing_period \<Rightarrow> pacing_row option" where
  "result_row nid t sid mid an run p =
     (case anniversary_window (as_commitment_date an) (period_index p) of
        None \<Rightarrow> None
      | Some (a, b) \<Rightarrow> Some \<lparr>pr_id = nid (period_index p), pr_tenant = t, pr_run = run_id run, pr_snapshot = sid, pr_model = mid,
          pr_portfolio = as_portfolio an, pr_instrument = as_instrument an, pr_start = a, pr_end = b, pr_period = p,
          pr_currency = as_currency an\<rparr>)"

definition compute_pacing ::
  "(int \<Rightarrow> string) \<Rightarrow> string \<Rightarrow> string \<Rightarrow> string \<Rightarrow> anchor_state \<Rightarrow> pacing_period list \<Rightarrow> governed_run
     \<Rightarrow> string + pacing_row list \<times> string list" where
  "compute_pacing nid t sid mid an periods run =
     (case those (map (result_row nid t sid mid an run) periods) of
        None \<Rightarrow> Inl ''ValueError''
      | Some rows \<Rightarrow> Inr (rows, concat (map period_gaps periods)))"

definition pacing_request :: "string \<Rightarrow> string \<Rightarrow> string \<Rightarrow> string \<Rightarrow> string \<Rightarrow> string \<Rightarrow> run_request" where
  "pacing_request t actor code env mid sid =
     \<lparr>rq_tenant = t, rq_actor = actor, rq_run_type = ''PACING_PROJECTION'', rq_snapshot = sid, rq_model_version = Some mid,
      rq_code_version = code, rq_environment = env, rq_rule_code = ''pacing.projection.presence'',
      rq_rule_name = ''pacing projection produced in-envelope rows'', rq_rule_target = ''pacing_projection_result'',
      rq_result_type = ''pacing_projection_result'', rq_scope = None\<rparr>"

text \<open>
  The kernel is given the amounts of the anchor as they are: the decimal a rational stands for, at the first scale that holds it. A
  denominator that divides a power of ten is reached within as many steps as its size.
\<close>

fun decimal_scale :: "nat \<Rightarrow> nat \<Rightarrow> int \<Rightarrow> nat" where
  "decimal_scale 0 k d = k"
| "decimal_scale (Suc n) k d = (if d dvd 10 ^ k then k else decimal_scale n (Suc k) d)"

definition decimal_of :: "rat \<Rightarrow> decimal" where
  "decimal_of x =
     (let (n, d) = quotient_of x; k = decimal_scale (6 + nat d) 0 d in Fin (half_up (x * 10 ^ k)) (- int k))"

definition kernel_anchor :: "anchor_state \<Rightarrow> pacing_anchor" where
  "kernel_anchor an = \<lparr>current_age = as_age an, an_unfunded = decimal_of (as_unfunded an), an_nav = decimal_of (as_nav an)\<rparr>"

record pacing_db =
  pd_capital :: private_capital
  pd_snapshots :: "pacing_snapshot list"
  pd_runs :: "pacing_row run_db"

definition format_reason :: "dq_error \<Rightarrow> string list \<Rightarrow> string" where
  "format_reason e gaps = concat gaps"

definition run_pacing_projection ::
  "(rat \<Rightarrow> rat \<Rightarrow> rat) \<Rightarrow> (string \<Rightarrow> string \<Rightarrow> string + pacing_params) \<Rightarrow> (string \<Rightarrow> string \<Rightarrow> string) \<Rightarrow> (int \<Rightarrow> string)
     \<Rightarrow> string \<Rightarrow> string \<Rightarrow> string \<Rightarrow> string \<Rightarrow> string \<Rightarrow> string \<Rightarrow> string \<Rightarrow> pydatetime \<Rightarrow> pacing_db
     \<Rightarrow> run_error + pacing_db \<times> pacing_row run_outcome" where
  "run_pacing_projection pw declared ids nid t actor code env mid sid rid now db =
     (if code = [] \<or> env = [] \<or> actor = [] \<or> mid = [] \<or> sid = [] then Inl (RunRefused ''required'')
      else case declared t mid of Inl e \<Rightarrow> Inl (RunRefused e) | Inr params \<Rightarrow>
     (case find (\<lambda>s. ps_id s = sid \<and> ps_tenant s = t) (pd_snapshots db) of None \<Rightarrow> Inl (SnapshotNotVisible sid) | Some snap \<Rightarrow>
      if ps_purpose snap \<noteq> ''PACING_INPUT'' then Inl (RunRefused ''purpose'')
      else case adjudicate_anchor (pd_capital db) t snap of Inl e \<Rightarrow> Inl (RunRefused e) | Inr an \<Rightarrow>
      if fund_life params \<le> as_age an then Inl (RunRefused ''past fund life'')
      else case project_commitment pw params (kernel_anchor an) of Inl e \<Rightarrow> Inl (RunRefused e) | Inr periods \<Rightarrow>
      bindR (execute_governed_run store_pacing_rows pr_id ids (pacing_request t actor code env mid sid)
          (compute_pacing nid t sid mid an periods) format_reason rid now (pd_runs db)) (\<lambda>(runs, out).
        Inr (db\<lparr>pd_runs := runs\<rparr>, out))))"

section \<open>Reads\<close>

definition list_pacing_rows :: "string \<Rightarrow> string \<Rightarrow> pacing_row run_db \<Rightarrow> pacing_row list" where
  "list_pacing_rows rid t db = sort_key (\<lambda>r. period_index (pr_period r)) (filter (\<lambda>r. pr_run r = rid \<and> pr_tenant r = t) (rb_rows db))"

definition resolve_pacing_run :: "string \<Rightarrow> string \<Rightarrow> pacing_row run_db \<Rightarrow> run_error + governed_run" where
  "resolve_pacing_run rid t db = resolve_run_of_type rid t ''PACING_PROJECTION'' db"

definition resolve_pacing_row :: "string \<Rightarrow> string \<Rightarrow> pacing_row run_db \<Rightarrow> pacing_row option" where
  "resolve_pacing_row i t db = one_or_none (filter (\<lambda>r. pr_id r = i \<and> pr_tenant r = t) (rb_rows db))"

definition list_pacing_projections ::
  "string \<Rightarrow> string option \<Rightarrow> string option \<Rightarrow> pydatetime option \<Rightarrow> pacing_row run_db \<Rightarrow> pacing_row list" where
  "list_pacing_projections t portfolio instrument as_of db =
     list_governed_results (map calc_run.truncate (rb_runs db)) pr_run pr_tenant (\<lambda>r. period_index (pr_period r)) (rb_rows db) t
       (\<lambda>c r. opt_filter portfolio (\<lambda>p. pr_portfolio r = p) \<and> opt_filter instrument (\<lambda>i. pr_instrument r = i)) None as_of"

definition latest_pacing_projection :: "string \<Rightarrow> string \<Rightarrow> string \<Rightarrow> pydatetime option \<Rightarrow> pacing_row run_db \<Rightarrow> pacing_row list" where
  "latest_pacing_projection t portfolio instrument as_of db =
     latest_run_rows pr_run (list_pacing_projections t (Some portfolio) (Some instrument) as_of db)"

section \<open>Anniversaries\<close>

lemma replace_date_28:
  "1 \<le> m \<Longrightarrow> m \<le> 12 \<Longrightarrow> replace_date y m 28 = (if 1 \<le> y \<and> y \<le> 9999 then Some (Date y m 28) else None)"
  by (auto simp: replace_date_def valid_date_def days_in_month_def)

lemma nth_anniversary_iff:
  assumes "valid_date v"
  shows "nth_anniversary v n = None \<longleftrightarrow> \<not> (1 \<le> year v + n \<and> year v + n \<le> 9999)"
    and "nth_anniversary v n = Some a \<Longrightarrow> year a = year v + n"
proof -
  have m: "1 \<le> month v" "month v \<le> 12" using assms by (auto simp: valid_date_def)
  show "nth_anniversary v n = None \<longleftrightarrow> \<not> (1 \<le> year v + n \<and> year v + n \<le> 9999)"
    unfolding nth_anniversary_def replace_date_28[OF m] by (auto simp: replace_date_def valid_date_def)
  show "nth_anniversary v n = Some a \<Longrightarrow> year a = year v + n"
    unfolding nth_anniversary_def replace_date_28[OF m] by (auto simp: replace_date_def split: if_splits)
qed

lemma nth_anniversary_0: "valid_date v \<Longrightarrow> year v \<le> 9999 \<Longrightarrow> nth_anniversary v 0 = Some v"
  by (simp add: nth_anniversary_def replace_date_def)

text \<open>The age counts the anniversaries that have passed.\<close>

lemma age_counts_anniversaries:
  assumes v: "valid_date v" "v \<le> as_of" and y: "year as_of \<le> 9999"
  shows "\<exists>age a. complete_annual_periods v as_of = Some age \<and> 0 \<le> age \<and> nth_anniversary v age = Some a \<and> a \<le> as_of \<and>
    (\<forall>b. nth_anniversary v (age + 1) = Some b \<longrightarrow> as_of < b)"
proof -
  define n where "n = year as_of - year v"
  have yv: "1 \<le> year v" "year v \<le> year as_of" using v by (auto simp: valid_date_def less_eq_date_def)
  then have n0: "0 \<le> n" by (simp add: n_def)
  have "nth_anniversary v n \<noteq> None" using nth_anniversary_iff(1)[OF v(1), of n] yv y by (simp add: n_def)
  then obtain a where a: "nth_anniversary v n = Some a" by blast
  have ya: "year a = year as_of" using nth_anniversary_iff(2)[OF v(1) a] by (simp add: n_def)
  show ?thesis
  proof (cases "as_of < a")
    case False
    have "as_of < b" if "nth_anniversary v (n + 1) = Some b" for b
      using nth_anniversary_iff(2)[OF v(1) that] by (simp add: less_date_def n_def)
    then show ?thesis using False a n0 by (auto simp: complete_annual_periods_def n_def[symmetric])
  next
    case True
    have "n \<noteq> 0" using True a nth_anniversary_0[OF v(1)] yv y v(2) by auto
    then have n1: "1 \<le> n" using n0 by simp
    have "nth_anniversary v (n - 1) \<noteq> None" using nth_anniversary_iff(1)[OF v(1), of "n - 1"] yv y n1 by (simp add: n_def)
    then obtain b where b: "nth_anniversary v (n - 1) = Some b" by blast
    have "b \<le> as_of" using nth_anniversary_iff(2)[OF v(1) b] by (simp add: less_eq_date_def n_def)
    then show ?thesis using True a b n1 by (auto simp: complete_annual_periods_def n_def[symmetric])
  qed
qed

section \<open>The result table\<close>

interpretation projections: result_table store_pacing_rows pr_id pr_run pr_tenant
  by unfold_locales (auto simp: store_pacing_rows_def split: if_splits)

lemma computed_rows:
  assumes "compute_pacing nid t sid mid an periods run = Inr (rows, gaps)"
  shows "map pr_period rows = periods" "\<forall>r\<in>set rows. pr_run r = run_id run \<and> pr_tenant r = t" "gaps = concat (map period_gaps periods)"
    "\<forall>r\<in>set rows. anniversary_window (as_commitment_date an) (period_index (pr_period r)) = Some (pr_start r, pr_end r)"
proof -
  have t: "those (map (result_row nid t sid mid an run) periods) = Some rows" and g: "gaps = concat (map period_gaps periods)"
    using assms by (auto simp: compute_pacing_def split: option.splits)
  show "gaps = concat (map period_gaps periods)" by (rule g)
  have "those (map f ps) = Some rs \<Longrightarrow> list_all2 (\<lambda>p r. f p = Some r) ps rs" for f :: "pacing_period \<Rightarrow> pacing_row option" and ps rs
    by (induction ps arbitrary: rs) (auto split: option.splits)
  from this[OF t] have l: "list_all2 (\<lambda>p r. result_row nid t sid mid an run p = Some r) periods rows" .
  then show "map pr_period rows = periods" and "\<forall>r\<in>set rows. pr_run r = run_id run \<and> pr_tenant r = t"
    and "\<forall>r\<in>set rows. anniversary_window (as_commitment_date an) (period_index (pr_period r)) = Some (pr_start r, pr_end r)"
    by (induction rule: list_all2_induct) (auto simp: result_row_def split: option.splits)
qed

definition inside_envelope :: "pacing_period \<Rightarrow> bool" where
  "inside_envelope p \<longleftrightarrow> \<bar>projected_call p\<bar> \<le> 10 ^ 21 \<and> \<bar>projected_distribution p\<bar> \<le> 10 ^ 21 \<and> \<bar>projected_nav p\<bar> \<le> 10 ^ 21 \<and>
     \<bar>unfunded_end p\<bar> \<le> 10 ^ 21"

lemma no_gap: "period_gaps p = [] \<longleftrightarrow> inside_envelope p"
  by (auto simp: period_gaps_def max_abs_def inside_envelope_def not_less split: if_splits)

lemma inside_fits: "inside_envelope p \<Longrightarrow> \<not> beyond_ceiling p \<and> period_fits p"
  by (auto simp: inside_envelope_def beyond_ceiling_def magnitude_ceiling_def period_fits_def money_column_def)

lemma scale_reached: "d dvd 10 ^ j \<Longrightarrow> j \<le> k + n \<Longrightarrow> d dvd 10 ^ decimal_scale n k d"
proof (induction n k d rule: decimal_scale.induct)
  case (1 k d)
  then show ?case by (simp add: dvd_trans[OF _ le_imp_power_dvd])
qed auto

lemma decimal_of_money:
  assumes "at_scale 6 x"
  shows "dec_val (decimal_of x) = x" "is_finite (decimal_of x)"
proof -
  obtain n d where q: "quotient_of x = (n, d)" by (cases "quotient_of x")
  have d: "0 < d" and x: "x = of_int n / of_int d" and co: "coprime n d"
    using quotient_of_denom_pos[OF q] quotient_of_div[OF q] quotient_of_coprime[OF q] by simp_all
  obtain m where m: "x * 10 ^ 6 = of_int m" using assms by (auto simp: at_scale_def elim: Ints_cases)
  have "(of_int (n * 10 ^ 6) :: rat) = of_int (m * d)" using m d by (simp add: x field_simps)
  then have "n * 10 ^ 6 = m * d" by (simp only: of_int_eq_iff)
  then have "d dvd n * 10 ^ 6" by simp
  then have "d dvd 10 ^ 6" using co by (simp only: coprime_dvd_mult_right_iff coprime_commute[of d n])
  define k where "k = decimal_scale (6 + nat d) 0 d"
  have "d dvd 10 ^ k" unfolding k_def using \<open>d dvd 10 ^ 6\<close> by (rule scale_reached) simp
  then obtain e where e: "(10 :: int) ^ k = d * e" by (rule dvdE)
  have "(10 :: rat) ^ k = of_int (10 ^ k)" by simp
  also have "\<dots> = of_int d * of_int e" by (simp only: e of_int_mult)
  finally have "x * 10 ^ k = of_int (n * e)" using d by (simp add: x)
  then have "at_scale k x" by (simp add: at_scale_def)
  then have "quantized k x = x" by (rule quantized_exact)
  then show "dec_val (decimal_of x) = x" "is_finite (decimal_of x)"
    by (cases "k = 0"; simp add: decimal_of_def q k_def[symmetric] quantized_def pow10_def)+
qed

section \<open>What a run projected\<close>

lemma pacing_executes:
  assumes "run_pacing_projection pw declared ids nid t actor code env mid sid rid now db = Inr (db', out)"
  shows "\<exists>params snap an periods. declared t mid = Inr params \<and> snap \<in> set (pd_snapshots db) \<and> ps_id snap = sid \<and> ps_tenant snap = t \<and>
    adjudicate_anchor (pd_capital db) t snap = Inr an \<and> as_age an < fund_life params \<and>
    project_commitment pw params (kernel_anchor an) = Inr periods \<and>
    execute_governed_run store_pacing_rows pr_id ids (pacing_request t actor code env mid sid)
      (compute_pacing nid t sid mid an periods) format_reason rid now (pd_runs db) = Inr (pd_runs db', out) \<and>
    pd_capital db' = pd_capital db \<and> pd_snapshots db' = pd_snapshots db"
proof -
  obtain params where p: "declared t mid = Inr params" using assms by (auto simp: run_pacing_projection_def split: if_splits sum.splits)
  obtain snap where s: "find (\<lambda>s. ps_id s = sid \<and> ps_tenant s = t) (pd_snapshots db) = Some snap"
    using assms p by (auto simp: run_pacing_projection_def split: if_splits option.splits)
  obtain an where a: "adjudicate_anchor (pd_capital db) t snap = Inr an"
    using assms p s by (auto simp: run_pacing_projection_def split: if_splits sum.splits)
  obtain periods where pr: "project_commitment pw params (kernel_anchor an) = Inr periods"
    using assms p s a by (auto simp: run_pacing_projection_def split: if_splits sum.splits)
  obtain runs where ex: "execute_governed_run store_pacing_rows pr_id ids (pacing_request t actor code env mid sid)
          (compute_pacing nid t sid mid an periods) format_reason rid now (pd_runs db) = Inr (runs, out)" "db' = db\<lparr>pd_runs := runs\<rparr>"
      "as_age an < fund_life params"
    using assms p s a pr by (auto simp: run_pacing_projection_def bindR_Inr split: if_splits)
  have "snap \<in> set (pd_snapshots db)" "ps_id snap = sid" "ps_tenant snap = t" using find_SomeD[OF s] by auto
  then show ?thesis using p a pr ex by fastforce
qed

lemma projection_run:
  assumes "gates_only ids (rb_dq (pd_runs db))" "draws_apart ids"
    and "run_pacing_projection pw declared ids nid t actor code env mid sid rid now db = Inr (db', out)"
  shows "\<exists>params snap an periods rows gaps. declared t mid = Inr params \<and> snap \<in> set (pd_snapshots db) \<and> ps_id snap = sid \<and> ps_tenant snap = t \<and>
    adjudicate_anchor (pd_capital db) t snap = Inr an \<and> as_age an < fund_life params \<and>
    project_commitment pw params (kernel_anchor an) = Inr periods \<and>
    compute_pacing nid t sid mid an periods (started (pacing_request t actor code env mid sid) rid now) = Inr (rows, gaps) \<and>
    settled store_pacing_rows pr_id (pacing_request t actor code env mid sid) format_reason rid now rows gaps (pd_runs db) (pd_runs db') out"
  using pacing_executes[OF assms(3)] executed[OF assms(1,2)] by metis

text \<open>The anchor is exact when the pinned amounts are money that fits the context.\<close>

definition pinned :: "pacing_snapshot \<Rightarrow> commitment_pin \<Rightarrow> rat list \<Rightarrow> (bool \<times> rat) list \<Rightarrow> (rat \<times> string) list \<Rightarrow> bool" where
  "pinned snap c calls ds marks \<longleftrightarrow> commitment_pins (ps_pins snap) = [Some c] \<and> call_pins (ps_pins snap) = map Some calls \<and>
     distribution_pins (ps_pins snap) = map Some ds \<and> mark_pins (ps_pins snap) = map Some marks"

definition money_pins :: "commitment_pin \<Rightarrow> rat list \<Rightarrow> (bool \<times> rat) list \<Rightarrow> (rat \<times> string) list \<Rightarrow> bool" where
  "money_pins c calls ds marks \<longleftrightarrow> fits_book (cp_committed c # calls @ restored ds) \<and> cp_committed c \<le> 10 ^ 22 \<and>
     (\<forall>m\<in>set marks. at_scale 6 (fst m) \<and> fst m \<le> 10 ^ 22)"

lemma those_Some: "those (map Some xs) = Some xs"
  using those_map_Some[of xs Some "\<lambda>x. x"] by simp

lemma fits_append: "fits_book (xs @ ys) \<Longrightarrow> fits_book xs \<and> fits_book ys"
proof -
  assume f: "fits_book (xs @ ys)"
  have "0 \<le> sum_list (map abs zs)" for zs :: "rat list" by (rule sum_list_nonneg) auto
  note this[of xs] this[of ys]
  then show ?thesis using f \<open>0 \<le> sum_list (map abs xs)\<close> by (auto simp: fits_book_def distrib_right)
qed

lemma adjudicated:
  assumes a: "adjudicate_anchor s t snap = Inr an" and p: "pinned snap c calls ds marks" and m: "money_pins c calls ds marks"
  shows "as_unfunded an = cp_committed c - sum_list calls + sum_list (restored ds)" "0 \<le> as_unfunded an" "as_unfunded an \<le> 10 ^ 22"
    "at_scale 6 (as_unfunded an)" "at_scale 6 (as_nav an)" "as_nav an \<le> 10 ^ 22"
    "complete_annual_periods (cp_date c) (ps_as_of snap) = Some (as_age an)" "cp_date c \<le> ps_as_of snap" "as_commitment_date an = cp_date c"
    "as_nav an = (case marks of [] \<Rightarrow> 0 | m # _ \<Rightarrow> fst m)" "length marks \<le> 1"
proof -
  let ?C = "cp_committed c" and ?P = "sum_list calls" and ?R = "sum_list (restored ds)"
  have f: "fits_book (?C # calls @ restored ds)" using m by (simp add: money_pins_def)
  have fc: "fits_book calls" and fr: "fits_book (restored ds)"
    using fits_append[of "?C # calls" "restored ds"] fits_append[of "[?C]" calls] f by auto
  have fm: "fits_book (?C # map uminus calls @ restored ds)" using f by (auto simp: fits_book_def comp_def)
  then have fcm: "fits_book (?C # map uminus calls)" using fits_append[of "?C # map uminus calls" "restored ds"] by simp
  have paid: "dsum 28 calls = ?P" and rest: "dsum 28 (restored ds) = ?R" using book_sum fc fr by blast+
  have neg: "sum_list (map uminus calls) = - ?P" by (induction calls) auto
  have d: "dsub 28 ?C ?P = ?C - ?P"
    unfolding dsub_def using book_total[OF fcm] neg by (intro rnd_exact[of 6]) simp_all
  have u: "dadd 28 (?C - ?P) ?R = ?C - ?P + ?R"
    unfolding dadd_def using book_total[OF fm] neg by (intro rnd_exact[of 6]) (simp_all add: algebra_simps)
  have len: "length marks \<le> 1" using a p by (auto simp: adjudicate_anchor_def pinned_def Let_def those_Some split: if_splits)
  have r: "as_unfunded an = ?C - ?P + ?R \<and> 0 \<le> as_unfunded an \<and> as_unfunded an \<le> ?C \<and>
      complete_annual_periods (cp_date c) (ps_as_of snap) = Some (as_age an) \<and> cp_date c \<le> ps_as_of snap \<and> as_commitment_date an = cp_date c \<and>
      as_nav an = (case marks of [] \<Rightarrow> 0 | m # _ \<Rightarrow> fst m)"
    using a p unfolding adjudicate_anchor_def pinned_def
    by (auto simp: Let_def those_Some paid rest d u split: if_splits option.splits sum.splits)
  then show "as_unfunded an = ?C - ?P + ?R" "0 \<le> as_unfunded an" "as_unfunded an \<le> 10 ^ 22"
    "complete_annual_periods (cp_date c) (ps_as_of snap) = Some (as_age an)" "cp_date c \<le> ps_as_of snap" "as_commitment_date an = cp_date c"
    "as_nav an = (case marks of [] \<Rightarrow> 0 | m # _ \<Rightarrow> fst m)" "length marks \<le> 1"
    using m len by (auto simp: money_pins_def)
  show "at_scale 6 (as_unfunded an)" unfolding conjunct1[OF r] using book_total(1)[OF fm] neg by (simp add: algebra_simps)
  show "at_scale 6 (as_nav an)" "as_nav an \<le> 10 ^ 22" using r m by (cases marks; auto simp: money_pins_def)+
qed

text \<open>A completed run met no gap: every period it stored is inside the envelope.\<close>

lemma completed_settled:
  assumes "compute_pacing nid t sid mid an periods run = Inr (rows, gaps)"
    and "settled store_pacing_rows pr_id rq format_reason rid now rows gaps db db' out" "oc_status out = ''COMPLETED''"
  shows "oc_rows out = rows" "rb_rows db' = rb_rows db @ rows" "p \<in> set periods \<Longrightarrow> inside_envelope p"
proof -
  have g: "gaps = []"
  proof (rule ccontr)
    assume "gaps \<noteq> []"
    then have "run_status (oc_run out) = ''FAILED''" using assms(2) unfolding settled_def by simp
    then show False using assms(2,3) unfolding settled_def by simp
  qed
  then show "oc_rows out = rows" "rb_rows db' = rb_rows db @ rows"
    using assms(2) unfolding settled_def by (simp_all add: store_pacing_rows_def split: if_splits)
  show "p \<in> set periods \<Longrightarrow> inside_envelope p" using no_gap g computed_rows(3)[OF assms(1)] by auto
qed

text \<open>A projection none of whose periods is past the ceiling reaches the end of the fund's life.\<close>

lemma full_projection:
  assumes "project_commitment pw ps an = Inr periods" "bindable ps" "fraction_power pw"
    and "at_scale 6 (dec_val (an_unfunded an))" "dec_val (an_unfunded an) \<le> 10 ^ 22"
    and "at_scale 6 (dec_val (an_nav an))" "dec_val (an_nav an) \<le> 10 ^ 22"
    and "\<And>p. p \<in> set periods \<Longrightarrow> \<not> beyond_ceiling p"
  shows "map period_index periods = [current_age an + 1 .. fund_life ps]"
    and "rolled ps (dec_val (an_unfunded an)) (dec_val (an_nav an)) periods"
    and "periods \<noteq> [] \<longrightarrow> sum_list (map projected_call periods) + unfunded_end (last periods) = dec_val (an_unfunded an)"
proof -
  have val: "validate_pacing ps an = Inr ()"
    using assms(1) by (cases "validate_pacing ps an") (auto simp: project_commitment_def)
  have pc: "map period_index periods = take (length periods) [current_age an + 1 .. fund_life ps]"
      "length periods < nat (fund_life ps - current_age an) \<longrightarrow> periods \<noteq> [] \<and> beyond_ceiling (last periods)"
      "rolled ps (dec_val (an_unfunded an)) (dec_val (an_nav an)) periods"
      "periods \<noteq> [] \<longrightarrow> sum_list (map projected_call periods) + unfunded_end (last periods) = dec_val (an_unfunded an)"
    using projection_conserves[OF val assms(2-7)] assms(1) by auto
  have "length periods = length (take (length periods) [current_age an + 1 .. fund_life ps])" using pc(1) by (metis length_map)
  moreover have "\<not> length periods < nat (fund_life ps - current_age an)" using pc(2) assms(8) last_in_set by blast
  ultimately have "length periods = nat (fund_life ps - current_age an)" by simp
  then show "map period_index periods = [current_age an + 1 .. fund_life ps]" using pc(1) by simp
  show "rolled ps (dec_val (an_unfunded an)) (dec_val (an_nav an)) periods"
    "periods \<noteq> [] \<longrightarrow> sum_list (map projected_call periods) + unfunded_end (last periods) = dec_val (an_unfunded an)"
    by (rule pc(3,4))+
qed

text \<open>The windows follow one another from the anniversary of the anchor's age.\<close>

lemma consecutive_windows:
  assumes "map (period_index \<circ> pr_period) rows = [a + 1 .. n]" "i < length rows"
    and "\<forall>r\<in>set rows. anniversary_window v (period_index (pr_period r)) = Some (pr_start r, pr_end r)"
  shows "nth_anniversary v (a + int i) = Some (pr_start (rows ! i))" "nth_anniversary v (a + int i + 1) = Some (pr_end (rows ! i))"
proof -
  have "length rows = nat (n - a)" using arg_cong[OF assms(1), of length] by simp
  then have "[a + 1 .. n] ! i = a + 1 + int i" using assms(2) by (intro nth_upto) simp
  then have "period_index (pr_period (rows ! i)) = a + 1 + int i" using assms(1,2) by (metis comp_apply nth_map)
  then have "anniversary_window v (a + 1 + int i) = Some (pr_start (rows ! i), pr_end (rows ! i))"
    using assms(2,3) by (metis nth_mem)
  then show "nth_anniversary v (a + int i) = Some (pr_start (rows ! i))" "nth_anniversary v (a + int i + 1) = Some (pr_end (rows ! i))"
    by (auto simp: anniversary_window_def algebra_simps split: option.splits)
qed

text \<open>
  C37. A completed projection rests on its pins and nothing else: when a run over a snapshot of well-formed money pins completes, its rows are exactly
  the projection of the registered parameters from the pinned anchor. The anchor's unfunded amount is the commitment less all pinned calls plus the
  recallable distributions, its net asset value is the pinned mark (zero where none is pinned), its age the complete years from the commitment to
  the as-of date. There is one row for each fund age still to come up to the fund's life, and no stored amount is past the envelope of
  ten to the 21st. The windows are consecutive and the first one contains the as-of date; the projected calls and the last unfunded amount
  add up to the anchor's unfunded amount, and the periods roll from one another. Assumed: the fractional power takes fractions to fractions, the growth
  rate has the registered form, the tenant's rules under gate codes are the gates' own and fresh ids do not repeat, the commitment date is a date and
  the as-of year is at most 9999.
\<close>

theorem completed_projection_rests_on_the_pins:
  assumes "gates_only ids (rb_dq (pd_runs db))" "draws_apart ids" "fraction_power pw" "bindable params"
    and "run_pacing_projection pw declared ids nid t actor code env mid sid rid now db = Inr (db', out)"
    and "oc_status out = ''COMPLETED''" "declared t mid = Inr params"
    and "\<forall>s\<in>set (pd_snapshots db). ps_id s = sid \<and> ps_tenant s = t \<longrightarrow> s = snap"
    and "pinned snap c calls ds marks" "money_pins c calls ds marks"
    and "valid_date (cp_date c)" "year (ps_as_of snap) \<le> 9999"
  shows "\<exists>an periods. adjudicate_anchor (pd_capital db) t snap = Inr an \<and> project_commitment pw params (kernel_anchor an) = Inr periods \<and>
    map pr_period (oc_rows out) = periods \<and> rb_rows (pd_runs db') = rb_rows (pd_runs db) @ oc_rows out \<and>
    as_unfunded an = cp_committed c - sum_list calls + sum_list (restored ds) \<and>
    as_nav an = (case marks of [] \<Rightarrow> 0 | m # _ \<Rightarrow> fst m) \<and> length marks \<le> 1 \<and>
    complete_annual_periods (cp_date c) (ps_as_of snap) = Some (as_age an) \<and>
    map period_index periods = [as_age an + 1 .. fund_life params] \<and> periods \<noteq> [] \<and>
    rolled params (as_unfunded an) (as_nav an) periods \<and>
    sum_list (map projected_call periods) + unfunded_end (last periods) = as_unfunded an \<and>
    list_all (\<lambda>p. period_fits p \<and> \<bar>projected_call p\<bar> \<le> 10 ^ 21 \<and> \<bar>projected_distribution p\<bar> \<le> 10 ^ 21 \<and>
      \<bar>projected_nav p\<bar> \<le> 10 ^ 21 \<and> \<bar>unfunded_end p\<bar> \<le> 10 ^ 21) periods \<and>
    pr_start (hd (oc_rows out)) \<le> ps_as_of snap \<and> ps_as_of snap < pr_end (hd (oc_rows out)) \<and>
    (\<forall>i. Suc i < length (oc_rows out) \<longrightarrow> pr_end (oc_rows out ! i) = pr_start (oc_rows out ! Suc i))"
proof -
  obtain params' snap' an periods rows gaps where q: "declared t mid = Inr params'" "snap' \<in> set (pd_snapshots db)" "ps_id snap' = sid" "ps_tenant snap' = t"
      and q2: "adjudicate_anchor (pd_capital db) t snap' = Inr an" "as_age an < fund_life params'"
      "project_commitment pw params' (kernel_anchor an) = Inr periods"
      "compute_pacing nid t sid mid an periods (started (pacing_request t actor code env mid sid) rid now) = Inr (rows, gaps)"
      "settled store_pacing_rows pr_id (pacing_request t actor code env mid sid) format_reason rid now rows gaps (pd_runs db) (pd_runs db') out"
    using projection_run[OF assms(1,2,5)] by blast
  have "params' = params" "snap' = snap" using q assms(7,8) by simp_all
  with q2 have r: "adjudicate_anchor (pd_capital db) t snap = Inr an" "as_age an < fund_life params"
      "project_commitment pw params (kernel_anchor an) = Inr periods"
      "compute_pacing nid t sid mid an periods (started (pacing_request t actor code env mid sid) rid now) = Inr (rows, gaps)"
      "settled store_pacing_rows pr_id (pacing_request t actor code env mid sid) format_reason rid now rows gaps (pd_runs db) (pd_runs db') out"
    by simp_all
  note cr = computed_rows[OF r(4)]
  note ad = adjudicated[OF r(1) assms(9,10)]
  note cs = completed_settled[OF r(4,5) assms(6)]
  have ka: "current_age (kernel_anchor an) = as_age an" "dec_val (an_unfunded (kernel_anchor an)) = as_unfunded an"
      "dec_val (an_nav (kernel_anchor an)) = as_nav an"
    using decimal_of_money(1) ad(4,5) by (simp_all add: kernel_anchor_def)
  note fp = full_projection[OF r(3) assms(4,3), unfolded ka, OF ad(4,3,5,6)]
  have ages: "map period_index periods = [as_age an + 1 .. fund_life params]" and ro: "rolled params (as_unfunded an) (as_nav an) periods"
    and sum: "periods \<noteq> [] \<longrightarrow> sum_list (map projected_call periods) + unfunded_end (last periods) = as_unfunded an"
    using fp cs(3) inside_fits by blast+
  have env: "list_all (\<lambda>p. period_fits p \<and> \<bar>projected_call p\<bar> \<le> 10 ^ 21 \<and> \<bar>projected_distribution p\<bar> \<le> 10 ^ 21 \<and>
      \<bar>projected_nav p\<bar> \<le> 10 ^ 21 \<and> \<bar>unfunded_end p\<bar> \<le> 10 ^ 21) periods"
    unfolding list_all_iff using cs(3) inside_fits unfolding inside_envelope_def by blast
  have ne: "periods \<noteq> []" using ages r(2) by auto
  have rages: "map (period_index \<circ> pr_period) rows = [as_age an + 1 .. fund_life params]" using ages cr(1) by auto
  note win = consecutive_windows[OF rages _ cr(4)[unfolded ad(9)]]
  have rne: "rows \<noteq> []" using cr(1) ne by auto
  have adj: "pr_end (rows ! i) = pr_start (rows ! Suc i)" if "Suc i < length rows" for i
    using win(2)[of i] win(1)[of "Suc i"] that by (simp add: algebra_simps)
  obtain age a where age: "complete_annual_periods (cp_date c) (ps_as_of snap) = Some age" "nth_anniversary (cp_date c) age = Some a"
      "a \<le> ps_as_of snap" "\<forall>b. nth_anniversary (cp_date c) (age + 1) = Some b \<longrightarrow> ps_as_of snap < b"
    using age_counts_anniversaries[OF assms(11) ad(8) assms(12)] by blast
  have "pr_start (hd rows) \<le> ps_as_of snap" "ps_as_of snap < pr_end (hd rows)"
    using age ad(7) win[of 0] rne by (auto simp: hd_conv_nth)
  then show ?thesis
    using r(1,3) cr(1) cs(1,2) ages ne ro sum env ad(1,7,10,11) adj
    by (intro exI[of _ an] exI[of _ periods] conjI) simp_all
qed

section \<open>Sequences of operations\<close>

datatype pacing_op =
    OnCapital capital_op
  | PinPacing string string
  | RunPacing string string string string string

text \<open>The marks are those of the valuation table at the time; \<open>rowid\<close> draws the ids of a run's rows.\<close>

fun pacing_exec ::
  "(rat \<Rightarrow> rat \<Rightarrow> rat) \<Rightarrow> (string \<Rightarrow> string \<Rightarrow> string + pacing_params) \<Rightarrow> (string \<Rightarrow> string \<Rightarrow> string) \<Rightarrow> (string \<Rightarrow> int \<Rightarrow> string)
     \<Rightarrow> (pydatetime \<Rightarrow> valuation_key fr_db) \<Rightarrow> pydatetime \<Rightarrow> string \<Rightarrow> string \<times> pacing_op \<Rightarrow> pacing_db \<Rightarrow> pacing_db option" where
  "pacing_exec pw declared ids rowid marks now nid (t, OnCapital op) db =
     map_option (\<lambda>s. db\<lparr>pd_capital := s\<rparr>) (capital_exec ids now nid (t, op) (pd_capital db))"
| "pacing_exec pw declared ids rowid marks now nid (t, PinPacing p i) db =
     (if nid \<in> ps_id ` set (pd_snapshots db) then None
      else case build_pacing_snapshot (pd_capital db) (marks now) t p i nid now of
        Inl e \<Rightarrow> None
      | Inr snap \<Rightarrow> Some (db\<lparr>pd_snapshots := pd_snapshots db @ [snap],
          pd_runs := (pd_runs db)\<lparr>rb_snapshots := rb_snapshots (pd_runs db) @ [(nid, t)]\<rparr>\<rparr>))"
| "pacing_exec pw declared ids rowid marks now nid (t, RunPacing actor code env mid sid) db =
     (case run_pacing_projection pw declared ids (rowid nid) t actor code env mid sid nid now db of
        Inl e \<Rightarrow> None | Inr (db', out) \<Rightarrow> Some db')"

definition empty_pacing :: "portfolio_db \<Rightarrow> instrument list \<Rightarrow> pacing_db" where
  "empty_pacing pdb ins = \<lparr>pd_capital = empty_capital pdb ins, pd_snapshots = [],
     pd_runs = \<lparr>rb_runs = [], rb_snapshots = [], rb_edges = [], rb_rows = [], rb_events = [],
       rb_dq = \<lparr>dq_rules = [], dq_results = [], dq_events = []\<rparr>\<rparr>\<rparr>"

definition pacing_ok :: "(string \<Rightarrow> string \<Rightarrow> string) \<Rightarrow> pacing_db \<Rightarrow> bool" where
  "pacing_ok ids db \<longleftrightarrow> gates_only ids (rb_dq (pd_runs db)) \<and> runs_ok pr_id pr_run pr_tenant (pd_runs db) \<and>
     list_all (\<lambda>r. period_fits (pr_period r)) (rb_rows (pd_runs db))"

lemma pacing_exec_ok:
  assumes ok: "pacing_ok ids db" and dr: "draws_apart ids" and ex: "pacing_exec pw declared ids rowid marks now nid op db = Some db'"
  shows "pacing_ok ids db'"
proof -
  obtain t pop where op: "op = (t, pop)" by (cases op)
  show ?thesis
  proof (cases pop)
    case (OnCapital c)
    then show ?thesis using ok ex op by (auto simp: pacing_ok_def)
  next
    case (PinPacing p i)
    then show ?thesis using ok ex op by (auto simp: pacing_ok_def runs_ok_def split: if_splits sum.splits)
  next
    case (RunPacing actor code env mid sid)
    then obtain out where r: "run_pacing_projection pw declared ids (rowid nid) t actor code env mid sid nid now db = Inr (db', out)"
      using ex op by (auto split: sum.splits prod.splits)
    obtain an periods where e: "execute_governed_run store_pacing_rows pr_id ids (pacing_request t actor code env mid sid)
      (compute_pacing (rowid nid) t sid mid an periods) format_reason nid now (pd_runs db) = Inr (pd_runs db', out)"
      using pacing_executes[OF r] by blast
    have g: "gates_only ids (rb_dq (pd_runs db))" and ro: "runs_ok pr_id pr_run pr_tenant (pd_runs db)" using ok by (auto simp: pacing_ok_def)
    have own: "pr_run x = nid \<and> pr_tenant x = rq_tenant (pacing_request t actor code env mid sid)"
      if "compute_pacing (rowid nid) t sid mid an periods (started (pacing_request t actor code env mid sid) nid now) = Inr (rows, gaps)" "x \<in> set rows" for rows gaps x
      using computed_rows(2)[OF that(1)] that(2) by (auto simp: started_def pacing_request_def)
    have ro': "runs_ok pr_id pr_run pr_tenant (pd_runs db')" by (rule projections.executed_ok[OF ro g dr own e])
    obtain rows gaps where s: "settled store_pacing_rows pr_id (pacing_request t actor code env mid sid) format_reason nid now rows gaps (pd_runs db) (pd_runs db') out"
        "gates_only ids (rb_dq (pd_runs db'))"
      using executed[OF g dr e] by blast
    have "rb_rows (pd_runs db') = rb_rows (pd_runs db) \<or> store_pacing_rows (rb_rows (pd_runs db)) rows = Inr (rb_rows (pd_runs db'))"
      using s(1) unfolding settled_def by (cases "gaps = []") simp_all
    then have "list_all (\<lambda>r. period_fits (pr_period r)) (rb_rows (pd_runs db'))"
    proof
      assume "store_pacing_rows (rb_rows (pd_runs db)) rows = Inr (rb_rows (pd_runs db'))"
      then have "rb_rows (pd_runs db') = rb_rows (pd_runs db) @ rows" "list_all (\<lambda>r. period_fits (pr_period r)) rows"
        unfolding store_pacing_rows_def by (simp_all split: if_splits)
      then show ?thesis using ok by (simp add: pacing_ok_def)
    qed (use ok in \<open>simp add: pacing_ok_def\<close>)
    then show ?thesis using ro' s(2) by (simp add: pacing_ok_def)
  qed
qed

lemma pacing_run_ok:
  "pacing_ok ids db \<Longrightarrow> draws_apart ids \<Longrightarrow> pacing_ok ids (run_ops (pacing_exec pw declared ids rowid marks) ops db)"
proof (induction ops arbitrary: db)
  case (Cons step ops)
  obtain now nid op where step: "step = (now, nid, op)" by (cases step)
  show ?case using Cons pacing_exec_ok[OF Cons.prems(1,2)] by (auto simp: step split: option.splits)
qed simp

text \<open>
  C38. Stored projections and their runs never disagree: whatever sequence of capital operations, pinned snapshots and projection runs ran, every
  run is COMPLETED without a reason or FAILED with one and is linked from its snapshot; every stored period belongs to one COMPLETED run of its
  tenant, with an ORIGIN edge and amounts its columns hold; and the governed read of a tenant is exactly the tenant's stored periods.
\<close>

theorem stored_projections_belong_to_completed_runs:
  assumes "draws_apart ids" and "db = run_ops (pacing_exec pw declared ids rowid marks) ops (empty_pacing pdb ins)"
  shows "(\<forall>c\<in>set (rb_runs (pd_runs db)). finished_run c \<and>
      linked (rb_edges (pd_runs db)) (run_tenant c) (the (gr_snapshot c)) ''DEPENDS_ON'' (run_id c))
    \<and> (\<forall>r\<in>set (rb_rows (pd_runs db)). period_fits (pr_period r) \<and>
      (\<exists>!c. c \<in> set (rb_runs (pd_runs db)) \<and> run_id c = pr_run r) \<and>
      (\<exists>c\<in>set (rb_runs (pd_runs db)). run_id c = pr_run r \<and> run_tenant c = pr_tenant r \<and> run_status c = ''COMPLETED'') \<and>
      linked (rb_edges (pd_runs db)) (pr_tenant r) (pr_run r) ''ORIGIN'' (pr_id r))
    \<and> set (list_pacing_projections t None None None (pd_runs db)) = {r \<in> set (rb_rows (pd_runs db)). pr_tenant r = t}"
proof -
  have "pacing_ok ids (empty_pacing pdb ins)" by (simp add: pacing_ok_def empty_pacing_def gates_only_def runs_ok_def)
  then have ok: "pacing_ok ids db" unfolding assms(2) using assms(1) by (rule pacing_run_ok)
  then have ro: "runs_ok pr_id pr_run pr_tenant (pd_runs db)" and fit: "list_all (\<lambda>r. period_fits (pr_period r)) (rb_rows (pd_runs db))"
    by (simp_all add: pacing_ok_def)
  have d: "distinct (map run_id (rb_runs (pd_runs db)))" using ro by (simp add: runs_ok_def)
  have uniq: "c = c'" if "c \<in> set (rb_runs (pd_runs db))" "c' \<in> set (rb_runs (pd_runs db))" "run_id c = run_id c'" for c c'
    using d that unfolding distinct_map inj_on_def by blast
  show ?thesis
  proof (intro conjI ballI)
    fix r assume r: "r \<in> set (rb_rows (pd_runs db))"
    show "period_fits (pr_period r)" using fit r by (simp add: list_all_iff)
    obtain c where c: "c \<in> set (rb_runs (pd_runs db))" "run_id c = pr_run r" "run_tenant c = pr_tenant r" "run_status c = ''COMPLETED''"
        "linked (rb_edges (pd_runs db)) (pr_tenant r) (pr_run r) ''ORIGIN'' (pr_id r)"
      using ro r unfolding runs_ok_def by blast
    then show "linked (rb_edges (pd_runs db)) (pr_tenant r) (pr_run r) ''ORIGIN'' (pr_id r)"
      and "\<exists>c\<in>set (rb_runs (pd_runs db)). run_id c = pr_run r \<and> run_tenant c = pr_tenant r \<and> run_status c = ''COMPLETED''" by blast+
    show "\<exists>!c. c \<in> set (rb_runs (pd_runs db)) \<and> run_id c = pr_run r"
      using c(1,2) uniq by (intro ex1I[of _ c]) auto
  next
    show "set (list_pacing_projections t None None None (pd_runs db)) = {r \<in> set (rb_rows (pd_runs db)). pr_tenant r = t}"
      using governed_reads[OF ro] by (simp add: list_pacing_projections_def opt_filter_def)
  qed (use ro in \<open>auto simp: runs_ok_def\<close>)
qed

text \<open>A period whose window reaches past the last year a date can hold makes the computation raise, inside the run.\<close>

lemma those_None: "x \<in> set xs \<Longrightarrow> f x = None \<Longrightarrow> those (map f xs) = None"
  by (induction xs) (auto split: option.splits)

lemma late_life_raises:
  assumes "valid_date (as_commitment_date an)" "p \<in> set periods" "period_index p = fund_life params"
    "9999 < year (as_commitment_date an) + fund_life params"
  shows "compute_pacing nid t sid mid an periods run = Inl ''ValueError''"
proof -
  have "nth_anniversary (as_commitment_date an) (period_index p) = None"
    using nth_anniversary_iff(1)[OF assms(1)] assms(3,4) by simp
  then have "result_row nid t sid mid an run p = None"
    by (simp add: result_row_def anniversary_window_def split: option.splits)
  then have n: "those (map (result_row nid t sid mid an run) periods) = None" using those_None[OF assms(2)] by blast
  show ?thesis by (simp add: compute_pacing_def n)
qed

section \<open>Sample\<close>

text \<open>
  100 committed on 2021-01-01, 40 called, marked at 45 on 2023-06-01, pinned, and projected over a life of four years: two ages are left.
\<close>

definition short_params :: pacing_params where
  "short_params = \<lparr>rc_schedule = [Fin 25 (-2), Fin 5 (-1)], fund_life = 4, bow = Fin 1 0, growth = Fin 0 0, yield_floor = Fin 0 0\<rparr>"

definition pacing_marks :: "pydatetime \<Rightarrow> valuation_key fr_db" where
  "pacing_marks now = bk_valuations (run_ops book_exec
     [(Naive 25, ''m1'', ''t'', CreateValuation ''p'' ''i'' 738672 (Fin 45 0) None (Some ''USD'') None None)] sample_bk0)"

definition row_ids :: "string \<Rightarrow> int \<Rightarrow> string" where
  "row_ids r i = r @ replicate (nat i) (CHR ''x'')"

definition pin_ops :: "(pydatetime \<times> string \<times> string \<times> pacing_op) list" where
  "pin_ops =
     [(Naive 10, ''c1'', ''t'', OnCapital (CaptureCommitment ''p'' ''i'' (Fin 100 0) ''USD'' 737791 None)),
      (Naive 20, ''k1'', ''t'', OnCapital (CaptureCall ''p'' ''i'' 737800 (Fin 40 0) ''USD'' ''DRAWDOWN'' None)),
      (Naive 30, ''s1'', ''t'', PinPacing ''p'' ''i'')]"

abbreviation sample_exec :: "pydatetime \<Rightarrow> string \<Rightarrow> string \<times> pacing_op \<Rightarrow> pacing_db \<Rightarrow> pacing_db option" where
  "sample_exec \<equiv> pacing_exec sample_power (\<lambda>t m. Inr short_params) sample_ids row_ids pacing_marks"

definition pacing_pinned :: pacing_db where
  "pacing_pinned = run_ops sample_exec pin_ops (empty_pacing (bk_portfolios sample_bk0) (bk_instruments sample_bk0))"

definition pinned_commitment :: commitment_pin where
  "pinned_commitment = \<lparr>cp_portfolio = ''p'', cp_instrument = ''i'', cp_currency = ''USD'', cp_committed = 100, cp_date = Date 2021 1 1\<rparr>"

definition pinned_snapshot :: pacing_snapshot where
  "pinned_snapshot = \<lparr>ps_id = ''s1'', ps_tenant = ''t'', ps_purpose = ''PACING_INPUT'', ps_as_of = Date 2023 6 1,
     ps_pins = [PinCommitment (Some pinned_commitment), PinCall (Some 40), PinMark (Some (45, ''USD''))]\<rparr>"

definition pinned_anchor :: anchor_state where
  "pinned_anchor = \<lparr>as_portfolio = ''p'', as_instrument = ''i'', as_currency = ''USD'', as_commitment_date = Date 2021 1 1,
     as_of_date = Date 2023 6 1, as_age = 2, as_unfunded = 60, as_nav = 45\<rparr>"

definition pinned_periods :: "pacing_period list" where
  "pinned_periods =
     [\<lparr>period_index = 3, projected_call = 30, projected_distribution = 135 / 4, projected_nav = 165 / 4, unfunded_end = 30\<rparr>,
      \<lparr>period_index = 4, projected_call = 15, projected_distribution = 165 / 4, projected_nav = 15, unfunded_end = 15\<rparr>]"

lemma pinned_evaluates:
  "pd_snapshots pacing_pinned = [pinned_snapshot]"
  "adjudicate_anchor (pd_capital pacing_pinned) ''t'' pinned_snapshot = Inr pinned_anchor"
  "project_commitment sample_power short_params (kernel_anchor pinned_anchor) = Inr pinned_periods"
  "rb_snapshots (pd_runs pacing_pinned) = [(''s1'', ''t'')]"
  "length (rb_runs (pd_runs pacing_pinned)) = 0" "length (rb_rows (pd_runs pacing_pinned)) = 0" "length (dq_rules (rb_dq (pd_runs pacing_pinned))) = 0"
  by code_simp+

lemma pinned_stored:
  "case compute_pacing (row_ids ''r1'') ''t'' ''s1'' ''m'' pinned_anchor pinned_periods
      (started (pacing_request ''t'' ''ann'' ''v1'' ''prod'' ''m'' ''s1'') ''r1'' (Naive 40)) of
     Inr (rows, []) \<Rightarrow> isOk (store_pacing_rows [] rows) | _ \<Rightarrow> False"
  by code_simp

lemma pinned_fields:
  "ps_id pinned_snapshot = ''s1''" "ps_tenant pinned_snapshot = ''t''" "ps_purpose pinned_snapshot = ''PACING_INPUT''"
  "ps_as_of pinned_snapshot = Date 2023 6 1" "fund_life short_params = 4" "as_age pinned_anchor = 2"
  by (simp_all add: pinned_snapshot_def short_params_def pinned_anchor_def)

lemma pinned_gates: "gates_only sample_ids (rb_dq (pd_runs pacing_pinned))" "draws_apart sample_ids"
  using sample_ids_inj pinned_evaluates(7) by (simp_all add: gates_only_def draws_apart_def)

lemma pinned_run:
  "\<exists>db' out. run_pacing_projection sample_power (\<lambda>t m. Inr short_params) sample_ids (row_ids ''r1'') ''t'' ''ann'' ''v1'' ''prod'' ''m'' ''s1'' ''r1'' (Naive 40)
     pacing_pinned = Inr (db', out) \<and> oc_status out = ''COMPLETED'' \<and> map pr_period (rb_rows (pd_runs db')) = pinned_periods"
proof -
  let ?rq = "pacing_request ''t'' ''ann'' ''v1'' ''prod'' ''m'' ''s1''"
  let ?c = "compute_pacing (row_ids ''r1'') ''t'' ''s1'' ''m'' pinned_anchor pinned_periods"
  have runs: "rb_runs (pd_runs pacing_pinned) = []" "rb_rows (pd_runs pacing_pinned) = []"
    using pinned_evaluates(5,6) by simp_all
  obtain rows where c: "?c (started ?rq ''r1'' (Naive 40)) = Inr (rows, [])" "isOk (store_pacing_rows [] rows)"
    using pinned_stored by (auto split: sum.splits prod.splits list.splits)
  then have "isOk (execute_governed_run store_pacing_rows pr_id sample_ids ?rq ?c format_reason ''r1'' (Naive 40) (pd_runs pacing_pinned))"
    unfolding executes_iff[OF pinned_gates] by (simp add: runs pinned_evaluates(4) pacing_request_def)
  then obtain rdb out where ex: "execute_governed_run store_pacing_rows pr_id sample_ids ?rq ?c format_reason ''r1'' (Naive 40) (pd_runs pacing_pinned)
      = Inr (rdb, out)" by (auto elim!: isOkE)
  have "settled store_pacing_rows pr_id ?rq format_reason ''r1'' (Naive 40) rows [] (pd_runs pacing_pinned) rdb out"
    using executed[OF pinned_gates ex] c(1) by auto
  then have "oc_status out = ''COMPLETED''" "rb_rows rdb = rows"
    using runs(2) by (auto simp: settled_def store_pacing_rows_def split: if_splits)
  then show ?thesis
    using ex computed_rows(1)[OF c(1)] by (simp add: run_pacing_projection_def pinned_evaluates(1-3) pinned_fields)
qed

theorem completed_projection_rests_on_the_pins_witness:
  "\<exists>db' out. run_pacing_projection sample_power (\<lambda>t m. Inr short_params) sample_ids (row_ids ''r1'') ''t'' ''ann'' ''v1'' ''prod'' ''m'' ''s1'' ''r1'' (Naive 40)
     pacing_pinned = Inr (db', out) \<and> oc_status out = ''COMPLETED'' \<and> map (period_index \<circ> pr_period) (oc_rows out) = [3, 4] \<and>
     sum_list (map (projected_call \<circ> pr_period) (oc_rows out)) + unfunded_end (pr_period (last (oc_rows out))) = 60 \<and>
     pr_start (hd (oc_rows out)) \<le> Date 2023 6 1 \<and> Date 2023 6 1 < pr_end (hd (oc_rows out))"
proof -
  obtain db' out where r: "run_pacing_projection sample_power (\<lambda>t m. Inr short_params) sample_ids (row_ids ''r1'') ''t'' ''ann'' ''v1'' ''prod'' ''m'' ''s1'' ''r1'' (Naive 40)
     pacing_pinned = Inr (db', out)" "oc_status out = ''COMPLETED''" using pinned_run by blast
  have b: "bindable short_params" using at_scale_of_int[of 12 0] by (simp add: bindable_def short_params_def pow10_def)
  have one: "\<forall>s\<in>set (pd_snapshots pacing_pinned). ps_id s = ''s1'' \<and> ps_tenant s = ''t'' \<longrightarrow> s = pinned_snapshot"
    by (simp add: pinned_evaluates(1))
  have p: "pinned pinned_snapshot pinned_commitment [40] [] [(45, ''USD'')]"
    by (simp add: pinned_def pinned_snapshot_def commitment_pins_def call_pins_def distribution_pins_def mark_pins_def map_filter_simps)
  have m: "money_pins pinned_commitment [40] [] [(45, ''USD'')]"
    using at_scale_of_int[of 6 100] at_scale_of_int[of 6 40] at_scale_of_int[of 6 45]
    by (simp add: money_pins_def fits_book_def restored_def pinned_commitment_def)
  have d: "valid_date (cp_date pinned_commitment)" "year (ps_as_of pinned_snapshot) \<le> 9999"
    by (simp_all add: pinned_commitment_def pinned_snapshot_def valid_date_def days_in_month_def)
  obtain an periods where z: "adjudicate_anchor (pd_capital pacing_pinned) ''t'' pinned_snapshot = Inr an" "map pr_period (oc_rows out) = periods"
     "map period_index periods = [as_age an + 1 .. fund_life short_params]" "periods \<noteq> []"
     "sum_list (map projected_call periods) + unfunded_end (last periods) = as_unfunded an"
     "as_unfunded an = cp_committed pinned_commitment - sum_list [40] + sum_list (restored [])"
     "pr_start (hd (oc_rows out)) \<le> ps_as_of pinned_snapshot" "ps_as_of pinned_snapshot < pr_end (hd (oc_rows out))"
    using completed_projection_rests_on_the_pins[OF pinned_gates sample_power_fraction b r refl one p m d] by blast
  have "[3 .. 4 :: int] = [3, 4]" by (simp add: upto.simps)
  then show ?thesis using r z
    by (auto simp: pinned_evaluates(2) pinned_fields comp_def map_map[symmetric] last_map restored_def pinned_commitment_def simp del: map_map)
qed

lemma run_ops_append: "run_ops exec (xs @ ys) s = run_ops exec ys (run_ops exec xs s)"
  by (induction exec xs s rule: run_ops.induct) simp_all

definition pacing_sample :: pacing_db where
  "pacing_sample = run_ops sample_exec (pin_ops @ [(Naive 40, ''r1'', ''t'', RunPacing ''ann'' ''v1'' ''prod'' ''m'' ''s1'')])
     (empty_pacing (bk_portfolios sample_bk0) (bk_instruments sample_bk0))"

theorem stored_projections_belong_to_completed_runs_witness:
  "length (rb_rows (pd_runs pacing_sample)) = 2 \<and>
   list_all (\<lambda>r. \<exists>c\<in>set (rb_runs (pd_runs pacing_sample)). run_id c = pr_run r \<and> run_status c = ''COMPLETED'') (rb_rows (pd_runs pacing_sample))"
proof
  obtain db' out where r: "run_pacing_projection sample_power (\<lambda>t m. Inr short_params) sample_ids (row_ids ''r1'') ''t'' ''ann'' ''v1'' ''prod'' ''m'' ''s1'' ''r1'' (Naive 40)
     pacing_pinned = Inr (db', out)" "map pr_period (rb_rows (pd_runs db')) = pinned_periods" using pinned_run by blast
  have "pacing_sample = db'" by (simp add: pacing_sample_def run_ops_append pacing_pinned_def[symmetric] r(1))
  then show "length (rb_rows (pd_runs pacing_sample)) = 2" using arg_cong[OF r(2), of length] by (simp add: pinned_periods_def)
  show "list_all (\<lambda>r. \<exists>c\<in>set (rb_runs (pd_runs pacing_sample)). run_id c = pr_run r \<and> run_status c = ''COMPLETED'') (rb_rows (pd_runs pacing_sample))"
    unfolding list_all_iff using stored_projections_belong_to_completed_runs[OF pinned_gates(2) pacing_sample_def] by blast
qed

end
