(* ===== verification/Concentration.thy ===== *)
theory Concentration
  imports Shares "HOL-Library.Product_Lexorder" "HOL-Library.Multiset"
begin

text \<open>
  The concentration kernel (\<open>concentration/kernel.py\<close>): signed exposure atoms of one dimension, each in a bucket or in one of two
  residuals, to the shares of the invested-long tot, the coverage pair, and the metrics over the classified buckets.
\<close>

section \<open>Data\<close>

record atom =
  exposure_amount :: rat
  bucket_code :: "string option"
  residual_kind :: "string option"

record bucket =
  bu_code :: string
  bu_is_residual :: bool
  bu_gross :: rat
  bu_long :: rat
  bu_short :: rat
  bu_net :: rat
  bu_share :: rat

record dimension_result =
  di_buckets :: "bucket list"
  di_total_long :: rat
  di_coverage_ratio :: rat
  di_coverage_classifiable :: rat
  di_max_share :: rat
  di_hhi :: rat
  di_cr_n :: rat
  di_gaps :: "string list"

definition cr_n :: nat where "cr_n = 5"

section \<open>The kernel\<close>

definition decompose :: "atom list \<Rightarrow> rat \<times> rat \<times> rat \<times> rat" where
  "decompose atoms =
     (dsum 28 (map (\<lambda>a. rnd 28 \<bar>exposure_amount a\<bar>) atoms),
      dsum 28 (map exposure_amount (filter (\<lambda>a. 0 < exposure_amount a) atoms)),
      dsum 28 (map exposure_amount (filter (\<lambda>a. exposure_amount a < 0) atoms)),
      dsum 28 (map exposure_amount atoms))"

text \<open>No key stands for the \<open>ValueError\<close> of an atom with neither a bucket nor a declared residual.\<close>

definition group_key :: "atom \<Rightarrow> (string \<times> bool) option" where
  "group_key a =
     (case bucket_code a of
        Some c \<Rightarrow> Some (c, False)
      | None \<Rightarrow> (case residual_kind a of
            Some k \<Rightarrow> if k = ''__UNCLASSIFIED__'' \<or> k = ''__UNCLASSIFIABLE__'' then Some (k, True) else None
          | None \<Rightarrow> None))"

definition members :: "atom list \<Rightarrow> string \<times> bool \<Rightarrow> atom list" where
  "members atoms k = filter (\<lambda>a. group_key a = Some k) atoms"

definition raw_long_share :: "rat \<Rightarrow> atom list \<Rightarrow> rat" where
  "raw_long_share tot ms = (case decompose ms of (g, l, s, n) \<Rightarrow> ddiv 28 l tot)"

definition make_bucket :: "rat \<Rightarrow> atom list \<Rightarrow> string \<times> bool \<Rightarrow> bucket option" where
  "make_bucket tot atoms k =
     (case decompose (members atoms k) of (g, l, s, n) \<Rightarrow>
      (case (q6 g, q6 l, q6 s, q6 n, q6 (ddiv 28 l tot)) of
         (Some g, Some l, Some s, Some n, Some sh) \<Rightarrow>
            Some \<lparr>bu_code = fst k, bu_is_residual = snd k, bu_gross = g, bu_long = l, bu_short = s, bu_net = n, bu_share = sh\<rparr>
       | _ \<Rightarrow> None))"

definition with_gaps :: "bucket list \<Rightarrow> rat \<Rightarrow> rat \<Rightarrow> string list \<Rightarrow> dimension_result" where
  "with_gaps bs tot coverage gaps = \<lparr>di_buckets = bs, di_total_long = tot, di_coverage_ratio = coverage,
     di_coverage_classifiable = 0, di_max_share = 0, di_hhi = 0, di_cr_n = 0, di_gaps = gaps\<rparr>"

definition summarize :: "rat \<Rightarrow> bucket list \<Rightarrow> rat list \<Rightarrow> rat \<Rightarrow> dimension_result option" where
  "summarize tot bs raw cfloor =
     (let unclassified = dsum 28 (map bu_long (filter (\<lambda>b. bu_code b = ''__UNCLASSIFIED__'') bs));
          classified = dsum 28 (map bu_long (filter (\<lambda>b. \<not> bu_is_residual b) bs));
          classifiable = dadd 28 classified unclassified;
          shares = rev (sort raw)
      in case (q6 (ddiv 28 classified tot), q6 tot) of
        (Some coverage, Some tot) \<Rightarrow>
          if classifiable \<le> 0 then Some (with_gaps bs tot coverage [''ALL_UNCLASSIFIABLE''])
          else (case (q6 (ddiv 28 classified classifiable), if shares = [] then Some 0 else q6 (hd shares),
                   q6 (dsum 28 (map (\<lambda>s. dmul 28 s s) shares)), q6 (dsum 28 (take cr_n shares))) of
             (Some cc, Some mx, Some hh, Some cr) \<Rightarrow>
               Some \<lparr>di_buckets = bs, di_total_long = tot, di_coverage_ratio = coverage, di_coverage_classifiable = cc,
                 di_max_share = mx, di_hhi = hh, di_cr_n = cr,
                 di_gaps = (if cc < cfloor then [''COVERAGE_BELOW_FLOOR''] else [])\<rparr>
           | _ \<Rightarrow> None)
      | _ \<Rightarrow> None)"

definition compute_dimension :: "atom list \<Rightarrow> rat \<Rightarrow> string + dimension_result" where
  "compute_dimension atoms cfloor =
     (case decompose atoms of (g, tot, s, n) \<Rightarrow>
      if tot \<le> 0 then Inr (with_gaps [] tot 0 [''ZERO_INVESTED_LONG''])
      else case those (map group_key atoms) of None \<Rightarrow> Inl ''ValueError'' | Some keys \<Rightarrow>
       (let keys = sort (remdups keys) in
        case those (map (make_bucket tot atoms) keys) of None \<Rightarrow> Inl ''InvalidOperation'' | Some bs \<Rightarrow>
        (case summarize tot bs (map (\<lambda>k. raw_long_share tot (members atoms k)) (filter (\<lambda>k. \<not> snd k) keys)) cfloor of
           None \<Rightarrow> Inl ''InvalidOperation'' | Some r \<Rightarrow> Inr r)))"

section \<open>Groups\<close>

text \<open>The exact quantities: the positive amounts of a group, its shorts, and the largest longs first.\<close>

definition long_of :: "atom list \<Rightarrow> rat" where
  "long_of atoms = sum_list (map exposure_amount (filter (\<lambda>a. 0 < exposure_amount a) atoms))"

definition short_of :: "atom list \<Rightarrow> rat" where
  "short_of atoms = sum_list (map exposure_amount (filter (\<lambda>a. exposure_amount a < 0) atoms))"

definition fits_atoms :: "atom list \<Rightarrow> bool" where
  "fits_atoms atoms \<longleftrightarrow> fits_book (map exposure_amount atoms)"

lemma fits_atoms_filter: "fits_atoms atoms \<Longrightarrow> fits_atoms (filter P atoms)"
proof -
  assume f: "fits_atoms atoms"
  have "sum_list (map (\<lambda>a. \<bar>exposure_amount a\<bar>) (filter P atoms)) \<le> sum_list (map (\<lambda>a. \<bar>exposure_amount a\<bar>) atoms)"
    by (rule sum_list_filter_le) simp
  then have "sum_list (map (\<lambda>a. \<bar>exposure_amount a\<bar>) (filter P atoms)) * 10 ^ 6 \<le> sum_list (map (\<lambda>a. \<bar>exposure_amount a\<bar>) atoms) * 10 ^ 6"
    by (rule mult_right_mono) simp
  then show ?thesis using f by (auto simp: fits_atoms_def fits_book_def comp_def)
qed

lemma gross_split: "sum_list (map (\<lambda>a. \<bar>exposure_amount a\<bar>) atoms) = long_of atoms - short_of atoms"
  by (induction atoms) (auto simp: long_of_def short_of_def)

lemma net_split: "sum_list (map exposure_amount atoms) = long_of atoms + short_of atoms"
  by (induction atoms) (auto simp: long_of_def short_of_def)

lemma long_nonneg: "0 \<le> long_of atoms"
  unfolding long_of_def by (intro sum_list_nonneg) auto

lemma decompose_exact:
  assumes "fits_atoms atoms"
  shows "decompose atoms = (long_of atoms - short_of atoms, long_of atoms, short_of atoms, long_of atoms + short_of atoms)"
proof -
  have f: "fits_book (map exposure_amount atoms)" using assms by (simp add: fits_atoms_def)
  have p: "fits_book (map exposure_amount (filter P atoms))" for P
    using fits_atoms_filter[OF assms] by (simp add: fits_atoms_def)
  have "rnd 28 \<bar>exposure_amount a\<bar> = \<bar>exposure_amount a\<bar>" if "a \<in> set atoms" for a
  proof -
    have "\<bar>exposure_amount a\<bar> \<le> sum_list (map abs (map exposure_amount atoms))"
      using that by (intro member_le_sum_list) auto
    then have "\<bar>\<bar>exposure_amount a\<bar>\<bar> * 10 ^ 6 \<le> sum_list (map abs (map exposure_amount atoms)) * 10 ^ 6" by simp
    moreover have "at_scale 6 \<bar>exposure_amount a\<bar>" using that f by (auto simp: fits_book_def abs_if)
    ultimately show ?thesis using f by (intro rnd_exact) (auto simp: fits_book_def)
  qed
  then have "map (\<lambda>a. rnd 28 \<bar>exposure_amount a\<bar>) atoms = map abs (map exposure_amount atoms)" by simp
  then have "dsum 28 (map (\<lambda>a. rnd 28 \<bar>exposure_amount a\<bar>) atoms) = sum_list (map abs (map exposure_amount atoms))"
    using book_sum[OF fits_abs[OF f]] by metis
  then have "dsum 28 (map (\<lambda>a. rnd 28 \<bar>exposure_amount a\<bar>) atoms) = long_of atoms - short_of atoms"
    using gross_split[of atoms] by (simp add: comp_def)
  moreover have "dsum 28 (map exposure_amount atoms) = long_of atoms + short_of atoms"
    using book_sum[OF f] net_split[of atoms] by simp
  ultimately show ?thesis using book_sum[OF p] by (simp add: decompose_def long_of_def short_of_def)
qed

text \<open>Splitting by key loses nothing.\<close>

lemma sum_by_key:
  fixes f :: "'a \<Rightarrow> rat"
  assumes "distinct ks" "\<forall>x\<in>set xs. \<exists>k\<in>set ks. key x = Some k"
  shows "(\<Sum>k\<leftarrow>ks. sum_list (map f (filter (\<lambda>x. P x) (filter (\<lambda>x. key x = Some k) xs)))) = sum_list (map f (filter P xs))"
  using assms(2)
proof (induction xs)
  case (Cons x xs)
  then obtain k where k: "k \<in> set ks" "key x = Some k" by auto
  have one: "(\<Sum>j\<leftarrow>ks. if j = k then c else 0) = c" for c :: rat
    using assms(1) k(1) by (simp add: sum_list_map_filter[symmetric] sum_list_distinct_conv_sum_set)
  have "(\<Sum>j\<leftarrow>ks. sum_list (map f (filter P (filter (\<lambda>y. key y = Some j) (x # xs))))) =
     (\<Sum>j\<leftarrow>ks. (if j = k then (if P x then f x else 0) else 0) + sum_list (map f (filter P (filter (\<lambda>y. key y = Some j) xs))))"
    using k(2) by (intro arg_cong[where f = sum_list] map_cong) auto
  also have "\<dots> = (if P x then f x else 0) + sum_list (map f (filter P xs))"
    using Cons one by (simp add: sum_list_addf)
  finally show ?case by simp
qed simp

lemma long_by_key:
  assumes "distinct ks" "\<forall>x\<in>set xs. \<exists>k\<in>set ks. group_key x = Some k"
  shows "(\<Sum>k\<leftarrow>ks. long_of (members xs k)) = long_of xs"
  using sum_by_key[OF assms, of exposure_amount "\<lambda>a. 0 < exposure_amount a"] by (simp add: long_of_def members_def)

lemma long_member_le:
  assumes "distinct ks" "\<forall>x\<in>set xs. \<exists>k\<in>set ks. group_key x = Some k" "k \<in> set ks"
  shows "long_of (members xs k) \<le> long_of xs"
  unfolding long_by_key[OF assms(1,2), symmetric] using assms(3) long_nonneg by (intro member_le_sum_list) auto

text \<open>The keys of a dimension, in the order of the buckets.\<close>

definition keys_of :: "atom list \<Rightarrow> (string \<times> bool) list" where
  "keys_of atoms = sort (remdups (map (\<lambda>a. the (group_key a)) atoms))"

definition declared :: "atom list \<Rightarrow> bool" where
  "declared atoms \<longleftrightarrow> (\<forall>a\<in>set atoms. group_key a \<noteq> None)"

lemma those_keys: "declared atoms \<Longrightarrow> those (map group_key atoms) = Some (map (\<lambda>a. the (group_key a)) atoms)"
  by (rule those_map_Some) (auto simp: declared_def)

lemma keys_of_props:
  assumes "declared atoms"
  shows "distinct (keys_of atoms)" "sorted (keys_of atoms)" "\<forall>a\<in>set atoms. \<exists>k\<in>set (keys_of atoms). group_key a = Some k"
  using assms by (auto simp: keys_of_def declared_def)

lemma in_keys: "declared atoms \<Longrightarrow> k \<in> set (keys_of atoms) \<longleftrightarrow> (\<exists>a\<in>set atoms. group_key a = Some k)"
  by (force simp: keys_of_def declared_def image_iff)

lemma make_bucket_exact:
  assumes f: "fits_atoms atoms" and d: "declared atoms" and k: "k \<in> set (keys_of atoms)" and pos: "0 < long_of atoms"
  shows "make_bucket (long_of atoms) atoms k = Some \<lparr>bu_code = fst k, bu_is_residual = snd k,
     bu_gross = long_of (members atoms k) - short_of (members atoms k), bu_long = long_of (members atoms k),
     bu_short = short_of (members atoms k), bu_net = long_of (members atoms k) + short_of (members atoms k),
     bu_share = quantized 6 (ddiv 28 (long_of (members atoms k)) (long_of atoms))\<rparr>"
    and "raw_long_share (long_of atoms) (members atoms k) = ddiv 28 (long_of (members atoms k)) (long_of atoms)"
proof -
  have fm: "fits_atoms (members atoms k)" using fits_atoms_filter[OF f] by (simp add: members_def)
  note dec = decompose_exact[OF fm]
  have fp: "fits_book (map exposure_amount (filter P (members atoms k)))" for P
    using fits_atoms_filter[OF fm] by (simp add: fits_atoms_def)
  have fa: "fits_book (map exposure_amount (members atoms k))" using fm by (simp add: fits_atoms_def)
  have l: "q6 (long_of (members atoms k)) = Some (long_of (members atoms k))"
    and s: "q6 (short_of (members atoms k)) = Some (short_of (members atoms k))"
    unfolding long_of_def short_of_def using book_total[OF fp] by (auto intro: q6_exact)
  have n: "q6 (long_of (members atoms k) + short_of (members atoms k)) = Some (long_of (members atoms k) + short_of (members atoms k))"
    unfolding net_split[symmetric] using book_total[OF fa] by (auto intro: q6_exact)
  have "sum_list (map abs (map exposure_amount (members atoms k))) = long_of (members atoms k) - short_of (members atoms k)"
    using gross_split[of "members atoms k"] by (simp add: comp_def)
  then have g: "q6 (long_of (members atoms k) - short_of (members atoms k)) = Some (long_of (members atoms k) - short_of (members atoms k))"
    using book_total[OF fits_abs[OF fa]] q6_exact by metis
  have sh: "q6 (ddiv 28 (long_of (members atoms k)) (long_of atoms)) = Some (quantized 6 (ddiv 28 (long_of (members atoms k)) (long_of atoms)))"
    using stored_share(1)[OF long_nonneg long_member_le[OF keys_of_props(1,3)[OF d] k] pos] .
  show "make_bucket (long_of atoms) atoms k = Some \<lparr>bu_code = fst k, bu_is_residual = snd k,
     bu_gross = long_of (members atoms k) - short_of (members atoms k), bu_long = long_of (members atoms k),
     bu_short = short_of (members atoms k), bu_net = long_of (members atoms k) + short_of (members atoms k),
     bu_share = quantized 6 (ddiv 28 (long_of (members atoms k)) (long_of atoms))\<rparr>"
    by (simp add: make_bucket_def dec g l s n sh)
  show "raw_long_share (long_of atoms) (members atoms k) = ddiv 28 (long_of (members atoms k)) (long_of atoms)"
    by (simp add: raw_long_share_def dec)
qed

section \<open>The metrics\<close>

lemma sort_map_mono:
  assumes "\<And>x y. x \<le> y \<Longrightarrow> (f :: rat \<Rightarrow> rat) x \<le> f y"
  shows "sort (map f xs) = map f (sort xs)"
proof (rule properties_for_sort)
  show "mset (map f (sort xs)) = mset (map f xs)" by simp
  show "sorted (map f (sort xs))" using assms by (simp add: sorted_map) (rule sorted_wrt_mono_rel[OF _ sorted_sort], auto)
qed

lemma sum_list_error:
  fixes f g :: "'a \<Rightarrow> rat"
  assumes "\<And>x. x \<in> set xs \<Longrightarrow> \<bar>f x - g x\<bar> \<le> c"
  shows "\<bar>sum_list (map f xs) - sum_list (map g xs)\<bar> \<le> of_nat (length xs) * c"
  using assms
proof (induction xs)
  case (Cons x xs)
  have "\<bar>(f x - g x) + (sum_list (map f xs) - sum_list (map g xs))\<bar> \<le> \<bar>f x - g x\<bar> + \<bar>sum_list (map f xs) - sum_list (map g xs)\<bar>"
    by (rule abs_triangle_ineq)
  also have "\<dots> \<le> c + of_nat (length xs) * c" using Cons.IH Cons.prems by (intro add_mono) auto
  finally show ?case by (simp add: algebra_simps)
qed simp

text \<open>A quantized sum of ratios each known within a small error.\<close>

lemma quantized_sum:
  assumes n: "length xs \<le> 10 ^ 18" and nn: "\<forall>x\<in>set xs. 0 \<le> f x"
    and err: "\<And>x. x \<in> set xs \<Longrightarrow> \<bar>f x - g x\<bar> \<le> 3 * eps" and one: "sum_list (map g xs) \<le> 1"
  shows "\<exists>y. q6 (dsum 28 (map f xs)) = Some y \<and> \<bar>y - sum_list (map g xs)\<bar> \<le> 1 / 10 ^ 6"
proof -
  define m :: rat where "m = of_nat (length xs)"
  have "m \<le> of_nat (10 ^ 18)" unfolding m_def using n by (simp only: of_nat_le_iff)
  then have m: "0 \<le> m" "m \<le> 10 ^ 18" by (simp_all add: m_def)
  have e: "m * eps \<le> 10 ^ 18 * eps" using m by (intro mult_right_mono) (simp_all add: eps_def)
  have d: "\<bar>sum_list (map f xs) - sum_list (map g xs)\<bar> \<le> m * (3 * eps)"
    using sum_list_error[of xs f g] err by (simp add: m_def)
  have small: "m * eps \<le> 1 / 10 ^ 9" using e by (simp add: eps_def)
  have "sum_list (map f xs) + of_nat (length (map f xs)) * eps < 10"
    using d small one by (simp add: m_def[symmetric] abs_le_iff)
  then have s: "\<bar>dsum 28 (map f xs) - sum_list (map f xs)\<bar> \<le> m * eps" "0 \<le> dsum 28 (map f xs)"
    using dsum_error[of "map f xs"] nn by (simp_all add: m_def)
  have t: "\<bar>dsum 28 (map f xs) - sum_list (map g xs)\<bar> \<le> 4 / 10 ^ 9"
    using abs_triangle_ineq[of "dsum 28 (map f xs) - sum_list (map f xs)" "sum_list (map f xs) - sum_list (map g xs)"] s(1) d small by simp
  then have "\<bar>dsum 28 (map f xs)\<bar> \<le> 10" using s(2) one abs_le_D1[OF t] by simp
  note q = q6_small[OF this]
  have "\<bar>quantized 6 (dsum 28 (map f xs)) - sum_list (map g xs)\<bar> \<le> 1 / 10 ^ 6"
    using abs_triangle_ineq[of "quantized 6 (dsum 28 (map f xs)) - dsum 28 (map f xs)" "dsum 28 (map f xs) - sum_list (map g xs)"]
      t quantized_error[of 6 "dsum 28 (map f xs)"] by simp
  then show ?thesis using q by blast
qed

lemma square_error:
  assumes "0 \<le> s" "s \<le> 1" "0 \<le> r" "r \<le> 1" "\<bar>s - r\<bar> \<le> eps"
  shows "\<bar>dmul 28 s s - r * r\<bar> \<le> 3 * eps" "0 \<le> dmul 28 s s"
proof -
  have ss: "0 \<le> s * s" "s * s \<le> 1" using assms by (simp_all add: mult_le_one)
  then have "\<bar>dmul 28 s s - s * s\<bar> \<le> eps" unfolding dmul_def by (intro rnd_small) simp
  moreover have "\<bar>s * s - r * r\<bar> \<le> 2 * eps"
  proof -
    have "s * s - r * r = (s - r) * (s + r)" by (simp add: algebra_simps)
    then have "\<bar>s * s - r * r\<bar> = \<bar>s - r\<bar> * (s + r)" using assms by (simp add: abs_mult)
    also have "\<dots> \<le> eps * 2" using assms by (intro mult_mono) (simp_all add: eps_def)
    finally show ?thesis by simp
  qed
  ultimately show "\<bar>dmul 28 s s - r * r\<bar> \<le> 3 * eps"
    using abs_triangle_ineq[of "dmul 28 s s - s * s" "s * s - r * r"] by simp
  show "0 \<le> dmul 28 s s" unfolding dmul_def using ss(1) by (rule rnd28_nonneg)
qed

definition ranked :: "atom list \<Rightarrow> rat list" where
  "ranked atoms = rev (sort (map (\<lambda>k. long_of (members atoms k)) (filter (\<lambda>k. \<not> snd k) (keys_of atoms))))"

definition classified_long :: "atom list \<Rightarrow> rat" where
  "classified_long atoms = (\<Sum>k\<leftarrow>filter (\<lambda>k. \<not> snd k) (keys_of atoms). long_of (members atoms k))"

lemma ranked_props:
  assumes "declared atoms"
  shows "sum_list (ranked atoms) = classified_long atoms" "classified_long atoms \<le> long_of atoms" "\<forall>l\<in>set (ranked atoms). 0 \<le> l \<and> l \<le> long_of atoms"
    "length (ranked atoms) \<le> length atoms" "0 \<le> classified_long atoms"
proof -
  show "sum_list (ranked atoms) = classified_long atoms"
    by (simp add: ranked_def classified_long_def sum_list_rev) (metis mset_sort sum_mset_sum_list)
  show "classified_long atoms \<le> long_of atoms"
    unfolding classified_long_def long_by_key[OF keys_of_props(1,3)[OF assms], symmetric]
    by (rule sum_list_filter_le) (simp add: long_nonneg)
  show "\<forall>l\<in>set (ranked atoms). 0 \<le> l \<and> l \<le> long_of atoms"
    using long_member_le[OF keys_of_props(1,3)[OF assms]] long_nonneg by (auto simp: ranked_def)
  have "length (ranked atoms) \<le> length (keys_of atoms)" by (simp add: ranked_def)
  also have "\<dots> \<le> length atoms" by (simp add: keys_of_def) (metis length_map length_remdups_leq)
  finally show "length (ranked atoms) \<le> length atoms" .
  show "0 \<le> classified_long atoms" unfolding classified_long_def by (intro sum_list_nonneg) (auto simp: long_nonneg)
qed

lemma shares_ranked:
  assumes "0 < T"
  shows "rev (sort (map (\<lambda>k. ddiv 28 (long_of (members atoms k)) T) (filter (\<lambda>k. \<not> snd k) (keys_of atoms)))) =
    map (\<lambda>l. ddiv 28 l T) (ranked atoms)"
proof -
  have "sort (map (\<lambda>l. ddiv 28 l T) (map (\<lambda>k. long_of (members atoms k)) (filter (\<lambda>k. \<not> snd k) (keys_of atoms)))) =
      map (\<lambda>l. ddiv 28 l T) (sort (map (\<lambda>k. long_of (members atoms k)) (filter (\<lambda>k. \<not> snd k) (keys_of atoms))))"
    using assms by (intro sort_map_mono) (auto simp: ddiv_def intro!: rnd_mono divide_right_mono)
  then show ?thesis by (simp add: ranked_def rev_map comp_def)
qed

definition bucket_for :: "atom list \<Rightarrow> string \<times> bool \<Rightarrow> bucket" where
  "bucket_for atoms k = \<lparr>bu_code = fst k, bu_is_residual = snd k,
     bu_gross = long_of (members atoms k) - short_of (members atoms k), bu_long = long_of (members atoms k),
     bu_short = short_of (members atoms k), bu_net = long_of (members atoms k) + short_of (members atoms k),
     bu_share = quantized 6 (ddiv 28 (long_of (members atoms k)) (long_of atoms))\<rparr>"

lemma dsum_longs:
  assumes f: "fits_atoms atoms" and d: "declared atoms"
  shows "dsum 28 (map (\<lambda>k. long_of (members atoms k)) (filter P (keys_of atoms))) =
    (\<Sum>k\<leftarrow>filter P (keys_of atoms). long_of (members atoms k))"
proof (rule book_sum)
  let ?L = "\<lambda>k. long_of (members atoms k)"
  have sc: "at_scale 6 (?L k)" for k
  proof -
    have "fits_book (map exposure_amount (filter (\<lambda>a. 0 < exposure_amount a) (members atoms k)))"
      using fits_atoms_filter[OF fits_atoms_filter[OF f]] by (simp add: fits_atoms_def members_def)
    then show ?thesis using book_total(1) by (simp add: long_of_def)
  qed
  have abs: "map abs (map ?L (filter P (keys_of atoms))) = map ?L (filter P (keys_of atoms))"
    using long_nonneg by simp
  have "(\<Sum>k\<leftarrow>filter P (keys_of atoms). ?L k) \<le> (\<Sum>k\<leftarrow>keys_of atoms. ?L k)"
    by (rule sum_list_filter_le) (simp add: long_nonneg)
  also have "\<dots> = long_of atoms" using long_by_key[OF keys_of_props(1,3)[OF d]] .
  finally have "(\<Sum>k\<leftarrow>filter P (keys_of atoms). ?L k) * 10 ^ 6 \<le> long_of atoms * 10 ^ 6" by simp
  moreover have "long_of atoms * 10 ^ 6 < 10 ^ 28"
    using book_total(2)[of "map exposure_amount (filter (\<lambda>a. 0 < exposure_amount a) atoms)"] fits_atoms_filter[OF f]
      long_nonneg[of atoms] by (simp add: fits_atoms_def long_of_def)
  ultimately show "fits_book (map ?L (filter P (keys_of atoms)))"
    unfolding fits_book_def abs using sc by (intro conjI) auto
qed

definition unclassified_long :: "atom list \<Rightarrow> rat" where
  "unclassified_long atoms = long_of (members atoms (''__UNCLASSIFIED__'', True))"

lemma filter_single: "distinct xs \<Longrightarrow> x \<in> set xs \<Longrightarrow> filter (\<lambda>k. k = x) xs = [x]"
  by (induction xs) (auto simp: filter_empty_conv)

lemma unclassified_sum:
  assumes "declared atoms" "\<forall>a\<in>set atoms. bucket_code a \<noteq> Some ''__UNCLASSIFIED__''"
  shows "(\<Sum>k\<leftarrow>filter (\<lambda>k. fst k = ''__UNCLASSIFIED__'') (keys_of atoms). long_of (members atoms k)) = unclassified_long atoms"
proof -
  have no: "group_key a \<noteq> Some (''__UNCLASSIFIED__'', False)" if "a \<in> set atoms" for a
    using assms(2) that by (auto simp: group_key_def split: option.splits if_splits)
  have "fst k = ''__UNCLASSIFIED__'' \<longleftrightarrow> k = (''__UNCLASSIFIED__'', True)" if "k \<in> set (keys_of atoms)" for k
  proof -
    obtain c b where k: "k = (c, b)" by (cases k)
    have "\<exists>a\<in>set atoms. group_key a = Some k" using that in_keys[OF assms(1), of k] by simp
    then obtain a where "a \<in> set atoms" "group_key a = Some (c, b)" unfolding k by (rule bexE)
    then have "(c, b) \<noteq> (''__UNCLASSIFIED__'', False)" using no[of a] by metis
    then show ?thesis unfolding k by (cases b) simp_all
  qed
  then have eq: "filter (\<lambda>k. fst k = ''__UNCLASSIFIED__'') (keys_of atoms) = filter (\<lambda>k. k = (''__UNCLASSIFIED__'', True)) (keys_of atoms)"
    by (intro filter_cong) auto
  show ?thesis
  proof (cases "(''__UNCLASSIFIED__'', True) \<in> set (keys_of atoms)")
    case True
    have "filter (\<lambda>k. k = (''__UNCLASSIFIED__'', True)) (keys_of atoms) = [(''__UNCLASSIFIED__'', True)]"
      by (rule filter_single[OF keys_of_props(1)[OF assms(1)] True])
    then show ?thesis unfolding eq by (simp add: unclassified_long_def)
  next
    case False
    then have e: "filter (\<lambda>k. k = (''__UNCLASSIFIED__'', True)) (keys_of atoms) = []" by (auto simp: filter_empty_conv)
    have "members atoms (''__UNCLASSIFIED__'', True) = []"
      using False assms(1) by (auto simp: members_def filter_empty_conv keys_of_def declared_def image_iff)
    then show ?thesis unfolding eq e by (simp add: unclassified_long_def long_of_def)
  qed
qed

lemma classified_unclassified:
  assumes "declared atoms" "\<forall>a\<in>set atoms. bucket_code a \<noteq> Some ''__UNCLASSIFIED__''"
  shows "classified_long atoms + unclassified_long atoms \<le> long_of atoms" "0 \<le> unclassified_long atoms"
proof -
  let ?L = "\<lambda>k. long_of (members atoms k)"
  have key: "\<not> snd k \<Longrightarrow> k \<in> set (keys_of atoms) \<Longrightarrow> fst k \<noteq> ''__UNCLASSIFIED__''" for k
    using assms by (cases k) (auto simp: keys_of_def declared_def group_key_def split: option.splits if_splits)
  have "classified_long atoms + unclassified_long atoms =
      (\<Sum>k\<leftarrow>keys_of atoms. if \<not> snd k then ?L k else 0) + (\<Sum>k\<leftarrow>keys_of atoms. if fst k = ''__UNCLASSIFIED__'' then ?L k else 0)"
    unfolding classified_long_def unclassified_sum[OF assms, symmetric] by (simp add: sum_list_map_filter')
  also have "\<dots> = (\<Sum>k\<leftarrow>keys_of atoms. (if \<not> snd k then ?L k else 0) + (if fst k = ''__UNCLASSIFIED__'' then ?L k else 0))"
    by (simp add: sum_list_addf)
  also have "\<dots> \<le> (\<Sum>k\<leftarrow>keys_of atoms. ?L k)"
    using key long_nonneg by (intro sum_list_pos_le) auto
  also have "\<dots> = long_of atoms" using long_by_key[OF keys_of_props(1,3)[OF assms(1)]] .
  finally show "classified_long atoms + unclassified_long atoms \<le> long_of atoms" .
  show "0 \<le> unclassified_long atoms" by (simp add: unclassified_long_def long_nonneg)
qed

text \<open>What a result owes the exact quantities.\<close>

definition near :: "rat \<Rightarrow> rat \<Rightarrow> bool" where
  "near x y \<longleftrightarrow> \<bar>x - y\<bar> \<le> 1 / 10 ^ 6"

definition metrics_ok :: "atom list \<Rightarrow> rat \<Rightarrow> dimension_result \<Rightarrow> bool" where
  "metrics_ok atoms cfloor r \<longleftrightarrow>
     (let T = long_of atoms; C = classified_long atoms; U = unclassified_long atoms in
      di_total_long r = T \<and> near (di_coverage_ratio r) (C / T) \<and>
      (if C + U = 0 then di_gaps r = [''ALL_UNCLASSIFIABLE'']
       else near (di_coverage_classifiable r) (C / (C + U)) \<and>
         di_gaps r = (if di_coverage_classifiable r < cfloor then [''COVERAGE_BELOW_FLOOR''] else []) \<and>
         near (di_max_share r) (case ranked atoms of [] \<Rightarrow> 0 | l # ls \<Rightarrow> l / T) \<and>
         near (di_hhi r) (\<Sum>l\<leftarrow>ranked atoms. (l / T) * (l / T)) \<and>
         near (di_cr_n r) (\<Sum>l\<leftarrow>take 5 (ranked atoms). l / T)))"

lemma sum_div: "(\<Sum>l\<leftarrow>ls. l / T) = sum_list ls / (T :: rat)"
  by (induction ls) (auto simp: add_divide_distrib)

lemma sum_take_le: "\<forall>l\<in>set ls. 0 \<le> l \<Longrightarrow> sum_list (take n ls) \<le> sum_list (ls :: rat list)"
proof -
  assume nn: "\<forall>l\<in>set ls. 0 \<le> l"
  have "sum_list ls = sum_list (take n ls) + sum_list (drop n ls)" by (metis append_take_drop_id sum_list_append)
  moreover have "0 \<le> sum_list (drop n ls)" using nn by (intro sum_list_nonneg) (auto dest: in_set_dropD)
  ultimately show ?thesis by simp
qed

lemma summarize_exact:
  assumes f: "fits_atoms atoms" and d: "declared atoms" and r: "\<forall>a\<in>set atoms. bucket_code a \<noteq> Some ''__UNCLASSIFIED__''"
    and pos: "0 < long_of atoms" and n: "length atoms \<le> 10 ^ 18"
  shows "\<exists>res. summarize (long_of atoms) (map (bucket_for atoms) (keys_of atoms))
      (map (\<lambda>k. ddiv 28 (long_of (members atoms k)) (long_of atoms)) (filter (\<lambda>k. \<not> snd k) (keys_of atoms))) cfloor = Some res
    \<and> di_buckets res = map (bucket_for atoms) (keys_of atoms) \<and> metrics_ok atoms cfloor res"
proof -
  define T C U where "T = long_of atoms" and "C = classified_long atoms" and "U = unclassified_long atoms"
  have cu: "0 \<le> C" "0 \<le> U" "C + U \<le> T" "C \<le> T" and T: "0 < T"
    using ranked_props[OF d] classified_unclassified[OF d r] pos by (simp_all add: T_def C_def U_def)
  have bl: "map bu_long (filter P (map (bucket_for atoms) ks)) = map (\<lambda>k. long_of (members atoms k)) (filter (\<lambda>k. P (bucket_for atoms k)) ks)" for P ks
    by (induction ks) (auto simp: bucket_for_def)
  have c: "dsum 28 (map bu_long (filter (\<lambda>b. \<not> bu_is_residual b) (map (bucket_for atoms) (keys_of atoms)))) = C"
    unfolding bl using dsum_longs[OF f d] by (simp add: C_def classified_long_def bucket_for_def)
  have u: "dsum 28 (map bu_long (filter (\<lambda>b. bu_code b = ''__UNCLASSIFIED__'') (map (bucket_for atoms) (keys_of atoms)))) = U"
    unfolding bl using dsum_longs[OF f d] unclassified_sum[OF d r] by (simp add: U_def bucket_for_def)
  have Tb: "at_scale 6 T" "\<bar>T\<bar> * 10 ^ 6 < 10 ^ 28"
    using book_total[of "map exposure_amount (filter (\<lambda>a. 0 < exposure_amount a) atoms)"] fits_atoms_filter[OF f]
    by (simp_all add: fits_atoms_def long_of_def T_def)
  have sc: "at_scale 6 (\<Sum>k\<leftarrow>ks. long_of (members atoms k))" for ks
  proof (rule at_scale_sum_list)
    fix x assume "x \<in> set (map (\<lambda>k. long_of (members atoms k)) ks)"
    then obtain k where "x = long_of (members atoms k)" by auto
    then show "at_scale 6 x"
      using book_total(1)[of "map exposure_amount (filter (\<lambda>a. 0 < exposure_amount a) (members atoms k))"]
        fits_atoms_filter[OF fits_atoms_filter[OF f]] by (simp add: fits_atoms_def long_of_def members_def)
  qed
  have "at_scale 6 (C + U)" unfolding C_def U_def classified_long_def unclassified_sum[OF d r, symmetric] using sc by (intro at_scale_add) auto
  moreover have "\<bar>C + U\<bar> * 10 ^ 6 < 10 ^ 28" using cu Tb(2) T by simp
  ultimately have cl: "dadd 28 C U = C + U" unfolding dadd_def by (rule rnd_exact)
  have qT: "q6 T = Some T" using q6_exact[OF Tb] .
  note cov = stored_share[OF cu(1,4) T]
  note sh = shares_ranked[OF T, of atoms]
  show ?thesis
  proof (cases "C + U = 0")
    case True
    then show ?thesis
      using c u cl qT cov(1,4) by (simp add: summarize_def T_def[symmetric] with_gaps_def metrics_ok_def C_def[symmetric] U_def[symmetric] near_def Let_def)
  next
    case False
    then have p: "0 < C + U" using cu by simp
    note cc = stored_share[OF cu(1) _ p]
    have le: "C \<le> C + U" using cu by simp
    note rp = ranked_props[OF d]
    have Lr: "\<forall>l\<in>set (ranked atoms). 0 \<le> l \<and> l \<le> T" using rp(3) by (simp add: T_def)
    have len: "length (ranked atoms) \<le> 10 ^ 18" "length (take 5 (ranked atoms)) \<le> 10 ^ 18" using rp(4) n by auto
    have Cs: "sum_list (ranked atoms) / T \<le> 1" using rp(1) cu(4) T by (simp add: C_def divide_le_eq)
    have raw: "0 \<le> ddiv 28 l T" "ddiv 28 l T \<le> 1" "\<bar>ddiv 28 l T - l / T\<bar> \<le> eps" "0 \<le> l / T" "l / T \<le> 1"
      if "l \<in> set (ranked atoms)" for l
      using raw_share[of l T] Lr T that by (auto simp: divide_le_eq)
    have "\<exists>y. q6 (dsum 28 (map (\<lambda>l. dmul 28 (ddiv 28 l T) (ddiv 28 l T)) (ranked atoms))) = Some y \<and>
        \<bar>y - (\<Sum>l\<leftarrow>ranked atoms. (l / T) * (l / T))\<bar> \<le> 1 / 10 ^ 6"
    proof (rule quantized_sum[OF len(1)])
      have "(\<Sum>l\<leftarrow>ranked atoms. (l / T) * (l / T)) \<le> (\<Sum>l\<leftarrow>ranked atoms. l / T)"
        using raw(4,5) mult_left_le by (intro sum_list_pos_le ballI) blast
      then show "(\<Sum>l\<leftarrow>ranked atoms. (l / T) * (l / T)) \<le> 1" using Cs by (simp add: sum_div)
      show "\<forall>l\<in>set (ranked atoms). 0 \<le> dmul 28 (ddiv 28 l T) (ddiv 28 l T)"
        using square_error(2)[OF raw(1,2) raw(4,5) raw(3)] by blast
      show "\<bar>dmul 28 (ddiv 28 l T) (ddiv 28 l T) - (l / T) * (l / T)\<bar> \<le> 3 * eps" if "l \<in> set (ranked atoms)" for l
        using square_error(1)[OF raw(1,2)[OF that] raw(4,5)[OF that] raw(3)[OF that]] .
    qed
    then obtain hh where hh: "q6 (dsum 28 (map (\<lambda>l. dmul 28 (ddiv 28 l T) (ddiv 28 l T)) (ranked atoms))) = Some hh"
        "near hh (\<Sum>l\<leftarrow>ranked atoms. (l / T) * (l / T))" by (auto simp: near_def)
    have "\<exists>y. q6 (dsum 28 (map (\<lambda>l. ddiv 28 l T) (take 5 (ranked atoms)))) = Some y \<and>
        \<bar>y - (\<Sum>l\<leftarrow>take 5 (ranked atoms). l / T)\<bar> \<le> 1 / 10 ^ 6"
    proof (rule quantized_sum[OF len(2)])
      have "sum_list (take 5 (ranked atoms)) \<le> sum_list (ranked atoms)" using Lr by (intro sum_take_le) auto
      then have "sum_list (take 5 (ranked atoms)) / T \<le> sum_list (ranked atoms) / T" using T by (intro divide_right_mono) simp_all
      then show "(\<Sum>l\<leftarrow>take 5 (ranked atoms). l / T) \<le> 1" using Cs by (simp add: sum_div)
      show "\<bar>ddiv 28 l T - l / T\<bar> \<le> 3 * eps" if "l \<in> set (take 5 (ranked atoms))" for l
        using raw(3)[OF in_set_takeD[OF that]] by (simp add: eps_def)
    qed (use raw(1) in_set_takeD in fast)
    then obtain cr where cr: "q6 (dsum 28 (map (\<lambda>l. ddiv 28 l T) (take 5 (ranked atoms)))) = Some cr"
        "near cr (\<Sum>l\<leftarrow>take 5 (ranked atoms). l / T)" by (auto simp: near_def)
    have "\<exists>mx. (if map (\<lambda>l. ddiv 28 l T) (ranked atoms) = [] then Some 0 else q6 (hd (map (\<lambda>l. ddiv 28 l T) (ranked atoms)))) = Some mx
        \<and> near mx (case ranked atoms of [] \<Rightarrow> 0 | l # ls \<Rightarrow> l / T)"
      using Lr T stored_share by (cases "ranked atoms") (auto simp: near_def)
    then obtain mx where mx: "(if map (\<lambda>l. ddiv 28 l T) (ranked atoms) = [] then Some 0 else q6 (hd (map (\<lambda>l. ddiv 28 l T) (ranked atoms)))) = Some mx"
        "near mx (case ranked atoms of [] \<Rightarrow> 0 | l # ls \<Rightarrow> l / T)" by blast
    have "summarize T (map (bucket_for atoms) (keys_of atoms))
      (map (\<lambda>k. ddiv 28 (long_of (members atoms k)) T) (filter (\<lambda>k. \<not> snd k) (keys_of atoms))) cfloor =
      Some \<lparr>di_buckets = map (bucket_for atoms) (keys_of atoms), di_total_long = T, di_coverage_ratio = quantized 6 (ddiv 28 C T),
        di_coverage_classifiable = quantized 6 (ddiv 28 C (C + U)), di_max_share = mx, di_hhi = hh, di_cr_n = cr,
        di_gaps = (if quantized 6 (ddiv 28 C (C + U)) < cfloor then [''COVERAGE_BELOW_FLOOR''] else [])\<rparr>"
      unfolding summarize_def sh c u Let_def cl
      using p qT cov(1) cc(1)[OF le] mx(1) hh(1) cr(1) by (simp add: comp_def take_map cr_n_def)
    then show ?thesis
      using False cov(4) cc(4)[OF le] mx(2) hh(2) cr(2)
      by (simp add: metrics_ok_def T_def[symmetric] C_def[symmetric] U_def[symmetric] near_def Let_def)
  qed
qed

text \<open>
  C39. The concentration metrics are the exact ones up to their quantum: for atoms at six places that fit the context, each with a bucket or a
  declared residual and none in a bucket called like the residual, a dimension without invested long is a gap; otherwise every group has one bucket, in
  key order, with its gross, long, short and net amounts exact and a share within a quantum of its long over the total; the
  longs add up to the total; coverage, maximum share, Herfindahl index and the five largest shares are those of the exact ratios of the
  classified groups within a quantum; and the gap is raised exactly when nothing is classifiable or the coverage is below the floor.
\<close>

theorem concentration_metrics_are_exact:
  assumes "fits_atoms atoms" "declared atoms" "\<forall>a\<in>set atoms. bucket_code a \<noteq> Some ''__UNCLASSIFIED__''" "length atoms \<le> 10 ^ 18"
  shows "\<exists>r. compute_dimension atoms cfloor = Inr r \<and>
    (if long_of atoms = 0 then di_gaps r = [''ZERO_INVESTED_LONG''] \<and> di_buckets r = []
     else metrics_ok atoms cfloor r \<and>
       map (\<lambda>b. ((bu_code b, bu_is_residual b), bu_gross b, bu_long b, bu_short b, bu_net b)) (di_buckets r) =
         map (\<lambda>k. (k, long_of (members atoms k) - short_of (members atoms k), long_of (members atoms k), short_of (members atoms k),
           long_of (members atoms k) + short_of (members atoms k))) (keys_of atoms) \<and>
       sum_list (map bu_long (di_buckets r)) = di_total_long r \<and>
       (\<forall>b\<in>set (di_buckets r). 0 \<le> bu_share b \<and> bu_share b \<le> 1 \<and> near (bu_share b) (bu_long b / di_total_long r)))"
proof (cases "long_of atoms = 0")
  case True
  then show ?thesis using decompose_exact[OF assms(1)] by (simp add: compute_dimension_def with_gaps_def)
next
  case False
  then have pos: "0 < long_of atoms" using long_nonneg[of atoms] by linarith
  let ?T = "long_of atoms"
  have b: "make_bucket ?T atoms k = Some (bucket_for atoms k)"
      "raw_long_share ?T (members atoms k) = ddiv 28 (long_of (members atoms k)) ?T" if "k \<in> set (keys_of atoms)" for k
    using make_bucket_exact[OF assms(1,2) that pos] by (simp_all add: bucket_for_def)
  have bs: "those (map (make_bucket ?T atoms) (keys_of atoms)) = Some (map (bucket_for atoms) (keys_of atoms))"
    using b(1) by (rule those_map_Some)
  have raw: "map (\<lambda>k. raw_long_share ?T (members atoms k)) (filter (\<lambda>k. \<not> snd k) (keys_of atoms)) =
      map (\<lambda>k. ddiv 28 (long_of (members atoms k)) ?T) (filter (\<lambda>k. \<not> snd k) (keys_of atoms))"
    using b(2) by (intro map_cong) auto
  obtain res where res: "summarize ?T (map (bucket_for atoms) (keys_of atoms))
      (map (\<lambda>k. ddiv 28 (long_of (members atoms k)) ?T) (filter (\<lambda>k. \<not> snd k) (keys_of atoms))) cfloor = Some res"
      "di_buckets res = map (bucket_for atoms) (keys_of atoms)" "metrics_ok atoms cfloor res"
    using summarize_exact[OF assms(1,2,3) pos assms(4)] by blast
  have run: "compute_dimension atoms cfloor = Inr res"
    using pos bs res(1)[folded raw] decompose_exact[OF assms(1)] those_keys[OF assms(2)]
    by (simp add: compute_dimension_def keys_of_def[symmetric] Let_def)
  have T: "di_total_long res = ?T" using res(3) by (simp add: metrics_ok_def Let_def)
  have sum: "sum_list (map bu_long (di_buckets res)) = ?T"
    using long_by_key[OF keys_of_props(1,3)[OF assms(2)]] by (simp add: res(2) bucket_for_def comp_def)
  have sh: "0 \<le> bu_share x \<and> bu_share x \<le> 1 \<and> near (bu_share x) (bu_long x / ?T)" if "x \<in> set (di_buckets res)" for x
    using that stored_share[OF long_nonneg long_member_le[OF keys_of_props(1,3)[OF assms(2)]] pos]
    by (auto simp: res(2) bucket_for_def near_def)
  show ?thesis using False run res(3) T sum sh by (simp add: res(2)) (simp add: bucket_for_def)
qed

definition sample_atoms :: "atom list" where
  "sample_atoms =
     [\<lparr>exposure_amount = 600, bucket_code = Some ''A'', residual_kind = None\<rparr>,
      \<lparr>exposure_amount = - 50, bucket_code = Some ''A'', residual_kind = None\<rparr>,
      \<lparr>exposure_amount = 300, bucket_code = Some ''B'', residual_kind = None\<rparr>,
      \<lparr>exposure_amount = 100, bucket_code = None, residual_kind = Some ''__UNCLASSIFIED__''\<rparr>]"

theorem concentration_metrics_are_exact_witness:
  "\<exists>r. compute_dimension sample_atoms (1 / 2) = Inr r \<and> metrics_ok sample_atoms (1 / 2) r \<and> di_total_long r = 1000
     \<and> sum_list (map bu_long (di_buckets r)) = 1000"
proof -
  have "fits_atoms sample_atoms" by (simp add: fits_atoms_def fits_book_def sample_atoms_def)
  moreover have "declared sample_atoms"
    by (simp add: declared_def sample_atoms_def group_key_def del: not_None_eq)
  moreover have "length sample_atoms \<le> 10 ^ 18" "long_of sample_atoms = 1000"
    by (simp_all add: sample_atoms_def long_of_def)
  moreover have "\<forall>a\<in>set sample_atoms. bucket_code a \<noteq> Some ''__UNCLASSIFIED__''" by (simp add: sample_atoms_def)
  moreover have "di_total_long r = long_of sample_atoms" if "metrics_ok sample_atoms (1 / 2) r" for r
    using that by (simp add: metrics_ok_def Let_def)
  ultimately show ?thesis using concentration_metrics_are_exact[of sample_atoms "1 / 2"] by force
qed

text \<open>
  The tolerance the module states between the index and the stored shares, one quantum per classified bucket, is exceeded by a
  book of 9999986 in one classified bucket and 14 unclassified: the difference is 1.000001 quanta.
\<close>

lemma stated_tolerance_exceeded:
  "(case (q6 (ddiv 28 9999986 10000000), q6 (dsum 28 [dmul 28 (ddiv 28 9999986 10000000) (ddiv 28 9999986 10000000)])) of
     (Some share, Some hhi) \<Rightarrow> 1 / 10 ^ 6 < \<bar>hhi - share * share\<bar>
   | _ \<Rightarrow> False)"
  by code_simp

end
