(* ===== verification/Liquidity.thy ===== *)
theory Liquidity
  imports Shares
begin

text \<open>
  The liquidity kernel (\<open>liquidity/kernel.py\<close>): the invested-long book by liquidity tier. The vector is fixed to the declared ladder and the
  residual; a code outside it is folded into the residual and refused.
\<close>

section \<open>Data\<close>

record tier_atom =
  ta_instrument :: string
  ta_amount :: rat
  ta_tier :: "string option"

record tier_bucket =
  tb_code :: string
  tb_is_residual :: bool
  tb_long :: rat
  tb_share :: rat

text \<open>The texts of the gaps, by what they report.\<close>

datatype liquidity_gap = NoInvestedLong | LostLongMoney rat rat | OffLadder "string list"

record liquidity_breakdown =
  lb_buckets :: "tier_bucket list"
  lb_total_long :: rat
  lb_illiquid_share :: rat
  lb_highly_liquid_share :: rat
  lb_coverage_ratio :: rat
  lb_coverage_classifiable :: rat
  lb_untiered_count :: nat
  lb_gaps :: "liquidity_gap list"

definition tier_codes :: "string list" where
  "tier_codes = [''HIGHLY_LIQUID'', ''MODERATELY_LIQUID'', ''LESS_LIQUID'', ''ILLIQUID'']"

definition residual_code :: string where
  "residual_code = ''__UNCLASSIFIED__''"

definition vector_codes :: "string list" where
  "vector_codes = tier_codes @ [residual_code]"

section \<open>The kernel\<close>

definition stated_code :: "tier_atom \<Rightarrow> string" where
  "stated_code a = (case ta_tier a of None \<Rightarrow> residual_code | Some c \<Rightarrow> c)"

definition folded_code :: "tier_atom \<Rightarrow> string" where
  "folded_code a = (if stated_code a \<in> set vector_codes then stated_code a else residual_code)"

definition by_bucket :: "tier_atom list \<Rightarrow> string \<Rightarrow> rat" where
  "by_bucket longs = foldl (\<lambda>m a. m(folded_code a := dadd 28 (m (folded_code a)) (ta_amount a))) (\<lambda>_. 0) longs"

definition off_ladder :: "tier_atom list \<Rightarrow> string list" where
  "off_ladder longs = sort (remdups (filter (\<lambda>c. c \<notin> set vector_codes) (map stated_code longs)))"

definition tier_bucket_for :: "rat \<Rightarrow> (string \<Rightarrow> rat) \<Rightarrow> string \<Rightarrow> tier_bucket option" where
  "tier_bucket_for tot amounts c =
     (case (q6 (amounts c), q6 (ddiv 28 (amounts c) tot)) of
        (Some l, Some s) \<Rightarrow> Some \<lparr>tb_code = c, tb_is_residual = (c = residual_code), tb_long = l, tb_share = s\<rparr>
      | _ \<Rightarrow> None)"

definition share_of :: "tier_bucket list \<Rightarrow> string \<Rightarrow> rat" where
  "share_of bs c = (case find (\<lambda>b. tb_code b = c) bs of Some b \<Rightarrow> tb_share b | None \<Rightarrow> 0)"

text \<open>No value stands for an \<open>InvalidOperation\<close> of a quantization.\<close>

definition compute_liquidity :: "tier_atom list \<Rightarrow> liquidity_breakdown option" where
  "compute_liquidity atoms =
     (let longs = filter (\<lambda>a. 0 < ta_amount a) atoms;
          tot = dsum 28 (map ta_amount longs);
          untiered = length (remdups (map ta_instrument (filter (\<lambda>a. ta_tier a = None) longs)))
      in if tot \<le> 0 then Some \<lparr>lb_buckets = [], lb_total_long = 0, lb_illiquid_share = 0, lb_highly_liquid_share = 0,
             lb_coverage_ratio = 0, lb_coverage_classifiable = 0, lb_untiered_count = untiered, lb_gaps = [NoInvestedLong]\<rparr>
      else case those (map (tier_bucket_for tot (by_bucket longs)) vector_codes) of None \<Rightarrow> None | Some bs \<Rightarrow>
       (let bucketed = dsum 28 (map tb_long bs);
            tiered = dsum 28 (map tb_long (filter (\<lambda>b. \<not> tb_is_residual b) bs))
        in case (q6 tot, q6 (ddiv 28 tiered tot), q6 tiered) of
          (Some qtot, Some coverage, Some classifiable) \<Rightarrow>
             Some \<lparr>lb_buckets = bs, lb_total_long = qtot, lb_illiquid_share = share_of bs ''ILLIQUID'',
               lb_highly_liquid_share = share_of bs ''HIGHLY_LIQUID'', lb_coverage_ratio = coverage,
               lb_coverage_classifiable = classifiable, lb_untiered_count = untiered,
               lb_gaps = (if bucketed \<noteq> qtot then [LostLongMoney bucketed qtot] else []) @
                 (if off_ladder longs \<noteq> [] then [OffLadder (off_ladder longs)] else [])\<rparr>
        | _ \<Rightarrow> None))"

section \<open>The exact amounts\<close>

definition longs_of :: "tier_atom list \<Rightarrow> tier_atom list" where
  "longs_of atoms = filter (\<lambda>a. 0 < ta_amount a) atoms"

definition long_in :: "tier_atom list \<Rightarrow> (tier_atom \<Rightarrow> bool) \<Rightarrow> rat" where
  "long_in atoms P = sum_list (map ta_amount (filter P (longs_of atoms)))"

definition tier_atoms_fit :: "tier_atom list \<Rightarrow> bool" where
  "tier_atoms_fit atoms \<longleftrightarrow> fits_book (map ta_amount atoms)"

lemma by_bucket_from:
  "foldl (\<lambda>m a. m(folded_code a := dadd 28 (m (folded_code a)) (ta_amount a))) m longs c =
     foldl (dadd 28) (m c) (map ta_amount (filter (\<lambda>a. folded_code a = c) longs))"
  by (induction longs arbitrary: m) auto

lemma by_bucket_dsum: "by_bucket longs c = dsum 28 (map ta_amount (filter (\<lambda>a. folded_code a = c) longs))"
  by (simp add: by_bucket_def by_bucket_from dsum_def)

lemma fits_map_filter:
  assumes "fits_book (map f atoms)"
  shows "fits_book (map f (filter P atoms))"
proof -
  have "sum_list (map (\<lambda>a. \<bar>f a\<bar>) (filter P atoms)) \<le> sum_list (map (\<lambda>a. \<bar>f a\<bar>) atoms)" by (rule sum_list_filter_le) simp
  then have "sum_list (map (\<lambda>a. \<bar>f a\<bar>) (filter P atoms)) * 10 ^ 6 \<le> sum_list (map (\<lambda>a. \<bar>f a\<bar>) atoms) * 10 ^ 6"
    by (rule mult_right_mono) simp
  then show ?thesis using assms by (auto simp: fits_book_def comp_def)
qed

lemma long_in_props:
  assumes "tier_atoms_fit atoms"
  shows "dsum 28 (map ta_amount (filter P (longs_of atoms))) = long_in atoms P" "0 \<le> long_in atoms P"
    "at_scale 6 (long_in atoms P)" "\<bar>long_in atoms P\<bar> * 10 ^ 6 < 10 ^ 28" "long_in atoms P \<le> long_in atoms (\<lambda>_. True)"
proof -
  have f: "fits_book (map ta_amount (filter P (longs_of atoms)))"
    using fits_map_filter[of ta_amount] assms by (simp add: tier_atoms_fit_def longs_of_def)
  show "dsum 28 (map ta_amount (filter P (longs_of atoms))) = long_in atoms P" using book_sum[OF f] by (simp add: long_in_def)
  show "at_scale 6 (long_in atoms P)" "\<bar>long_in atoms P\<bar> * 10 ^ 6 < 10 ^ 28" using book_total[OF f] by (simp_all add: long_in_def)
  show "0 \<le> long_in atoms P" unfolding long_in_def by (intro sum_list_nonneg) (auto simp: longs_of_def)
  have "sum_list (map ta_amount (filter P (longs_of atoms))) \<le> sum_list (map ta_amount (longs_of atoms))"
    by (rule sum_list_filter_le) (auto simp: longs_of_def)
  then show "long_in atoms P \<le> long_in atoms (\<lambda>_. True)" by (simp add: long_in_def)
qed

lemma folded_in: "folded_code a \<in> set vector_codes"
  by (simp add: folded_code_def vector_codes_def)

lemma distinct_vector: "distinct vector_codes"
  by (simp add: vector_codes_def tier_codes_def residual_code_def)

lemma vector_sum: "(\<Sum>c\<leftarrow>vector_codes. long_in atoms (\<lambda>a. folded_code a = c)) = long_in atoms (\<lambda>_. True)"
proof -
  have one: "(\<Sum>c\<leftarrow>vector_codes. if folded_code x = c then y else 0) = (y :: rat)" for x y
  proof -
    have "(\<Sum>c\<leftarrow>vector_codes. if folded_code x = c then y else 0) = (\<Sum>c\<in>set vector_codes. if folded_code x = c then y else 0)"
      by (rule sum_list_distinct_conv_sum_set[OF distinct_vector])
    then show ?thesis using folded_in[of x] by simp
  qed
  have "(\<Sum>c\<leftarrow>vector_codes. sum_list (map ta_amount (filter (\<lambda>a. folded_code a = c) xs))) = sum_list (map ta_amount xs)" for xs
  proof (induction xs)
    case (Cons x xs)
    have "(\<Sum>c\<leftarrow>vector_codes. sum_list (map ta_amount (filter (\<lambda>a. folded_code a = c) (x # xs)))) =
      (\<Sum>c\<leftarrow>vector_codes. (if folded_code x = c then ta_amount x else 0) + sum_list (map ta_amount (filter (\<lambda>a. folded_code a = c) xs)))"
      by (intro arg_cong[where f = sum_list] map_cong) auto
    then show ?case using Cons one by (simp add: sum_list_addf)
  qed simp
  then show ?thesis by (simp add: long_in_def)
qed

lemma vector_dsum:
  assumes "tier_atoms_fit atoms"
  shows "dsum 28 (map (\<lambda>c. long_in atoms (\<lambda>a. folded_code a = c)) (filter P vector_codes)) =
    (\<Sum>c\<leftarrow>filter P vector_codes. long_in atoms (\<lambda>a. folded_code a = c))"
proof (rule book_sum)
  let ?L = "\<lambda>c. long_in atoms (\<lambda>a. folded_code a = c)"
  have abs: "map abs (map ?L (filter P vector_codes)) = map ?L (filter P vector_codes)"
    using long_in_props(2)[OF assms] by simp
  have "(\<Sum>c\<leftarrow>filter P vector_codes. ?L c) \<le> (\<Sum>c\<leftarrow>vector_codes. ?L c)"
    by (rule sum_list_filter_le) (simp add: long_in_props(2)[OF assms])
  then have "(\<Sum>c\<leftarrow>filter P vector_codes. ?L c) * 10 ^ 6 \<le> long_in atoms (\<lambda>_. True) * 10 ^ 6" by (simp add: vector_sum)
  also have "\<dots> < 10 ^ 28" using long_in_props(2,4)[OF assms, of "\<lambda>_. True"] by simp
  finally show "fits_book (map ?L (filter P vector_codes))"
    unfolding fits_book_def abs using long_in_props(3)[OF assms] by (intro conjI) auto
qed

lemma tiered_sum:
  "(\<Sum>c\<leftarrow>filter (\<lambda>c. c \<noteq> residual_code) vector_codes. long_in atoms (\<lambda>a. folded_code a = c)) + long_in atoms (\<lambda>a. folded_code a = residual_code) =
     long_in atoms (\<lambda>_. True)"
proof -
  have "filter (\<lambda>c. c \<noteq> residual_code) vector_codes = tier_codes" by (simp add: vector_codes_def tier_codes_def residual_code_def)
  then show ?thesis using vector_sum[of atoms] by (simp add: vector_codes_def)
qed

definition tier_bucket_of :: "tier_atom list \<Rightarrow> string \<Rightarrow> tier_bucket" where
  "tier_bucket_of atoms c = \<lparr>tb_code = c, tb_is_residual = (c = residual_code), tb_long = long_in atoms (\<lambda>a. folded_code a = c),
     tb_share = quantized 6 (ddiv 28 (long_in atoms (\<lambda>a. folded_code a = c)) (long_in atoms (\<lambda>_. True)))\<rparr>"

lemma tier_buckets:
  assumes f: "tier_atoms_fit atoms" and pos: "0 < long_in atoms (\<lambda>_. True)"
  shows "those (map (tier_bucket_for (long_in atoms (\<lambda>_. True)) (by_bucket (longs_of atoms))) vector_codes) =
    Some (map (tier_bucket_of atoms) vector_codes)"
proof -
  have "tier_bucket_for (long_in atoms (\<lambda>_. True)) (by_bucket (longs_of atoms)) c = Some (tier_bucket_of atoms c)" for c
    using q6_exact[OF long_in_props(3,4)[OF f]] stored_share(1)[OF long_in_props(2,5)[OF f] pos]
    by (simp add: tier_bucket_for_def tier_bucket_of_def by_bucket_dsum long_in_props(1)[OF f])
  then show ?thesis by (intro those_map_Some)
qed

lemma share_of_tier: "c \<in> set vector_codes \<Longrightarrow> share_of (map (tier_bucket_of atoms) vector_codes) c = tb_share (tier_bucket_of atoms c)"
  by (auto simp: share_of_def vector_codes_def tier_codes_def residual_code_def tier_bucket_of_def)

text \<open>
  C40. Every unit of invested long is in exactly one place of the vector: for amounts at six places that fit the context, the breakdown has one bucket for each
  declared tier and one residual, in that order, each with the exact long of its own atoms, the untiered and the off-ladder ones counting as residual;
  the buckets add up to the total, so that the check for lost money never fires, and the only gaps are an empty long book and codes
  outside the ladder, all of which are named; shares and coverage are those of the exact ratios within a quantum.
\<close>

theorem liquidity_vector_loses_nothing:
  assumes "tier_atoms_fit atoms"
  shows "\<exists>r. compute_liquidity atoms = Some r \<and>
    (if long_in atoms (\<lambda>_. True) = 0 then lb_gaps r = [NoInvestedLong] \<and> lb_buckets r = []
     else lb_total_long r = long_in atoms (\<lambda>_. True) \<and>
       map (\<lambda>b. (tb_code b, tb_long b)) (lb_buckets r) = map (\<lambda>c. (c, long_in atoms (\<lambda>a. folded_code a = c))) vector_codes \<and>
       sum_list (map tb_long (lb_buckets r)) = lb_total_long r \<and>
       lb_gaps r = (if \<exists>a\<in>set atoms. 0 < ta_amount a \<and> stated_code a \<notin> set vector_codes
         then [OffLadder (off_ladder (longs_of atoms))] else []) \<and>
       (\<forall>b\<in>set (lb_buckets r). 0 \<le> tb_share b \<and> tb_share b \<le> 1 \<and> \<bar>tb_share b - tb_long b / lb_total_long r\<bar> \<le> 1 / 10 ^ 6) \<and>
       \<bar>lb_illiquid_share r - long_in atoms (\<lambda>a. ta_tier a = Some ''ILLIQUID'') / lb_total_long r\<bar> \<le> 1 / 10 ^ 6 \<and>
       \<bar>lb_coverage_ratio r - (1 - long_in atoms (\<lambda>a. folded_code a = residual_code) / lb_total_long r)\<bar> \<le> 1 / 10 ^ 6)"
proof -
  let ?T = "long_in atoms (\<lambda>_. True)"
  have T: "dsum 28 (map ta_amount (longs_of atoms)) = ?T" using long_in_props(1)[OF assms, of "\<lambda>_. True"] by simp
  show ?thesis
  proof (cases "?T = 0")
    case True
    then show ?thesis using T by (simp add: compute_liquidity_def longs_of_def[symmetric] Let_def)
  next
    case False
    then have pos: "0 < ?T" using long_in_props(2)[OF assms, of "\<lambda>_. True"] by linarith
    define bs where "bs = map (tier_bucket_of atoms) vector_codes"
    define R where "R = long_in atoms (\<lambda>a. folded_code a = residual_code)"
    have all: "map tb_long bs = map (\<lambda>c. long_in atoms (\<lambda>a. folded_code a = c)) vector_codes"
      by (simp add: bs_def tier_bucket_of_def)
    have bucketed: "dsum 28 (map tb_long bs) = ?T" "sum_list (map tb_long bs) = ?T"
      unfolding all using vector_dsum[OF assms, of "\<lambda>_. True"] by (simp_all add: vector_sum)
    have "map tb_long (filter (\<lambda>b. \<not> tb_is_residual b) bs) = map (\<lambda>c. long_in atoms (\<lambda>a. folded_code a = c)) (filter (\<lambda>c. c \<noteq> residual_code) vector_codes)"
      by (simp add: bs_def tier_bucket_of_def filter_map comp_def)
    then have tiered: "dsum 28 (map tb_long (filter (\<lambda>b. \<not> tb_is_residual b) bs)) = ?T - R"
      using vector_dsum[OF assms] tiered_sum[of atoms] by (simp add: R_def)
    have R: "0 \<le> ?T - R" "?T - R \<le> ?T" "at_scale 6 (?T - R)" "\<bar>?T - R\<bar> * 10 ^ 6 < 10 ^ 28"
      using long_in_props(2-5)[OF assms, of "\<lambda>a. folded_code a = residual_code"] long_in_props(3,4)[OF assms, of "\<lambda>_. True"] pos
      by (auto simp: R_def)
    note cov = stored_share[OF R(1,2) pos]
    have qT: "q6 ?T = Some ?T" "q6 (?T - R) = Some (?T - R)" using q6_exact long_in_props(3,4)[OF assms] R(3,4) by blast+
    have off: "off_ladder (longs_of atoms) = [] \<longleftrightarrow> \<not> (\<exists>a\<in>set atoms. 0 < ta_amount a \<and> stated_code a \<notin> set vector_codes)"
    proof -
      have "off_ladder (longs_of atoms) = [] \<longleftrightarrow> set (off_ladder (longs_of atoms)) = {}" by simp
      also have "\<dots> \<longleftrightarrow> \<not> (\<exists>a\<in>set atoms. 0 < ta_amount a \<and> stated_code a \<notin> set vector_codes)"
        unfolding off_ladder_def longs_of_def by auto
      finally show ?thesis .
    qed
    have ill: "long_in atoms (\<lambda>a. folded_code a = ''ILLIQUID'') = long_in atoms (\<lambda>a. ta_tier a = Some ''ILLIQUID'')"
    proof -
      have "folded_code a = ''ILLIQUID'' \<longleftrightarrow> ta_tier a = Some ''ILLIQUID''" for a
        by (auto simp: folded_code_def stated_code_def vector_codes_def tier_codes_def residual_code_def split: option.splits)
      then show ?thesis by simp
    qed
    have sh: "0 \<le> tb_share b \<and> tb_share b \<le> 1 \<and> \<bar>tb_share b - tb_long b / ?T\<bar> \<le> 1 / 10 ^ 6" if "b \<in> set bs" for b
      using that stored_share[OF long_in_props(2,5)[OF assms] pos] by (auto simp: bs_def tier_bucket_of_def)
    have "share_of bs ''ILLIQUID'' = tb_share (tier_bucket_of atoms ''ILLIQUID'')"
      unfolding bs_def by (rule share_of_tier) (simp add: vector_codes_def tier_codes_def)
    then have illiquid: "\<bar>share_of bs ''ILLIQUID'' - long_in atoms (\<lambda>a. ta_tier a = Some ''ILLIQUID'') / ?T\<bar> \<le> 1 / 10 ^ 6"
      using stored_share(4)[OF long_in_props(2,5)[OF assms] pos] by (simp add: tier_bucket_of_def ill[symmetric])
    have "\<bar>quantized 6 (ddiv 28 (?T - R) ?T) - (1 - R / ?T)\<bar> \<le> 1 / 10 ^ 6"
      using cov(4) pos by (simp add: diff_divide_distrib)
    then show ?thesis
      using False pos T tier_buckets[OF assms pos, folded bs_def] bucketed tiered qT cov(1) off sh illiquid
      by (auto simp: compute_liquidity_def longs_of_def[symmetric] Let_def R_def) (simp_all add: bs_def tier_bucket_of_def)
  qed
qed

definition sample_tiers :: "tier_atom list" where
  "sample_tiers =
     [\<lparr>ta_instrument = ''a'', ta_amount = 500, ta_tier = Some ''HIGHLY_LIQUID''\<rparr>,
      \<lparr>ta_instrument = ''b'', ta_amount = 300, ta_tier = Some ''ILLIQUID''\<rparr>,
      \<lparr>ta_instrument = ''c'', ta_amount = 150, ta_tier = None\<rparr>,
      \<lparr>ta_instrument = ''d'', ta_amount = 50, ta_tier = Some ''FROZEN''\<rparr>,
      \<lparr>ta_instrument = ''e'', ta_amount = - 75, ta_tier = Some ''ILLIQUID''\<rparr>]"

theorem liquidity_vector_loses_nothing_witness:
  "\<exists>r. compute_liquidity sample_tiers = Some r \<and> lb_total_long r = 1000 \<and> sum_list (map tb_long (lb_buckets r)) = 1000
     \<and> lb_gaps r = [OffLadder [''FROZEN'']] \<and> \<bar>lb_coverage_ratio r - 4 / 5\<bar> \<le> 1 / 10 ^ 6"
proof -
  have f: "tier_atoms_fit sample_tiers" by (simp add: tier_atoms_fit_def fits_book_def sample_tiers_def)
  have t: "long_in sample_tiers (\<lambda>_. True) = 1000" "long_in sample_tiers (\<lambda>a. folded_code a = residual_code) = 200"
    by (simp_all add: long_in_def longs_of_def sample_tiers_def folded_code_def stated_code_def vector_codes_def tier_codes_def residual_code_def)
  have o: "off_ladder (longs_of sample_tiers) = [''FROZEN'']"
    by (simp add: off_ladder_def longs_of_def sample_tiers_def stated_code_def vector_codes_def tier_codes_def residual_code_def)
  have e: "\<exists>a\<in>set sample_tiers. 0 < ta_amount a \<and> stated_code a \<notin> set vector_codes"
    by (simp add: sample_tiers_def stated_code_def vector_codes_def tier_codes_def residual_code_def)
  show ?thesis using liquidity_vector_loses_nothing[OF f] t o e by auto
qed

end
