(* ===== verification/Spec2Isabelle.thy ===== *)
theory Spec2Isabelle
  imports Operational_Tick Hs_Var Fx_Path Notification Transactions Holdings_View Pacing Concentration Liquidity
begin

text \<open>
  A verification development of the investment risk platform: its shared Python package
  (\<open>packages/shared-python/src/irp_shared\<close>, written below without that prefix) and its worker
  (\<open>apps/worker/src/irp_worker\<close>). A theory models the code it names operation by operation: a table is a list of rows in
  insertion order, a service call a function from the state and its arguments to an error or the new state, a raise is
  an error value (\<open>Inl\<close>), and one call is one transaction, so that a refused call leaves no trace.

  The program and how its parts interact. The platform keeps governed records of a tenant and an append-only
  audit log of everything done to them. Users act under entitlements; portfolios, holdings, marks, prices and rates are captured
  with their history; risk numbers are computed from captured inputs and compared with limits; a breach of a limit goes through a
  remediation lifecycle; a worker fires schedules, evaluates limits and escalates overdue breaches at every tick.

  Foundations.
  \<^item> \<open>Prelude\<close>: results (\<open>bindR\<close>), Python texts, datetimes and latest-row selection; the simplification sets
    \<open>res_simps\<close> and \<open>row_simps\<close>.
  \<^item> \<open>Calendar\<close>, \<open>Calmath\<close> (\<open>calmath.py\<close>): Python's calendar, business days, month ends.
  \<^item> \<open>Iso_Time\<close>, \<open>Json_Canon\<close> (\<open>audit/hashing.py\<close>): canonical instants and JSON; the text determines the value.
  \<^item> \<open>Ident\<close>, \<open>Users\<close>: UUID normalization and the actor identities built on it.
  \<^item> \<open>Decimal_Num\<close> (\<open>db/types.py\<close>): decimals as coefficient and exponent, the exact binding of a column.
    \<open>Decimal_Ctx\<close>: the rounding of a decimal context, as a locale \<open>rounding\<close> that the contexts of 28 and 50 digits
    and the quantization to a scale interpret.

  Governance.
  \<^item> \<open>Audit_Chain\<close> (\<open>audit/service.py\<close>, \<open>audit/queries.py\<close>): the hash chain, its verifier, checkpoints and windows. The
    hash is a parameter; the theorems that need it assume it injective and of length 64.
  \<^item> \<open>Entitlement\<close>, \<open>Entitlement_Catalog\<close>, \<open>Catalog_Sync\<close>, \<open>Entitlement_Admin\<close> (\<open>entitlement/\<close>): the permission check,
    the seeded roles, their delivery and revocation, the four-eyes administration. \<open>Tenancy\<close> (\<open>tenancy/\<close>): onboarding.
    \<open>uuid5\<close> is a parameter assumed injective where that matters.
  \<^item> \<open>Limit_Model\<close>, \<open>Limit_Rules\<close>, \<open>Limit_Service\<close> (\<open>limit/service.py\<close>): definition, maker-checker, evaluation and
    health of limits. \<open>Breach_Lifecycle\<close> (\<open>limit/lifecycle.py\<close>): the transition table, the actions and the escalations.
    \<open>Calc_Reads\<close>, \<open>Classification_Tree\<close>: the reads an evaluation depends on.
  \<^item> \<open>Schedule_Grid\<close>, \<open>Scheduling\<close> (\<open>scheduling/\<close>), \<open>Worker_Tick\<close>, \<open>Operational_Tick\<close> (the worker): cadence grids, due
    selection, dispatch with its ledger, and the tick that composes schedules, limits and deadlines. The binders that compute a
    family's numbers are a parameter with the named hypothesis that they leave the configuration tables alone. \<open>Notification\<close>
    (\<open>notification/\<close> and the worker's phase): the alarm queue, its attempt rows and the sinks.

  \<^item> \<open>Governed_Run\<close> (\<open>calc/service.py\<close>, \<open>calc/runs.py\<close>, \<open>calc/scaffold.py\<close>, \<open>lineage/service.py\<close>): the run record,
    its lineage and the lifecycle that every governed number shares. The computation of a number is an argument, its result table
    the parameter of the locale \<open>result_table\<close>. \<open>gates_only\<close> says that only the gates write the tenant's rules under their
    codes (without it a planted rule opens the gate, a finding) and \<open>draws_apart\<close> that rule ids are drawn apart.

  Captured data.
  \<^item> \<open>Dq\<close> (\<open>dq/\<close>): rule evaluators, checks and gates over Python values.
  \<^item> \<open>Portfolio_Tree\<close> (\<open>portfolio/portfolio.py\<close>): the hierarchy, its bounded walks and its history.
  \<^item> \<open>Bitemporal\<close>: the close-first protocol on two time axes that every full-reproducible binder writes out, with its
    invariant \<open>fr_wf\<close>, the as-of view it refines and the locale \<open>fr_binder\<close> of what a binder owes its readers.
    \<open>Captured_Holdings\<close> (\<open>position/\<close>, \<open>valuation/\<close>, \<open>reference/instrument_terms.py\<close>) and \<open>Market_Rates\<close>
    (\<open>marketdata/price.py\<close>, \<open>marketdata/service.py\<close>) interpret it on their tables; the market binders run the data-quality gate
    inside the protocol.
  \<^item> \<open>Fx_Path\<close> (\<open>marketdata/convert.py\<close>, \<open>marketdata/legs.py\<close>): conversion over published rates, live and from captured legs.
  \<^item> \<open>Reversal_Ledger\<close>: append-only rows with at most one reversal of each, as locales; \<open>Private_Capital\<close>
    (\<open>private_capital/\<close>) interprets them on the capital flows and adds the bitemporal commitments; \<open>Transactions\<close>
    (\<open>transaction/\<close>): the trade log with its idempotency key; \<open>Holdings_View\<close> (\<open>holdings/service.py\<close>): the reads
    that join the hierarchy with the captured positions and marks.

  Numbers.
  \<^item> \<open>Hs_Var\<close> (\<open>risk/var_hs_kernel.py\<close>): historical VaR and expected shortfall.
  \<^item> \<open>Shares\<close>: shares of a total at six places, and how far the rounding can take them from the exact quotient.
    \<open>Concentration\<close> (\<open>concentration/kernel.py\<close>) and \<open>Liquidity\<close> (\<open>liquidity/kernel.py\<close>): the two kernels over it.
  \<^item> \<open>Pacing_Kernel\<close> (\<open>pacing/pacing_kernel.py\<close>): the projection of a commitment, one period at a time, in a context of 50 digits;
    the power of the context is a parameter, which \<open>fraction_power\<close> keeps between zero and one on fractions. \<open>Pacing\<close>
    (\<open>pacing/service.py\<close>, the pacing builder of \<open>snapshot/service.py\<close>): snapshot, anchor, governed run, table and reads; it
    interprets \<open>result_table\<close>, and its sequences of operations interleave capital flows, snapshots and runs.

  What the lemmas show. Each stateful component has a well-formedness invariant and its preservation by every operation, carried to all
  runs by induction (reachable states, \<open>run_ops\<close>); the reads are characterized on well-formed states; the numeric kernels are
  compared with exact rational formulas under explicit bounds on the inputs; each property has a witness on a concrete state where its
  hypotheses hold.

  Histories. Who did what is taken from the calls and not from the columns the services write: \<open>limits_reachable\<close> keeps the log of the limit
  calls with the ids they presented, \<open>exec_breach\<close> takes the presented id of every lifecycle call, and \<open>same_user_id\<close> compares two
  presented ids as UUIDs. \<open>admin_step\<close> interleaves the administration calls of all tenants, on a clock that does not go back, and
  \<open>manned\<close> is the start from which the orphan check protects a tenant: an open-ended grant of its administrator role, and no
  grant of it already due to expire. \<open>market_exec\<close> mixes the market binders with registrations and updates of rules;
  \<open>gates_spared\<close> says that none of those tampers with the two positive gates, and \<open>planted_rule_admits_a_zero_rate\<close> what happens otherwise.
  The result about the tick is about \<open>run_operational_tick\<close> with all five phases: the notification and alarm phases are arguments of
  which only \<open>alarm_keeps\<close> is assumed.

  Bounds and fuel. Hierarchy walks are bounded by the code's own depth of 32, with no fuel of the model's. The supervisor loop runs a
  given number of cycles. \<open>decimal_scale\<close> looks for the scale of a decimal with a fuel of six more than its denominator, which is enough for every
  amount at six places (\<open>decimal_of_money\<close>). Every other loop is structural or has a measure.

  Conventions. The clock, the ids of new rows and the wall-clock of a call are arguments; row-level security is the tenant predicate of
  the modelled queries; a race that a unique index or an advisory lock settles is one sequential step. A \<open>Decimal\<close>
  in a kernel is the rational it denotes.

  Not modelled: the HTTP layer, the storage types and migrations (their check constraints for schedules apart), the builders of the
  snapshot service other than the pacing one and its hashes, the reproduction and report services, the binders of concentration and
  liquidity, the remaining risk, performance and exposure services and the bootstraps (the parameters a model version declares are an
  argument of the pacing binder), the reproduction alarms, file ingestion and mapping, model validation, the remaining market-data series,
  the demo and synthetic data, the deployment scripts and the frontend.
\<close>

end
